(* ===== verification/Visage_Prelude.thy ===== *)
theory Visage_Prelude
  imports Main "HOL-Library.Word" "HOL-Library.Code_Target_Nat"
begin

text \<open>
  Vocabulary shared by every component: bytes and the ASCII classes the C code tests with range
  comparisons, C strings, the project's error codes, machine words, decimal printing, and the
  generic list lemmas the component proofs rest on.

  A C \<open>char\<close> is an HOL \<open>char\<close> (eight bits); \<open>byte\<close> reads it as the unsigned number that the code
  compares. A buffer with an explicit length is a \<open>string\<close>; a cursor \<open>i\<close> into a buffer of length
  \<open>len\<close> is the suffix \<open>buf[i..len)\<close>, so the loop \<open>while (i < len) ... i++\<close> is a recursion on that
  suffix. A NUL-terminated string is the list of the bytes before its terminator (\<open>cstr\<close>).
\<close>

section \<open>Machine words and error codes\<close>

type_synonym u32 = "32 word"
type_synonym u64 = "64 word"

text \<open>The negative \<open>VISAGE_*\<close> codes of \<open>visage.h\<close>; \<open>VISAGE_OK\<close> is the \<open>Inr\<close> side of a result.\<close>

datatype visage_error = VISAGE_ERR | VISAGE_ENOMEM | VISAGE_EPARAM | VISAGE_ECONF | VISAGE_ESTORE

type_synonym 'a visage_result = "visage_error + 'a"

definition SIZE_MAX :: int where
  "SIZE_MAX = 18446744073709551615"

abbreviation UINT32_MAX :: u32 where
  "UINT32_MAX \<equiv> 0xFFFFFFFF"

lemma u32_less: "unat (v::u32) < 4294967296"
  using unsigned_less [of v] by simp

lemma u32_of_nat: "n < 4294967296 \<Longrightarrow> unat (of_nat n :: u32) = n"
  by (simp add: unat_of_nat take_bit_nat_eq_self)

lemma u32_Suc: "(m::u32) + 1 \<noteq> 0 \<Longrightarrow> unat (m + 1) = unat m + 1"
proof -
  assume a: "m + 1 \<noteq> 0"
  have "unat m \<noteq> 4294967295"
  proof
    assume "unat m = 4294967295"
    then have "unat m = unat (4294967295::u32)" by simp
    then have "m = 4294967295" by (rule unsigned_word_eqI)
    with a show False by simp
  qed
  then have "unat m + 1 < 4294967296" using u32_less [of m] by linarith
  then show ?thesis by (subst unat_add_lem [THEN iffD1]) auto
qed

section \<open>Bytes\<close>

abbreviation byte :: "char \<Rightarrow> nat" where
  "byte c \<equiv> of_char c"

abbreviation NUL :: char where "NUL \<equiv> CHR 0x00"
abbreviation HT :: char where "HT \<equiv> CHR 0x09"
abbreviation LF :: char where "LF \<equiv> CHR 0x0A"
abbreviation CR :: char where "CR \<equiv> CHR 0x0D"
abbreviation SP :: char where "SP \<equiv> CHR 0x20"
abbreviation DQ :: char where "DQ \<equiv> CHR 0x22"
abbreviation BSL :: char where "BSL \<equiv> CHR 0x5C"
abbreviation DOT :: char where "DOT \<equiv> CHR ''.''"
abbreviation AT :: char where "AT \<equiv> CHR 0x40"

abbreviation CRLF :: string where "CRLF \<equiv> [CR, LF]"

named_theorems byte_class \<open>definitions of the ASCII character classes\<close>

definition is_upper :: "char \<Rightarrow> bool" where
  [byte_class]: "is_upper c \<longleftrightarrow> 65 \<le> byte c \<and> byte c \<le> 90"

definition is_lower :: "char \<Rightarrow> bool" where
  [byte_class]: "is_lower c \<longleftrightarrow> 97 \<le> byte c \<and> byte c \<le> 122"

definition is_digit :: "char \<Rightarrow> bool" where
  [byte_class]: "is_digit c \<longleftrightarrow> 48 \<le> byte c \<and> byte c \<le> 57"

definition is_eol :: "char \<Rightarrow> bool" where
  [byte_class]: "is_eol c \<longleftrightarrow> c = CR \<or> c = LF"

definition is_wsp :: "char \<Rightarrow> bool" where
  [byte_class]: "is_wsp c \<longleftrightarrow> c = SP \<or> c = HT"

text \<open>The folding \<open>if (c >= 'A' && c <= 'Z') c += 32\<close> that every comparison in the code inlines.\<close>

definition to_lower :: "char \<Rightarrow> char" where
  "to_lower c = (if is_upper c then char_of (byte c + 32) else c)"

definition digit_val :: "char \<Rightarrow> nat" where
  "digit_val c = byte c - 48"

lemma byte_less: "byte c < 256"
  by (metis char_of_char char_of_mod_256 of_char_of mod_less_divisor zero_less_numeral)

lemma byte_inject [simp]: "byte c = byte d \<longleftrightarrow> c = d"
  by simp

lemma byte_to_lower: "byte (to_lower c) = (if is_upper c then byte c + 32 else byte c)"
  by (simp add: to_lower_def is_upper_def of_char_of)

lemma to_lower_not_upper [simp]: "\<not> is_upper (to_lower c)"
  by (simp add: is_upper_def byte_to_lower)

lemma to_lower_idem [simp]: "to_lower (to_lower c) = to_lower c"
  by (simp add: to_lower_def [of "to_lower c"])

lemma to_lower_small: "byte c < 65 \<Longrightarrow> to_lower c = c"
  by (simp add: to_lower_def is_upper_def)

lemma is_eol_simps [simp]: "is_eol CR" "is_eol LF" "\<not> is_eol SP" "\<not> is_eol HT" "\<not> is_eol DOT"
  "\<not> is_eol (CHR '':'')"
  by (simp_all add: is_eol_def)

lemma is_wsp_simps [simp]: "is_wsp SP" "is_wsp HT" "\<not> is_wsp CR" "\<not> is_wsp LF"
  by (simp_all add: is_wsp_def)

section \<open>C strings\<close>

definition cstr :: "string \<Rightarrow> string" where
  "cstr s = takeWhile (\<lambda>c. c \<noteq> NUL) s"

definition nul_free :: "string \<Rightarrow> bool" where
  "nul_free s \<longleftrightarrow> NUL \<notin> set s"

lemma nul_free_cstr [simp]: "nul_free (cstr s)"
  by (auto simp: nul_free_def cstr_def dest: set_takeWhileD)

lemma cstr_id: "nul_free s \<Longrightarrow> cstr s = s"
  by (auto simp: nul_free_def cstr_def takeWhile_eq_all_conv)

section \<open>Trimming and splitting\<close>

definition ltrim :: "string \<Rightarrow> string" where
  "ltrim s = dropWhile is_wsp s"

definition rtrim :: "string \<Rightarrow> string" where
  "rtrim s = rev (dropWhile is_wsp (rev s))"

lemma rtrim_snoc [simp]: "rtrim (s @ [c]) = (if is_wsp c then rtrim s else s @ [c])"
  by (simp add: rtrim_def)

lemma rtrim_Nil [simp]: "rtrim [] = []"
  by (simp add: rtrim_def)

lemma rtrim_id: "s \<noteq> [] \<Longrightarrow> \<not> is_wsp (last s) \<Longrightarrow> rtrim s = s"
  by (cases s rule: rev_cases) auto

lemma ltrim_id: "s \<noteq> [] \<Longrightarrow> \<not> is_wsp (hd s) \<Longrightarrow> ltrim s = s"
  by (cases s) (auto simp: ltrim_def)

lemma set_rtrim: "set (rtrim s) \<subseteq> set s"
  by (auto simp: rtrim_def dest: set_dropWhileD)

lemma set_ltrim: "set (ltrim s) \<subseteq> set s"
  by (auto simp: ltrim_def dest: set_dropWhileD)

lemma length_dropWhile_less: "s \<noteq> [] \<Longrightarrow> P (hd s) \<Longrightarrow> length (dropWhile P s) < length s"
  by (cases s) (auto simp: less_Suc_eq_le length_dropWhile_le)

lemma takeWhile_all: "(\<And>x. x \<in> set xs \<Longrightarrow> P x) \<Longrightarrow> takeWhile P (xs @ ys) = xs @ takeWhile P ys"
  by (simp add: takeWhile_append2)

lemma dropWhile_all: "(\<And>x. x \<in> set xs \<Longrightarrow> P x) \<Longrightarrow> dropWhile P (xs @ ys) = dropWhile P ys"
  by (simp add: dropWhile_append2)

lemma take2_iff: "2 \<le> length x \<Longrightarrow> take 2 x = [i, j] \<longleftrightarrow> x ! 0 = i \<and> x ! 1 = j"
  by (cases x; cases "tl x") (auto simp: numeral_2_eq_2)

section \<open>Case-insensitive comparison\<close>

text \<open>
  The comparison loop over exactly \<open>n\<close> bytes that \<open>ascii_ieq\<close>, \<open>ascii_ieq_len\<close> and \<open>http_ci_eq\<close>
  share; its callers have compared the lengths before.
\<close>

fun ascii_ieq :: "string \<Rightarrow> string \<Rightarrow> nat \<Rightarrow> bool" where
  "ascii_ieq a b 0 = True"
| "ascii_ieq (x # a) (y # b) (Suc n) =
     (if to_lower x \<noteq> to_lower y then False else ascii_ieq a b n)"
| "ascii_ieq _ _ (Suc n) = False"

lemma ascii_ieq_code [code]:
  "ascii_ieq a b n =
     (if n = 0 then True
      else case a of [] \<Rightarrow> False
        | x # a' \<Rightarrow> (case b of [] \<Rightarrow> False
          | y # b' \<Rightarrow> if to_lower x \<noteq> to_lower y then False else ascii_ieq a' b' (n - 1)))"
  by (cases n; cases a; cases b) auto

lemma ascii_ieq_iff:
  "length a = n \<Longrightarrow> length b = n \<Longrightarrow> ascii_ieq a b n \<longleftrightarrow> map to_lower a = map to_lower b"
  by (induction a b n rule: ascii_ieq.induct) auto

lemma ascii_ieq_take:
  "n \<le> length a \<Longrightarrow> n \<le> length b \<Longrightarrow>
   ascii_ieq a b n \<longleftrightarrow> map to_lower (take n a) = map to_lower (take n b)"
  by (induction a b n rule: ascii_ieq.induct) auto

text \<open>Case-insensitive equality of two names, as the callers build it: equal lengths first.\<close>

definition name_eq :: "string \<Rightarrow> string \<Rightarrow> bool" where
  "name_eq a b \<longleftrightarrow> length a = length b \<and> ascii_ieq a b (length b)"

lemma name_eq_iff: "name_eq a b \<longleftrightarrow> map to_lower a = map to_lower b"
  by (metis ascii_ieq_iff length_map name_eq_def)

lemma name_eq_refl [simp]: "name_eq a a"
  by (simp add: name_eq_iff)

lemma name_eq_sym: "name_eq a b \<longleftrightarrow> name_eq b a"
  by (auto simp: name_eq_iff)

lemma name_eq_trans: "name_eq a b \<Longrightarrow> name_eq b c \<Longrightarrow> name_eq a c"
  by (simp add: name_eq_iff)

section \<open>Decimal printing\<close>

text \<open>The \<open>%u\<close> conversion of \<open>snprintf\<close>.\<close>

fun dec_of_nat :: "nat \<Rightarrow> string" where
  "dec_of_nat n = (if n < 10 then [char_of (48 + n)] else dec_of_nat (n div 10) @ [char_of (48 + n mod 10)])"

declare dec_of_nat.simps [simp del]

lemma dec_digit: "n < 10 \<Longrightarrow> is_digit (char_of (48 + n))" "n < 10 \<Longrightarrow> digit_val (char_of (48 + n)) = n"
  by (simp_all add: is_digit_def digit_val_def of_char_of)

lemma dec_of_nat_digits: "\<forall>c \<in> set (dec_of_nat n). is_digit c"
proof (induction n rule: dec_of_nat.induct)
  case (1 n)
  then show ?case
    by (subst dec_of_nat.simps) (auto simp: dec_digit)
qed

lemma dec_of_nat_nonempty [simp]: "dec_of_nat n \<noteq> []"
  by (subst dec_of_nat.simps) simp

lemma dec_of_nat_value: "foldl (\<lambda>v c. v * 10 + digit_val c) 0 (dec_of_nat n) = n"
proof (induction n rule: dec_of_nat.induct)
  case (1 n)
  then show ?case
    by (subst dec_of_nat.simps) (auto simp: dec_digit)
qed

section \<open>Interfaces every component uses\<close>

text \<open>
  A coding with a left inverse on the values it is meant for. Dot-stuffing, JSON string escaping
  and the reverse-alias address are instances; what the clients rely on is that distinct values
  stay distinct on the wire.
\<close>

locale coding =
  fixes enc :: "'a \<Rightarrow> 'b" and dec :: "'b \<Rightarrow> 'a option" and valid :: "'a \<Rightarrow> bool"
  assumes dec_enc: "valid x \<Longrightarrow> dec (enc x) = Some x"
begin

lemma enc_inj: "valid x \<Longrightarrow> valid y \<Longrightarrow> enc x = enc y \<Longrightarrow> x = y"
  by (metis dec_enc option.inject)

lemma dec_of_enc_not_None: "valid x \<Longrightarrow> dec (enc x) \<noteq> None"
  by (simp add: dec_enc)

end

text \<open>
  A deterministic component driven by a sequence of events: an invariant that every step keeps
  holds after every run.
\<close>

locale stepwise =
  fixes step :: "'s \<Rightarrow> 'e \<Rightarrow> 's" and inv :: "'s \<Rightarrow> bool"
  assumes step_inv: "inv s \<Longrightarrow> inv (step s e)"
begin

lemma run_inv: "inv s \<Longrightarrow> inv (foldl step s es)"
  by (induction es arbitrary: s) (auto simp: step_inv)

lemma run_prefix_inv: "inv s \<Longrightarrow> inv (foldl step s (take n es))"
  by (rule run_inv)

end

end
