(* ===== verification/Mail_Address.thy ===== *)
theory Mail_Address
  imports Visage_Prelude
begin

text \<open>
  Strict address parsing of \<open>mail.c\<close>: \<open>mail_addr_parse\<close> and its helpers. A pointer into the string
  is the suffix it points at. The dot-atom recognizer is proved equivalent to its grammar, and the
  parser is proved sound (only printable ASCII, both halves well formed, nothing lost) and complete
  for the bare and the angle-bracket form.
\<close>

section \<open>Character classes\<close>

definition is_atext :: "char \<Rightarrow> bool" where
  "is_atext c \<longleftrightarrow> is_lower c \<or> is_upper c \<or> is_digit c
     \<or> c \<in> set [CHR ''!'', CHR ''#'', CHR ''$'', CHR ''%'', CHR ''&'', CHR 0x27,
                 CHR ''*'', CHR ''+'', CHR ''-'', CHR ''/'', CHR ''='', CHR ''?'',
                 CHR ''^'', CHR ''_'', CHR 0x60, CHR ''{'', CHR ''|'', CHR ''}'', CHR ''~'']"

definition is_printable :: "char \<Rightarrow> bool" where
  "is_printable c \<longleftrightarrow> 0x20 \<le> byte c \<and> byte c \<le> 0x7E"

section \<open>Dot-atoms and domains\<close>

fun dot_atom_loop :: "bool \<Rightarrow> string \<Rightarrow> bool" where
  "dot_atom_loop prev_dot [] = True"
| "dot_atom_loop prev_dot (c # cs) =
     (if c = DOT then (if prev_dot then False else dot_atom_loop True cs)
      else if \<not> is_atext c then False
      else dot_atom_loop False cs)"

definition dot_atom_ok :: "string \<Rightarrow> bool" where
  "dot_atom_ok s =
     (if s = [] then False
      else if hd s = DOT \<or> last s = DOT then False
      else dot_atom_loop False s)"

fun domain_literal_loop :: "string \<Rightarrow> bool" where
  "domain_literal_loop [] = True"
| "domain_literal_loop (c # cs) =
     (if byte c < 0x21 \<or> byte c > 0x7E then False
      else if c = CHR ''['' \<or> c = CHR '']'' \<or> c = AT then False
      else domain_literal_loop cs)"

definition domain_ok :: "string \<Rightarrow> bool" where
  "domain_ok s =
     (if s = [] then False
      else if hd s = CHR ''['' then
        (if length s < 3 then False
         else if last s \<noteq> CHR '']'' then False
         else domain_literal_loop (butlast (tl s)))
      else if AT \<in> set s then False
      else dot_atom_ok s)"

section \<open>Quoted local parts\<close>

text \<open>
  The scan loop of \<open>quoted_local_ok\<close>, from just past the opening quote: \<open>Some\<close> of the flag
  \<open>saw_content\<close> and the suffix at the closing quote, or \<open>None\<close> for a rejection.
\<close>

fun quoted_scan :: "bool \<Rightarrow> string \<Rightarrow> (bool \<times> string) option" where
  "quoted_scan saw [] = None"
| "quoted_scan saw [c] =
     (if c = BSL then None
      else if c = DQ then Some (saw, [c])
      else None)"
| "quoted_scan saw (c # d # ds) =
     (if c = BSL then (if \<not> is_printable d then None else quoted_scan True ds)
      else if c = DQ then Some (saw, c # d # ds)
      else if \<not> is_printable c then None
      else quoted_scan True (d # ds))"

text \<open>The result is the suffix at the \<open>'@'\<close> separator (\<open>*at_out\<close>).\<close>

definition quoted_local_ok :: "string \<Rightarrow> string option" where
  "quoted_local_ok start =
     (case quoted_scan False (tl start) of
        None \<Rightarrow> None
      | Some (saw_content, p) \<Rightarrow>
          if \<not> saw_content then None
          else (case tl p of
                  [] \<Rightarrow> None
                | q # qs \<Rightarrow> if q \<noteq> AT then None else Some (q # qs)))"

text \<open>
  The pass that rejects \<open>'<'\<close> and \<open>'>'\<close> outside quoted strings; \<open>in_q\<close> is the inner loop between
  two quotes, where a backslash skips the next byte when there is one.
\<close>

fun stray_angle :: "bool \<Rightarrow> string \<Rightarrow> bool" where
  "stray_angle in_q [] = False"
| "stray_angle in_q (c # cs) =
     (if in_q then
        (if c = DQ then stray_angle False cs
         else if c = BSL then (case cs of [] \<Rightarrow> False | d # ds \<Rightarrow> stray_angle True ds)
         else stray_angle True cs)
      else if c = DQ then stray_angle True cs
      else if c = CHR ''<'' \<or> c = CHR ''>'' then True
      else stray_angle False cs)"

section \<open>The parser\<close>

text \<open>The body between the optional angle brackets, or \<open>None\<close> when they are unbalanced or empty.\<close>

definition addr_unwrap :: "string \<Rightarrow> string option" where
  "addr_unwrap s =
     (let body = rtrim (ltrim s) in
      if body = [] then None
      else if hd body = CHR ''<'' then
        (if last body \<noteq> CHR ''>'' then None
         else let inner = butlast (tl body) in if inner = [] then None else Some inner)
      else Some body)"

text \<open>The suffix at the separating \<open>'@'\<close>.\<close>

definition addr_at :: "string \<Rightarrow> string option" where
  "addr_at start =
     (if hd start = DQ then quoted_local_ok start
      else
        let at = dropWhile (\<lambda>c. c \<noteq> AT) start in
        if at = [] then None
        else if AT \<in> set (tl at) then None
        else if \<not> dot_atom_ok (takeWhile (\<lambda>c. c \<noteq> AT) start) then None
        else Some at)"

definition mail_addr_parse :: "string \<Rightarrow> (string \<times> string) option" where
  "mail_addr_parse s =
     (case addr_unwrap s of
        None \<Rightarrow> None
      | Some start \<Rightarrow>
          if stray_angle False start then None
          else (case addr_at start of
                  None \<Rightarrow> None
                | Some at \<Rightarrow>
                    if \<not> domain_ok (tl at) then None
                    else Some (take (length start - length at) start, tl at)))"

section \<open>The dot-atom grammar\<close>

text \<open>RFC 5322 dot-atom-text: nonempty runs of atext joined by single dots.\<close>

fun join_dots :: "string list \<Rightarrow> string" where
  "join_dots [] = []"
| "join_dots [a] = a"
| "join_dots (a # b # as) = a @ DOT # join_dots (b # as)"

definition is_atom :: "string \<Rightarrow> bool" where
  "is_atom a \<longleftrightarrow> a \<noteq> [] \<and> (\<forall>c \<in> set a. is_atext c)"

definition is_dot_atom :: "string \<Rightarrow> bool" where
  "is_dot_atom s \<longleftrightarrow> (\<exists>as. as \<noteq> [] \<and> (\<forall>a \<in> set as. is_atom a) \<and> s = join_dots as)"

lemma not_atext [simp]:
  "\<not> is_atext DOT" "\<not> is_atext AT" "\<not> is_atext DQ" "\<not> is_atext (CHR ''<'')" "\<not> is_atext (CHR ''>'')"
  "\<not> is_atext (CHR ''['')" "\<not> is_atext SP" "\<not> is_atext HT"
  by (auto simp: is_atext_def byte_class)

lemma atext_not_wsp: "is_atext c \<Longrightarrow> \<not> is_wsp c"
  by (auto simp: is_wsp_def)

lemma atext_printable: "is_atext c \<Longrightarrow> is_printable c"
  by (auto simp: is_atext_def byte_class is_printable_def)

lemma dot_atom_loop_atom: "is_atom a \<Longrightarrow> dot_atom_loop p (a @ r) = dot_atom_loop False r"
proof -
  have "\<forall>c \<in> set a. is_atext c \<Longrightarrow> a \<noteq> [] \<Longrightarrow> dot_atom_loop p (a @ r) = dot_atom_loop False r"
  proof (induction a arbitrary: p)
    case (Cons c cs)
    then show ?case by (cases cs) auto
  qed simp
  then show "is_atom a \<Longrightarrow> dot_atom_loop p (a @ r) = dot_atom_loop False r"
    by (simp add: is_atom_def)
qed

lemma join_dots_nonempty: "as \<noteq> [] \<Longrightarrow> \<forall>a \<in> set as. is_atom a \<Longrightarrow> join_dots as \<noteq> []"
  by (induction as rule: join_dots.induct) (auto simp: is_atom_def)

lemma hd_join_dots: "as \<noteq> [] \<Longrightarrow> \<forall>a \<in> set as. is_atom a \<Longrightarrow> hd (join_dots as) = hd (hd as)"
  by (induction as rule: join_dots.induct) (auto simp: is_atom_def)

lemma last_join_dots: "as \<noteq> [] \<Longrightarrow> \<forall>a \<in> set as. is_atom a \<Longrightarrow> last (join_dots as) = last (last as)"
  by (induction as rule: join_dots.induct) (auto simp: is_atom_def join_dots_nonempty)

lemma dot_atom_loop_join:
  "as \<noteq> [] \<Longrightarrow> \<forall>a \<in> set as. is_atom a \<Longrightarrow> dot_atom_loop p (join_dots as)"
proof (induction as arbitrary: p rule: join_dots.induct)
  case (2 a)
  then show ?case using dot_atom_loop_atom [of a p "[]"] by simp
next
  case (3 a b as)
  then show ?case by (simp add: dot_atom_loop_atom)
qed simp

lemma dot_atom_ok_join:
  assumes "as \<noteq> []" "\<forall>a \<in> set as. is_atom a"
  shows "dot_atom_ok (join_dots as)"
proof -
  have "is_atom (hd as)" "is_atom (last as)" using assms by auto
  then have "is_atext (hd (hd as))" "is_atext (last (last as))"
    by (auto simp: is_atom_def)
  then show ?thesis
    using assms by (auto simp: dot_atom_ok_def join_dots_nonempty hd_join_dots last_join_dots dot_atom_loop_join)
qed

lemma dot_atom_loop_set: "dot_atom_loop p s \<Longrightarrow> c \<in> set s \<Longrightarrow> c = DOT \<or> is_atext c"
  by (induction s arbitrary: p) (auto split: if_splits)

lemma dot_atom_loop_split:
  "dot_atom_loop False s \<Longrightarrow> s \<noteq> [] \<Longrightarrow> hd s \<noteq> DOT \<Longrightarrow> last s \<noteq> DOT \<Longrightarrow> is_dot_atom s"
proof (induction s rule: length_induct)
  case (1 s)
  have "is_atext (hd s)" using 1(2-4) dot_atom_loop_set hd_in_set by blast
  then have "is_atom (takeWhile is_atext s)"
    using 1(3) by (cases s) (auto simp: is_atom_def dest: set_takeWhileD)
  moreover have "dropWhile is_atext s = [] \<or> \<not> is_atext (hd (dropWhile is_atext s))"
    using hd_dropWhile by blast
  ultimately obtain a r where s: "s = a @ r" and a: "is_atom a" and r: "r = [] \<or> \<not> is_atext (hd r)"
    by (metis takeWhile_dropWhile_id)
  have loop: "dot_atom_loop False r" using 1(2) by (simp add: s dot_atom_loop_atom [OF a])
  show ?case
  proof (cases r)
    case Nil
    with s a show ?thesis unfolding is_dot_atom_def by (intro exI [of _ "[a]"]) simp
  next
    case (Cons d t)
    with loop r have d: "d = DOT" and lt: "dot_atom_loop True t" by (auto split: if_splits)
    have "t \<noteq> []" using 1(5) s Cons d by auto
    then have t: "hd t \<noteq> DOT" "last t \<noteq> DOT" "dot_atom_loop False t"
      using lt 1(5) s Cons by (cases t; auto split: if_splits)+
    have "length t < length s" using s Cons by simp
    with 1(1) t \<open>t \<noteq> []\<close> obtain as where as: "as \<noteq> []" "\<forall>b \<in> set as. is_atom b" "t = join_dots as"
      unfolding is_dot_atom_def by blast
    have "s = join_dots (a # as)" using s Cons d as by (cases as) auto
    then show ?thesis using a as unfolding is_dot_atom_def by (intro exI [of _ "a # as"]) simp
  qed
qed

lemma dot_atom_ok_printable: "dot_atom_ok s \<Longrightarrow> c \<in> set s \<Longrightarrow> is_printable c \<and> c \<noteq> AT \<and> c \<noteq> DQ \<and> c \<noteq> CHR ''<'' \<and> c \<noteq> CHR ''>''"
  using dot_atom_loop_set [of False s c] atext_printable [of c]
  by (auto simp: dot_atom_ok_def is_printable_def split: if_splits)

text \<open>
  The single-pass recognizer \<open>dot_atom_ok\<close> accepts exactly the dot-atoms of RFC 5322: one or
  more nonempty runs of atext joined by single dots.
\<close>

theorem dot_atom_ok_grammar: "dot_atom_ok s \<longleftrightarrow> is_dot_atom s"
proof
  assume "dot_atom_ok s"
  then show "is_dot_atom s"
    by (auto simp: dot_atom_ok_def split: if_splits intro: dot_atom_loop_split)
next
  assume "is_dot_atom s"
  then show "dot_atom_ok s"
    by (auto simp: is_dot_atom_def intro: dot_atom_ok_join)
qed

section \<open>Soundness and completeness of the parser\<close>

lemma dot_atom_ends:
  assumes "dot_atom_ok s"
  shows "s \<noteq> []" "is_atext (hd s)" "is_atext (last s)"
proof -
  from assms show "s \<noteq> []" by (simp add: dot_atom_ok_def split: if_splits)
  with assms show "is_atext (hd s)" "is_atext (last s)"
    using dot_atom_loop_set [of False s "hd s"] dot_atom_loop_set [of False s "last s"]
    by (auto simp: dot_atom_ok_def split: if_splits)
qed

lemma domain_literal_loop_iff:
  "domain_literal_loop s \<longleftrightarrow>
   (\<forall>c \<in> set s. 0x21 \<le> byte c \<and> byte c \<le> 0x7E \<and> c \<noteq> CHR ''['' \<and> c \<noteq> CHR '']'' \<and> c \<noteq> AT)"
  by (induction s) auto

lemma bracketed_split: "3 \<le> length s \<Longrightarrow> s = hd s # butlast (tl s) @ [last s]"
  by (cases s; cases "tl s" rule: rev_cases) auto

lemma domain_ok_props:
  assumes "domain_ok s"
  shows "s \<noteq> []" "c \<in> set s \<Longrightarrow> is_printable c \<and> c \<noteq> AT" "\<not> is_wsp (last s)" "hd s \<noteq> CHR ''<''"
proof -
  show "s \<noteq> []" using assms by (simp add: domain_ok_def split: if_splits)
  have *: "(c \<in> set s \<longrightarrow> is_printable c \<and> c \<noteq> AT) \<and> \<not> is_wsp (last s) \<and> hd s \<noteq> CHR ''<''"
  proof (cases "hd s = CHR ''[''")
    case True
    with assms have len: "3 \<le> length s" and l: "last s = CHR '']''" and b: "domain_literal_loop (butlast (tl s))"
      by (auto simp: domain_ok_def split: if_splits)
    have "set s = set (hd s # butlast (tl s) @ [last s])"
      by (rule arg_cong [OF bracketed_split [OF len]])
    then have "c \<in> set s \<Longrightarrow> c = CHR ''['' \<or> c = CHR '']'' \<or> c \<in> set (butlast (tl s))"
      using True l by auto
    moreover have "c \<in> set (butlast (tl s)) \<Longrightarrow> is_printable c \<and> c \<noteq> AT"
      using b by (fastforce simp: domain_literal_loop_iff is_printable_def)
    ultimately have "c \<in> set s \<Longrightarrow> is_printable c \<and> c \<noteq> AT"
      by (auto simp: is_printable_def)
    with True l show ?thesis by (simp add: is_wsp_def)
  next
    case False
    with assms have d: "dot_atom_ok s" and a: "AT \<notin> set s"
      by (auto simp: domain_ok_def split: if_splits)
    show ?thesis
      using dot_atom_ok_printable [OF d] a atext_not_wsp dot_atom_ends [OF d] by auto
  qed
  then show "c \<in> set s \<Longrightarrow> is_printable c \<and> c \<noteq> AT" "\<not> is_wsp (last s)" "hd s \<noteq> CHR ''<''"
    by auto
qed

lemma quoted_scan_split:
  "quoted_scan saw s = Some (saw', p) \<Longrightarrow>
   \<exists>pre. s = pre @ p \<and> p \<noteq> [] \<and> hd p = DQ \<and> (\<forall>c \<in> set pre. is_printable c) \<and> (saw' \<longrightarrow> saw \<or> pre \<noteq> [])"
proof (induction saw s rule: quoted_scan.induct)
  case (2 saw c)
  then show ?case by (auto split: if_splits)
next
  case (3 saw c d ds)
  consider "c = BSL" | "c = DQ" | "c \<noteq> BSL" "c \<noteq> DQ" by blast
  then show ?case
  proof cases
    case 1
    with 3 obtain pre where "ds = pre @ p" "p \<noteq> []" "hd p = DQ" "\<forall>c \<in> set pre. is_printable c" "is_printable d"
      by (auto split: if_splits)
    with 1 show ?thesis by (intro exI [of _ "c # d # pre"]) (auto simp: is_printable_def)
  next
    case 2
    with 3 show ?thesis by auto
  next
    case 33: 3
    with 3 obtain pre where "d # ds = pre @ p" "p \<noteq> []" "hd p = DQ" "\<forall>c \<in> set pre. is_printable c" "is_printable c"
      by (auto split: if_splits)
    then show ?thesis by (intro exI [of _ "c # pre"]) auto
  qed
qed simp

text \<open>A local part as the parser accepts it: a dot-atom, or a nonempty quoted string.\<close>

definition local_ok :: "string \<Rightarrow> bool" where
  "local_ok l \<longleftrightarrow> dot_atom_ok l \<or> (3 \<le> length l \<and> hd l = DQ \<and> last l = DQ \<and> (\<forall>c \<in> set l. is_printable c))"

lemma local_ok_printable: "local_ok l \<Longrightarrow> c \<in> set l \<Longrightarrow> is_printable c"
  using dot_atom_ok_printable by (auto simp: local_ok_def)

lemma local_ok_nonempty: "local_ok l \<Longrightarrow> l \<noteq> []"
  by (auto simp: local_ok_def dot_atom_ok_def split: if_splits)

lemma addr_at_split:
  assumes "addr_at start = Some at" "start \<noteq> []"
  shows "\<exists>l d. start = l @ at \<and> at = AT # d \<and> local_ok l"
proof (cases "hd start = DQ")
  case True
  with assms have "quoted_local_ok start = Some at" by (simp add: addr_at_def)
  then obtain p q where scan: "quoted_scan False (tl start) = Some (True, p)" and p: "tl p = at" and at: "at = AT # q"
    by (auto simp: quoted_local_ok_def split: option.splits list.splits if_splits)
  from quoted_scan_split [OF scan] obtain pre where pre: "tl start = pre @ p" "p \<noteq> []" "hd p = DQ"
    "\<forall>c \<in> set pre. is_printable c" "pre \<noteq> []" by auto
  then have "start = (DQ # pre @ [DQ]) @ at"
    using True assms(2) p by (cases start; cases p) auto
  moreover have "local_ok (DQ # pre @ [DQ])"
    using pre by (cases pre) (auto simp: local_ok_def is_printable_def)
  ultimately show ?thesis using at by blast
next
  case False
  let ?l = "takeWhile (\<lambda>c. c \<noteq> AT) start"
  from False assms have at: "at = dropWhile (\<lambda>c. c \<noteq> AT) start" "at \<noteq> []" and l: "dot_atom_ok ?l"
    by (auto simp: addr_at_def Let_def split: if_splits)
  have "start = ?l @ at" using at by simp
  moreover have "hd at = AT" using at hd_dropWhile [of "\<lambda>c. c \<noteq> AT" start] by auto
  ultimately show ?thesis using at(2) l by (metis list.exhaust_sel local_ok_def)
qed

text \<open>
  C39. Soundness of \<open>mail_addr_parse\<close>: an accepted string is, after trimming and removing one pair
  of angle brackets, exactly \<open>local@domain\<close> with a well-formed local part and domain; every byte of
  the address is printable ASCII, so no CR, LF, NUL or other control byte can reach a header or an
  SMTP command through it, and the domain holds no second \<open>'@'\<close>.
\<close>

theorem mail_addr_parse_sound:
  assumes "mail_addr_parse s = Some (l, d)"
  shows "addr_unwrap s = Some (l @ AT # d) \<and> local_ok l \<and> domain_ok d
    \<and> AT \<notin> set d \<and> (\<forall>c \<in> set (l @ AT # d). is_printable c)"
proof -
  from assms obtain start at where u: "addr_unwrap s = Some start" and at: "addr_at start = Some at"
    and d: "domain_ok (tl at)" "d = tl at" and l: "l = take (length start - length at) start"
    by (auto simp: mail_addr_parse_def split: option.splits if_splits)
  have "start \<noteq> []" using u by (auto simp: addr_unwrap_def Let_def split: if_splits)
  from addr_at_split [OF at this] obtain l' d' where sp: "start = l' @ at" "at = AT # d'" "local_ok l'" by blast
  with l d have ld: "l = l'" "d = d'" by auto
  have "\<forall>c \<in> set (l @ AT # d). is_printable c"
    using local_ok_printable [OF sp(3)] domain_ok_props(2) [OF d(1)] sp(2) ld by (auto simp: is_printable_def)
  then show ?thesis
    using u sp ld d domain_ok_props(2) [OF d(1)] by auto
qed

theorem mail_addr_parse_sound_witness:
  "mail_addr_parse '' <bob.smith@example.org> '' = Some (''bob.smith'', ''example.org'')
   \<and> addr_unwrap '' <bob.smith@example.org> '' = Some (''bob.smith'' @ AT # ''example.org'')"
proof -
  have "mail_addr_parse '' <bob.smith@example.org> '' = Some (''bob.smith'', ''example.org'')"
    by code_simp
  then show ?thesis using mail_addr_parse_sound by blast
qed

lemma no_stray: "(\<And>c. c \<in> set s \<Longrightarrow> c \<noteq> CHR ''<'' \<and> c \<noteq> CHR ''>'') \<Longrightarrow> \<not> stray_angle q s"
  by (induction q s rule: stray_angle.induct) (auto split: list.splits)

lemma addr_at_dot_atom:
  assumes "dot_atom_ok l" "AT \<notin> set d"
  shows "addr_at (l @ AT # d) = Some (AT # d)"
proof -
  have l: "\<forall>c \<in> set l. c \<noteq> AT" "l \<noteq> []" "hd l \<noteq> DQ"
    using dot_atom_ok_printable [OF assms(1)] assms(1) by (auto simp: dot_atom_ok_def split: if_splits)
  then show ?thesis
    using assms by (simp add: addr_at_def Let_def takeWhile_all dropWhile_all)
qed

text \<open>
  C29. Completeness of \<open>mail_addr_parse\<close> on ordinary addresses: a dot-atom local part and a valid
  domain without angle brackets are accepted in the bare and in the angle-bracket form, and the two
  halves come back unchanged.
\<close>

theorem mail_addr_parse_complete:
  assumes "dot_atom_ok l" and "domain_ok d" and "CHR ''<'' \<notin> set d" and "CHR ''>'' \<notin> set d"
  shows "mail_addr_parse (l @ AT # d) = Some (l, d)
       \<and> mail_addr_parse (CHR ''<'' # l @ AT # d @ [CHR ''>'']) = Some (l, d)"
proof -
  note dp = domain_ok_props [OF assms(2)]
  have l: "l \<noteq> []" "hd l \<noteq> CHR ''<''" "\<not> is_wsp (hd l)" "AT \<notin> set l"
    using dot_atom_ok_printable [OF assms(1)] dot_atom_ends [OF assms(1)] atext_not_wsp by auto
  have "\<not> is_wsp (last (l @ AT # d))" using dp by simp
  then have u1: "addr_unwrap (l @ AT # d) = Some (l @ AT # d)"
    using l by (simp add: addr_unwrap_def Let_def ltrim_id rtrim_id)
  have "rtrim (ltrim (CHR ''<'' # l @ AT # d @ [CHR ''>''])) = CHR ''<'' # l @ AT # d @ [CHR ''>'']"
    by (simp add: ltrim_id rtrim_id is_wsp_def)
  then have u2: "addr_unwrap (CHR ''<'' # l @ AT # d @ [CHR ''>'']) = Some (l @ AT # d)"
    by (simp add: addr_unwrap_def Let_def butlast_append)
  have "\<not> stray_angle False (l @ AT # d)"
    using dot_atom_ok_printable [OF assms(1)] assms(3,4) by (intro no_stray) auto
  moreover have "addr_at (l @ AT # d) = Some (AT # d)"
    using assms(1) dp(2) by (intro addr_at_dot_atom) auto
  ultimately show ?thesis
    using u1 u2 assms(2) by (simp add: mail_addr_parse_def)
qed

theorem mail_addr_parse_complete_witness:
  "mail_addr_parse (''a.b'' @ AT # ''[127.0.0.1]'') = Some (''a.b'', ''[127.0.0.1]'')"
proof -
  have "dot_atom_ok ''a.b''" "domain_ok ''[127.0.0.1]''" by code_simp+
  then show ?thesis using mail_addr_parse_complete [of "''a.b''" "''[127.0.0.1]''"] by simp
qed

end
