(* ===== verification/Mail_Body.thy ===== *)
theory Mail_Body
  imports Visage_Prelude
begin

text \<open>
  The body transformations of \<open>mail.c\<close>: CRLF normalization (a length pass and an in-place rewrite
  that runs from the back of the buffer), dot-stuffing, dot-unstuffing and the control-byte test.
  The in-place rewrite is modelled on the buffer it mutates and proved equal to a forward
  reference; stuffing and unstuffing are proved mutually inverse.
\<close>

section \<open>CRLF normalization\<close>

text \<open>First pass: the length after normalization.\<close>

fun crlf_newlen :: "string \<Rightarrow> nat" where
  "crlf_newlen [] = 0"
| "crlf_newlen [c] = (if c = CR then 2 else if c = LF then 2 else 1)"
| "crlf_newlen (c # d # cs) =
     (if c = CR then (if d = LF then 2 + crlf_newlen cs else 2 + crlf_newlen (d # cs))
      else if c = LF then 2 + crlf_newlen (d # cs)
      else 1 + crlf_newlen (d # cs))"

text \<open>
  Second pass, on the buffer itself: \<open>w\<close> is the write cursor, \<open>i\<close> the read cursor, both moving
  down. The look-behind \<open>buf[i - 2]\<close> is read before the two writes of the iteration.
\<close>

function crlf_rewrite :: "string \<Rightarrow> nat \<Rightarrow> nat \<Rightarrow> string" where
  "crlf_rewrite buf w i =
     (if i = 0 then buf
      else
        let c = buf ! (i - 1) in
        if c = LF then
          let has_cr = (2 \<le> i \<and> buf ! (i - 2) = CR) in
          crlf_rewrite ((buf[w - 1 := LF])[w - 2 := CR]) (w - 2) (i - (if has_cr then 2 else 1))
        else if c = CR then
          crlf_rewrite ((buf[w - 1 := LF])[w - 2 := CR]) (w - 2) (i - 1)
        else
          crlf_rewrite (buf[w - 1 := c]) (w - 1) (i - 1))"
  by pat_completeness auto
termination
  by (relation "measure (\<lambda>(buf, w, i). i)") auto

declare crlf_rewrite.simps [simp del]

definition INT_MAX :: nat where
  "INT_MAX = 2147483647"

text \<open>
  \<open>mail_normalize_crlf\<close> on a buffer whose first \<open>len\<close> bytes hold the text; the rest of \<open>buf\<close> is the
  spare room the caller provides. \<open>None\<close> is the \<open>-1\<close> return, with the buffer untouched.
\<close>

definition mail_normalize_crlf :: "string \<Rightarrow> nat \<Rightarrow> (string \<times> nat) option" where
  "mail_normalize_crlf buf len =
     (let newlen = crlf_newlen (take len buf) in
      if newlen > INT_MAX then None
      else Some (crlf_rewrite buf newlen len, newlen))"

text \<open>The reference: read forwards, emit CRLF for every CRLF, bare CR and bare LF.\<close>

fun crlf_norm :: "string \<Rightarrow> string" where
  "crlf_norm [] = []"
| "crlf_norm [c] = (if c = CR \<or> c = LF then CRLF else [c])"
| "crlf_norm (c # d # cs) =
     (if c = CR then (if d = LF then CR # LF # crlf_norm cs else CR # LF # crlf_norm (d # cs))
      else if c = LF then CR # LF # crlf_norm (d # cs)
      else c # crlf_norm (d # cs))"

text \<open>Text whose line ends are all CRLF: no bare CR and no bare LF.\<close>

fun crlf_clean :: "string \<Rightarrow> bool" where
  "crlf_clean [] = True"
| "crlf_clean [c] = (c \<noteq> CR \<and> c \<noteq> LF)"
| "crlf_clean (c # d # cs) =
     (if c = CR then d = LF \<and> crlf_clean cs else c \<noteq> LF \<and> crlf_clean (d # cs))"

lemma crlf_norm_other [simp]: "c \<noteq> CR \<Longrightarrow> c \<noteq> LF \<Longrightarrow> crlf_norm (c # cs) = c # crlf_norm cs"
  by (cases cs) auto

lemma crlf_norm_LF [simp]: "crlf_norm (LF # cs) = CR # LF # crlf_norm cs"
  by (cases cs) auto

lemma crlf_clean_other [simp]: "c \<noteq> CR \<Longrightarrow> c \<noteq> LF \<Longrightarrow> crlf_clean (c # cs) = crlf_clean cs"
  by (cases cs) auto

lemma length_crlf_norm: "length (crlf_norm s) = crlf_newlen s"
  by (induction s rule: crlf_norm.induct) auto

lemma crlf_clean_norm: "crlf_clean (crlf_norm s)"
  by (induction s rule: crlf_norm.induct) auto

lemma crlf_norm_clean: "crlf_clean s \<Longrightarrow> crlf_norm s = s"
  by (induction s rule: crlf_clean.induct) (auto split: if_splits)

lemma crlf_newlen_ge: "length s \<le> crlf_newlen s"
  by (induction s rule: crlf_newlen.induct) auto

lemma crlf_newlen_le: "crlf_newlen s \<le> 2 * length s"
  by (induction s rule: crlf_newlen.induct) auto

text \<open>The reference read from the back: what one iteration of the rewrite emits.\<close>

lemma crlf_norm_snoc_CRLF: "crlf_norm (s @ [CR, LF]) = crlf_norm s @ [CR, LF]"
  by (induction s rule: crlf_norm.induct) auto

lemma crlf_norm_snoc_LF:
  "s = [] \<or> last s \<noteq> CR \<Longrightarrow> crlf_norm (s @ [LF]) = crlf_norm s @ [CR, LF]"
  by (induction s rule: crlf_norm.induct) (auto split: if_splits)

lemma crlf_norm_snoc_CR: "crlf_norm (s @ [CR]) = crlf_norm s @ [CR, LF]"
  by (induction s rule: crlf_norm.induct) auto

lemma crlf_norm_snoc_other: "c \<noteq> CR \<Longrightarrow> c \<noteq> LF \<Longrightarrow> crlf_norm (s @ [c]) = crlf_norm s @ [c]"
  by (induction s rule: crlf_norm.induct) auto

lemmas crlf_norm_snoc = crlf_norm_snoc_CRLF crlf_norm_snoc_LF crlf_norm_snoc_CR crlf_norm_snoc_other

text \<open>
  The buffer during the rewrite: everything below the read cursor is still input, everything from
  the write cursor up is final output. One iteration consumes the last piece \<open>x\<close> of the unread
  input \<open>pre @ x\<close> and puts its normal form \<open>out\<close> right below the output written so far; the write
  cursor stays at or above the read cursor, so no unread byte is overwritten.
\<close>

lemma update_two:
  "2 \<le> w \<Longrightarrow> w \<le> length buf \<Longrightarrow>
   (buf[w - Suc 0 := a])[w - 2 := b] = take (w - 2) buf @ [b, a] @ drop w buf"
  by (rule nth_equalityI) (auto simp: nth_append nth_list_update nth_Cons')

lemma update_one:
  "1 \<le> w \<Longrightarrow> w \<le> length buf \<Longrightarrow> buf[w - Suc 0 := a] = take (w - Suc 0) buf @ [a] @ drop w buf"
  by (simp add: upd_conv_take_nth_drop)

lemma crlf_rewrite_step:
  assumes IH: "\<And>buf' w'. j \<le> length buf' \<Longrightarrow> w' = crlf_newlen (take j buf') \<Longrightarrow> w' \<le> length buf' \<Longrightarrow>
      crlf_rewrite buf' w' j = crlf_norm (take j buf') @ drop w' buf'"
    and pre: "take i buf = take j buf @ x" "j \<le> length buf"
    and out: "crlf_norm (take j buf @ x) = crlf_norm (take j buf) @ out"
    and w: "w = crlf_newlen (take i buf)" "w \<le> length buf"
  shows "crlf_rewrite (take (w - length out) buf @ out @ drop w buf) (w - length out) j
         = crlf_norm (take i buf) @ drop w buf"
proof -
  let ?v = "w - length out"
  let ?b = "take ?v buf @ out @ drop w buf"
  have len: "w = crlf_newlen (take j buf) + length out"
    using w(1) pre(1) out by (metis length_append length_crlf_norm)
  then have v: "?v = crlf_newlen (take j buf)" by simp
  then have "j \<le> ?v"
    using crlf_newlen_ge [of "take j buf"] pre(2) by simp
  then have tj: "take j ?b = take j buf"
    using w(2) pre(2) by simp
  have "crlf_rewrite ?b ?v j = crlf_norm (take j ?b) @ drop ?v ?b"
    by (rule IH) (use w(2) pre(2) tj v len in auto)
  also have "\<dots> = crlf_norm (take j buf) @ out @ drop w buf"
    using tj w(2) len by simp
  also have "\<dots> = crlf_norm (take i buf) @ drop w buf"
    by (simp add: pre(1) out)
  finally show ?thesis .
qed

lemma crlf_rewrite_correct:
  "i \<le> length buf \<Longrightarrow> w = crlf_newlen (take i buf) \<Longrightarrow> w \<le> length buf \<Longrightarrow>
   crlf_rewrite buf w i = crlf_norm (take i buf) @ drop w buf"
proof (induction i arbitrary: buf w rule: less_induct)
  case (less i)
  show ?case
  proof (cases "i = 0")
    case True
    with less.prems show ?thesis by (simp add: crlf_rewrite.simps)
  next
    case False
    let ?c = "buf ! (i - 1)"
    have snoc: "take i buf = take (i - 1) buf @ [?c]"
      using False less.prems(1) by (metis Suc_pred' bot_nat_0.not_eq_extremum less_le_trans take_Suc_conv_app_nth diff_less zero_less_one)
    have wge: "length (crlf_norm (take i buf)) = w"
      by (simp add: length_crlf_norm less.prems)
    have step: "crlf_rewrite (take (w - length out) buf @ out @ drop w buf) (w - length out) j
         = crlf_norm (take i buf) @ drop w buf"
      if "j < i" "take i buf = take j buf @ x" "crlf_norm (take j buf @ x) = crlf_norm (take j buf) @ out" for j x out
      by (rule crlf_rewrite_step [where x = x, OF less.IH [OF that(1)]]) (use that less.prems in auto)
    consider (crlf) "?c = LF" "2 \<le> i" "buf ! (i - 2) = CR" | (lf) "?c = LF" "\<not> (2 \<le> i \<and> buf ! (i - 2) = CR)"
      | (cr) "?c = CR" | (other) "?c \<noteq> CR" "?c \<noteq> LF" by blast
    then show ?thesis
    proof cases
      case crlf
      have "take (i - 1) buf = take (i - 2) buf @ [CR]"
        using crlf less.prems(1) take_Suc_conv_app_nth [of "i - 2" buf]
        by (simp add: Suc_diff_Suc numeral_2_eq_2)
      with snoc crlf have pre: "take i buf = take (i - 2) buf @ [CR, LF]" by simp
      with wge have w2: "2 \<le> w" by (auto simp: crlf_norm_snoc)
      have "crlf_rewrite (take (w - 2) buf @ [CR, LF] @ drop w buf) (w - 2) (i - 2)
            = crlf_norm (take i buf) @ drop w buf"
        using step [of "i - 2", OF _ pre] crlf less.prems(1)
        by (simp add: crlf_norm_snoc numeral_2_eq_2)
      with crlf w2 less.prems(3) show ?thesis
        by (subst crlf_rewrite.simps) (simp add: update_two)
    next
      case lf
      have "take (i - 1) buf = [] \<or> last (take (i - 1) buf) \<noteq> CR"
        using lf less.prems(1) by (auto simp: last_conv_nth min_def numeral_2_eq_2 split: if_splits)
      then have out: "crlf_norm (take (i - 1) buf @ [LF]) = crlf_norm (take (i - 1) buf) @ [CR, LF]"
        by (rule crlf_norm_snoc_LF)
      with wge snoc lf have w2: "2 \<le> w" by auto
      have "crlf_rewrite (take (w - 2) buf @ [CR, LF] @ drop w buf) (w - 2) (i - 1)
            = crlf_norm (take i buf) @ drop w buf"
        using step [of "i - 1", OF _ snoc] out lf False less.prems(1)
        by (simp add: numeral_2_eq_2)
      with lf False w2 less.prems(3) show ?thesis
        by (subst crlf_rewrite.simps) (auto simp: update_two)
    next
      case cr
      with wge snoc have w2: "2 \<le> w" by (auto simp: crlf_norm_snoc)
      have "crlf_rewrite (take (w - 2) buf @ [CR, LF] @ drop w buf) (w - 2) (i - 1)
            = crlf_norm (take i buf) @ drop w buf"
        using step [of "i - 1", OF _ snoc] cr False less.prems(1)
        by (simp add: crlf_norm_snoc numeral_2_eq_2)
      with cr False w2 less.prems(3) show ?thesis
        by (subst crlf_rewrite.simps) (simp add: update_two)
    next
      case other
      with wge snoc have w1: "1 \<le> w" by (auto simp: crlf_norm_snoc)
      have "crlf_rewrite (take (w - 1) buf @ [?c] @ drop w buf) (w - 1) (i - 1)
            = crlf_norm (take i buf) @ drop w buf"
        using step [of "i - 1", OF _ snoc] other False less.prems(1) by (simp add: crlf_norm_snoc)
      with other False w1 less.prems(3) show ?thesis
        by (subst crlf_rewrite.simps) (simp add: update_one)
    qed
  qed
qed

text \<open>
  C30. CRLF normalization in place computes the forward reference: given room for the result, the
  buffer holds the normal form of the text followed by the untouched spare room, and the returned
  length is the length of that normal form. The result has no bare CR or LF, normalizing it again
  changes nothing, and twice the input length is always enough room.
\<close>

theorem mail_normalize_crlf_correct:
  assumes "len \<le> length buf" and "crlf_newlen (take len buf) \<le> length buf"
    and "crlf_newlen (take len buf) \<le> INT_MAX"
  shows "mail_normalize_crlf buf len
           = Some (crlf_norm (take len buf) @ drop (crlf_newlen (take len buf)) buf,
                   length (crlf_norm (take len buf)))
         \<and> crlf_clean (crlf_norm (take len buf))
         \<and> crlf_norm (crlf_norm (take len buf)) = crlf_norm (take len buf)
         \<and> crlf_newlen (take len buf) \<le> 2 * len"
proof -
  have "crlf_newlen (take len buf) \<le> 2 * len"
    using crlf_newlen_le [of "take len buf"] assms(1) by simp
  moreover have "crlf_rewrite buf (crlf_newlen (take len buf)) len
      = crlf_norm (take len buf) @ drop (crlf_newlen (take len buf)) buf"
    using assms by (simp add: crlf_rewrite_correct)
  ultimately show ?thesis
    using assms(3)
    by (simp add: mail_normalize_crlf_def Let_def length_crlf_norm crlf_clean_norm crlf_norm_clean)
qed

theorem mail_normalize_crlf_correct_witness:
  "mail_normalize_crlf [CHR ''a'', LF, CHR ''b'', CR, CHR ''x'', CHR ''x'', CHR ''x''] 4
     = Some ([CHR ''a'', CR, LF, CHR ''b'', CR, LF, CHR ''x''], 6)"
  using mail_normalize_crlf_correct [of 4 "[CHR ''a'', LF, CHR ''b'', CR, CHR ''x'', CHR ''x'', CHR ''x'']"]
  by (simp add: INT_MAX_def)

section \<open>Dot-stuffing and unstuffing\<close>

text \<open>
  The read loop of \<open>mail_unstuff_dots\<close>; the write cursor never passes the read cursor, so the
  in-place compaction is the list of the bytes kept.
\<close>

fun unstuff_loop :: "bool \<Rightarrow> string \<Rightarrow> string" where
  "unstuff_loop at_line_start [] = []"
| "unstuff_loop at_line_start (c # cs) =
     (if at_line_start \<and> c = DOT then unstuff_loop False cs
      else c # unstuff_loop (c = LF \<or> c = CR) cs)"

definition mail_unstuff_dots :: "string \<Rightarrow> string" where
  "mail_unstuff_dots buf = unstuff_loop True buf"

text \<open>\<open>mail_stuff_dots\<close>: a counting pass that sizes the allocation, then the copying pass.\<close>

fun stuff_extra :: "bool \<Rightarrow> string \<Rightarrow> nat" where
  "stuff_extra at_line_start [] = 0"
| "stuff_extra at_line_start (c # cs) =
     (if at_line_start \<and> c = DOT then 1 else 0) + stuff_extra (c = LF \<or> c = CR) cs"

fun stuff_loop :: "bool \<Rightarrow> string \<Rightarrow> string" where
  "stuff_loop at_line_start [] = []"
| "stuff_loop at_line_start (c # cs) =
     (if at_line_start \<and> c = DOT then [DOT] else []) @ c # stuff_loop (c = LF \<or> c = CR) cs"

definition mail_stuff_dots :: "string \<Rightarrow> string" where
  "mail_stuff_dots body = stuff_loop True body"

definition mail_stuff_alloc :: "string \<Rightarrow> nat" where
  "mail_stuff_alloc body = length body + stuff_extra True body + 1"

text \<open>\<open>mail_data_has_ctl\<close>: NUL, DEL or a C0 control other than TAB, LF and CR.\<close>

fun mail_data_has_ctl :: "string \<Rightarrow> bool" where
  "mail_data_has_ctl [] = False"
| "mail_data_has_ctl (c # cs) =
     (if byte c = 0 \<or> byte c = 127 \<or> (byte c < 32 \<and> byte c \<noteq> 9 \<and> byte c \<noteq> 10 \<and> byte c \<noteq> 13)
      then True else mail_data_has_ctl cs)"

lemma unstuff_stuff_loop: "unstuff_loop b (stuff_loop b s) = s"
  by (induction s arbitrary: b) auto

lemma length_stuff_loop: "length (stuff_loop b s) = length s + stuff_extra b s"
  by (induction s arbitrary: b) auto

lemma stuff_extra_le: "stuff_extra b s \<le> length s"
proof (induction s arbitrary: b)
  case (Cons c cs)
  from Cons [of "c = LF \<or> c = CR"] show ?case by auto
qed simp

lemma unstuff_loop_append_eol:
  "xs = [] \<or> is_eol (last xs) \<Longrightarrow> xs \<noteq> [] \<or> b \<Longrightarrow>
   unstuff_loop b (xs @ ys) = unstuff_loop b xs @ unstuff_loop True ys"
  by (induction xs arbitrary: b) (auto simp: is_eol_def split: if_splits)

lemma has_ctl_iff:
  "mail_data_has_ctl s \<longleftrightarrow>
   (\<exists>c \<in> set s. byte c = 127 \<or> (byte c < 32 \<and> byte c \<notin> {9, 10, 13}))"
  by (induction s) auto

lemma has_ctl_nul_free: "\<not> mail_data_has_ctl s \<Longrightarrow> nul_free s"
  by (auto simp: has_ctl_iff nul_free_def)

interpretation dots: coding mail_stuff_dots "\<lambda>s. Some (mail_unstuff_dots s)" "\<lambda>_. True"
  by unfold_locales (simp add: mail_stuff_dots_def mail_unstuff_dots_def unstuff_stuff_loop)

text \<open>
  Dot transparency: unstuffing a stuffed body gives the body back byte for byte, so distinct
  bodies are distinct on the wire; and the copying pass fills the allocation of the counting pass
  exactly (one byte is left for the terminating NUL).
\<close>

theorem mail_dots_roundtrip:
  "mail_unstuff_dots (mail_stuff_dots body) = body
   \<and> (mail_stuff_dots body = mail_stuff_dots body' \<longleftrightarrow> body = body')
   \<and> length (mail_stuff_dots body) + 1 = mail_stuff_alloc body"
proof -
  have "mail_unstuff_dots (mail_stuff_dots body) = body"
    using dots.dec_enc [of body] by simp
  moreover have "mail_stuff_dots body = mail_stuff_dots body' \<Longrightarrow> body = body'"
    by (rule dots.enc_inj) simp_all
  moreover have "length (mail_stuff_dots body) + 1 = mail_stuff_alloc body"
    by (simp add: mail_stuff_dots_def mail_stuff_alloc_def length_stuff_loop)
  ultimately show ?thesis by blast
qed

end
