(* ===== verification/Mail_Fields.thy ===== *)
theory Mail_Fields
  imports Mail_Headers
begin

text \<open>
  The abstraction of a message used to specify the header operations: the list of its header
  fields (malformed lines included) and the tail, which is empty or starts at the blank line. The
  operations of \<open>mail.c\<close> are proved to act on that list, and the guarantee of the forward-sanitize
  pipeline follows.
\<close>

section \<open>Fields of a message\<close>

record field =
  is_header :: bool
  fname :: string
  ftext :: string

function fields :: "string \<Rightarrow> field list \<times> string" where
  "fields s =
     (if s = [] \<or> is_eol (hd s) then ([], s)
      else case scan_header s of (ok, nm, rest) \<Rightarrow>
        (case fields rest of (fs, t) \<Rightarrow>
          (\<lparr>is_header = ok, fname = nm, ftext = take (length s - length rest) s\<rparr> # fs, t)))"
  by pat_completeness auto
termination
  by (relation "measure length") (auto dest: scan_header_less, (metis scan_header_less snd_conv)+)

declare fields.simps [simp del]

definition field_matches :: "string \<Rightarrow> field \<Rightarrow> bool" where
  "field_matches n f \<longleftrightarrow> is_header f \<and> name_eq (fname f) n"

lemma field_matches_rec [simp]:
  "field_matches n \<lparr>is_header = ok, fname = nm, ftext = x\<rparr> \<longleftrightarrow> ok \<and> name_eq nm n"
  by (simp add: field_matches_def)

text \<open>The texts of the fields named \<open>n\<close>, and the part from the blank line on.\<close>

definition fields_named :: "string \<Rightarrow> string \<Rightarrow> string list" where
  "fields_named n s = map ftext (filter (field_matches n) (fst (fields s)))"

definition tail_of :: "string \<Rightarrow> string" where
  "tail_of s = snd (fields s)"

abbreviation texts :: "field list \<Rightarrow> string" where
  "texts fs \<equiv> concat (map ftext fs)"

section \<open>Splitting and rejoining\<close>

lemma skip_eol_suffix: "\<exists>p. s = p @ skip_eol s"
proof (cases s)
  case (Cons c cs)
  then show ?thesis
    by (auto simp: skip_eol_def Let_def split: list.splits intro: exI [of _ "[]"] exI [of _ "[c]"] exI [of _ "[c, LF]"])
qed simp

lemma skip_line_suffix: "\<exists>p. s = p @ skip_line s"
  by (metis append.assoc skip_eol_suffix skip_line_def takeWhile_dropWhile_id)

lemma header_end_suffix: "\<exists>p. s = p @ header_end s"
proof (induction s rule: length_induct)
  case (1 s)
  obtain p where p: "s = p @ skip_line s" using skip_line_suffix by blast
  show ?case
  proof (cases "skip_line s \<noteq> [] \<and> is_wsp (hd (skip_line s))")
    case True
    then have "s \<noteq> []" by (auto simp: skip_line_def)
    with 1 obtain q where "skip_line s = q @ header_end (skip_line s)" using skip_line_less by blast
    with p True show ?thesis by (metis append.assoc header_end_unfold)
  next
    case False
    with p show ?thesis by (metis header_end_unfold)
  qed
qed

lemma scan_header_suffix: "scan_header s = (ok, nm, rest) \<Longrightarrow> \<exists>p. s = p @ rest"
proof -
  assume "scan_header s = (ok, nm, rest)"
  then consider "rest = skip_line s" | "rest = header_end (tl (dropWhile name_char s))" "dropWhile name_char s \<noteq> []"
    by (auto simp: scan_header_def Let_def split: if_splits)
  then show ?thesis
  proof cases
    case 1 then show ?thesis using skip_line_suffix by blast
  next
    case 2
    obtain q where q: "tl (dropWhile name_char s) = q @ rest" using header_end_suffix 2(1) by blast
    have "s = takeWhile name_char s @ hd (dropWhile name_char s) # tl (dropWhile name_char s)"
      using 2(2) by simp
    with q show ?thesis by (metis append.assoc append_Cons)
  qed
qed

lemma scan_header_take: "scan_header s = (ok, nm, rest) \<Longrightarrow> take (length s - length rest) s @ rest = s"
  by (drule scan_header_suffix) auto

lemma fields_concat: "texts (fst (fields s)) @ snd (fields s) = s"
proof (induction s rule: fields.induct)
  case (1 s)
  show ?case
  proof (cases "s = [] \<or> is_eol (hd s)")
    case True then show ?thesis by (simp add: fields.simps)
  next
    case False
    obtain ok nm rest where sc: "scan_header s = (ok, nm, rest)" by (cases "scan_header s")
    obtain fs t where f: "fields rest = (fs, t)" by (cases "fields rest")
    have "texts fs @ t = rest" using 1 False sc f by fastforce
    then show ?thesis using False sc f scan_header_take [OF sc] by (simp add: fields.simps [of s])
  qed
qed

text \<open>
  \<open>segs gs t\<close>: the fields \<open>gs\<close> followed by \<open>t\<close> scan as themselves. It is exactly what \<open>fields\<close>
  computes, read from the result.
\<close>

definition seg :: "field \<Rightarrow> string \<Rightarrow> bool" where
  "seg f r \<longleftrightarrow> ftext f \<noteq> [] \<and> \<not> is_eol (hd (ftext f)) \<and> scan_header (ftext f @ r) = (is_header f, fname f, r)"

fun segs :: "field list \<Rightarrow> string \<Rightarrow> bool" where
  "segs [] t = (t = [] \<or> is_eol (hd t))"
| "segs (f # fs) t = (seg f (texts fs @ t) \<and> segs fs t)"

lemma seg_length: "seg f r \<Longrightarrow> take (length (ftext f @ r) - length r) (ftext f @ r) = ftext f"
  by simp

lemma fields_of_segs: "segs fs t \<Longrightarrow> fields (texts fs @ t) = (fs, t)"
proof (induction fs)
  case Nil then show ?case by (simp add: fields.simps)
next
  case (Cons f fs)
  then have s: "seg f (texts fs @ t)" and IH: "fields (texts fs @ t) = (fs, t)" by auto
  from s have "\<not> (ftext f @ texts fs @ t = [] \<or> is_eol (hd (ftext f @ texts fs @ t)))"
    by (auto simp: seg_def)
  then show ?case using s IH by (subst fields.simps) (auto simp: seg_def)
qed

lemma segs_of_fields: "fields s = (fs, t) \<Longrightarrow> segs fs t"
proof (induction s arbitrary: fs rule: fields.induct)
  case (1 s)
  show ?case
  proof (cases "s = [] \<or> is_eol (hd s)")
    case True then show ?thesis using 1(2) by (auto simp: fields.simps)
  next
    case False
    obtain ok nm rest where sc: "scan_header s = (ok, nm, rest)" by (cases "scan_header s")
    obtain gs u where f: "fields rest = (gs, u)" by (cases "fields rest")
    let ?x = "take (length s - length rest) s"
    have fs: "fs = \<lparr>is_header = ok, fname = nm, ftext = ?x\<rparr> # gs" and t: "t = u"
      using 1(2) False sc f by (auto simp: fields.simps [of s])
    have "segs gs t" using 1(1) False sc f t by fastforce
    moreover have r: "texts gs @ t = rest" using fields_concat [of rest] f t by simp
    moreover have "?x \<noteq> []" using scan_header_less [of s] sc False by auto
    moreover have "hd ?x = hd s" using calculation(3) by (metis hd_append2 append_take_drop_id)
    ultimately show ?thesis
      using False sc scan_header_take [OF sc] fs by (auto simp: seg_def)
  qed
qed

lemma fields_iff: "fields s = (fs, t) \<longleftrightarrow> segs fs t \<and> s = texts fs @ t"
  by (metis fields_concat fields_of_segs fst_conv segs_of_fields snd_conv)

lemma segs_tail: "segs fs t \<Longrightarrow> t = [] \<or> is_eol (hd t)"
  by (induction fs) auto

section \<open>A complete field scans the same whatever follows\<close>

text \<open>
  A field whose text ends with LF is delimited by itself, except that a header continues on a line
  that starts with white space.
\<close>

definition no_wsp :: "string \<Rightarrow> bool" where
  "no_wsp r \<longleftrightarrow> r = [] \<or> \<not> is_wsp (hd r)"

lemma eol_split:
  assumes "v \<noteq> []" "last v = LF"
  obtains l e w where "v = l @ e # w" "\<forall>c \<in> set l. not_eol c" "is_eol e"
    "\<And>r. skip_line (v @ r) = skip_eol (e # w) @ r" "skip_eol (e # w) = [] \<or> last (skip_eol (e # w)) = LF"
    "length (skip_eol (e # w)) < length v"
proof -
  let ?l = "takeWhile not_eol v"
  have "LF \<in> set v" using assms last_in_set by fastforce
  then have "dropWhile not_eol v \<noteq> []" by (auto simp: not_eol_def)
  then obtain e w where ew: "dropWhile not_eol v = e # w" by (cases "dropWhile not_eol v") auto
  then have v: "v = ?l @ e # w" by (metis takeWhile_dropWhile_id)
  have e: "is_eol e" using hd_dropWhile [of not_eol v] ew by (auto simp: not_eol_iff)
  have l: "\<forall>c \<in> set ?l. not_eol c" by (auto dest: set_takeWhileD)
  have last: "last (e # w) = LF" using assms(2) v by (metis last_appendR list.distinct(1))
  have sk: "skip_eol (e # w @ r) = skip_eol (e # w) @ r" for r
    using e last by (auto simp: skip_eol_def is_eol_def split: list.splits)
  have "skip_line (v @ r) = skip_eol (e # w) @ r" for r
  proof -
    have "dropWhile not_eol (v @ r) = e # w @ r"
      using l e by (subst v) (simp add: dropWhile_all not_eol_iff)
    then show ?thesis by (simp add: skip_line_def sk)
  qed
  moreover have "skip_eol (e # w) = [] \<or> last (skip_eol (e # w)) = LF"
    using e last by (auto simp: skip_eol_def is_eol_def split: list.splits if_splits)
  moreover have "length (skip_eol (e # w)) < length v"
    using skip_eol_less [of "e # w"] e by (subst v) simp
  ultimately show ?thesis using that v l e by blast
qed

lemma skip_line_local: "v \<noteq> [] \<Longrightarrow> last v = LF \<Longrightarrow> skip_line (v @ r) = r \<Longrightarrow> skip_line (v @ r') = r'"
  by (erule eol_split) auto

lemma header_end_local:
  "v \<noteq> [] \<Longrightarrow> last v = LF \<Longrightarrow> header_end (v @ r) = r \<Longrightarrow> no_wsp r' \<Longrightarrow> header_end (v @ r') = r'"
proof (induction v rule: length_induct)
  case (1 v)
  from eol_split [OF 1(2,3)] obtain j where sk: "\<And>r. skip_line (v @ r) = j @ r"
    and j: "j = [] \<or> last j = LF" "length j < length v" by metis
  show ?case
  proof (cases "j = []")
    case True
    then show ?thesis using sk 1(5) by (subst header_end_unfold) (auto simp: no_wsp_def)
  next
    case False
    have he: "header_end (v @ q) = (if is_wsp (hd j) then header_end (j @ q) else j @ q)" for q
      using False sk by (subst header_end_unfold) auto
    with 1(4) False have w: "is_wsp (hd j)" by (metis append_self_conv2)
    then have "header_end (j @ r) = r" using he 1(4) by metis
    then have "header_end (j @ r') = r'" using 1(1,5) j False by blast
    with he w show ?thesis by metis
  qed
qed

lemma scan_header_local:
  assumes x: "x \<noteq> []" "last x = LF" and sc: "scan_header (x @ r) = (ok, nm, r)"
    and r': "ok \<Longrightarrow> no_wsp r'"
  shows "scan_header (x @ r') = (ok, nm, r')"
proof -
  let ?n = "takeWhile name_char x"
  have "LF \<in> set x" using x last_in_set by fastforce
  then have "dropWhile name_char x \<noteq> []" by (auto simp: name_char_def)
  then obtain e w where ew: "dropWhile name_char x = e # w" by (cases "dropWhile name_char x") auto
  then have xs: "x = ?n @ e # w" by (metis takeWhile_dropWhile_id)
  have e: "\<not> name_char e" using hd_dropWhile [of name_char x] ew by auto
  have n: "\<forall>c \<in> set ?n. name_char c" by (auto dest: set_takeWhileD)
  have dw: "dropWhile name_char (x @ q) = e # w @ q" for q
    using n e by (subst xs) (simp add: dropWhile_all)
  have tw: "takeWhile name_char (x @ q) = ?n" for q
    using n e by (subst xs) (simp add: takeWhile_all)
  have scan: "scan_header (x @ q) = (if e \<noteq> CHR '':'' then (False, [], skip_line (x @ q)) else (True, ?n, header_end (w @ q)))" for q
    by (simp add: scan_header_def dw tw)
  show ?thesis
  proof (cases "e = CHR '':''")
    case True
    have "last (e # w) = LF" using x(2) xs by (metis last_appendR list.distinct(1))
    with True have w: "w \<noteq> []" "last w = LF" by (auto split: if_splits)
    have "header_end (w @ r) = r" "ok" using sc scan True by auto
    then show ?thesis using header_end_local [OF w] r' sc scan True by auto
  next
    case False
    then have "skip_line (x @ r) = r" "\<not> ok" using sc scan by auto
    then show ?thesis using skip_line_local [OF x] sc scan False by auto
  qed
qed

lemma header_end_Nil [simp]: "header_end [] = []"
  by (simp add: header_end_unfold skip_line_def)

lemma header_end_no_wsp: "no_wsp (header_end s)"
proof (induction s rule: length_induct)
  case (1 s)
  then show ?case
    by (cases "s = []") (auto simp: header_end_unfold [of s] no_wsp_def skip_line_less)
qed

lemma scan_header_no_wsp: "scan_header s = (True, nm, r) \<Longrightarrow> no_wsp r"
  by (auto simp: scan_header_def Let_def header_end_no_wsp split: if_splits)

section \<open>Clean text\<close>

lemma crlf_clean_append: "crlf_clean x \<Longrightarrow> crlf_clean y \<Longrightarrow> crlf_clean (x @ y)"
  by (induction x rule: crlf_clean.induct) (auto split: if_splits)

lemma crlf_clean_CR [simp]: "crlf_clean (CR # s) \<longleftrightarrow> s \<noteq> [] \<and> hd s = LF \<and> crlf_clean (tl s)"
  by (cases s) auto

lemma crlf_clean_LF [simp]: "\<not> crlf_clean (LF # s)"
  by (cases s) auto

lemma crlf_clean_no_eol: "\<forall>c \<in> set s. not_eol c \<Longrightarrow> crlf_clean (s @ t) = crlf_clean t"
  by (induction s) (auto simp: not_eol_def)

lemma crlf_clean_split: "crlf_clean (x @ y) \<Longrightarrow> x = [] \<or> last x \<noteq> CR \<Longrightarrow> crlf_clean x \<and> crlf_clean y"
proof (induction x rule: crlf_clean.induct)
  case (2 c)
  then show ?case by (cases "c = LF") auto
qed (auto split: if_splits)

lemma crlf_clean_skip_line:
  assumes "crlf_clean s" "skip_line s \<noteq> []"
  shows "\<exists>v. s = v @ skip_line s \<and> v \<noteq> [] \<and> last v = LF \<and> crlf_clean (skip_line s)"
proof -
  let ?l = "takeWhile not_eol s"
  have s: "s = ?l @ dropWhile not_eol s" by simp
  have l: "\<forall>c \<in> set ?l. not_eol c" by (auto dest: set_takeWhileD)
  have c: "crlf_clean (dropWhile not_eol s)" using assms(1) crlf_clean_no_eol [OF l] s by metis
  have "dropWhile not_eol s \<noteq> []" using assms(2) by (metis skip_eol_Nil skip_line_def)
  then obtain e w where ew: "dropWhile not_eol s = e # w" by (cases "dropWhile not_eol s") auto
  then have "is_eol e" using hd_dropWhile [of not_eol s] by (auto simp: not_eol_iff)
  with c ew obtain u where u: "e = CR" "w = LF # u" "crlf_clean u" by (cases w) (auto simp: is_eol_def)
  then have "skip_line s = u" using ew by (simp add: skip_line_def skip_eol_def)
  moreover have "s = (?l @ CRLF) @ u" using s ew u by simp
  ultimately show ?thesis using u(3) by (intro exI [of _ "?l @ CRLF"]) auto
qed

lemma crlf_clean_header_end:
  "crlf_clean s \<Longrightarrow> header_end s \<noteq> [] \<Longrightarrow>
   \<exists>v. s = v @ header_end s \<and> v \<noteq> [] \<and> last v = LF"
proof (induction s rule: length_induct)
  case (1 s)
  then have "skip_line s \<noteq> []" by (auto simp: header_end_unfold [of s])
  with 1(2) obtain v where v: "s = v @ skip_line s" "v \<noteq> []" "last v = LF" "crlf_clean (skip_line s)"
    using crlf_clean_skip_line by blast
  show ?case
  proof (cases "is_wsp (hd (skip_line s))")
    case True
    then have he: "header_end s = header_end (skip_line s)" using \<open>skip_line s \<noteq> []\<close> by (simp add: header_end_unfold [of s])
    moreover have "length (skip_line s) < length s"
      by (rule skip_line_less) (metis v(1,2) append_is_Nil_conv)
    ultimately obtain q where q: "skip_line s = q @ header_end s" "q \<noteq> []" "last q = LF"
      using 1(1) 1(3) v(4) by metis
    then have "s = (v @ q) @ header_end s" using v(1) by (metis append.assoc)
    with q show ?thesis by (intro exI [of _ "v @ q"]) auto
  next
    case False
    then show ?thesis using v \<open>skip_line s \<noteq> []\<close> by (auto simp: header_end_unfold [of s])
  qed
qed

lemma clean_scan_complete:
  assumes "crlf_clean (x @ r)" "scan_header (x @ r) = (ok, nm, r)" "r \<noteq> []"
  shows "x \<noteq> [] \<and> last x = LF"
proof -
  consider "r = skip_line (x @ r)" | "r = header_end (tl (dropWhile name_char (x @ r)))"
      "dropWhile name_char (x @ r) \<noteq> []" "hd (dropWhile name_char (x @ r)) = CHR '':''"
    using assms(2) by (auto simp: scan_header_def Let_def split: if_splits)
  then show ?thesis
  proof cases
    case 1
    then obtain v where "x @ r = v @ r" "v \<noteq> []" "last v = LF" using crlf_clean_skip_line [of "x @ r"] assms by metis
    then show ?thesis by simp
  next
    case 2
    let ?s = "x @ r"
    let ?n = "takeWhile name_char ?s"
    have s: "?s = (?n @ [CHR '':'']) @ tl (dropWhile name_char ?s)"
      using 2(2,3) by (metis append.assoc append_Cons append_Nil list.collapse takeWhile_dropWhile_id)
    have "\<forall>c \<in> set (?n @ [CHR '':'']). not_eol c" by (auto dest!: set_takeWhileD simp: name_char_def not_eol_def)
    then have "crlf_clean (tl (dropWhile name_char ?s))" using assms(1) crlf_clean_no_eol s by metis
    then obtain v where v: "tl (dropWhile name_char ?s) = v @ r" "v \<noteq> []" "last v = LF"
      using crlf_clean_header_end 2(1) assms(3) by metis
    then have "?s = (?n @ [CHR '':''] @ v) @ r" using s by (metis append.assoc)
    then have "x = ?n @ [CHR '':''] @ v" by (metis append_same_eq)
    with v show ?thesis by (metis append_is_Nil_conv last_appendR)
  qed
qed

section \<open>The operations on the list of fields\<close>

lemma fields_stop: "s = [] \<or> is_eol (hd s) \<Longrightarrow> fields s = ([], s)"
  by (simp add: fields.simps)

lemma fields_step:
  assumes "s \<noteq> []" "\<not> is_eol (hd s)" "scan_header s = (ok, nm, rest)" "fields rest = (fs, t)"
  shows "fields s = (\<lparr>is_header = ok, fname = nm, ftext = take (length s - length rest) s\<rparr> # fs, t)"
  using assms by (simp add: fields.simps [of s])

text \<open>Every loop over the header block is a recursion with these two cases.\<close>

lemma fields_induct [case_names stop step]:
  assumes "\<And>s. s = [] \<or> is_eol (hd s) \<Longrightarrow> P s"
    and "\<And>s ok nm rest fs t. s \<noteq> [] \<Longrightarrow> \<not> is_eol (hd s) \<Longrightarrow> scan_header s = (ok, nm, rest) \<Longrightarrow>
           fields rest = (fs, t) \<Longrightarrow>
           fields s = (\<lparr>is_header = ok, fname = nm, ftext = take (length s - length rest) s\<rparr> # fs, t) \<Longrightarrow>
           P rest \<Longrightarrow> P s"
  shows "P s"
proof (induction s rule: fields.induct)
  case (1 s)
  obtain ok nm rest where sc: "scan_header s = (ok, nm, rest)" by (cases "scan_header s")
  obtain fs t where f: "fields rest = (fs, t)" by (cases "fields rest")
  show ?case
  proof (cases "s = [] \<or> is_eol (hd s)")
    case True
    then show ?thesis by (rule assms(1))
  next
    case False
    then have "P rest" using 1 sc f by fastforce
    with False show ?thesis using fields_step [OF _ _ sc f] by (intro assms(2) [OF _ _ sc f]) auto
  qed
qed

lemma header_get_loop_fields:
  "header_get_loop s name outsz =
   map_option (\<lambda>f. extract_value (drop (length (fname f) + 1) (ftext f)) outsz)
     (find (field_matches name) (fst (fields s)))"
  by (induction s rule: fields_induct; subst header_get_loop.simps)
    (auto simp: fields_stop is_eol_def)

lemma header_remove_count_fields:
  "header_remove_count s name = length (filter (field_matches name) (fst (fields s)))"
  by (induction s rule: fields_induct; subst header_remove_count.simps)
    (auto simp: fields_stop is_eol_def)

lemma header_remove_copy_fields:
  "header_remove_copy s name = texts (filter (\<lambda>f. \<not> field_matches name f) (fst (fields s))) @ snd (fields s)"
  by (induction s rule: fields_induct; subst header_remove_copy.simps)
    (auto simp: fields_stop is_eol_def)

lemma mail_header_remove_fields:
  "name \<noteq> [] \<Longrightarrow> mail_header_remove s name =
   Some (texts (filter (\<lambda>f. \<not> field_matches name f) (fst (fields s))) @ snd (fields s))"
  using fields_concat [of s]
  by (auto simp: mail_header_remove_def header_remove_count_fields header_remove_copy_fields filter_empty_conv
      cong: filter_cong)

text \<open>The scan of \<open>mail_header_set\<close>: the first match splits the fields, later ones are ignored.\<close>

lemma header_set_scan_found:
  "header_set_scan mlen name s (Some x) = (Some x, mlen - length (snd (fields s)))"
  by (induction s rule: fields_induct; subst header_set_scan.simps) (auto simp: fields_stop is_eol_def)

lemma header_set_scan_none:
  "\<forall>f \<in> set (fst (fields s)). \<not> field_matches name f \<Longrightarrow>
   header_set_scan mlen name s None = (None, mlen - length (snd (fields s)))"
  by (induction s rule: fields_induct; subst header_set_scan.simps)
    (auto simp: fields_stop is_eol_def)

lemma header_set_scan_some:
  "fields s = (pre @ f # post, t) \<Longrightarrow> \<forall>g \<in> set pre. \<not> field_matches name g \<Longrightarrow> field_matches name f \<Longrightarrow>
   length s \<le> mlen \<Longrightarrow>
   header_set_scan mlen name s None =
     (Some (mlen - length s + length (texts pre), mlen - length s + length (texts pre) + length (ftext f)), mlen - length t)"
proof (induction pre arbitrary: s)
  case Nil
  then have ne: "s \<noteq> []" "\<not> is_eol (hd s)" by (auto simp: fields_stop)
  obtain ok nm rest where sc: "scan_header s = (ok, nm, rest)" by (cases "scan_header s")
  obtain fs u where f: "fields rest = (fs, u)" by (cases "fields rest")
  have ff: "f = \<lparr>is_header = ok, fname = nm, ftext = take (length s - length rest) s\<rparr>" "u = t"
    using Nil(1) fields_step [OF ne sc f] by auto
  have "length rest < length s" using scan_header_less [OF ne(1)] sc by simp
  then show ?case
    using ne sc f ff Nil by (subst header_set_scan.simps) (auto simp: header_set_scan_found is_eol_def)
next
  case (Cons g pre)
  then have ne: "s \<noteq> []" "\<not> is_eol (hd s)" by (auto simp: fields_stop)
  obtain ok nm rest where sc: "scan_header s = (ok, nm, rest)" by (cases "scan_header s")
  obtain fs u where f: "fields rest = (fs, u)" by (cases "fields rest")
  have g: "g = \<lparr>is_header = ok, fname = nm, ftext = take (length s - length rest) s\<rparr>"
    and f': "fields rest = (pre @ f # post, t)"
    using Cons(2) fields_step [OF ne sc f] f by auto
  have len: "length rest < length s" using scan_header_less [OF ne(1)] sc by simp
  have "header_set_scan mlen name s None = header_set_scan mlen name rest None"
    using ne sc Cons(3) g by (subst header_set_scan.simps) (auto simp: is_eol_def)
  also have "\<dots> = (Some (mlen - length rest + length (texts pre), mlen - length rest + length (texts pre) + length (ftext f)), mlen - length t)"
    using Cons f' len by (intro Cons.IH) auto
  finally show ?case using len Cons(5) g by simp
qed

definition header_name_ok :: "string \<Rightarrow> bool" where
  "header_name_ok n \<longleftrightarrow> n \<noteq> [] \<and> CHR '':'' \<notin> set n \<and> \<not> contains_crlf n"

text \<open>With a match, the first matching field is replaced in place and nothing else moves.\<close>

lemma mail_header_set_replace:
  assumes "fields s = (pre @ f # post, t)" "\<forall>g \<in> set pre. \<not> field_matches n g" "field_matches n f"
    and "header_name_ok n" "\<not> contains_crlf v"
  shows "mail_header_set s n v = Some (texts pre @ header_line n v @ texts post @ t)"
proof -
  have s: "s = texts pre @ ftext f @ texts post @ t" using fields_concat [of s] assms(1) by simp
  have "header_set_scan (length s) n s None =
      (Some (length (texts pre), length (texts pre) + length (ftext f)), length s - length t)"
    using header_set_scan_some [OF assms(1-3)] by simp
  then show ?thesis using assms(4,5) by (simp add: mail_header_set_def header_name_ok_def contains_crlf_def s)
qed

lemma mail_header_set_append:
  assumes "fields s = (fs, t)" "\<forall>g \<in> set fs. \<not> field_matches n g"
    and "header_name_ok n" "\<not> contains_crlf v"
  shows "mail_header_set s n v =
    Some (texts fs @ (if t = [] \<and> s \<noteq> [] \<and> \<not> is_eol (last s) then CRLF else []) @ header_line n v @ t)"
proof -
  have s: "s = texts fs @ t" using fields_concat [of s] assms(1) by simp
  have "header_set_scan (length s) n s None = (None, length s - length t)"
    using header_set_scan_none [of s n "length s"] assms(1,2) by simp
  then show ?thesis
    using assms(3,4) by (auto simp: mail_header_set_def header_name_ok_def contains_crlf_def s is_eol_def)
qed

section \<open>Rebuilding a list of fields\<close>

definition complete :: "field list \<Rightarrow> bool" where
  "complete fs \<longleftrightarrow> (\<forall>f \<in> set fs. last (ftext f) = LF)"

lemma complete_simps [simp]:
  "complete []" "complete (f # fs) \<longleftrightarrow> last (ftext f) = LF \<and> complete fs"
  "complete (fs @ gs) \<longleftrightarrow> complete fs \<and> complete gs"
  by (auto simp: complete_def)

lemma complete_filter: "complete fs \<Longrightarrow> complete (filter P fs)"
  by (simp add: complete_def)

lemma segs_empty: "segs fs t \<Longrightarrow> texts fs @ t = [] \<longleftrightarrow> fs = [] \<and> t = []"
  by (cases fs) (auto simp: seg_def)

lemma no_wsp_tail: "t = [] \<or> is_eol (hd t) \<Longrightarrow> no_wsp t"
  by (auto simp: no_wsp_def is_eol_def)

lemma segs_step_clean:
  assumes "segs (f # fs) t" "crlf_clean (texts (f # fs) @ t)"
  shows "(fs = [] \<and> t = [] \<or> last (ftext f) = LF) \<and> crlf_clean (texts fs @ t)"
proof (cases "texts fs @ t = []")
  case True
  then show ?thesis using assms segs_empty by fastforce
next
  case False
  have "ftext f \<noteq> [] \<and> last (ftext f) = LF"
    using assms False by (intro clean_scan_complete [of _ "texts fs @ t" "is_header f" "fname f"]) (auto simp: seg_def)
  then show ?thesis using assms(2) crlf_clean_split [of "ftext f" "texts fs @ t"] by simp
qed

lemma seg_local: "seg f r \<Longrightarrow> last (ftext f) = LF \<Longrightarrow> (is_header f \<Longrightarrow> no_wsp r') \<Longrightarrow> seg f r'"
  unfolding seg_def using scan_header_local by blast

lemma seg_no_wsp: "seg f r \<Longrightarrow> is_header f \<Longrightarrow> no_wsp r"
  by (metis scan_header_no_wsp seg_def)

lemma filter_no_wsp:
  "segs fs t \<Longrightarrow> no_wsp (texts fs @ t) \<Longrightarrow> \<forall>f. \<not> P f \<longrightarrow> is_header f \<Longrightarrow> no_wsp (texts (filter P fs) @ t)"
proof (induction fs)
  case (Cons f fs)
  show ?case
  proof (cases "P f")
    case True
    then show ?thesis using Cons(2,3) by (auto simp: no_wsp_def seg_def)
  next
    case False
    then have "no_wsp (texts fs @ t)" using Cons(2,4) seg_no_wsp by auto
    with False Cons show ?thesis by simp
  qed
qed simp

lemma segs_filter:
  "segs fs t \<Longrightarrow> crlf_clean (texts fs @ t) \<Longrightarrow> \<forall>f. \<not> P f \<longrightarrow> is_header f \<Longrightarrow>
   segs (filter P fs) t \<and> crlf_clean (texts (filter P fs) @ t)"
proof (induction fs)
  case (Cons f fs)
  note st = segs_step_clean [OF Cons(2,3)]
  with Cons have IH: "segs (filter P fs) t" "crlf_clean (texts (filter P fs) @ t)" by auto
  show ?case
  proof (cases "P f \<and> \<not> (fs = [] \<and> t = [])")
    case True
    then have lf: "last (ftext f) = LF" using st by blast
    have ne: "ftext f \<noteq> []" using Cons(2) by (auto simp: seg_def)
    have "seg f (texts (filter P fs) @ t)"
      using Cons(2,4) lf seg_no_wsp filter_no_wsp by (auto intro: seg_local)
    moreover have "crlf_clean (ftext f)"
      using crlf_clean_split [of "ftext f" "texts fs @ t"] Cons(3) lf by simp
    ultimately show ?thesis using True IH crlf_clean_append by auto
  next
    case False
    then show ?thesis using Cons IH by auto
  qed
qed simp

lemma segs_append:
  "segs fs t \<Longrightarrow> complete fs \<Longrightarrow> segs gs t' \<Longrightarrow> no_wsp (texts gs @ t') \<Longrightarrow> segs (fs @ gs) t'"
proof (induction fs)
  case (Cons f fs)
  have "no_wsp (texts fs @ texts gs @ t')" if "is_header f"
  proof (cases fs)
    case (Cons g hs)
    then show ?thesis using seg_no_wsp [OF _ that, of "texts fs @ t"] \<open>segs (f # fs) t\<close>
      by (auto simp: no_wsp_def seg_def)
  qed (use Cons in simp)
  then have "seg f (texts (fs @ gs) @ t')" using Cons(2,3) seg_local by auto
  then show ?case using Cons by simp
qed simp

lemma clean_complete:
  "segs fs t \<Longrightarrow> crlf_clean (texts fs @ t) \<Longrightarrow> t \<noteq> [] \<or> fs = [] \<or> last (ftext (last fs)) = LF \<Longrightarrow> complete fs"
proof (induction fs)
  case (Cons f fs)
  then show ?case using segs_step_clean [OF Cons(2,3)] by (auto split: if_splits)
qed simp

definition header_field :: "string \<Rightarrow> string \<Rightarrow> field" where
  "header_field n v = \<lparr>is_header = True, fname = n, ftext = header_line n v\<rparr>"

lemma header_end_one_line: "\<not> contains_crlf v \<Longrightarrow> no_wsp r \<Longrightarrow> header_end (v @ CRLF @ r) = r"
proof -
  assume v: "\<not> contains_crlf v" and r: "no_wsp r"
  have "\<forall>c \<in> set v. not_eol c" using v by (auto simp: contains_crlf_def not_eol_def)
  then have "skip_line (v @ CRLF @ r) = r" by (simp add: skip_line_def dropWhile_all not_eol_def skip_eol_def)
  then show ?thesis using r by (subst header_end_unfold) (auto simp: no_wsp_def)
qed

lemma seg_header_field: "header_name_ok n \<Longrightarrow> \<not> contains_crlf v \<Longrightarrow> no_wsp r \<Longrightarrow> seg (header_field n v) r"
proof -
  assume n: "header_name_ok n" and v: "\<not> contains_crlf v" and r: "no_wsp r"
  have nc: "\<forall>c \<in> set n. name_char c" "n \<noteq> []" using n by (auto simp: header_name_ok_def contains_crlf_def name_char_def)
  have "\<not> contains_crlf (SP # v)" using v by (auto simp: contains_crlf_def)
  then have "header_end (SP # v @ CRLF @ r) = r" using header_end_one_line [of "SP # v" r] r by simp
  then have "scan_header (header_line n v @ r) = (True, n, r)"
    using nc by (simp add: scan_header_def header_line_def dropWhile_all takeWhile_all name_char_def)
  moreover have "\<not> is_eol (hd n)" using nc by (cases n) (auto simp: name_char_def is_eol_def)
  ultimately show ?thesis using nc by (auto simp: seg_def header_field_def header_line_def)
qed

text \<open>A last line without a line end is completed by the CRLF that \<open>mail_header_set\<close> inserts.\<close>

lemma skip_line_CRLF: "skip_line v = [] \<Longrightarrow> v = [] \<or> \<not> is_eol (last v) \<Longrightarrow> skip_line (v @ CRLF) = []"
proof -
  assume a: "skip_line v = []" "v = [] \<or> \<not> is_eol (last v)"
  have "dropWhile not_eol v = []"
  proof (rule ccontr)
    assume "dropWhile not_eol v \<noteq> []"
    then obtain e w where ew: "dropWhile not_eol v = e # w" by (cases "dropWhile not_eol v") auto
    have "last v = last (e # w)" using ew by (metis last_appendR list.distinct(1) takeWhile_dropWhile_id)
    moreover have "is_eol e" using hd_dropWhile [of not_eol v] ew by (auto simp: not_eol_iff)
    moreover have "v \<noteq> []" using ew by auto
    ultimately show False using a ew
      by (auto simp: skip_line_def skip_eol_def is_eol_def split: list.splits if_splits)
  qed
  then have "\<forall>c \<in> set v. not_eol c" by simp
  then show ?thesis by (simp add: skip_line_def dropWhile_all not_eol_def skip_eol_def)
qed

lemma skip_eol_append: "skip_eol d \<noteq> [] \<Longrightarrow> skip_eol (d @ x) = skip_eol d @ x"
  by (cases d; cases "tl d") (auto simp: skip_eol_def)

lemma header_end_CRLF: "header_end v = [] \<Longrightarrow> v = [] \<or> \<not> is_eol (last v) \<Longrightarrow> header_end (v @ CRLF) = []"
proof (induction v rule: length_induct)
  case (1 v)
  show ?case
  proof (cases "skip_line v = []")
    case True
    then show ?thesis using 1(3) by (subst header_end_unfold) (simp add: skip_line_CRLF)
  next
    case False
    let ?j = "skip_line v"
    have w: "is_wsp (hd ?j)" "header_end ?j = []"
      using 1(2) False by (auto simp: header_end_unfold [of v] split: if_splits)
    obtain p where p: "v = p @ ?j" using skip_line_suffix by blast
    then have "last v = last ?j" using False by (metis last_appendR)
    then have l: "\<not> is_eol (last ?j)" using 1(3) p False by auto
    have ne: "v \<noteq> []" using False by (auto simp: skip_line_def)
    have j': "skip_line (v @ CRLF) = ?j @ CRLF"
    proof -
      have "dropWhile not_eol v \<noteq> []" using False unfolding skip_line_def by (metis skip_eol_Nil)
      then obtain c where "c \<in> set v" "\<not> not_eol c" by auto
      then have d: "dropWhile not_eol (v @ CRLF) = dropWhile not_eol v @ CRLF"
        by (rule dropWhile_append1)
      show ?thesis using False unfolding skip_line_def d by (rule skip_eol_append)
    qed
    have "header_end (?j @ CRLF) = []" using 1(1) ne l w(2) skip_line_less by blast
    then show ?thesis using j' w(1) False by (subst header_end_unfold) auto
  qed
qed

lemma seg_CRLF:
  assumes "seg f []" "\<not> is_eol (last (ftext f))" "no_wsp r"
  shows "seg (f\<lparr>ftext := ftext f @ CRLF\<rparr>) r"
proof -
  let ?x = "ftext f"
  have x: "?x \<noteq> []" and sc: "scan_header ?x = (is_header f, fname f, [])" using assms(1) by (auto simp: seg_def)
  have "scan_header (?x @ CRLF) = (is_header f, fname f, [])"
  proof (cases "dropWhile name_char ?x")
    case Nil
    then have "\<forall>c \<in> set ?x. name_char c" by simp
    then show ?thesis using sc Nil skip_line_CRLF [of ?x] assms(2)
      by (auto simp: scan_header_def dropWhile_all name_char_def)
  next
    case (Cons e w)
    then have d: "dropWhile name_char (?x @ CRLF) = e # w @ CRLF" "takeWhile name_char (?x @ CRLF) = takeWhile name_char ?x"
      by (metis append_Cons dropWhile_append1 dropWhile_eq_Nil_conv list.distinct(1))
        (metis Cons dropWhile_eq_Nil_conv list.distinct(1) takeWhile_append1)
    have "last ?x = last (e # w)" using Cons by (metis last_appendR list.distinct(1) takeWhile_dropWhile_id)
    then have "w = [] \<or> \<not> is_eol (last w)" using assms(2) by (auto split: if_splits)
    then show ?thesis using sc Cons d skip_line_CRLF [of ?x] header_end_CRLF [of w] assms(2)
      by (auto simp: scan_header_def split: if_splits)
  qed
  then have "scan_header ((?x @ CRLF) @ r) = (is_header f, fname f, r)"
    using scan_header_local [of "?x @ CRLF" "[]"] assms(3) by simp
  then show ?thesis using assms(1) x by (simp add: seg_def)
qed

definition close_last :: "field list \<Rightarrow> field list" where
  "close_last fs =
     (if fs = [] \<or> last (ftext (last fs)) = LF then fs
      else butlast fs @ [(last fs)\<lparr>ftext := ftext (last fs) @ CRLF\<rparr>])"

lemma crlf_clean_last: "crlf_clean s \<Longrightarrow> s \<noteq> [] \<Longrightarrow> last s \<noteq> CR"
  by (induction s rule: crlf_clean.induct) (auto split: if_splits)

lemma close_last_Cons: "fs \<noteq> [] \<Longrightarrow> close_last (f # fs) = f # close_last fs"
  by (simp add: close_last_def)

lemma close_last_texts:
  "texts (close_last fs) = texts fs @ (if fs \<noteq> [] \<and> last (ftext (last fs)) \<noteq> LF then CRLF else [])"
  by (induction fs) (auto simp: close_last_def)

lemma segs_close_last_Nil:
  "segs fs [] \<Longrightarrow> crlf_clean (texts fs) \<Longrightarrow> segs (close_last fs) [] \<and> complete (close_last fs)"
proof (induction fs)
  case (Cons f fs)
  have s: "seg f (texts fs)" using Cons(2) by simp
  then have ne: "ftext f \<noteq> []" by (simp add: seg_def)
  have st: "fs = [] \<or> last (ftext f) = LF" "crlf_clean (texts fs)"
    using segs_step_clean [OF Cons(2)] Cons(3) by auto
  show ?case
  proof (cases "fs = []")
    case True
    then have "last (ftext f) \<noteq> CR" using Cons(3) ne crlf_clean_last by auto
    then show ?thesis using True s seg_CRLF [of f "[]"]
      by (auto simp: close_last_def is_eol_def no_wsp_def)
  next
    case False
    then have "seg f (texts (close_last fs))"
      using s st Cons(2) seg_no_wsp [OF s]
      by (intro seg_local [OF s]) (auto simp: close_last_texts no_wsp_def segs_empty [of fs "[]", simplified])
    then show ?thesis using Cons False st by (simp add: close_last_Cons)
  qed
qed (simp add: close_last_def)

lemma segs_close_last:
  assumes "segs fs t" "crlf_clean (texts fs @ t)"
  shows "segs (close_last fs) t \<and> complete (close_last fs)"
proof (cases "t = []")
  case True
  then show ?thesis using assms segs_close_last_Nil by simp
next
  case False
  then have "complete fs" using clean_complete assms by blast
  moreover have "close_last fs = fs" using \<open>complete fs\<close> by (auto simp: close_last_def complete_def)
  ultimately show ?thesis using assms(1) by simp
qed

lemma close_last_filter: "complete fs \<Longrightarrow> close_last fs = fs"
  by (auto simp: close_last_def complete_def)

text \<open>What \<open>remove\<close> followed by \<open>set\<close> does to the fields of a message in CRLF form.\<close>

lemma filter_not_matches_header: "\<forall>f. \<not> \<not> field_matches n f \<longrightarrow> is_header f"
  by (simp add: field_matches_def)

lemma remove_fields:
  assumes "crlf_clean s" "fields s = (fs, t)" "n \<noteq> []"
  shows "\<exists>s'. mail_header_remove s n = Some s' \<and> crlf_clean s' \<and>
     fields s' = (filter (\<lambda>f. \<not> field_matches n f) fs, t)"
proof -
  have "segs fs t" "s = texts fs @ t" using assms(2) by (simp_all add: fields_iff)
  then have "segs (filter (\<lambda>f. \<not> field_matches n f) fs) t \<and> crlf_clean (texts (filter (\<lambda>f. \<not> field_matches n f) fs) @ t)"
    using segs_filter [OF _ _ filter_not_matches_header] assms(1) by blast
  then show ?thesis using mail_header_remove_fields [OF assms(3), of s] assms(2) fields_of_segs by auto
qed

lemma last_texts: "segs fs t \<Longrightarrow> fs \<noteq> [] \<Longrightarrow> texts fs \<noteq> [] \<and> last (texts fs) = last (ftext (last fs))"
  by (induction fs) (auto simp: seg_def)

lemma clean_texts:
  assumes "segs fs t" "crlf_clean (texts fs @ t)"
  shows "crlf_clean (texts fs) \<and> crlf_clean t \<and> (t \<noteq> [] \<longrightarrow> complete fs)"
proof (cases "t = [] \<or> fs = []")
  case False
  then have "complete fs" using clean_complete assms by blast
  then have "last (texts fs) = LF" using False last_texts assms(1) by (auto simp: complete_def)
  then show ?thesis using \<open>complete fs\<close> crlf_clean_split [OF assms(2)] by simp
qed (use assms in auto)

lemma header_line_clean: "header_name_ok n \<Longrightarrow> \<not> contains_crlf v \<Longrightarrow> crlf_clean (header_line n v)"
proof -
  assume "header_name_ok n" "\<not> contains_crlf v"
  then have "\<forall>c \<in> set (n @ CHR '':'' # SP # v). not_eol c"
    by (auto simp: header_name_ok_def contains_crlf_def not_eol_def)
  from crlf_clean_no_eol [OF this, of CRLF] show ?thesis by (simp add: header_line_def)
qed

lemma set_fields:
  assumes "crlf_clean s" "fields s = (fs, t)" "\<forall>g \<in> set fs. \<not> field_matches n g"
    and n: "header_name_ok n" "\<not> is_wsp (hd n)" and v: "\<not> contains_crlf v"
  shows "\<exists>s'. mail_header_set s n v = Some s' \<and> crlf_clean s' \<and>
     fields s' = (close_last fs @ [header_field n v], t)"
proof -
  have sg: "segs fs t" and s: "s = texts fs @ t" using assms(2) by (simp_all add: fields_iff)
  have cl: "segs (close_last fs) t \<and> complete (close_last fs)" using segs_close_last [OF sg] assms(1) s by simp
  have ct: "crlf_clean (texts fs) \<and> crlf_clean t \<and> (t \<noteq> [] \<longrightarrow> complete fs)" using clean_texts [OF sg] assms(1) s by simp
  have t: "no_wsp t" using sg segs_tail no_wsp_tail by blast
  have nn: "n \<noteq> []" using n by (simp add: header_name_ok_def)
  have "seg (header_field n v) t" using seg_header_field n v t by blast
  then have h: "segs [header_field n v] t" using segs_tail [OF sg] by simp
  have "segs (close_last fs @ [header_field n v]) t"
    using cl h n(2) nn by (intro segs_append [of "close_last fs" t]) (auto simp: no_wsp_def header_field_def header_line_def)
  moreover have "t = [] \<and> s \<noteq> [] \<and> \<not> is_eol (last s) \<longleftrightarrow> fs \<noteq> [] \<and> last (ftext (last fs)) \<noteq> LF"
    using ct last_texts [OF sg] s crlf_clean_last [of "texts fs"] by (cases "fs = []") (auto simp: is_eol_def complete_def)
  then have "mail_header_set s n v = Some (texts (close_last fs @ [header_field n v]) @ t)"
    using mail_header_set_append [OF assms(2,3) n(1) v] by (simp add: close_last_texts header_field_def)
  moreover have "crlf_clean (texts (close_last fs @ [header_field n v]) @ t)"
    using ct header_line_clean [OF n(1) v] by (auto simp: close_last_texts header_field_def crlf_clean_append)
  ultimately show ?thesis using fields_of_segs by blast
qed

end
