(* ===== verification/Mail_Sanitize.thy ===== *)
theory Mail_Sanitize
  imports Mail_Fields
begin

text \<open>
  What the header operations and the forward-sanitize pipeline of \<open>mail.c\<close> guarantee, stated on the
  fields of the message: removal and setting act on one name only, and a forwarded message carries
  exactly one trusted copy of every identity header the caller rewrites.
\<close>

section \<open>One step of the pipeline\<close>

definition complete_msg :: "string \<Rightarrow> bool" where
  "complete_msg s \<longleftrightarrow> complete (fst (fields s))"

lemma complete_msg_iff:
  assumes "crlf_clean s"
  shows "complete_msg s \<longleftrightarrow> tail_of s \<noteq> [] \<or> s = [] \<or> last s = LF"
proof -
  obtain fs t where f: "fields s = (fs, t)" by (cases "fields s")
  then have sg: "segs fs t" and s: "s = texts fs @ t" by (simp_all add: fields_iff)
  show ?thesis
  proof (cases "t = [] \<and> fs \<noteq> []")
    case True
    then have "last s = last (ftext (last fs))" "s \<noteq> []" using last_texts [OF sg] s by auto
    then show ?thesis using True f sg s assms clean_complete [OF sg]
      by (auto simp: complete_msg_def tail_of_def complete_def)
  next
    case False
    then show ?thesis using f s clean_complete [OF sg] assms by (auto simp: complete_msg_def tail_of_def)
  qed
qed

text \<open>
  \<open>stage touched s s'\<close>: the step keeps the CRLF form and the tail, and keeps the fields of every
  name it does not touch as long as no line lacks its line end.
\<close>

definition stage :: "(string \<Rightarrow> bool) \<Rightarrow> string \<Rightarrow> string \<Rightarrow> bool" where
  "stage touched s s' \<longleftrightarrow> crlf_clean s' \<and> tail_of s' = tail_of s \<and>
     (complete_msg s \<longrightarrow> complete_msg s' \<and> (\<forall>m. \<not> touched m \<longrightarrow> fields_named m s' = fields_named m s))"

lemma stage_refl: "crlf_clean s \<Longrightarrow> stage T s s"
  by (simp add: stage_def)

lemma stage_trans: "stage T s s' \<Longrightarrow> stage U s' s'' \<Longrightarrow> stage (\<lambda>m. T m \<or> U m) s s''"
  by (simp add: stage_def)

lemma stage_keeps:
  "stage T s s' \<Longrightarrow> complete_msg s \<Longrightarrow> fields_named m s = xs \<Longrightarrow> \<not> T m \<Longrightarrow> complete_msg s' \<and> fields_named m s' = xs"
  by (simp add: stage_def)

lemma stage_clean: "stage T s s' \<Longrightarrow> crlf_clean s'"
  by (simp add: stage_def)

lemma filter_other_name:
  "\<not> name_eq n m \<Longrightarrow> filter (field_matches m) (filter (\<lambda>f. \<not> field_matches n f) fs) = filter (field_matches m) fs"
  by (induction fs) (auto simp: field_matches_def name_eq_iff)

lemma remove_stage:
  assumes "crlf_clean s" "n \<noteq> []"
  obtains s' where "mail_header_remove s n = Some s'" "stage (name_eq n) s s'" "fields_named n s' = []"
proof -
  obtain fs t where f: "fields s = (fs, t)" by (cases "fields s")
  from remove_fields [OF assms(1) f assms(2)] obtain s' where
    "mail_header_remove s n = Some s'" "crlf_clean s'" "fields s' = (filter (\<lambda>f. \<not> field_matches n f) fs, t)" by blast
  then show ?thesis using f filter_other_name
    by (intro that [of s'])
      (auto simp: stage_def tail_of_def fields_named_def complete_msg_def complete_filter filter_empty_conv)
qed

lemma close_last_matches:
  "filter (field_matches n) fs = [] \<Longrightarrow> filter (field_matches n) (close_last fs) = []"
  by (cases fs rule: rev_cases) (auto simp: close_last_def field_matches_def)

lemma rewrite_stage:
  assumes "crlf_clean s" "header_name_ok n" "\<not> is_wsp (hd n)" "\<not> contains_crlf x"
  obtains s' where "rewrite_header n (Some x) s = Some s'" "stage (name_eq n) s s'" "complete_msg s'"
    "fields_named n s' = [header_line n x]"
proof -
  obtain fs t where f: "fields s = (fs, t)" by (cases "fields s")
  have "n \<noteq> []" using assms(2) by (simp add: header_name_ok_def)
  let ?gs = "filter (\<lambda>f. \<not> field_matches n f) fs"
  from remove_fields [OF assms(1) f \<open>n \<noteq> []\<close>] obtain s1 where
    s1: "mail_header_remove s n = Some s1" "crlf_clean s1" "fields s1 = (?gs, t)" by blast
  from set_fields [OF s1(2,3) _ assms(2-4)] obtain s2 where
    s2: "mail_header_set s1 n x = Some s2" "crlf_clean s2" "fields s2 = (close_last ?gs @ [header_field n x], t)" by auto
  have "segs ?gs t" "crlf_clean (texts ?gs @ t)" using s1 by (auto simp: fields_iff)
  then have c: "complete (close_last ?gs)" using segs_close_last by blast
  have h: "last (header_line n x) = LF" by (simp add: header_line_def)
  have "filter (field_matches n) (close_last ?gs) = []" by (rule close_last_matches) (simp add: filter_empty_conv)
  moreover have "filter (field_matches m) (close_last ?gs @ [header_field n x]) = filter (field_matches m) fs"
    if "complete fs" "\<not> name_eq n m" for m
    using that filter_other_name by (auto simp: close_last_filter complete_filter header_field_def)
  ultimately show ?thesis using s1 s2 f c h
    by (intro that [of s2]) (auto simp: rewrite_header_def stage_def tail_of_def fields_named_def complete_msg_def header_field_def)
qed

text \<open>The same for an optional value: an absent one skips the step.\<close>

lemma rewrite_opt_stage:
  assumes "crlf_clean s" "header_name_ok n" "\<not> is_wsp (hd n)" "\<not> opt_crlf v"
  obtains s' where "rewrite_header n v s = Some s'" "stage (name_eq n) s s'"
    "\<And>x. v = Some x \<Longrightarrow> complete_msg s' \<and> fields_named n s' = [header_line n x]"
proof (cases v)
  case None
  then show ?thesis using that stage_refl assms(1) by (simp add: rewrite_header_def)
next
  case (Some x)
  then have "\<not> contains_crlf x" using assms(4) by (simp add: opt_crlf_def)
  from rewrite_stage [OF assms(1-3) this] obtain s' where "rewrite_header n (Some x) s = Some s'"
    "stage (name_eq n) s s'" "complete_msg s'" "fields_named n s' = [header_line n x]" .
  then show ?thesis using that Some by simp
qed

section \<open>Prepending the trace line\<close>

text \<open>
  Leading lines that start with white space become continuations of the new first line; they are
  fields of no name that starts with another character.
\<close>

definition own_name :: "string \<Rightarrow> bool" where
  "own_name m \<longleftrightarrow> m \<noteq> [] \<and> \<not> is_wsp (hd m)"

lemma header_end_skip_prefix: "\<forall>c \<in> set p. not_eol c \<Longrightarrow> header_end (p @ s) = header_end s"
  by (subst (1 2) header_end_unfold) (simp add: skip_line_def dropWhile_all)

lemma header_end_of_field:
  assumes "scan_header s = (ok, nm, rest)"
  shows "header_end s = (if rest \<noteq> [] \<and> is_wsp (hd rest) then header_end rest else rest)"
proof (cases ok)
  case True
  let ?n = "takeWhile name_char s"
  have d: "dropWhile name_char s \<noteq> []" "hd (dropWhile name_char s) = CHR '':''"
    and r: "rest = header_end (tl (dropWhile name_char s))"
    using assms True by (auto simp: scan_header_def Let_def split: if_splits)
  then have s: "s = (?n @ [CHR '':'']) @ tl (dropWhile name_char s)"
    by (metis append.assoc append_Cons append_Nil list.collapse takeWhile_dropWhile_id)
  have "\<forall>c \<in> set (?n @ [CHR '':'']). not_eol c" by (auto dest!: set_takeWhileD simp: name_char_def not_eol_def)
  then have "header_end s = rest" using header_end_skip_prefix s r by metis
  moreover have "no_wsp rest" using scan_header_no_wsp [of s nm rest] assms True by simp
  ultimately show ?thesis by (auto simp: no_wsp_def)
next
  case False
  then have "rest = skip_line s" using assms by (auto simp: scan_header_def Let_def split: if_splits)
  then show ?thesis using header_end_unfold [of s] by simp
qed

lemma to_lower_wsp: "is_wsp (to_lower c) \<Longrightarrow> is_wsp c"
proof (rule ccontr)
  assume a: "is_wsp (to_lower c)" "\<not> is_wsp c"
  then have "byte (to_lower c) \<le> 32" by (auto simp: is_wsp_def)
  moreover have "is_upper c" using a by (auto simp: to_lower_def split: if_splits)
  ultimately show False by (simp add: byte_to_lower is_upper_def)
qed

lemma wsp_field_not_own:
  assumes "s \<noteq> []" "is_wsp (hd s)" "scan_header s = (ok, nm, rest)" "own_name m"
  shows "\<not> (ok \<and> name_eq nm m)"
proof
  assume a: "ok \<and> name_eq nm m"
  then have nm: "nm = takeWhile name_char s" using assms(3) by (auto simp: scan_header_def Let_def split: if_splits)
  have "name_char (hd s)" using assms(2) by (auto simp: is_wsp_def name_char_def)
  then have h: "nm \<noteq> []" "hd nm = hd s" using assms(1) nm by (cases s; simp)+
  have "to_lower (hd nm) = to_lower (hd m)"
    using a h assms(4) by (cases nm; cases m) (auto simp: name_eq_iff own_name_def)
  moreover have "to_lower (hd s) = hd s" using assms(2) by (auto simp: is_wsp_def to_lower_def is_upper_def)
  ultimately have "is_wsp (hd m)" using h assms(2) to_lower_wsp by metis
  then show False using assms(4) by (simp add: own_name_def)
qed

lemma swallow_fields:
  "s \<noteq> [] \<Longrightarrow> is_wsp (hd s) \<Longrightarrow> own_name m \<Longrightarrow>
   fields_named m (header_end s) = fields_named m s \<and> tail_of (header_end s) = tail_of s \<and>
   (complete_msg s \<longrightarrow> complete_msg (header_end s))"
proof (induction s rule: fields_induct)
  case (stop s)
  then show ?case by (auto simp: is_wsp_def is_eol_def)
next
  case (step s ok nm rest fs t)
  have "\<not> (ok \<and> name_eq nm m)" using wsp_field_not_own step by blast
  then have "fields_named m rest = fields_named m s \<and> tail_of rest = tail_of s \<and> (complete_msg s \<longrightarrow> complete_msg rest)"
    using step(4,5) by (simp add: fields_named_def tail_of_def complete_msg_def)
  then show ?case using step header_end_of_field [OF step(3)] by auto
qed

lemma prepend_fields:
  assumes "\<not> contains_crlf v" "header_name_ok n"
  shows "fields (header_line n v @ s) =
    (let r = if s \<noteq> [] \<and> is_wsp (hd s) then header_end s else s in
     (\<lparr>is_header = True, fname = n, ftext = take (length (header_line n v @ s) - length r) (header_line n v @ s)\<rparr>
        # fst (fields r), snd (fields r)))"
proof -
  let ?r = "if s \<noteq> [] \<and> is_wsp (hd s) then header_end s else s"
  have nc: "\<forall>c \<in> set n. name_char c" "n \<noteq> []"
    using assms(2) by (auto simp: header_name_ok_def contains_crlf_def name_char_def)
  have "\<forall>c \<in> set (SP # v). not_eol c" using assms(1) by (auto simp: contains_crlf_def not_eol_def)
  from header_end_skip_prefix [OF this, of "CRLF @ s"] have "header_end (SP # v @ CRLF @ s) = ?r"
    by (simp add: header_end_unfold [of "CR # LF # s"] skip_line_def not_eol_def skip_eol_def)
  then have sc: "scan_header (header_line n v @ s) = (True, n, ?r)"
    using nc by (simp add: scan_header_def header_line_def dropWhile_all takeWhile_all name_char_def)
  have "header_line n v @ s \<noteq> []" "\<not> is_eol (hd (header_line n v @ s))"
    using nc by (cases n; auto simp: header_line_def name_char_def is_eol_def)+
  from fields_step [OF this sc, of "fst (fields ?r)" "snd (fields ?r)"] show ?thesis by (simp add: Let_def)
qed

lemma prepend_keeps:
  assumes "\<not> contains_crlf v" "header_name_ok n" "own_name m" "\<not> name_eq n m"
  shows "fields_named m (header_line n v @ s) = fields_named m s"
proof -
  have "fields_named m (if s \<noteq> [] \<and> is_wsp (hd s) then header_end s else s) = fields_named m s"
    using swallow_fields assms(3) by auto
  then show ?thesis using prepend_fields [OF assms(1,2), of s] assms(4) by (simp add: fields_named_def Let_def)
qed

lemma prepend_stage:
  assumes "crlf_clean s" "\<not> contains_crlf v" "header_name_ok n"
  shows "stage (\<lambda>m. \<not> own_name m \<or> name_eq n m) s (header_line n v @ s)"
proof -
  let ?r = "if s \<noteq> [] \<and> is_wsp (hd s) then header_end s else s"
  let ?s' = "header_line n v @ s"
  note f = prepend_fields [OF assms(2,3), of s]
  have "own_name ''X''" by (simp add: own_name_def is_wsp_def)
  then have sw: "tail_of ?r = tail_of s" using swallow_fields by auto
  have "crlf_clean ?s'" using crlf_clean_append header_line_clean assms by blast
  moreover have "tail_of ?s' = tail_of s" using f sw by (simp add: tail_of_def Let_def)
  moreover have "complete_msg ?s'" if "complete_msg s"
    using that complete_msg_iff [OF assms(1)] complete_msg_iff [OF \<open>crlf_clean ?s'\<close>] \<open>tail_of ?s' = tail_of s\<close>
    by (cases "s = []") (auto simp: header_line_def)
  ultimately show ?thesis using prepend_keeps [OF assms(2,3)] by (auto simp: stage_def)
qed

section \<open>The pipeline\<close>

definition touched_names :: "string list" where
  "touched_names = [''Return-Path'', ''From'', ''Sender'', ''Reply-To'', ''DKIM-Signature'', ''Received'']"

lemma identity_names_ok:
  "header_name_ok ''Return-Path''" "header_name_ok ''From''" "header_name_ok ''Sender''" "header_name_ok ''Reply-To''"
  "header_name_ok ''Received''"
  by (simp_all add: header_name_ok_def contains_crlf_def)

text \<open>The name and the value of every identity header the caller rewrites.\<close>

definition trusted :: "MailRewrite \<Rightarrow> (string \<times> string) list" where
  "trusted rw = concat (map (\<lambda>(n, v). case v of None \<Rightarrow> [] | Some x \<Rightarrow> [(n, x)])
     [(''Return-Path'', return_path rw), (''From'', rw_from rw), (''Sender'', rw_sender rw), (''Reply-To'', reply_to rw)])"

definition rewrite_clean :: "MailRewrite \<Rightarrow> bool" where
  "rewrite_clean rw \<longleftrightarrow> \<not> opt_crlf (received rw) \<and> \<not> opt_crlf (return_path rw) \<and> \<not> opt_crlf (rw_from rw)
     \<and> \<not> opt_crlf (rw_sender rw) \<and> \<not> opt_crlf (reply_to rw)"

lemma normalized_input:
  "take (crlf_newlen msg) (crlf_rewrite (msg @ replicate (length msg + 1) NUL) (crlf_newlen msg) (length msg)) = crlf_norm msg"
proof -
  have "crlf_rewrite (msg @ replicate (length msg + 1) NUL) (crlf_newlen msg) (length msg)
      = crlf_norm msg @ drop (crlf_newlen msg) (msg @ replicate (length msg + 1) NUL)"
    using crlf_newlen_le [of msg] by (subst crlf_rewrite_correct) auto
  then show ?thesis by (simp add: length_crlf_norm [symmetric])
qed

lemma names_distinct:
  "\<not> name_eq ''From'' ''Return-Path''" "\<not> name_eq ''Sender'' ''Return-Path''" "\<not> name_eq ''Reply-To'' ''Return-Path''"
  "\<not> name_eq ''Sender'' ''From''" "\<not> name_eq ''Reply-To'' ''From''" "\<not> name_eq ''Reply-To'' ''Sender''"
  "\<not> name_eq ''DKIM-Signature'' ''Return-Path''" "\<not> name_eq ''DKIM-Signature'' ''From''"
  "\<not> name_eq ''DKIM-Signature'' ''Sender''" "\<not> name_eq ''DKIM-Signature'' ''Reply-To''"
  "\<not> name_eq ''Received'' ''Return-Path''" "\<not> name_eq ''Received'' ''From''" "\<not> name_eq ''Received'' ''Sender''"
  "\<not> name_eq ''Received'' ''Reply-To''" "\<not> name_eq ''Received'' ''DKIM-Signature''"
  by code_simp+

lemma names_own: "own_name ''Return-Path''" "own_name ''From''" "own_name ''Sender''" "own_name ''Reply-To''"
  "own_name ''DKIM-Signature''"
  by code_simp+

lemma sanitize_ok_iff:
  "mail_sanitize_for_forward msg rw = Some out \<Longrightarrow> rewrite_clean rw \<and> int (length msg) \<le> (SIZE_MAX - 1) div 2"
  by (auto simp: mail_sanitize_for_forward_def rewrite_clean_def split: if_splits)

lemma sanitize_stages:
  assumes "rewrite_clean rw" "int (length msg) \<le> (SIZE_MAX - 1) div 2"
  obtains a b c d e out where
    "mail_sanitize_for_forward msg rw = Some out"
    "stage (name_eq ''Return-Path'') (crlf_norm msg) a" "stage (name_eq ''From'') a b"
    "stage (name_eq ''Sender'') b c" "stage (name_eq ''Reply-To'') c d"
    "stage (name_eq ''DKIM-Signature'') d e" "stage (\<lambda>m. \<not> own_name m \<or> name_eq ''Received'' m) e out"
    "\<forall>x. return_path rw = Some x \<longrightarrow> complete_msg a \<and> fields_named ''Return-Path'' a = [header_line ''Return-Path'' x]"
    "\<forall>x. rw_from rw = Some x \<longrightarrow> complete_msg b \<and> fields_named ''From'' b = [header_line ''From'' x]"
    "\<forall>x. rw_sender rw = Some x \<longrightarrow> complete_msg c \<and> fields_named ''Sender'' c = [header_line ''Sender'' x]"
    "\<forall>x. reply_to rw = Some x \<longrightarrow> complete_msg d \<and> fields_named ''Reply-To'' d = [header_line ''Reply-To'' x]"
    "fields_named ''DKIM-Signature'' out = []"
    "out = (case received rw of None \<Rightarrow> e | Some r \<Rightarrow> header_line ''Received'' r @ e)"
proof -
  note ok = assms(1) [unfolded rewrite_clean_def]
  note w = identity_names_ok
  have h: "\<not> is_wsp (hd ''Return-Path'')" "\<not> is_wsp (hd ''From'')" "\<not> is_wsp (hd ''Sender'')" "\<not> is_wsp (hd ''Reply-To'')"
    by (simp_all add: is_wsp_def)
  obtain a where a: "rewrite_header ''Return-Path'' (return_path rw) (crlf_norm msg) = Some a"
    "stage (name_eq ''Return-Path'') (crlf_norm msg) a"
    "\<forall>x. return_path rw = Some x \<longrightarrow> complete_msg a \<and> fields_named ''Return-Path'' a = [header_line ''Return-Path'' x]"
    using rewrite_opt_stage [OF crlf_clean_norm w(1) h(1)] ok by metis
  obtain b where b: "rewrite_header ''From'' (rw_from rw) a = Some b" "stage (name_eq ''From'') a b"
    "\<forall>x. rw_from rw = Some x \<longrightarrow> complete_msg b \<and> fields_named ''From'' b = [header_line ''From'' x]"
    using rewrite_opt_stage [OF stage_clean [OF a(2)] w(2) h(2)] ok by metis
  obtain c where c: "rewrite_header ''Sender'' (rw_sender rw) b = Some c" "stage (name_eq ''Sender'') b c"
    "\<forall>x. rw_sender rw = Some x \<longrightarrow> complete_msg c \<and> fields_named ''Sender'' c = [header_line ''Sender'' x]"
    using rewrite_opt_stage [OF stage_clean [OF b(2)] w(3) h(3)] ok by metis
  obtain d where d: "rewrite_header ''Reply-To'' (reply_to rw) c = Some d" "stage (name_eq ''Reply-To'') c d"
    "\<forall>x. reply_to rw = Some x \<longrightarrow> complete_msg d \<and> fields_named ''Reply-To'' d = [header_line ''Reply-To'' x]"
    using rewrite_opt_stage [OF stage_clean [OF c(2)] w(4) h(4)] ok by metis
  obtain e where e: "mail_header_remove d ''DKIM-Signature'' = Some e" "stage (name_eq ''DKIM-Signature'') d e"
    "fields_named ''DKIM-Signature'' e = []"
    using remove_stage [OF stage_clean [OF d(2)]] by blast
  let ?out = "case received rw of None \<Rightarrow> e | Some r \<Rightarrow> header_line ''Received'' r @ e"
  have "mail_sanitize_for_forward msg rw = Some ?out"
    using ok assms(2) a(1) b(1) c(1) d(1) e(1)
    unfolding mail_sanitize_for_forward_def normalized_input
    by (cases "received rw") (simp_all add: header_line_def)
  moreover have "stage (\<lambda>m. \<not> own_name m \<or> name_eq ''Received'' m) e ?out"
    using prepend_stage [OF stage_clean [OF e(2)] _ w(5)] stage_refl [OF stage_clean [OF e(2)]] ok
    by (auto simp: opt_crlf_def split: option.splits)
  moreover have "fields_named ''DKIM-Signature'' ?out = []"
    using e(3) ok prepend_keeps [OF _ w(5)] names_distinct(15) names_own(5) by (auto simp: opt_crlf_def split: option.splits)
  ultimately show ?thesis using that a b c d e by blast
qed

lemma set_opt_entry: "set (case v of None \<Rightarrow> [] | Some x \<Rightarrow> [(n, x)]) = {(n, x) |x. v = Some x}"
  by (cases v) auto

lemma trusted_set:
  "set (trusted rw) = {(''Return-Path'', x) |x. return_path rw = Some x} \<union> {(''From'', x) |x. rw_from rw = Some x} \<union>
     {(''Sender'', x) |x. rw_sender rw = Some x} \<union> {(''Reply-To'', x) |x. reply_to rw = Some x}"
  by (simp add: trusted_def set_opt_entry Un_assoc)



text \<open>
  What the rewriting leaves alone. The part from the blank line on (the body) is the CRLF
  normal form of the incoming one, the result has no bare CR or LF, and, when the header block of
  the incoming message ends with a line end, the fields of every other name are unchanged; with a
  trace value the result starts with the Received line.
\<close>

theorem sanitize_preserves_rest:
  assumes "mail_sanitize_for_forward msg rw = Some out"
  shows "tail_of out = tail_of (crlf_norm msg) \<and> crlf_clean out
    \<and> (complete_msg (crlf_norm msg) \<longrightarrow> (\<forall>m. own_name m \<and> (\<forall>n \<in> set touched_names. \<not> name_eq n m) \<longrightarrow>
         fields_named m out = fields_named m (crlf_norm msg)))
    \<and> (\<forall>r. received rw = Some r \<longrightarrow> (\<exists>rest. out = header_line ''Received'' r @ rest))"
proof -
  from sanitize_ok_iff [OF assms] have ok: "rewrite_clean rw" "int (length msg) \<le> (SIZE_MAX - 1) div 2" by auto
  obtain a b c d e out' where o: "mail_sanitize_for_forward msg rw = Some out'"
    and st: "stage (name_eq ''Return-Path'') (crlf_norm msg) a" "stage (name_eq ''From'') a b"
    "stage (name_eq ''Sender'') b c" "stage (name_eq ''Reply-To'') c d"
    "stage (name_eq ''DKIM-Signature'') d e" "stage (\<lambda>m. \<not> own_name m \<or> name_eq ''Received'' m) e out'"
    and r: "out' = (case received rw of None \<Rightarrow> e | Some r \<Rightarrow> header_line ''Received'' r @ e)"
    by (rule sanitize_stages [OF ok])
  have eq: "out' = out" using o assms by simp
  have "stage (\<lambda>m. \<not> own_name m \<or> (\<exists>n \<in> set touched_names. name_eq n m)) (crlf_norm msg) out"
    using stage_trans [OF st(1) stage_trans [OF st(2) stage_trans [OF st(3) stage_trans [OF st(4) stage_trans [OF st(5,6)]]]]]
    unfolding stage_def touched_names_def eq by simp
  then show ?thesis using r eq by (auto simp: stage_def)
qed

theorem sanitize_preserves_rest_witness:
  "\<exists>out. mail_sanitize_for_forward (''Subject: s'' @ [LF, LF] @ ''hi'' @ [LF])
      \<lparr>received = Some ''r'', return_path = None, rw_from = Some ''me'', rw_sender = None, reply_to = None\<rparr> = Some out
    \<and> tail_of out = CRLF @ ''hi'' @ CRLF \<and> fields_named ''Subject'' out = [''Subject: s'' @ CRLF]"
proof -
  let ?m = "''Subject: s'' @ [LF, LF] @ ''hi'' @ [LF]"
  let ?rw = "\<lparr>received = Some ''r'', return_path = None, rw_from = Some ''me'', rw_sender = None, reply_to = None\<rparr>"
  let ?out = "''Received: r'' @ CRLF @ ''Subject: s'' @ CRLF @ ''From: me'' @ CRLF @ CRLF @ ''hi'' @ CRLF"
  have o: "mail_sanitize_for_forward ?m ?rw = Some ?out" by code_simp
  have "complete_msg (crlf_norm ?m)" "own_name ''Subject''" "\<forall>n \<in> set touched_names. \<not> name_eq n ''Subject''"
    "fields_named ''Subject'' (crlf_norm ?m) = [''Subject: s'' @ CRLF]" "tail_of (crlf_norm ?m) = CRLF @ ''hi'' @ CRLF"
    by code_simp+
  then have "tail_of ?out = CRLF @ ''hi'' @ CRLF" "fields_named ''Subject'' ?out = [''Subject: s'' @ CRLF]"
    using sanitize_preserves_rest [OF o] by metis+
  then show ?thesis using o by blast
qed

text \<open>
  The pipeline succeeds exactly when no trusted value carries a CR or LF and the message is no
  longer than half the address space; a value that could inject a header line is refused.
\<close>

theorem sanitize_succeeds_iff:
  "(\<exists>out. mail_sanitize_for_forward msg rw = Some out) \<longleftrightarrow>
   rewrite_clean rw \<and> int (length msg) \<le> (SIZE_MAX - 1) div 2"
  using sanitize_ok_iff sanitize_stages by metis

section \<open>Setting and reading back\<close>

lemma segs_replace:
  "segs (pre @ f # post) t \<Longrightarrow> crlf_clean (texts (pre @ f # post) @ t) \<Longrightarrow> seg h (texts post @ t) \<Longrightarrow>
   no_wsp (ftext h) \<Longrightarrow> segs (pre @ h # post) t"
proof (induction pre)
  case (Cons g pre)
  have st: "last (ftext g) = LF" "crlf_clean (texts (pre @ f # post) @ t)"
    using segs_step_clean [of g "pre @ f # post" t] Cons(2,3) by auto
  have sg: "seg g (texts (pre @ f # post) @ t)" using Cons(2) by simp
  have "seg g (texts (pre @ h # post) @ t)"
  proof (rule seg_local [OF sg st(1)])
    assume "is_header g"
    from seg_no_wsp [OF sg this] show "no_wsp (texts (pre @ h # post) @ t)"
      using Cons(2,4,5) by (cases pre) (auto simp: no_wsp_def seg_def)
  qed
  then show ?case using Cons st by simp
qed auto

lemma unfold_value_line: "\<not> contains_crlf v \<Longrightarrow> unfold_value (v @ CRLF) = v @ [SP]"
  by (induction v) (auto simp: contains_crlf_def skip_eol_def ltrim_def)

lemma rtrim_append_SP [simp]: "rtrim (s @ [SP]) = rtrim s"
  by simp

lemma extract_value_line:
  assumes "\<not> contains_crlf v" "length v + 2 \<le> outsz"
  shows "extract_value (SP # v @ CRLF) outsz = rtrim (ltrim v)"
proof -
  have l: "ltrim (SP # v @ CRLF) = ltrim v @ CRLF"
    by (cases "\<forall>c \<in> set v. is_wsp c") (auto simp: ltrim_def dropWhile_append1 dropWhile_append)
  have "\<not> contains_crlf (ltrim v)" using assms(1) set_ltrim by (auto simp: contains_crlf_def)
  moreover have "length (ltrim v) \<le> length v" by (simp add: ltrim_def length_dropWhile_le)
  ultimately show ?thesis using assms(2) by (simp add: extract_value_def l unfold_value_line)
qed

lemma find_split: "\<forall>x \<in> set pre. \<not> P x \<Longrightarrow> P f \<Longrightarrow> find P (pre @ f # post) = Some f"
  by (induction pre) auto

lemma header_set_shape:
  assumes "crlf_clean s" "header_name_ok n" "\<not> is_wsp (hd n)" "\<not> contains_crlf v"
  shows "\<exists>s' pre post t. mail_header_set s n v = Some s' \<and> fields s' = (pre @ header_field n v # post, t) \<and>
     (\<forall>g \<in> set pre. \<not> field_matches n g)"
proof -
  obtain fs t where f: "fields s = (fs, t)" by (cases "fields s")
  then have sg: "segs fs t" and s: "s = texts fs @ t" by (simp_all add: fields_iff)
  show ?thesis
  proof (cases "\<exists>f \<in> set fs. field_matches n f")
    case True
    then obtain pre g post where g: "fs = pre @ g # post" "field_matches n g" "\<forall>h \<in> set pre. \<not> field_matches n h"
      by (metis split_list_first_prop)
    have "is_header g" using g(2) by (simp add: field_matches_def)
    moreover have "seg g (texts post @ t)" using sg g(1) by (induction pre arbitrary: fs) auto
    ultimately have "no_wsp (texts post @ t)" using seg_no_wsp by blast
    then have "seg (header_field n v) (texts post @ t)" using seg_header_field assms by blast
    moreover have "no_wsp (header_line n v)" using assms(2,3) by (auto simp: no_wsp_def header_line_def header_name_ok_def)
    ultimately have "segs (pre @ header_field n v # post) t"
      using segs_replace [of pre g post t] sg g(1) assms(1) s by (simp add: header_field_def)
    then have "fields (texts pre @ header_line n v @ texts post @ t) = (pre @ header_field n v # post, t)"
      using fields_of_segs by (fastforce simp: header_field_def)
    then show ?thesis using mail_header_set_replace [OF f [unfolded g(1)] g(3,2) assms(2,4)] g(3) by blast
  next
    case False
    then obtain s' where "mail_header_set s n v = Some s'" "fields s' = (close_last fs @ [header_field n v], t)"
      using set_fields [OF assms(1) f _ assms(2-4)] by blast
    moreover have "\<forall>g \<in> set (close_last fs). \<not> field_matches n g"
      using close_last_matches [of n fs] False by (auto simp: filter_empty_conv)
    ultimately show ?thesis by blast
  qed
qed

text \<open>
  Reading back a header that was set. On a message in CRLF form, setting a valid header name to
  a value without line breaks succeeds, and reading that name returns the value without its
  surrounding white space, whether the name was absent, present once or present several times.
\<close>

theorem header_set_get:
  assumes "crlf_clean s" "header_name_ok n" "\<not> is_wsp (hd n)" "\<not> contains_crlf v" "length v + 2 \<le> outsz"
  shows "\<exists>s'. mail_header_set s n v = Some s' \<and> mail_header_get s' n outsz = Some (rtrim (ltrim v))"
proof -
  obtain s' pre post t where s': "mail_header_set s n v = Some s'" "fields s' = (pre @ header_field n v # post, t)"
    "\<forall>g \<in> set pre. \<not> field_matches n g" using header_set_shape [OF assms(1-4)] by blast
  have "find (field_matches n) (fst (fields s')) = Some (header_field n v)"
    using s' find_split [OF s'(3), of "header_field n v" post] by (simp add: header_field_def)
  then show ?thesis using s'(1) assms extract_value_line [OF assms(4,5)]
    by (auto simp: mail_header_get_def header_get_loop_fields header_field_def header_line_def header_name_ok_def)
qed

theorem header_set_get_witness:
  "\<exists>s'. mail_header_set (''To: a'' @ CRLF @ ''tO: b'' @ CRLF @ CRLF) ''To'' '' c '' = Some s'
     \<and> mail_header_get s' ''To'' 16 = Some ''c''"
proof -
  have "crlf_clean (''To: a'' @ CRLF @ ''tO: b'' @ CRLF @ CRLF)" "header_name_ok ''To''" "\<not> is_wsp (hd ''To'')"
    "\<not> contains_crlf '' c ''" "length '' c '' + 2 \<le> 16" "rtrim (ltrim '' c '') = ''c''"
    by code_simp+
  with header_set_get show ?thesis by metis
qed

end
