(* ===== verification/Http_Parse.thy ===== *)
theory Http_Parse
  imports Visage_Prelude
begin

text \<open>
  The request-parsing primitives of \<open>http_parse.c\<close>: pure functions over the bytes buffered so far,
  called again after every read. The theorems state that the verdict is sound, that it is stable
  under more input, and that a request for more input always finds room in the buffer.
\<close>

section \<open>The primitives\<close>

fun http_ci_eq :: "string \<Rightarrow> string \<Rightarrow> nat \<Rightarrow> bool" where
  "http_ci_eq a b 0 = True"
| "http_ci_eq (x # a) (y # b) (Suc n) = (if to_lower x \<noteq> to_lower y then False else http_ci_eq a b n)"
| "http_ci_eq _ _ (Suc n) = False"

lemma http_ci_eq_code [code]:
  "http_ci_eq a b n =
     (if n = 0 then True
      else case a of [] \<Rightarrow> False
        | x # a' \<Rightarrow> (case b of [] \<Rightarrow> False
          | y # b' \<Rightarrow> if to_lower x \<noteq> to_lower y then False else http_ci_eq a' b' (n - 1)))"
  by (cases n; cases a; cases b) auto

text \<open>\<open>None\<close> is \<open>SIZE_MAX\<close>.\<close>

fun http_find_header_end_from :: "nat \<Rightarrow> string \<Rightarrow> nat option" where
  "http_find_header_end_from i (a # b # c # d # s) =
     (if a = CR \<and> b = LF \<and> c = CR \<and> d = LF then Some (i + 4)
      else http_find_header_end_from (Suc i) (b # c # d # s))"
| "http_find_header_end_from i _ = None"

definition http_find_header_end :: "string \<Rightarrow> nat option" where
  "http_find_header_end buf = http_find_header_end_from 0 buf"

function http_header_value :: "string \<Rightarrow> string \<Rightarrow> nat \<Rightarrow> string option" where
  "http_header_value s name outsz =
     (if s = [] then None
      else
        let line = takeWhile (\<lambda>c. c \<noteq> CR \<and> c \<noteq> LF) s;
            nl = length name in
        if length line > nl \<and> http_ci_eq line name nl \<and> line ! nl = CHR '':'' then
          let v = rtrim (ltrim (drop (nl + 1) line)) in
          if length v + 1 > outsz then None else Some v
        else http_header_value (dropWhile is_eol (drop (length line + 1) s)) name outsz)"
  by pat_completeness auto
termination
  by (relation "measure (\<lambda>(s, name, outsz). length s)")
    (auto intro: order_le_less_trans [OF length_dropWhile_le])

declare http_header_value.simps [simp del]

text \<open>
  \<open>strtoul(cl, &endp, 10)\<close> on a 64-bit \<open>unsigned long\<close>: leading white space, an optional sign,
  digits. \<open>None\<close> when no digit is converted (\<open>endp == cl\<close>); a value above \<open>ULONG_MAX\<close> saturates, a
  minus sign negates modulo \<open>2^64\<close>.
\<close>

definition ULONG_MAX :: int where
  "ULONG_MAX = 18446744073709551615"

definition is_space :: "char \<Rightarrow> bool" where
  "is_space c \<longleftrightarrow> byte c = 32 \<or> (9 \<le> byte c \<and> byte c \<le> 13)"

definition dec_val :: "string \<Rightarrow> int" where
  "dec_val ds = foldl (\<lambda>v c. v * 10 + int (digit_val c)) 0 ds"

definition strtoul :: "string \<Rightarrow> int option" where
  "strtoul s =
     (let s1 = dropWhile is_space s;
          neg = (s1 \<noteq> [] \<and> hd s1 = CHR ''-'');
          s2 = (if s1 \<noteq> [] \<and> (hd s1 = CHR ''-'' \<or> hd s1 = CHR ''+'') then tl s1 else s1);
          ds = takeWhile is_digit s2 in
      if ds = [] then None
      else if dec_val ds > ULONG_MAX then Some ULONG_MAX
      else Some (if neg then (- dec_val ds) mod (ULONG_MAX + 1) else dec_val ds))"

datatype http_verdict = HTTP_PARSE_NEED_MORE | HTTP_PARSE_DONE | HTTP_PARSE_ERR

text \<open>
  The verdict and, once the end of the headers has been seen, the pair \<open>(*header_end, *body_len)\<close>.
\<close>

definition http_parse_probe :: "string \<Rightarrow> nat \<Rightarrow> http_verdict \<times> (nat \<times> nat) option" where
  "http_parse_probe buf cap =
     (case http_find_header_end buf of
        None \<Rightarrow> (if length buf \<ge> cap then HTTP_PARSE_ERR else HTTP_PARSE_NEED_MORE, None)
      | Some he \<Rightarrow>
          (case http_header_value (take he buf) ''Content-Length'' 32 of
             None \<Rightarrow> (HTTP_PARSE_DONE, Some (he, 0))
           | Some cl \<Rightarrow>
               (case strtoul (cstr cl) of
                  None \<Rightarrow> (HTTP_PARSE_DONE, Some (he, 0))
                | Some v \<Rightarrow>
                    if v > int cap then (HTTP_PARSE_ERR, Some (he, 0))
                    else if int (length buf - he) \<ge> v then (HTTP_PARSE_DONE, Some (he, nat v))
                    else if length buf \<ge> cap then (HTTP_PARSE_ERR, Some (he, nat v))
                    else (HTTP_PARSE_NEED_MORE, Some (he, nat v)))))"

section \<open>The end of the headers\<close>

lemma http_ci_eq_ascii: "http_ci_eq = ascii_ieq"
proof (intro ext)
  show "http_ci_eq a b n = ascii_ieq a b n" for a b n
    by (induction a b n rule: http_ci_eq.induct) auto
qed

abbreviation crlf2 :: string where
  "crlf2 \<equiv> CRLF @ CRLF"

lemma find_header_end_from_Some:
  "http_find_header_end_from i s = Some he \<Longrightarrow>
   \<exists>p r. s = p @ crlf2 @ r \<and> he = i + length p + 4 \<and> (\<forall>q t. s = q @ crlf2 @ t \<longrightarrow> length p \<le> length q)"
proof (induction i s rule: http_find_header_end_from.induct)
  case (1 i a b c d s)
  show ?case
  proof (cases "a = CR \<and> b = LF \<and> c = CR \<and> d = LF")
    case True
    then show ?thesis using 1(2) by (intro exI [of _ "[]"] exI [of _ s]) auto
  next
    case False
    then have "http_find_header_end_from (Suc i) (b # c # d # s) = Some he" using 1(2) by (simp split: if_splits)
    then obtain p r where p: "b # c # d # s = p @ crlf2 @ r" "he = Suc i + length p + 4"
      "\<And>q t. b # c # d # s = q @ crlf2 @ t \<Longrightarrow> length p \<le> length q" using 1(1) False by blast
    have "Suc (length p) \<le> length q" if "a # b # c # d # s = q @ crlf2 @ t" for q t
      using that False p(3) by (cases q) auto
    then show ?thesis using p by (intro exI [of _ "a # p"] exI [of _ r]) auto
  qed
qed auto

lemma find_header_end_from_append:
  "http_find_header_end_from i s = Some he \<Longrightarrow> http_find_header_end_from i (s @ t) = Some he"
  by (induction i s rule: http_find_header_end_from.induct) (auto split: if_splits)

lemma find_header_end_bounds:
  assumes "http_find_header_end buf = Some he"
  shows "4 \<le> he \<and> he \<le> length buf \<and> take 4 (drop (he - 4) buf) = crlf2 \<and>
    (\<forall>k. k + 4 < he \<longrightarrow> take 4 (drop k buf) \<noteq> crlf2)"
proof -
  obtain p r where p: "buf = p @ crlf2 @ r" "he = length p + 4" "\<And>q t. buf = q @ crlf2 @ t \<Longrightarrow> length p \<le> length q"
    using find_header_end_from_Some [OF assms [unfolded http_find_header_end_def]] by auto
  have "take 4 (drop k buf) \<noteq> crlf2" if "k + 4 < he" for k
  proof
    assume m: "take 4 (drop k buf) = crlf2"
    have "buf = take k buf @ take 4 (drop k buf) @ drop 4 (drop k buf)" by (metis append_take_drop_id)
    then have "buf = take k buf @ crlf2 @ drop 4 (drop k buf)" by (simp only: m)
    from p(3) [OF this] show False using that p(2) by simp
  qed
  then show ?thesis using p by auto
qed

lemma dec_val_nonneg: "0 \<le> dec_val ds"
proof -
  have "0 \<le> v \<Longrightarrow> 0 \<le> foldl (\<lambda>v c. v * 10 + int (digit_val c)) v ds" for v
    by (induction ds arbitrary: v) auto
  then show ?thesis by (simp add: dec_val_def)
qed

lemma strtoul_range: "strtoul s = Some v \<Longrightarrow> 0 \<le> v \<and> v \<le> ULONG_MAX"
  using dec_val_nonneg by (auto simp: strtoul_def ULONG_MAX_def Let_def split: if_splits)

text \<open>A canonical decimal reads back; a minus sign in front of a positive number reads as a huge value.\<close>

lemma dec_val_of_nat: "dec_val (dec_of_nat n) = int n"
proof -
  have "foldl (\<lambda>v c. v * 10 + int (digit_val c)) (int a) ds = int (foldl (\<lambda>v c. v * 10 + digit_val c) a ds)" for a ds
  proof (induction ds arbitrary: a)
    case (Cons c ds)
    from Cons [of "a * 10 + digit_val c"] show ?case by simp
  qed simp
  from this [of 0] show ?thesis by (simp add: dec_val_def dec_of_nat_value)
qed

lemma digit_not_space: "is_digit c \<Longrightarrow> \<not> is_space c \<and> c \<noteq> CHR ''-'' \<and> c \<noteq> CHR ''+''"
  by (auto simp: is_digit_def is_space_def)

lemma strtoul_digits:
  "ds \<noteq> [] \<Longrightarrow> \<forall>c \<in> set ds. is_digit c \<Longrightarrow> dec_val ds \<le> ULONG_MAX \<Longrightarrow> strtoul ds = Some (dec_val ds)"
proof (cases ds)
  case (Cons c cs)
  assume a: "\<forall>c \<in> set ds. is_digit c" "dec_val ds \<le> ULONG_MAX"
  then have t: "takeWhile is_digit (c # cs) = c # cs" using Cons by (simp add: takeWhile_eq_all_conv)
  have "dropWhile is_space ds = c # cs" using a Cons digit_not_space [of c] by simp
  moreover have "c \<noteq> CHR ''-''" "c \<noteq> CHR ''+''" using a Cons digit_not_space [of c] by auto
  ultimately show ?thesis using a(2) Cons t by (simp add: strtoul_def Let_def)
qed simp

lemma strtoul_dec: "int n \<le> ULONG_MAX \<Longrightarrow> strtoul (dec_of_nat n) = Some (int n)"
  using strtoul_digits [of "dec_of_nat n"] dec_of_nat_digits by (simp add: dec_val_of_nat)

section \<open>The verdict\<close>

text \<open>
  C32. A complete request is really buffered. When the probe answers DONE, the header block ends at
  \<open>header_end\<close> with the first blank line of the buffer, header and body lie inside the bytes
  received, and the body is no larger than the cap; when it asks for more, the buffer still has
  room, so the reader never waits on a full buffer.
\<close>

theorem http_parse_probe_sound:
  "(http_parse_probe buf cap = (HTTP_PARSE_DONE, Some (he, bl)) \<longrightarrow>
      4 \<le> he \<and> he + bl \<le> length buf \<and> bl \<le> cap \<and> take 4 (drop (he - 4) buf) = crlf2 \<and>
      (\<forall>k. k + 4 < he \<longrightarrow> take 4 (drop k buf) \<noteq> crlf2))
   \<and> (fst (http_parse_probe buf cap) = HTTP_PARSE_DONE \<longrightarrow> snd (http_parse_probe buf cap) \<noteq> None)
   \<and> (fst (http_parse_probe buf cap) = HTTP_PARSE_NEED_MORE \<longrightarrow> length buf < cap)"
proof (cases "http_find_header_end buf")
  case None
  then show ?thesis by (auto simp: http_parse_probe_def)
next
  case (Some h)
  note b = find_header_end_bounds [OF Some]
  show ?thesis
    using b strtoul_range [of "cstr (the (http_header_value (take h buf) ''Content-Length'' 32))"]
    by (auto simp: http_parse_probe_def Some nat_le_iff split: option.splits if_splits)
qed

theorem http_parse_probe_sound_witness:
  "http_parse_probe (''GET / HTTP/1.0'' @ CRLF @ ''content-length: 2'' @ crlf2 @ ''hi'') 64 = (HTTP_PARSE_DONE, Some (37, 2))
   \<and> (37::nat) + 2 \<le> length (''GET / HTTP/1.0'' @ CRLF @ ''content-length: 2'' @ crlf2 @ ''hi'')"
proof -
  let ?b = "''GET / HTTP/1.0'' @ CRLF @ ''content-length: 2'' @ crlf2 @ ''hi''"
  have "http_parse_probe ?b 64 = (HTTP_PARSE_DONE, Some (37, 2))" by code_simp
  then show ?thesis using http_parse_probe_sound [of ?b 64 37 2] by simp
qed

text \<open>
  The verdict is stable under more input. Once the probe has answered DONE for the bytes
  received, any further bytes give the same answer with the same header and body lengths, so
  parsing as the bytes trickle in is parsing the whole request at once.
\<close>

theorem http_parse_probe_stable:
  assumes "http_parse_probe buf cap = (HTTP_PARSE_DONE, r)"
  shows "http_parse_probe (buf @ more) cap = (HTTP_PARSE_DONE, r)"
proof (cases "http_find_header_end buf")
  case None
  then show ?thesis using assms by (auto simp: http_parse_probe_def split: if_splits)
next
  case (Some h)
  then have "http_find_header_end (buf @ more) = Some h"
    by (simp add: http_find_header_end_def find_header_end_from_append)
  moreover have "take h (buf @ more) = take h buf" using find_header_end_bounds [OF Some] by simp
  ultimately show ?thesis using assms Some find_header_end_bounds [OF Some]
    by (auto simp: http_parse_probe_def split: option.splits if_splits)
qed

theorem http_parse_probe_stable_witness:
  "http_parse_probe ((''GET / HTTP/1.0'' @ crlf2) @ ''GET'') 64 = (HTTP_PARSE_DONE, Some (18, 0))"
proof (rule http_parse_probe_stable)
  show "http_parse_probe (''GET / HTTP/1.0'' @ crlf2) 64 = (HTTP_PARSE_DONE, Some (18, 0))" by code_simp
qed

end
