(* ===== verification/Json_Text.thy ===== *)
theory Json_Text
  imports Visage_Prelude
begin

text \<open>
  The JSON helpers of \<open>json.c\<close>: string escaping with replacement of ill-formed UTF-8, the growing
  output builder, and the key lookup the admin API parses request bodies with. An output buffer is
  the list of the bytes written; every size check of the code is kept, and \<open>None\<close> is the \<open>-1\<close>
  return. Allocation is taken to succeed.
\<close>

section \<open>UTF-8\<close>

text \<open>
  \<open>c & 0xC0 == 0x80\<close> reads \<open>byte c div 64 = 2\<close>, \<open>(cp << 6) | (c & 0x3F)\<close> reads
  \<open>cp * 64 + byte c mod 64\<close>.
\<close>

definition is_cont :: "char \<Rightarrow> bool" where
  "is_cont c \<longleftrightarrow> byte c div 64 = 2"

fun utf8_cont :: "nat \<Rightarrow> nat \<Rightarrow> string \<Rightarrow> nat option" where
  "utf8_cont 0 cp s = Some cp"
| "utf8_cont (Suc k) cp [] = None"
| "utf8_cont (Suc k) cp (c # s) = (if \<not> is_cont c then None else utf8_cont k (cp * 64 + byte c mod 64) s)"

lemma utf8_cont_code [code]:
  "utf8_cont k cp s =
     (if k = 0 then Some cp
      else case s of [] \<Rightarrow> None
        | c # cs \<Rightarrow> if \<not> is_cont c then None else utf8_cont (k - 1) (cp * 64 + byte c mod 64) cs)"
  by (cases k; cases s) auto

text \<open>The announced length and the payload bits of a lead byte above \<open>0x7F\<close>; length 0 if it is none.\<close>

definition utf8_lead :: "char \<Rightarrow> nat \<times> nat" where
  "utf8_lead c0 =
     (let b = byte c0 in
      if 0xC2 \<le> b \<and> b \<le> 0xDF then (2, b mod 32)
      else if 0xE0 \<le> b \<and> b \<le> 0xEF then (3, b mod 16)
      else if 0xF0 \<le> b \<and> b \<le> 0xF4 then (4, b mod 8)
      else (0, 0))"

definition utf8_seq :: "string \<Rightarrow> nat" where
  "utf8_seq p =
     (case p of [] \<Rightarrow> 0
      | c0 # rest \<Rightarrow>
          if byte c0 < 0x80 then 1
          else case utf8_lead c0 of (n, cp0) \<Rightarrow>
            if n = 0 then 0
            else if length p < n then 0
            else case utf8_cont (n - 1) cp0 rest of
              None \<Rightarrow> 0
            | Some cp \<Rightarrow>
                if n = 3 \<and> (cp < 0x800 \<or> (0xD800 \<le> cp \<and> cp \<le> 0xDFFF)) then 0
                else if n = 4 \<and> (cp < 0x10000 \<or> cp > 0x10FFFF) then 0
                else n)"

definition utf8_bad_len :: "string \<Rightarrow> nat" where
  "utf8_bad_len p =
     (let n = utf8_seq p in
      if n \<noteq> 0 then n
      else case p of [] \<Rightarrow> 1
        | c0 # rest \<Rightarrow>
            if byte c0 < 0xC2 \<or> byte c0 > 0xF4 then 1
            else 1 + length (takeWhile is_cont (take (fst (utf8_lead c0) - 1) rest)))"

section \<open>Escaping\<close>

definition utf8_replacement :: string where
  "utf8_replacement = [CHR 0xEF, CHR 0xBF, CHR 0xBD]"

definition hex_digit :: "nat \<Rightarrow> char" where
  "hex_digit n = (if n < 10 then char_of (48 + n) else char_of (87 + n))"

text \<open>\<open>snprintf("\\u%04x", c)\<close> for a byte below \<open>0x20\<close>.\<close>

definition u_escape :: "char \<Rightarrow> string" where
  "u_escape c = [BSL, CHR ''u'', CHR ''0'', CHR ''0'', hex_digit (byte c div 16), hex_digit (byte c mod 16)]"

definition short_escape :: "char \<Rightarrow> char option" where
  "short_escape c =
     (if c = DQ then Some DQ
      else if c = BSL then Some BSL
      else if c = CHR 0x08 then Some (CHR ''b'')
      else if c = CHR 0x0C then Some (CHR ''f'')
      else if c = LF then Some (CHR ''n'')
      else if c = CR then Some (CHR ''r'')
      else if c = HT then Some (CHR ''t'')
      else None)"

text \<open>One iteration: the bytes emitted, the number of bytes consumed, the substitutions counted.\<close>

definition json_escape_unit :: "char \<Rightarrow> string \<Rightarrow> string \<times> nat \<times> nat" where
  "json_escape_unit c cs =
     (case short_escape c of
        Some e \<Rightarrow> ([BSL, e], 1, 0)
      | None \<Rightarrow>
          if byte c < 0x20 then (u_escape c, 1, 0)
          else if byte c < 0x80 then ([c], 1, 0)
          else
            let n = utf8_seq (c # cs) in
            if n = 0 then (utf8_replacement, utf8_bad_len (c # cs), 1)
            else (take n (c # cs), n, 0))"

function json_escape_loop :: "nat \<Rightarrow> nat \<Rightarrow> string \<Rightarrow> (string \<times> nat) option" where
  "json_escape_loop outsz w [] = Some ([], 0)"
| "json_escape_loop outsz w (c # cs) =
     (case json_escape_unit c cs of (e, n, bad) \<Rightarrow>
        if w + length e + 1 > outsz then None
        else case json_escape_loop outsz (w + length e) (drop (n - 1) cs) of
          None \<Rightarrow> None
        | Some (out, b) \<Rightarrow> Some (e @ out, bad + b))"
  by pat_completeness auto
termination
  by (relation "measure (\<lambda>(outsz, w, s). length s)") auto

text \<open>\<open>json_escape\<close>: the bytes written and \<open>*replaced\<close>.\<close>

definition json_escape :: "string \<Rightarrow> nat \<Rightarrow> (string \<times> nat) option" where
  "json_escape s outsz = json_escape_loop outsz 0 s"

section \<open>The output builder\<close>

text \<open>\<open>jbuf\<close> holds the first \<open>len\<close> bytes of the C buffer (\<open>b->len\<close> is its length).\<close>

record JsonBuilder =
  jbuf :: string
  jcap :: nat
  jerr :: bool

definition jsonb_init :: JsonBuilder where
  "jsonb_init = \<lparr>jbuf = [], jcap = 0, jerr = False\<rparr>"

text \<open>The doubling loop of \<open>jsonb_grow\<close>; \<open>None\<close> when doubling would wrap around \<open>size_t\<close>.\<close>

function jsonb_double :: "nat \<Rightarrow> nat \<Rightarrow> nat option" where
  "jsonb_double nc need =
     (if nc = 0 then None
      else if nc < need then
        if int nc > 18446744073709551615 div 2 then None else jsonb_double (nc * 2) need
      else Some nc)"
  by pat_completeness auto
termination
  by (relation "measure (\<lambda>(nc, need). need - nc)") auto

declare jsonb_double.simps [simp del]

definition jsonb_grow :: "nat \<Rightarrow> JsonBuilder \<Rightarrow> bool \<times> JsonBuilder" where
  "jsonb_grow extra b =
     (if jerr b then (False, b)
      else if length (jbuf b) + extra + 1 > jcap b then
        (case jsonb_double (if jcap b \<noteq> 0 then jcap b else 64) (length (jbuf b) + extra + 1) of
           None \<Rightarrow> (False, b\<lparr>jerr := True\<rparr>)
         | Some nc \<Rightarrow> (True, b\<lparr>jcap := nc\<rparr>))
      else (True, b))"

definition jsonb_raw :: "string \<Rightarrow> JsonBuilder \<Rightarrow> bool \<times> JsonBuilder" where
  "jsonb_raw s b =
     (case jsonb_grow (length s) b of (ok, b1) \<Rightarrow>
        if \<not> ok then (False, b1) else (True, b1\<lparr>jbuf := jbuf b1 @ s\<rparr>))"

definition jsonb_begin_object :: "JsonBuilder \<Rightarrow> bool \<times> JsonBuilder" where
  "jsonb_begin_object b = jsonb_raw ''{'' b"
definition jsonb_end_object :: "JsonBuilder \<Rightarrow> bool \<times> JsonBuilder" where
  "jsonb_end_object b = jsonb_raw ''}'' b"
definition jsonb_begin_array :: "JsonBuilder \<Rightarrow> bool \<times> JsonBuilder" where
  "jsonb_begin_array b = jsonb_raw ''['' b"
definition jsonb_end_array :: "JsonBuilder \<Rightarrow> bool \<times> JsonBuilder" where
  "jsonb_end_array b = jsonb_raw '']'' b"
definition jsonb_comma :: "JsonBuilder \<Rightarrow> bool \<times> JsonBuilder" where
  "jsonb_comma b = jsonb_raw '','' b"

text \<open>
  The three writes that \<open>jsonb_key\<close> and \<open>jsonb_str\<close> chain with \<open>||\<close>: the first failure stops the
  chain and sets the sticky error.
\<close>

definition jsonb_quoted :: "string \<Rightarrow> string \<Rightarrow> JsonBuilder \<Rightarrow> bool \<times> JsonBuilder" where
  "jsonb_quoted s close b =
     (case json_escape s (length s * 6 + 3) of
        None \<Rightarrow> (False, b\<lparr>jerr := True\<rparr>)
      | Some (esc, _) \<Rightarrow>
          (case jsonb_raw [DQ] b of (ok1, b1) \<Rightarrow>
             if \<not> ok1 then (False, b1\<lparr>jerr := True\<rparr>)
             else case jsonb_raw (cstr esc) b1 of (ok2, b2) \<Rightarrow>
               if \<not> ok2 then (False, b2\<lparr>jerr := True\<rparr>)
               else case jsonb_raw close b2 of (ok3, b3) \<Rightarrow>
                 if \<not> ok3 then (False, b3\<lparr>jerr := True\<rparr>) else (True, b3)))"

definition jsonb_key :: "string \<Rightarrow> JsonBuilder \<Rightarrow> bool \<times> JsonBuilder" where
  "jsonb_key key b = jsonb_quoted key [DQ, CHR '':''] b"

definition jsonb_str :: "string \<Rightarrow> JsonBuilder \<Rightarrow> bool \<times> JsonBuilder" where
  "jsonb_str val b = jsonb_quoted val [DQ] b"

definition jsonb_u32 :: "u32 \<Rightarrow> JsonBuilder \<Rightarrow> bool \<times> JsonBuilder" where
  "jsonb_u32 v b = jsonb_raw (dec_of_nat (unat v)) b"

definition jsonb_bool :: "bool \<Rightarrow> JsonBuilder \<Rightarrow> bool \<times> JsonBuilder" where
  "jsonb_bool v b = jsonb_raw (if v then ''true'' else ''false'') b"

definition jsonb_detach :: "JsonBuilder \<Rightarrow> string option \<times> JsonBuilder" where
  "jsonb_detach b = (if jerr b then (None, jsonb_init) else (Some (jbuf b), jsonb_init))"

section \<open>Reading a request body\<close>

definition hex_val :: "char \<Rightarrow> nat option" where
  "hex_val c =
     (if is_digit c then Some (byte c - 48)
      else if 97 \<le> byte c \<and> byte c \<le> 102 then Some (byte c - 97 + 10)
      else if 65 \<le> byte c \<and> byte c \<le> 70 then Some (byte c - 65 + 10)
      else None)"

fun hex4 :: "nat \<Rightarrow> string \<Rightarrow> nat option" where
  "hex4 cp [] = Some cp"
| "hex4 cp (c # cs) = (case hex_val c of None \<Rightarrow> None | Some d \<Rightarrow> hex4 (cp * 16 + d) cs)"

definition utf8_of :: "nat \<Rightarrow> string" where
  "utf8_of cp =
     (if cp < 0x80 then [char_of cp]
      else if cp < 0x800 then [char_of (0xC0 + cp div 64), char_of (0x80 + cp mod 64)]
      else [char_of (0xE0 + cp div 4096), char_of (0x80 + cp div 64 mod 64), char_of (0x80 + cp mod 64)])"

definition json_append_unicode :: "string \<Rightarrow> nat \<Rightarrow> nat \<Rightarrow> string option" where
  "json_append_unicode h outsz w =
     (case hex4 0 (take 4 h) of
        None \<Rightarrow> None
      | Some cp \<Rightarrow> if w + length (utf8_of cp) + 1 > outsz then None else Some (utf8_of cp))"

definition json_ws :: "char \<Rightarrow> bool" where
  "json_ws c \<longleftrightarrow> c = SP \<or> c = HT \<or> c = LF \<or> c = CR"

text \<open>The character a one-letter escape stands for.\<close>

definition json_unescape_char :: "char \<Rightarrow> char option" where
  "json_unescape_char c =
     (if c = DQ \<or> c = BSL \<or> c = CHR ''/'' then Some c
      else if c = CHR ''b'' then Some (CHR 0x08)
      else if c = CHR ''f'' then Some (CHR 0x0C)
      else if c = CHR ''n'' then Some LF
      else if c = CHR ''r'' then Some CR
      else if c = CHR ''t'' then Some HT
      else None)"

text \<open>The loop over a string value, from after the opening quote, with \<open>w\<close> bytes already written.\<close>

function json_unescape :: "nat \<Rightarrow> nat \<Rightarrow> string \<Rightarrow> string option" where
  "json_unescape outsz w [] = None"
| "json_unescape outsz w (c # q) =
     (if c = DQ then Some []
      else if c = BSL then
        (if q = [] then None
         else if hd q = CHR ''u'' then
           (if length q \<ge> 5 then
              (case json_append_unicode (tl q) outsz w of
                 None \<Rightarrow> None
               | Some u \<Rightarrow> map_option ((@) u) (json_unescape outsz (w + length u) (drop 5 q)))
            else None)
         else
           (case json_unescape_char (hd q) of
              None \<Rightarrow> None
            | Some d \<Rightarrow>
                if w + 1 + 1 > outsz then None
                else map_option ((#) d) (json_unescape outsz (w + 1) (tl q))))
      else if w + 1 + 1 > outsz then None
      else map_option ((#) c) (json_unescape outsz (w + 1) q))"
  by pat_completeness auto
termination
  by (relation "measure (\<lambda>(outsz, w, s). length s)") auto

text \<open>
  The key scan both lookups share: pairs of quotes are read from the left, and the first pair that
  encloses the key gives the text after its closing quote.
\<close>

definition to_quote :: "string \<Rightarrow> (string \<times> string) option" where
  "to_quote p =
     (case dropWhile (\<lambda>c. c \<noteq> DQ) p of [] \<Rightarrow> None | q # r \<Rightarrow> Some (takeWhile (\<lambda>c. c \<noteq> DQ) p, r))"

lemma to_quote_less: "to_quote p = Some (k, r) \<Longrightarrow> length r < length p"
proof -
  assume "to_quote p = Some (k, r)"
  then obtain q where "dropWhile (\<lambda>c. c \<noteq> DQ) p = q # r" by (auto simp: to_quote_def split: list.splits)
  then show ?thesis using length_dropWhile_le [of "\<lambda>c. c \<noteq> DQ" p] by simp
qed

function json_find_key :: "string \<Rightarrow> string \<Rightarrow> string option" where
  "json_find_key p key =
     (if p = [] then None
      else case to_quote p of
        None \<Rightarrow> None
      | Some (_, ks) \<Rightarrow>
          (case to_quote ks of
             None \<Rightarrow> None
           | Some (k, r) \<Rightarrow> if k = key then Some r else json_find_key r key))"
  by pat_completeness auto
termination
  by (relation "measure (\<lambda>(p, key). length p)") (auto dest!: to_quote_less)

declare json_find_key.simps [simp del]

definition json_obj_get_str :: "string \<Rightarrow> string \<Rightarrow> nat \<Rightarrow> string option" where
  "json_obj_get_str json key outsz =
     (if outsz = 0 then None
      else case json_find_key json key of
        None \<Rightarrow> None
      | Some r \<Rightarrow>
          (case dropWhile json_ws r of
             [] \<Rightarrow> None
           | c # q \<Rightarrow>
               if c \<noteq> CHR '':'' then None
               else case dropWhile json_ws q of
                 [] \<Rightarrow> None
               | d # v \<Rightarrow> if d \<noteq> DQ then None else json_unescape outsz 0 v))"

fun json_digits :: "u32 \<Rightarrow> string \<Rightarrow> u32 option" where
  "json_digits v [] = Some v"
| "json_digits v (c # q) =
     (if is_digit c then
        (let d = of_nat (byte c - 48) in
         if v > (UINT32_MAX - d) div 10 then None else json_digits (v * 10 + d) q)
      else Some v)"

definition json_obj_get_u32 :: "string \<Rightarrow> string \<Rightarrow> u32 option" where
  "json_obj_get_u32 json key =
     (case json_find_key json key of
        None \<Rightarrow> None
      | Some r \<Rightarrow>
          (case dropWhile json_ws r of
             [] \<Rightarrow> None
           | c # q \<Rightarrow>
               if c \<noteq> CHR '':'' then None
               else case dropWhile json_ws q of
                 [] \<Rightarrow> None
               | d # v \<Rightarrow> if \<not> is_digit d then None else json_digits 0 (d # v)))"

end
