(* ===== verification/Json_Proofs.thy ===== *)
theory Json_Proofs
  imports Json_Text
begin

text \<open>
  What the JSON helpers guarantee: escaping never fails with the buffer its callers size, always
  yields a well-formed JSON string body in valid UTF-8, and is inverted by the key lookup on valid
  text; the builder appends without losing bytes; the number reader is exact on 32 bits.
\<close>

section \<open>UTF-8 sequences\<close>

lemma utf8_cont_local: "utf8_cont k cp s = Some v \<Longrightarrow> k \<le> length s \<and> utf8_cont k cp (take k s @ r) = Some v \<and> (\<forall>c \<in> set (take k s). is_cont c)"
  by (induction k cp s rule: utf8_cont.induct) (auto split: if_splits)

lemma utf8_lead_range: "utf8_lead c = (n, cp) \<Longrightarrow> n \<noteq> 0 \<Longrightarrow> 2 \<le> n \<and> n \<le> 4 \<and> 0xC2 \<le> byte c"
  by (auto simp: utf8_lead_def Let_def split: if_splits)

lemma utf8_seq_ascii: "byte c < 0x80 \<Longrightarrow> utf8_seq (c # s) = 1"
  by (simp add: utf8_seq_def)

definition cp_bad :: "nat \<Rightarrow> nat \<Rightarrow> bool" where
  "cp_bad n cp \<longleftrightarrow> n = 3 \<and> (cp < 0x800 \<or> (0xD800 \<le> cp \<and> cp \<le> 0xDFFF)) \<or> n = 4 \<and> (cp < 0x10000 \<or> cp > 0x10FFFF)"

lemma if_or: "(if P then x else if Q then x else y) = (if P \<or> Q then x else y)"
  by simp

lemma utf8_seq_high:
  assumes "\<not> byte c < 0x80" "utf8_lead c = (m, cp0)"
  shows "utf8_seq (c # s) =
    (if m = 0 \<or> length (c # s) < m then 0
     else case utf8_cont (m - 1) cp0 s of None \<Rightarrow> 0 | Some cp \<Rightarrow> if cp_bad m cp then 0 else m)"
  unfolding utf8_seq_def cp_bad_def by (simp only: list.case assms prod.case if_False if_or)

lemma utf8_seq_multi:
  assumes "utf8_seq (c # s) = n" "n \<noteq> 0" "\<not> byte c < 0x80"
  shows "2 \<le> n \<and> n \<le> 4 \<and> n \<le> length (c # s) \<and> (\<forall>x \<in> set (take n (c # s)). 0x80 \<le> byte x) \<and> utf8_seq (take n (c # s) @ r) = n"
proof -
  obtain m cp0 where l: "utf8_lead c = (m, cp0)" by (cases "utf8_lead c")
  note h = utf8_seq_high [OF assms(3) l]
  have nz: "(if m = 0 \<or> length (c # s) < m then 0
     else case utf8_cont (m - 1) cp0 s of None \<Rightarrow> 0 | Some cp \<Rightarrow> if cp_bad m cp then 0 else m) = n"
    using h [of s] assms(1) by (rule trans [OF sym])
  then have k: "m \<noteq> 0" "m \<le> length (c # s)" using assms(2) by (simp_all split: if_split_asm)
  have "\<not> (m = 0 \<or> length (c # s) < m)" using k by linarith
  with nz have nz': "(case utf8_cont (m - 1) cp0 s of None \<Rightarrow> 0 | Some cp \<Rightarrow> if cp_bad m cp then 0 else m) = n"
    by (simp only: if_False)
  have "utf8_cont (m - 1) cp0 s \<noteq> None"
  proof
    assume "utf8_cont (m - 1) cp0 s = None"
    with nz' show False using assms(2) by (simp only: option.case)
  qed
  then obtain cp where c: "utf8_cont (m - 1) cp0 s = Some cp" by blast
  have n: "(if cp_bad m cp then 0 else m) = n" using nz' by (simp only: c option.case)
  have b: "\<not> cp_bad m cp"
  proof
    assume "cp_bad m cp"
    with n show False using assms(2) by (simp only: if_True)
  qed
  have n: "n = m" using n by (simp only: b if_False)
  note k = k c b
  have m: "2 \<le> m" "m \<le> 4" "0xC2 \<le> byte c" using utf8_lead_range [OF l k(1)] by auto
  note lo = utf8_cont_local [OF k(3), of r]
  have t: "take n (c # s) = c # take (m - 1) s" using n m(1) by (cases m) auto
  have "\<forall>x \<in> set (take (m - 1) s). 0x80 \<le> byte x" using lo by (auto simp: is_cont_def)
  then have "\<forall>x \<in> set (take n (c # s)). 0x80 \<le> byte x" using m(3) t by simp
  moreover have "m \<le> length (take n (c # s) @ r)" using k(2) n by simp
  then have "utf8_seq (c # take (m - 1) s @ r) = m"
    using h [of "take (m - 1) s @ r"] lo k(1,4) n by simp
  then have "utf8_seq (take n (c # s) @ r) = n" using t n by (metis append_Cons)
  ultimately show ?thesis using m k n by simp
qed

lemma utf8_seq_local: "utf8_seq p = n \<Longrightarrow> n \<noteq> 0 \<Longrightarrow> n \<le> length p \<and> utf8_seq (take n p @ r) = n"
proof (cases p)
  case (Cons c s)
  assume a: "utf8_seq p = n" "n \<noteq> 0"
  show ?thesis
  proof (cases "byte c < 0x80")
    case True
    then have "n = 1" using a Cons utf8_seq_ascii by auto
    then show ?thesis using Cons utf8_seq_ascii [OF True] by simp
  next
    case False
    then show ?thesis using utf8_seq_multi a Cons by blast
  qed
qed (simp add: utf8_seq_def)

function utf8_valid :: "string \<Rightarrow> bool" where
  "utf8_valid s =
     (if s = [] then True else if utf8_seq s = 0 then False else utf8_valid (drop (utf8_seq s) s))"
  by pat_completeness auto
termination
  by (relation "measure length") auto

declare utf8_valid.simps [simp del]

lemma utf8_valid_Nil [simp]: "utf8_valid []"
  by (simp add: utf8_valid.simps)

lemma utf8_valid_step: "utf8_seq s = n \<Longrightarrow> n \<noteq> 0 \<Longrightarrow> utf8_valid (take n s @ r) = utf8_valid r"
proof -
  assume a: "utf8_seq s = n" "n \<noteq> 0"
  have "n \<le> length s" "utf8_seq (take n s @ r) = n" using utf8_seq_local [OF a] by auto
  moreover have "take n s @ r \<noteq> []" using calculation(1) a(2) by auto
  ultimately show ?thesis using a(2) utf8_valid.simps [of "take n s @ r"] by simp
qed

lemma utf8_valid_drop: "utf8_valid s \<Longrightarrow> s \<noteq> [] \<Longrightarrow> utf8_seq s \<noteq> 0 \<and> utf8_valid (drop (utf8_seq s) s)"
  using utf8_valid.simps [of s] by (simp split: if_splits)

lemma utf8_valid_ascii: "byte c < 0x80 \<Longrightarrow> utf8_valid (c # r) = utf8_valid r"
  using utf8_valid_step [of "[c]" 1 r] utf8_seq_ascii [of c "[]"] by simp

section \<open>One escaped unit\<close>

text \<open>The string body grammar of RFC 8259: no raw control, quote or backslash outside an escape.\<close>

function json_body :: "string \<Rightarrow> bool" where
  "json_body [] = True"
| "json_body (c # s) =
     (if c = BSL then
        s \<noteq> [] \<and> (if hd s = CHR ''u'' then length s \<ge> 5 \<and> hex4 0 (take 4 (tl s)) \<noteq> None \<and> json_body (drop 5 s)
                  else json_unescape_char (hd s) \<noteq> None \<and> json_body (tl s))
      else c \<noteq> DQ \<and> 0x20 \<le> byte c \<and> json_body s)"
  by pat_completeness auto
termination
  by (relation "measure length") auto

lemma hex_digit_val: "n < 16 \<Longrightarrow> hex_val (hex_digit n) = Some n"
  by (auto simp: hex_val_def hex_digit_def is_digit_def of_char_of)

lemma hex_digit_byte: "n < 16 \<Longrightarrow> byte (hex_digit n) < 0x80 \<and> 0x30 \<le> byte (hex_digit n)"
  by (auto simp: hex_digit_def of_char_of)

lemma hex_digit_not_NUL: "n < 16 \<Longrightarrow> hex_digit n \<noteq> NUL"
  using hex_digit_byte [of n] by auto

lemma hex_val_0: "hex_val (CHR ''0'') = Some 0"
  by (simp add: hex_val_def is_digit_def)

lemma hex4_u_escape: "byte c < 0x20 \<Longrightarrow> hex4 0 [CHR ''0'', CHR ''0'', hex_digit (byte c div 16), hex_digit (byte c mod 16)] = Some (byte c)"
  by (simp add: hex_val_0 hex_digit_val)

definition escapes :: "(char \<times> char) list" where
  "escapes = [(DQ, DQ), (BSL, BSL), (CHR 0x08, CHR ''b''), (CHR 0x0C, CHR ''f''), (LF, CHR ''n''), (CR, CHR ''r''), (HT, CHR ''t'')]"

lemma short_escape_inv: "short_escape c = Some e \<Longrightarrow> json_unescape_char e = Some c \<and> e \<noteq> CHR ''u'' \<and> byte e < 0x80 \<and> byte c < 0x80 \<and> e \<noteq> NUL"
proof -
  assume "short_escape c = Some e"
  then have "(c, e) \<in> set escapes" unfolding short_escape_def escapes_def by (simp split: if_split_asm)
  moreover have "list_all (\<lambda>(c, e). json_unescape_char e = Some c \<and> e \<noteq> CHR ''u'' \<and> byte e < 0x80 \<and> byte c < 0x80 \<and> e \<noteq> NUL) escapes" by code_simp
  ultimately show ?thesis by (auto simp: list_all_iff)
qed

lemma short_escape_None: "short_escape c = None \<Longrightarrow> c \<noteq> DQ \<and> c \<noteq> BSL"
  by (auto simp: short_escape_def split: if_splits)

lemma json_body_high: "\<forall>x \<in> set h. 0x80 \<le> byte x \<Longrightarrow> json_body (h @ r) = json_body r"
  by (induction h) auto

lemma utf8_bad_len_pos: "1 \<le> utf8_bad_len p"
  by (auto simp: utf8_bad_len_def Let_def split: list.splits)

lemma escape_unit_cases:
  assumes "json_escape_unit c cs = (e, n, bad)"
  obtains (short) d where "short_escape c = Some d" "e = [BSL, d]" "n = 1" "bad = 0"
  | (control) "short_escape c = None" "byte c < 0x20" "e = u_escape c" "n = 1" "bad = 0"
  | (ascii) "short_escape c = None" "0x20 \<le> byte c" "byte c < 0x80" "e = [c]" "n = 1" "bad = 0"
  | (replaced) "0x80 \<le> byte c" "utf8_seq (c # cs) = 0" "e = utf8_replacement" "n = utf8_bad_len (c # cs)" "bad = 1"
  | (multi) "0x80 \<le> byte c" "utf8_seq (c # cs) = n" "n \<noteq> 0" "e = take n (c # cs)" "bad = 0"
  using assms by (auto simp: json_escape_unit_def Let_def split: option.splits if_splits)

lemma escape_unit_wf:
  assumes "json_escape_unit c cs = (e, n, bad)"
  shows "1 \<le> n \<and> length e \<le> 6 \<and> json_body (e @ r) = json_body r \<and> utf8_valid (e @ r) = utf8_valid r \<and> NUL \<notin> set e"
  using assms
proof (cases rule: escape_unit_cases)
  case (short d)
  then show ?thesis using short_escape_inv [of c d] by (auto simp: utf8_valid_ascii)
next
  case control
  moreover have "byte c div 16 < 16" "byte c mod 16 < 16" using control by auto
  ultimately show ?thesis
    using hex4_u_escape [of c] hex_digit_byte [of "byte c div 16"] hex_digit_byte [of "byte c mod 16"]
      hex_digit_not_NUL [of "byte c div 16"] hex_digit_not_NUL [of "byte c mod 16"]
    by (auto simp: u_escape_def utf8_valid_ascii)
next
  case ascii
  then show ?thesis using short_escape_None [of c] by (auto simp: utf8_valid_ascii)
next
  case replaced
  have s: "utf8_seq utf8_replacement = 3" by code_simp
  have "json_body (utf8_replacement @ r) = json_body r"
    by (rule json_body_high) (simp add: utf8_replacement_def)
  then show ?thesis using replaced utf8_bad_len_pos utf8_valid_step [OF s, of r] by (auto simp: utf8_replacement_def)
next
  case multi
  then have "2 \<le> n \<and> n \<le> 4 \<and> (\<forall>x \<in> set (take n (c # cs)). 0x80 \<le> byte x)" using utf8_seq_multi [of c cs n] by auto
  then show ?thesis using multi utf8_valid_step [OF multi(2,3), of r] json_body_high by auto
qed

section \<open>Whole strings\<close>

lemma json_escape_loop_wf:
  "json_escape_loop outsz w s = Some (out, b) \<Longrightarrow>
   json_body out \<and> utf8_valid out \<and> NUL \<notin> set out \<and> (s = [] \<or> w + length out < outsz)"
proof (induction outsz w s arbitrary: out b rule: json_escape_loop.induct)
  case (2 outsz w c cs)
  obtain e n bad where u: "json_escape_unit c cs = (e, n, bad)" by (cases "json_escape_unit c cs")
  with 2(2) obtain out' b' where l: "json_escape_loop outsz (w + length e) (drop (n - 1) cs) = Some (out', b')"
    and o: "out = e @ out'" and sz: "\<not> outsz < w + length e + 1"
    by (auto split: if_splits option.splits)
  have IH: "json_body out' \<and> utf8_valid out' \<and> NUL \<notin> set out' \<and> (drop (n - 1) cs = [] \<or> w + length e + length out' < outsz)"
    using 2(1) u l sz by simp
  moreover have "drop (n - 1) cs = [] \<Longrightarrow> out' = []" using l by auto
  ultimately show ?case using escape_unit_wf [OF u, of out'] o sz by auto
qed auto

lemma json_escape_loop_total:
  "w + 6 * length s + 1 \<le> outsz \<Longrightarrow> \<exists>out b. json_escape_loop outsz w s = Some (out, b)"
proof (induction outsz w s rule: json_escape_loop.induct)
  case (2 outsz w c cs)
  obtain e n bad where u: "json_escape_unit c cs = (e, n, bad)" by (cases "json_escape_unit c cs")
  note wf = escape_unit_wf [OF u, of "[]"]
  have "6 * length (drop (n - 1) cs) \<le> 6 * length cs" by simp
  then have le: "w + length e + 6 * length (drop (n - 1) cs) + 1 \<le> outsz" using 2(2) wf by simp
  then obtain out b where "json_escape_loop outsz (w + length e) (drop (n - 1) cs) = Some (out, b)" using 2(1) [OF u [symmetric] refl] by auto
  then show ?case using u le by auto
qed auto

lemma append_single: "(@) [c] = (#) c"
  by (rule ext) simp

lemma json_unescape_raw:
  "\<forall>x \<in> set h. x \<noteq> DQ \<and> x \<noteq> BSL \<Longrightarrow> w + length h + 1 \<le> outsz \<Longrightarrow>
   json_unescape outsz w (h @ r) = map_option ((@) h) (json_unescape outsz (w + length h) r)"
proof (induction h arbitrary: w)
  case Nil
  then show ?case by (simp add: option.map_ident)
next
  case (Cons c h)
  from Cons(1) [of "w + 1"] Cons(2,3) show ?case by (simp add: option.map_comp comp_def)
qed

lemma json_unescape_unit:
  assumes "json_escape_unit c cs = (e, n, 0)" "w + n + 1 \<le> outsz"
  shows "json_unescape outsz w (e @ r) = map_option ((@) (take n (c # cs))) (json_unescape outsz (w + n) r)"
  using assms(1)
proof (cases rule: escape_unit_cases)
  case (short d)
  then show ?thesis using short_escape_inv [of c d] assms(2) by (simp add: append_single)
next
  case control
  have "json_append_unicode (tl (drop 1 (u_escape c)) @ r) outsz w = Some [c]"
    using control hex4_u_escape [of c] assms(2) by (simp add: json_append_unicode_def u_escape_def utf8_of_def)
  then show ?thesis using control by (simp add: u_escape_def append_single)
next
  case ascii
  then show ?thesis using short_escape_None [of c] assms(2) by (simp add: append_single)
next
  case multi
  then have "n \<le> length (c # cs)" "\<forall>x \<in> set (take n (c # cs)). 0x80 \<le> byte x"
    using utf8_seq_multi [of c cs n] by auto
  then have "\<forall>x \<in> set (take n (c # cs)). x \<noteq> DQ \<and> x \<noteq> BSL" by auto
  from json_unescape_raw [OF this, of w outsz r] show ?thesis using multi assms(2) \<open>n \<le> length (c # cs)\<close> by simp
next
  case replaced
  from replaced(5) show ?thesis by simp
qed

lemma escape_unit_valid:
  assumes "utf8_valid (c # cs)" "json_escape_unit c cs = (e, n, bad)"
  shows "bad = 0 \<and> n \<le> length (c # cs) \<and> utf8_valid (drop n (c # cs))"
  using assms(2)
proof (cases rule: escape_unit_cases)
  case replaced
  then show ?thesis using utf8_valid_drop [OF assms(1)] by simp
next
  case multi
  then show ?thesis using utf8_valid_drop [OF assms(1)] utf8_seq_local [OF multi(2,3)] by auto
next
  case (short d)
  then have "byte c < 0x80" using short_escape_inv by blast
  then show ?thesis using short assms(1) by (simp add: utf8_valid_ascii)
next
  case control
  then show ?thesis using assms(1) by (simp add: utf8_valid_ascii)
next
  case ascii
  then show ?thesis using assms(1) by (simp add: utf8_valid_ascii)
qed

lemma json_escape_loop_inverse:
  "json_escape_loop sz k s = Some (out, b) \<Longrightarrow> utf8_valid s \<Longrightarrow> w + length s + 1 \<le> outsz \<Longrightarrow>
   b = 0 \<and> json_unescape outsz w (out @ DQ # r) = Some s"
proof (induction sz k s arbitrary: out b w rule: json_escape_loop.induct)
  case (2 sz k c cs)
  obtain e n bad where u: "json_escape_unit c cs = (e, n, bad)" by (cases "json_escape_unit c cs")
  with 2(2) obtain out' b' where l: "json_escape_loop sz (k + length e) (drop (n - 1) cs) = Some (out', b')"
    and o: "out = e @ out'" "b = bad + b'" and sz: "\<not> sz < k + length e + 1"
    by (auto split: if_splits option.splits)
  have n: "1 \<le> n" using escape_unit_wf [OF u] by blast
  then have d: "drop n (c # cs) = drop (n - 1) cs" by (cases n) auto
  have v: "bad = 0" "n \<le> length (c # cs)" "utf8_valid (drop (n - 1) cs)"
    using escape_unit_valid [OF 2(3) u] d by auto
  have "b' = 0 \<and> json_unescape outsz (w + n) (out' @ DQ # r) = Some (drop (n - 1) cs)"
    using 2(1) [OF u [symmetric] refl _ l, of "w + n"] u v n sz 2(4) by simp
  moreover have "json_unescape outsz w (e @ out' @ DQ # r) = map_option ((@) (take n (c # cs))) (json_unescape outsz (w + n) (out' @ DQ # r))"
    using json_unescape_unit u v 2(4) by simp
  ultimately show ?case using o v(1) d by (simp, metis append_take_drop_id d)
qed auto

section \<open>The builder\<close>

text \<open>Room for the terminator: a builder that has written has a byte left for the NUL.\<close>

definition jsonb_inv :: "JsonBuilder \<Rightarrow> bool" where
  "jsonb_inv b \<longleftrightarrow> jbuf b = [] \<and> jcap b = 0 \<or> length (jbuf b) < jcap b"

lemma jsonb_double_ge: "jsonb_double nc need = Some r \<Longrightarrow> need \<le> r"
proof (induction nc need rule: jsonb_double.induct)
  case (1 nc need)
  then show ?case by (subst (asm) (2) jsonb_double.simps) (auto split: if_splits)
qed

lemma jsonb_double_total: "nc \<noteq> 0 \<Longrightarrow> int need \<le> 2 ^ 63 \<Longrightarrow> \<exists>r. jsonb_double nc need = Some r"
proof (induction nc need rule: jsonb_double.induct)
  case (1 nc need)
  then show ?case by (subst jsonb_double.simps) auto
qed

lemma jsonb_raw_cases:
  "jsonb_raw s b = (ok, b') \<Longrightarrow> jsonb_inv b \<Longrightarrow>
   jsonb_inv b' \<and> (ok \<longrightarrow> jbuf b' = jbuf b @ s \<and> jerr b' = jerr b \<and> \<not> jerr b) \<and> (\<not> ok \<longrightarrow> jerr b' \<and> jbuf b' = jbuf b)"
  by (auto simp: jsonb_raw_def jsonb_grow_def jsonb_inv_def split: prod.splits if_splits option.splits dest!: jsonb_double_ge)

lemma jsonb_raw_ok:
  assumes "\<not> jerr b" "jsonb_inv b" "int (length (jbuf b) + length s + 1) \<le> 2 ^ 63"
  shows "\<exists>b'. jsonb_raw s b = (True, b') \<and> jbuf b' = jbuf b @ s \<and> \<not> jerr b' \<and> jsonb_inv b'"
proof -
  have nz: "(if jcap b \<noteq> 0 then jcap b else 64) \<noteq> 0" by simp
  obtain r where "jsonb_double (if jcap b \<noteq> 0 then jcap b else 64) (length (jbuf b) + length s + 1) = Some r"
    using jsonb_double_total [OF nz assms(3)] by blast
  then have "fst (jsonb_raw s b)" using assms(1) by (simp add: jsonb_raw_def jsonb_grow_def)
  moreover obtain ok b' where "jsonb_raw s b = (ok, b')" by (cases "jsonb_raw s b")
  ultimately show ?thesis using jsonb_raw_cases [of s b ok b'] assms by auto
qed

lemma escape_sized:
  "\<exists>out b. json_escape s (length s * 6 + 3) = Some (out, b) \<and> json_body out \<and> utf8_valid out \<and> NUL \<notin> set out
     \<and> length out \<le> 6 * length s + 2"
proof -
  obtain out b where e: "json_escape_loop (length s * 6 + 3) 0 s = Some (out, b)"
    using json_escape_loop_total [of 0 s "length s * 6 + 3"] by auto
  have "length out \<le> 6 * length s + 2"
    using json_escape_loop_wf [OF e] e by (cases "s = []") auto
  then show ?thesis using json_escape_loop_wf [OF e] e unfolding json_escape_def by blast
qed

lemma jsonb_quoted_ok:
  assumes "\<not> jerr b" "jsonb_inv b" "json_escape s (length s * 6 + 3) = Some (out, k)"
    and "int (length (jbuf b) + 6 * length s + length close + 4) \<le> 2 ^ 63"
  shows "\<exists>b'. jsonb_quoted s close b = (True, b') \<and> jbuf b' = jbuf b @ DQ # out @ close \<and> \<not> jerr b' \<and> jsonb_inv b'"
proof -
  have out: "NUL \<notin> set out" "length out \<le> 6 * length s + 2" using escape_sized [of s] assms(3) by auto
  then have cs: "cstr out = out" by (simp add: cstr_id nul_free_def)
  obtain b1 where b1: "jsonb_raw [DQ] b = (True, b1)" "jbuf b1 = jbuf b @ [DQ]" "\<not> jerr b1" "jsonb_inv b1"
    using jsonb_raw_ok [OF assms(1,2), of "[DQ]"] assms(4) by auto
  obtain b2 where b2: "jsonb_raw out b1 = (True, b2)" "jbuf b2 = jbuf b @ DQ # out" "\<not> jerr b2" "jsonb_inv b2"
    using jsonb_raw_ok [OF b1(3,4), of out] assms(4) out b1(2) by auto
  obtain b3 where "jsonb_raw close b2 = (True, b3)" "jbuf b3 = jbuf b @ DQ # out @ close" "\<not> jerr b3" "jsonb_inv b3"
    using jsonb_raw_ok [OF b2(3,4), of close] assms(4) out b2(2) by auto
  then show ?thesis using b1 b2 assms(3) cs by (simp add: jsonb_quoted_def)
qed

text \<open>The operations as events; the invariant is kept by every sequence of them.\<close>

datatype jsonb_op = JBegin_object | JEnd_object | JBegin_array | JEnd_array | JComma
  | JKey string | JStr string | JU32 u32 | JBool bool

fun jsonb_step :: "JsonBuilder \<Rightarrow> jsonb_op \<Rightarrow> JsonBuilder" where
  "jsonb_step b JBegin_object = snd (jsonb_begin_object b)"
| "jsonb_step b JEnd_object = snd (jsonb_end_object b)"
| "jsonb_step b JBegin_array = snd (jsonb_begin_array b)"
| "jsonb_step b JEnd_array = snd (jsonb_end_array b)"
| "jsonb_step b JComma = snd (jsonb_comma b)"
| "jsonb_step b (JKey k) = snd (jsonb_key k b)"
| "jsonb_step b (JStr s) = snd (jsonb_str s b)"
| "jsonb_step b (JU32 v) = snd (jsonb_u32 v b)"
| "jsonb_step b (JBool v) = snd (jsonb_bool v b)"

lemma jsonb_raw_inv: "jsonb_inv b \<Longrightarrow> jsonb_inv (snd (jsonb_raw s b))"
  using jsonb_raw_cases [of s b "fst (jsonb_raw s b)" "snd (jsonb_raw s b)"] by simp

lemma jsonb_err_inv: "jsonb_inv b \<Longrightarrow> jsonb_inv (b\<lparr>jerr := e\<rparr>)"
  by (simp add: jsonb_inv_def)

lemma jsonb_quoted_inv:
  assumes "jsonb_inv b"
  shows "jsonb_inv (snd (jsonb_quoted s close b))"
proof -
  obtain ok1 b1 where b1: "jsonb_raw [DQ] b = (ok1, b1)" by (cases "jsonb_raw [DQ] b")
  have i1: "jsonb_inv b1" using jsonb_raw_inv [OF assms, of "[DQ]"] b1 by simp
  show ?thesis
  proof (cases "json_escape s (length s * 6 + 3)")
    case None
    then show ?thesis using assms by (simp add: jsonb_quoted_def jsonb_err_inv)
  next
    case (Some p)
    obtain ok2 b2 where b2: "jsonb_raw (cstr (fst p)) b1 = (ok2, b2)" by (cases "jsonb_raw (cstr (fst p)) b1")
    have i2: "jsonb_inv b2" using jsonb_raw_inv [OF i1, of "cstr (fst p)"] b2 by simp
    obtain ok3 b3 where b3: "jsonb_raw close b2 = (ok3, b3)" by (cases "jsonb_raw close b2")
    have "jsonb_inv b3" using jsonb_raw_inv [OF i2, of close] b3 by simp
    then show ?thesis using i1 i2 b1 b2 b3 Some by (cases p) (simp add: jsonb_quoted_def jsonb_err_inv)
  qed
qed

interpretation jb: stepwise jsonb_step jsonb_inv
proof
  fix b e
  assume "jsonb_inv b"
  then show "jsonb_inv (jsonb_step b e)"
    by (cases e)
      (simp_all add: jsonb_raw_inv jsonb_quoted_inv jsonb_begin_object_def jsonb_end_object_def jsonb_begin_array_def
        jsonb_end_array_def jsonb_comma_def jsonb_key_def jsonb_str_def jsonb_u32_def jsonb_bool_def)
qed

section \<open>Key lookup\<close>

text \<open>Keys as the program has them: printable ASCII without quote and backslash.\<close>

definition key_plain :: "string \<Rightarrow> bool" where
  "key_plain k \<longleftrightarrow> (\<forall>c \<in> set k. 0x20 \<le> byte c \<and> byte c < 0x80 \<and> c \<noteq> DQ \<and> c \<noteq> BSL)"

lemma short_escape_plain: "0x20 \<le> byte c \<Longrightarrow> c \<noteq> DQ \<Longrightarrow> c \<noteq> BSL \<Longrightarrow> short_escape c = None"
  by (auto simp: short_escape_def)

lemma json_escape_plain: "key_plain k \<Longrightarrow> w + length k + 1 \<le> sz \<Longrightarrow> json_escape_loop sz w k = Some (k, 0)"
proof (induction k arbitrary: w)
  case (Cons c k)
  then have "json_escape_unit c k = ([c], 1, 0)"
    by (simp add: key_plain_def json_escape_unit_def short_escape_plain)
  then show ?case using Cons by (simp add: key_plain_def)
qed simp

lemma to_quote_plain: "\<forall>c \<in> set k. c \<noteq> DQ \<Longrightarrow> to_quote (k @ DQ # r) = Some (k, r)"
  by (simp add: to_quote_def dropWhile_all takeWhile_all)

lemma json_find_key_first:
  "key_plain k \<Longrightarrow> json_find_key (CHR ''{'' # DQ # k @ DQ # r) k = Some r"
  using to_quote_plain [of k r] to_quote_plain [of "''{''" "k @ DQ # r"]
  by (subst json_find_key.simps) (auto simp: key_plain_def)

definition json_object1 :: "string \<Rightarrow> string \<Rightarrow> string option" where
  "json_object1 k v =
     fst (jsonb_detach (snd (jsonb_end_object (snd (jsonb_str v (snd (jsonb_key k (snd (jsonb_begin_object jsonb_init)))))))))"

lemma jsonb_init_ok: "\<not> jerr jsonb_init" "jsonb_inv jsonb_init" "jbuf jsonb_init = []"
  by (simp_all add: jsonb_init_def jsonb_inv_def)

lemma json_object1_text:
  assumes "key_plain k" "json_escape v (length v * 6 + 3) = Some (out, n)" "int (6 * length k + 6 * length v + 16) \<le> 2 ^ 63"
  shows "json_object1 k v = Some (CHR ''{'' # DQ # k @ DQ # CHR '':'' # DQ # out @ [DQ, CHR ''}''])"
proof -
  have ek: "json_escape k (length k * 6 + 3) = Some (k, 0)"
    using json_escape_plain [OF assms(1), of 0 "length k * 6 + 3"] by (simp add: json_escape_def)
  have lo: "length out \<le> 6 * length v + 2" using escape_sized [of v] assms(2) by auto
  obtain b1 where b1: "jsonb_begin_object jsonb_init = (True, b1)" "jbuf b1 = ''{''" "\<not> jerr b1" "jsonb_inv b1"
    using jsonb_raw_ok [OF jsonb_init_ok(1,2), of "''{''"] jsonb_init_ok(3) by (auto simp: jsonb_begin_object_def)
  obtain b2 where b2: "jsonb_key k b1 = (True, b2)" "jbuf b2 = ''{'' @ DQ # k @ [DQ, CHR '':'']" "\<not> jerr b2" "jsonb_inv b2"
    using jsonb_quoted_ok [OF b1(3,4) ek, of "[DQ, CHR '':'']"] b1(2) assms(3) by (auto simp: jsonb_key_def)
  obtain b3 where b3: "jsonb_str v b2 = (True, b3)" "jbuf b3 = jbuf b2 @ DQ # out @ [DQ]" "\<not> jerr b3" "jsonb_inv b3"
    using jsonb_quoted_ok [OF b2(3,4) assms(2), of "[DQ]"] b2(2) assms(3) by (auto simp: jsonb_str_def)
  obtain b4 where "jsonb_end_object b3 = (True, b4)" "jbuf b4 = jbuf b3 @ ''}''" "\<not> jerr b4"
    using jsonb_raw_ok [OF b3(3,4), of "''}''"] b2(2) b3(2) assms(3) lo by (auto simp: jsonb_end_object_def)
  then show ?thesis using b1 b2 b3 by (simp add: json_object1_def jsonb_detach_def)
qed

text \<open>
  C38. Escaping is total and safe. With the buffer that \<open>jsonb_key\<close> and \<open>jsonb_str\<close> allocate,
  \<open>json_escape\<close> succeeds on every byte string, and what it writes is a JSON string body (no raw
  control character, quote or backslash outside an escape) in well-formed UTF-8 without NUL.
\<close>

theorem json_escape_total_safe:
  "\<exists>out b. json_escape s (length s * 6 + 3) = Some (out, b) \<and> json_body out \<and> utf8_valid out \<and> nul_free out"
  using escape_sized [of s] by (auto simp: nul_free_def)

text \<open>
  C25. A string member survives the wire. For every value in valid UTF-8 the object that the builder
  produces for one member is read back by \<open>json_obj_get_str\<close> as exactly that value, escapes, quotes
  and control characters included.
\<close>

theorem json_member_roundtrip:
  assumes "key_plain k" "utf8_valid v" "length v < outsz" "int (6 * length k + 6 * length v + 16) \<le> 2 ^ 63"
  shows "\<exists>text. json_object1 k v = Some text \<and> json_obj_get_str text k outsz = Some v"
proof -
  obtain out n where e: "json_escape v (length v * 6 + 3) = Some (out, n)" using escape_sized by blast
  have "json_unescape outsz 0 (out @ DQ # ''}'') = Some v"
    using json_escape_loop_inverse [OF e [unfolded json_escape_def] assms(2)] assms(3) by simp
  moreover have "json_find_key (CHR ''{'' # DQ # k @ DQ # CHR '':'' # DQ # out @ [DQ, CHR ''}'']) k = Some (CHR '':'' # DQ # out @ [DQ, CHR ''}''])"
    using json_find_key_first [OF assms(1)] by simp
  ultimately show ?thesis using json_object1_text [OF assms(1) e assms(4)] assms(3)
    by (simp add: json_obj_get_str_def json_ws_def)
qed

theorem json_member_roundtrip_witness:
  "\<exists>text. json_object1 ''to'' [DQ, LF, CHR ''a'', CHR 0xC3, CHR 0xA9] = Some text
     \<and> json_obj_get_str text ''to'' 64 = Some [DQ, LF, CHR ''a'', CHR 0xC3, CHR 0xA9]"
  by (rule json_member_roundtrip) code_simp+

text \<open>The escaped string body as a coding of the valid UTF-8 strings.\<close>

definition json_enc :: "string \<Rightarrow> string" where
  "json_enc s = (case json_escape s (length s * 6 + 3) of None \<Rightarrow> [] | Some (out, b) \<Rightarrow> out @ [DQ])"

definition json_dec :: "string \<Rightarrow> string option" where
  "json_dec t = json_unescape (length t + 1) 0 t"

lemma escape_length: "json_escape_loop sz w s = Some (out, b) \<Longrightarrow> utf8_valid s \<Longrightarrow> length s \<le> length out"
proof (induction sz w s arbitrary: out b rule: json_escape_loop.induct)
  case (2 sz w c cs)
  obtain e n bad where u: "json_escape_unit c cs = (e, n, bad)" by (cases "json_escape_unit c cs")
  with 2(2) obtain out' b' where l: "json_escape_loop sz (w + length e) (drop (n - 1) cs) = Some (out', b')"
    and o: "out = e @ out'" and sz: "\<not> sz < w + length e + 1"
    by (auto split: if_splits option.splits)
  have v: "bad = 0" "n \<le> length (c # cs)" "utf8_valid (drop n (c # cs))" using escape_unit_valid [OF 2(3) u] by auto
  have n: "1 \<le> n" using escape_unit_wf [OF u] by blast
  then have "drop n (c # cs) = drop (n - 1) cs" by (cases n) auto
  with v 2(1) [OF u [symmetric] refl sz l] have "length (drop (n - 1) cs) \<le> length out'" by simp
  moreover have "n \<le> length e" using u
  proof (cases rule: escape_unit_cases)
    case multi
    then show ?thesis using v(2) by simp
  next
    case replaced
    from replaced(5) v(1) show ?thesis by simp
  qed (auto simp: u_escape_def)
  ultimately show ?case using o n v(2) by simp
qed simp

interpretation js: coding json_enc json_dec utf8_valid
proof
  fix s
  assume v: "utf8_valid s"
  obtain out b where e: "json_escape s (length s * 6 + 3) = Some (out, b)" using escape_sized by blast
  have "length s \<le> length out" using escape_length [OF e [unfolded json_escape_def] v] .
  then show "json_dec (json_enc s) = Some s"
    using json_escape_loop_inverse [OF e [unfolded json_escape_def] v, of 0 "length out + 2" "[]"] e
    by (simp add: json_enc_def json_dec_def)
qed

section \<open>Numbers\<close>

lemma digit_word: "is_digit c \<Longrightarrow> unat (of_nat (byte c - 48) :: u32) = digit_val c \<and> digit_val c \<le> 9"
  unfolding is_digit_def digit_val_def by (subst u32_of_nat) auto

lemma digit_guard:
  fixes v d :: u32
  assumes "unat d \<le> 9"
  shows "v > (UINT32_MAX - d) div 10 \<longleftrightarrow> unat v * 10 + unat d > 4294967295"
proof -
  have "d \<le> UINT32_MAX" using assms by (simp add: word_le_nat_alt)
  then have "unat ((UINT32_MAX - d) div 10) = (4294967295 - unat d) div 10"
    by (simp add: unat_div unat_sub)
  then show ?thesis using assms by (simp add: word_less_nat_alt) linarith
qed

lemma digit_step:
  fixes v d :: u32
  assumes "unat v * 10 + unat d \<le> 4294967295"
  shows "unat (v * 10 + d) = unat v * 10 + unat d"
proof -
  have "unat (v * 10) = unat v * 10" using assms by (subst unat_mult_lem [THEN iffD1]) auto
  then show ?thesis using assms by (subst unat_add_lem [THEN iffD1]) auto
qed

lemma foldl_digits_ge: "(v::nat) \<le> foldl (\<lambda>v c. v * 10 + digit_val c) v ds"
proof (induction ds arbitrary: v)
  case (Cons c ds)
  from Cons [of "v * 10 + digit_val c"] show ?case by simp
qed simp

lemma json_digits_exact:
  assumes "\<forall>c \<in> set ds. is_digit c" "r = [] \<or> \<not> is_digit (hd r)"
  shows "json_digits v (ds @ r) =
    (let n = foldl (\<lambda>v c. v * 10 + digit_val c) (unat v) ds in if n \<le> 4294967295 then Some (of_nat n) else None)"
  using assms(1)
proof (induction ds arbitrary: v)
  case Nil
  have "json_digits v r = Some v" using assms(2) by (cases r) auto
  moreover have "unat v \<le> 4294967295" using u32_less [of v] by simp
  ultimately show ?case by simp
next
  case (Cons c ds)
  let ?d = "of_nat (byte c - 48) :: u32"
  have d: "unat ?d = digit_val c" "digit_val c \<le> 9" using Cons(2) digit_word by auto
  show ?case
  proof (cases "unat v * 10 + digit_val c \<le> 4294967295")
    case True
    then have "unat (v * 10 + ?d) = unat v * 10 + digit_val c" using digit_step [of v ?d] d by simp
    then show ?thesis using Cons True d digit_guard [of ?d v] by (simp add: Let_def)
  next
    case False
    then show ?thesis
      using foldl_digits_ge [of "unat v * 10 + digit_val c" ds] Cons(2) d digit_guard [of ?d v]
      by (simp add: Let_def)
  qed
qed

text \<open>
  The number reader is exact on 32 bits: a decimal member is returned as its value when it fits
  an unsigned 32-bit integer and refused otherwise; it never wraps around.
\<close>

theorem json_u32_exact:
  assumes "key_plain k"
  shows "json_obj_get_u32 (CHR ''{'' # DQ # k @ DQ # CHR '':'' # dec_of_nat n @ ''}'') k =
    (if n \<le> 4294967295 then Some (of_nat n) else None)"
proof -
  obtain c cs where c: "dec_of_nat n = c # cs" by (cases "dec_of_nat n") auto
  have dg: "\<forall>x \<in> set (c # cs). is_digit x" using dec_of_nat_digits [of n] c by simp
  then have "\<not> json_ws c" by (auto simp: json_ws_def is_digit_def)
  moreover have "json_digits 0 ((c # cs) @ ''}'') = (if n \<le> 4294967295 then Some (of_nat n) else None)"
    using json_digits_exact [OF dg, of "''}''" 0] dec_of_nat_value [of n] c by (simp add: is_digit_def Let_def)
  ultimately show ?thesis using json_find_key_first [OF assms] c dg
    by (simp add: json_obj_get_u32_def json_ws_def)
qed

theorem json_u32_exact_witness:
  "json_obj_get_u32 (CHR ''{'' # DQ # ''n'' @ DQ # CHR '':'' # dec_of_nat 4294967296 @ ''}'') ''n'' = None"
proof -
  have "key_plain ''n''" by code_simp
  from json_u32_exact [OF this, of 4294967296] show ?thesis by simp
qed

end
