(* ===== verification/Visage_Config.thy ===== *)
theory Visage_Config
  imports Visage_Prelude
begin

text \<open>
  The configuration record of \<open>config.h\<close>, restricted to the fields the modelled components read.
  The loader (\<open>config.c\<close>, Dhall) is not modelled: a configuration is a value.
\<close>

record ConfigListen =
  listen_address :: string
  listen_port :: u32
  proxy_from :: "string list"

record ConfigTlsListen =
  tls_listen_address :: "string option"
  tls_listen_port :: u32

record ConfigLimits =
  limit_message :: u32
  limit_line :: u32
  limit_rcpts :: u32
  cmd_timeout :: u32
  data_timeout :: u32

record ConfigRelayAuth =
  auth_enabled :: bool
  auth_username :: string
  auth_password :: string

record ConfigRelay =
  relay_host :: string
  relay_port :: u32
  relay_auth :: ConfigRelayAuth
  relay_retries :: u32
  relay_tls :: string
  relay_max_attempts :: u32
  relay_tls_ca :: string

record ConfigStorage =
  storage_path :: string
  storage_spool :: string
  retention_days :: u32

record ConfigReply =
  reply_prefix :: string
  reply_separator :: string

record ConfigAlias =
  ca_alias :: string
  ca_destinations :: "string list"

record ConfigHttp =
  http_address :: string
  http_port :: u32

record ConfigDkim =
  dkim_domain :: string
  dkim_selector :: string
  dkim_private_key :: string

record Config =
  cfg_hostname :: string
  cfg_domains :: "string list"
  cfg_listen :: ConfigListen
  cfg_tls_listen :: ConfigTlsListen
  cfg_limits :: ConfigLimits
  cfg_relay :: ConfigRelay
  cfg_reply_relay :: ConfigRelay
  cfg_storage :: ConfigStorage
  cfg_reply :: ConfigReply
  cfg_catch_all :: string
  cfg_aliases :: "ConfigAlias list"
  cfg_http :: ConfigHttp
  cfg_admin_token :: string
  cfg_dkim :: "ConfigDkim list"

end
