(* ===== verification/Store_Model.thy ===== *)
theory Store_Model
  imports Visage_Config
begin

text \<open>
  The persistent store, \<open>store.c\<close>: aliases, the reverse-alias map, the delivery log, the message-id
  counter and the durable delivery queue, as typed operations over an embedded datalog engine.

  The engine (\<open>dl.h\<close>, not part of the repository) is a parameter: a record of its functions over an
  abstract database. A row is the list of its 32-bit columns. \<open>dl_prefix\<close> returns the rows it hands
  to its callback, in order, or \<open>None\<close> for a negative return; the collecting callbacks of the code
  become list functions. Every operation returns its result code and the new store. Allocation of
  the C arrays is taken to succeed; the allocation failures the engine reports (id 0) are kept.
\<close>

section \<open>The engine\<close>

datatype rel = REL_DOMAIN | REL_ALIAS | REL_REVMAP | REL_LOG | REL_META | REL_QUEUE

fun rel_arity :: "rel \<Rightarrow> nat" where
  "rel_arity REL_DOMAIN = 1"
| "rel_arity REL_ALIAS = 3"
| "rel_arity REL_REVMAP = 4"
| "rel_arity REL_LOG = 6"
| "rel_arity REL_META = 2"
| "rel_arity REL_QUEUE = 7"

type_synonym row = "u32 list"

record 'd dl_engine =
  dl_open :: "string \<Rightarrow> 'd option"
  dl_declare_relation :: "'d \<Rightarrow> rel \<Rightarrow> nat \<Rightarrow> bool \<times> 'd"
  dl_intern_str :: "'d \<Rightarrow> string \<Rightarrow> u32 \<times> 'd"
  dl_intern_str_of :: "'d \<Rightarrow> u32 \<Rightarrow> string option"
  dl_add_fact :: "'d \<Rightarrow> rel \<Rightarrow> row \<Rightarrow> bool \<times> 'd"
  dl_delete_fact :: "'d \<Rightarrow> rel \<Rightarrow> row \<Rightarrow> bool \<times> 'd"
  dl_load_facts :: "'d \<Rightarrow> rel \<Rightarrow> string \<Rightarrow> bool \<times> 'd"
  dl_prefix :: "'d \<Rightarrow> rel \<Rightarrow> row \<Rightarrow> row list option"

record 'd Store =
  db :: 'd
  next_due :: u32
  next_due_dirty :: bool

definition REVMAP_TTL_SEC :: u32 where
  "REVMAP_TTL_SEC = 30 * 24 * 3600"

definition LOG_RETENTION_SEC :: u32 where
  "LOG_RETENTION_SEC = 30 * 24 * 3600"

definition META_KEY_NEXT_MSGID :: string where
  "META_KEY_NEXT_MSGID = ''next_msgid''"

abbreviation QUEUED :: string where "QUEUED \<equiv> ''queued''"
abbreviation DELIVERING :: string where "DELIVERING \<equiv> ''delivering''"
abbreviation DELIVERED :: string where "DELIVERED \<equiv> ''delivered''"
abbreviation PERMFAIL :: string where "PERMFAIL \<equiv> ''permfail''"

definition META_MAX_ROWS :: nat where
  "META_MAX_ROWS = 16"

definition QUEUE_SET_MAX_ROWS :: nat where
  "QUEUE_SET_MAX_ROWS = 16"

section \<open>Lifecycle\<close>

fun declare_all :: "'d dl_engine \<Rightarrow> rel list \<Rightarrow> 'd \<Rightarrow> bool \<times> 'd" where
  "declare_all E [] d = (True, d)"
| "declare_all E (r # rs) d =
     (case dl_declare_relation E d r (rel_arity r) of (ok, d1) \<Rightarrow>
        if ok then declare_all E rs d1 else (False, d1))"

definition store_open :: "'d dl_engine \<Rightarrow> string \<Rightarrow> 'd Store option" where
  "store_open E path =
     (if path = [] then None
      else case dl_open E path of
        None \<Rightarrow> None
      | Some d \<Rightarrow>
          (case declare_all E [REL_DOMAIN, REL_ALIAS, REL_REVMAP, REL_LOG, REL_META, REL_QUEUE] d of (ok, d1) \<Rightarrow>
             if ok then Some \<lparr>db = d1, next_due = UINT32_MAX, next_due_dirty = True\<rparr> else None))"

section \<open>Aliases and domains\<close>

definition split_addr :: "string \<Rightarrow> (string \<times> string) visage_result" where
  "split_addr addr =
     (let local = takeWhile (\<lambda>c. c \<noteq> AT) addr; rest = dropWhile (\<lambda>c. c \<noteq> AT) addr in
      if rest = [] then Inl VISAGE_EPARAM
      else if local = [] then Inl VISAGE_EPARAM
      else if tl rest = [] then Inl VISAGE_EPARAM
      else Inr (map to_lower local, map to_lower (tl rest)))"

text \<open>The interning of the three columns of an alias row, in the order of the code.\<close>

definition alias_row :: "'d dl_engine \<Rightarrow> 'd \<Rightarrow> string \<Rightarrow> string \<Rightarrow> string \<Rightarrow> row option \<times> 'd" where
  "alias_row E d domain local dest =
     (case dl_intern_str E d domain of (d_id, d1) \<Rightarrow>
      case dl_intern_str E d1 local of (l_id, d2) \<Rightarrow>
      case dl_intern_str E d2 dest of (dest_id, d3) \<Rightarrow>
        if d_id = 0 \<or> l_id = 0 \<or> dest_id = 0 then (None, d3) else (Some [d_id, l_id, dest_id], d3))"

definition alias_add_impl :: "'d dl_engine \<Rightarrow> 'd Store \<Rightarrow> string \<Rightarrow> string \<Rightarrow> unit visage_result \<times> 'd Store" where
  "alias_add_impl E s alias dest =
     (if alias = [] \<or> dest = [] then (Inl VISAGE_EPARAM, s)
      else case split_addr alias of
        Inl e \<Rightarrow> (Inl e, s)
      | Inr (local, domain) \<Rightarrow>
          (case alias_row E (db s) domain local dest of
             (None, d) \<Rightarrow> (Inl VISAGE_ENOMEM, s\<lparr>db := d\<rparr>)
           | (Some cols, d) \<Rightarrow>
               (case dl_add_fact E d REL_ALIAS cols of (ok, d') \<Rightarrow>
                  (if ok then Inr () else Inl VISAGE_ESTORE, s\<lparr>db := d'\<rparr>))))"

definition store_alias_add :: "'d dl_engine \<Rightarrow> 'd Store \<Rightarrow> string \<Rightarrow> string \<Rightarrow> unit visage_result \<times> 'd Store" where
  "store_alias_add E s alias dest = alias_add_impl E s alias dest"

definition store_alias_rm :: "'d dl_engine \<Rightarrow> 'd Store \<Rightarrow> string \<Rightarrow> string \<Rightarrow> unit visage_result \<times> 'd Store" where
  "store_alias_rm E s alias dest =
     (case split_addr alias of
        Inl e \<Rightarrow> (Inl e, s)
      | Inr (local, domain) \<Rightarrow>
          (case alias_row E (db s) domain local dest of
             (None, d) \<Rightarrow> (Inl VISAGE_ENOMEM, s\<lparr>db := d\<rparr>)
           | (Some cols, d) \<Rightarrow>
               (case dl_delete_fact E d REL_ALIAS cols of (ok, d') \<Rightarrow>
                  (if ok then Inr () else Inl VISAGE_ESTORE, s\<lparr>db := d'\<rparr>))))"

definition store_alias_load_bulk :: "'d dl_engine \<Rightarrow> 'd Store \<Rightarrow> string \<Rightarrow> unit visage_result \<times> 'd Store" where
  "store_alias_load_bulk E s csv_path =
     (if csv_path = [] then (Inl VISAGE_EPARAM, s)
      else case dl_load_facts E (db s) REL_ALIAS csv_path of (ok, d) \<Rightarrow>
        (if ok then Inr () else Inl VISAGE_ESTORE, s\<lparr>db := d\<rparr>))"

fun seed_domains :: "'d dl_engine \<Rightarrow> string list \<Rightarrow> 'd Store \<Rightarrow> unit visage_result \<times> 'd Store" where
  "seed_domains E [] s = (Inr (), s)"
| "seed_domains E (x # xs) s =
     (if x = [] then seed_domains E xs s
      else case dl_intern_str E (db s) x of (d_id, d) \<Rightarrow>
        if d_id = 0 then (Inl VISAGE_ENOMEM, s\<lparr>db := d\<rparr>)
        else case dl_add_fact E d REL_DOMAIN [d_id] of (ok, d') \<Rightarrow>
          if ok then seed_domains E xs (s\<lparr>db := d'\<rparr>) else (Inl VISAGE_ESTORE, s\<lparr>db := d'\<rparr>))"

fun seed_alias_pairs :: "'d dl_engine \<Rightarrow> (string \<times> string) list \<Rightarrow> 'd Store \<Rightarrow> unit visage_result \<times> 'd Store" where
  "seed_alias_pairs E [] s = (Inr (), s)"
| "seed_alias_pairs E ((alias, dest) # ps) s =
     (case alias_add_impl E s alias dest of
        (Inl e, s') \<Rightarrow> (Inl e, s')
      | (Inr _, s') \<Rightarrow> seed_alias_pairs E ps s')"

definition config_alias_pairs :: "Config \<Rightarrow> (string \<times> string) list" where
  "config_alias_pairs cfg = concat (map (\<lambda>a. map (Pair (ca_alias a)) (ca_destinations a)) (cfg_aliases cfg))"

definition store_seed_aliases :: "'d dl_engine \<Rightarrow> 'd Store \<Rightarrow> Config \<Rightarrow> unit visage_result \<times> 'd Store" where
  "store_seed_aliases E s cfg =
     (case seed_domains E (cfg_domains cfg) s of
        (Inl e, s') \<Rightarrow> (Inl e, s')
      | (Inr _, s') \<Rightarrow> seed_alias_pairs E (config_alias_pairs cfg) s')"

text \<open>\<open>dest_collect_cb\<close>: a column that does not decode stops the walk with the error flag.\<close>

fun decode_all :: "'d dl_engine \<Rightarrow> 'd \<Rightarrow> u32 list \<Rightarrow> string list option" where
  "decode_all E d [] = Some []"
| "decode_all E d (i # is) =
     (case dl_intern_str_of E d i of
        None \<Rightarrow> None
      | Some s \<Rightarrow> map_option ((#) s) (decode_all E d is))"

definition store_resolve :: "'d dl_engine \<Rightarrow> 'd Store \<Rightarrow> string \<Rightarrow> string list visage_result \<times> 'd Store" where
  "store_resolve E s alias =
     (case split_addr alias of
        Inl e \<Rightarrow> (Inl e, s)
      | Inr (local, domain) \<Rightarrow>
          (case dl_intern_str E (db s) domain of (d_id, d1) \<Rightarrow>
           case dl_intern_str E d1 local of (l_id, d2) \<Rightarrow>
             if d_id = 0 \<or> l_id = 0 then (Inl VISAGE_ENOMEM, s\<lparr>db := d2\<rparr>)
             else case dl_prefix E d2 REL_ALIAS [d_id, l_id] of
               None \<Rightarrow> (Inl VISAGE_ESTORE, s\<lparr>db := d2\<rparr>)
             | Some rows \<Rightarrow>
                 (case decode_all E d2 (map (\<lambda>cols. cols ! 2) rows) of
                    None \<Rightarrow> (Inl VISAGE_ENOMEM, s\<lparr>db := d2\<rparr>)
                  | Some dests \<Rightarrow> (Inr dests, s\<lparr>db := d2\<rparr>))))"

definition store_alias_count :: "'d dl_engine \<Rightarrow> 'd Store \<Rightarrow> int" where
  "store_alias_count E s =
     (case dl_prefix E (db s) REL_ALIAS [] of None \<Rightarrow> -1 | Some rows \<Rightarrow> int (length rows))"

definition alias_entry :: "'d dl_engine \<Rightarrow> 'd \<Rightarrow> row \<Rightarrow> (string \<times> string) option" where
  "alias_entry E d cols =
     (case dl_intern_str_of E d (cols ! 0) of None \<Rightarrow> None | Some dm \<Rightarrow>
     (case dl_intern_str_of E d (cols ! 1) of None \<Rightarrow> None | Some loc \<Rightarrow>
     (case dl_intern_str_of E d (cols ! 2) of None \<Rightarrow> None | Some dst \<Rightarrow>
        Some (loc @ AT # dm, dst))))"

fun collect_opt :: "('a \<Rightarrow> 'b option) \<Rightarrow> 'a list \<Rightarrow> 'b list option" where
  "collect_opt f [] = Some []"
| "collect_opt f (x # xs) = (case f x of None \<Rightarrow> None | Some y \<Rightarrow> map_option ((#) y) (collect_opt f xs))"

definition store_alias_list_all :: "'d dl_engine \<Rightarrow> 'd Store \<Rightarrow> (string \<times> string) list visage_result" where
  "store_alias_list_all E s =
     (case dl_prefix E (db s) REL_ALIAS [] of
        None \<Rightarrow> Inl VISAGE_ESTORE
      | Some rows \<Rightarrow>
          (case collect_opt (alias_entry E (db s)) rows of None \<Rightarrow> Inl VISAGE_ENOMEM | Some ps \<Rightarrow> Inr ps))"

section \<open>The reverse-alias map\<close>

definition store_revmap_add_at :: "'d dl_engine \<Rightarrow> 'd Store \<Rightarrow> string \<Rightarrow> string \<Rightarrow> string \<Rightarrow> u32 \<Rightarrow> unit visage_result \<times> 'd Store" where
  "store_revmap_add_at E s token sender alias_addr created_ts =
     (if token = [] \<or> sender = [] \<or> alias_addr = [] then (Inl VISAGE_EPARAM, s)
      else case dl_intern_str E (db s) token of (c0, d1) \<Rightarrow>
           case dl_intern_str E d1 sender of (c1, d2) \<Rightarrow>
           case dl_intern_str E d2 alias_addr of (c2, d3) \<Rightarrow>
             if c0 = 0 \<or> c1 = 0 \<or> c2 = 0 then (Inl VISAGE_ENOMEM, s\<lparr>db := d3\<rparr>)
             else case dl_add_fact E d3 REL_REVMAP [c0, c1, c2, created_ts] of (ok, d') \<Rightarrow>
               (if ok then Inr () else Inl VISAGE_ESTORE, s\<lparr>db := d'\<rparr>))"

text \<open>\<open>now\<close> stands for \<open>time(NULL)\<close>.\<close>

definition store_revmap_add :: "'d dl_engine \<Rightarrow> u32 \<Rightarrow> 'd Store \<Rightarrow> string \<Rightarrow> string \<Rightarrow> string \<Rightarrow> unit visage_result \<times> 'd Store" where
  "store_revmap_add E now s token sender alias_addr = store_revmap_add_at E s token sender alias_addr now"

definition store_revmap_load_bulk :: "'d dl_engine \<Rightarrow> 'd Store \<Rightarrow> string \<Rightarrow> unit visage_result \<times> 'd Store" where
  "store_revmap_load_bulk E s csv_path =
     (if csv_path = [] then (Inl VISAGE_EPARAM, s)
      else case dl_load_facts E (db s) REL_REVMAP csv_path of (ok, d) \<Rightarrow>
        (if ok then Inr () else Inl VISAGE_ESTORE, s\<lparr>db := d\<rparr>))"

text \<open>The deletions after a walk: \<open>(void)dl_delete_fact(...)\<close> for each row, results ignored.\<close>

fun delete_rows :: "'d dl_engine \<Rightarrow> rel \<Rightarrow> row list \<Rightarrow> 'd \<Rightarrow> 'd" where
  "delete_rows E r [] d = d"
| "delete_rows E r (x # xs) d = delete_rows E r xs (snd (dl_delete_fact E d r x))"

text \<open>The age test, in unsigned arithmetic.\<close>

definition revmap_expired :: "u32 \<Rightarrow> u32 \<Rightarrow> bool" where
  "revmap_expired now created_ts \<longleftrightarrow> now - created_ts \<ge> REVMAP_TTL_SEC"

definition store_revmap_expire :: "'d dl_engine \<Rightarrow> 'd Store \<Rightarrow> u32 \<Rightarrow> unit visage_result \<times> 'd Store" where
  "store_revmap_expire E s now =
     (case dl_prefix E (db s) REL_REVMAP [] of
        None \<Rightarrow> (Inl VISAGE_ESTORE, s)
      | Some rows \<Rightarrow>
          (Inr (), s\<lparr>db := delete_rows E REL_REVMAP (filter (\<lambda>cols. revmap_expired now (cols ! 3)) rows) (db s)\<rparr>))"

definition store_revmap_resolve :: "'d dl_engine \<Rightarrow> u32 \<Rightarrow> 'd Store \<Rightarrow> string \<Rightarrow> (string \<times> string) option visage_result \<times> 'd Store" where
  "store_revmap_resolve E now s token =
     (if token = [] then (Inr None, s)
      else case dl_intern_str E (db s) token of (tok_id, d) \<Rightarrow>
        if tok_id = 0 then (Inl VISAGE_ENOMEM, s\<lparr>db := d\<rparr>)
        else case dl_prefix E d REL_REVMAP [tok_id] of
          None \<Rightarrow> (Inl VISAGE_ESTORE, s\<lparr>db := d\<rparr>)
        | Some [] \<Rightarrow> (Inr None, s\<lparr>db := d\<rparr>)
        | Some (cols # _) \<Rightarrow>
            if revmap_expired now (cols ! 3) then (Inr None, s\<lparr>db := d\<rparr>)
            else case dl_intern_str_of E d (cols ! 1) of
              None \<Rightarrow> (Inl VISAGE_ESTORE, s\<lparr>db := d\<rparr>)
            | Some snd_str \<Rightarrow>
                (case dl_intern_str_of E d (cols ! 2) of
                   None \<Rightarrow> (Inl VISAGE_ESTORE, s\<lparr>db := d\<rparr>)
                 | Some al \<Rightarrow> (Inr (Some (snd_str, al)), s\<lparr>db := d\<rparr>)))"

section \<open>Message ids and the log\<close>

text \<open>
  \<open>store_next_msgid\<close>. Every \<open>dl_add_fact\<close> and \<open>dl_delete_fact\<close> is durable on its own, so the
  database after each of them is a state a crash can leave: \<open>mutations\<close> lists them, and the
  operation ends in the last one.
\<close>

fun delete_trace :: "'d dl_engine \<Rightarrow> rel \<Rightarrow> row list \<Rightarrow> 'd \<Rightarrow> 'd list" where
  "delete_trace E r [] d = []"
| "delete_trace E r (x # xs) d =
     (let d' = snd (dl_delete_fact E d r x) in d' # delete_trace E r xs d')"

definition meta_vals :: "row list \<Rightarrow> u32 list" where
  "meta_vals rows = map (\<lambda>cols. cols ! 1) (take META_MAX_ROWS rows)"

definition max_val :: "u32 list \<Rightarrow> u32" where
  "max_val vs = foldl (\<lambda>cur v. if v > cur then v else cur) 0 vs"

text \<open>The returned id (0 on failure), the store, and the databases a crash may leave.\<close>

definition store_next_msgid_trace :: "'d dl_engine \<Rightarrow> 'd Store \<Rightarrow> u32 \<times> 'd Store \<times> 'd list" where
  "store_next_msgid_trace E s =
     (case dl_intern_str E (db s) META_KEY_NEXT_MSGID of (key, d) \<Rightarrow>
        let s1 = s\<lparr>db := d\<rparr> in
        if key = 0 then (0, s1, [])
        else case dl_prefix E d REL_META [key] of
          None \<Rightarrow> (0, s1, [])
        | Some rows \<Rightarrow>
            let vals = meta_vals rows;
                nxt = max_val vals + 1 in
            if nxt = 0 then (0, s1, [])
            else case dl_add_fact E d REL_META [key, nxt] of (ok, d1) \<Rightarrow>
              if \<not> ok then (0, s\<lparr>db := d1\<rparr>, [d1])
              else
                let tr = delete_trace E REL_META (map (\<lambda>v. [key, v]) vals) d1 in
                (nxt, s\<lparr>db := delete_rows E REL_META (map (\<lambda>v. [key, v]) vals) d1\<rparr>, d1 # tr))"

definition store_next_msgid :: "'d dl_engine \<Rightarrow> 'd Store \<Rightarrow> u32 \<times> 'd Store" where
  "store_next_msgid E s = (case store_next_msgid_trace E s of (n, s', _) \<Rightarrow> (n, s'))"

definition store_log_add :: "'d dl_engine \<Rightarrow> 'd Store \<Rightarrow> u32 \<Rightarrow> u32 \<Rightarrow> u32 \<Rightarrow> string \<Rightarrow> string \<Rightarrow> string \<Rightarrow> unit visage_result \<times> 'd Store" where
  "store_log_add E s msgid ts dir local remote status =
     (if remote = [] \<or> status = [] then (Inl VISAGE_EPARAM, s)
      else case dl_intern_str E (db s) local of (c3, d1) \<Rightarrow>
           case dl_intern_str E d1 remote of (c4, d2) \<Rightarrow>
           case dl_intern_str E d2 status of (c5, d3) \<Rightarrow>
             if c3 = 0 \<or> c4 = 0 \<or> c5 = 0 then (Inl VISAGE_ENOMEM, s\<lparr>db := d3\<rparr>)
             else case dl_add_fact E d3 REL_LOG [msgid, ts, dir, c3, c4, c5] of (ok, d') \<Rightarrow>
               (if ok then Inr () else Inl VISAGE_ESTORE, s\<lparr>db := d'\<rparr>))"

text \<open>The age test of the log sweep, in signed 64-bit arithmetic: two 32-bit times never overflow it.\<close>

definition log_expired :: "u32 \<Rightarrow> u32 \<Rightarrow> bool" where
  "log_expired now ts \<longleftrightarrow>
     (let age = int (unat now) - int (unat ts) in age \<ge> 0 \<and> (of_int age :: u32) \<ge> LOG_RETENTION_SEC)"

definition store_log_expire :: "'d dl_engine \<Rightarrow> 'd Store \<Rightarrow> u32 \<Rightarrow> unit visage_result \<times> 'd Store" where
  "store_log_expire E s now =
     (case dl_prefix E (db s) REL_LOG [] of
        None \<Rightarrow> (Inl VISAGE_ESTORE, s)
      | Some rows \<Rightarrow>
          (Inr (), s\<lparr>db := delete_rows E REL_LOG (filter (\<lambda>cols. log_expired now (cols ! 1)) rows) (db s)\<rparr>))"

definition store_log_count :: "'d dl_engine \<Rightarrow> 'd Store \<Rightarrow> int" where
  "store_log_count E s =
     (case dl_prefix E (db s) REL_LOG [] of None \<Rightarrow> -1 | Some rows \<Rightarrow> int (length rows))"

record StoreLogEntry =
  log_msgid :: u32
  log_ts :: u32
  log_dir :: u32
  log_local :: string
  log_remote :: string
  log_status :: string

definition str_or_empty :: "'d dl_engine \<Rightarrow> 'd \<Rightarrow> u32 \<Rightarrow> string" where
  "str_or_empty E d i = (case dl_intern_str_of E d i of None \<Rightarrow> [] | Some s \<Rightarrow> s)"

definition store_log_recent :: "'d dl_engine \<Rightarrow> 'd Store \<Rightarrow> nat \<Rightarrow> StoreLogEntry list visage_result" where
  "store_log_recent E s mx =
     (case dl_prefix E (db s) REL_LOG [] of
        None \<Rightarrow> Inl VISAGE_ESTORE
      | Some rows \<Rightarrow>
          let total = length rows;
              want = (if total \<le> mx then total else mx);
              skip = total - want in
          Inr (map (\<lambda>r. \<lparr>log_msgid = r ! 0, log_ts = r ! 1, log_dir = r ! 2,
                        log_local = str_or_empty E (db s) (r ! 3),
                        log_remote = str_or_empty E (db s) (r ! 4),
                        log_status = str_or_empty E (db s) (r ! 5)\<rparr>) (drop skip rows)))"

section \<open>The delivery queue\<close>

definition store_queue_add :: "'d dl_engine \<Rightarrow> 'd Store \<Rightarrow> u32 \<Rightarrow> u32 \<Rightarrow> string \<Rightarrow> string \<Rightarrow> unit visage_result \<times> 'd Store" where
  "store_queue_add E s msgid k from to =
     (if to = [] then (Inl VISAGE_EPARAM, s)
      else case dl_intern_str E (db s) from of (c2, d1) \<Rightarrow>
           case dl_intern_str E d1 to of (c3, d2) \<Rightarrow>
           case dl_intern_str E d2 QUEUED of (c6, d3) \<Rightarrow>
             if c2 = 0 \<or> c3 = 0 \<or> c6 = 0 then (Inl VISAGE_ENOMEM, s\<lparr>db := d3\<rparr>)
             else case dl_add_fact E d3 REL_QUEUE [msgid, k, c2, c3, 0, 0, c6] of (ok, d') \<Rightarrow>
               if \<not> ok then (Inl VISAGE_ESTORE, s\<lparr>db := d'\<rparr>)
               else (Inr (), s\<lparr>db := d', next_due := 0, next_due_dirty := False\<rparr>))"

text \<open>The rows \<open>queue_read_cb\<close> keeps for one delivery: at most sixteen.\<close>

definition queue_rows :: "'d dl_engine \<Rightarrow> 'd \<Rightarrow> u32 \<Rightarrow> u32 \<Rightarrow> row list option" where
  "queue_rows E d msgid k = map_option (take QUEUE_SET_MAX_ROWS) (dl_prefix E d REL_QUEUE [msgid, k])"

text \<open>
  \<open>store_queue_set_status\<close>, with the databases a crash may leave. When the target row is already
  there, the other rows of the delivery are deleted; otherwise it is added first and the old rows
  are deleted afterwards.
\<close>

definition store_queue_set_status_trace ::
  "'d dl_engine \<Rightarrow> 'd Store \<Rightarrow> u32 \<Rightarrow> u32 \<Rightarrow> string \<Rightarrow> u32 \<Rightarrow> u32 \<Rightarrow> unit visage_result \<times> 'd Store \<times> 'd list" where
  "store_queue_set_status_trace E s msgid k status attempts next_ts =
     (if status = [] then (Inl VISAGE_EPARAM, s, [])
      else
        let s1 = s\<lparr>next_due_dirty := True\<rparr> in
        case dl_intern_str E (db s) status of (c6, d) \<Rightarrow>
        if c6 = 0 then (Inl VISAGE_ENOMEM, s1\<lparr>db := d\<rparr>, [])
        else case queue_rows E d msgid k of
          None \<Rightarrow> (Inl VISAGE_ESTORE, s1\<lparr>db := d\<rparr>, [])
        | Some [] \<Rightarrow> (Inl VISAGE_ESTORE, s1\<lparr>db := d\<rparr>, [])
        | Some (r0 # rs) \<Rightarrow>
            let rows = r0 # rs;
                nxt = [msgid, k, r0 ! 2, r0 ! 3, attempts, next_ts, c6] in
            if nxt \<in> set rows then
              let others = remove1 nxt rows in
              (Inr (), s1\<lparr>db := delete_rows E REL_QUEUE others d\<rparr>, delete_trace E REL_QUEUE others d)
            else case dl_add_fact E d REL_QUEUE nxt of (ok, d1) \<Rightarrow>
              if \<not> ok then (Inl VISAGE_ESTORE, s1\<lparr>db := d1\<rparr>, [d1])
              else (Inr (), s1\<lparr>db := delete_rows E REL_QUEUE rows d1\<rparr>, d1 # delete_trace E REL_QUEUE rows d1))"

definition store_queue_set_status ::
  "'d dl_engine \<Rightarrow> 'd Store \<Rightarrow> u32 \<Rightarrow> u32 \<Rightarrow> string \<Rightarrow> u32 \<Rightarrow> u32 \<Rightarrow> unit visage_result \<times> 'd Store" where
  "store_queue_set_status E s msgid k status attempts next_ts =
     (case store_queue_set_status_trace E s msgid k status attempts next_ts of (r, s', _) \<Rightarrow> (r, s'))"

definition store_queue_delete :: "'d dl_engine \<Rightarrow> 'd Store \<Rightarrow> u32 \<Rightarrow> u32 \<Rightarrow> unit visage_result \<times> 'd Store" where
  "store_queue_delete E s msgid k =
     (case queue_rows E (db s) msgid k of
        None \<Rightarrow> (Inl VISAGE_ESTORE, s)
      | Some rows \<Rightarrow> (Inr (), s\<lparr>db := delete_rows E REL_QUEUE rows (db s)\<rparr>))"

record QueueItem =
  qi_msgid :: u32
  qi_k :: u32
  qi_from :: string
  qi_to :: string
  qi_attempts :: u32

text \<open>
  The due walk: the rows that are queued and due are handed to the callback \<open>cb\<close>, which returns
  the new client state and whether to stop; a row that does not decode ends the walk with an error.
\<close>

fun queue_due_walk :: "'d dl_engine \<Rightarrow> 'd \<Rightarrow> u32 \<Rightarrow> u32 \<Rightarrow> ('u \<Rightarrow> QueueItem \<Rightarrow> 'u \<times> bool) \<Rightarrow> row list \<Rightarrow> 'u \<Rightarrow> bool \<times> 'u" where
  "queue_due_walk E d now queued_id cb [] u = (True, u)"
| "queue_due_walk E d now queued_id cb (c # cs) u =
     (if c ! 6 \<noteq> queued_id then queue_due_walk E d now queued_id cb cs u
      else if c ! 5 > now then queue_due_walk E d now queued_id cb cs u
      else case dl_intern_str_of E d (c ! 2) of None \<Rightarrow> (False, u) | Some from \<Rightarrow>
       (case dl_intern_str_of E d (c ! 3) of None \<Rightarrow> (False, u) | Some to \<Rightarrow>
        (case cb u \<lparr>qi_msgid = c ! 0, qi_k = c ! 1, qi_from = from, qi_to = to, qi_attempts = c ! 4\<rparr> of
           (u', stop) \<Rightarrow> if stop then (True, u') else queue_due_walk E d now queued_id cb cs u')))"

definition store_queue_due :: "'d dl_engine \<Rightarrow> 'd Store \<Rightarrow> u32 \<Rightarrow> ('u \<Rightarrow> QueueItem \<Rightarrow> 'u \<times> bool) \<Rightarrow> 'u \<Rightarrow> unit visage_result \<times> 'u \<times> 'd Store" where
  "store_queue_due E s now cb u =
     (case dl_intern_str E (db s) QUEUED of (queued_id, d) \<Rightarrow>
        if queued_id = 0 then (Inl VISAGE_ENOMEM, u, s\<lparr>db := d\<rparr>)
        else case dl_prefix E d REL_QUEUE [] of
          None \<Rightarrow> (Inl VISAGE_ESTORE, u, s\<lparr>db := d\<rparr>)
        | Some rows \<Rightarrow>
            (case queue_due_walk E d now queued_id cb rows u of (ok, u') \<Rightarrow>
               (if ok then Inr () else Inl VISAGE_ESTORE, u', s\<lparr>db := d\<rparr>)))"

definition store_queue_count_by_status :: "'d dl_engine \<Rightarrow> 'd Store \<Rightarrow> string \<Rightarrow> int \<times> 'd Store" where
  "store_queue_count_by_status E s status =
     (if status = [] then (-1, s)
      else case dl_intern_str E (db s) status of (sid, d) \<Rightarrow>
        if sid = 0 then (-1, s\<lparr>db := d\<rparr>)
        else case dl_prefix E d REL_QUEUE [] of
          None \<Rightarrow> (-1, s\<lparr>db := d\<rparr>)
        | Some rows \<Rightarrow> (int (length (filter (\<lambda>c. c ! 6 = sid) rows)), s\<lparr>db := d\<rparr>))"

fun reset_items :: "'d dl_engine \<Rightarrow> row list \<Rightarrow> 'd Store \<Rightarrow> unit visage_result \<times> 'd Store" where
  "reset_items E [] s = (Inr (), s)"
| "reset_items E (c # cs) s =
     (case store_queue_set_status E s (c ! 0) (c ! 1) QUEUED (c ! 4) 0 of
        (Inl e, s') \<Rightarrow> (Inl e, s')
      | (Inr _, s') \<Rightarrow> reset_items E cs s')"

definition store_queue_reset_delivering :: "'d dl_engine \<Rightarrow> 'd Store \<Rightarrow> unit visage_result \<times> 'd Store" where
  "store_queue_reset_delivering E s =
     (case dl_intern_str E (db s) DELIVERING of (did, d) \<Rightarrow>
        if did = 0 then (Inl VISAGE_ENOMEM, s\<lparr>db := d\<rparr>)
        else case dl_prefix E d REL_QUEUE [] of
          None \<Rightarrow> (Inl VISAGE_ESTORE, s\<lparr>db := d\<rparr>)
        | Some rows \<Rightarrow> reset_items E (filter (\<lambda>c. c ! 6 = did) rows) (s\<lparr>db := d\<rparr>))"

definition min_due :: "u32 \<Rightarrow> row list \<Rightarrow> u32" where
  "min_due queued_id rows =
     foldl (\<lambda>m c. if c ! 6 = queued_id \<and> c ! 5 < m then c ! 5 else m) UINT32_MAX rows"

definition store_queue_next_due :: "'d dl_engine \<Rightarrow> 'd Store \<Rightarrow> u32 \<times> 'd Store" where
  "store_queue_next_due E s =
     (if \<not> next_due_dirty s then (next_due s, s)
      else case dl_intern_str E (db s) QUEUED of (queued_id, d) \<Rightarrow>
        if queued_id = 0 then (UINT32_MAX, s\<lparr>db := d\<rparr>)
        else case dl_prefix E d REL_QUEUE [] of
          None \<Rightarrow> (UINT32_MAX, s\<lparr>db := d\<rparr>)
        | Some rows \<Rightarrow>
            let m = min_due queued_id rows in
            (m, s\<lparr>db := d, next_due := m, next_due_dirty := False\<rparr>))"

definition active_status :: "string \<Rightarrow> bool" where
  "active_status st \<longleftrightarrow> st = QUEUED \<or> st = DELIVERING"

fun find_active :: "'d dl_engine \<Rightarrow> 'd \<Rightarrow> row list \<Rightarrow> string option" where
  "find_active E d [] = None"
| "find_active E d (c # cs) =
     (case dl_intern_str_of E d (c ! 6) of
        None \<Rightarrow> find_active E d cs
      | Some st \<Rightarrow> if active_status st then Some st else find_active E d cs)"

definition store_queue_status :: "'d dl_engine \<Rightarrow> 'd Store \<Rightarrow> u32 \<Rightarrow> u32 \<Rightarrow> nat \<Rightarrow> string visage_result" where
  "store_queue_status E s msgid k sz =
     (if sz = 0 then Inl VISAGE_EPARAM
      else case queue_rows E (db s) msgid k of
        None \<Rightarrow> Inl VISAGE_ESTORE
      | Some [] \<Rightarrow> Inl VISAGE_ESTORE
      | Some (r0 # rs) \<Rightarrow>
          (case find_active E (db s) (r0 # rs) of
             Some st \<Rightarrow> if length st + 1 > sz then Inl VISAGE_ESTORE else Inr st
           | None \<Rightarrow>
               (case dl_intern_str_of E (db s) (r0 ! 6) of
                  None \<Rightarrow> Inl VISAGE_ESTORE
                | Some st \<Rightarrow> if length st + 1 > sz then Inl VISAGE_ESTORE else Inr st)))"

fun queue_msgid_walk :: "'d dl_engine \<Rightarrow> 'd \<Rightarrow> ('u \<Rightarrow> u32 \<Rightarrow> string \<Rightarrow> string \<Rightarrow> string \<Rightarrow> 'u \<times> bool) \<Rightarrow> row list \<Rightarrow> 'u \<Rightarrow> bool \<times> 'u" where
  "queue_msgid_walk E d cb [] u = (True, u)"
| "queue_msgid_walk E d cb (c # cs) u =
     (case dl_intern_str_of E d (c ! 2) of None \<Rightarrow> (False, u) | Some from \<Rightarrow>
     (case dl_intern_str_of E d (c ! 3) of None \<Rightarrow> (False, u) | Some to \<Rightarrow>
     (case dl_intern_str_of E d (c ! 6) of None \<Rightarrow> (False, u) | Some st \<Rightarrow>
     (case cb u (c ! 1) from to st of (u', stop) \<Rightarrow>
        if stop then (True, u') else queue_msgid_walk E d cb cs u'))))"

definition store_queue_walk_msgid :: "'d dl_engine \<Rightarrow> 'd Store \<Rightarrow> u32 \<Rightarrow> ('u \<Rightarrow> u32 \<Rightarrow> string \<Rightarrow> string \<Rightarrow> string \<Rightarrow> 'u \<times> bool) \<Rightarrow> 'u \<Rightarrow> unit visage_result \<times> 'u" where
  "store_queue_walk_msgid E s msgid cb u =
     (case dl_prefix E (db s) REL_QUEUE [msgid] of
        None \<Rightarrow> (Inl VISAGE_ESTORE, u)
      | Some rows \<Rightarrow>
          (case queue_msgid_walk E (db s) cb rows u of (ok, u') \<Rightarrow>
             (if ok then Inr () else Inl VISAGE_ENOMEM, u')))"

end
