(* ===== verification/Store_Engine.thy ===== *)
theory Store_Engine
  imports Store_Model
begin

text \<open>
  What the store relies on of the datalog engine, as an interface: an append-only interner whose
  ids are unique, and relations of fixed arity with single-row insertion and deletion. An insertion that
  reports failure has not happened; of a deletion nothing is assumed when it reports failure, since
  the store ignores the results of its deletions. The theory also gives a reference implementation of the interface, an interner with an
  explicit list of facts, which the examples of the other theories run on.
\<close>

section \<open>The interface\<close>

locale dl_provider =
  fixes E :: "'d dl_engine" and facts :: "'d \<Rightarrow> rel \<Rightarrow> row set"
  assumes intern_facts: "dl_intern_str E d w = (i, d') \<Longrightarrow> facts d' = facts d"
    and intern_mono: "dl_intern_str E d w = (i, d') \<Longrightarrow> dl_intern_str_of E d j = Some t \<Longrightarrow> dl_intern_str_of E d' j = Some t"
    and intern_result: "dl_intern_str E d w = (i, d') \<Longrightarrow> i \<noteq> 0 \<Longrightarrow> dl_intern_str_of E d' i = Some w"
    and intern_unique: "dl_intern_str_of E d i = Some t \<Longrightarrow> dl_intern_str_of E d j = Some t \<Longrightarrow> i = j"
    and add_syms: "dl_add_fact E d r x = (ok, d') \<Longrightarrow> dl_intern_str_of E d' = dl_intern_str_of E d"
    and add_other: "dl_add_fact E d r x = (ok, d') \<Longrightarrow> r' \<noteq> r \<Longrightarrow> facts d' r' = facts d r'"
    and add_done: "dl_add_fact E d r x = (True, d') \<Longrightarrow> facts d' r = insert x (facts d r)"
    and add_failed: "dl_add_fact E d r x = (False, d') \<Longrightarrow> facts d' r = facts d r"
    and delete_syms: "dl_delete_fact E d r x = (ok, d') \<Longrightarrow> dl_intern_str_of E d' = dl_intern_str_of E d"
    and delete_other: "dl_delete_fact E d r x = (ok, d') \<Longrightarrow> r' \<noteq> r \<Longrightarrow> facts d' r' = facts d r'"
    and delete_bounds: "dl_delete_fact E d r x = (ok, d') \<Longrightarrow> facts d r - {x} \<subseteq> facts d' r \<and> facts d' r \<subseteq> facts d r"
    and delete_done: "dl_delete_fact E d r x = (True, d') \<Longrightarrow> x \<notin> facts d' r"
    and prefix_rows: "dl_prefix E d r p = Some rows \<Longrightarrow>
      distinct rows \<and> set rows = {x \<in> facts d r. take (length p) x = p}"
    and arity: "x \<in> facts d r \<Longrightarrow> length x = rel_arity r"
begin

lemma add_bounds: "dl_add_fact E d r x = (ok, d') \<Longrightarrow> facts d r \<subseteq> facts d' r \<and> facts d' r \<subseteq> insert x (facts d r)"
  by (cases ok) (auto simp: add_done add_failed)

lemma delete_exact: "dl_delete_fact E d r x = (True, d') \<Longrightarrow> facts d' r = facts d r - {x}"
  using delete_bounds delete_done by blast

lemma delete_step:
  "facts d r - {x} \<subseteq> facts (snd (dl_delete_fact E d r x)) r \<and> facts (snd (dl_delete_fact E d r x)) r \<subseteq> facts d r"
  "r' \<noteq> r \<Longrightarrow> facts (snd (dl_delete_fact E d r x)) r' = facts d r'"
  "dl_intern_str_of E (snd (dl_delete_fact E d r x)) = dl_intern_str_of E d"
  using delete_bounds delete_other delete_syms by (metis prod.collapse)+

lemma delete_rows_bounds:
  "facts d r - set xs \<subseteq> facts (delete_rows E r xs d) r \<and> facts (delete_rows E r xs d) r \<subseteq> facts d r"
proof (induction xs arbitrary: d)
  case (Cons x xs)
  from Cons [of "snd (dl_delete_fact E d r x)"] delete_step(1) [of d r x] show ?case by auto
qed simp

lemma delete_rows_other: "r' \<noteq> r \<Longrightarrow> facts (delete_rows E r xs d) r' = facts d r'"
  by (induction xs arbitrary: d) (simp_all add: delete_step(2))

lemma delete_rows_syms: "dl_intern_str_of E (delete_rows E r xs d) = dl_intern_str_of E d"
  by (induction xs arbitrary: d) (simp_all add: delete_step(3))

lemma delete_trace_bounds:
  "d' \<in> set (delete_trace E r xs d) \<Longrightarrow> facts d r - set xs \<subseteq> facts d' r \<and> facts d' r \<subseteq> facts d r"
proof (induction xs arbitrary: d)
  case (Cons x xs)
  from Cons.IH [of "snd (dl_delete_fact E d r x)"] Cons.prems delete_step(1) [of d r x] show ?case
    by (auto simp: Let_def)
qed simp

lemma delete_trace_syms: "d' \<in> set (delete_trace E r xs d) \<Longrightarrow> dl_intern_str_of E d' = dl_intern_str_of E d"
proof (induction xs arbitrary: d)
  case (Cons x xs)
  from Cons.IH [of "snd (dl_delete_fact E d r x)"] Cons.prems delete_step(3) [of d r x] show ?case
    by (auto simp: Let_def)
qed simp

lemma delete_trace_last: "xs \<noteq> [] \<Longrightarrow> last (delete_trace E r xs d) = delete_rows E r xs d"
proof (induction xs arbitrary: d)
  case (Cons x xs)
  then show ?case by (cases xs) (simp_all add: Let_def)
qed simp

lemma queue_rows_facts:
  assumes "queue_rows E d m k = Some rows"
  shows "distinct rows \<and> (\<forall>x \<in> set rows. x \<in> facts d REL_QUEUE \<and> take 2 x = [m, k])"
proof -
  obtain all where a: "dl_prefix E d REL_QUEUE [m, k] = Some all" "rows = take QUEUE_SET_MAX_ROWS all"
    using assms by (auto simp: queue_rows_def)
  then show ?thesis using prefix_rows [OF a(1)] by (auto simp: numeral_2_eq_2 dest: in_set_takeD)
qed

lemma intern2_mono: "dl_intern_str E d x = (i, d1) \<Longrightarrow> dl_intern_str E d1 y = (j, d2) \<Longrightarrow> i \<noteq> 0 \<Longrightarrow> dl_intern_str_of E d2 i = Some x"
  using intern_result intern_mono by blast

end

section \<open>A reference engine\<close>

record ref_db =
  syms :: "string list"
  rows_of :: "(rel \<times> row) list"

definition ref_lookup :: "string list \<Rightarrow> string \<Rightarrow> nat option" where
  "ref_lookup xs x = (let n = length (takeWhile (\<lambda>y. y \<noteq> x) xs) in if n < length xs then Some n else None)"

definition ref_str_of :: "ref_db \<Rightarrow> u32 \<Rightarrow> string option" where
  "ref_str_of d i =
     (if i = 0 \<or> unat i > length (syms d) then None
      else
        let t = syms d ! (unat i - 1) in
        if ref_lookup (syms d) t = Some (unat i - 1) then Some t else None)"

definition ref_intern :: "ref_db \<Rightarrow> string \<Rightarrow> u32 \<times> ref_db" where
  "ref_intern d x =
     (case ref_lookup (syms d) x of
        Some n \<Rightarrow> if int n + 1 \<le> 4294967295 then (of_nat (n + 1), d) else (0, d)
      | None \<Rightarrow>
          if int (length (syms d)) + 1 \<le> 4294967295
          then (of_nat (length (syms d) + 1), d\<lparr>syms := syms d @ [x]\<rparr>) else (0, d))"

definition ref_facts :: "ref_db \<Rightarrow> rel \<Rightarrow> row set" where
  "ref_facts d r = set (filter (\<lambda>x. length x = rel_arity r) (map snd (filter (\<lambda>p. fst p = r) (rows_of d))))"

definition ref_add :: "ref_db \<Rightarrow> rel \<Rightarrow> row \<Rightarrow> bool \<times> ref_db" where
  "ref_add d r x =
     (if length x \<noteq> rel_arity r then (False, d)
      else if (r, x) \<in> set (rows_of d) then (True, d)
      else (True, d\<lparr>rows_of := rows_of d @ [(r, x)]\<rparr>))"

definition ref_delete :: "ref_db \<Rightarrow> rel \<Rightarrow> row \<Rightarrow> bool \<times> ref_db" where
  "ref_delete d r x = (True, d\<lparr>rows_of := filter (\<lambda>p. p \<noteq> (r, x)) (rows_of d)\<rparr>)"

definition ref_prefix :: "ref_db \<Rightarrow> rel \<Rightarrow> row \<Rightarrow> row list option" where
  "ref_prefix d r p =
     Some (filter (\<lambda>x. take (length p) x = p)
       (remdups (filter (\<lambda>x. length x = rel_arity r) (map snd (filter (\<lambda>q. fst q = r) (rows_of d))))))"

definition ref_engine :: "ref_db dl_engine" where
  "ref_engine =
     \<lparr>dl_open = (\<lambda>path. Some \<lparr>syms = [], rows_of = []\<rparr>),
      dl_declare_relation = (\<lambda>d r n. (n = rel_arity r, d)),
      dl_intern_str = ref_intern, dl_intern_str_of = ref_str_of,
      dl_add_fact = ref_add, dl_delete_fact = ref_delete,
      dl_load_facts = (\<lambda>d r path. (False, d)), dl_prefix = ref_prefix\<rparr>"

definition ref_store :: "ref_db Store" where
  "ref_store = \<lparr>db = \<lparr>syms = [], rows_of = []\<rparr>, next_due = UINT32_MAX, next_due_dirty = True\<rparr>"

lemma ref_lookup_Some: "ref_lookup xs x = Some n \<Longrightarrow> n < length xs \<and> xs ! n = x \<and> x \<in> set xs"
proof -
  assume a: "ref_lookup xs x = Some n"
  then have n: "n = length (takeWhile (\<lambda>y. y \<noteq> x) xs)" "n < length xs" by (auto simp: ref_lookup_def Let_def split: if_splits)
  then have "xs ! n = x" using nth_length_takeWhile [of "\<lambda>y. y \<noteq> x" xs] by auto
  then show ?thesis using n(2) nth_mem by fastforce
qed

lemma ref_lookup_None: "ref_lookup xs x = None \<longleftrightarrow> x \<notin> set xs"
proof
  assume "ref_lookup xs x = None"
  then have "length (takeWhile (\<lambda>y. y \<noteq> x) xs) \<ge> length xs" by (auto simp: ref_lookup_def Let_def split: if_splits)
  then have "takeWhile (\<lambda>y. y \<noteq> x) xs = xs" by (metis length_takeWhile_le order_antisym takeWhile_eq_take take_all)
  then show "x \<notin> set xs" by (metis (mono_tags, lifting) takeWhile_eq_all_conv)
next
  assume "x \<notin> set xs"
  then show "ref_lookup xs x = None" using ref_lookup_Some [of xs x] by (cases "ref_lookup xs x") auto
qed

lemma ref_lookup_append: "ref_lookup xs x = Some n \<Longrightarrow> ref_lookup (xs @ ys) x = Some n"
proof -
  assume a: "ref_lookup xs x = Some n"
  then have "x \<in> set xs" using ref_lookup_Some by fast
  then have "takeWhile (\<lambda>y. y \<noteq> x) (xs @ ys) = takeWhile (\<lambda>y. y \<noteq> x) xs" by (intro takeWhile_append1) auto
  then show ?thesis using a by (auto simp: ref_lookup_def Let_def split: if_splits)
qed

lemma ref_lookup_snoc: "x \<notin> set xs \<Longrightarrow> ref_lookup (xs @ [x]) x = Some (length xs)"
proof -
  assume "x \<notin> set xs"
  then have "takeWhile (\<lambda>y. y \<noteq> x) (xs @ [x]) = xs" by (subst takeWhile_append2) auto
  then show ?thesis by (simp add: ref_lookup_def Let_def)
qed

lemma ref_str_of_Some:
  "ref_str_of d i = Some t \<longleftrightarrow> i \<noteq> 0 \<and> unat i \<le> length (syms d) \<and> ref_lookup (syms d) t = Some (unat i - 1)"
  using ref_lookup_Some [of "syms d" t "unat i - 1"] by (auto simp: ref_str_of_def Let_def split: if_splits)

lemma ref_intern_cases:
  assumes "ref_intern d w = (i, d')"
  obtains (fail) "i = 0" "d' = d"
  | (old) n where "ref_lookup (syms d) w = Some n" "i = of_nat (n + 1)" "unat i = n + 1" "d' = d"
  | (new) "w \<notin> set (syms d)" "unat i = length (syms d) + 1" "i \<noteq> 0" "d' = d\<lparr>syms := syms d @ [w]\<rparr>"
proof (cases "ref_lookup (syms d) w")
  case None
  show ?thesis
  proof (cases "int (length (syms d)) + 1 \<le> 4294967295")
    case True
    then have u: "unat (of_nat (length (syms d) + 1) :: u32) = length (syms d) + 1" by (intro u32_of_nat) linarith
    have i: "i = of_nat (length (syms d) + 1)" "d' = d\<lparr>syms := syms d @ [w]\<rparr>"
      using None True assms by (simp_all add: ref_intern_def)
    have "unat i \<noteq> 0" unfolding i(1) u by simp
    then have "i \<noteq> 0" by auto
    then show ?thesis using new u i None by (simp add: ref_lookup_None)
  next
    case False
    then show ?thesis using fail None assms by (simp add: ref_intern_def)
  qed
next
  case (Some n)
  show ?thesis
  proof (cases "int n + 1 \<le> 4294967295")
    case True
    then have u: "unat (of_nat (n + 1) :: u32) = n + 1" by (intro u32_of_nat) linarith
    have "i = of_nat (n + 1)" "d' = d" using Some True assms by (simp_all add: ref_intern_def)
    then show ?thesis using old [OF Some] u by simp
  next
    case False
    then show ?thesis using fail Some assms by (simp add: ref_intern_def)
  qed
qed

lemma ref_facts_iff: "x \<in> ref_facts d r \<longleftrightarrow> (r, x) \<in> set (rows_of d) \<and> length x = rel_arity r"
  by (force simp: ref_facts_def)

lemma ref_str_of_rows [simp]: "ref_str_of (d\<lparr>rows_of := y\<rparr>) = ref_str_of d"
  by (rule ext) (simp add: ref_str_of_def)

lemma ref_prefix_set: "set (the (ref_prefix d r p)) = {x \<in> ref_facts d r. take (length p) x = p}"
  by (auto simp: ref_prefix_def ref_facts_def)

interpretation ref: dl_provider ref_engine ref_facts
proof
  fix d d' :: ref_db and w t i j
  assume "dl_intern_str ref_engine d w = (i, d')"
  then have a: "ref_intern d w = (i, d')" by (simp add: ref_engine_def)
  then show "ref_facts d' = ref_facts d" by (cases rule: ref_intern_cases) (auto simp: ref_facts_def)
  show "dl_intern_str_of ref_engine d' j = Some t" if "dl_intern_str_of ref_engine d j = Some t"
    using a that by (cases rule: ref_intern_cases) (auto simp: ref_engine_def ref_str_of_Some ref_lookup_append)
  show "dl_intern_str_of ref_engine d' i = Some w" if "i \<noteq> 0"
    using a
  proof (cases rule: ref_intern_cases)
    case (old n)
    then show ?thesis using that ref_lookup_Some [of "syms d" w n] by (auto simp: ref_engine_def ref_str_of_Some)
  next
    case new
    then show ?thesis by (auto simp: ref_engine_def ref_str_of_Some ref_lookup_snoc)
  qed (use that in simp)
next
  fix d :: ref_db and i j t
  assume "dl_intern_str_of ref_engine d i = Some t" "dl_intern_str_of ref_engine d j = Some t"
  then have "unat i - 1 = unat j - 1" "i \<noteq> 0" "j \<noteq> 0" by (auto simp: ref_engine_def ref_str_of_Some)
  then have "unat i = unat j" using unat_eq_zero by (metis One_nat_def Suc_pred not_gr_zero)
  then show "i = j" by (rule unsigned_word_eqI)
next
  fix d and r :: rel and p rows
  assume "dl_prefix ref_engine d r p = Some rows"
  then have "ref_prefix d r p = Some rows" by (simp add: ref_engine_def)
  then show "distinct rows \<and> set rows = {x \<in> ref_facts d r. take (length p) x = p}"
    using ref_prefix_set [of d r p] by (auto simp: ref_prefix_def)
qed (auto simp: ref_engine_def ref_add_def ref_delete_def ref_facts_iff set_eq_iff split: if_splits)

end
