(* ===== verification/Store_Invariant.thy ===== *)
theory Store_Invariant
  imports Store_Engine
begin

text \<open>
  The invariant of the store and its preservation by every operation: all symbol columns decode,
  and the cached soonest due time never lies after the due time of a queued delivery. It is proved
  from the engine interface and packaged as a \<open>stepwise\<close> component.
\<close>

section \<open>The invariant\<close>

fun sym_cols :: "rel \<Rightarrow> nat list" where
  "sym_cols REL_DOMAIN = [0]"
| "sym_cols REL_ALIAS = [0, 1, 2]"
| "sym_cols REL_REVMAP = [0, 1, 2]"
| "sym_cols REL_LOG = [3, 4, 5]"
| "sym_cols REL_META = [0]"
| "sym_cols REL_QUEUE = [2, 3, 6]"

definition db_wf :: "'d dl_engine \<Rightarrow> ('d \<Rightarrow> rel \<Rightarrow> row set) \<Rightarrow> 'd \<Rightarrow> bool" where
  "db_wf E F d \<longleftrightarrow> (\<forall>r. \<forall>x \<in> F d r. \<forall>c \<in> set (sym_cols r). dl_intern_str_of E d (x ! c) \<noteq> None)"

definition queued_row :: "'d dl_engine \<Rightarrow> 'd \<Rightarrow> row \<Rightarrow> bool" where
  "queued_row E d x \<longleftrightarrow> dl_intern_str_of E d (x ! 6) = Some QUEUED"

definition due_cache_ok :: "'d dl_engine \<Rightarrow> ('d \<Rightarrow> rel \<Rightarrow> row set) \<Rightarrow> 'd Store \<Rightarrow> bool" where
  "due_cache_ok E F s \<longleftrightarrow> next_due_dirty s \<or>
     (\<forall>x \<in> F (db s) REL_QUEUE. queued_row E (db s) x \<longrightarrow> next_due s \<le> x ! 5)"

definition store_inv :: "'d dl_engine \<Rightarrow> ('d \<Rightarrow> rel \<Rightarrow> row set) \<Rightarrow> 'd Store \<Rightarrow> bool" where
  "store_inv E F s \<longleftrightarrow> db_wf E F (db s) \<and> due_cache_ok E F s"

text \<open>Every operation as an event. The results are ignored, the store changes.\<close>

datatype store_op =
    Op_alias_add string string
  | Op_alias_rm string string
  | Op_seed Config
  | Op_resolve string
  | Op_revmap_add string string string u32
  | Op_revmap_expire u32
  | Op_revmap_resolve u32 string
  | Op_next_msgid
  | Op_log_add u32 u32 u32 string string string
  | Op_log_expire u32
  | Op_queue_add u32 u32 string string
  | Op_queue_set_status u32 u32 string u32 u32
  | Op_queue_delete u32 u32
  | Op_queue_due u32
  | Op_queue_count string
  | Op_queue_reset
  | Op_queue_next_due

fun store_step :: "'d dl_engine \<Rightarrow> 'd Store \<Rightarrow> store_op \<Rightarrow> 'd Store" where
  "store_step E s (Op_alias_add a d) = snd (store_alias_add E s a d)"
| "store_step E s (Op_alias_rm a d) = snd (store_alias_rm E s a d)"
| "store_step E s (Op_seed cfg) = snd (store_seed_aliases E s cfg)"
| "store_step E s (Op_resolve a) = snd (store_resolve E s a)"
| "store_step E s (Op_revmap_add t f a ts) = snd (store_revmap_add E ts s t f a)"
| "store_step E s (Op_revmap_expire now) = snd (store_revmap_expire E s now)"
| "store_step E s (Op_revmap_resolve now t) = snd (store_revmap_resolve E now s t)"
| "store_step E s Op_next_msgid = snd (store_next_msgid E s)"
| "store_step E s (Op_log_add m ts dr l r st) = snd (store_log_add E s m ts dr l r st)"
| "store_step E s (Op_log_expire now) = snd (store_log_expire E s now)"
| "store_step E s (Op_queue_add m k f t) = snd (store_queue_add E s m k f t)"
| "store_step E s (Op_queue_set_status m k st a ts) = snd (store_queue_set_status E s m k st a ts)"
| "store_step E s (Op_queue_delete m k) = snd (store_queue_delete E s m k)"
| "store_step E s (Op_queue_due now) = snd (snd (store_queue_due E s now (\<lambda>u i. (u, False)) ()))"
| "store_step E s (Op_queue_count st) = snd (store_queue_count_by_status E s st)"
| "store_step E s Op_queue_reset = snd (store_queue_reset_delivering E s)"
| "store_step E s Op_queue_next_due = snd (store_queue_next_due E s)"

section \<open>Preservation\<close>

lemma db_wfD: "db_wf E F d \<Longrightarrow> x \<in> F d r \<Longrightarrow> c \<in> set (sym_cols r) \<Longrightarrow> \<exists>t. dl_intern_str_of E d (x ! c) = Some t"
  by (auto simp: db_wf_def)

context dl_provider
begin

abbreviation wf :: "'d \<Rightarrow> bool" where "wf \<equiv> db_wf E facts"
abbreviation inv :: "'d Store \<Rightarrow> bool" where "inv \<equiv> store_inv E facts"

lemma intern_wf: "dl_intern_str E d w = (i, d') \<Longrightarrow> wf d \<Longrightarrow> wf d'"
  unfolding db_wf_def by (metis intern_facts intern_mono not_None_eq)

lemma add_wf:
  assumes "dl_add_fact E d r x = (ok, d')" "wf d" "\<forall>c \<in> set (sym_cols r). dl_intern_str_of E d (x ! c) \<noteq> None"
  shows "wf d'"
  unfolding db_wf_def
proof (intro allI ballI)
  fix r' y c
  assume y: "y \<in> facts d' r'" and c: "c \<in> set (sym_cols r')"
  have "y \<in> facts d r' \<or> r' = r \<and> y = x" using y add_other [OF assms(1)] add_bounds [OF assms(1)] by (cases "r' = r") auto
  then have "dl_intern_str_of E d (y ! c) \<noteq> None" using assms(2,3) c unfolding db_wf_def by blast
  then show "dl_intern_str_of E d' (y ! c) \<noteq> None" using add_syms [OF assms(1)] by simp
qed

lemma subset_wf: "wf d \<Longrightarrow> (\<And>r. facts d' r \<subseteq> facts d r) \<Longrightarrow> dl_intern_str_of E d' = dl_intern_str_of E d \<Longrightarrow> wf d'"
  unfolding db_wf_def by (metis in_mono)

lemma delete_rows_subset: "facts (delete_rows E r xs d) r' \<subseteq> facts d r'"
  using delete_rows_bounds delete_rows_other by (cases "r' = r") auto

lemma delete_rows_wf: "wf d \<Longrightarrow> wf (delete_rows E r xs d)"
  by (erule subset_wf) (rule delete_rows_subset, rule delete_rows_syms)

lemma delete_wf: "dl_delete_fact E d r x = (ok, d') \<Longrightarrow> wf d \<Longrightarrow> wf d'"
  using delete_rows_wf [of d r "[x]"] by simp

text \<open>The cache: it stays sound when no queued row appears.\<close>

lemma inv_db:
  assumes "inv s" "wf d'" "facts d' REL_QUEUE \<subseteq> facts (db s) REL_QUEUE"
    and "\<And>j t. dl_intern_str_of E (db s) j = Some t \<Longrightarrow> dl_intern_str_of E d' j = Some t"
  shows "inv (s\<lparr>db := d'\<rparr>)"
proof -
  have "queued_row E (db s) x" if q: "x \<in> facts d' REL_QUEUE" "queued_row E d' x" for x
  proof -
    obtain t where t: "dl_intern_str_of E (db s) (x ! 6) = Some t"
      using db_wfD [of E facts "db s" x REL_QUEUE 6] assms(1) subsetD [OF assms(3) q(1)] by (auto simp: store_inv_def)
    from assms(4) [OF t] q(2) t show ?thesis by (simp add: queued_row_def)
  qed
  then show ?thesis using assms(1-3) unfolding store_inv_def due_cache_ok_def by auto
qed

lemma inv_dirty: "inv s \<Longrightarrow> inv (s\<lparr>next_due_dirty := True\<rparr>)"
  by (simp add: store_inv_def due_cache_ok_def)

lemma inv_wf: "inv s \<Longrightarrow> wf (db s)"
  by (simp add: store_inv_def)

lemma wf_dirty: "wf (db s) \<Longrightarrow> next_due_dirty s \<Longrightarrow> inv s"
  by (simp add: store_inv_def due_cache_ok_def)

lemma inv_intern: "inv s \<Longrightarrow> dl_intern_str E (db s) w = (i, d) \<Longrightarrow> inv (s\<lparr>db := d\<rparr>)"
  by (rule inv_db) (auto dest: intern_wf inv_wf intern_mono simp: intern_facts)

lemma inv_add:
  assumes "inv s" "dl_add_fact E (db s) r x = (ok, d')" "r \<noteq> REL_QUEUE"
    and "\<forall>c \<in> set (sym_cols r). dl_intern_str_of E (db s) (x ! c) \<noteq> None"
  shows "inv (s\<lparr>db := d'\<rparr>)"
proof (rule inv_db [OF assms(1)])
  show "wf d'" using add_wf [OF assms(2) _ assms(4)] inv_wf [OF assms(1)] by blast
  show "facts d' REL_QUEUE \<subseteq> facts (db s) REL_QUEUE" using add_other [OF assms(2), of REL_QUEUE] assms(3) by auto
  show "\<And>j t. dl_intern_str_of E (db s) j = Some t \<Longrightarrow> dl_intern_str_of E d' j = Some t"
    using add_syms [OF assms(2)] by simp
qed

lemma inv_delete_rows: "inv s \<Longrightarrow> inv (s\<lparr>db := delete_rows E r xs (db s)\<rparr>)"
  by (rule inv_db) (auto simp: delete_rows_wf inv_wf delete_rows_syms delete_rows_subset [THEN subsetD])

lemma inv_delete:
  assumes "inv s" "dl_delete_fact E (db s) r x = (ok, d')"
  shows "inv (s\<lparr>db := d'\<rparr>)"
  using inv_delete_rows [OF assms(1), of r "[x]"] assms(2) by simp

text \<open>Several interned columns in a row.\<close>

lemma store_db_twice [simp]: "s\<lparr>db := d, db := d'\<rparr> = s\<lparr>db := d'\<rparr>" for s :: "'d Store"
  by simp

lemma intern3:
  assumes "dl_intern_str E d a = (i, d1)" "dl_intern_str E d1 b = (j, d2)" "dl_intern_str E d2 c = (k, d3)"
    and "i \<noteq> 0" "j \<noteq> 0" "k \<noteq> 0"
  shows "dl_intern_str_of E d3 i = Some a \<and> dl_intern_str_of E d3 j = Some b \<and> dl_intern_str_of E d3 k = Some c"
  using assms intern_result intern_mono by blast

lemma inv_intern3:
  assumes "inv s" "dl_intern_str E (db s) a = (i, d1)" "dl_intern_str E d1 b = (j, d2)" "dl_intern_str E d2 c = (k, d3)"
  shows "inv (s\<lparr>db := d3\<rparr>)"
  using inv_intern [OF assms(1,2)] inv_intern [of "s\<lparr>db := d1\<rparr>" b j d2] inv_intern [of "s\<lparr>db := d2\<rparr>" c k d3] assms(3,4) by simp

lemma inv_intern2:
  assumes "inv s" "dl_intern_str E (db s) a = (i, d1)" "dl_intern_str E d1 b = (j, d2)"
  shows "inv (s\<lparr>db := d2\<rparr>)"
  using inv_intern [OF assms(1,2)] inv_intern [of "s\<lparr>db := d1\<rparr>" b j d2] assms(3) by simp

lemma alias_row_spec:
  assumes "alias_row E d dm lc dst = (r, d')"
  shows "facts d' = facts d \<and> (\<forall>j t. dl_intern_str_of E d j = Some t \<longrightarrow> dl_intern_str_of E d' j = Some t) \<and>
    (\<forall>cols. r = Some cols \<longrightarrow> (\<exists>a b c. cols = [a, b, c] \<and> dl_intern_str_of E d' a = Some dm \<and>
       dl_intern_str_of E d' b = Some lc \<and> dl_intern_str_of E d' c = Some dst)) \<and>
    (wf d \<longrightarrow> wf d')"
proof -
  obtain i d1 j d2 k d3 where i: "dl_intern_str E d dm = (i, d1)" "dl_intern_str E d1 lc = (j, d2)" "dl_intern_str E d2 dst = (k, d3)"
    by (metis prod.exhaust)
  have d': "d' = d3" using assms i by (auto simp: alias_row_def split: if_splits)
  have "facts d3 = facts d" using i intern_facts by metis
  moreover have "\<forall>jj t. dl_intern_str_of E d jj = Some t \<longrightarrow> dl_intern_str_of E d3 jj = Some t" using i intern_mono by blast
  moreover have "wf d \<longrightarrow> wf d3" using i intern_wf by blast
  moreover have "\<forall>cols. r = Some cols \<longrightarrow> cols = [i, j, k] \<and> i \<noteq> 0 \<and> j \<noteq> 0 \<and> k \<noteq> 0"
    using assms i by (auto simp: alias_row_def split: if_splits)
  ultimately show ?thesis using d' intern3 [OF i] by blast
qed

lemma alias_add_inv: "inv s \<Longrightarrow> inv (snd (alias_add_impl E s alias dest))"
proof (cases "alias = [] \<or> dest = []")
  case False
  assume I: "inv s"
  show ?thesis
  proof (cases "split_addr alias")
    case (Inr p)
    obtain lc dm where p: "p = (lc, dm)" by (cases p)
    obtain r d where r: "alias_row E (db s) dm lc dest = (r, d)" by (cases "alias_row E (db s) dm lc dest")
    note ar = alias_row_spec [OF r]
    have I1: "inv (s\<lparr>db := d\<rparr>)" using ar I by (intro inv_db [OF I]) (auto dest: inv_wf)
    show ?thesis
    proof (cases r)
      case (Some cols)
      obtain ok d' where a: "dl_add_fact E d REL_ALIAS cols = (ok, d')" by (cases "dl_add_fact E d REL_ALIAS cols")
      have "inv ((s\<lparr>db := d\<rparr>)\<lparr>db := d'\<rparr>)" using a ar Some by (intro inv_add [OF I1, of REL_ALIAS cols ok]) auto
      then show ?thesis using False Inr p r Some a by (simp add: alias_add_impl_def)
    qed (use False Inr p r I1 in \<open>simp add: alias_add_impl_def\<close>)
  qed (use False I in \<open>simp add: alias_add_impl_def\<close>)
qed (simp add: alias_add_impl_def)

lemma alias_rm_inv: "inv s \<Longrightarrow> inv (snd (store_alias_rm E s alias dest))"
proof (cases "split_addr alias")
  case (Inr p)
  assume I: "inv s"
  obtain lc dm where p: "p = (lc, dm)" by (cases p)
  obtain r d where r: "alias_row E (db s) dm lc dest = (r, d)" by (cases "alias_row E (db s) dm lc dest")
  note ar = alias_row_spec [OF r]
  have I1: "inv (s\<lparr>db := d\<rparr>)" using ar I by (intro inv_db [OF I]) (auto dest: inv_wf)
  show ?thesis
  proof (cases r)
    case (Some cols)
    obtain ok d' where a: "dl_delete_fact E d REL_ALIAS cols = (ok, d')" by (cases "dl_delete_fact E d REL_ALIAS cols")
    have "inv ((s\<lparr>db := d\<rparr>)\<lparr>db := d'\<rparr>)" using a by (intro inv_delete [OF I1, of REL_ALIAS cols ok]) simp
    then show ?thesis using Inr p r Some a by (simp add: store_alias_rm_def)
  qed (use Inr p r I1 in \<open>simp add: store_alias_rm_def\<close>)
qed (simp add: store_alias_rm_def)

lemma seed_domains_inv: "inv s \<Longrightarrow> inv (snd (seed_domains E xs s))"
proof (induction xs arbitrary: s)
  case (Cons x xs)
  show ?case
  proof (cases "x = []")
    case False
    obtain i d where i: "dl_intern_str E (db s) x = (i, d)" by (cases "dl_intern_str E (db s) x")
    have I1: "inv (s\<lparr>db := d\<rparr>)" using inv_intern Cons(2) i by blast
    obtain ok d' where a: "dl_add_fact E d REL_DOMAIN [i] = (ok, d')" by (cases "dl_add_fact E d REL_DOMAIN [i]")
    have "inv (s\<lparr>db := d'\<rparr>)" if "i \<noteq> 0"
      using inv_add [OF I1, of REL_DOMAIN "[i]" ok d'] a intern_result [OF i that] by simp
    then show ?thesis using False i a I1 Cons(1) [of "s\<lparr>db := d'\<rparr>"] by simp
  qed (use Cons in simp)
qed simp

lemma seed_pairs_inv: "inv s \<Longrightarrow> inv (snd (seed_alias_pairs E ps s))"
proof (induction ps arbitrary: s)
  case (Cons p ps)
  obtain a d where p: "p = (a, d)" by (cases p)
  obtain r s' where r: "alias_add_impl E s a d = (r, s')" by (cases "alias_add_impl E s a d")
  then have "inv s'" using alias_add_inv [OF Cons(2), of a d] by simp
  then show ?case using p r Cons(1) by (cases r) auto
qed simp

lemma seed_inv: "inv s \<Longrightarrow> inv (snd (store_seed_aliases E s cfg))"
proof -
  assume "inv s"
  obtain r s' where r: "seed_domains E (cfg_domains cfg) s = (r, s')" by (cases "seed_domains E (cfg_domains cfg) s")
  then have "inv s'" using seed_domains_inv [OF \<open>inv s\<close>, of "cfg_domains cfg"] by simp
  then show ?thesis using r seed_pairs_inv by (cases r) (auto simp: store_seed_aliases_def)
qed

lemma resolve_inv:
  assumes "inv s"
  shows "inv (snd (store_resolve E s alias))"
proof (cases "split_addr alias")
  case (Inr p)
  obtain lc dm where p: "p = (lc, dm)" by (cases p)
  obtain i d1 j d2 where i: "dl_intern_str E (db s) dm = (i, d1)" "dl_intern_str E d1 lc = (j, d2)" by (metis prod.exhaust)
  from inv_intern2 [OF assms i] show ?thesis
    using Inr p i by (auto simp: store_resolve_def split: option.splits)
qed (use assms in \<open>simp add: store_resolve_def\<close>)

text \<open>Three interned columns, then an insertion outside the queue.\<close>

lemma intern3_add_inv:
  assumes "inv s" "dl_intern_str E (db s) a = (i, d1)" "dl_intern_str E d1 b = (j, d2)" "dl_intern_str E d2 c = (k, d3)"
    and "dl_add_fact E d3 r x = (ok, d')" "r \<noteq> REL_QUEUE" "i \<noteq> 0" "j \<noteq> 0" "k \<noteq> 0"
    and "\<forall>n \<in> set (sym_cols r). x ! n \<in> {i, j, k}"
  shows "inv (s\<lparr>db := d'\<rparr>)"
proof -
  have "inv (s\<lparr>db := d3\<rparr>)" using inv_intern3 assms by blast
  moreover have "\<forall>n \<in> set (sym_cols r). dl_intern_str_of E d3 (x ! n) \<noteq> None"
    using intern3 [OF assms(2-4,7-9)] assms(10) by auto
  ultimately show ?thesis using inv_add [of "s\<lparr>db := d3\<rparr>" r x ok d'] assms(5,6) by simp
qed

lemma revmap_add_inv:
  assumes "inv s"
  shows "inv (snd (store_revmap_add_at E s t f a ts))"
proof -
  obtain i d1 j d2 k d3 where i: "dl_intern_str E (db s) t = (i, d1)" "dl_intern_str E d1 f = (j, d2)" "dl_intern_str E d2 a = (k, d3)"
    by (metis prod.exhaust)
  obtain ok d' where ad: "dl_add_fact E d3 REL_REVMAP [i, j, k, ts] = (ok, d')" by (cases "dl_add_fact E d3 REL_REVMAP [i, j, k, ts]")
  show ?thesis using i ad assms inv_intern3 [OF assms i] intern3_add_inv [OF assms i ad]
    by (simp add: store_revmap_add_at_def)
qed

lemma log_add_inv:
  assumes "inv s"
  shows "inv (snd (store_log_add E s m ts dr l r st))"
proof -
  obtain i d1 j d2 k d3 where i: "dl_intern_str E (db s) l = (i, d1)" "dl_intern_str E d1 r = (j, d2)" "dl_intern_str E d2 st = (k, d3)"
    by (metis prod.exhaust)
  obtain ok d' where ad: "dl_add_fact E d3 REL_LOG [m, ts, dr, i, j, k] = (ok, d')" by (cases "dl_add_fact E d3 REL_LOG [m, ts, dr, i, j, k]")
  show ?thesis using i ad assms inv_intern3 [OF assms i] intern3_add_inv [OF assms i ad]
    by (simp add: store_log_add_def)
qed

lemma revmap_resolve_inv:
  assumes "inv s"
  shows "inv (snd (store_revmap_resolve E now s t))"
proof -
  obtain i d where i: "dl_intern_str E (db s) t = (i, d)" by (cases "dl_intern_str E (db s) t")
  from inv_intern [OF assms i] show ?thesis
    using i assms by (auto simp: store_revmap_resolve_def split: option.splits list.splits)
qed

lemma next_msgid_inv:
  assumes "inv s"
  shows "inv (snd (store_next_msgid E s))"
proof -
  obtain i d where i: "dl_intern_str E (db s) META_KEY_NEXT_MSGID = (i, d)" by (cases "dl_intern_str E (db s) META_KEY_NEXT_MSGID")
  have I1: "inv (s\<lparr>db := d\<rparr>)" using inv_intern assms i by blast
  have add: "inv (s\<lparr>db := d'\<rparr>)" if "dl_add_fact E d REL_META [i, v] = (ok, d')" "i \<noteq> 0" for v ok d'
    using inv_add [OF I1, of REL_META "[i, v]" ok d'] that intern_result [OF i] by simp
  have del: "inv (s\<lparr>db := delete_rows E REL_META xs d'\<rparr>)" if "inv (s\<lparr>db := d'\<rparr>)" for xs d'
    using inv_delete_rows [OF that, of REL_META xs] by simp
  show ?thesis using i I1 add del
    by (auto simp: store_next_msgid_def store_next_msgid_trace_def Let_def split: option.splits prod.splits)
qed

lemma queue_add_inv:
  assumes "inv s"
  shows "inv (snd (store_queue_add E s m k f t))"
proof -
  obtain i d1 j d2 c d3 where i: "dl_intern_str E (db s) f = (i, d1)" "dl_intern_str E d1 t = (j, d2)" "dl_intern_str E d2 QUEUED = (c, d3)"
    by (metis prod.exhaust)
  let ?row = "[m, k, i, j, 0, 0, c]"
  obtain ok d' where ad: "dl_add_fact E d3 REL_QUEUE ?row = (ok, d')" by (cases "dl_add_fact E d3 REL_QUEUE ?row")
  have I3: "inv (s\<lparr>db := d3\<rparr>)" using inv_intern3 [OF assms i] .
  show ?thesis
  proof (cases "i = 0 \<or> j = 0 \<or> c = 0")
    case True
    then show ?thesis using i I3 assms by (simp add: store_queue_add_def)
  next
    case False
    then have "\<forall>n \<in> set (sym_cols REL_QUEUE). dl_intern_str_of E d3 (?row ! n) \<noteq> None"
      using intern3 [OF i] by simp
    then have w: "wf d'" using add_wf [OF ad] inv_wf [OF I3] by simp
    show ?thesis
    proof (cases ok)
      case True
      have "inv (s\<lparr>db := d', next_due := 0, next_due_dirty := False\<rparr>)"
        using w by (simp add: store_inv_def due_cache_ok_def)
      then show ?thesis using False True i ad assms by (simp add: store_queue_add_def)
    next
      case nok: False
      then have "dl_add_fact E d3 REL_QUEUE ?row = (False, d')" using ad by simp
      then have "inv (s\<lparr>db := d3, db := d'\<rparr>)"
        using w add_failed add_syms by (intro inv_db [OF I3]) auto
      then show ?thesis using False nok i ad assms by (simp add: store_queue_add_def)
    qed
  qed
qed

lemma set_status_inv:
  assumes "inv s"
  shows "inv (snd (store_queue_set_status E s m k st a ts))"
proof -
  obtain i d where i: "dl_intern_str E (db s) st = (i, d)" by (cases "dl_intern_str E (db s) st")
  have w: "wf d" using intern_wf [OF i] inv_wf [OF assms] .
  have D: "inv (s\<lparr>next_due_dirty := True, db := d'\<rparr>)" if "wf d'" for d' using that by (intro wf_dirty) auto
  show ?thesis
  proof (cases "st = [] \<or> i = 0 \<or> queue_rows E d m k = None \<or> queue_rows E d m k = Some []")
    case True
    then show ?thesis using i w D assms
      by (auto simp: store_queue_set_status_def store_queue_set_status_trace_def Let_def)
  next
    case False
    then obtain r0 rs where r: "queue_rows E d m k = Some (r0 # rs)" by (cases "queue_rows E d m k") (auto simp: neq_Nil_conv)
    let ?n = "[m, k, r0 ! 2, r0 ! 3, a, ts, i]"
    have "r0 \<in> facts d REL_QUEUE" using queue_rows_facts [OF r] by simp
    then have "dl_intern_str_of E d (r0 ! 2) \<noteq> None" "dl_intern_str_of E d (r0 ! 3) \<noteq> None"
      using db_wfD [OF w] by fastforce+
    then have sy: "\<forall>n \<in> set (sym_cols REL_QUEUE). dl_intern_str_of E d (?n ! n) \<noteq> None"
      using intern_result [OF i] False by simp
    obtain ok d1 where ad: "dl_add_fact E d REL_QUEUE ?n = (ok, d1)" by (cases "dl_add_fact E d REL_QUEUE ?n")
    have "wf d1" using add_wf [OF ad w sy] .
    then show ?thesis using i False r ad w D delete_rows_wf
      by (auto simp: store_queue_set_status_def store_queue_set_status_trace_def Let_def simp del: delete_rows.simps)
  qed
qed

lemma reset_items_inv: "inv s \<Longrightarrow> inv (snd (reset_items E cs s))"
proof (induction cs arbitrary: s)
  case (Cons c cs)
  obtain r s' where r: "store_queue_set_status E s (c ! 0) (c ! 1) QUEUED (c ! 4) 0 = (r, s')"
    by (cases "store_queue_set_status E s (c ! 0) (c ! 1) QUEUED (c ! 4) 0")
  then have "inv s'" using set_status_inv [OF Cons(2), of "c ! 0" "c ! 1" QUEUED "c ! 4" 0] by simp
  then show ?case using r Cons(1) by (cases r) auto
qed simp

lemma reset_inv:
  assumes "inv s"
  shows "inv (snd (store_queue_reset_delivering E s))"
proof -
  obtain i d where i: "dl_intern_str E (db s) DELIVERING = (i, d)" by (cases "dl_intern_str E (db s) DELIVERING")
  from inv_intern [OF assms i] show ?thesis using i reset_items_inv
    by (auto simp: store_queue_reset_delivering_def split: option.splits)
qed

lemma queue_due_inv:
  assumes "inv s"
  shows "inv (snd (snd (store_queue_due E s now cb u)))"
proof -
  obtain i d where i: "dl_intern_str E (db s) QUEUED = (i, d)" by (cases "dl_intern_str E (db s) QUEUED")
  from inv_intern [OF assms i] show ?thesis using i
    by (auto simp: store_queue_due_def split: option.splits prod.splits)
qed

lemma queue_count_inv:
  assumes "inv s"
  shows "inv (snd (store_queue_count_by_status E s st))"
proof -
  obtain i d where i: "dl_intern_str E (db s) st = (i, d)" by (cases "dl_intern_str E (db s) st")
  from inv_intern [OF assms i] show ?thesis using i assms
    by (auto simp: store_queue_count_by_status_def split: option.splits)
qed

text \<open>The walk of \<open>store_queue_next_due\<close> computes a lower bound of the queued due times.\<close>

lemma min_due_fold_le:
  fixes rows :: "row list"
  shows "foldl (\<lambda>m c. if c ! 6 = q \<and> c ! 5 < m then c ! 5 else m) m rows \<le> m \<and>
   (\<forall>c \<in> set rows. c ! 6 = q \<longrightarrow> foldl (\<lambda>m c. if c ! 6 = q \<and> c ! 5 < m then c ! 5 else m) m rows \<le> c ! 5)"
proof (induction rows arbitrary: m)
  case (Cons c rows)
  let ?m = "if c ! 6 = q \<and> c ! 5 < m then c ! 5 else m"
  have "?m \<le> m" "c ! 6 = q \<Longrightarrow> ?m \<le> c ! 5" by auto
  with Cons [of ?m] show ?case by (auto simp del: if_split intro: order_trans)
qed simp

lemma min_due_le: "c \<in> set rows \<Longrightarrow> c ! 6 = q \<Longrightarrow> min_due q rows \<le> c ! 5"
  using min_due_fold_le [of q UINT32_MAX rows] by (simp add: min_due_def)

lemma next_due_inv:
  assumes "inv s"
  shows "inv (snd (store_queue_next_due E s))"
proof -
  obtain i d where i: "dl_intern_str E (db s) QUEUED = (i, d)" by (cases "dl_intern_str E (db s) QUEUED")
  have I1: "inv (s\<lparr>db := d\<rparr>)" using inv_intern [OF assms i] .
  have "inv (s\<lparr>db := d, next_due := min_due i rows, next_due_dirty := False\<rparr>)"
    if "i \<noteq> 0" "dl_prefix E d REL_QUEUE [] = Some rows" for rows
  proof -
    have "min_due i rows \<le> x ! 5" if x: "x \<in> facts d REL_QUEUE" "queued_row E d x" for x
    proof (rule min_due_le)
      show "x \<in> set rows" using prefix_rows [OF \<open>dl_prefix E d REL_QUEUE [] = Some rows\<close>] x(1) by simp
      show "x ! 6 = i" using x(2) intern_result [OF i \<open>i \<noteq> 0\<close>] intern_unique by (simp add: queued_row_def)
    qed
    then show ?thesis using inv_wf [OF I1] by (simp add: store_inv_def due_cache_ok_def)
  qed
  then show ?thesis using i I1 assms by (auto simp: store_queue_next_due_def Let_def split: option.splits)
qed

lemma store_step_inv: "inv s \<Longrightarrow> inv (store_step E s e)"
proof (cases e)
  case (Op_revmap_expire now)
  assume "inv s"
  then show ?thesis using Op_revmap_expire inv_delete_rows
    by (auto simp: store_revmap_expire_def split: option.splits)
next
  case (Op_log_expire now)
  assume "inv s"
  then show ?thesis using Op_log_expire inv_delete_rows by (auto simp: store_log_expire_def split: option.splits)
next
  case (Op_queue_delete m k)
  assume "inv s"
  then show ?thesis using Op_queue_delete inv_delete_rows by (auto simp: store_queue_delete_def split: option.splits)
qed (simp_all add: alias_add_inv alias_rm_inv seed_inv resolve_inv revmap_add_inv log_add_inv revmap_resolve_inv
    next_msgid_inv queue_add_inv set_status_inv reset_inv queue_due_inv queue_count_inv next_due_inv
    store_alias_add_def store_revmap_add_def)

end

sublocale dl_provider \<subseteq> ops: stepwise "store_step E" "store_inv E facts"
  by unfold_locales (rule store_step_inv)

context dl_provider
begin

lemma store_run_inv: "store_inv E facts s \<Longrightarrow> store_inv E facts (foldl (store_step E) s ops)"
  by (rule ops.run_inv)

end


lemma ref_store_inv: "store_inv ref_engine ref_facts ref_store"
  by (simp add: store_inv_def db_wf_def due_cache_ok_def ref_store_def ref_facts_def)


end
