(* ===== verification/Store_Properties.thy ===== *)
theory Store_Properties
  imports Store_Invariant
begin

text \<open>
  The contracts of the store: the alias table refines a set of (domain, local part, destination)
  triples, message ids increase across crashes, a status change never loses a delivery whatever
  prefix of its writes survives, an active delivery is always reported active, and the expiry
  sweeps remove exactly what they should (with one exception, a backward clock step on the
  reverse-alias map).
\<close>

section \<open>Aliases\<close>

definition alias_view :: "'d dl_engine \<Rightarrow> ('d \<Rightarrow> rel \<Rightarrow> row set) \<Rightarrow> 'd \<Rightarrow> (string \<times> string \<times> string) set" where
  "alias_view E F d = {(dm, lc, dst). \<exists>x \<in> F d REL_ALIAS. dl_intern_str_of E d (x ! 0) = Some dm \<and>
     dl_intern_str_of E d (x ! 1) = Some lc \<and> dl_intern_str_of E d (x ! 2) = Some dst}"

context dl_provider
begin

abbreviation aview :: "'d \<Rightarrow> (string \<times> string \<times> string) set" where
  "aview \<equiv> alias_view E facts"

lemma alias_rows3: "x \<in> facts d REL_ALIAS \<Longrightarrow> x = [x ! 0, x ! 1, x ! 2]"
  using arity [of x d REL_ALIAS] by (auto simp: numeral_3_eq_3 length_Suc_conv)

lemma alias_row_eq:
  assumes "x \<in> facts d REL_ALIAS" "dl_intern_str_of E d (x ! 0) = Some dm" "dl_intern_str_of E d (x ! 1) = Some lc"
    "dl_intern_str_of E d (x ! 2) = Some dst" "dl_intern_str_of E d a = Some dm" "dl_intern_str_of E d b = Some lc"
    "dl_intern_str_of E d c = Some dst"
  shows "x = [a, b, c]"
  using alias_rows3 [OF assms(1)] intern_unique [OF assms(2,5)] intern_unique [OF assms(3,6)] intern_unique [OF assms(4,7)]
  by simp

lemma aview_grow:
  assumes "wf d" "facts d' REL_ALIAS = facts d REL_ALIAS"
    and m: "\<And>j t. dl_intern_str_of E d j = Some t \<Longrightarrow> dl_intern_str_of E d' j = Some t"
  shows "aview d' = aview d"
proof -
  have "dl_intern_str_of E d' (x ! c) = dl_intern_str_of E d (x ! c)" if x: "x \<in> facts d REL_ALIAS" "c \<in> {0, 1, 2}" for x c
  proof -
    have "c \<in> set (sym_cols REL_ALIAS)" using x(2) by auto
    then obtain t where t: "dl_intern_str_of E d (x ! c) = Some t" using db_wfD [OF assms(1) x(1)] by blast
    show ?thesis using m [OF t] t by simp
  qed
  then show ?thesis by (simp add: alias_view_def assms(2) cong: bex_cong)
qed

lemma aview_insert:
  assumes "facts d' REL_ALIAS = insert [a, b, c] (facts d REL_ALIAS)" "dl_intern_str_of E d' = dl_intern_str_of E d"
    and "dl_intern_str_of E d a = Some dm" "dl_intern_str_of E d b = Some lc" "dl_intern_str_of E d c = Some dst"
  shows "aview d' = insert (dm, lc, dst) (aview d)"
  using assms(3-5) unfolding alias_view_def assms(1,2) by auto

lemma aview_delete:
  assumes "facts d' REL_ALIAS = facts d REL_ALIAS - {[a, b, c]}" "dl_intern_str_of E d' = dl_intern_str_of E d"
    and "dl_intern_str_of E d a = Some dm" "dl_intern_str_of E d b = Some lc" "dl_intern_str_of E d c = Some dst"
  shows "aview d' = aview d - {(dm, lc, dst)}"
  using assms(3-5) alias_row_eq [OF _ _ _ _ assms(3-5)] unfolding alias_view_def assms(1,2) by fastforce

lemma alias_add_view:
  assumes "wf (db s)" "split_addr alias = Inr (lc, dm)" "store_alias_add E s alias dest = (r, s')"
  shows "(r = Inr () \<longrightarrow> aview (db s') = insert (dm, lc, dest) (aview (db s))) \<and> (r \<noteq> Inr () \<longrightarrow> aview (db s') = aview (db s))"
proof (cases "alias = [] \<or> dest = []")
  case False
  obtain q d where q: "alias_row E (db s) dm lc dest = (q, d)" by (cases "alias_row E (db s) dm lc dest")
  note ar = alias_row_spec [OF q]
  have v: "aview d = aview (db s)" using ar by (intro aview_grow [OF assms(1)]) auto
  show ?thesis
  proof (cases q)
    case None
    then have "r = Inl VISAGE_ENOMEM" "s' = s\<lparr>db := d\<rparr>"
      using assms(2,3) False q by (simp_all add: store_alias_add_def alias_add_impl_def)
    then show ?thesis using v by simp
  next
    case (Some cols)
    then obtain a b c where abc: "cols = [a, b, c]" "dl_intern_str_of E d a = Some dm" "dl_intern_str_of E d b = Some lc"
      "dl_intern_str_of E d c = Some dest" using ar by blast
    obtain ok d' where ad: "dl_add_fact E d REL_ALIAS cols = (ok, d')" by (cases "dl_add_fact E d REL_ALIAS cols")
    have s': "s' = s\<lparr>db := d'\<rparr>" "r = (if ok then Inr () else Inl VISAGE_ESTORE)"
      using assms(2,3) False q Some ad by (auto simp: store_alias_add_def alias_add_impl_def)
    show ?thesis
    proof (cases ok)
      case True
      then have "facts d' REL_ALIAS = insert [a, b, c] (facts d REL_ALIAS)" using ad abc(1) add_done by simp
      from aview_insert [OF this add_syms [OF ad] abc(2-4)] show ?thesis using s' True v by simp
    next
      case nok: False
      then have "facts d' REL_ALIAS = facts d REL_ALIAS" using ad add_failed by simp
      then have "aview d' = aview d" using add_syms [OF ad] by (simp add: alias_view_def)
      then show ?thesis using s' nok v by simp
    qed
  qed
qed (use assms in \<open>auto simp: store_alias_add_def alias_add_impl_def\<close>)

lemma alias_rm_view:
  assumes "wf (db s)" "split_addr alias = Inr (lc, dm)" "store_alias_rm E s alias dest = (Inr (), s')"
  shows "aview (db s') = aview (db s) - {(dm, lc, dest)}"
proof -
  obtain q d where q: "alias_row E (db s) dm lc dest = (q, d)" by (cases "alias_row E (db s) dm lc dest")
  note ar = alias_row_spec [OF q]
  have v: "aview d = aview (db s)" using ar by (intro aview_grow [OF assms(1)]) auto
  obtain cols ok d' where c: "q = Some cols" "dl_delete_fact E d REL_ALIAS cols = (ok, d')" "ok" "s' = s\<lparr>db := d'\<rparr>"
    using assms(2,3) q by (auto simp: store_alias_rm_def split: option.splits prod.splits if_splits)
  then obtain a b e where abc: "cols = [a, b, e]" "dl_intern_str_of E d a = Some dm" "dl_intern_str_of E d b = Some lc"
      "dl_intern_str_of E d e = Some dest" using ar by blast
  have "facts d' REL_ALIAS = facts d REL_ALIAS - {[a, b, e]}" using c abc(1) delete_exact by simp
  from aview_delete [OF this delete_syms [OF c(2)] abc(2-4)] show ?thesis using c v by simp
qed

lemma decode_all_map: "decode_all E d is = Some ts \<Longrightarrow> map (dl_intern_str_of E d) is = map Some ts"
  by (induction "is" arbitrary: ts) (auto split: option.splits)

lemma resolve_view:
  assumes "wf (db s)" "split_addr alias = Inr (lc, dm)" "store_resolve E s alias = (Inr dests, s')"
  shows "set dests = {dst. (dm, lc, dst) \<in> aview (db s)} \<and> distinct dests \<and> aview (db s') = aview (db s)"
proof -
  obtain i d1 j d where i: "dl_intern_str E (db s) dm = (i, d1)" "dl_intern_str E d1 lc = (j, d)" by (metis prod.exhaust)
  obtain rows where nz: "i \<noteq> 0" "j \<noteq> 0" and rows: "dl_prefix E d REL_ALIAS [i, j] = Some rows"
    and dec: "decode_all E d (map (\<lambda>cols. cols ! 2) rows) = Some dests" and s': "s' = s\<lparr>db := d\<rparr>"
    using assms(2,3) i by (auto simp: store_resolve_def split: if_splits option.splits)
  have v: "aview d = aview (db s)"
    using intern_facts intern_mono i by (intro aview_grow [OF assms(1)]) metis+
  have ids: "dl_intern_str_of E d i = Some dm" "dl_intern_str_of E d j = Some lc"
    using nz i intern_result intern2_mono by blast+
  have pr: "distinct rows" "set rows = {x \<in> facts d REL_ALIAS. take 2 x = [i, j]}"
    using prefix_rows [OF rows] by (auto simp: numeral_2_eq_2)
  have mem: "x \<in> set rows \<longleftrightarrow> x \<in> facts d REL_ALIAS \<and> dl_intern_str_of E d (x ! 0) = Some dm \<and> dl_intern_str_of E d (x ! 1) = Some lc" for x
    unfolding pr(2) using ids intern_unique arity [of x d REL_ALIAS] by (auto simp: take2_iff)
  have md: "map (\<lambda>x. dl_intern_str_of E d (x ! 2)) rows = map Some dests"
    using decode_all_map [OF dec] by (simp add: comp_def)
  then have im: "Some ` set dests = (\<lambda>x. dl_intern_str_of E d (x ! 2)) ` set rows" by (metis list.set_map)
  have "dst \<in> set dests \<longleftrightarrow> (dm, lc, dst) \<in> aview d" for dst
  proof -
    have "dst \<in> set dests \<longleftrightarrow> Some dst \<in> Some ` set dests" by auto
    also have "\<dots> \<longleftrightarrow> (\<exists>x \<in> set rows. dl_intern_str_of E d (x ! 2) = Some dst)" unfolding im by force
    also have "\<dots> \<longleftrightarrow> (dm, lc, dst) \<in> aview d" unfolding alias_view_def using mem by auto
    finally show ?thesis .
  qed
  then have "set dests = {dst. (dm, lc, dst) \<in> aview d}" by blast
  moreover have "distinct (map (\<lambda>x. dl_intern_str_of E d (x ! 2)) rows)"
  proof (subst distinct_map, intro conjI pr(1) inj_onI)
    fix x y
    assume x: "x \<in> set rows" and y: "y \<in> set rows" and e: "dl_intern_str_of E d (x ! 2) = dl_intern_str_of E d (y ! 2)"
    have "dl_intern_str_of E d (x ! 2) \<in> set (map Some dests)" using x md [symmetric] by simp
    then obtain t where "dl_intern_str_of E d (x ! 2) = Some t" by auto
    then have "x ! 2 = y ! 2" using e intern_unique by metis
    moreover have "x ! 0 = y ! 0" "x ! 1 = y ! 1" using x y mem intern_unique by blast+
    ultimately show "x = y" using alias_rows3 x y mem by metis
  qed
  then have "distinct dests" unfolding md by (simp add: distinct_map)
  ultimately show ?thesis using v s' by simp
qed

end

lemma to_lower_AT: "to_lower c = AT \<longleftrightarrow> c = AT"
proof (cases "is_upper c")
  case True
  then have "97 \<le> byte (to_lower c)" "65 \<le> byte c" by (simp_all add: byte_to_lower is_upper_def)
  then show ?thesis by auto
qed (simp add: to_lower_def)

lemma split_addr_fold:
  "split_addr a =
    (let a' = map to_lower a; lc = takeWhile (\<lambda>c. c \<noteq> AT) a'; rest = dropWhile (\<lambda>c. c \<noteq> AT) a' in
     if rest = [] \<or> lc = [] \<or> tl rest = [] then Inl VISAGE_EPARAM else Inr (lc, tl rest))"
  by (auto simp: split_addr_def Let_def takeWhile_map dropWhile_map comp_def to_lower_AT simp flip: map_tl)

lemma split_addr_case: "map to_lower a = map to_lower b \<Longrightarrow> split_addr a = split_addr b"
  by (simp add: split_addr_fold)

text \<open>
  C31. The alias table implements a set of (domain, local part, destination) triples. On a
  well-formed store, a successful \<open>store_alias_add\<close> inserts exactly the triple of its arguments, a
  failed one changes nothing, a successful \<open>store_alias_rm\<close> removes exactly that triple, and
  \<open>store_resolve\<close> returns the destinations of its alias, each once. The key is case-folded, so
  every spelling of an alias addresses the same entries.
\<close>

theorem alias_table_refines:
  assumes "dl_provider E F" "db_wf E F (db s)" "split_addr alias = Inr (lc, dm)"
  shows "(store_alias_add E s alias dest = (Inr (), s1) \<longrightarrow> alias_view E F (db s1) = insert (dm, lc, dest) (alias_view E F (db s)))
    \<and> (store_alias_add E s alias dest = (Inl e, s1) \<longrightarrow> alias_view E F (db s1) = alias_view E F (db s))
    \<and> (store_alias_rm E s alias dest = (Inr (), s1) \<longrightarrow> alias_view E F (db s1) = alias_view E F (db s) - {(dm, lc, dest)})
    \<and> (store_resolve E s alias = (Inr dests, s1) \<longrightarrow> set dests = {x. (dm, lc, x) \<in> alias_view E F (db s)} \<and> distinct dests)
    \<and> (map to_lower alias = map to_lower alias' \<longrightarrow> split_addr alias' = Inr (lc, dm))"
proof -
  have "split_addr alias' = Inr (lc, dm)" if "map to_lower alias = map to_lower alias'"
    using split_addr_case [OF that] assms(3) by simp
  moreover note dl_provider.alias_add_view [OF assms, of dest "Inr ()" s1] dl_provider.alias_add_view [OF assms, of dest "Inl e" s1]
    dl_provider.alias_rm_view [OF assms, of dest s1] dl_provider.resolve_view [OF assms, of dests s1]
  ultimately show ?thesis by simp
qed

definition demo_alias_store :: "ref_db Store" where
  "demo_alias_store = snd (store_alias_add ref_engine ref_store ''Info@Ex.org'' ''me@home'')"

lemma demo_alias_wf: "db_wf ref_engine ref_facts (db demo_alias_store)"
proof -
  have "store_inv ref_engine ref_facts demo_alias_store"
    using ref.store_step_inv [OF ref_store_inv, of "Op_alias_add ''Info@Ex.org'' ''me@home''"] by (simp add: demo_alias_store_def)
  then show ?thesis by (simp add: store_inv_def)
qed

theorem alias_table_refines_witness:
  "\<exists>s1. store_resolve ref_engine demo_alias_store ''iNFO@ex.ORG'' = (Inr [''me@home''], s1) \<and>
     {x. (''ex.org'', ''info'', x) \<in> alias_view ref_engine ref_facts (db demo_alias_store)} = {''me@home''}"
proof -
  have sp: "split_addr ''iNFO@ex.ORG'' = Inr (''info'', ''ex.org'')" by code_simp
  obtain s1 where r: "store_resolve ref_engine demo_alias_store ''iNFO@ex.ORG'' = (Inr [''me@home''], s1)"
  proof -
    have "fst (store_resolve ref_engine demo_alias_store ''iNFO@ex.ORG'') = Inr [''me@home'']" by code_simp
    then show ?thesis using that by (metis prod.collapse)
  qed
  with alias_table_refines [OF ref.dl_provider_axioms demo_alias_wf sp] show ?thesis by fastforce
qed

section \<open>Crash safety of a status change\<close>

text \<open>The delivery \<open>(msgid, k)\<close> is on the queue: some row has its key.\<close>

definition on_queue :: "('d \<Rightarrow> rel \<Rightarrow> row set) \<Rightarrow> 'd \<Rightarrow> u32 \<Rightarrow> u32 \<Rightarrow> bool" where
  "on_queue F d msgid k \<longleftrightarrow> (\<exists>x \<in> F d REL_QUEUE. take 2 x = [msgid, k])"

lemma set_status_cases:
  assumes "store_queue_set_status_trace E s m k st a ts = (res, s', tr)" "dl_intern_str E (db s) st = (i, d)"
  obtains (refused) "tr = []" "res \<noteq> Inr ()" "db s' = db s \<or> db s' = d"
  | (kept) r0 rs n where "i \<noteq> 0" "queue_rows E d m k = Some (r0 # rs)" "n = [m, k, r0 ! 2, r0 ! 3, a, ts, i]"
      "n \<in> set (r0 # rs)" "res = Inr ()" "db s' = delete_rows E REL_QUEUE (remove1 n (r0 # rs)) d"
      "tr = delete_trace E REL_QUEUE (remove1 n (r0 # rs)) d"
  | (failed) r0 rs n d1 where "i \<noteq> 0" "queue_rows E d m k = Some (r0 # rs)" "n = [m, k, r0 ! 2, r0 ! 3, a, ts, i]"
      "n \<notin> set (r0 # rs)" "dl_add_fact E d REL_QUEUE n = (False, d1)" "res \<noteq> Inr ()" "db s' = d1" "tr = [d1]"
  | (added) r0 rs n d1 where "i \<noteq> 0" "queue_rows E d m k = Some (r0 # rs)" "n = [m, k, r0 ! 2, r0 ! 3, a, ts, i]"
      "n \<notin> set (r0 # rs)" "dl_add_fact E d REL_QUEUE n = (True, d1)" "res = Inr ()"
      "db s' = delete_rows E REL_QUEUE (r0 # rs) d1" "tr = d1 # delete_trace E REL_QUEUE (r0 # rs) d1"
proof (cases "st = [] \<or> i = 0 \<or> queue_rows E d m k = None \<or> queue_rows E d m k = Some []")
  case True
  then show ?thesis using assms refused by (cases "st = []"; cases "i = 0") (auto simp: store_queue_set_status_trace_def Let_def)
next
  case False
  then obtain r0 rs where r: "queue_rows E d m k = Some (r0 # rs)" by (cases "queue_rows E d m k") (auto simp: neq_Nil_conv)
  define n where "n = [m, k, r0 ! 2, r0 ! 3, a, ts, i]"
  obtain ok d1 where ad: "dl_add_fact E d REL_QUEUE n = (ok, d1)" by (cases "dl_add_fact E d REL_QUEUE n")
  have "store_queue_set_status_trace E s m k st a ts = (if n \<in> set (r0 # rs) then
        (Inr (), s\<lparr>next_due_dirty := True, db := delete_rows E REL_QUEUE (remove1 n (r0 # rs)) d\<rparr>,
         delete_trace E REL_QUEUE (remove1 n (r0 # rs)) d)
      else if \<not> ok then (Inl VISAGE_ESTORE, s\<lparr>next_due_dirty := True, db := d1\<rparr>, [d1])
      else (Inr (), s\<lparr>next_due_dirty := True, db := delete_rows E REL_QUEUE (r0 # rs) d1\<rparr>,
        d1 # delete_trace E REL_QUEUE (r0 # rs) d1))"
    (is "_ = ?t")
    using False unfolding store_queue_set_status_trace_def
    by (simp only: if_False Let_def assms(2) prod.case r option.case list.case n_def [symmetric] ad de_Morgan_disj simp_thms)
  then have t: "(res, s', tr) = ?t" using assms(1) by simp
  show ?thesis
  proof (cases "n \<in> set (r0 # rs)")
    case True
    then show ?thesis using kept [OF _ r n_def] t False by simp
  next
    case nin: False
    then show ?thesis using failed [OF _ r n_def nin, of d1] added [OF _ r n_def nin, of d1] t False ad
      by (cases ok) simp_all
  qed
qed

context dl_provider
begin

lemma delete_keeps:
  "x \<in> facts d r \<Longrightarrow> x \<notin> set xs \<Longrightarrow> x \<in> facts (delete_rows E r xs d) r \<and> (\<forall>d' \<in> set (delete_trace E r xs d). x \<in> facts d' r)"
  using delete_rows_bounds [of d r xs] delete_trace_bounds [of _ r xs d] by blast

lemma set_status_keeps:
  assumes "on_queue facts (db s) m k" "store_queue_set_status_trace E s m k st a ts = (res, s', tr)"
  shows "\<forall>d \<in> insert (db s') (set tr). on_queue facts d m k"
proof -
  obtain i d where i: "dl_intern_str E (db s) st = (i, d)" by (cases "dl_intern_str E (db s) st")
  have on: "on_queue facts d m k" using assms(1) intern_facts [OF i] by (simp add: on_queue_def)
  from assms(2) i show ?thesis
  proof (cases rule: set_status_cases)
    case refused
    then show ?thesis using assms(1) on by auto
  next
    case (kept r0 rs n)
    note qf = queue_rows_facts [OF kept(2)]
    have "n \<notin> set (remove1 n (r0 # rs))" using qf by (simp add: set_remove1_eq del: remove1.simps)
    moreover have "n \<in> facts d REL_QUEUE" "take 2 n = [m, k]" using qf kept(4) by blast+
    ultimately show ?thesis using delete_keeps [of n d REL_QUEUE "remove1 n (r0 # rs)"] kept(6,7)
      unfolding on_queue_def by auto
  next
    case (failed r0 rs n d1)
    then have "facts d1 REL_QUEUE = facts d REL_QUEUE" using add_failed by blast
    then show ?thesis using failed on by (simp add: on_queue_def)
  next
    case (added r0 rs n d1)
    have "n \<in> facts d1 REL_QUEUE" using added(5) add_done by blast
    moreover have "take 2 n = [m, k]" using added(3) by (simp add: numeral_2_eq_2)
    ultimately show ?thesis using delete_keeps [of n d1 REL_QUEUE "r0 # rs", OF _ added(4)]
      unfolding on_queue_def added(7,8) by auto
  qed
qed

end


definition demo_queue_store :: "ref_db Store" where
  "demo_queue_store = snd (store_queue_add ref_engine ref_store 7 0 ''a@x'' ''b@y'')"


section \<open>Message ids\<close>

text \<open>The values of the counter that a database holds.\<close>

definition msgid_vals :: "'d dl_engine \<Rightarrow> ('d \<Rightarrow> rel \<Rightarrow> row set) \<Rightarrow> 'd \<Rightarrow> u32 set" where
  "msgid_vals E F d = {x ! 1 |x. x \<in> F d REL_META \<and> dl_intern_str_of E d (x ! 0) = Some META_KEY_NEXT_MSGID}"

text \<open>Few enough counter rows for \<open>meta_read_cb\<close> to keep them all.\<close>

definition few_msgid_rows :: "'d dl_engine \<Rightarrow> 'd \<Rightarrow> bool" where
  "few_msgid_rows E d \<longleftrightarrow> (\<forall>key rows. dl_prefix E d REL_META [key] = Some rows \<longrightarrow> length rows \<le> META_MAX_ROWS)"

lemma max_val_ge:
  fixes vs :: "u32 list"
  shows "c \<le> foldl (\<lambda>cur v. if v > cur then v else cur) c vs \<and> (\<forall>v \<in> set vs. v \<le> foldl (\<lambda>cur v. if v > cur then v else cur) c vs)"
proof (induction vs arbitrary: c)
  case (Cons v vs)
  let ?c = "if v > c then v else c"
  have "c \<le> ?c" "v \<le> ?c" by auto
  with Cons [of ?c] show ?case by (auto simp del: if_split intro: order_trans)
qed simp

lemma next_word: "(m::u32) + 1 \<noteq> 0 \<Longrightarrow> v \<le> m \<Longrightarrow> v < m + 1"
  by (simp add: word_less_nat_alt word_le_nat_alt u32_Suc)

context dl_provider
begin

lemma meta_rows2: "x \<in> facts d REL_META \<Longrightarrow> x = [x ! 0, x ! 1]"
  using arity [of x d REL_META] by (auto simp: numeral_2_eq_2 length_Suc_conv)

lemma next_msgid_increases:
  assumes "few_msgid_rows E (snd (dl_intern_str E (db s) META_KEY_NEXT_MSGID))" "wf (db s)"
    and "store_next_msgid_trace E s = (n, s', tr)" "n \<noteq> 0"
  shows "(\<forall>v \<in> msgid_vals E facts (db s). v < n) \<and> (\<forall>d \<in> insert (db s') (set tr). n \<in> msgid_vals E facts d)"
proof -
  obtain key d where i: "dl_intern_str E (db s) META_KEY_NEXT_MSGID = (key, d)" by (cases "dl_intern_str E (db s) META_KEY_NEXT_MSGID")
  obtain rows d1 where kz: "key \<noteq> 0" and rows: "dl_prefix E d REL_META [key] = Some rows"
    and n: "n = max_val (meta_vals rows) + 1" and ad: "dl_add_fact E d REL_META [key, n] = (True, d1)"
    and s': "db s' = delete_rows E REL_META (map (\<lambda>v. [key, v]) (meta_vals rows)) d1"
    and tr: "tr = d1 # delete_trace E REL_META (map (\<lambda>v. [key, v]) (meta_vals rows)) d1"
    using assms(3,4) i by (auto simp: store_next_msgid_trace_def Let_def split: if_splits option.splits prod.splits)
  have id: "dl_intern_str_of E d key = Some META_KEY_NEXT_MSGID" using intern_result [OF i kz] .
  have mv: "meta_vals rows = map (\<lambda>x. x ! 1) rows" using assms(1) i rows by (simp add: few_msgid_rows_def meta_vals_def)
  have set_rows: "x \<in> set rows" if "x \<in> facts d REL_META" "dl_intern_str_of E d (x ! 0) = Some META_KEY_NEXT_MSGID" for x
    using prefix_rows [OF rows] that meta_rows2 [OF that(1)] intern_unique [OF that(2) id]
    by (metis (mono_tags, lifting) One_nat_def length_Cons list.size(3) mem_Collect_eq take0 take_Suc_Cons)
  have lt: "v < n" if "v \<in> set (meta_vals rows)" for v
    using that n assms(4) max_val_ge [of 0 "meta_vals rows"] next_word [of "max_val (meta_vals rows)" v] by (simp add: max_val_def)
  have old: "v < n" if v: "v \<in> msgid_vals E facts (db s)" for v
  proof -
    obtain x where x: "v = x ! 1" "x \<in> facts (db s) REL_META" "dl_intern_str_of E (db s) (x ! 0) = Some META_KEY_NEXT_MSGID"
      using v by (auto simp: msgid_vals_def)
    then have "x \<in> set rows" using set_rows intern_facts [OF i] intern_mono [OF i] by simp
    then show ?thesis using lt mv x(1) by auto
  qed
  have keep: "[key, n] \<in> facts (db s') REL_META \<and> (\<forall>d' \<in> set (delete_trace E REL_META (map (\<lambda>v. [key, v]) (meta_vals rows)) d1). [key, n] \<in> facts d' REL_META)"
    unfolding s' using add_done [OF ad] lt by (intro delete_keeps) auto
  have "n \<in> msgid_vals E facts d'" if "d' \<in> insert (db s') (set tr)" for d'
  proof -
    from that consider "d' = db s'" | "d' = d1" | "d' \<in> set (delete_trace E REL_META (map (\<lambda>v. [key, v]) (meta_vals rows)) d1)"
      unfolding tr by auto
    then have "dl_intern_str_of E d' = dl_intern_str_of E d1"
      and "[key, n] \<in> facts d' REL_META"
      using keep add_done [OF ad] by (cases; simp add: s' delete_rows_syms delete_trace_syms)+
    then show ?thesis using id add_syms [OF ad] unfolding msgid_vals_def by (intro CollectI exI [of _ "[key, n]"]) simp
  qed
  then show ?thesis using old by blast
qed

end

text \<open>
  C34. Message ids increase, across crashes too. With at most sixteen counter rows, the id that
  \<open>store_next_msgid\<close> returns is greater than every counter value in the store, and the database
  holds it in every state a crash can leave after the id was made durable; so the next id is
  greater again and no id is handed out twice.
\<close>

theorem next_msgid_monotone:
  assumes "dl_provider E F" "db_wf E F (db s)"
    and "few_msgid_rows E (snd (dl_intern_str E (db s) META_KEY_NEXT_MSGID))"
    and "store_next_msgid_trace E s = (n, s', crash_states)" "n \<noteq> 0"
  shows "(\<forall>v \<in> msgid_vals E F (db s). v < n) \<and> n \<in> msgid_vals E F (db s')
    \<and> (\<forall>d \<in> set crash_states. n \<in> msgid_vals E F d) \<and> store_next_msgid E s = (n, s')"
  using dl_provider.next_msgid_increases [OF assms(1,3,2,4,5)] assms(4) by (simp add: store_next_msgid_def)

theorem next_msgid_monotone_witness:
  "\<exists>s' c. store_next_msgid_trace ref_engine ref_store = (1, s', c) \<and> 1 \<in> msgid_vals ref_engine ref_facts (db s')"
proof -
  have w: "db_wf ref_engine ref_facts (db ref_store)" using ref_store_inv by (simp add: store_inv_def)
  have f: "few_msgid_rows ref_engine (snd (dl_intern_str ref_engine (db ref_store) META_KEY_NEXT_MSGID))"
    by (auto simp: few_msgid_rows_def ref_engine_def ref_store_def ref_intern_def ref_prefix_def ref_lookup_def)
  have n: "fst (store_next_msgid_trace ref_engine ref_store) = 1" by code_simp
  obtain s' c where t: "store_next_msgid_trace ref_engine ref_store = (1, s', c)" using n by (metis prod.collapse)
  have "(1::u32) \<noteq> 0" by simp
  from next_msgid_monotone [OF ref.dl_provider_axioms w f t this] t show ?thesis by blast
qed

section \<open>Queue status\<close>

context dl_provider
begin

lemma find_active_spec:
  "(find_active E d rows = Some st \<longrightarrow> active_status st \<and> (\<exists>x \<in> set rows. dl_intern_str_of E d (x ! 6) = Some st)) \<and>
   (find_active E d rows = None \<longrightarrow> (\<forall>x \<in> set rows. \<forall>t. dl_intern_str_of E d (x ! 6) = Some t \<longrightarrow> \<not> active_status t))"
  by (induction rows) (auto split: option.splits)

lemma queue_status_active:
  assumes "x \<in> facts (db s) REL_QUEUE" "take 2 x = [m, k]" "dl_intern_str_of E (db s) (x ! 6) = Some t" "active_status t"
    and "dl_prefix E (db s) REL_QUEUE [m, k] = Some rows" "length rows \<le> QUEUE_SET_MAX_ROWS" "11 \<le> sz"
  shows "\<exists>st. store_queue_status E s m k sz = Inr st \<and> active_status st"
proof -
  have q: "queue_rows E (db s) m k = Some rows" using assms(5,6) by (simp add: queue_rows_def)
  have x: "x \<in> set rows" using prefix_rows [OF assms(5)] assms(1,2) by (simp add: numeral_2_eq_2)
  then obtain r0 rs where r: "rows = r0 # rs" by (cases rows) auto
  obtain st where st: "find_active E (db s) rows = Some st"
    using find_active_spec [of "db s" rows] x assms(3,4) by (cases "find_active E (db s) rows") auto
  then have a: "active_status st" using find_active_spec by blast
  then have "length st \<le> 10" by (auto simp: active_status_def)
  then show ?thesis using q r st a assms(7) by (simp add: store_queue_status_def)
qed

end

text \<open>
  C36. An active delivery is reported active. If one of the (at most sixteen) rows of a delivery is
  queued or delivering, \<open>store_queue_status\<close> answers with an active status, whatever other rows a
  crash has left for the same delivery; the collector of spooled bodies relies on it.
\<close>

theorem queue_status_reports_active:
  assumes "dl_provider E F" "x \<in> F (db s) REL_QUEUE" "take 2 x = [msgid, k]"
    and "dl_intern_str_of E (db s) (x ! 6) = Some t" "active_status t"
    and "dl_prefix E (db s) REL_QUEUE [msgid, k] = Some rows" "length rows \<le> QUEUE_SET_MAX_ROWS" "11 \<le> sz"
  shows "\<exists>st. store_queue_status E s msgid k sz = Inr st \<and> active_status st"
  using dl_provider.queue_status_active [OF assms] .

theorem queue_status_reports_active_witness:
  "\<exists>st. store_queue_status ref_engine demo_queue_store 7 0 16 = Inr st \<and> active_status st"
proof (rule queue_status_reports_active [OF ref.dl_provider_axioms])
  show "[7, 0, 1, 2, 0, 0, 3] \<in> ref_facts (db demo_queue_store) REL_QUEUE" by code_simp
  show "take 2 [7, 0, 1, 2, 0, 0, 3] = [7, 0 :: u32]" by code_simp
  show "dl_intern_str_of ref_engine (db demo_queue_store) ([7, 0, 1, 2, 0, 0, 3] ! 6) = Some QUEUED" by code_simp
  show "active_status QUEUED" by code_simp
  show "dl_prefix ref_engine (db demo_queue_store) REL_QUEUE [7, 0] = Some [[7, 0, 1, 2, 0, 0, 3]]" by code_simp
  show "length [[7, 0, 1, 2, 0, 0, 3 :: u32]] \<le> QUEUE_SET_MAX_ROWS" by code_simp
qed simp

section \<open>Restart\<close>

text \<open>A queued row of the delivery that is due at once.\<close>

definition requeued :: "'d dl_engine \<Rightarrow> ('d \<Rightarrow> rel \<Rightarrow> row set) \<Rightarrow> 'd \<Rightarrow> u32 \<Rightarrow> u32 \<Rightarrow> bool" where
  "requeued E F d msgid k \<longleftrightarrow> (\<exists>x \<in> F d REL_QUEUE. take 2 x = [msgid, k] \<and> x ! 5 = 0 \<and> queued_row E d x)"

context dl_provider
begin

lemma set_status_requeues:
  assumes "store_queue_set_status E s m k QUEUED a 0 = (Inr (), s')"
  shows "requeued E facts (db s') m k"
proof -
  obtain i d where i: "dl_intern_str E (db s) QUEUED = (i, d)" by (cases "dl_intern_str E (db s) QUEUED")
  obtain tr where t: "store_queue_set_status_trace E s m k QUEUED a 0 = (Inr (), s', tr)"
    using assms by (auto simp: store_queue_set_status_def split: prod.splits)
  from t i show ?thesis
  proof (cases rule: set_status_cases)
    case (kept r0 rs n)
    note qf = queue_rows_facts [OF kept(2)]
    have "n \<notin> set (remove1 n (r0 # rs))" using qf by (simp add: set_remove1_eq del: remove1.simps)
    then have "n \<in> facts (db s') REL_QUEUE" unfolding kept(6) using delete_keeps qf kept(4) by blast
    moreover have "queued_row E (db s') n"
      using intern_result [OF i kept(1)] kept(3) unfolding kept(6) by (simp add: queued_row_def delete_rows_syms)
    moreover have "take 2 n = [m, k]" "n ! 5 = 0" using kept(3) by (simp_all add: numeral_2_eq_2)
    ultimately show ?thesis unfolding requeued_def by blast
  next
    case (added r0 rs n d1)
    then have "n \<in> facts (db s') REL_QUEUE" unfolding added(7) using delete_keeps add_done by blast
    moreover have "queued_row E (db s') n"
      using intern_result [OF i added(1)] added(3) add_syms [OF added(5)] unfolding added(7)
      by (simp add: queued_row_def delete_rows_syms del: delete_rows.simps)
    moreover have "take 2 n = [m, k]" "n ! 5 = 0" using added(3) by (simp_all add: numeral_2_eq_2)
    ultimately show ?thesis unfolding requeued_def by blast
  qed auto
qed

text \<open>A status change touches the rows of its own delivery only.\<close>

lemma set_status_other:
  assumes "store_queue_set_status E s m k st a ts = (res, s')" "take 2 x \<noteq> [m, k]"
  shows "x \<in> facts (db s') REL_QUEUE \<longleftrightarrow> x \<in> facts (db s) REL_QUEUE"
proof -
  obtain i d where i: "dl_intern_str E (db s) st = (i, d)" by (cases "dl_intern_str E (db s) st")
  obtain tr where t: "store_queue_set_status_trace E s m k st a ts = (res, s', tr)"
    using assms(1) by (auto simp: store_queue_set_status_def split: prod.splits)
  have x: "x \<in> facts d REL_QUEUE \<longleftrightarrow> x \<in> facts (db s) REL_QUEUE" using intern_facts [OF i] by simp
  have del: "x \<in> facts (delete_rows E REL_QUEUE rs d0) REL_QUEUE \<longleftrightarrow> x \<in> facts d0 REL_QUEUE" if "x \<notin> set rs" for rs d0
    using delete_keeps [OF _ that] delete_rows_bounds [of d0 REL_QUEUE rs] by blast
  from t i show ?thesis
  proof (cases rule: set_status_cases)
    case refused
    then show ?thesis using x by auto
  next
    case (kept r0 rs n)
    have "x \<notin> set (remove1 n (r0 # rs))" using queue_rows_facts [OF kept(2)] assms(2) set_remove1_subset by fastforce
    then show ?thesis unfolding kept(6) using del x by blast
  next
    case (failed r0 rs n d1)
    then show ?thesis using add_failed x by auto
  next
    case (added r0 rs n d1)
    have "x \<notin> set (r0 # rs)" using queue_rows_facts [OF added(2)] assms(2) by blast
    moreover have "x \<noteq> n" using added(3) assms(2) by (auto simp: numeral_2_eq_2)
    then have "x \<in> facts d1 REL_QUEUE \<longleftrightarrow> x \<in> facts (db s) REL_QUEUE" using add_done [OF added(5)] x by simp
    ultimately show ?thesis unfolding added(7) using del by blast
  qed
qed

lemma set_status_syms:
  assumes "store_queue_set_status E s m k st a ts = (res, s')" "dl_intern_str_of E (db s) j = Some t"
  shows "dl_intern_str_of E (db s') j = Some t"
proof -
  obtain i d where i: "dl_intern_str E (db s) st = (i, d)" by (cases "dl_intern_str E (db s) st")
  obtain tr where t: "store_queue_set_status_trace E s m k st a ts = (res, s', tr)"
    using assms(1) by (auto simp: store_queue_set_status_def split: prod.splits)
  have d: "dl_intern_str_of E d j = Some t" using intern_mono [OF i assms(2)] .
  from t i show ?thesis
  proof (cases rule: set_status_cases)
    case refused
    then show ?thesis using assms(2) d by auto
  next
    case (kept r0 rs n)
    then show ?thesis using d by (simp add: delete_rows_syms del: delete_rows.simps remove1.simps)
  next
    case (failed r0 rs n d1)
    then show ?thesis using d add_syms [OF failed(5)] by simp
  next
    case (added r0 rs n d1)
    then show ?thesis using d add_syms [OF added(5)] by (simp add: delete_rows_syms del: delete_rows.simps)
  qed
qed

lemma requeued_step:
  assumes "requeued E facts (db s) m k" "store_queue_set_status E s m' k' QUEUED a 0 = (Inr (), s')"
  shows "requeued E facts (db s') m k"
proof (cases "m' = m \<and> k' = k")
  case True
  then show ?thesis using set_status_requeues assms(2) by blast
next
  case False
  obtain x where x: "x \<in> facts (db s) REL_QUEUE" "take 2 x = [m, k]" "x ! 5 = 0" "queued_row E (db s) x"
    using assms(1) unfolding requeued_def by blast
  have "x \<in> facts (db s') REL_QUEUE" using set_status_other [OF assms(2), of x] x(1,2) False by auto
  moreover have "queued_row E (db s') x" using set_status_syms [OF assms(2)] x(4) by (simp add: queued_row_def)
  ultimately show ?thesis using x unfolding requeued_def by blast
qed

lemma reset_items_requeues:
  "reset_items E cs s = (Inr (), s') \<Longrightarrow>
   (\<forall>c \<in> set cs. requeued E facts (db s') (c ! 0) (c ! 1)) \<and>
   (\<forall>m k. requeued E facts (db s) m k \<longrightarrow> requeued E facts (db s') m k)"
proof (induction cs arbitrary: s)
  case (Cons c cs)
  obtain r s1 where r: "store_queue_set_status E s (c ! 0) (c ! 1) QUEUED (c ! 4) 0 = (r, s1)"
    by (cases "store_queue_set_status E s (c ! 0) (c ! 1) QUEUED (c ! 4) 0")
  with Cons.prems have "r = Inr ()" "reset_items E cs s1 = (Inr (), s')" by (auto split: sum.splits)
  then show ?case using Cons.IH [of s1] set_status_requeues requeued_step r by simp
qed simp

lemma reset_requeues:
  assumes "store_queue_reset_delivering E s = (Inr (), s')"
    and "x \<in> facts (db s) REL_QUEUE" "dl_intern_str_of E (db s) (x ! 6) = Some DELIVERING"
  shows "requeued E facts (db s') (x ! 0) (x ! 1)"
proof -
  obtain i d where i: "dl_intern_str E (db s) DELIVERING = (i, d)" by (cases "dl_intern_str E (db s) DELIVERING")
  obtain rows where r: "i \<noteq> 0" "dl_prefix E d REL_QUEUE [] = Some rows"
    "reset_items E (filter (\<lambda>c. c ! 6 = i) rows) (s\<lparr>db := d\<rparr>) = (Inr (), s')"
    using assms(1) i by (auto simp: store_queue_reset_delivering_def split: if_splits option.splits)
  have "x \<in> set rows" using prefix_rows [OF r(2)] assms(2) intern_facts [OF i] by simp
  moreover have "x ! 6 = i"
    using intern_unique [OF intern_mono [OF i assms(3)] intern_result [OF i r(1)]] .
  ultimately show ?thesis using reset_items_requeues [OF r(3)] by simp
qed

end

text \<open>
  C27. Restart loses no delivery that was under way: after a successful
  \<open>store_queue_reset_delivering\<close> every delivery that had a row in status delivering has a queued
  row that is due immediately.
\<close>

theorem reset_delivering_requeues:
  assumes "dl_provider E F" "store_queue_reset_delivering E s = (Inr (), s')"
    and "x \<in> F (db s) REL_QUEUE" "dl_intern_str_of E (db s) (x ! 6) = Some DELIVERING"
  shows "requeued E F (db s') (x ! 0) (x ! 1)"
  using dl_provider.reset_requeues [OF assms] .

definition demo_delivering_store :: "ref_db Store" where
  "demo_delivering_store = snd (store_queue_set_status ref_engine demo_queue_store 7 0 DELIVERING 1 0)"

theorem reset_delivering_requeues_witness:
  "\<exists>s'. store_queue_reset_delivering ref_engine demo_delivering_store = (Inr (), s') \<and> requeued ref_engine ref_facts (db s') 7 0"
proof -
  have "fst (store_queue_reset_delivering ref_engine demo_delivering_store) = Inr ()" by code_simp
  then obtain s' where s': "store_queue_reset_delivering ref_engine demo_delivering_store = (Inr (), s')" by (metis prod.collapse)
  have "[7, 0, 1, 2, 1, 0, 4] \<in> ref_facts (db demo_delivering_store) REL_QUEUE"
    "dl_intern_str_of ref_engine (db demo_delivering_store) ([7, 0, 1, 2, 1, 0, 4] ! 6) = Some DELIVERING" by code_simp+
  from reset_delivering_requeues [OF ref.dl_provider_axioms s' this] s' show ?thesis by simp
qed

section \<open>Expiry\<close>

text \<open>
  The log sweep deletes no row younger than the retention window and none from the future: the
  only rows it may delete are those whose age, in seconds, is at least thirty days.
\<close>

theorem log_expire_keeps_recent:
  assumes "dl_provider E F" "store_log_expire E s now = (res, s')"
    and "x \<in> F (db s) REL_LOG" "unat now < unat (x ! 1) + 30 * 24 * 3600"
  shows "x \<in> F (db s') REL_LOG"
proof (cases "dl_prefix E (db s) REL_LOG []")
  case None
  then show ?thesis using assms by (simp add: store_log_expire_def)
next
  case (Some rows)
  have "\<not> log_expired now (x ! 1)"
  proof
    assume a: "log_expired now (x ! 1)"
    then have le: "x ! 1 \<le> now" and age: "LOG_RETENTION_SEC \<le> now - x ! 1"
      by (simp_all add: log_expired_def Let_def word_le_def)
    have "2592000 \<le> unat (now - x ! 1)" using age by (simp add: word_le_nat_alt LOG_RETENTION_SEC_def)
    then have "2592000 \<le> unat now - unat (x ! 1)" and ge: "unat (x ! 1) \<le> unat now"
      using le by (simp_all add: unat_sub word_le_nat_alt)
    with assms(4) ge show False by simp
  qed
  then have "x \<notin> set (filter (\<lambda>cols. log_expired now (cols ! 1)) rows)" by simp
  then have "x \<in> F (delete_rows E REL_LOG (filter (\<lambda>cols. log_expired now (cols ! 1)) rows) (db s)) REL_LOG"
    using dl_provider.delete_keeps [OF assms(1,3)] by blast
  then show ?thesis using assms(2) Some by (auto simp: store_log_expire_def)
qed

definition demo_log_store :: "ref_db Store" where
  "demo_log_store = snd (store_log_add ref_engine ref_store 1 1000 0 ''a@b'' ''c@d'' ''ok'')"

theorem log_expire_keeps_recent_witness:
  "\<exists>res s'. store_log_expire ref_engine demo_log_store 900 = (res, s') \<and> [1, 1000, 0, 1, 2, 3] \<in> ref_facts (db s') REL_LOG"
proof -
  obtain res s' where s': "store_log_expire ref_engine demo_log_store 900 = (res, s')" by (cases "store_log_expire ref_engine demo_log_store 900")
  have "[1, 1000, 0, 1, 2, 3] \<in> ref_facts (db demo_log_store) REL_LOG" by code_simp
  from log_expire_keeps_recent [OF ref.dl_provider_axioms s' this] s' show ?thesis by simp
qed

text \<open>
  C34. The reverse-alias sweep, in unsigned arithmetic: a mapping younger than thirty days survives
  as long as the clock does not run backwards, but a mapping whose timestamp lies after \<open>now\<close>, as
  after a backward clock step of less than \<open>2^32 - 2592000\<close> seconds, counts as expired.
\<close>

theorem revmap_expired_clock:
  "(unat created \<le> unat now \<longrightarrow> revmap_expired now created = (2592000 \<le> unat now - unat created))
   \<and> (unat now < unat created \<longrightarrow> unat created - unat now \<le> 4294967296 - 2592000 \<longrightarrow> revmap_expired now created)"
proof -
  have ttl: "unat REVMAP_TTL_SEC = 2592000" by (simp add: REVMAP_TTL_SEC_def)
  have "unat (now - created) = unat now - unat created" if "unat created \<le> unat now"
    using that by (simp add: unat_sub word_le_nat_alt)
  moreover have "unat (now - created) = 4294967296 + unat now - unat created" if "unat now < unat created"
    using that unat_sub_if' [of now created] u32_less [of created] by simp
  ultimately show ?thesis using u32_less [of created] by (auto simp: revmap_expired_def word_le_nat_alt ttl)
qed

theorem revmap_expired_clock_witness:
  "revmap_expired 100 200 \<and> \<not> revmap_expired 200 100"
  using revmap_expired_clock [of 200 100] revmap_expired_clock [of 100 200] by simp

context dl_provider
begin

lemma revmap_rows4: "x \<in> facts d REL_REVMAP \<Longrightarrow> length x = 4"
  using arity [of x d REL_REVMAP] by simp

lemma revmap_add_resolve:
  assumes "wf (db s)" "\<forall>x \<in> facts (db s) REL_REVMAP. dl_intern_str_of E (db s) (x ! 0) \<noteq> Some token"
    and "store_revmap_add_at E s token sender al ts = (Inr (), s1)" "store_revmap_resolve E now s1 token = (Inr r, s2)"
    and "\<not> revmap_expired now ts"
  shows "r = Some (sender, al)"
proof -
  obtain i d1 j d2 k d3 where i: "dl_intern_str E (db s) token = (i, d1)" "dl_intern_str E d1 sender = (j, d2)" "dl_intern_str E d2 al = (k, d3)"
    by (metis prod.exhaust)
  have ne: "token \<noteq> []" "i \<noteq> 0" "j \<noteq> 0" "k \<noteq> 0" and add: "\<exists>d'. dl_add_fact E d3 REL_REVMAP [i, j, k, ts] = (True, d') \<and> s1 = s\<lparr>db := d'\<rparr>"
    using assms(3) i by (auto simp: store_revmap_add_at_def split: if_splits prod.splits)
  then obtain d' where ad: "dl_add_fact E d3 REL_REVMAP [i, j, k, ts] = (True, d')" and s1: "s1 = s\<lparr>db := d'\<rparr>" by blast
  have ids: "dl_intern_str_of E d' i = Some token" "dl_intern_str_of E d' j = Some sender" "dl_intern_str_of E d' k = Some al"
    using intern3 [OF i ne(2-4)] add_syms [OF ad] by auto
  obtain n d where n: "dl_intern_str E d' token = (n, d)" by (cases "dl_intern_str E d' token")
  have ds: "db s1 = d'" using s1 by simp
  have res: "store_revmap_resolve E now s1 token =
    (if n = 0 then (Inl VISAGE_ENOMEM, s1\<lparr>db := d\<rparr>)
     else case dl_prefix E d REL_REVMAP [n] of
          None \<Rightarrow> (Inl VISAGE_ESTORE, s1\<lparr>db := d\<rparr>)
        | Some [] \<Rightarrow> (Inr None, s1\<lparr>db := d\<rparr>)
        | Some (cols # _) \<Rightarrow>
            if revmap_expired now (cols ! 3) then (Inr None, s1\<lparr>db := d\<rparr>)
            else case dl_intern_str_of E d (cols ! 1) of
              None \<Rightarrow> (Inl VISAGE_ESTORE, s1\<lparr>db := d\<rparr>)
            | Some snd_str \<Rightarrow>
                (case dl_intern_str_of E d (cols ! 2) of
                   None \<Rightarrow> (Inl VISAGE_ESTORE, s1\<lparr>db := d\<rparr>)
                 | Some al \<Rightarrow> (Inr (Some (snd_str, al)), s1\<lparr>db := d\<rparr>)))"
    using ne(1) n ds by (simp add: store_revmap_resolve_def)
  then have nz: "n \<noteq> 0" using assms(4) by auto
  have nd: "dl_intern_str_of E d n = Some token" using intern_result [OF n nz] .
  have ni: "n = i" using intern_unique [OF nd intern_mono [OF n ids(1)]] .
  obtain rows where rows: "dl_prefix E d REL_REVMAP [n] = Some rows" using res nz assms(4) by (cases "dl_prefix E d REL_REVMAP [n]") auto
  have fd: "facts d REL_REVMAP = insert [i, j, k, ts] (facts (db s) REL_REVMAP)"
    using intern_facts [OF n] add_done [OF ad] intern_facts [OF i(1)] intern_facts [OF i(2)] intern_facts [OF i(3)] by simp
  have old: "x ! 0 \<noteq> i" if x: "x \<in> facts (db s) REL_REVMAP" for x
  proof -
    obtain t where t: "dl_intern_str_of E (db s) (x ! 0) = Some t" using db_wfD [OF assms(1) x, of 0] by auto
    then have "dl_intern_str_of E d3 (x ! 0) = Some t" using i intern_mono by blast
    then show ?thesis using intern3 [OF i ne(2-4)] assms(2) x t by auto
  qed
  have "set rows = {[i, j, k, ts]}"
  proof -
    have "take 1 x \<noteq> [i]" if "x \<in> facts (db s) REL_REVMAP" for x
      using old [OF that] revmap_rows4 [OF that] by (cases x) auto
    then show ?thesis using prefix_rows [OF rows] unfolding fd ni by auto
  qed
  moreover have "distinct rows" using prefix_rows [OF rows] by blast
  ultimately have "rows = [[i, j, k, ts]]" by (cases rows) (auto simp: subset_singleton_iff)
  then show ?thesis using res nz rows assms(4,5) intern_mono [OF n ids(2)] intern_mono [OF n ids(3)] by simp
qed

end

text \<open>
  C33. A reply token leads back to the correspondent. On a well-formed store without a mapping for
  the token, once \<open>store_revmap_add\<close> has succeeded, every successful \<open>store_revmap_resolve\<close> of that
  token within thirty days returns exactly the recorded sender and alias.
\<close>

theorem revmap_roundtrip:
  assumes "dl_provider E F" "db_wf E F (db s)"
    and "\<forall>x \<in> F (db s) REL_REVMAP. dl_intern_str_of E (db s) (x ! 0) \<noteq> Some token"
    and "store_revmap_add E ts s token sender alias_addr = (Inr (), s1)"
    and "store_revmap_resolve E now s1 token = (Inr r, s2)"
    and "unat ts \<le> unat now" "unat now < unat ts + 30 * 24 * 3600"
  shows "r = Some (sender, alias_addr)"
proof -
  have "unat (now - ts) = unat now - unat ts" using assms(6) by (simp add: unat_sub word_le_nat_alt)
  then have "\<not> revmap_expired now ts" using assms(7) by (simp add: revmap_expired_def word_le_nat_alt REVMAP_TTL_SEC_def)
  then show ?thesis
    using dl_provider.revmap_add_resolve [OF assms(1-3) assms(4) [unfolded store_revmap_add_def] assms(5)] by blast
qed

theorem revmap_roundtrip_witness:
  "\<exists>s1 s2. store_revmap_add ref_engine 1000 ref_store ''tok'' ''joe@x'' ''me@y'' = (Inr (), s1)
     \<and> store_revmap_resolve ref_engine 2000 s1 ''tok'' = (Inr (Some (''joe@x'', ''me@y'')), s2)"
proof -
  let ?a = "store_revmap_add ref_engine 1000 ref_store ''tok'' ''joe@x'' ''me@y''"
  have a: "fst ?a = Inr ()" by code_simp
  have r: "isl (fst (store_revmap_resolve ref_engine 2000 (snd ?a) ''tok'')) = False" by code_simp
  obtain s1 where s1: "?a = (Inr (), s1)" using a by (metis prod.collapse)
  obtain x s2 where s2: "store_revmap_resolve ref_engine 2000 s1 ''tok'' = (Inr x, s2)"
    using r s1 by (metis isl_def prod.collapse snd_conv sum.collapse(2))
  have w: "db_wf ref_engine ref_facts (db ref_store)" using ref_store_inv by (simp add: store_inv_def)
  have n: "\<forall>x \<in> ref_facts (db ref_store) REL_REVMAP. dl_intern_str_of ref_engine (db ref_store) (x ! 0) \<noteq> Some ''tok''" by code_simp
  from revmap_roundtrip [OF ref.dl_provider_axioms w n s1 s2] s1 s2 show ?thesis by simp
qed

end
