(* ===== verification/Reply_Routing.thy ===== *)
theory Reply_Routing
  imports Store_Model Mail_Headers
begin

text \<open>
  Reverse-alias reply routing, \<open>reply.c\<close>: minting the token, building and parsing the reverse alias,
  routing an inbound reply through the store, building the rewrite strings of a forward, and
  stripping the reverse alias from To and Cc with a scanner for RFC 5322 address lists.

  A substring \<open>s[start..end)\<close> is the list of its bytes, indices are counted from its start, and the
  output buffer is the list of the bytes written; its allocation is taken to succeed.
\<close>

section \<open>Tokens and reverse aliases\<close>

definition hexdig :: "nat \<Rightarrow> char" where
  "hexdig n = ''0123456789abcdef'' ! n"

text \<open>\<open>rnd\<close> is what \<open>urandom16\<close> delivers: sixteen bytes, or \<open>None\<close> when the device fails.\<close>

definition reply_token_gen :: "string option \<Rightarrow> nat \<Rightarrow> string visage_result" where
  "reply_token_gen rnd outsz =
     (if outsz < 33 then Inl VISAGE_EPARAM
      else case rnd of
        None \<Rightarrow> Inl VISAGE_ERR
      | Some b \<Rightarrow>
          let b' = (if \<exists>x \<in> set b. x \<noteq> NUL then b else CHR 0x01 # tl b) in
          Inr (concat (map (\<lambda>x. [hexdig (byte x div 16), hexdig (byte x mod 16)]) b')))"

definition reply_make_reverse :: "ConfigReply \<Rightarrow> string \<Rightarrow> string \<Rightarrow> nat \<Rightarrow> string visage_result" where
  "reply_make_reverse cfg token alias_addr outsz =
     (if token = [] then Inl VISAGE_EPARAM
      else
        let local = takeWhile (\<lambda>c. c \<noteq> AT) alias_addr; rest = dropWhile (\<lambda>c. c \<noteq> AT) alias_addr in
        if rest = [] \<or> local = [] \<or> tl rest = [] then Inl VISAGE_EPARAM
        else
          let out = reply_prefix cfg @ reply_separator cfg @ token @ AT # tl rest in
          if length out + 1 > outsz then Inl VISAGE_ERR else Inr out)"

text \<open>\<open>strncmp(rcpt, prefix, plen) == 0\<close>, then the separator, then the token up to the \<open>@\<close>.\<close>

definition strip_prefix :: "string \<Rightarrow> string \<Rightarrow> string option" where
  "strip_prefix p s = (if take (length p) s = p then Some (drop (length p) s) else None)"

definition reply_token_extract :: "ConfigReply \<Rightarrow> string \<Rightarrow> string option" where
  "reply_token_extract cfg rcpt =
     (case strip_prefix (reply_prefix cfg) rcpt of
        None \<Rightarrow> None
      | Some p \<Rightarrow>
          (case strip_prefix (reply_separator cfg) p of
             None \<Rightarrow> None
           | Some p \<Rightarrow>
               let token = takeWhile (\<lambda>c. c \<noteq> AT) p; rest = dropWhile (\<lambda>c. c \<noteq> AT) p in
               if rest = [] \<or> token = [] \<or> tl rest = [] then None else Some token))"

text \<open>\<open>Inr (Some (sender, alias))\<close> is the return value 1, \<open>Inr None\<close> the 0.\<close>

definition reply_route_inbound ::
  "'d dl_engine \<Rightarrow> u32 \<Rightarrow> 'd Store \<Rightarrow> ConfigReply \<Rightarrow> string \<Rightarrow> (string \<times> string) option visage_result \<times> 'd Store" where
  "reply_route_inbound E now s cfg rcpt =
     (case reply_token_extract cfg rcpt of
        None \<Rightarrow> (Inr None, s)
      | Some token \<Rightarrow> store_revmap_resolve E now s token)"

section \<open>Rewrite strings\<close>

definition reply_from_rewrite :: "string \<Rightarrow> string \<Rightarrow> string" where
  "reply_from_rewrite sender reverse = DQ # sender @ [DQ, SP, CHR ''<''] @ reverse @ ''>''"

definition reply_rewrite_build :: "string \<Rightarrow> string \<Rightarrow> string \<Rightarrow> MailRewrite" where
  "reply_rewrite_build sender alias_addr reverse =
     \<lparr>received = None, return_path = Some alias_addr, rw_from = Some (reply_from_rewrite sender reverse),
      rw_sender = Some alias_addr, reply_to = Some reverse\<rparr>"

section \<open>Matching a mailbox\<close>

text \<open>The scan of \<open>mailbox_matches\<close>: the flags \<open>q\<close>, \<open>c\<close>, \<open>a\<close> and the bounds of the last angle address.\<close>

record mb_state =
  mb_q :: bool
  mb_c :: bool
  mb_a :: bool
  ang_s :: nat
  ang_e :: nat
  found_angle :: bool

fun mb_scan :: "nat \<Rightarrow> string \<Rightarrow> mb_state \<Rightarrow> mb_state" where
  "mb_scan i [] st = st"
| "mb_scan i [ch] st =
     (if mb_q st then (if ch = DQ then st\<lparr>mb_q := False\<rparr> else st)
      else if mb_c st then (if ch = CHR '')'' then st\<lparr>mb_c := False\<rparr> else st)
      else if mb_a st then (if ch = CHR ''>'' then st\<lparr>ang_e := i, mb_a := False, found_angle := True\<rparr> else st)
      else if ch = DQ then st\<lparr>mb_q := True\<rparr>
      else if ch = CHR ''('' then st\<lparr>mb_c := True\<rparr>
      else if ch = CHR ''<'' then st\<lparr>mb_a := True, ang_s := i + 1\<rparr>
      else st)"
| "mb_scan i (ch # ch' # s) st =
     (if mb_q st then
        (if ch = BSL then mb_scan (i + 2) s st
         else mb_scan (i + 1) (ch' # s) (if ch = DQ then st\<lparr>mb_q := False\<rparr> else st))
      else mb_scan (i + 1) (ch' # s)
        (if mb_c st then (if ch = CHR '')'' then st\<lparr>mb_c := False\<rparr> else st)
         else if mb_a st then (if ch = CHR ''>'' then st\<lparr>ang_e := i, mb_a := False, found_angle := True\<rparr> else st)
         else if ch = DQ then st\<lparr>mb_q := True\<rparr>
         else if ch = CHR ''('' then st\<lparr>mb_c := True\<rparr>
         else if ch = CHR ''<'' then st\<lparr>mb_a := True, ang_s := i + 1\<rparr>
         else st))"

definition mb_init :: mb_state where
  "mb_init = \<lparr>mb_q = False, mb_c = False, mb_a = False, ang_s = 0, ang_e = 0, found_angle = False\<rparr>"

text \<open>
  \<open>ascii_ieq_len\<close> after the length test is \<open>name_eq\<close>. When a second angle bracket opens after the
  last closed one, \<open>ang_s > ang_e\<close> and the unsigned length difference never equals \<open>tlen\<close>.
\<close>

definition mailbox_matches :: "string \<Rightarrow> string \<Rightarrow> bool" where
  "mailbox_matches m target =
     (let st = mb_scan 0 m mb_init in
      if found_angle st then
        if ang_s st > ang_e st then False
        else name_eq (rtrim (ltrim (drop (ang_s st) (take (ang_e st) m)))) target
      else name_eq (rev (takeWhile (\<lambda>c. \<not> is_wsp c) (rev (rtrim m)))) target)"

section \<open>Address lists\<close>

record sc_state =
  sc_q :: bool
  sc_c :: bool
  sc_a :: bool
  sc_d :: bool
  sc_depth :: nat
  sc_colon :: "nat option"

definition sc_init :: sc_state where
  "sc_init = \<lparr>sc_q = False, sc_c = False, sc_a = False, sc_d = False, sc_depth = 0, sc_colon = None\<rparr>"

text \<open>One character outside a quoted pair; \<open>None\<close> when the element ends (a comma or a closing semicolon).\<close>

definition sc_step :: "nat \<Rightarrow> char \<Rightarrow> sc_state \<Rightarrow> sc_state option" where
  "sc_step i ch st =
     (if sc_q st then Some (if ch = DQ then st\<lparr>sc_q := False\<rparr> else st)
      else if sc_c st then Some (if ch = CHR '')'' then st\<lparr>sc_c := False\<rparr> else st)
      else if sc_a st then Some (if ch = CHR ''>'' then st\<lparr>sc_a := False\<rparr> else st)
      else if sc_d st then Some (if ch = CHR '']'' then st\<lparr>sc_d := False\<rparr> else st)
      else if ch = DQ then Some (st\<lparr>sc_q := True\<rparr>)
      else if ch = CHR ''('' then Some (st\<lparr>sc_c := True\<rparr>)
      else if ch = CHR ''<'' then Some (st\<lparr>sc_a := True\<rparr>)
      else if ch = CHR ''['' then Some (st\<lparr>sc_d := True\<rparr>)
      else if ch = CHR '':'' then
        Some (st\<lparr>sc_depth := sc_depth st + 1, sc_colon := (if sc_depth st = 0 then Some i else sc_colon st)\<rparr>)
      else if ch = CHR '';'' then
        (if sc_depth st = 1 then None
         else Some (st\<lparr>sc_depth := sc_depth st - 1\<rparr>))
      else if ch = CHR '','' then (if sc_depth st = 0 then None else Some st)
      else Some st)"

text \<open>
  \<open>scan_address\<close>: the index past the element, the index of the group colon (\<open>is_group\<close> iff present)
  and the index of its semicolon.
\<close>

fun scan_address :: "nat \<Rightarrow> string \<Rightarrow> sc_state \<Rightarrow> nat \<times> nat option \<times> nat option" where
  "scan_address i [] st = (i, sc_colon st, None)"
| "scan_address i [ch] st =
     (case sc_step i ch st of
        Some st' \<Rightarrow> (i + 1, sc_colon st', None)
      | None \<Rightarrow> if ch = CHR '';'' then (i + 1, sc_colon st, Some i) else (i, sc_colon st, None))"
| "scan_address i (ch # ch' # s) st =
     (if sc_q st \<and> ch = BSL then scan_address (i + 2) s st
      else case sc_step i ch st of
        Some st' \<Rightarrow> scan_address (i + 1) (ch' # s) st'
      | None \<Rightarrow> if ch = CHR '';'' then (i + 1, sc_colon st, Some i) else (i, sc_colon st, None))"

definition list_sep :: "char \<Rightarrow> bool" where
  "list_sep c \<longleftrightarrow> c = CHR '','' \<or> c = SP \<or> c = HT"

definition ob_put_elem :: "string \<Rightarrow> string \<Rightarrow> string" where
  "ob_put_elem out e =
     (let t = rtrim (ltrim e) in
      if t = [] then out else out @ (if out \<noteq> [] then '', '' else []) @ t)"

lemma scan_address_ge: "i \<le> fst (scan_address i s st) \<and> fst (scan_address i s st) \<le> i + length s"
  by (induction i s st rule: scan_address.induct) (auto split: option.splits)

lemma scan_address_semi: "scan_address i s st = (n, cl, Some sm) \<Longrightarrow> i \<le> sm \<and> sm < n \<and> n \<le> i + length s"
  by (induction i s st rule: scan_address.induct) (auto split: option.splits if_splits)

lemma sc_step_init: "ch \<noteq> CHR '','' \<Longrightarrow> sc_step i ch sc_init \<noteq> None"
  by (auto simp: sc_step_def sc_init_def)

lemma scan_address_progress:
  assumes "s \<noteq> []" "hd s \<noteq> CHR '',''"
  shows "0 < fst (scan_address 0 s sc_init)"
proof (cases s)
  case (Cons ch t)
  obtain st' where st: "sc_step 0 ch sc_init = Some st'" using sc_step_init assms Cons by (metis list.sel(1) not_None_eq)
  show ?thesis
  proof (cases t)
    case Nil
    then show ?thesis using Cons st by simp
  next
    case (Cons ch' u)
    then show ?thesis using \<open>s = ch # t\<close> st scan_address_ge [of 1 "ch' # u" st'] by (auto simp: sc_init_def)
  qed
qed (use assms in simp)

lemma addr_rest_less:
  assumes "dropWhile list_sep s0 \<noteq> []" "(n, q) = scan_address 0 (dropWhile list_sep s0) sc_init"
  shows "length (dropWhile list_sep s0) - n < length s0"
proof -
  have "hd (dropWhile list_sep s0) \<noteq> CHR '',''" using hd_dropWhile [OF assms(1)] by (auto simp: list_sep_def)
  from scan_address_progress [OF assms(1) this] have "0 < n" using assms(2) by (metis fst_conv)
  moreover have "0 < length (dropWhile list_sep s0)" using assms(1) by simp
  ultimately show ?thesis using length_dropWhile_le [of list_sep s0] by linarith
qed

lemma addr_body_less:
  assumes "dropWhile list_sep s0 \<noteq> []"
  shows "min (length (dropWhile list_sep s0) - Suc c) m < length s0"
proof -
  have "0 < length (dropWhile list_sep s0)" using assms by simp
  then show ?thesis using length_dropWhile_le [of list_sep s0] by linarith
qed

text \<open>
  \<open>addr_list_process\<close> on the rest of the list, with the output written so far and the flag
  \<open>*matched\<close>. A closed group is processed recursively on its body.
\<close>

function addr_list_process :: "string \<Rightarrow> string \<Rightarrow> string \<Rightarrow> bool \<Rightarrow> string \<times> bool" where
  "addr_list_process s0 target out matched =
     (let s = dropWhile list_sep s0 in
      if s = [] then (out, matched)
      else case scan_address 0 s sc_init of (n, cl, sm) \<Rightarrow>
        let elem = take n s; rest = drop n s in
        case cl of
          None \<Rightarrow>
            if mailbox_matches elem target then addr_list_process rest target out True
            else addr_list_process rest target (ob_put_elem out elem) matched
        | Some colon \<Rightarrow>
            (case sm of
               None \<Rightarrow> addr_list_process rest target (ob_put_elem out elem) matched
             | Some semi \<Rightarrow>
                 if ltrim (take colon s) = [] then addr_list_process rest target (ob_put_elem out elem) matched
                 else case addr_list_process (take (semi - (colon + 1)) (drop (colon + 1) s)) target [] False of (body, bm) \<Rightarrow>
                   if body = [] then
                     (if bm then addr_list_process rest target out True
                      else addr_list_process rest target (ob_put_elem out elem) matched)
                   else addr_list_process rest target
                     (out @ (if out \<noteq> [] then '', '' else []) @ take (colon + 1) s @ '' '' @ body @ drop semi elem)
                     (matched \<or> bm)))"
  by pat_completeness auto
termination
  by (relation "measure (\<lambda>(s, _, _, _). length s)") (auto simp del: dropWhile_eq_Nil_conv dest: addr_rest_less intro: addr_body_less)

declare addr_list_process.simps [simp del]

text \<open>\<open>Some list\<close> is the return value 1 (a mailbox was removed), \<open>None\<close> the 0.\<close>

definition addr_list_strip :: "string \<Rightarrow> string \<Rightarrow> string option" where
  "addr_list_strip lst target =
     (case addr_list_process lst target [] False of (out, matched) \<Rightarrow> if matched then Some out else None)"

definition strip_header :: "string \<Rightarrow> string \<Rightarrow> string \<Rightarrow> string" where
  "strip_header name reverse msg =
     (case mail_header_get msg name (length msg + 1) of
        None \<Rightarrow> msg
      | Some val \<Rightarrow>
          (case addr_list_strip (cstr val) reverse of
             None \<Rightarrow> msg
           | Some stripped \<Rightarrow>
               if stripped = [] then (case mail_header_remove msg name of None \<Rightarrow> msg | Some m \<Rightarrow> m)
               else (case mail_header_set msg name stripped of None \<Rightarrow> msg | Some m \<Rightarrow> m)))"

definition reply_strip_reverse :: "string \<Rightarrow> string \<Rightarrow> string visage_result" where
  "reply_strip_reverse msg reverse =
     (if reverse = [] then Inl VISAGE_EPARAM
      else Inr (strip_header ''Cc'' reverse (strip_header ''To'' reverse msg)))"

end
