(* ===== verification/Reply_Proofs.thy ===== *)
theory Reply_Proofs
  imports Reply_Routing Store_Properties
begin

text \<open>
  What reply routing guarantees: tokens are well formed and the reverse alias leads back to its
  token, a reply to a reverse alias that was minted and recorded is routed to the recorded
  correspondent, and stripping an address list removes exactly the matching mailboxes.
\<close>

section \<open>Tokens\<close>

definition lower_hex :: "char \<Rightarrow> bool" where
  "lower_hex c \<longleftrightarrow> is_digit c \<or> (97 \<le> byte c \<and> byte c \<le> 102)"

lemma less16: "(n::nat) < 16 \<Longrightarrow> n \<in> set [0..<16]"
  by simp

lemma hexdig_hex: "n < 16 \<Longrightarrow> lower_hex (hexdig n)"
proof -
  have "\<forall>n \<in> set [0..<16]. lower_hex (hexdig n)" by code_simp
  then show "n < 16 \<Longrightarrow> lower_hex (hexdig n)" using less16 by blast
qed

lemma hexdig_zero: "n < 16 \<Longrightarrow> hexdig n = CHR ''0'' \<longleftrightarrow> n = 0"
proof -
  have "\<forall>n \<in> set [0..<16]. hexdig n = CHR ''0'' \<longleftrightarrow> n = 0" by code_simp
  then show "n < 16 \<Longrightarrow> hexdig n = CHR ''0'' \<longleftrightarrow> n = 0" using less16 by blast
qed

definition hex_bytes :: "string \<Rightarrow> string" where
  "hex_bytes b = concat (map (\<lambda>x. [hexdig (byte x div 16), hexdig (byte x mod 16)]) b)"

lemma hex_bytes_length: "length (hex_bytes b) = 2 * length b"
  by (induction b) (auto simp: hex_bytes_def)

lemma byte_nibbles: "byte x div 16 < 16 \<and> byte x mod 16 < 16"
  using byte_less [of x] by (simp add: div_less_iff_less_mult)

lemma hex_bytes_hex: "c \<in> set (hex_bytes b) \<Longrightarrow> lower_hex c"
  using byte_nibbles by (auto simp: hex_bytes_def hexdig_hex)

lemma hex_bytes_nonzero:
  assumes "x \<in> set b" "x \<noteq> NUL"
  shows "\<exists>c \<in> set (hex_bytes b). c \<noteq> CHR ''0''"
proof -
  have "byte x \<noteq> 0" using assms(2) byte_inject [of x NUL] by simp
  then have "byte x div 16 \<noteq> 0 \<or> byte x mod 16 \<noteq> 0" by presburger
  then have "hexdig (byte x div 16) \<noteq> CHR ''0'' \<or> hexdig (byte x mod 16) \<noteq> CHR ''0''"
    using byte_nibbles hexdig_zero by metis
  then show ?thesis using assms(1) by (auto simp: hex_bytes_def)
qed

text \<open>
  A token is fit for a mailbox name and never predictable by construction: with sixteen random
  bytes the generator yields thirty-two lower-case hexadecimal digits that are not all zero, and
  when the random device fails it refuses to produce a token.
\<close>

theorem reply_token_gen_format:
  "(length b = 16 \<and> 33 \<le> outsz \<longrightarrow> (\<exists>t. reply_token_gen (Some b) outsz = Inr t \<and> length t = 32
      \<and> (\<forall>c \<in> set t. lower_hex c) \<and> (\<exists>c \<in> set t. c \<noteq> CHR ''0'')))
   \<and> (\<exists>e. reply_token_gen None outsz = Inl e)"
proof -
  have "\<exists>t. reply_token_gen (Some b) outsz = Inr t \<and> length t = 32
      \<and> (\<forall>c \<in> set t. lower_hex c) \<and> (\<exists>c \<in> set t. c \<noteq> CHR ''0'')" if l: "length b = 16" and o: "33 \<le> outsz"
  proof -
    define b' where "b' = (if \<exists>x \<in> set b. x \<noteq> NUL then b else CHR 0x01 # tl b)"
    have len: "length b' = 16" using l by (simp add: b'_def)
    obtain x where x: "x \<in> set b'" "x \<noteq> NUL" by (cases "\<exists>x \<in> set b. x \<noteq> NUL") (auto simp: b'_def)
    have "reply_token_gen (Some b) outsz = Inr (hex_bytes b')"
      using o by (simp add: reply_token_gen_def hex_bytes_def b'_def Let_def)
    then show ?thesis using hex_bytes_length [of b'] len hex_bytes_hex hex_bytes_nonzero [OF x] by auto
  qed
  then show ?thesis by (auto simp: reply_token_gen_def)
qed

theorem reply_token_gen_format_witness:
  "\<exists>t. reply_token_gen (Some (replicate 16 NUL)) 33 = Inr t \<and> (\<exists>c \<in> set t. c \<noteq> CHR ''0'')"
  using reply_token_gen_format [of "replicate 16 NUL" 33] by auto

section \<open>The reverse alias\<close>

definition reverse_addr :: "ConfigReply \<Rightarrow> string \<Rightarrow> string \<Rightarrow> string" where
  "reverse_addr cfg domain token = reply_prefix cfg @ reply_separator cfg @ token @ AT # domain"

definition token_ok :: "string \<Rightarrow> bool" where
  "token_ok t \<longleftrightarrow> t \<noteq> [] \<and> AT \<notin> set t"

interpretation rv: coding "reverse_addr cfg dm" "reply_token_extract cfg" "\<lambda>t. dm \<noteq> [] \<and> token_ok t"
proof
  fix t
  assume t: "dm \<noteq> [] \<and> token_ok t"
  then have "\<forall>c \<in> set t. c \<noteq> AT" by (auto simp: token_ok_def)
  then show "reply_token_extract cfg (reverse_addr cfg dm t) = Some t"
    using t by (simp add: reply_token_extract_def reverse_addr_def strip_prefix_def takeWhile_all dropWhile_all token_ok_def)
qed

lemma make_reverse_addr:
  assumes "reply_make_reverse cfg t al sz = Inr ra"
  shows "\<exists>dm. dm \<noteq> [] \<and> t \<noteq> [] \<and> ra = reverse_addr cfg dm t"
  using assms by (auto simp: reply_make_reverse_def reverse_addr_def Let_def split: if_splits)

lemma lower_hex_not_AT: "lower_hex c \<Longrightarrow> c \<noteq> AT"
  by (auto simp: lower_hex_def is_digit_def)

lemma make_reverse_extract:
  "reply_make_reverse cfg t al sz = Inr ra \<Longrightarrow> AT \<notin> set t \<Longrightarrow> reply_token_extract cfg ra = Some t"
  using make_reverse_addr [of cfg t al sz ra] rv.dec_enc by (auto simp: token_ok_def)

text \<open>
  C14. A reply reaches the original correspondent. When a token without an at-sign is recorded for a
  sender and an alias and the reverse alias is built from it, then mail to that reverse alias is
  routed, within thirty days and when the store answers, to exactly that sender on behalf of that
  alias.
\<close>

theorem reply_routes_back:
  assumes "dl_provider E F" "db_wf E F (db s)"
    and "\<forall>x \<in> F (db s) REL_REVMAP. dl_intern_str_of E (db s) (x ! 0) \<noteq> Some token" "AT \<notin> set token"
    and "store_revmap_add E ts s token sender alias_addr = (Inr (), s1)"
    and "reply_make_reverse cfg token alias_addr outsz = Inr reverse"
    and "reply_route_inbound E now s1 cfg reverse = (Inr r, s2)"
    and "\<not> revmap_expired now ts"
  shows "r = Some (sender, alias_addr)"
proof -
  have "reply_token_extract cfg reverse = Some token" using make_reverse_extract assms(4,6) by blast
  then have "store_revmap_resolve E now s1 token = (Inr r, s2)" using assms(7) by (simp add: reply_route_inbound_def)
  then show ?thesis
    using dl_provider.revmap_add_resolve [OF assms(1-3) assms(5) [unfolded store_revmap_add_def]] assms(8) by blast
qed

definition demo_reply_cfg :: ConfigReply where
  "demo_reply_cfg = \<lparr>reply_prefix = ''reply'', reply_separator = ''+''\<rparr>"

theorem reply_routes_back_witness:
  "\<exists>s1 s2. store_revmap_add ref_engine 1000 ref_store ''0f'' ''joe@x'' ''me@y'' = (Inr (), s1)
     \<and> reply_route_inbound ref_engine 2000 s1 demo_reply_cfg ''reply+0f@y'' = (Inr (Some (''joe@x'', ''me@y'')), s2)"
proof -
  let ?a = "store_revmap_add ref_engine 1000 ref_store ''0f'' ''joe@x'' ''me@y''"
  have a: "fst ?a = Inr ()" by code_simp
  have r: "isl (fst (reply_route_inbound ref_engine 2000 (snd ?a) demo_reply_cfg ''reply+0f@y'')) = False" by code_simp
  obtain s1 where s1: "?a = (Inr (), s1)" using a by (metis prod.collapse)
  obtain x s2 where s2: "reply_route_inbound ref_engine 2000 s1 demo_reply_cfg ''reply+0f@y'' = (Inr x, s2)"
    using r s1 by (metis isl_def prod.collapse snd_conv sum.collapse(2))
  have w: "db_wf ref_engine ref_facts (db ref_store)" using ref_store_inv by (simp add: store_inv_def)
  have n: "\<forall>x \<in> ref_facts (db ref_store) REL_REVMAP. dl_intern_str_of ref_engine (db ref_store) (x ! 0) \<noteq> Some ''0f''"
    "AT \<notin> set ''0f''" "reply_make_reverse demo_reply_cfg ''0f'' ''me@y'' 64 = Inr ''reply+0f@y''" "\<not> revmap_expired 2000 1000"
    by code_simp+
  from reply_routes_back [OF ref.dl_provider_axioms w n(1,2) s1 n(3) s2 n(4)] s1 s2 show ?thesis by simp
qed

section \<open>Stripping an address list\<close>

text \<open>
  The scanner as a run over a complete element: \<open>None\<close> if the element ends inside it. An element
  is closed when the run leaves no quote, comment, bracket or group open.
\<close>

fun sc_run :: "nat \<Rightarrow> string \<Rightarrow> sc_state \<Rightarrow> sc_state option" where
  "sc_run i [] st = Some st"
| "sc_run i [ch] st = sc_step i ch st"
| "sc_run i (ch # ch' # s) st =
     (if sc_q st \<and> ch = BSL then sc_run (i + 2) s st
      else case sc_step i ch st of None \<Rightarrow> None | Some st' \<Rightarrow> sc_run (i + 1) (ch' # s) st')"

definition closed_mailbox :: "string \<Rightarrow> bool" where
  "closed_mailbox m \<longleftrightarrow> m \<noteq> [] \<and> \<not> list_sep (hd m) \<and> \<not> is_wsp (last m) \<and> sc_run 0 m sc_init = Some sc_init"

lemma scan_comma: "scan_address i (CHR '','' # r) sc_init = (i, None, None)"
  by (cases r) (simp_all add: sc_step_def sc_init_def)

lemma scan_closed:
  "sc_run i m st = Some sc_init \<Longrightarrow>
   scan_address i (m @ CHR '','' # r) st = (i + length m, None, None) \<and> scan_address i m st = (i + length m, None, None)"
proof (induction i m st rule: sc_run.induct)
  case (1 i st)
  then show ?case using scan_comma by (simp add: sc_init_def)
next
  case (2 i ch st)
  then have s: "sc_step i ch st = Some sc_init" by simp
  moreover have "\<not> (sc_q st \<and> ch = BSL)" using s by (auto simp: sc_step_def sc_init_def)
  ultimately show ?case using scan_comma [of "i + 1" r] by (auto simp: sc_init_def)
next
  case (3 i ch ch' s st)
  then show ?case by (auto split: option.splits if_splits)
qed

fun join_elems :: "string list \<Rightarrow> string" where
  "join_elems [] = []"
| "join_elems [m] = m"
| "join_elems (m # m' # ms) = m @ '', '' @ join_elems (m' # ms)"

lemma closed_dropWhile: "closed_mailbox m \<Longrightarrow> dropWhile list_sep (m @ r) = m @ r"
  by (cases m) (auto simp: closed_mailbox_def)

lemma closed_trim: "closed_mailbox m \<Longrightarrow> rtrim (ltrim m) = m"
  by (auto simp: closed_mailbox_def list_sep_def is_wsp_def ltrim_id rtrim_id)

definition put_all :: "string \<Rightarrow> string list \<Rightarrow> string" where
  "put_all out ms = foldl ob_put_elem out ms"

lemma process_sep: "addr_list_process ('', '' @ s) t out mt = addr_list_process s t out mt"
proof -
  have d: "dropWhile list_sep ('', '' @ s) = dropWhile list_sep s" by (simp add: list_sep_def)
  show ?thesis by (subst (1 2) addr_list_process.simps) (simp only: d)
qed

lemma process_elem:
  assumes "closed_mailbox m" "r = [] \<or> (\<exists>u. r = CHR '','' # u)"
  shows "addr_list_process (m @ r) t out mt =
    (if mailbox_matches m t then addr_list_process r t out True else addr_list_process r t (ob_put_elem out m) mt)"
proof -
  have "scan_address 0 (m @ r) sc_init = (length m, None, None)"
    using scan_closed [of 0 m sc_init] assms by (auto simp: closed_mailbox_def)
  moreover have "m \<noteq> []" using assms(1) by (simp add: closed_mailbox_def)
  ultimately show ?thesis
    by (subst addr_list_process.simps) (simp add: closed_dropWhile [OF assms(1)] Let_def)
qed

lemma process_join:
  "\<forall>m \<in> set ms. closed_mailbox m \<Longrightarrow>
   addr_list_process (join_elems ms) t out mt =
     (put_all out (filter (\<lambda>m. \<not> mailbox_matches m t) ms), mt \<or> (\<exists>m \<in> set ms. mailbox_matches m t))"
proof (induction ms arbitrary: out mt rule: join_elems.induct)
  case 1
  then show ?case by (simp add: addr_list_process.simps put_all_def)
next
  case (2 m)
  then show ?case using process_elem [of m "[]" t out mt] by (auto simp: addr_list_process.simps put_all_def)
next
  case (3 m m' ms)
  have "addr_list_process (m @ '', '' @ join_elems (m' # ms)) t out mt =
    (if mailbox_matches m t then addr_list_process (join_elems (m' # ms)) t out True
     else addr_list_process (join_elems (m' # ms)) t (ob_put_elem out m) mt)"
    using process_elem [of m "'', '' @ join_elems (m' # ms)" t out mt] 3(2) process_sep by auto
  then show ?case using 3 by (auto simp: put_all_def)
qed

lemma put_all_join:
  "\<forall>m \<in> set ms. closed_mailbox m \<Longrightarrow> put_all out ms = out @ (if out \<noteq> [] \<and> ms \<noteq> [] then '', '' else []) @ join_elems ms"
proof (induction ms arbitrary: out rule: join_elems.induct)
  case (2 m)
  then show ?case using closed_trim [of m] by (auto simp: put_all_def ob_put_elem_def Let_def closed_mailbox_def)
next
  case (3 m m' ms)
  have "m \<noteq> []" "rtrim (ltrim m) = m" using 3(2) closed_trim by (auto simp: closed_mailbox_def)
  then have p: "ob_put_elem out m = out @ (if out \<noteq> [] then '', '' else []) @ m" by (simp add: ob_put_elem_def)
  have "put_all out (m # m' # ms) = put_all (ob_put_elem out m) (m' # ms)" by (simp add: put_all_def)
  also have "\<dots> = ob_put_elem out m @ '', '' @ join_elems (m' # ms)"
    using 3(1) [of "ob_put_elem out m"] 3(2) p \<open>m \<noteq> []\<close> by simp
  finally show ?case using p by simp
qed (simp add: put_all_def)

text \<open>
  C39. Stripping removes exactly the mailboxes of the reverse alias. On a comma-separated list of
  closed mailboxes (quoted strings, comments, angle addresses and domain literals may contain
  commas), \<open>addr_list_strip\<close> returns the list of the mailboxes that do not match the target, in
  order, and reports no match exactly when there is none.
\<close>

theorem addr_list_strip_exact:
  assumes "\<forall>m \<in> set ms. closed_mailbox m"
  shows "addr_list_strip (join_elems ms) target =
    (if \<exists>m \<in> set ms. mailbox_matches m target
     then Some (join_elems (filter (\<lambda>m. \<not> mailbox_matches m target) ms)) else None)"
  using process_join [OF assms, of target "[]" False] put_all_join [of "filter (\<lambda>m. \<not> mailbox_matches m target) ms" "[]"] assms
  by (simp add: addr_list_strip_def)

theorem addr_list_strip_exact_witness:
  "addr_list_strip (join_elems [''Joe <joe@x>'', DQ # ''a,b'' @ [DQ] @ '' <REPLY+1@y>'', ''z@w'']) ''reply+1@y''
     = Some ''Joe <joe@x>, z@w''"
proof -
  let ?ms = "[''Joe <joe@x>'', DQ # ''a,b'' @ [DQ] @ '' <REPLY+1@y>'', ''z@w'']"
  have c: "\<forall>m \<in> set ?ms. closed_mailbox m" by code_simp
  have "(\<exists>m \<in> set ?ms. mailbox_matches m ''reply+1@y'')"
    "join_elems (filter (\<lambda>m. \<not> mailbox_matches m ''reply+1@y'') ?ms) = ''Joe <joe@x>, z@w''" by code_simp+
  then show ?thesis using addr_list_strip_exact [OF c, of "''reply+1@y''"] by simp
qed

end
