(* ===== verification/Smtp_Data.thy ===== *)
theory Smtp_Data
  imports Mail_Body Mail_Address
begin

text \<open>
  The pure parsers of the inbound SMTP server (\<open>smtp_in.c\<close>): the argument of MAIL and RCPT, the
  SIZE parameter, the resumable scan for the end of the DATA text, and the names of spool files.
  A command line is a C string, so its model has no NUL and reading at its end gives NUL.
\<close>

section \<open>Command arguments\<close>

definition SMTP_MAX_LINE :: nat where
  "SMTP_MAX_LINE = 1000"

definition c_head :: "string \<Rightarrow> char" where
  "c_head s = (case s of [] \<Rightarrow> NUL | c # _ \<Rightarrow> c)"

fun ascii_strncasecmp :: "string \<Rightarrow> string \<Rightarrow> nat \<Rightarrow> int" where
  "ascii_strncasecmp a b n =
     (if n = 0 then 0
      else
        let ca = to_lower (c_head a); cb = to_lower (c_head b) in
        if ca \<noteq> cb then int (byte ca) - int (byte cb)
        else if ca = NUL then 0
        else ascii_strncasecmp (tl a) (tl b) (n - 1))"

declare ascii_strncasecmp.simps [simp del]

fun ascii_ieq_str :: "string \<Rightarrow> string \<Rightarrow> bool" where
  "ascii_ieq_str (x # a) (y # b) = (if to_lower x \<noteq> to_lower y then False else ascii_ieq_str a b)"
| "ascii_ieq_str a b = (c_head a = c_head b)"

text \<open>
  \<open>parse_addr_arg\<close>: \<open>KEY\<close>, spaces, a colon, spaces, and a path in angle brackets that fits the
  caller's buffer; \<open>None\<close> is the \<open>-1\<close> return.
\<close>

definition skip_spaces :: "string \<Rightarrow> string" where
  "skip_spaces s = dropWhile (\<lambda>c. c = SP) s"

definition parse_addr_arg :: "string \<Rightarrow> string \<Rightarrow> nat \<Rightarrow> (string \<times> string) option" where
  "parse_addr_arg rest key pathsz =
     (if ascii_strncasecmp rest key (length key) \<noteq> 0 then None
      else
        let p = skip_spaces (drop (length key) rest) in
        if c_head p \<noteq> CHR '':'' then None
        else
          let p = skip_spaces (tl p) in
          if c_head p \<noteq> CHR ''<'' then None
          else
            let p = tl p;
                path = takeWhile (\<lambda>c. c \<noteq> CHR ''>'') p;
                gt = dropWhile (\<lambda>c. c \<noteq> CHR ''>'') p in
            if gt = [] then None
            else if length path \<ge> pathsz then None
            else Some (path, tl gt))"

text \<open>The digits of a SIZE value, accumulated in 64 bits with the overflow guard of the code.\<close>

fun size_digits :: "u64 \<Rightarrow> string \<Rightarrow> u64 option" where
  "size_digits v [] = Some v"
| "size_digits v (ch # ds) =
     (if \<not> is_digit ch then None
      else
        let d = of_nat (digit_val ch) in
        if v > (- 1 - d) div 10 then None
        else size_digits (v * 10 + d) ds)"

text \<open>
  \<open>smtp_in_parse_size\<close> on a tail of space-separated tokens: \<open>None\<close> is the \<open>-1\<close> return,
  \<open>Some None\<close> is success with no SIZE token.
\<close>

lemma skip_token_shorter: "p \<noteq> [] \<Longrightarrow> length (dropWhile (\<lambda>c. c \<noteq> SP) (skip_spaces p)) < length p"
proof (cases p)
  case (Cons c cs)
  have a: "length (dropWhile P xs) \<le> length xs" for P and xs :: string by (rule length_dropWhile_le)
  show ?thesis
  proof (cases "c = SP")
    case True
    then have "skip_spaces p = skip_spaces cs" using Cons by (simp add: skip_spaces_def)
    then show ?thesis using a [of "\<lambda>c. c \<noteq> SP" "skip_spaces cs"] a [of "\<lambda>c. c = SP" cs] Cons by (simp add: skip_spaces_def)
  next
    case False
    then show ?thesis using a [of "\<lambda>c. c \<noteq> SP" cs] Cons by (simp add: skip_spaces_def)
  qed
qed simp

function smtp_in_parse_size :: "string \<Rightarrow> u64 option option" where
  "smtp_in_parse_size p =
     (if p = [] then Some None
      else
        let p1 = skip_spaces p;
            tok = takeWhile (\<lambda>c. c \<noteq> SP) p1;
            p2 = dropWhile (\<lambda>c. c \<noteq> SP) p1 in
        if 5 \<le> length tok \<and> ascii_strncasecmp tok ''SIZE='' 5 = 0 then
          let d = drop 5 tok in
          if d = [] then None else map_option Some (size_digits 0 d)
        else smtp_in_parse_size p2)"
  by pat_completeness auto
termination
  by (relation "measure length") (auto simp: skip_token_shorter)

declare smtp_in_parse_size.simps [simp del]

definition path_clean :: "string \<Rightarrow> bool" where
  "path_clean p \<longleftrightarrow>
     (\<forall>q \<in> set p. \<not> (byte q < 0x21 \<or> byte q > 0x7e) \<and> q \<noteq> DQ \<and> q \<noteq> CHR ''<'' \<and> q \<noteq> CHR ''>'')"

section \<open>The end of the DATA text\<close>

text \<open>
  \<open>data_scan\<close> on the raw buffer: \<open>i\<close> is the read cursor, \<open>ls\<close> the start of the current line. The
  result of the loop is one of the returns inside it or the state in which it ends
  (\<open>line_start\<close> and \<open>trailing_cr\<close>).
\<close>

datatype scan_loop_result =
    Loop_found nat nat
  | Loop_too_long
  | Loop_end nat bool

function data_scan_loop :: "string \<Rightarrow> nat \<Rightarrow> nat \<Rightarrow> nat \<Rightarrow> scan_loop_result" where
  "data_scan_loop buf line_max i ls =
     (if i \<ge> length buf then Loop_end ls False
      else
        let ch = buf ! i in
        if ch = LF then
          let content_end = (if i > ls \<and> buf ! (i - 1) = CR then i - 1 else i);
              clen = content_end - ls in
          if clen > line_max then Loop_too_long
          else if clen = 1 \<and> buf ! ls = DOT then Loop_found ls (i + 1 - ls)
          else data_scan_loop buf line_max (i + 1) (i + 1)
        else if ch = CR then
          if i + 1 < length buf \<and> buf ! (i + 1) = LF then data_scan_loop buf line_max (i + 1) ls
          else
            let clen = i - ls in
            if clen > line_max then Loop_too_long
            else if clen = 1 \<and> buf ! ls = DOT then Loop_found ls (i + 1 - ls)
            else if i + 1 = length buf then Loop_end ls True
            else data_scan_loop buf line_max (i + 1) (i + 1)
        else data_scan_loop buf line_max (i + 1) ls)"
  by pat_completeness auto
termination
  by (relation "measure (\<lambda>(buf, line_max, i, ls). length buf - i)") auto

declare data_scan_loop.simps [simp del]

datatype scan_result =
    Scan_found (msg_end: nat) (term_len: nat)
  | Scan_error
  | Scan_more (scan_pos': nat)

definition data_scan :: "string \<Rightarrow> u32 \<Rightarrow> u64 \<Rightarrow> nat \<Rightarrow> scan_result" where
  "data_scan buf max_line max_total scan_pos =
     (let line_max = unat max_line + 1 in
      case data_scan_loop buf line_max scan_pos scan_pos of
        Loop_found e t \<Rightarrow> Scan_found e t
      | Loop_too_long \<Rightarrow> Scan_error
      | Loop_end line_start trailing_cr \<Rightarrow>
          if length buf > unat max_total then Scan_error
          else if \<not> trailing_cr \<and> length buf - line_start > line_max then Scan_error
          else Scan_more line_start)"

section \<open>Spool file names\<close>

text \<open>\<open>spool_out_path\<close> into a buffer of \<open>bufsz\<close> bytes; \<open>None\<close> when the name does not fit.\<close>

definition spool_out_name :: "u32 \<Rightarrow> u32 \<Rightarrow> string" where
  "spool_out_name msgid k = dec_of_nat (unat msgid) @ ''.'' @ dec_of_nat (unat k) @ ''.out.eml''"

definition spool_out_path :: "string \<Rightarrow> u32 \<Rightarrow> u32 \<Rightarrow> nat \<Rightarrow> string option" where
  "spool_out_path spool msgid k bufsz =
     (let p = spool @ ''/'' @ spool_out_name msgid k in if length p \<ge> bufsz then None else Some p)"

text \<open>A run of digits as a number that must stay within 32 bits, and the text after it.\<close>

fun spool_number :: "nat \<Rightarrow> string \<Rightarrow> (nat \<times> string) option" where
  "spool_number m [] = Some (m, [])"
| "spool_number m (p # ps) =
     (if is_digit p then
        let m' = m * 10 + digit_val p in
        if m' > 4294967295 then None else spool_number m' ps
      else Some (m, p # ps))"

datatype spool_shape =
    Spool_foreign
  | Spool_in u32
  | Spool_out u32 u32

definition spool_name_parse :: "string \<Rightarrow> spool_shape" where
  "spool_name_parse name =
     (if \<not> is_digit (c_head name) then Spool_foreign
      else case spool_number 0 name of
        None \<Rightarrow> Spool_foreign
      | Some (m, p) \<Rightarrow>
          if c_head p = DOT \<and> tl p = ''eml'' then Spool_in (of_nat m)
          else if c_head p = DOT then
            let q = tl p in
            if \<not> is_digit (c_head q) then Spool_foreign
            else case spool_number 0 q of
              None \<Rightarrow> Spool_foreign
            | Some (kv, q) \<Rightarrow>
                if c_head q = DOT \<and> tl q = ''out.eml'' then Spool_out (of_nat m) (of_nat kv)
                else Spool_foreign
          else Spool_foreign)"

end
