(* ===== verification/Smtp_Data_Proofs.thy ===== *)
theory Smtp_Data_Proofs
  imports Smtp_Data
begin

text \<open>
  Proofs about the pure parsers of the inbound server: the DATA scan gives the same answer however
  the bytes are cut into reads, a dot-stuffed message comes out of the scan and the unstuffing
  unchanged, and the names of spool files lead back to the delivery they were made for.
\<close>

section \<open>Resuming the scan\<close>

text \<open>No line end in \<open>b[ls..i)\<close>.\<close>

definition plain :: "string \<Rightarrow> nat \<Rightarrow> nat \<Rightarrow> bool" where
  "plain b ls i \<longleftrightarrow> (\<forall>j. ls \<le> j \<and> j < i \<longrightarrow> \<not> is_eol (b ! j))"

lemma plain_empty [simp]: "plain b i i"
  by (auto simp: plain_def)

lemma plain_Suc: "plain b ls i \<Longrightarrow> \<not> is_eol (b ! i) \<Longrightarrow> plain b ls (Suc i)"
  by (auto simp: plain_def less_Suc_eq)

lemma plain_append: "i \<le> length b1 \<Longrightarrow> plain b1 ls i \<Longrightarrow> plain (b1 @ b2) ls i"
  by (auto simp: plain_def nth_append)

lemma scan_plain_step:
  "i < length b \<Longrightarrow> \<not> is_eol (b ! i) \<Longrightarrow> data_scan_loop b M i ls = data_scan_loop b M (Suc i) ls"
  by (subst data_scan_loop.simps) (auto simp: is_eol_def Let_def)

lemma scan_plain:
  "plain b j i \<Longrightarrow> j \<le> i \<Longrightarrow> i \<le> length b \<Longrightarrow> data_scan_loop b M j ls = data_scan_loop b M i ls"
proof (induction "i - j" arbitrary: j)
  case (Suc n)
  then have "\<not> is_eol (b ! j)" "j < length b" by (auto simp: plain_def)
  moreover have "data_scan_loop b M (Suc j) ls = data_scan_loop b M i ls"
    using Suc by (intro Suc(1)) (auto simp: plain_def)
  ultimately show ?case by (simp add: scan_plain_step)
qed simp

text \<open>
  What holds at the cursor in the middle of a line: either no line end since the line's start, or
  the cursor stands on the LF of a CRLF whose CR was just skipped.
\<close>

definition mid_line :: "string \<Rightarrow> nat \<Rightarrow> nat \<Rightarrow> bool" where
  "mid_line b ls i \<longleftrightarrow> ls \<le> i \<and> (plain b ls i \<or> (i < length b \<and> b ! i = LF))"

lemma scan_resume:
  "data_scan_loop b1 M i ls = Loop_end p tcr \<Longrightarrow> i \<le> length b1 \<Longrightarrow> mid_line b1 ls i \<Longrightarrow>
   data_scan_loop (b1 @ b2) M i ls = data_scan_loop (b1 @ b2) M p p"
proof (induction b1 M i ls rule: data_scan_loop.induct)
  case (1 b1 M i ls)
  let ?B = "b1 @ b2"
  have rewind: "data_scan_loop ?B M i ls = data_scan_loop ?B M ls ls" if "plain b1 ls i"
    using scan_plain [OF plain_append [OF 1(6) that]] 1(6,7) by (simp add: mid_line_def)
  show ?case
  proof (cases "i < length b1")
    case False
    then have "p = ls" using 1(5) by (subst (asm) data_scan_loop.simps) simp
    then show ?thesis using False 1(7) rewind by (simp add: mid_line_def)
  next
    case True
    have B: "?B ! i = b1 ! i" "i < length ?B" using True by (simp_all add: nth_append)
    have fresh: "mid_line b1 (Suc i) (Suc i)" by (simp add: mid_line_def)
    consider (lf) "b1 ! i = LF" | (crlf) "b1 ! i = CR" "i + 1 < length b1" "b1 ! (i + 1) = LF"
      | (last) "b1 ! i = CR" "i + 1 = length b1"
      | (cr) "b1 ! i = CR" "i + 1 < length b1" "b1 ! (i + 1) \<noteq> LF" | (other) "\<not> is_eol (b1 ! i)"
      using True by (force simp: is_eol_def)
    then show ?thesis
    proof cases
      case lf
      have e: "i > ls \<Longrightarrow> ?B ! (i - 1) = b1 ! (i - 1)" "i > ls \<or> ls = i"
        using True 1(7) by (auto simp: nth_append mid_line_def)
      then have "?B ! ls = b1 ! ls" using True by (auto simp: nth_append)
      with lf 1(5) 1(1) True B e(1) fresh show ?thesis
        by (subst data_scan_loop.simps, subst (asm) data_scan_loop.simps) (auto simp: Let_def split: if_splits)
    next
      case crlf
      have "?B ! Suc i = LF" using crlf by (simp add: nth_append)
      moreover have "mid_line b1 ls (Suc i)" using crlf 1(7) by (simp add: mid_line_def)
      ultimately show ?thesis using crlf 1(5) 1(2) True B
        by (subst data_scan_loop.simps, subst (asm) data_scan_loop.simps) (auto simp: Let_def)
    next
      case last
      have "p = ls" using last 1(5) by (subst (asm) data_scan_loop.simps) (auto simp: Let_def split: if_splits)
      moreover have "plain b1 ls i" using last 1(7) by (simp add: mid_line_def)
      ultimately show ?thesis using rewind by simp
    next
      case cr
      have n: "?B ! Suc i \<noteq> LF" using cr by (simp add: nth_append)
      have "ls \<le> i" using 1(7) by (simp add: mid_line_def)
      then have "?B ! ls = b1 ! ls" using True by (simp add: nth_append)
      with cr n 1(5) 1(3) True B fresh show ?thesis
        by (subst data_scan_loop.simps, subst (asm) data_scan_loop.simps) (auto simp: Let_def split: if_splits)
    next
      case other
      have "mid_line b1 ls (Suc i)" using other 1(7) True by (auto simp: mid_line_def is_eol_def intro: plain_Suc)
      moreover have "data_scan_loop b1 M i ls = data_scan_loop b1 M (Suc i) ls"
        using scan_plain_step other True by blast
      moreover have "data_scan_loop ?B M i ls = data_scan_loop ?B M (Suc i) ls"
        using scan_plain_step [of i ?B] other B by simp
      ultimately show ?thesis using 1(4) 1(5) other True by (auto simp: is_eol_def)
    qed
  qed
qed

lemma data_scan_resume:
  assumes "data_scan b1 max_line max_total 0 = Scan_more p"
  shows "data_scan (b1 @ b2) max_line max_total p = data_scan (b1 @ b2) max_line max_total 0"
proof -
  obtain tcr where "data_scan_loop b1 (unat max_line + 1) 0 0 = Loop_end p tcr"
    using assms by (auto simp: data_scan_def Let_def split: scan_loop_result.splits if_splits)
  then have "data_scan_loop (b1 @ b2) (unat max_line + 1) 0 0 = data_scan_loop (b1 @ b2) (unat max_line + 1) p p"
    by (rule scan_resume) (simp_all add: mid_line_def)
  then show ?thesis by (simp add: data_scan_def)
qed

text \<open>
  C12. Reading the DATA text in pieces. When the scan of the bytes received so far asks for more
  and records a resume position, the scan of the longer buffer from that position gives exactly
  the answer (terminator, limit error, or request for more) that scanning the whole buffer from
  its start gives; so the end of a message does not depend on how the network cuts the stream,
  even when a read ends between the CR and the LF of a line end.
\<close>

theorem data_scan_resumable:
  assumes "data_scan b1 max_line max_total 0 = Scan_more p"
  shows "data_scan (b1 @ b2) max_line max_total p = data_scan (b1 @ b2) max_line max_total 0"
  using data_scan_resume [OF assms] .

theorem data_scan_resumable_witness:
  "data_scan (''ab'' @ [CR]) 80 1000 0 = Scan_more 0
   \<and> data_scan ((''ab'' @ [CR]) @ [LF, DOT, CR, LF]) 80 1000 0 = Scan_found 4 3
   \<and> data_scan ((''ab'' @ [CR]) @ [LF, DOT, CR, LF]) 80 1000 0 = data_scan ((''ab'' @ [CR]) @ [LF, DOT, CR, LF]) 80 1000 0"
proof -
  have m: "data_scan (''ab'' @ [CR]) 80 1000 0 = Scan_more 0" by code_simp
  have "data_scan ((''ab'' @ [CR]) @ [LF, DOT, CR, LF]) 80 1000 0 = Scan_found 4 3" by code_simp
  with m data_scan_resumable [OF m, of "[LF, DOT, CR, LF]"] show ?thesis by simp
qed

section \<open>What the scan finds\<close>

lemma scan_loop_found:
  "data_scan_loop b M i ls = Loop_found e t \<Longrightarrow> ls \<le> i \<Longrightarrow> ls = 0 \<or> is_eol (b ! (ls - 1)) \<Longrightarrow>
   e + t \<le> length b \<and> b ! e = DOT \<and> (e = 0 \<or> is_eol (b ! (e - 1))) \<and> 2 \<le> t \<and> t \<le> 3 \<and> is_eol (b ! (e + t - 1))"
proof (induction b M i ls rule: data_scan_loop.induct)
  case (1 b M i ls)
  show ?case
  proof (cases "i < length b \<and> is_eol (b ! i)")
    case False
    then show ?thesis using 1 by (cases "i < length b") (auto simp: scan_plain_step is_eol_def data_scan_loop.simps [of b M i ls])
  next
    case True
    then show ?thesis using 1(5-7) 1(1-3)
      by (subst (asm) data_scan_loop.simps) (auto simp: is_eol_def Let_def split: if_splits)
  qed
qed

lemma data_scan_found:
  assumes "data_scan b L T 0 = Scan_found e t"
  shows "e + t \<le> length b \<and> b ! e = DOT \<and> (e = 0 \<or> is_eol (b ! (e - 1))) \<and> 2 \<le> t \<and> t \<le> 3 \<and> is_eol (b ! (e + t - 1))"
  using assms by (intro scan_loop_found [of b "unat L + 1" 0 0])
    (auto simp: data_scan_def Let_def split: scan_loop_result.splits if_splits)

section \<open>Transparency of a dot-stuffed text\<close>

definition text_of :: "string list \<Rightarrow> string" where
  "text_of lines = concat (map (\<lambda>l. l @ CRLF) lines)"

definition eol_free :: "string \<Rightarrow> bool" where
  "eol_free l \<longleftrightarrow> (\<forall>c \<in> set l. \<not> is_eol c)"

definition stuffed :: "string \<Rightarrow> string" where
  "stuffed l = (if c_head l = DOT then DOT # l else l)"

lemma stuff_loop_eol_free: "eol_free l \<Longrightarrow> stuff_loop False (l @ CRLF @ r) = l @ CRLF @ stuff_loop True r"
  by (induction l) (auto simp: eol_free_def is_eol_def)

lemma stuff_line: "eol_free l \<Longrightarrow> stuff_loop True (l @ CRLF @ r) = stuffed l @ CRLF @ stuff_loop True r"
proof (cases l)
  case (Cons c cs)
  assume "eol_free l"
  then have "eol_free cs" "\<not> is_eol c" by (auto simp: eol_free_def Cons)
  then show ?thesis using stuff_loop_eol_free [of cs r] by (auto simp: Cons stuffed_def c_head_def is_eol_def)
qed (simp add: stuffed_def c_head_def)

lemma stuff_text: "\<forall>l \<in> set lines. eol_free l \<Longrightarrow> mail_stuff_dots (text_of lines) = text_of (map stuffed lines)"
  using stuff_line by (induction lines) (auto simp: mail_stuff_dots_def text_of_def)

lemma stuffed_props: "eol_free l \<Longrightarrow> eol_free (stuffed l)" "stuffed l \<noteq> [DOT]" "length (stuffed l) \<le> length l + 1"
  by (auto simp: stuffed_def eol_free_def c_head_def split: list.splits)

lemma scan_line:
  assumes "eol_free l" "length l \<le> M" "l \<noteq> [DOT]" "b = pre @ l @ CRLF @ r"
  shows "data_scan_loop b M (length pre) (length pre) = data_scan_loop b M (length pre + length l + 2) (length pre + length l + 2)"
proof -
  let ?n = "length pre" let ?i = "length pre + length l"
  have at: "b ! ?i = CR" "b ! Suc ?i = LF" "Suc ?i < length b"
    using assms(4) by (simp_all add: nth_append)
  have "plain b ?n ?i"
    using assms(1) unfolding plain_def eol_free_def assms(4)
    by (metis add_less_cancel_left le_add_diff_inverse nth_append nth_append_length_plus nth_mem)
  then have "data_scan_loop b M ?n ?n = data_scan_loop b M ?i ?n" using at by (intro scan_plain) auto
  also have "\<dots> = data_scan_loop b M (Suc ?i) ?n"
    using at by (subst data_scan_loop.simps) (simp add: Let_def)
  also have "\<dots> = data_scan_loop b M (Suc (Suc ?i)) (Suc (Suc ?i))"
  proof -
    have "\<not> (length l = 1 \<and> b ! ?n = DOT)" using assms(3,4) by (cases l; cases "tl l") (auto simp: nth_append)
    then show ?thesis using at assms(2) by (subst data_scan_loop.simps) (auto simp: Let_def)
  qed
  finally show ?thesis by simp
qed

lemma scan_text:
  "\<forall>l \<in> set lines. eol_free l \<and> length l \<le> M \<and> l \<noteq> [DOT] \<Longrightarrow> b = pre @ text_of lines @ r \<Longrightarrow>
   data_scan_loop b M (length pre) (length pre)
     = data_scan_loop b M (length pre + length (text_of lines)) (length pre + length (text_of lines))"
proof (induction lines arbitrary: pre)
  case (Cons l lines)
  have b: "b = pre @ l @ CRLF @ text_of lines @ r" "b = (pre @ l @ CRLF) @ text_of lines @ r"
    using Cons(3) by (simp_all add: text_of_def)
  have "data_scan_loop b M (length (pre @ l @ CRLF)) (length (pre @ l @ CRLF))
     = data_scan_loop b M (length (pre @ l @ CRLF) + length (text_of lines)) (length (pre @ l @ CRLF) + length (text_of lines))"
    using Cons(1) [OF _ b(2)] Cons(2) by simp
  moreover have "length pre + length (text_of (l # lines)) = length (pre @ l @ CRLF) + length (text_of lines)"
    by (simp add: text_of_def)
  moreover have "data_scan_loop b M (length pre) (length pre) = data_scan_loop b M (length (pre @ l @ CRLF)) (length (pre @ l @ CRLF))"
    using scan_line [OF _ _ _ b(1), of M] Cons(2) by simp
  ultimately show ?case by metis
qed (simp add: text_of_def)

lemma stuffed_text_received:
  assumes "\<forall>l \<in> set lines. eol_free l \<and> length l \<le> unat max_line"
  shows "data_scan (mail_stuff_dots (text_of lines) @ DOT # CRLF @ rest) max_line max_total 0
      = Scan_found (length (mail_stuff_dots (text_of lines))) 3
    \<and> mail_unstuff_dots (take (length (mail_stuff_dots (text_of lines)))
        (mail_stuff_dots (text_of lines) @ DOT # CRLF @ rest)) = text_of lines"
proof -
  let ?S = "mail_stuff_dots (text_of lines)" let ?M = "unat max_line + 1"
  let ?b = "?S @ DOT # CRLF @ rest" let ?n = "length ?S"
  have S: "?S = text_of (map stuffed lines)" using assms stuff_text by blast
  have ok: "\<forall>l \<in> set (map stuffed lines). eol_free l \<and> length l \<le> ?M \<and> l \<noteq> [DOT]"
    using assms stuffed_props by (fastforce intro: order_trans)
  have "data_scan_loop ?b ?M 0 0 = data_scan_loop ?b ?M ?n ?n"
    using scan_text [OF ok, of ?b "[]" "DOT # CRLF @ rest"] S by simp
  also have "\<dots> = data_scan_loop ?b ?M (Suc ?n) ?n" by (rule scan_plain_step) (simp_all add: nth_append)
  also have "\<dots> = data_scan_loop ?b ?M (Suc (Suc ?n)) ?n" by (subst data_scan_loop.simps) (simp add: nth_append Let_def)
  also have "\<dots> = Loop_found ?n 3" by (subst data_scan_loop.simps) (simp add: nth_append Let_def)
  finally have "data_scan ?b max_line max_total 0 = Scan_found ?n 3" by (simp add: data_scan_def)
  moreover have "mail_unstuff_dots ?S = text_of lines"
    by (simp add: mail_stuff_dots_def mail_unstuff_dots_def unstuff_stuff_loop)
  ultimately show ?thesis by simp
qed

text \<open>
  C25. A message sent line by line arrives byte for byte. For every text of CRLF-terminated lines
  whose lines respect the configured limit, a client that stuffs the dots and sends the lone-dot
  line makes the scan stop exactly behind the text, whatever it pipelines after it and whatever
  the total limit; removing the stuffing then gives the text back.
\<close>

theorem data_transparency:
  assumes "\<forall>l \<in> set lines. eol_free l \<and> length l \<le> unat max_line"
  shows "data_scan (mail_stuff_dots (text_of lines) @ DOT # CRLF @ rest) max_line max_total 0
      = Scan_found (length (mail_stuff_dots (text_of lines))) 3
    \<and> mail_unstuff_dots (take (length (mail_stuff_dots (text_of lines)))
        (mail_stuff_dots (text_of lines) @ DOT # CRLF @ rest)) = text_of lines"
  by (rule stuffed_text_received [OF assms])

theorem data_transparency_witness:
  "data_scan ([DOT, DOT, CR, LF, CHR ''x'', CR, LF] @ DOT # CRLF @ ''QUIT'') 10 100 0 = Scan_found 7 3
   \<and> mail_unstuff_dots [DOT, DOT, CR, LF, CHR ''x'', CR, LF] = text_of [[DOT], ''x'']"
proof -
  have ok: "\<forall>l \<in> set [[DOT], ''x'']. eol_free l \<and> length l \<le> unat (10 :: u32)" by (simp add: eol_free_def is_eol_def)
  have s: "mail_stuff_dots (text_of [[DOT], ''x'']) = [DOT, DOT, CR, LF, CHR ''x'', CR, LF]" by code_simp
  show ?thesis using data_transparency [OF ok, where rest = "''QUIT''" and max_total = 100] unfolding s by simp
qed

section \<open>Spool names\<close>

lemma spool_number_digits:
  "\<forall>c \<in> set ds. is_digit c \<Longrightarrow> rest = [] \<or> \<not> is_digit (hd rest) \<Longrightarrow>
   foldl (\<lambda>v c. v * 10 + digit_val c) m ds \<le> 4294967295 \<Longrightarrow>
   spool_number m (ds @ rest) = Some (foldl (\<lambda>v c. v * 10 + digit_val c) m ds, rest)"
proof (induction ds arbitrary: m)
  case Nil
  then show ?case by (cases rest) auto
next
  case (Cons d ds)
  have "x \<le> foldl (\<lambda>v c. v * 10 + digit_val c) x ds" for x
  proof (induction ds arbitrary: x)
    case (Cons e es)
    have "x \<le> x * 10 + digit_val e" by simp
    then show ?case using Cons [of "x * 10 + digit_val e"] by simp
  qed simp
  from this [of "m * 10 + digit_val d"] have "m * 10 + digit_val d \<le> 4294967295" using Cons(4) by simp
  then show ?case using Cons by (simp add: Let_def)
qed

lemma spool_number_dec:
  "rest = [] \<or> \<not> is_digit (hd rest) \<Longrightarrow> spool_number 0 (dec_of_nat (unat (v :: u32)) @ rest) = Some (unat v, rest)"
  using spool_number_digits [OF dec_of_nat_digits, of rest 0 "unat v"] u32_less [of v] unfolding dec_of_nat_value by linarith

lemma c_head_dec: "is_digit (c_head (dec_of_nat n @ rest))"
  using dec_of_nat_digits [of n] by (cases "dec_of_nat n") (simp_all add: c_head_def)

lemma not_digit_dot [simp]: "\<not> is_digit DOT"
  by (simp add: is_digit_def)

lemma spool_parse_in: "spool_name_parse (dec_of_nat (unat m) @ ''.eml'') = Spool_in m"
  using spool_number_dec [of "''.eml''" m] c_head_dec [of "unat m" "''.eml''"]
  by (simp add: spool_name_parse_def c_head_def)

lemma spool_parse_out: "spool_name_parse (spool_out_name m k) = Spool_out m k"
proof -
  let ?q = "dec_of_nat (unat k) @ ''.out.eml''"
  have m: "spool_number 0 (dec_of_nat (unat m) @ ''.'' @ ?q) = Some (unat m, ''.'' @ ?q)" by (rule spool_number_dec) simp
  have k: "spool_number 0 ?q = Some (unat k, ''.out.eml'')" by (rule spool_number_dec) simp
  have h: "is_digit (c_head ?q)" "is_digit (c_head (dec_of_nat (unat m) @ ''.'' @ ?q))" by (rule c_head_dec)+
  have "?q \<noteq> ''eml''"
  proof
    assume e: "?q = ''eml''"
    show False using h(1) unfolding e by (simp add: c_head_def is_digit_def)
  qed
  then show ?thesis using m k h by (simp add: spool_name_parse_def spool_out_name_def c_head_def)
qed

interpretation spool: coding "\<lambda>(m, k). spool_out_name m k"
  "\<lambda>s. case spool_name_parse s of Spool_out m k \<Rightarrow> Some (m, k) | _ \<Rightarrow> None" "\<lambda>_. True"
  by unfold_locales (auto simp: spool_parse_out)

text \<open>
  Spool names lead back to the delivery. The collector recognizes the name that the queue gives
  an outbound body and reads from it the very message id and ordinal it was made from, over the
  whole 32-bit range; names of inbound copies are read back likewise and are never taken for
  outbound ones; and two deliveries never share a file.
\<close>

theorem spool_name_roundtrip:
  "spool_name_parse (spool_out_name m k) = Spool_out m k
   \<and> spool_name_parse (dec_of_nat (unat m) @ ''.eml'') = Spool_in m
   \<and> (spool_out_name m k = spool_out_name m' k' \<longleftrightarrow> m = m' \<and> k = k')"
  using spool_parse_out spool_parse_in spool.enc_inj [of "(m, k)" "(m', k')"] by auto

end
