(* ===== verification/Visage_Monad.thy ===== *)
theory Visage_Monad
  imports Visage_Prelude "HOL-Library.State_Monad"
begin

text \<open>
  The handlers of the server thread a state through many calls; they are written in the state
  monad of the library. This theory adds field access and update, the traversal of a list with an
  accumulator, and the reasoning principle of the development: a relation between the state
  before and the state after a computation (\<open>state_io_rel\<close>) that is reflexive and transitive
  passes through every construct of the monad, so that the proof for a handler is a search over
  its syntax with one rule per primitive operation.
\<close>

section \<open>Operations\<close>

abbreviation return :: "'a \<Rightarrow> ('s, 'a) state" where
  "return \<equiv> State_Monad.return"

definition gets :: "('s \<Rightarrow> 'a) \<Rightarrow> ('s, 'a) state" where
  "gets f = State (\<lambda>s. (f s, s))"

definition modify :: "('s \<Rightarrow> 's) \<Rightarrow> ('s, unit) state" where
  "modify f = State (\<lambda>s. ((), f s))"

definition whenM :: "bool \<Rightarrow> ('s, unit) state \<Rightarrow> ('s, unit) state" where
  "whenM b m = (if b then m else return ())"

fun foldM :: "('b \<Rightarrow> 'a \<Rightarrow> ('s, 'b) state) \<Rightarrow> 'b \<Rightarrow> 'a list \<Rightarrow> ('s, 'b) state" where
  "foldM f b [] = return b"
| "foldM f b (x # xs) = do { b' \<leftarrow> f b x; foldM f b' xs }"

lemma run_gets [simp]: "run_state (gets f) s = (f s, s)"
  by (simp add: gets_def)

lemma run_modify [simp]: "run_state (modify f) s = ((), f s)"
  by (simp add: modify_def)

lemma run_whenM [simp]: "run_state (whenM b m) s = (if b then run_state m s else ((), s))"
  by (simp add: whenM_def)

text \<open>The state and the value a computation leaves.\<close>

abbreviation exec :: "('s, 'a) state \<Rightarrow> 's \<Rightarrow> 's" where
  "exec m s \<equiv> snd (run_state m s)"

abbreviation eval :: "('s, 'a) state \<Rightarrow> 's \<Rightarrow> 'a" where
  "eval m s \<equiv> fst (run_state m s)"

declare State_Monad.run_state_bind [simp del]

lemma run_bind [simp]: "run_state (m \<bind> f) s = run_state (f (eval m s)) (exec m s)"
  by (simp add: State_Monad.run_state_bind split_beta)

lemma run_if [simp]: "run_state (if b then m else n) s = (if b then run_state m s else run_state n s)"
  by simp

section \<open>Relations between the state before and after\<close>

text \<open>A preorder on states lifts to computations.\<close>

locale state_preorder =
  fixes R :: "'s \<Rightarrow> 's \<Rightarrow> bool"
  assumes refl: "R s s" and trans: "R s t \<Longrightarrow> R t u \<Longrightarrow> R s u"
begin

lemma return_io [intro!]: "state_io_rel R (return x)"
  by (simp add: state_io_rel_def refl)

lemma gets_io [intro!]: "state_io_rel R (gets f)"
  by (simp add: state_io_rel_def refl)

lemma bind_io [intro!]: "state_io_rel R m \<Longrightarrow> (\<And>x. state_io_rel R (f x)) \<Longrightarrow> state_io_rel R (m \<bind> f)"
  unfolding state_io_rel_def by (metis run_bind trans)

lemma bind_io_val:
  "state_io_rel R m \<Longrightarrow> (\<And>s. V (eval m s)) \<Longrightarrow> (\<And>x. V x \<Longrightarrow> state_io_rel R (f x)) \<Longrightarrow> state_io_rel R (m \<bind> f)"
  unfolding state_io_rel_def by (metis run_bind trans)

lemma whenM_io [intro!]: "(b \<Longrightarrow> state_io_rel R m) \<Longrightarrow> state_io_rel R (whenM b m)"
  by (simp add: whenM_def return_io)

lemma modify_io: "(\<And>s. R s (f s)) \<Longrightarrow> state_io_rel R (modify f)"
  by (simp add: state_io_rel_def)

lemma if_io [intro!]: "(b \<Longrightarrow> state_io_rel R m) \<Longrightarrow> (\<not> b \<Longrightarrow> state_io_rel R n) \<Longrightarrow> state_io_rel R (if b then m else n)"
  by simp

lemma option_io [intro!]:
  "state_io_rel R m \<Longrightarrow> (\<And>x. state_io_rel R (f x)) \<Longrightarrow> state_io_rel R (case v of None \<Rightarrow> m | Some x \<Rightarrow> f x)"
  by (cases v) auto

lemma sum_io [intro!]:
  "(\<And>x. state_io_rel R (f x)) \<Longrightarrow> (\<And>x. state_io_rel R (g x)) \<Longrightarrow> state_io_rel R (case v of Inl x \<Rightarrow> f x | Inr x \<Rightarrow> g x)"
  by (cases v) auto

lemma prod_io [intro!]: "(\<And>x y. state_io_rel R (f x y)) \<Longrightarrow> state_io_rel R (case p of (x, y) \<Rightarrow> f x y)"
  by (cases p) auto

lemma let_io [intro!]: "(\<And>x. state_io_rel R (f x)) \<Longrightarrow> state_io_rel R (let x = v in f x)"
  by simp

lemma foldM_io [intro]: "(\<And>b x. x \<in> set xs \<Longrightarrow> state_io_rel R (f b x)) \<Longrightarrow> state_io_rel R (foldM f b xs)"
  by (induction xs arbitrary: b) (auto intro!: bind_io)

lemma io_apply: "state_io_rel R m \<Longrightarrow> R s (exec m s)"
  by (simp add: state_io_rel_def)

end

text \<open>An invariant is the preorder \<open>P before \<longrightarrow> P after\<close>.\<close>

definition keeps :: "('s \<Rightarrow> bool) \<Rightarrow> 's \<Rightarrow> 's \<Rightarrow> bool" where
  "keeps P s t \<longleftrightarrow> (P s \<longrightarrow> P t)"

interpretation keeping: state_preorder "keeps P" for P
  by unfold_locales (auto simp: keeps_def)

lemma keepsI: "(\<And>s. P s \<Longrightarrow> P (exec m s)) \<Longrightarrow> state_io_rel (keeps P) m"
  by (simp add: state_io_rel_def keeps_def)

lemma keepsD: "state_io_rel (keeps P) m \<Longrightarrow> P s \<Longrightarrow> P (exec m s)"
  by (simp add: state_io_rel_def keeps_def)

section \<open>Hoare triples\<close>

text \<open>Partial correctness of the runs of the monad, for proofs that need the value of an earlier step.\<close>

definition triple :: "('s \<Rightarrow> bool) \<Rightarrow> ('s, 'a) state \<Rightarrow> ('a \<Rightarrow> 's \<Rightarrow> bool) \<Rightarrow> bool" where
  "triple P m Q \<longleftrightarrow> (\<forall>s. P s \<longrightarrow> Q (eval m s) (exec m s))"

lemma triple_return: "(\<And>s. P s \<Longrightarrow> Q x s) \<Longrightarrow> triple P (return x) Q"
  by (simp add: triple_def)

lemma triple_bind: "triple P m R \<Longrightarrow> (\<And>x. triple (R x) (f x) Q) \<Longrightarrow> triple P (m \<bind> f) Q"
  by (simp add: triple_def)

lemma triple_if: "(b \<Longrightarrow> triple P m Q) \<Longrightarrow> (\<not> b \<Longrightarrow> triple P n Q) \<Longrightarrow> triple P (if b then m else n) Q"
  by simp

lemma triple_weaken: "triple P m R \<Longrightarrow> (\<And>x s. R x s \<Longrightarrow> Q x s) \<Longrightarrow> triple P m Q"
  by (simp add: triple_def)

lemma triple_pre: "triple P' m Q \<Longrightarrow> (\<And>s. P s \<Longrightarrow> P' s) \<Longrightarrow> triple P m Q"
  by (simp add: triple_def)

lemma triple_io: "state_io_rel R m \<Longrightarrow> (\<And>s t. R s t \<Longrightarrow> P s \<Longrightarrow> P t) \<Longrightarrow> triple P m (\<lambda>_. P)"
  by (auto simp: triple_def state_io_rel_def)

lemma triple_gets: "triple P (gets f) (\<lambda>x s. P s \<and> x = f s)"
  by (simp add: triple_def)

lemma triple_modify: "(\<And>s. P s \<Longrightarrow> Q (f s)) \<Longrightarrow> triple P (modify f) (\<lambda>_. Q)"
  by (simp add: triple_def)

lemma triple_whenM: "(b \<Longrightarrow> triple P m (\<lambda>_. Q)) \<Longrightarrow> (\<And>s. \<not> b \<Longrightarrow> P s \<Longrightarrow> Q s) \<Longrightarrow> triple P (whenM b m) (\<lambda>_. Q)"
  by (simp add: triple_def)

lemma tripleD: "triple P m Q \<Longrightarrow> P s \<Longrightarrow> Q (eval m s) (exec m s)"
  by (simp add: triple_def)

end
