(* ===== verification/Smtp_Conn.thy ===== *)
theory Smtp_Conn
  imports Visage_Monad Visage_Config Store_Model Smtp_Data
begin

text \<open>
  The connection of the inbound server: its state, the inbound TLS layer (\<open>smtp_in_tls.c\<close>) and the
  reply output (\<open>conn_flush\<close>, \<open>conn_reply\<close>, \<open>conn_reset\<close>, \<open>conn_add_rcpt\<close> of \<open>smtp_in.c\<close>).

  What the daemon does not implement itself is a function of \<open>Env\<close> on a world of type \<open>'w\<close>: the
  system calls (clock, sockets, files), mbedTLS, and the components that are modelled elsewhere or
  not at all (the relay client, the DKIM signer, the Authentication-Results builder). A system call that
  was interrupted is taken to be retried, as the code does. Allocations succeed.
\<close>

section \<open>The outside world\<close>

datatype smtp_status = SMTP_OK | SMTP_TEMPFAIL | SMTP_PERMFAIL | SMTP_ERROR

datatype sent = Sent nat | Would_block | Send_failed

datatype mbed_code = MBED_OK | MBED_WANT_READ | MBED_WANT_WRITE | MBED_FATAL

text \<open>The listeners, the bits of a poll event, and how a call of \<open>poll\<close> ends.\<close>

datatype listener = L_smtp | L_smtps | L_admin

type_synonym poll_bits = "16 word"

datatype polled = Poll_ready "poll_bits list" | Poll_interrupted | Poll_failed

record ('d, 'w) Env =
  eng :: "'d dl_engine"
  os_time :: "'w \<Rightarrow> int \<times> 'w"
  os_monotonic_ms :: "'w \<Rightarrow> u64 \<times> 'w"
  os_urandom16 :: "'w \<Rightarrow> string option \<times> 'w"
  os_send :: "int \<Rightarrow> string \<Rightarrow> 'w \<Rightarrow> sent \<times> 'w"
  os_recv :: "int \<Rightarrow> nat \<Rightarrow> 'w \<Rightarrow> (sent + string) \<times> 'w"
  os_accept :: "listener \<Rightarrow> 'w \<Rightarrow> (int \<times> string) list \<times> 'w"
  os_poll :: "(int \<times> poll_bits) list \<Rightarrow> int \<Rightarrow> 'w \<Rightarrow> polled \<times> 'w"
  os_mkdir :: "string \<Rightarrow> 'w \<Rightarrow> bool \<times> 'w"
  file_write :: "string \<Rightarrow> string \<Rightarrow> 'w \<Rightarrow> bool \<times> 'w"
  file_read :: "string \<Rightarrow> 'w \<Rightarrow> string option \<times> 'w"
  file_unlink :: "string \<Rightarrow> 'w \<Rightarrow> bool \<times> 'w"
  dir_list :: "string \<Rightarrow> 'w \<Rightarrow> string list option \<times> 'w"
  file_stat :: "string \<Rightarrow> 'w \<Rightarrow> (bool \<times> int) option \<times> 'w"
  inet_pton4 :: "string \<Rightarrow> string option"
  inet_pton6 :: "string \<Rightarrow> string option"
  inet_ntop :: "string \<Rightarrow> string option"
  tls_ready :: bool
  mbed_setup :: "int \<Rightarrow> 'w \<Rightarrow> bool \<times> 'w"
  mbed_handshake :: "int \<Rightarrow> string \<Rightarrow> 'w \<Rightarrow> (mbed_code \<times> string) \<times> 'w"
  mbed_read :: "int \<Rightarrow> string \<Rightarrow> nat \<Rightarrow> 'w \<Rightarrow> ((mbed_code + string) \<times> string) \<times> 'w"
  mbed_write :: "int \<Rightarrow> string \<Rightarrow> 'w \<Rightarrow> (mbed_code + nat) \<times> 'w"
  auth_results_build :: "string \<Rightarrow> string \<Rightarrow> string \<Rightarrow> string \<Rightarrow> 'w \<Rightarrow> string option \<times> 'w"
  dkim_sign :: "string \<Rightarrow> string \<Rightarrow> string \<Rightarrow> string \<Rightarrow> 'w \<Rightarrow> string option \<times> 'w"
  smtp_out_send :: "Config \<Rightarrow> string \<Rightarrow> string \<Rightarrow> string \<Rightarrow> 'w \<Rightarrow> smtp_status \<times> 'w"

section \<open>State\<close>

datatype tls_phase = TLS_PENDING | TLS_HANDSHAKE | TLS_ESTABLISHED

text \<open>\<open>t_prebuf\<close> holds the bytes \<open>prebuf[preoff..prelen)\<close> that the TLS layer has not read yet.\<close>

record SmtpTls =
  t_state :: tls_phase
  t_want_write :: bool
  t_fd :: int
  t_prebuf :: string

datatype conn_state = ST_INIT | ST_HELO | ST_MAIL | ST_DATA

text \<open>
  A buffer with its length and capacity is the list of its bytes. \<open>c_peer_ip\<close> and \<open>c_real_ip\<close>
  hold as many bytes as their length fields say.
\<close>

record Conn =
  c_fd :: int
  c_state :: conn_state
  c_closed :: bool
  c_from :: "string option"
  c_rcpts :: "string list"
  c_in :: string
  c_data :: string
  c_scan_pos :: nat
  c_out :: string
  c_out_off :: nat
  c_last_act :: int
  c_peer_ip :: string
  c_real_ip :: string
  c_proxy_seen :: bool
  c_greeted :: bool
  c_tls_proxy_wait :: bool
  c_tls :: "SmtpTls option"

text \<open>
  \<open>Server\<close> holds what the server computes once at start; \<open>Sys\<close> holds its mutable part, the store,
  the connection that is being served and the world. \<open>s_stalled\<close> records that a loop of the model
  ran out of fuel.
\<close>

record Server =
  s_cfg :: Config
  max_line :: u32
  max_msg :: u32
  max_rcpts :: u32
  cmd_tmo :: u32
  data_tmo :: u32
  raw_cap :: u64

record ('d, 'w) Sys =
  s_store :: "'d Store"
  s_conns :: "Conn list"
  s_reply_rows :: "(u32 \<times> u32) list"
  s_next_revmap_sweep :: int
  s_next_spool_sweep :: int
  s_conn :: Conn
  s_world :: 'w
  s_stalled :: bool

definition SMTP_IN_DEFAULT_MAX_MSG :: u32 where
  "SMTP_IN_DEFAULT_MAX_MSG = 32 * 1024 * 1024"

definition SMTP_IN_DEFAULT_TIMEOUT :: u32 where
  "SMTP_IN_DEFAULT_TIMEOUT = 60"

definition server_init :: "Config \<Rightarrow> Server" where
  "server_init c =
     (let mm = (if limit_message (cfg_limits c) \<noteq> 0 then limit_message (cfg_limits c) else SMTP_IN_DEFAULT_MAX_MSG) in
      \<lparr>s_cfg = c,
       max_line = (if limit_line (cfg_limits c) \<noteq> 0 then limit_line (cfg_limits c) else of_nat SMTP_MAX_LINE),
       max_msg = mm,
       max_rcpts = limit_rcpts (cfg_limits c),
       cmd_tmo = (if cmd_timeout (cfg_limits c) \<noteq> 0 then cmd_timeout (cfg_limits c) else SMTP_IN_DEFAULT_TIMEOUT),
       data_tmo = (if data_timeout (cfg_limits c) \<noteq> 0 then data_timeout (cfg_limits c) else SMTP_IN_DEFAULT_TIMEOUT),
       raw_cap = ucast mm * 2 + 16\<rparr>)"

section \<open>Primitive steps\<close>

text \<open>A call into the store, a call into the world, and access to the connection being served.\<close>

definition on_store :: "('d Store \<Rightarrow> 'r \<times> 'd Store) \<Rightarrow> (('d, 'w) Sys, 'r) state" where
  "on_store f = State (\<lambda>s. case f (s_store s) of (r, st) \<Rightarrow> (r, s\<lparr>s_store := st\<rparr>))"

definition on_world :: "('w \<Rightarrow> 'r \<times> 'w) \<Rightarrow> (('d, 'w) Sys, 'r) state" where
  "on_world f = State (\<lambda>s. case f (s_world s) of (r, w) \<Rightarrow> (r, s\<lparr>s_world := w\<rparr>))"

definition conn :: "(('d, 'w) Sys, Conn) state" where
  "conn = gets s_conn"

definition upd_conn :: "(Conn \<Rightarrow> Conn) \<Rightarrow> (('d, 'w) Sys, unit) state" where
  "upd_conn f = modify (\<lambda>s. s\<lparr>s_conn := f (s_conn s)\<rparr>)"

lemma run_on_store [simp]: "run_state (on_store f) s = (fst (f (s_store s)), s\<lparr>s_store := snd (f (s_store s))\<rparr>)"
  by (simp add: on_store_def split_beta)

lemma run_on_world [simp]: "run_state (on_world f) s = (fst (f (s_world s)), s\<lparr>s_world := snd (f (s_world s))\<rparr>)"
  by (simp add: on_world_def split_beta)

lemma run_conn [simp]: "run_state conn s = (s_conn s, s)"
  by (simp add: conn_def)

lemma run_upd_conn [simp]: "run_state (upd_conn f) s = ((), s\<lparr>s_conn := f (s_conn s)\<rparr>)"
  by (simp add: upd_conn_def)

section \<open>The inbound TLS layer\<close>

text \<open>
  Both SMTP servers (\<open>visage\<close> and \<open>outbox\<close>) link this layer: its functions work on the world alone, and
  \<open>smtp_in_tls_start\<close>, \<open>smtp_in_tls_handshake_step\<close> and \<open>smtp_in_tls_recv\<close> are their calls from the inbound server.
\<close>

definition smtp_in_tls_available :: "('d, 'w) Env \<Rightarrow> bool" where
  "smtp_in_tls_available E = tls_ready E"

definition smtp_in_tls_pending :: "SmtpTls option \<Rightarrow> bool" where
  "smtp_in_tls_pending t = (case t of None \<Rightarrow> False | Some t \<Rightarrow> t_state t = TLS_PENDING)"

definition smtp_in_tls_handshaking :: "SmtpTls option \<Rightarrow> bool" where
  "smtp_in_tls_handshaking t = (case t of None \<Rightarrow> False | Some t \<Rightarrow> t_state t \<noteq> TLS_ESTABLISHED)"

definition smtp_in_tls_established :: "SmtpTls option \<Rightarrow> bool" where
  "smtp_in_tls_established t = (case t of None \<Rightarrow> False | Some t \<Rightarrow> t_state t = TLS_ESTABLISHED)"

definition smtp_in_tls_wants_write :: "SmtpTls option \<Rightarrow> bool" where
  "smtp_in_tls_wants_write t = (case t of None \<Rightarrow> False | Some t \<Rightarrow> t_want_write t)"

text \<open>
  \<open>bio_recv\<close>, the read callback of mbedTLS: the buffer the library passed, as filled by the
  callback, and the number of bytes it is told (or a code). The fed bytes go first; when they do
  not fill the buffer, the rest is read from the socket, and the count returned is that of the socket read.
\<close>

definition bio_recv :: "('d, 'w) Env \<Rightarrow> SmtpTls \<Rightarrow> nat \<Rightarrow> 'w \<Rightarrow> ((mbed_code + nat) \<times> string) \<times> SmtpTls \<times> 'w" where
  "bio_recv E t len w =
     (if len = 0 then ((Inr 0, []), t, w)
      else
        let got = take len (t_prebuf t);
            t' = t\<lparr>t_prebuf := drop len (t_prebuf t)\<rparr> in
        if length got = len then ((Inr len, got), t', w)
        else case os_recv E (t_fd t) (len - length got) w of
          (Inr bytes, w') \<Rightarrow> ((Inr (length bytes), got @ bytes), t', w')
        | (Inl Would_block, w') \<Rightarrow> ((Inl MBED_WANT_READ, got), t', w')
        | (Inl _, w') \<Rightarrow> ((Inl MBED_FATAL, got), t', w'))"

definition bio_send :: "('d, 'w) Env \<Rightarrow> SmtpTls \<Rightarrow> string \<Rightarrow> 'w \<Rightarrow> (mbed_code + nat) \<times> 'w" where
  "bio_send E t buf w =
     (case os_send E (t_fd t) buf w of
        (Sent n, w') \<Rightarrow> (if n = 0 then Inl MBED_FATAL else Inr n, w')
      | (Would_block, w') \<Rightarrow> (Inl MBED_WANT_WRITE, w')
      | (Send_failed, w') \<Rightarrow> (Inl MBED_FATAL, w'))"

definition tls_start :: "('d, 'w) Env \<Rightarrow> int \<Rightarrow> 'w \<Rightarrow> SmtpTls option \<times> 'w" where
  "tls_start E fd w =
     (if \<not> tls_ready E \<or> fd < 0 then (None, w)
      else case mbed_setup E fd w of (ok, w') \<Rightarrow>
        (if ok then Some \<lparr>t_state = TLS_PENDING, t_want_write = False, t_fd = fd, t_prebuf = []\<rparr> else None, w'))"

definition smtp_in_tls_start :: "('d, 'w) Env \<Rightarrow> int \<Rightarrow> (('d, 'w) Sys, SmtpTls option) state" where
  "smtp_in_tls_start E fd = on_world (tls_start E fd)"

definition smtp_in_tls_prefeed :: "SmtpTls \<Rightarrow> string \<Rightarrow> SmtpTls" where
  "smtp_in_tls_prefeed t buf = t\<lparr>t_prebuf := t_prebuf t @ buf\<rparr>"

text \<open>The three-way result of a handshake round: \<open>-1\<close>, \<open>0\<close> and \<open>1\<close>.\<close>

datatype hs_result = HS_fatal | HS_more | HS_done

definition tls_handshake_step :: "('d, 'w) Env \<Rightarrow> SmtpTls option \<Rightarrow> 'w \<Rightarrow> (hs_result \<times> SmtpTls option) \<times> 'w" where
  "tls_handshake_step E t w =
     (case t of
        None \<Rightarrow> ((HS_fatal, None), w)
      | Some t \<Rightarrow>
          let t = (if t_state t = TLS_PENDING then t\<lparr>t_state := TLS_HANDSHAKE\<rparr> else t) in
          if t_state t = TLS_ESTABLISHED then ((HS_done, Some t), w)
          else case mbed_handshake E (t_fd t) (t_prebuf t) w of ((r, pre), w') \<Rightarrow>
            let t = t\<lparr>t_prebuf := pre\<rparr> in
            (case r of
                MBED_OK \<Rightarrow> (HS_done, Some (t\<lparr>t_state := TLS_ESTABLISHED\<rparr>))
              | MBED_WANT_READ \<Rightarrow> (HS_more, Some (t\<lparr>t_want_write := False\<rparr>))
              | MBED_WANT_WRITE \<Rightarrow> (HS_more, Some (t\<lparr>t_want_write := True\<rparr>))
              | MBED_FATAL \<Rightarrow> (HS_fatal, Some t), w'))"

definition smtp_in_tls_handshake_step :: "('d, 'w) Env \<Rightarrow> SmtpTls option \<Rightarrow> (('d, 'w) Sys, hs_result \<times> SmtpTls option) state" where
  "smtp_in_tls_handshake_step E t = on_world (tls_handshake_step E t)"

text \<open>\<open>Inl ()\<close> is \<open>-1\<close>; \<open>Inr []\<close> is \<open>0\<close>, no data right now.\<close>

definition tls_recv :: "('d, 'w) Env \<Rightarrow> SmtpTls \<Rightarrow> nat \<Rightarrow> 'w \<Rightarrow> ((unit + string) \<times> SmtpTls) \<times> 'w" where
  "tls_recv E t len w =
     (if t_state t \<noteq> TLS_ESTABLISHED then ((Inl (), t), w)
      else case mbed_read E (t_fd t) (t_prebuf t) len w of ((r, pre), w') \<Rightarrow>
        let t = t\<lparr>t_prebuf := pre\<rparr> in
        (case r of
            Inr bytes \<Rightarrow> (if bytes = [] then Inl () else Inr bytes, t)
          | Inl c \<Rightarrow> (if c = MBED_WANT_READ \<or> c = MBED_WANT_WRITE then Inr [] else Inl (), t), w'))"

definition smtp_in_tls_recv :: "('d, 'w) Env \<Rightarrow> SmtpTls \<Rightarrow> nat \<Rightarrow> (('d, 'w) Sys, (unit + string) \<times> SmtpTls) state" where
  "smtp_in_tls_recv E t len = on_world (tls_recv E t len)"

definition smtp_in_tls_send :: "('d, 'w) Env \<Rightarrow> int \<Rightarrow> string \<Rightarrow> 'w \<Rightarrow> sent \<times> 'w" where
  "smtp_in_tls_send E fd buf w =
     (if buf = [] then (Send_failed, w)
      else case mbed_write E fd buf w of
        (Inr n, w') \<Rightarrow> (if n = 0 then Send_failed else Sent n, w')
      | (Inl c, w') \<Rightarrow> (if c = MBED_WANT_WRITE then Would_block else Send_failed, w'))"

section \<open>Reply output\<close>

definition SMTP_IN_MAX_OUT :: nat where
  "SMTP_IN_MAX_OUT = 256 * 1024"

text \<open>
  The send loop of \<open>conn_flush\<close>: how it ends, and the offset reached. A send that takes no byte
  counts as a dead peer.
\<close>

datatype flush_end = Flush_done | Flush_blocked nat | Flush_dead

function flush_loop :: "(string \<Rightarrow> 'w \<Rightarrow> sent \<times> 'w) \<Rightarrow> string \<Rightarrow> nat \<Rightarrow> 'w \<Rightarrow> flush_end \<times> 'w" where
  "flush_loop snd_fn out off w =
     (if off \<ge> length out then (Flush_done, w)
      else case snd_fn (drop off out) w of (r, w') \<Rightarrow>
        (case r of
           Sent n \<Rightarrow> if n = 0 then (Flush_dead, w') else flush_loop snd_fn out (off + n) w'
         | Would_block \<Rightarrow> (Flush_blocked off, w')
         | Send_failed \<Rightarrow> (Flush_dead, w')))"
  by pat_completeness auto
termination
  by (relation "measure (\<lambda>(snd_fn, out, off, w). length out - off)") auto

declare flush_loop.simps [simp del]

text \<open>Once TLS is past the pending phase the backlog goes out encrypted.\<close>

definition flush_send :: "('d, 'w) Env \<Rightarrow> Conn \<Rightarrow> string \<Rightarrow> 'w \<Rightarrow> sent \<times> 'w" where
  "flush_send E c = (if c_tls c \<noteq> None \<and> \<not> smtp_in_tls_pending (c_tls c) then smtp_in_tls_send E (c_fd c) else os_send E (c_fd c))"

definition after_flush :: "flush_end \<Rightarrow> Conn \<Rightarrow> Conn" where
  "after_flush r c =
     (case r of
        Flush_done \<Rightarrow> c\<lparr>c_out := [], c_out_off := 0\<rparr>
      | Flush_blocked off \<Rightarrow> c\<lparr>c_out_off := off\<rparr>
      | Flush_dead \<Rightarrow> c\<lparr>c_closed := True, c_out := [], c_out_off := 0\<rparr>)"

definition conn_flush :: "('d, 'w) Env \<Rightarrow> (('d, 'w) Sys, unit) state" where
  "conn_flush E = do {
     c \<leftarrow> conn;
     r \<leftarrow> on_world (flush_loop (flush_send E c) (c_out c) (c_out_off c));
     upd_conn (after_flush r)
   }"

definition close_conn :: "(('d, 'w) Sys, unit) state" where
  "close_conn = upd_conn (\<lambda>c. c\<lparr>c_closed := True\<rparr>)"

definition conn_reply :: "('d, 'w) Env \<Rightarrow> string \<Rightarrow> (('d, 'w) Sys, unit) state" where
  "conn_reply E text = do {
     c \<leftarrow> conn;
     if length (c_out c) > SMTP_IN_MAX_OUT then close_conn
     else do {
       upd_conn (\<lambda>c. c\<lparr>c_out := c_out c @ text\<rparr>);
       conn_flush E
     }
   }"

definition reset_conn :: "conn_state \<Rightarrow> Conn \<Rightarrow> Conn" where
  "reset_conn new_state c =
     c\<lparr>c_from := None, c_rcpts := [], c_data := [], c_scan_pos := 0, c_state := new_state\<rparr>"

definition conn_reset :: "conn_state \<Rightarrow> (('d, 'w) Sys, unit) state" where
  "conn_reset new_state = upd_conn (reset_conn new_state)"

definition conn_add_rcpt :: "string \<Rightarrow> (('d, 'w) Sys, unit) state" where
  "conn_add_rcpt rcpt = upd_conn (\<lambda>c. c\<lparr>c_rcpts := c_rcpts c @ [rcpt]\<rparr>)"

end
