(* ===== verification/Smtp_Delivery.thy ===== *)
theory Smtp_Delivery
  imports Smtp_Conn Reply_Routing
begin

text \<open>
  Routing, forwarding and the durable outbound queue of \<open>smtp_in.c\<close>: the acceptance decision for a
  recipient, the reply marks, one delivery attempt with its retry bookkeeping, the re-drive of due
  deliveries, the enqueueing of a message for one destination, the preparation of forwarded and
  replied mail, the delivery of a received message, and the collection of old spool files. The two
  small functions of \<open>smtp_out.c\<close> they use (back-off, relay choice) are here as well.
\<close>

abbreviation LOG_DIR_IN :: u32 where "LOG_DIR_IN \<equiv> 1"
abbreviation LOG_DIR_OUT :: u32 where "LOG_DIR_OUT \<equiv> 2"

definition time32 :: "('d, 'w) Env \<Rightarrow> (('d, 'w) Sys, u32) state" where
  "time32 E = do { t \<leftarrow> on_world (os_time E); return (of_int t) }"

definition log_add :: "('d, 'w) Env \<Rightarrow> u32 \<Rightarrow> u32 \<Rightarrow> u32 \<Rightarrow> string \<Rightarrow> string \<Rightarrow> string \<Rightarrow> (('d, 'w) Sys, unit visage_result) state" where
  "log_add E msgid ts dir local remote status =
     on_store (\<lambda>s. store_log_add (eng E) s msgid ts dir local remote status)"

definition set_status :: "('d, 'w) Env \<Rightarrow> u32 \<Rightarrow> u32 \<Rightarrow> string \<Rightarrow> u32 \<Rightarrow> u32 \<Rightarrow> (('d, 'w) Sys, unit visage_result) state" where
  "set_status E msgid k status attempts next_ts =
     on_store (\<lambda>s. store_queue_set_status (eng E) s msgid k status attempts next_ts)"

section \<open>Recipients\<close>

datatype RcptDecision = RCPT_OK | RCPT_BAD_DOMAIN | RCPT_NOROUTE | RCPT_ERR

definition route_inbound :: "('d, 'w) Env \<Rightarrow> Config \<Rightarrow> string \<Rightarrow> (('d, 'w) Sys, (string \<times> string) option visage_result) state" where
  "route_inbound E cfg rcpt = do {
     now \<leftarrow> time32 E;
     on_store (\<lambda>s. reply_route_inbound (eng E) now s (cfg_reply cfg) rcpt)
   }"

definition smtp_in_rcpt_ok :: "('d, 'w) Env \<Rightarrow> Config \<Rightarrow> string \<Rightarrow> (('d, 'w) Sys, RcptDecision) state" where
  "smtp_in_rcpt_ok E cfg rcpt =
     (case mail_addr_parse rcpt of
        None \<Rightarrow> return RCPT_NOROUTE
      | Some (local, domain) \<Rightarrow>
          if \<not> (\<exists>d \<in> set (cfg_domains cfg). ascii_ieq_str d domain) then return RCPT_BAD_DOMAIN
          else do {
            r \<leftarrow> route_inbound E cfg rcpt;
            case r of
              Inr (Some _) \<Rightarrow> return RCPT_OK
            | Inl _ \<Rightarrow> return RCPT_ERR
            | Inr None \<Rightarrow> do {
                ds \<leftarrow> on_store (\<lambda>s. store_resolve (eng E) s rcpt);
                return (case ds of
                    Inl _ \<Rightarrow> RCPT_ERR
                  | Inr dests \<Rightarrow>
                      if dests \<noteq> [] then RCPT_OK
                      else if cfg_catch_all cfg \<noteq> [] then RCPT_OK
                      else RCPT_NOROUTE)
              }
          })"

section \<open>Reply marks\<close>

definition reply_mark_push :: "u32 \<Rightarrow> u32 \<Rightarrow> (('d, 'w) Sys, unit) state" where
  "reply_mark_push msgid k = modify (\<lambda>s. s\<lparr>s_reply_rows := s_reply_rows s @ [(msgid, k)]\<rparr>)"

definition reply_mark_lookup :: "(u32 \<times> u32) list \<Rightarrow> u32 \<Rightarrow> u32 \<Rightarrow> bool" where
  "reply_mark_lookup rows msgid k \<longleftrightarrow> (\<exists>p \<in> set rows. p = (msgid, k))"

text \<open>The first mark found is overwritten by the last one of the array, which shrinks by one.\<close>

fun mark_index :: "(u32 \<times> u32) list \<Rightarrow> u32 \<times> u32 \<Rightarrow> nat option" where
  "mark_index [] p = None"
| "mark_index (q # qs) p = (if q = p then Some 0 else map_option Suc (mark_index qs p))"

definition drop_mark :: "(u32 \<times> u32) list \<Rightarrow> u32 \<times> u32 \<Rightarrow> (u32 \<times> u32) list" where
  "drop_mark rows p =
     (case mark_index rows p of
        None \<Rightarrow> rows
      | Some i \<Rightarrow> butlast (rows[i := last rows]))"

definition reply_mark_remove :: "u32 \<Rightarrow> u32 \<Rightarrow> (('d, 'w) Sys, unit) state" where
  "reply_mark_remove msgid k = modify (\<lambda>s. s\<lparr>s_reply_rows := drop_mark (s_reply_rows s) (msgid, k)\<rparr>)"

section \<open>One delivery attempt\<close>

definition smtp_backoff_sec :: "u32 \<Rightarrow> u32" where
  "smtp_backoff_sec attempt = (let e = attempt - 1 in if e \<ge> 12 then 3600 else push_bit (unat e) 1)"

definition smtp_relay_for :: "Config \<Rightarrow> bool \<Rightarrow> ConfigRelay" where
  "smtp_relay_for cfg is_reply = (if is_reply then cfg_reply_relay cfg else cfg_relay cfg)"

definition queue_requeue :: "('d, 'w) Env \<Rightarrow> u32 \<Rightarrow> u32 \<Rightarrow> string \<Rightarrow> string \<Rightarrow> u32 \<Rightarrow> u32 \<Rightarrow> u32 \<Rightarrow> (('d, 'w) Sys, unit) state" where
  "queue_requeue E msgid k from to attempts now max_attempts =
     (let attempts = attempts + 1 in
      if attempts > max_attempts then do {
        _ \<leftarrow> set_status E msgid k PERMFAIL attempts 0;
        _ \<leftarrow> log_add E msgid now LOG_DIR_OUT from to ''permfail'';
        return ()
      } else do {
        _ \<leftarrow> set_status E msgid k QUEUED attempts (now + smtp_backoff_sec attempts);
        _ \<leftarrow> log_add E msgid now LOG_DIR_OUT from to ''tempfail'';
        return ()
      })"

definition SPOOL_PATH_MAX :: nat where
  "SPOOL_PATH_MAX = 4096"

definition finish_delivery :: "('d, 'w) Env \<Rightarrow> u32 \<Rightarrow> u32 \<Rightarrow> string \<Rightarrow> string \<Rightarrow> u32 \<Rightarrow> u32 \<Rightarrow> bool \<Rightarrow> string \<Rightarrow> (('d, 'w) Sys, unit) state" where
  "finish_delivery E msgid k from to attempts now is_reply status = do {
     _ \<leftarrow> set_status E msgid k status attempts 0;
     _ \<leftarrow> log_add E msgid now LOG_DIR_OUT from to status;
     whenM is_reply (reply_mark_remove msgid k)
   }"

definition queue_deliver_one :: "('d, 'w) Env \<Rightarrow> Config \<Rightarrow> u32 \<Rightarrow> u32 \<Rightarrow> string \<Rightarrow> string \<Rightarrow> u32 \<Rightarrow> (('d, 'w) Sys, unit) state" where
  "queue_deliver_one E cfg msgid k from to attempts = do {
     now \<leftarrow> time32 E;
     is_reply \<leftarrow> gets (\<lambda>s. reply_mark_lookup (s_reply_rows s) msgid k);
     let out_relay = smtp_relay_for cfg is_reply;
     let max_attempts = (if relay_max_attempts out_relay \<noteq> 0 then relay_max_attempts out_relay else 100);
     r \<leftarrow> set_status E msgid k DELIVERING attempts 0;
     case r of
       Inl _ \<Rightarrow> do {
         _ \<leftarrow> set_status E msgid k QUEUED attempts (now + smtp_backoff_sec (attempts + 1));
         return ()
       }
     | Inr _ \<Rightarrow>
         (case spool_out_path (storage_spool (cfg_storage cfg)) msgid k SPOOL_PATH_MAX of
            None \<Rightarrow> finish_delivery E msgid k from to attempts now is_reply PERMFAIL
          | Some spoolpath \<Rightarrow> do {
              b \<leftarrow> on_world (file_read E spoolpath);
              case b of
                None \<Rightarrow> queue_requeue E msgid k from to attempts now max_attempts
              | Some body \<Rightarrow> do {
                  sres \<leftarrow> on_world (smtp_out_send E (cfg\<lparr>cfg_relay := out_relay\<lparr>relay_retries := 0\<rparr>\<rparr>) from to body);
                  case sres of
                    SMTP_OK \<Rightarrow> finish_delivery E msgid k from to attempts now is_reply DELIVERED
                  | SMTP_PERMFAIL \<Rightarrow> finish_delivery E msgid k from to attempts now is_reply PERMFAIL
                  | _ \<Rightarrow> queue_requeue E msgid k from to attempts now max_attempts
                }
            })
   }"

section \<open>Re-driving due deliveries\<close>

definition SMTP_IN_REDRIVE_BATCH :: nat where
  "SMTP_IN_REDRIVE_BATCH = 8"

definition SMTP_IN_REDRIVE_BUDGET_MS :: u64 where
  "SMTP_IN_REDRIVE_BUDGET_MS = 1000"

definition queue_collect_cb :: "QueueItem list \<Rightarrow> QueueItem \<Rightarrow> QueueItem list \<times> bool" where
  "queue_collect_cb qc it = (qc @ [it], False)"

fun redrive_loop :: "('d, 'w) Env \<Rightarrow> Config \<Rightarrow> u64 \<Rightarrow> nat \<Rightarrow> QueueItem list \<Rightarrow> (('d, 'w) Sys, unit) state" where
  "redrive_loop E cfg deadline i [] = return ()"
| "redrive_loop E cfg deadline i (it # its) =
     (if i \<ge> SMTP_IN_REDRIVE_BATCH then return ()
      else do {
        t \<leftarrow> on_world (os_monotonic_ms E);
        if t \<ge> deadline then return ()
        else do {
          queue_deliver_one E cfg (qi_msgid it) (qi_k it) (qi_from it) (qi_to it) (qi_attempts it);
          redrive_loop E cfg deadline (i + 1) its
        }
      })"

definition queue_redrive :: "('d, 'w) Env \<Rightarrow> Config \<Rightarrow> (('d, 'w) Sys, unit) state" where
  "queue_redrive E cfg = do {
     now \<leftarrow> time32 E;
     t0 \<leftarrow> on_world (os_monotonic_ms E);
     let deadline = t0 + SMTP_IN_REDRIVE_BUDGET_MS;
     next_due \<leftarrow> on_store (store_queue_next_due (eng E));
     if next_due = UINT32_MAX \<or> next_due > now then return ()
     else do {
       r \<leftarrow> on_store (\<lambda>s. case store_queue_due (eng E) s now queue_collect_cb [] of (r, items, s') \<Rightarrow> ((r, items), s'));
       case r of
         (Inl _, items) \<Rightarrow> return ()
       | (Inr _, items) \<Rightarrow> redrive_loop E cfg deadline 0 items
     }
   }"

section \<open>Enqueueing\<close>

text \<open>\<open>mkdir_p\<close>: one \<open>mkdir\<close> per prefix that ends before a slash, then the path itself.\<close>

definition path_prefixes :: "string \<Rightarrow> string list" where
  "path_prefixes path = map (\<lambda>i. take i path) (filter (\<lambda>i. path ! i = CHR ''/'') [1..<length path]) @ [path]"

fun mkdir_all :: "('d, 'w) Env \<Rightarrow> string list \<Rightarrow> (('d, 'w) Sys, bool) state" where
  "mkdir_all E [] = return True"
| "mkdir_all E (p # ps) = do {
     ok \<leftarrow> on_world (os_mkdir E p);
     if ok then mkdir_all E ps else return False
   }"

definition mkdir_p :: "('d, 'w) Env \<Rightarrow> string \<Rightarrow> (('d, 'w) Sys, bool) state" where
  "mkdir_p E path = (if path = [] then return False else mkdir_all E (path_prefixes path))"

text \<open>The three conditions of the spooling step, evaluated left to right.\<close>

definition spool_body :: "('d, 'w) Env \<Rightarrow> Config \<Rightarrow> u32 \<Rightarrow> u32 \<Rightarrow> string \<Rightarrow> (('d, 'w) Sys, string option) state" where
  "spool_body E cfg msgid k body = do {
     dir \<leftarrow> mkdir_p E (storage_spool (cfg_storage cfg));
     if \<not> dir then return None
     else case spool_out_path (storage_spool (cfg_storage cfg)) msgid k SPOOL_PATH_MAX of
       None \<Rightarrow> return None
     | Some path \<Rightarrow> do {
         ok \<leftarrow> on_world (file_write E path body);
         return (if ok then Some path else None)
       }
   }"

definition queue_enqueue :: "('d, 'w) Env \<Rightarrow> Config \<Rightarrow> u32 \<Rightarrow> u32 \<Rightarrow> string \<Rightarrow> string \<Rightarrow> string \<Rightarrow> bool \<Rightarrow> (('d, 'w) Sys, bool) state" where
  "queue_enqueue E cfg msgid k from to sanitized reply = do {
     now \<leftarrow> time32 E;
     sp \<leftarrow> spool_body E cfg msgid k sanitized;
     case sp of
       None \<Rightarrow> do {
         _ \<leftarrow> log_add E msgid now LOG_DIR_OUT from to ''error'';
         return False
       }
     | Some spoolpath \<Rightarrow> do {
         r \<leftarrow> on_store (\<lambda>s. store_queue_add (eng E) s msgid k from to);
         case r of
           Inl _ \<Rightarrow> do {
             _ \<leftarrow> on_world (file_unlink E spoolpath);
             _ \<leftarrow> log_add E msgid now LOG_DIR_OUT from to ''error'';
             return False
           }
         | Inr _ \<Rightarrow> do {
             _ \<leftarrow> log_add E msgid now LOG_DIR_OUT from to ''queued'';
             whenM reply (reply_mark_push msgid k);
             queue_deliver_one E cfg msgid k from to 0;
             return True
           }
       }
   }"

section \<open>Forwarding\<close>

definition config_dkim_find :: "Config \<Rightarrow> string \<Rightarrow> ConfigDkim option" where
  "config_dkim_find cfg domain = find (\<lambda>dk. name_eq (dkim_domain dk) domain) (cfg_dkim cfg)"

definition forward_sign :: "('d, 'w) Env \<Rightarrow> Config \<Rightarrow> string \<Rightarrow> string \<Rightarrow> (('d, 'w) Sys, string) state" where
  "forward_sign E cfg alias sanitized =
     (case mail_addr_parse alias of
        None \<Rightarrow> return sanitized
      | Some (local, domain) \<Rightarrow>
          (case config_dkim_find cfg domain of
             None \<Rightarrow> return sanitized
           | Some dk \<Rightarrow> do {
               r \<leftarrow> on_world (dkim_sign E sanitized (dkim_domain dk) (dkim_selector dk) (dkim_private_key dk));
               return (case r of None \<Rightarrow> sanitized | Some signed_msg \<Rightarrow> signed_msg)
             }))"

text \<open>The trace text, cut to the 512-byte buffer it is printed into.\<close>

definition received_text :: "Config \<Rightarrow> string \<Rightarrow> string" where
  "received_text cfg sender =
     take 511 (''from '' @ (if sender \<noteq> [] then sender else ''<>'') @ '' by ''
       @ (if cfg_hostname cfg \<noteq> [] then cfg_hostname cfg else ''localhost''))"

text \<open>
  The rewriting for a forward: with a sender, a fresh token whose reverse address goes into
  Reply-To; for a bounce, the alias everywhere and a null return path. The second component is the
  envelope sender.
\<close>

definition forward_rewrite :: "('d, 'w) Env \<Rightarrow> Config \<Rightarrow> string \<Rightarrow> string \<Rightarrow> (('d, 'w) Sys, (MailRewrite \<times> string) option) state" where
  "forward_rewrite E cfg sender alias =
     (if sender \<noteq> [] then do {
        rnd \<leftarrow> on_world (os_urandom16 E);
        case reply_token_gen rnd 64 of
          Inl _ \<Rightarrow> return None
        | Inr token \<Rightarrow>
            (case reply_make_reverse (cfg_reply cfg) token alias 384 of
               Inl _ \<Rightarrow> return None
             | Inr reverse \<Rightarrow> do {
                 now \<leftarrow> time32 E;
                 r \<leftarrow> on_store (\<lambda>s. store_revmap_add (eng E) now s token sender alias);
                 return (case r of
                     Inl _ \<Rightarrow> None
                   | Inr _ \<Rightarrow> Some (\<lparr>received = Some (received_text cfg sender), return_path = Some alias,
                       rw_from = None, rw_sender = None, reply_to = Some reverse\<rparr>, alias))
               })
      }
      else return (Some (\<lparr>received = Some (received_text cfg sender), return_path = Some [],
        rw_from = Some alias, rw_sender = Some alias, reply_to = Some alias\<rparr>, [])))"

definition forward_prepare :: "('d, 'w) Env \<Rightarrow> Config \<Rightarrow> string \<Rightarrow> string \<Rightarrow> string \<Rightarrow> (('d, 'w) Sys, (string \<times> string) option) state" where
  "forward_prepare E cfg msg sender alias = do {
     rw \<leftarrow> forward_rewrite E cfg sender alias;
     case rw of
       None \<Rightarrow> return None
     | Some (rw, env_from) \<Rightarrow>
         (case mail_sanitize_for_forward msg rw of
            None \<Rightarrow> return None
          | Some sanitized \<Rightarrow> do {
              out \<leftarrow> forward_sign E cfg alias sanitized;
              return (Some (out, env_from))
            })
   }"

definition forward_one :: "('d, 'w) Env \<Rightarrow> Config \<Rightarrow> string \<Rightarrow> string \<Rightarrow> string \<Rightarrow> string \<Rightarrow> u32 \<Rightarrow> u32 \<Rightarrow> u32 \<Rightarrow> (('d, 'w) Sys, bool) state" where
  "forward_one E cfg msg sender alias dest msgid ts k = do {
     p \<leftarrow> forward_prepare E cfg msg sender alias;
     case p of
       None \<Rightarrow> do {
         _ \<leftarrow> log_add E msgid ts LOG_DIR_OUT alias dest ''error'';
         return False
       }
     | Some (sanitized, env_from) \<Rightarrow> queue_enqueue E cfg msgid k env_from dest sanitized False
   }"

definition remote_name :: "string \<Rightarrow> string" where
  "remote_name sender = (if sender \<noteq> [] then sender else ''<>'')"

text \<open>The accumulators carry whether all went well so far and the next ordinal \<open>k\<close>.\<close>

definition enqueue_dest :: "('d, 'w) Env \<Rightarrow> Config \<Rightarrow> u32 \<Rightarrow> string \<Rightarrow> string \<Rightarrow> bool \<times> u32 \<Rightarrow> string \<Rightarrow> (('d, 'w) Sys, bool \<times> u32) state" where
  "enqueue_dest E cfg msgid env_from sanitized acc dest =
     (case acc of (good, k) \<Rightarrow> do {
        ok \<leftarrow> queue_enqueue E cfg msgid k env_from dest sanitized False;
        return (good \<and> ok, k + 1)
      })"

definition forward_alias :: "('d, 'w) Env \<Rightarrow> Config \<Rightarrow> string \<Rightarrow> string \<Rightarrow> string \<Rightarrow> u32 \<Rightarrow> u32 \<Rightarrow> u32 \<Rightarrow> (('d, 'w) Sys, bool \<times> u32) state" where
  "forward_alias E cfg msg sender rcpt msgid ts k = do {
     ds \<leftarrow> on_store (\<lambda>s. store_resolve (eng E) s rcpt);
     case ds of
       Inl _ \<Rightarrow> do {
         _ \<leftarrow> log_add E msgid ts LOG_DIR_IN rcpt (remote_name sender) ''error'';
         return (False, k)
       }
     | Inr dests \<Rightarrow>
         if dests = [] then
           if cfg_catch_all cfg \<noteq> [] then do {
             ok \<leftarrow> forward_one E cfg msg sender rcpt (cfg_catch_all cfg) msgid ts k;
             return (ok, k + 1)
           } else do {
             _ \<leftarrow> log_add E msgid ts LOG_DIR_IN rcpt (remote_name sender) ''rejected'';
             return (True, k)
           }
         else do {
           p \<leftarrow> forward_prepare E cfg msg sender rcpt;
           case p of
             None \<Rightarrow> do {
               _ \<leftarrow> foldM (\<lambda>_ d. log_add E msgid ts LOG_DIR_OUT rcpt d ''error'') (Inr ()) dests;
               return (False, k)
             }
           | Some (sanitized, env_from) \<Rightarrow> foldM (enqueue_dest E cfg msgid env_from sanitized) (True, k) dests
         }
   }"

definition forward_reply :: "('d, 'w) Env \<Rightarrow> Config \<Rightarrow> string \<Rightarrow> string \<Rightarrow> string \<Rightarrow> string \<Rightarrow> string \<Rightarrow> u32 \<Rightarrow> u32 \<Rightarrow> u32 \<Rightarrow> (('d, 'w) Sys, bool) state" where
  "forward_reply E cfg msg alias_addr dest reverse owner msgid ts k =
     (case mail_sanitize_for_forward msg \<lparr>received = Some (received_text cfg owner), return_path = Some alias_addr,
          rw_from = Some alias_addr, rw_sender = Some alias_addr, reply_to = Some alias_addr\<rparr> of
        None \<Rightarrow> do {
          _ \<leftarrow> log_add E msgid ts LOG_DIR_OUT alias_addr dest ''error'';
          return False
        }
      | Some sanitized \<Rightarrow>
          let stripped = (case reply_strip_reverse sanitized reverse of Inl _ \<Rightarrow> sanitized | Inr m \<Rightarrow> m) in
          (case mail_header_set stripped ''To'' dest of
             None \<Rightarrow> do {
               _ \<leftarrow> log_add E msgid ts LOG_DIR_OUT alias_addr dest ''error'';
               return False
             }
           | Some m \<Rightarrow> do {
               signed \<leftarrow> forward_sign E cfg alias_addr m;
               queue_enqueue E cfg msgid k alias_addr dest signed True
             }))"

section \<open>Delivering a received message\<close>

definition deliver_rcpt :: "('d, 'w) Env \<Rightarrow> Config \<Rightarrow> string \<Rightarrow> string \<Rightarrow> u32 \<Rightarrow> u32 \<Rightarrow> bool \<times> u32 \<Rightarrow> string \<Rightarrow> (('d, 'w) Sys, bool \<times> u32) state" where
  "deliver_rcpt E cfg msg sender msgid ts acc rcpt =
     (case acc of (good, k) \<Rightarrow> do {
        r \<leftarrow> route_inbound E cfg rcpt;
        case r of
          Inr (Some (rep_sender, rep_alias)) \<Rightarrow> do {
            ok \<leftarrow> forward_reply E cfg msg rep_alias rep_sender rcpt sender msgid ts k;
            return (good \<and> ok, k + 1)
          }
        | Inl _ \<Rightarrow> do {
            _ \<leftarrow> log_add E msgid ts LOG_DIR_IN rcpt (remote_name sender) ''error'';
            return (False, k)
          }
        | Inr None \<Rightarrow> do {
            (ok, k') \<leftarrow> forward_alias E cfg msg sender rcpt msgid ts k;
            return (good \<and> ok, k')
          }
      })"

definition conn_sender :: "Conn \<Rightarrow> string" where
  "conn_sender c = (case c_from c of None \<Rightarrow> [] | Some f \<Rightarrow> f)"

text \<open>The raw copy \<open>spool/<msgid>.eml\<close>; its failure is ignored.\<close>

definition spool_raw :: "('d, 'w) Env \<Rightarrow> Config \<Rightarrow> u32 \<Rightarrow> string \<Rightarrow> (('d, 'w) Sys, unit) state" where
  "spool_raw E cfg msgid msg = do {
     dir \<leftarrow> mkdir_p E (storage_spool (cfg_storage cfg));
     let path = storage_spool (cfg_storage cfg) @ ''/'' @ dec_of_nat (unat msgid) @ ''.eml'';
     if dir \<and> length path < SPOOL_PATH_MAX then do {
       _ \<leftarrow> on_world (file_write E path msg);
       return ()
     } else return ()
   }"

definition deliver_accepted :: "('d, 'w) Env \<Rightarrow> Config \<Rightarrow> Conn \<Rightarrow> string \<Rightarrow> u32 \<Rightarrow> u32 \<Rightarrow> (('d, 'w) Sys, unit) state" where
  "deliver_accepted E cfg c msg msgid ts = do {
     spool_raw E cfg msgid msg;
     (good, k) \<leftarrow> foldM (deliver_rcpt E cfg msg (conn_sender c) msgid ts) (True, 0) (c_rcpts c);
     conn_reply E (if \<not> good then ''451 4.3.0 Temporary queue failure'' @ CRLF else ''250 2.0.0 OK: queued'' @ CRLF)
   }"

definition deliver_message :: "('d, 'w) Env \<Rightarrow> Server \<Rightarrow> int \<Rightarrow> (('d, 'w) Sys, unit) state" where
  "deliver_message E srv now = do {
     c \<leftarrow> conn;
     let msg = mail_unstuff_dots (c_data c);
     if mail_data_has_ctl msg then do {
       conn_reply E (''554 5.6.0 Message contains NUL or control bytes'' @ CRLF);
       close_conn
     }
     else if length msg > unat (max_msg srv) then do {
       conn_reply E (''552 5.3.4 Message exceeds fixed limit'' @ CRLF);
       close_conn
     }
     else do {
       auth_hdr \<leftarrow> on_world (auth_results_build E (cfg_hostname (s_cfg srv)) msg (conn_sender c) (c_peer_ip c));
       let msg = (case auth_hdr of None \<Rightarrow> msg | Some h \<Rightarrow> h @ msg);
       (case auth_hdr of None \<Rightarrow> return () | Some h \<Rightarrow> upd_conn (\<lambda>c. c\<lparr>c_data := msg\<rparr>));
       msgid \<leftarrow> on_store (store_next_msgid (eng E));
       if msgid = 0 then do {
         conn_reply E (''451 4.3.0 Message-id allocation failure'' @ CRLF);
         close_conn
       }
       else deliver_accepted E (s_cfg srv) c msg msgid (of_int now)
     }
   }"

section \<open>Collecting old spool files\<close>

definition spool_gc_file :: "('d, 'w) Env \<Rightarrow> Config \<Rightarrow> int \<Rightarrow> string \<Rightarrow> (('d, 'w) Sys, unit) state" where
  "spool_gc_file E cfg now name =
     (let path = storage_spool (cfg_storage cfg) @ ''/'' @ name;
          shape = spool_name_parse name in
      if c_head name = DOT then return ()
      else if shape = Spool_foreign then return ()
      else if length path \<ge> SPOOL_PATH_MAX then return ()
      else do {
        st \<leftarrow> on_world (file_stat E path);
        case st of
          None \<Rightarrow> return ()
        | Some (is_reg, mtime) \<Rightarrow>
            if \<not> is_reg then return ()
            else if now - mtime < int (unat (retention_days (cfg_storage cfg))) * 86400 then return ()
            else
              (case shape of
                 Spool_out msgid k \<Rightarrow> do {
                   status \<leftarrow> on_store (\<lambda>s. (store_queue_status (eng E) s msgid k 64, s));
                   case status of
                     Inl _ \<Rightarrow> return ()
                   | Inr st \<Rightarrow>
                       if st = QUEUED \<or> st = DELIVERING then return ()
                       else do {
                         _ \<leftarrow> on_world (file_unlink E path);
                         _ \<leftarrow> on_store (\<lambda>s. store_queue_delete (eng E) s msgid k);
                         return ()
                       }
                 }
               | _ \<Rightarrow> do {
                   _ \<leftarrow> on_world (file_unlink E path);
                   return ()
                 })
      })"

definition spool_gc :: "('d, 'w) Env \<Rightarrow> Config \<Rightarrow> (('d, 'w) Sys, unit) state" where
  "spool_gc E cfg =
     (if retention_days (cfg_storage cfg) = 0 then return ()
      else do {
        now \<leftarrow> on_world (os_time E);
        names \<leftarrow> on_world (dir_list E (storage_spool (cfg_storage cfg)));
        case names of
          None \<Rightarrow> return ()
        | Some ns \<Rightarrow> foldM (\<lambda>_. spool_gc_file E cfg now) () ns
      })"

end
