(* ===== verification/Smtp_Session.thy ===== *)
theory Smtp_Session
  imports Smtp_Delivery
begin

text \<open>
  The SMTP session of the inbound server: PROXY headers, the command handlers, the routing of
  received bytes to the command or the DATA buffer, STARTTLS and implicit TLS, and the rounds of
  the event loop (\<open>smtp_in.c\<close> from \<open>process_data\<close> on). The functions that call each other in a cycle
  (a received chunk may hold a command that starts TLS, whose handshake may deliver more bytes)
  share a fuel argument; when it runs out, \<open>s_stalled\<close> is set.
\<close>

section \<open>PROXY protocol\<close>

definition proxy_peer_trusted :: "('d, 'w) Env \<Rightarrow> Config \<Rightarrow> Conn \<Rightarrow> bool" where
  "proxy_peer_trusted E cfg c \<longleftrightarrow>
     c_real_ip c \<noteq> [] \<and>
     (\<exists>e \<in> set (proxy_from (cfg_listen cfg)).
        case inet_pton4 E e of
          Some a4 \<Rightarrow> length (c_real_ip c) = 4 \<and> c_real_ip c = a4
        | None \<Rightarrow>
            (case inet_pton6 E e of
               Some a6 \<Rightarrow> length (c_real_ip c) = 16 \<and> c_real_ip c = a6
             | None \<Rightarrow> False))"

definition starts_with :: "string \<Rightarrow> string \<Rightarrow> bool" where
  "starts_with p s \<longleftrightarrow> take (length p) s = p"

text \<open>The source field of a PROXY line, cut to the 64-byte buffer.\<close>

definition proxy_src :: "string \<Rightarrow> string" where
  "proxy_src line = take 63 (takeWhile (\<lambda>ch. ch \<noteq> SP) (drop 11 line))"

text \<open>The returned flag says whether the line was consumed; the connection carries the new peer address.\<close>

definition proxy_parse :: "('d, 'w) Env \<Rightarrow> Config \<Rightarrow> Conn \<Rightarrow> string \<Rightarrow> bool \<times> Conn" where
  "proxy_parse E cfg c line =
     (if \<not> starts_with ''PROXY '' line then (False, c)
      else if \<not> proxy_peer_trusted E cfg c then (False, c)
      else if starts_with ''PROXY TCP4 '' line then
        (True, case inet_pton4 E (proxy_src line) of None \<Rightarrow> c | Some a \<Rightarrow> c\<lparr>c_peer_ip := a\<rparr>)
      else if starts_with ''PROXY TCP6 '' line then
        (True, case inet_pton6 E (proxy_src line) of None \<Rightarrow> c | Some a \<Rightarrow> c\<lparr>c_peer_ip := a\<rparr>)
      else (True, c))"

section \<open>Command handlers\<close>

definition host_name :: "Config \<Rightarrow> string" where
  "host_name cfg = (if cfg_hostname cfg \<noteq> [] then cfg_hostname cfg else ''localhost'')"

definition ehlo_text :: "('d, 'w) Env \<Rightarrow> Server \<Rightarrow> Conn \<Rightarrow> string" where
  "ehlo_text E srv c =
     take (length (host_name (s_cfg srv)) + 95)
       (''250-'' @ host_name (s_cfg srv) @ CRLF @ ''250-8BITMIME'' @ CRLF @ ''250-SIZE '' @ dec_of_nat (unat (max_msg srv))
        @ (if c_tls c = None \<and> smtp_in_tls_available E then CRLF @ ''250-STARTTLS'' else []) @ CRLF @ ''250 OK'' @ CRLF)"

definition do_helo :: "('d, 'w) Env \<Rightarrow> Server \<Rightarrow> bool \<Rightarrow> (('d, 'w) Sys, unit) state" where
  "do_helo E srv ehlo = do {
     conn_reset ST_HELO;
     c \<leftarrow> conn;
     conn_reply E (if ehlo then ehlo_text E srv c else ''250 '' @ host_name (s_cfg srv) @ CRLF)
   }"

definition do_mail :: "('d, 'w) Env \<Rightarrow> Server \<Rightarrow> string \<Rightarrow> (('d, 'w) Sys, unit) state" where
  "do_mail E srv rest = do {
     c \<leftarrow> conn;
     if c_state c \<noteq> ST_HELO then conn_reply E (''503 5.5.1 Error: send HELO/EHLO first'' @ CRLF)
     else case parse_addr_arg rest ''FROM'' SMTP_MAX_LINE of
       None \<Rightarrow> conn_reply E (''501 5.5.4 Syntax: MAIL FROM:<address>'' @ CRLF)
     | Some (path, params) \<Rightarrow>
         if \<not> path_clean path then conn_reply E (''501 5.5.4 Invalid reverse-path'' @ CRLF)
         else case smtp_in_parse_size params of
           None \<Rightarrow> conn_reply E (''501 5.5.4 Bad SIZE parameter'' @ CRLF)
         | Some sz \<Rightarrow>
             if (case sz of None \<Rightarrow> False | Some n \<Rightarrow> n > ucast (max_msg srv))
             then conn_reply E (''552 5.3.4 Message size exceeds fixed limit'' @ CRLF)
             else do {
               upd_conn (\<lambda>c. c\<lparr>c_from := Some path, c_state := ST_MAIL\<rparr>);
               conn_reply E (''250 2.1.0 OK'' @ CRLF)
             }
   }"

definition reject_remote :: "('d, 'w) Env \<Rightarrow> Conn \<Rightarrow> string" where
  "reject_remote E c =
     (if conn_sender c \<noteq> [] then conn_sender c
      else
        let ip = (if c_peer_ip c \<noteq> [] then c_peer_ip c else c_real_ip c) in
        if ip = [] then ''<>''
        else case inet_ntop E ip of None \<Rightarrow> ''<>'' | Some peer \<Rightarrow> peer)"

definition log_rcpt_reject :: "('d, 'w) Env \<Rightarrow> string \<Rightarrow> string \<Rightarrow> (('d, 'w) Sys, unit) state" where
  "log_rcpt_reject E rcpt status = do {
     c \<leftarrow> conn;
     msgid \<leftarrow> on_store (store_next_msgid (eng E));
     if msgid = 0 then return ()
     else do {
       now \<leftarrow> time32 E;
       _ \<leftarrow> log_add E msgid now LOG_DIR_IN rcpt (reject_remote E c) status;
       return ()
     }
   }"

definition do_rcpt :: "('d, 'w) Env \<Rightarrow> Server \<Rightarrow> string \<Rightarrow> (('d, 'w) Sys, unit) state" where
  "do_rcpt E srv rest = do {
     c \<leftarrow> conn;
     if c_state c \<noteq> ST_MAIL then conn_reply E (''503 5.5.1 Error: need MAIL first'' @ CRLF)
     else if max_rcpts srv \<noteq> 0 \<and> length (c_rcpts c) \<ge> unat (max_rcpts srv)
     then conn_reply E (''452 4.5.3 Too many recipients'' @ CRLF)
     else case parse_addr_arg rest ''TO'' SMTP_MAX_LINE of
       None \<Rightarrow> conn_reply E (''501 5.5.4 Syntax: RCPT TO:<address>'' @ CRLF)
     | Some (path, params) \<Rightarrow>
         if \<not> path_clean path then conn_reply E (''501 5.5.4 Invalid recipient address'' @ CRLF)
         else if path = [] then conn_reply E (''501 5.5.4 Empty recipient'' @ CRLF)
         else if mail_addr_parse path = None then conn_reply E (''501 5.5.4 Invalid recipient address'' @ CRLF)
         else do {
           d \<leftarrow> smtp_in_rcpt_ok E (s_cfg srv) path;
           case d of
             RCPT_OK \<Rightarrow> do {
               conn_add_rcpt path;
               conn_reply E (''250 2.1.5 OK'' @ CRLF)
             }
           | RCPT_ERR \<Rightarrow> do {
               log_rcpt_reject E path ''error'';
               conn_reply E (''451 4.3.0 Temporary routing failure'' @ CRLF)
             }
           | _ \<Rightarrow> do {
               log_rcpt_reject E path ''rejected'';
               conn_reply E (''550 5.1.1 User unknown'' @ CRLF)
             }
         }
   }"

definition do_data :: "('d, 'w) Env \<Rightarrow> (('d, 'w) Sys, unit) state" where
  "do_data E = do {
     c \<leftarrow> conn;
     if c_state c \<noteq> ST_MAIL then conn_reply E (''503 5.5.1 Error: need RCPT first'' @ CRLF)
     else if c_rcpts c = [] then conn_reply E (''503 5.5.1 Error: no valid recipients'' @ CRLF)
     else do {
       conn_reply E (''354 End data with <CR><LF>.<CR><LF>'' @ CRLF);
       upd_conn (\<lambda>c. c\<lparr>c_data := [], c_scan_pos := 0, c_state := ST_DATA\<rparr>)
     }
   }"

definition do_starttls :: "('d, 'w) Env \<Rightarrow> string \<Rightarrow> (('d, 'w) Sys, unit) state" where
  "do_starttls E rest = do {
     c \<leftarrow> conn;
     if c_tls c \<noteq> None \<or> c_state c \<noteq> ST_HELO
     then conn_reply E (''503 5.5.1 Error: TLS already active or no EHLO'' @ CRLF)
     else if rest \<noteq> [] then conn_reply E (''501 5.5.4 Syntax: STARTTLS'' @ CRLF)
     else if c_in c \<noteq> [] then conn_reply E (''500 5.5.2 Pipelined data before STARTTLS'' @ CRLF)
     else if \<not> smtp_in_tls_available E then conn_reply E (''502 5.5.1 Command not implemented'' @ CRLF)
     else do {
       t \<leftarrow> smtp_in_tls_start E (c_fd c);
       case t of
         None \<Rightarrow> conn_reply E (''451 4.3.0 Storage allocation failure'' @ CRLF)
       | Some t \<Rightarrow> do {
           upd_conn (\<lambda>c. c\<lparr>c_tls := Some t\<rparr>);
           conn_reply E (''220 2.0.0 Ready to start TLS'' @ CRLF)
         }
     }
   }"

text \<open>
  Implicit TLS after the first line of the connection: the bytes buffered behind it go to the TLS
  layer, and \<open>adv\<close> runs the handshake.
\<close>

definition drop_conn :: "(('d, 'w) Sys, unit) state" where
  "drop_conn = upd_conn (\<lambda>c. c\<lparr>c_closed := True, c_out := [], c_out_off := 0\<rparr>)"

definition start_implicit_tls :: "('d, 'w) Env \<Rightarrow> (int \<Rightarrow> (('d, 'w) Sys, unit) state) \<Rightarrow> (('d, 'w) Sys, unit) state" where
  "start_implicit_tls E adv = do {
     upd_conn (\<lambda>c. c\<lparr>c_tls_proxy_wait := False\<rparr>);
     c \<leftarrow> conn;
     if \<not> smtp_in_tls_available E then drop_conn
     else do {
       t \<leftarrow> smtp_in_tls_start E (c_fd c);
       case t of
         None \<Rightarrow> do { upd_conn (\<lambda>c. c\<lparr>c_tls := None\<rparr>); drop_conn }
       | Some t \<Rightarrow> do {
           upd_conn (\<lambda>c. c\<lparr>c_tls := Some (smtp_in_tls_prefeed t (c_in c)), c_in := []\<rparr>);
           now \<leftarrow> on_world (os_time E);
           adv now
         }
     }
   }"

definition verb_is :: "string \<Rightarrow> string \<Rightarrow> bool" where
  "verb_is verb v \<longleftrightarrow> length v = length verb \<and> ascii_strncasecmp v verb (length verb) = 0"

text \<open>The dispatch on the verb of a command line.\<close>

definition smtp_command :: "('d, 'w) Env \<Rightarrow> Server \<Rightarrow> string \<Rightarrow> (('d, 'w) Sys, unit) state" where
  "smtp_command E srv line =
     (let p = skip_spaces line;
          v = takeWhile (\<lambda>ch. ch \<noteq> SP) p;
          rest = skip_spaces (dropWhile (\<lambda>ch. ch \<noteq> SP) p) in
      if verb_is ''EHLO'' v then
        if rest = [] then conn_reply E (''501 5.5.4 EHLO requires a domain'' @ CRLF) else do_helo E srv True
      else if verb_is ''HELO'' v then
        if rest = [] then conn_reply E (''501 5.5.4 HELO requires a domain'' @ CRLF) else do_helo E srv False
      else if verb_is ''MAIL'' v then do_mail E srv rest
      else if verb_is ''RCPT'' v then do_rcpt E srv rest
      else if verb_is ''DATA'' v then do_data E
      else if verb_is ''RSET'' v then do {
        c \<leftarrow> conn;
        conn_reset (if c_state c = ST_INIT then ST_INIT else ST_HELO);
        conn_reply E (''250 2.0.0 OK'' @ CRLF)
      }
      else if verb_is ''NOOP'' v then conn_reply E (''250 2.0.0 OK'' @ CRLF)
      else if verb_is ''QUIT'' v then do {
        conn_reply E (''221 2.0.0 Bye'' @ CRLF);
        close_conn
      }
      else if verb_is ''VRFY'' v then conn_reply E (''252 2.5.2 Cannot VRFY user'' @ CRLF)
      else if verb_is ''EXPN'' v then conn_reply E (''252 2.5.2 Cannot EXPN list'' @ CRLF)
      else if verb_is ''STARTTLS'' v then do_starttls E rest
      else if verb_is ''AUTH'' v then conn_reply E (''502 5.5.1 Command not implemented'' @ CRLF)
      else conn_reply E (''500 5.5.2 Command not recognized'' @ CRLF))"

definition handle_command :: "('d, 'w) Env \<Rightarrow> Server \<Rightarrow> (int \<Rightarrow> (('d, 'w) Sys, unit) state) \<Rightarrow> string \<Rightarrow> (('d, 'w) Sys, unit) state" where
  "handle_command E srv adv line = do {
     c \<leftarrow> conn;
     if \<not> c_proxy_seen c then
       (case proxy_parse E (s_cfg srv) c line of (consumed, c') \<Rightarrow> do {
          upd_conn (\<lambda>_. c'\<lparr>c_proxy_seen := True\<rparr>);
          if consumed then whenM (c_tls_proxy_wait c) (start_implicit_tls E adv)
          else if c_tls_proxy_wait c then start_implicit_tls E adv
          else smtp_command E srv line
        })
     else smtp_command E srv line
   }"

section \<open>Received bytes\<close>

definition SMTP_IN_RECV_CHUNK :: nat where
  "SMTP_IN_RECV_CHUNK = 4096"

definition stall :: "(('d, 'w) Sys, unit) state" where
  "stall = modify (\<lambda>s. s\<lparr>s_stalled := True\<rparr>)"

definition reply_close :: "('d, 'w) Env \<Rightarrow> string \<Rightarrow> (('d, 'w) Sys, unit) state" where
  "reply_close E text = do { conn_reply E text; close_conn }"

text \<open>A command line without its LF and one CR before it, as the C string the handlers see.\<close>

definition command_line :: "string \<Rightarrow> string" where
  "command_line raw = cstr (if raw \<noteq> [] \<and> last raw = CR then butlast raw else raw)"

text \<open>The bytes left in the command buffer when DATA begins belong to the message.\<close>

definition move_to_data :: "('d, 'w) Env \<Rightarrow> Server \<Rightarrow> (('d, 'w) Sys, unit) state" where
  "move_to_data E srv = do {
     c \<leftarrow> conn;
     if c_in c = [] then return ()
     else if length (c_data c) + length (c_in c) > unat (raw_cap srv)
     then reply_close E (''552 5.3.4 Message exceeds fixed limit'' @ CRLF)
     else upd_conn (\<lambda>c. c\<lparr>c_data := c_data c @ c_in c, c_in := []\<rparr>)
   }"

definition greeting :: "Config \<Rightarrow> string" where
  "greeting cfg =
     (let g = ''220 '' @ host_name cfg @ '' ESMTP visage'' @ CRLF in
      if length g \<ge> 512 then ''220 localhost ESMTP visage'' @ CRLF else g)"

text \<open>
  One step of each of the functions that call each other; the calls are arguments. \<open>process_commands\<close>
  takes one line off the buffer, runs it and goes on unless DATA began.
\<close>

definition commands_step :: "('d, 'w) Env \<Rightarrow> Server \<Rightarrow> (int \<Rightarrow> (('d, 'w) Sys, unit) state) \<Rightarrow> (('d, 'w) Sys, unit) state \<Rightarrow> (('d, 'w) Sys, unit) state" where
  "commands_step E srv adv again = do {
     c \<leftarrow> conn;
     if c_closed c then return ()
     else
       let raw = takeWhile (\<lambda>ch. ch \<noteq> LF) (c_in c) in
       if length raw = length (c_in c) then
         whenM (length (c_in c) > SMTP_MAX_LINE) (reply_close E (''500 5.5.2 Line too long'' @ CRLF))
       else if length raw > unat (max_line srv) then reply_close E (''500 5.5.2 Line too long'' @ CRLF)
       else do {
         upd_conn (\<lambda>c. c\<lparr>c_in := drop (length raw + 1) (c_in c)\<rparr>);
         handle_command E srv adv (command_line raw);
         c \<leftarrow> conn;
         if c_state c = ST_DATA \<and> \<not> c_closed c then move_to_data E srv else again
       }
   }"

definition data_step :: "('d, 'w) Env \<Rightarrow> Server \<Rightarrow> int \<Rightarrow> (('d, 'w) Sys, unit) state \<Rightarrow> (('d, 'w) Sys, unit) state" where
  "data_step E srv now commands = do {
     c \<leftarrow> conn;
     case data_scan (c_data c) (max_line srv) (raw_cap srv) (c_scan_pos c) of
       Scan_error \<Rightarrow> reply_close E (''552 5.3.4 Message exceeds fixed limits'' @ CRLF)
     | Scan_more pos \<Rightarrow> upd_conn (\<lambda>c. c\<lparr>c_scan_pos := pos\<rparr>)
     | Scan_found e t \<Rightarrow> do {
         upd_conn (\<lambda>c. c\<lparr>c_in := c_in c @ drop (e + t) (c_data c), c_data := take e (c_data c)\<rparr>);
         deliver_message E srv now;
         conn_reset ST_HELO;
         c \<leftarrow> conn;
         whenM (\<not> c_closed c \<and> c_in c \<noteq> []) commands
       }
   }"

definition take_bytes_step :: "('d, 'w) Env \<Rightarrow> Server \<Rightarrow> string \<Rightarrow> (('d, 'w) Sys, unit) state \<Rightarrow> (('d, 'w) Sys, unit) state \<Rightarrow> (('d, 'w) Sys, unit) state" where
  "take_bytes_step E srv tmp commands data = do {
     c \<leftarrow> conn;
     if c_state c = ST_DATA then
       if length (c_data c) + length tmp > unat (raw_cap srv)
       then reply_close E (''552 5.3.4 Message exceeds fixed limit'' @ CRLF)
       else do {
         upd_conn (\<lambda>c. c\<lparr>c_data := c_data c @ tmp\<rparr>);
         data
       }
     else do {
       upd_conn (\<lambda>c. c\<lparr>c_in := c_in c @ tmp\<rparr>);
       commands
     }
   }"

text \<open>One turn of the drain loop of \<open>conn_readable\<close>, and \<open>conn_readable\<close> itself.\<close>

definition drain_step :: "('d, 'w) Env \<Rightarrow> int \<Rightarrow> (string \<Rightarrow> (('d, 'w) Sys, unit) state) \<Rightarrow> (('d, 'w) Sys, unit) state \<Rightarrow> (('d, 'w) Sys, unit) state" where
  "drain_step E now take_bytes again = do {
     c \<leftarrow> conn;
     case c_tls c of
       None \<Rightarrow> return ()
     | Some t \<Rightarrow> do {
         (r, t') \<leftarrow> smtp_in_tls_recv E t SMTP_IN_RECV_CHUNK;
         upd_conn (\<lambda>c. c\<lparr>c_tls := Some t'\<rparr>);
         case r of
           Inl _ \<Rightarrow> close_conn
         | Inr bytes \<Rightarrow>
             if bytes = [] then return ()
             else do {
               upd_conn (\<lambda>c. c\<lparr>c_last_act := now\<rparr>);
               take_bytes bytes;
               c \<leftarrow> conn;
               if c_closed c then return () else again
             }
       }
   }"

definition readable_step :: "('d, 'w) Env \<Rightarrow> int \<Rightarrow> (string \<Rightarrow> (('d, 'w) Sys, unit) state) \<Rightarrow> (('d, 'w) Sys, unit) state \<Rightarrow> (('d, 'w) Sys, unit) state" where
  "readable_step E now take_bytes drain = do {
     c \<leftarrow> conn;
     if c_tls c \<noteq> None then whenM (smtp_in_tls_established (c_tls c)) drain
     else do {
       r \<leftarrow> on_world (os_recv E (c_fd c) SMTP_IN_RECV_CHUNK);
       case r of
         Inl e \<Rightarrow> whenM (e \<noteq> Would_block) close_conn
       | Inr bytes \<Rightarrow>
           if bytes = [] then close_conn
           else do {
             upd_conn (\<lambda>c. c\<lparr>c_last_act := now\<rparr>);
             take_bytes bytes
           }
     }
   }"

definition advance_step :: "('d, 'w) Env \<Rightarrow> Server \<Rightarrow> int \<Rightarrow> (('d, 'w) Sys, unit) state \<Rightarrow> (('d, 'w) Sys, unit) state" where
  "advance_step E srv now readable = do {
     upd_conn (\<lambda>c. c\<lparr>c_last_act := now\<rparr>);
     c \<leftarrow> conn;
     (r, t) \<leftarrow> smtp_in_tls_handshake_step E (c_tls c);
     upd_conn (\<lambda>c. c\<lparr>c_tls := t\<rparr>);
     case r of
       HS_fatal \<Rightarrow> drop_conn
     | HS_more \<Rightarrow> return ()
     | HS_done \<Rightarrow> do {
         (if \<not> c_greeted c then do {
            upd_conn (\<lambda>c. c\<lparr>c_greeted := True, c_state := ST_INIT\<rparr>);
            conn_reply E (greeting (s_cfg srv))
          } else conn_reset ST_INIT);
         readable
       }
   }"

fun process_commands :: "('d, 'w) Env \<Rightarrow> Server \<Rightarrow> nat \<Rightarrow> (('d, 'w) Sys, unit) state"
and conn_take_bytes :: "('d, 'w) Env \<Rightarrow> Server \<Rightarrow> nat \<Rightarrow> int \<Rightarrow> string \<Rightarrow> (('d, 'w) Sys, unit) state"
and tls_drain :: "('d, 'w) Env \<Rightarrow> Server \<Rightarrow> nat \<Rightarrow> int \<Rightarrow> (('d, 'w) Sys, unit) state"
and conn_readable :: "('d, 'w) Env \<Rightarrow> Server \<Rightarrow> nat \<Rightarrow> int \<Rightarrow> (('d, 'w) Sys, unit) state"
and tls_advance :: "('d, 'w) Env \<Rightarrow> Server \<Rightarrow> nat \<Rightarrow> int \<Rightarrow> (('d, 'w) Sys, unit) state" where
  "process_commands E srv n =
     (if n = 0 then stall else commands_step E srv (tls_advance E srv (n - 1)) (process_commands E srv (n - 1)))"
| "conn_take_bytes E srv n now tmp =
     (if n = 0 then stall
      else take_bytes_step E srv tmp (process_commands E srv (n - 1)) (data_step E srv now (process_commands E srv (n - 1))))"
| "tls_drain E srv n now =
     (if n = 0 then stall else drain_step E now (conn_take_bytes E srv (n - 1) now) (tls_drain E srv (n - 1) now))"
| "conn_readable E srv n now =
     (if n = 0 then stall else readable_step E now (conn_take_bytes E srv (n - 1) now) (tls_drain E srv (n - 1) now))"
| "tls_advance E srv n now =
     (if n = 0 then stall else advance_step E srv now (conn_readable E srv (n - 1) now))"

declare process_commands.simps [simp del] conn_take_bytes.simps [simp del] tls_drain.simps [simp del]
  conn_readable.simps [simp del] tls_advance.simps [simp del]

end
