(* ===== verification/Smtp_World.thy ===== *)
theory Smtp_World
  imports Smtp_Session Store_Properties Smtp_Data_Proofs
begin

text \<open>
  What the server relies on of the world, as an interface that extends the store's: files hold
  what was last written to them, and no other call touches a file. The theory also gives a
  reference world, a list of files with a clock and a scripted network, on which the interface is
  interpreted and the examples run.
\<close>

section \<open>The interface\<close>

text \<open>A call that leaves every file alone.\<close>

definition quiet :: "('w \<Rightarrow> string \<Rightarrow> string option) \<Rightarrow> ('w \<Rightarrow> 'r \<times> 'w) \<Rightarrow> bool" where
  "quiet files f \<longleftrightarrow> (\<forall>w. files (snd (f w)) = files w)"

locale mail_system = dl_provider "eng E" facts for E :: "('d, 'w) Env" and facts +
  fixes files :: "'w \<Rightarrow> string \<Rightarrow> string option"
  assumes quiet_time: "quiet files (os_time E)" "quiet files (os_monotonic_ms E)" "quiet files (os_urandom16 E)"
    and quiet_net: "quiet files (os_send E fd buf)" "quiet files (os_recv E fd len)" "quiet files (os_accept E lsn)"
      "quiet files (os_poll E fds ms)"
    and quiet_dir: "quiet files (os_mkdir E p)" "quiet files (dir_list E p)" "quiet files (file_stat E p)" "quiet files (file_read E p)"
    and quiet_tls: "quiet files (mbed_setup E fd)" "quiet files (mbed_handshake E fd pre)"
      "quiet files (mbed_read E fd pre len)" "quiet files (mbed_write E fd buf)"
    and quiet_ext: "quiet files (auth_results_build E hn msg from ip)" "quiet files (dkim_sign E msg dm sel key)"
      "quiet files (smtp_out_send E cfg from to body)"
    and write_done: "file_write E p d w = (True, w') \<Longrightarrow> files w' p = Some d"
    and write_other: "file_write E p d w = (ok, w') \<Longrightarrow> q \<noteq> p \<Longrightarrow> files w' q = files w q"
    and unlink_other: "file_unlink E p w = (ok, w') \<Longrightarrow> q \<noteq> p \<Longrightarrow> files w' q = files w q"
begin

lemmas quiet_all = quiet_time quiet_net quiet_dir quiet_tls quiet_ext

lemma quiet_files: "quiet files f \<Longrightarrow> files (snd (f w)) = files w"
  by (simp add: quiet_def)

end

section \<open>A reference world\<close>

text \<open>
  Files with their age, the time, the connections waiting to be accepted, what each read of a socket
  returns, and what was sent. The peer takes every byte; the relay answers as scripted.
\<close>

record ref_world =
  w_files :: "(string \<times> string) list"
  w_time :: int
  w_input :: "string list"
  w_sent :: "string list"
  w_relay :: smtp_status

definition ref_files :: "ref_world \<Rightarrow> string \<Rightarrow> string option" where
  "ref_files w p = map_of (w_files w) p"

definition ref_env :: "(ref_db, ref_world) Env" where
  "ref_env =
     \<lparr>eng = ref_engine,
      os_time = (\<lambda>w. (w_time w, w)),
      os_monotonic_ms = (\<lambda>w. (0, w)),
      os_urandom16 = (\<lambda>w. (Some (replicate 16 (CHR ''k'')), w)),
      os_send = (\<lambda>fd buf w. (Sent (length buf), w\<lparr>w_sent := w_sent w @ [buf]\<rparr>)),
      os_recv = (\<lambda>fd len w. case w_input w of [] \<Rightarrow> (Inl Would_block, w) | x # xs \<Rightarrow> (Inr (take len x), w\<lparr>w_input := (if length x \<le> len then xs else drop len x # xs)\<rparr>)),
      os_accept = (\<lambda>lsn w. ([], w)),
      os_poll = (\<lambda>fds ms w. (Poll_ready (map (\<lambda>_. 1) fds), w)),
      os_mkdir = (\<lambda>p w. (True, w)),
      file_write = (\<lambda>p d w. (True, w\<lparr>w_files := (p, d) # w_files w\<rparr>)),
      file_read = (\<lambda>p w. (map_of (w_files w) p, w)),
      file_unlink = (\<lambda>p w. (True, w\<lparr>w_files := filter (\<lambda>f. fst f \<noteq> p) (w_files w)\<rparr>)),
      dir_list = (\<lambda>p w. (Some (map (\<lambda>f. drop (length p + 1) (fst f)) (w_files w)), w)),
      file_stat = (\<lambda>p w. (case map_of (w_files w) p of None \<Rightarrow> None | Some _ \<Rightarrow> Some (True, 0), w)),
      inet_pton4 = (\<lambda>t. if t = ''10.0.0.1'' then Some [CHR 0x0A, NUL, NUL, CHR 0x01] else None),
      inet_pton6 = (\<lambda>t. None),
      inet_ntop = (\<lambda>b. None),
      tls_ready = True,
      mbed_setup = (\<lambda>fd w. (True, w)),
      mbed_handshake = (\<lambda>fd pre w. ((MBED_OK, pre), w)),
      mbed_read = (\<lambda>fd pre len w. ((Inl MBED_WANT_READ, pre), w)),
      mbed_write = (\<lambda>fd buf w. (Inr (length buf), w\<lparr>w_sent := w_sent w @ [buf]\<rparr>)),
      auth_results_build = (\<lambda>hn msg from ip w. (None, w)),
      dkim_sign = (\<lambda>msg dm sel key w. (None, w)),
      smtp_out_send = (\<lambda>cfg from to body w. (w_relay w, w))\<rparr>"

lemma ref_env_eng [simp]: "eng ref_env = ref_engine"
  by (simp add: ref_env_def)

lemma map_of_filter_neq: "q \<noteq> p \<Longrightarrow> map_of (filter (\<lambda>f. fst f \<noteq> p) fs) q = map_of fs q"
  by (induction fs) auto

interpretation refsys: mail_system ref_env ref_facts ref_files
proof -
  have eng: "dl_provider (eng ref_env) ref_facts" using ref.dl_provider_axioms by simp
  show "mail_system ref_env ref_facts ref_files"
    by (intro mail_system.intro mail_system_axioms.intro eng)
      (auto simp: ref_env_def quiet_def ref_files_def map_of_filter_neq split: list.splits)
qed

definition ref_relay :: ConfigRelay where
  "ref_relay = \<lparr>relay_host = ''relay'', relay_port = 25,
     relay_auth = \<lparr>auth_enabled = False, auth_username = [], auth_password = []\<rparr>,
     relay_retries = 0, relay_tls = ''none'', relay_max_attempts = 3, relay_tls_ca = []\<rparr>"

definition ref_cfg :: Config where
  "ref_cfg =
     \<lparr>cfg_hostname = ''mx'', cfg_domains = [''ex.org''],
      cfg_listen = \<lparr>listen_address = ''0.0.0.0'', listen_port = 25, proxy_from = [''10.0.0.1'']\<rparr>,
      cfg_tls_listen = \<lparr>tls_listen_address = None, tls_listen_port = 0\<rparr>,
      cfg_limits = \<lparr>limit_message = 1000, limit_line = 0, limit_rcpts = 2, cmd_timeout = 0, data_timeout = 0\<rparr>,
      cfg_relay = ref_relay, cfg_reply_relay = ref_relay,
      cfg_storage = \<lparr>storage_path = ''db'', storage_spool = ''sp'', retention_days = 1\<rparr>,
      cfg_reply = \<lparr>reply_prefix = ''reply'', reply_separator = ''+''\<rparr>,
      cfg_catch_all = [], cfg_aliases = [], cfg_http = \<lparr>http_address = ''127.0.0.1'', http_port = 8080\<rparr>, cfg_admin_token = ''t0ken'', cfg_dkim = []\<rparr>"

definition ref_conn :: Conn where
  "ref_conn =
     \<lparr>c_fd = 5, c_state = ST_INIT, c_closed = False, c_from = None, c_rcpts = [], c_in = [], c_data = [],
      c_scan_pos = 0, c_out = [], c_out_off = 0, c_last_act = 0, c_peer_ip = [CHR 0x7F, NUL, NUL, CHR 0x01],
      c_real_ip = [CHR 0x7F, NUL, NUL, CHR 0x01], c_proxy_seen = True, c_greeted = True,
      c_tls_proxy_wait = False, c_tls = None\<rparr>"

definition ref_sys :: "ref_db Store \<Rightarrow> smtp_status \<Rightarrow> (ref_db, ref_world) Sys" where
  "ref_sys st relay =
     \<lparr>s_store = st, s_conns = [], s_reply_rows = [], s_next_revmap_sweep = 0, s_next_spool_sweep = 0,
      s_conn = ref_conn, s_world = \<lparr>w_files = [], w_time = 100, w_input = [], w_sent = [], w_relay = relay\<rparr>,
      s_stalled = False\<rparr>"

end
