(* ===== verification/Smtp_Delivery_Proofs.thy ===== *)
theory Smtp_Delivery_Proofs
  imports Smtp_World
begin

text \<open>
  Durability of accepted mail. A delivery is durable when the queue has a row for it and its body
  is in the spool. No step of the server loses a durable delivery of another key, an enqueueing
  that reports success has made one, and the reply 250 to a message is sent only when every
  ordinal the message was given is durable; the collector of old files leaves active deliveries
  alone.
\<close>

section \<open>What a durable delivery is\<close>

definition durable :: "('d \<Rightarrow> rel \<Rightarrow> row set) \<Rightarrow> ('w \<Rightarrow> string \<Rightarrow> string option) \<Rightarrow> Config \<Rightarrow> u32 \<Rightarrow> u32 \<Rightarrow> ('d, 'w) Sys \<Rightarrow> bool" where
  "durable F files cfg m k s \<longleftrightarrow>
     on_queue F (db (s_store s)) m k \<and>
     (\<exists>p b. spool_out_path (storage_spool (cfg_storage cfg)) m k SPOOL_PATH_MAX = Some p \<and> files (s_world s) p = Some b)"

section \<open>Store operations keep the queue\<close>

definition keeps_queue :: "('d \<Rightarrow> rel \<Rightarrow> row set) \<Rightarrow> ('d Store \<Rightarrow> 'r \<times> 'd Store) \<Rightarrow> bool" where
  "keeps_queue F f \<longleftrightarrow> (\<forall>s m k. on_queue F (db s) m k \<longrightarrow> on_queue F (db (snd (f s))) m k)"

lemma keeps_queueI: "(\<And>s. F (db s) REL_QUEUE \<subseteq> F (db (snd (f s))) REL_QUEUE) \<Longrightarrow> keeps_queue F f"
  unfolding keeps_queue_def on_queue_def by blast

context dl_provider
begin

lemma intern_queue: "dl_intern_str E d w = (i, d') \<Longrightarrow> facts d' REL_QUEUE = facts d REL_QUEUE"
  by (simp add: intern_facts)

lemma add_queue: "dl_add_fact E d r x = (ok, d') \<Longrightarrow> facts d REL_QUEUE \<subseteq> facts d' REL_QUEUE"
  using add_bounds add_other by (cases "r = REL_QUEUE") auto

lemma log_add_queue: "keeps_queue facts (\<lambda>s. store_log_add E s m ts dr l r st)"
  by (rule keeps_queueI) (auto simp: store_log_add_def intern_queue split: prod.splits dest!: add_queue)

lemma queue_add_queue: "keeps_queue facts (\<lambda>s. store_queue_add E s m k f t)"
  by (rule keeps_queueI) (auto simp: store_queue_add_def intern_queue split: prod.splits dest!: add_queue)

lemma revmap_add_queue: "keeps_queue facts (\<lambda>s. store_revmap_add E now s t f a)"
  by (rule keeps_queueI) (auto simp: store_revmap_add_def store_revmap_add_at_def intern_queue split: prod.splits dest!: add_queue)

lemma resolve_queue: "keeps_queue facts (\<lambda>s. store_resolve E s a)"
  by (rule keeps_queueI) (auto simp: store_resolve_def intern_queue split: prod.splits sum.splits option.splits)

lemma route_queue: "keeps_queue facts (\<lambda>s. reply_route_inbound E now s cfg a)"
  by (rule keeps_queueI)
    (auto simp: reply_route_inbound_def store_revmap_resolve_def intern_queue split: prod.splits option.splits list.splits)

lemma next_due_queue: "keeps_queue facts (store_queue_next_due E)"
  by (rule keeps_queueI) (auto simp: store_queue_next_due_def Let_def intern_queue split: prod.splits option.splits)

lemma queue_due_queue:
  "keeps_queue facts (\<lambda>s. case store_queue_due E s now cb u of (r, items, s') \<Rightarrow> ((r, items), s'))"
  by (rule keeps_queueI) (auto simp: store_queue_due_def intern_queue split: prod.splits option.splits)

lemma next_msgid_queue: "keeps_queue facts (store_next_msgid E)"
proof (rule keeps_queueI)
  fix s :: "'d Store"
  obtain i d where i: "dl_intern_str E (db s) META_KEY_NEXT_MSGID = (i, d)" by (cases "dl_intern_str E (db s) META_KEY_NEXT_MSGID")
  then show "facts (db s) REL_QUEUE \<subseteq> facts (db (snd (store_next_msgid E s))) REL_QUEUE"
    using delete_rows_other [of REL_QUEUE REL_META] intern_queue [OF i]
    by (auto simp: store_next_msgid_def store_next_msgid_trace_def Let_def split: prod.splits option.splits dest!: add_queue)
qed

lemma set_status_queue: "keeps_queue facts (\<lambda>s. store_queue_set_status E s m k st a ts)"
  unfolding keeps_queue_def
proof (intro allI impI)
  fix s :: "'d Store" and m' k'
  assume on: "on_queue facts (db s) m' k'"
  obtain res s' tr where t: "store_queue_set_status_trace E s m k st a ts = (res, s', tr)" by (metis prod.exhaust)
  have "on_queue facts (db s') m' k'"
  proof (cases "m' = m \<and> k' = k")
    case True
    then show ?thesis using set_status_keeps on t by blast
  next
    case False
    moreover have "store_queue_set_status E s m k st a ts = (res, s')" by (simp add: store_queue_set_status_def t)
    ultimately show ?thesis using on set_status_other unfolding on_queue_def by fastforce
  qed
  then show "on_queue facts (db (snd (store_queue_set_status E s m k st a ts))) m' k'"
    by (simp add: store_queue_set_status_def t)
qed

lemma queue_add_on_queue:
  assumes "store_queue_add E s m k f t = (Inr (), s')"
  shows "on_queue facts (db s') m k"
  using assms by (auto simp: store_queue_add_def on_queue_def numeral_2_eq_2 split: prod.splits if_splits dest!: add_done)

lemmas queue_keepers = log_add_queue queue_add_queue revmap_add_queue resolve_queue route_queue next_due_queue
  queue_due_queue next_msgid_queue set_status_queue

end

section \<open>Paths in the spool\<close>

lemma out_path: "spool_out_path sp m k n = Some p \<Longrightarrow> p = sp @ ''/'' @ spool_out_name m k"
  by (simp add: spool_out_path_def Let_def split: if_splits)

lemma out_path_inj:
  assumes "spool_out_path sp m k n = Some p" "spool_out_path sp m' k' n' = Some p"
  shows "m = m' \<and> k = k'"
proof -
  have "spool_out_name m k = spool_out_name m' k'" using out_path assms by (metis same_append_eq)
  then show ?thesis by (metis spool_parse_out spool_shape.inject(2))
qed

lemma out_path_not_raw:
  assumes "spool_out_path sp m k n = Some p"
  shows "p \<noteq> sp @ ''/'' @ dec_of_nat (unat (m' :: u32)) @ ''.eml''"
proof
  assume "p = sp @ ''/'' @ dec_of_nat (unat m') @ ''.eml''"
  then have "spool_out_name m k = dec_of_nat (unat m') @ ''.eml''" using out_path [OF assms] by (metis same_append_eq)
  then show False by (metis spool_parse_out spool_parse_in spool_shape.distinct(5))
qed

section \<open>Steps keep durable deliveries\<close>

context mail_system
begin

abbreviation keep :: "Config \<Rightarrow> u32 \<Rightarrow> u32 \<Rightarrow> (('d, 'w) Sys, 'r) state \<Rightarrow> bool" where
  "keep cfg m k \<equiv> state_io_rel (keeps (durable facts files cfg m k))"

lemma store_io: "keeps_queue facts f \<Longrightarrow> keep cfg m k (on_store f)"
  by (auto simp: state_io_rel_def keeps_def durable_def keeps_queue_def)

lemma world_io: "quiet files f \<Longrightarrow> keep cfg m k (on_world f)"
  by (auto simp: state_io_rel_def keeps_def durable_def quiet_def)

lemma field_io: "(\<And>s. s_store (f s) = s_store s \<and> s_world (f s) = s_world s) \<Longrightarrow> keep cfg m k (modify f)"
  by (simp add: state_io_rel_def keeps_def durable_def)

lemma conn_io: "keep cfg m k conn"
  by (simp add: state_io_rel_def keeps_def)

lemma upd_conn_io: "keep cfg m k (upd_conn f)"
  by (simp add: upd_conn_def field_io)

lemma status_case_io:
  "keep cfg m k a \<Longrightarrow> keep cfg m k b \<Longrightarrow> keep cfg m k c \<Longrightarrow> keep cfg m k d \<Longrightarrow>
   keep cfg m k (case r of SMTP_OK \<Rightarrow> a | SMTP_TEMPFAIL \<Rightarrow> b | SMTP_PERMFAIL \<Rightarrow> c | SMTP_ERROR \<Rightarrow> d)"
  by (cases r) auto

lemmas keep_core = keeping.return_io keeping.gets_io keeping.bind_io keeping.whenM_io keeping.if_io keeping.option_io
  keeping.sum_io keeping.prod_io keeping.let_io keeping.foldM_io store_io upd_conn_io conn_io status_case_io queue_keepers

lemmas keep_rules = keep_core world_io quiet_all

lemma time32_io: "keep cfg m k (time32 E)"
  unfolding time32_def by (intro keep_rules)

lemma log_add_io: "keep cfg m k (log_add E msgid ts dr l r st)"
  unfolding log_add_def by (intro keep_rules)

lemma set_status_io: "keep cfg m k (set_status E msgid j st a ts)"
  unfolding set_status_def by (intro keep_rules)

lemma mark_io: "keep cfg m k (reply_mark_push msgid j)" "keep cfg m k (reply_mark_remove msgid j)"
  unfolding reply_mark_push_def reply_mark_remove_def by (intro field_io, simp)+

lemma requeue_io: "keep cfg m k (queue_requeue E msgid j f t a now mx)"
  unfolding queue_requeue_def by (intro keep_rules set_status_io log_add_io)

lemma finish_io: "keep cfg m k (finish_delivery E msgid j f t a now r st)"
  unfolding finish_delivery_def by (intro keep_rules set_status_io log_add_io mark_io)

lemma deliver_one_io: "keep cfg m k (queue_deliver_one E cfg' msgid j f t a)"
  unfolding queue_deliver_one_def by (intro keep_rules time32_io set_status_io finish_io requeue_io)

lemma redrive_loop_io: "keep cfg m k (redrive_loop E cfg' dl i its)"
proof (induction its arbitrary: i)
  case (Cons it its)
  show ?case unfolding redrive_loop.simps by (intro keep_rules deliver_one_io Cons)
qed (simp add: keeping.return_io)

lemma redrive_io: "keep cfg m k (queue_redrive E cfg')"
  unfolding queue_redrive_def by (intro keep_rules time32_io redrive_loop_io)

lemma mkdir_io: "keep cfg m k (mkdir_p E p)"
proof -
  have "keep cfg m k (mkdir_all E ps)" for ps by (induction ps) (simp; intro keep_rules, simp?)+
  then show ?thesis unfolding mkdir_p_def by (intro keep_rules)
qed

lemma write_io:
  assumes "\<And>q. spool_out_path (storage_spool (cfg_storage cfg)) m k SPOOL_PATH_MAX = Some q \<Longrightarrow> q \<noteq> p"
  shows "keep cfg m k (on_world (file_write E p d))" "keep cfg m k (on_world (file_unlink E p))"
  unfolding state_io_rel_def keeps_def durable_def
  using assms write_other [of p d] unlink_other [of p] by (fastforce simp: prod_eq_iff)+

lemma spool_body_io:
  assumes "(m, k) \<noteq> (msgid, j)"
  shows "keep cfg m k (spool_body E cfg msgid j b)"
proof (cases "spool_out_path (storage_spool (cfg_storage cfg)) msgid j SPOOL_PATH_MAX")
  case None
  then show ?thesis unfolding spool_body_def None option.case by (intro keep_rules mkdir_io)
next
  case (Some p)
  then have "keep cfg m k (on_world (file_write E p b))" using out_path_inj assms by (intro write_io) blast
  then show ?thesis unfolding spool_body_def Some option.case by (intro keep_core mkdir_io)
qed

lemma spool_body_path:
  "eval (spool_body E cfg msgid j b) s = Some p \<Longrightarrow>
   spool_out_path (storage_spool (cfg_storage cfg)) msgid j SPOOL_PATH_MAX = Some p
   \<and> files (s_world (exec (spool_body E cfg msgid j b) s)) p = Some b"
  by (auto simp: spool_body_def split: if_splits option.splits intro!: write_done [OF prod_eqI])

lemma enqueue_io:
  assumes "(m, k) \<noteq> (msgid, j)"
  shows "keep cfg m k (queue_enqueue E cfg msgid j f t b r)"
  unfolding queue_enqueue_def
proof (rule keeping.bind_io [OF time32_io], rule keeping.bind_io_val
    [where V = "\<lambda>sp. \<forall>p. sp = Some p \<longrightarrow> spool_out_path (storage_spool (cfg_storage cfg)) msgid j SPOOL_PATH_MAX = Some p"],
    goal_cases)
  case 1
  show ?case by (rule spool_body_io [OF assms])
next
  case 2
  show ?case using spool_body_path by blast
next
  case (3 now sp)
  show ?case
  proof (cases sp)
    case None
    then show ?thesis by simp (intro keep_rules log_add_io)
  next
    case (Some p)
    then have "keep cfg m k (on_world (file_unlink E p))" using out_path_inj 3 assms by (intro write_io) blast
    then show ?thesis unfolding Some option.case by (intro keep_core log_add_io mark_io deliver_one_io)
  qed
qed

lemma enqueue_durable:
  assumes "eval (queue_enqueue E cfg msgid j f t b r) s"
  shows "durable facts files cfg msgid j (exec (queue_enqueue E cfg msgid j f t b r) s)"
proof -
  define s1 where "s1 = exec (spool_body E cfg msgid j b) (exec (time32 E) s)"
  define now where "now = eval (time32 E) s"
  obtain p where p: "eval (spool_body E cfg msgid j b) (exec (time32 E) s) = Some p"
    using assms by (cases "eval (spool_body E cfg msgid j b) (exec (time32 E) s)") (auto simp: queue_enqueue_def)
  obtain s2 where a: "store_queue_add (eng E) (s_store s1) msgid j f t = (Inr (), s2)"
    using assms p by (cases "fst (store_queue_add (eng E) (s_store s1) msgid j f t)") (auto simp: queue_enqueue_def s1_def prod_eq_iff)
  have d: "durable facts files cfg msgid j (s1\<lparr>s_store := s2\<rparr>)"
    using spool_body_path [OF p] queue_add_on_queue [OF a] by (auto simp: durable_def s1_def)
  have rest: "keep cfg msgid j (log_add E msgid now LOG_DIR_OUT f t ''queued'' \<bind>
      (\<lambda>_. whenM r (reply_mark_push msgid j) \<bind> (\<lambda>_. queue_deliver_one E cfg msgid j f t 0 \<bind> (\<lambda>_. return True))))"
    by (intro keep_core log_add_io mark_io deliver_one_io)
  have "exec (queue_enqueue E cfg msgid j f t b r) s = exec (log_add E msgid now LOG_DIR_OUT f t ''queued'' \<bind>
      (\<lambda>_. whenM r (reply_mark_push msgid j) \<bind> (\<lambda>_. queue_deliver_one E cfg msgid j f t 0 \<bind> (\<lambda>_. return True)))) (s1\<lparr>s_store := s2\<rparr>)"
    using p a by (simp add: queue_enqueue_def s1_def now_def)
  then show ?thesis using keepsD [OF rest d] by simp
qed

lemma sign_io: "keep cfg m k (forward_sign E cfg' a msg)"
  unfolding forward_sign_def by (intro keep_rules)

lemma rewrite_io: "keep cfg m k (forward_rewrite E cfg' sender a)"
  unfolding forward_rewrite_def by (intro keep_rules time32_io)

lemma prepare_io: "keep cfg m k (forward_prepare E cfg' msg sender a)"
  unfolding forward_prepare_def by (intro keep_rules rewrite_io sign_io)

lemma route_io: "keep cfg m k (route_inbound E cfg' rcpt)"
  unfolding route_inbound_def by (intro keep_rules time32_io)

lemma raw_io: "keep cfg m k (spool_raw E cfg msgid msg)"
proof -
  have "keep cfg m k (on_world (file_write E (storage_spool (cfg_storage cfg) @ ''/'' @ dec_of_nat (unat msgid) @ ''.eml'') msg))"
    by (rule write_io) (rule out_path_not_raw)
  then show ?thesis unfolding spool_raw_def Let_def by (intro keep_core mkdir_io)
qed

lemma flush_files: "\<forall>buf. quiet files (f buf) \<Longrightarrow> files (snd (flush_loop f out off w)) = files w"
proof (induction f out off w rule: flush_loop.induct)
  case (1 f out off w)
  obtain r w' where r: "f (drop off out) w = (r, w')" by (cases "f (drop off out) w")
  have w: "files w' = files w" using 1(2) r unfolding quiet_def by (metis snd_conv)
  show ?case
  proof (cases "off \<ge> length out")
    case True
    then show ?thesis by (simp add: flush_loop.simps)
  next
    case False
    note IH = 1(1) [OF False r [symmetric]]
    show ?thesis
    proof (cases r)
      case (Sent n)
      then show ?thesis using False r w IH [OF Sent _ 1(2)] by (cases "n = 0") (simp_all add: flush_loop.simps [of f out off w])
    qed (use False r w in \<open>simp_all add: flush_loop.simps [of f out off w]\<close>)
  qed
qed

lemma send_quiet: "quiet files (smtp_in_tls_send E fd buf)"
  using quiet_files [OF quiet_tls(4)] unfolding quiet_def smtp_in_tls_send_def
  by (auto split: prod.splits sum.splits) (metis snd_conv)+

lemma flush_io: "keep cfg m k (conn_flush E)"
proof -
  have "quiet files (flush_loop (flush_send E c) out off)" for c out off
    unfolding quiet_def flush_send_def using flush_files send_quiet quiet_net(1) by simp
  then show ?thesis unfolding conn_flush_def by (intro keep_rules)
qed

lemma conn_reply_io: "keep cfg m k (conn_reply E text)"
  unfolding conn_reply_def close_conn_def by (intro keep_core flush_io)

end

section \<open>Accepted mail\<close>

lemma u32_less_add1:
  assumes "j < k + 1"
  shows "j < k \<or> j = (k :: u32)"
proof -
  have "k + 1 \<noteq> 0" using assms word_less_1 by force
  then have "unat j < unat k + 1" using assms by (simp add: word_less_nat_alt u32_Suc)
  then have "unat j < unat k \<or> unat j = unat k" by linarith
  then show ?thesis unfolding word_less_nat_alt word_unat_eq_iff .
qed

context mail_system
begin

definition all_durable :: "Config \<Rightarrow> u32 \<Rightarrow> u32 \<Rightarrow> ('d, 'w) Sys \<Rightarrow> bool" where
  "all_durable cfg m k s \<longleftrightarrow> (\<forall>j < k. durable facts files cfg m j s)"

lemma all_durable_keep: "(\<And>j. j < k \<Longrightarrow> keep cfg m j act) \<Longrightarrow> all_durable cfg m k s \<Longrightarrow> all_durable cfg m k (exec act s)"
  by (simp add: all_durable_def keepsD)

lemma enqueue_all:
  assumes "all_durable cfg m k s" "eval (queue_enqueue E cfg m k f t b r) s"
  shows "all_durable cfg m (k + 1) (exec (queue_enqueue E cfg m k f t b r) s)"
proof -
  have "durable facts files cfg m j (exec (queue_enqueue E cfg m k f t b r) s)" if "j < k" for j
    using assms(1) that enqueue_io [of m j m k cfg f t b r] keepsD by (fastforce simp: all_durable_def)
  then show ?thesis using enqueue_durable [OF assms(2)] u32_less_add1 by (auto simp: all_durable_def)
qed

text \<open>A computation that takes the ordinal \<open>k\<close> and returns success and the next ordinal.\<close>

definition grows :: "Config \<Rightarrow> u32 \<Rightarrow> bool \<times> u32 \<Rightarrow> (('d, 'w) Sys, bool \<times> u32) state \<Rightarrow> bool" where
  "grows cfg m acc act \<longleftrightarrow> (\<forall>s. (fst acc \<longrightarrow> all_durable cfg m (snd acc) s) \<longrightarrow>
     (fst (eval act s) \<longrightarrow> fst acc \<and> all_durable cfg m (snd (eval act s)) (exec act s)))"

lemma grows_foldM: "(\<And>acc x. grows cfg m acc (f acc x)) \<Longrightarrow> grows cfg m acc (foldM f acc xs)"
proof (induction xs arbitrary: acc)
  case (Cons x xs)
  show ?case unfolding grows_def
  proof (intro allI impI)
    fix s
    assume a: "fst acc \<longrightarrow> all_durable cfg m (snd acc) s" and g: "fst (eval (foldM f acc (x # xs)) s)"
    let ?a = "eval (f acc x) s" let ?s = "exec (f acc x) s"
    have 1: "fst ?a \<longrightarrow> fst acc \<and> all_durable cfg m (snd ?a) ?s" using Cons(2) [of acc x] a unfolding grows_def by blast
    then have "fst ?a \<and> all_durable cfg m (snd (eval (foldM f ?a xs) ?s)) (exec (foldM f ?a xs) ?s)"
      using Cons(1) [OF Cons(2), of ?a] g unfolding grows_def foldM.simps run_bind by blast
    then show "fst acc \<and> all_durable cfg m (snd (eval (foldM f acc (x # xs)) s)) (exec (foldM f acc (x # xs)) s)"
      using 1 by simp
  qed
qed (simp add: grows_def)

lemma grows_dest: "grows cfg m acc (enqueue_dest E cfg m ef body acc d)"
  unfolding grows_def enqueue_dest_def using enqueue_all by (auto split: prod.splits)

lemma grows_alias: "grows cfg m (good, k) (do { (ok, k') \<leftarrow> forward_alias E cfg msg sender rcpt m ts k; return (good \<and> ok, k') })"
proof -
  have a: "fst (eval (forward_alias E cfg msg sender rcpt m ts k) s) \<Longrightarrow> all_durable cfg m k s \<Longrightarrow>
      all_durable cfg m (snd (eval (forward_alias E cfg msg sender rcpt m ts k) s)) (exec (forward_alias E cfg msg sender rcpt m ts k) s)" for s
  proof -
    assume g: "fst (eval (forward_alias E cfg msg sender rcpt m ts k) s)" and d: "all_durable cfg m k s"
    let ?r = "fst (store_resolve (eng E) (s_store s) rcpt)" and ?s = "exec (on_store (\<lambda>s. store_resolve (eng E) s rcpt)) s"
    have d1: "all_durable cfg m k ?s" using all_durable_keep [OF store_io [OF resolve_queue] d] .
    obtain dests where r: "?r = Inr dests" using g by (cases ?r) (auto simp: forward_alias_def)
    show ?thesis
    proof (cases "dests = []")
      case True
      show ?thesis
      proof (cases "cfg_catch_all cfg = []")
        case True
        have "all_durable cfg m k (exec (log_add E m ts LOG_DIR_IN rcpt (remote_name sender) ''rejected'') ?s)"
          using all_durable_keep [OF log_add_io d1] .
        then show ?thesis using r \<open>dests = []\<close> True by (simp add: forward_alias_def)
      next
        case False
        let ?p = "eval (forward_prepare E cfg msg sender rcpt) ?s" and ?s1 = "exec (forward_prepare E cfg msg sender rcpt) ?s"
        have d2: "all_durable cfg m k ?s1" using all_durable_keep [OF prepare_io d1] .
        obtain body ef where p: "?p = Some (body, ef)"
          using g r \<open>dests = []\<close> False by (cases ?p) (auto simp: forward_alias_def forward_one_def)
        then have "eval (queue_enqueue E cfg m k ef (cfg_catch_all cfg) body False) ?s1"
          using g r \<open>dests = []\<close> False by (simp add: forward_alias_def forward_one_def)
        then show ?thesis using enqueue_all [OF d2] r \<open>dests = []\<close> False p by (simp add: forward_alias_def forward_one_def)
      qed
    next
      case False
      let ?p = "eval (forward_prepare E cfg msg sender rcpt) ?s" and ?s1 = "exec (forward_prepare E cfg msg sender rcpt) ?s"
      have d2: "all_durable cfg m k ?s1" using all_durable_keep [OF prepare_io d1] .
      obtain body ef where p: "?p = Some (body, ef)" using g r False by (cases ?p) (auto simp: forward_alias_def)
      have "grows cfg m (True, k) (foldM (enqueue_dest E cfg m ef body) (True, k) dests)" by (rule grows_foldM) (rule grows_dest)
      then show ?thesis using d2 g r False p unfolding grows_def by (simp add: forward_alias_def)
    qed
  qed
  show ?thesis unfolding grows_def split_beta using a by simp
qed

lemma reply_all:
  assumes "all_durable cfg m k s" "eval (forward_reply E cfg msg a d rv ow m ts k) s"
  shows "all_durable cfg m (k + 1) (exec (forward_reply E cfg msg a d rv ow m ts k) s)"
proof -
  let ?rw = "\<lparr>received = Some (received_text cfg ow), return_path = Some a, rw_from = Some a, rw_sender = Some a, reply_to = Some a\<rparr>"
  obtain x where x: "mail_sanitize_for_forward msg ?rw = Some x"
    using assms(2) by (cases "mail_sanitize_for_forward msg ?rw") (auto simp: forward_reply_def)
  let ?st = "case reply_strip_reverse x rv of Inl _ \<Rightarrow> x | Inr m \<Rightarrow> m"
  obtain y where y: "mail_header_set ?st ''To'' d = Some y"
    using assms(2) x by (cases "mail_header_set ?st ''To'' d") (auto simp: forward_reply_def)
  have "all_durable cfg m k (exec (forward_sign E cfg a y) s)" using all_durable_keep [OF sign_io assms(1)] .
  then show ?thesis using enqueue_all assms(2) x y by (simp add: forward_reply_def Let_def)
qed

lemma grows_rcpt: "grows cfg m acc (deliver_rcpt E cfg msg sender m ts acc rcpt)"
proof (cases acc)
  case (Pair good k)
  let ?r = "route_inbound E cfg rcpt"
  have d: "good \<longrightarrow> all_durable cfg m k (exec ?r s)" if "good \<longrightarrow> all_durable cfg m k s" for s
    using all_durable_keep [OF route_io] that by blast
  show ?thesis unfolding grows_def Pair
  proof (intro allI impI)
    fix s
    assume s: "fst (good, k) \<longrightarrow> all_durable cfg m (snd (good, k)) s"
      and g: "fst (eval (deliver_rcpt E cfg msg sender m ts (good, k) rcpt) s)"
    show "fst (good, k) \<and> all_durable cfg m (snd (eval (deliver_rcpt E cfg msg sender m ts (good, k) rcpt) s))
       (exec (deliver_rcpt E cfg msg sender m ts (good, k) rcpt) s)"
    proof (cases "eval ?r s")
      case (Inl e)
      then show ?thesis using g by (simp add: deliver_rcpt_def)
    next
      case (Inr o')
      show ?thesis
      proof (cases o')
        case None
        let ?f = "do { (ok, k') \<leftarrow> forward_alias E cfg msg sender rcpt m ts k; return (good \<and> ok, k') }"
        have "fst (eval ?f (exec ?r s))" using g Inr None by (simp add: deliver_rcpt_def)
        then have "good \<and> all_durable cfg m (snd (eval ?f (exec ?r s))) (exec ?f (exec ?r s))"
          using grows_alias [of cfg m good k msg sender rcpt ts] d [of s] s unfolding grows_def fst_conv snd_conv by blast
        then show ?thesis using Inr None by (simp add: deliver_rcpt_def split_beta)
      next
        case (Some q)
        then show ?thesis using d [of s] s g Inr reply_all by (auto simp: deliver_rcpt_def split: prod.splits)
      qed
    qed
  qed
qed

lemma deliver_all_durable:
  assumes "run_state (foldM (deliver_rcpt E cfg msg sender m ts) (True, 0) rcpts) s = ((True, k), s1)" "j < k"
  shows "durable facts files cfg m j s1"
proof -
  have "grows cfg m (True, 0) (foldM (deliver_rcpt E cfg msg sender m ts) (True, 0) rcpts)" by (rule grows_foldM) (rule grows_rcpt)
  moreover have "all_durable cfg m 0 s" by (simp add: all_durable_def)
  ultimately have "all_durable cfg m k s1" using assms(1) unfolding grows_def by (metis fst_conv snd_conv)
  then show ?thesis using assms(2) by (simp add: all_durable_def)
qed

end


definition mail_conn :: Conn where
  "mail_conn = ref_conn\<lparr>c_state := ST_DATA, c_from := Some ''a@b'', c_rcpts := [''info@ex.org'']\<rparr>"


section \<open>Collecting spool files\<close>

text \<open>
  The delivery has an active row, and few enough rows for \<open>store_queue_status\<close> to see all of them.
\<close>

definition active_delivery :: "'d dl_engine \<Rightarrow> ('d \<Rightarrow> rel \<Rightarrow> row set) \<Rightarrow> 'd \<Rightarrow> u32 \<Rightarrow> u32 \<Rightarrow> bool" where
  "active_delivery E F d m k \<longleftrightarrow>
     finite {x \<in> F d REL_QUEUE. take 2 x = [m, k]} \<and> card {x \<in> F d REL_QUEUE. take 2 x = [m, k]} \<le> QUEUE_SET_MAX_ROWS \<and>
     (\<exists>x \<in> F d REL_QUEUE. take 2 x = [m, k] \<and> (\<exists>t. dl_intern_str_of E d (x ! 6) = Some t \<and> active_status t))"

context mail_system
begin

lemma active_not_removed:
  assumes "active_delivery (eng E) facts (db st) m k" "store_queue_status (eng E) st m k 64 = Inr t"
  shows "active_status t"
proof -
  obtain x u where x: "x \<in> facts (db st) REL_QUEUE" "take 2 x = [m, k]" "dl_intern_str_of (eng E) (db st) (x ! 6) = Some u" "active_status u"
    using assms(1) by (auto simp: active_delivery_def)
  obtain rows where rows: "dl_prefix (eng E) (db st) REL_QUEUE [m, k] = Some rows"
    using assms(2) by (cases "dl_prefix (eng E) (db st) REL_QUEUE [m, k]") (auto simp: store_queue_status_def queue_rows_def)
  have "length rows = card {x \<in> facts (db st) REL_QUEUE. take 2 x = [m, k]}"
    using prefix_rows [OF rows] distinct_card [of rows] by (simp add: numeral_2_eq_2)
  then have "length rows \<le> QUEUE_SET_MAX_ROWS" using assms(1) by (simp add: active_delivery_def)
  from queue_status_active [OF x rows this, of 64] assms(2) show ?thesis by auto
qed

lemma delete_keeps_active:
  assumes "active_delivery (eng E) facts (db st) m k" "(m', k') \<noteq> (m, k)"
  shows "active_delivery (eng E) facts (db (snd (store_queue_delete (eng E) st m' k'))) m k"
proof (cases "queue_rows (eng E) (db st) m' k'")
  case (Some rows)
  let ?d = "delete_rows (eng E) REL_QUEUE rows (db st)"
  have "{x \<in> facts ?d REL_QUEUE. take 2 x = [m, k]} = {x \<in> facts (db st) REL_QUEUE. take 2 x = [m, k]}"
    using delete_rows_bounds [of "db st" REL_QUEUE rows] queue_rows_facts [OF Some] assms(2) by auto
  then show ?thesis using assms(1) Some delete_rows_syms [of REL_QUEUE rows "db st"]
    unfolding active_delivery_def store_queue_delete_def by (auto simp: set_eq_iff)
qed (use assms(1) in \<open>simp add: store_queue_delete_def\<close>)

definition gc_safe :: "u32 \<Rightarrow> u32 \<Rightarrow> string \<Rightarrow> string option \<Rightarrow> ('d, 'w) Sys \<Rightarrow> bool" where
  "gc_safe m k p v s \<longleftrightarrow> active_delivery (eng E) facts (db (s_store s)) m k \<and> files (s_world s) p = v"

lemma gc_quiet: "gc_safe m k p v s \<Longrightarrow> quiet files f \<Longrightarrow> gc_safe m k p v (exec (on_world f) s)"
  by (simp add: gc_safe_def quiet_def)

lemma gc_unlink: "gc_safe m k p v s \<Longrightarrow> q \<noteq> p \<Longrightarrow> gc_safe m k p v (exec (on_world (file_unlink E q)) s)"
  using unlink_other [of q "s_world s" "fst (file_unlink E q (s_world s))" "snd (file_unlink E q (s_world s))" p]
  by (simp add: gc_safe_def)

lemma gc_file_keeps:
  assumes "gc_safe m k (storage_spool (cfg_storage cfg) @ ''/'' @ spool_out_name m k) v s"
  shows "gc_safe m k (storage_spool (cfg_storage cfg) @ ''/'' @ spool_out_name m k) v (exec (spool_gc_file E cfg now name) s)"
proof -
  let ?p = "storage_spool (cfg_storage cfg) @ ''/'' @ spool_out_name m k"
  let ?q = "storage_spool (cfg_storage cfg) @ ''/'' @ name"
  let ?s = "exec (on_world (file_stat E ?q)) s" and ?r = "eval (on_world (file_stat E ?q)) s"
  have safe: "gc_safe m k ?p v ?s" using gc_quiet [OF assms quiet_dir(3)] .
  have ne: "?q \<noteq> ?p" if "spool_name_parse name \<noteq> Spool_out m k" using that spool_parse_out by auto
  show ?thesis
  proof (cases "c_head name = DOT \<or> spool_name_parse name = Spool_foreign \<or> length ?q \<ge> SPOOL_PATH_MAX")
    case True
    then show ?thesis using assms unfolding spool_gc_file_def Let_def by (auto simp del: length_append)
  next
    case False
    show ?thesis
    proof (cases "\<exists>mt. ?r = Some (True, mt) \<and> \<not> now - mt < int (unat (retention_days (cfg_storage cfg))) * 86400")
      case keep: False
      then have "exec (spool_gc_file E cfg now name) s = ?s"
        using False by (auto simp: spool_gc_file_def Let_def split: option.splits prod.splits simp del: length_append)
      then show ?thesis using safe by simp
    next
      case True
      then obtain mt where r: "?r = Some (True, mt)" and old: "\<not> now - mt < int (unat (retention_days (cfg_storage cfg))) * 86400" by blast
      show ?thesis
      proof (cases "spool_name_parse name")
        case Spool_foreign
        then show ?thesis using False by blast
      next
        case (Spool_in m')
        then have "exec (spool_gc_file E cfg now name) s = exec (on_world (file_unlink E ?q)) ?s"
          using False r old by (auto simp: spool_gc_file_def Let_def simp del: length_append)
        then show ?thesis using gc_unlink [OF safe ne] Spool_in by simp
      next
        case (Spool_out m' k')
        let ?st = "store_queue_status (eng E) (s_store ?s) m' k' 64"
        show ?thesis
        proof (cases "\<exists>t. ?st = Inr t \<and> \<not> active_status t")
          case live: False
          then have "exec (spool_gc_file E cfg now name) s = ?s"
            using False r old Spool_out by (cases ?st) (auto simp: spool_gc_file_def Let_def active_status_def simp del: length_append)
          then show ?thesis using safe by simp
        next
          case True
          then obtain t where t: "?st = Inr t" "\<not> active_status t" by blast
          then have key: "(m', k') \<noteq> (m, k)" using active_not_removed [of "s_store ?s" m k t] safe by (auto simp: gc_safe_def)
          have "exec (spool_gc_file E cfg now name) s =
              exec (on_store (\<lambda>s. store_queue_delete (eng E) s m' k')) (exec (on_world (file_unlink E ?q)) ?s)"
            using False r old Spool_out t by (auto simp: spool_gc_file_def Let_def active_status_def simp del: length_append)
          moreover have "gc_safe m k ?p v (exec (on_world (file_unlink E ?q)) ?s)"
            using gc_unlink [OF safe ne] Spool_out key by auto
          ultimately show ?thesis using delete_keeps_active [OF _ key] by (simp add: gc_safe_def)
        qed
      qed
    qed
  qed
qed

lemma gc_keeps:
  assumes "gc_safe m k (storage_spool (cfg_storage cfg) @ ''/'' @ spool_out_name m k) v s"
  shows "gc_safe m k (storage_spool (cfg_storage cfg) @ ''/'' @ spool_out_name m k) v (exec (spool_gc E cfg) s)"
proof -
  let ?R = "keeps (gc_safe m k (storage_spool (cfg_storage cfg) @ ''/'' @ spool_out_name m k) v)"
  have f: "state_io_rel ?R (spool_gc_file E cfg now name)" for now name
    unfolding state_io_rel_def keeps_def using gc_file_keeps by blast
  have w: "state_io_rel ?R (on_world f)" if "quiet files f" for f :: "'w \<Rightarrow> 'r \<times> 'w"
    unfolding state_io_rel_def keeps_def using gc_quiet [OF _ that] by blast
  have "state_io_rel ?R (spool_gc E cfg)"
    unfolding spool_gc_def by (intro keeping.if_io keeping.return_io keeping.bind_io keeping.option_io keeping.foldM_io w f quiet_time quiet_dir)
  then show ?thesis by (rule keepsD) (rule assms)
qed

end

text \<open>
  The collector never takes the body of a delivery that is still to be made. If one of the (at
  most sixteen) rows of a delivery is queued or being delivered, then a whole sweep of the spool
  directory leaves the file of its body exactly as it was and the delivery active, whatever the
  directory listing contains (names with leading zeros that denote the same delivery included), whatever
  the ages of the files are, and also when queries of the store fail.
\<close>

theorem spool_gc_keeps_active:
  assumes "mail_system E F files" "active_delivery (eng E) F (db (s_store s)) m k"
  shows "files (s_world (exec (spool_gc E cfg) s)) (storage_spool (cfg_storage cfg) @ ''/'' @ spool_out_name m k)
      = files (s_world s) (storage_spool (cfg_storage cfg) @ ''/'' @ spool_out_name m k)
    \<and> active_delivery (eng E) F (db (s_store (exec (spool_gc E cfg) s))) m k"
  using mail_system.gc_keeps [OF assms(1), of m k cfg] assms(2) by (simp add: mail_system.gc_safe_def [OF assms(1)])

theorem spool_gc_keeps_active_witness:
  "ref_files (s_world (exec (spool_gc ref_env ref_cfg) ((ref_sys demo_queue_store SMTP_OK)\<lparr>s_world :=
       \<lparr>w_files = [(''sp/7.0.out.eml'', ''body'')], w_time = 1000000, w_input = [], w_sent = [], w_relay = SMTP_OK\<rparr>\<rparr>)))
     ''sp/7.0.out.eml'' = Some ''body''"
proof -
  let ?s = "(ref_sys demo_queue_store SMTP_OK)\<lparr>s_world :=
       \<lparr>w_files = [(''sp/7.0.out.eml'', ''body'')], w_time = 1000000, w_input = [], w_sent = [], w_relay = SMTP_OK\<rparr>\<rparr>"
  have rows: "ref_facts (db demo_queue_store) REL_QUEUE = {[7, 0, 1, 2, 0, 0, 3]}" by code_simp
  have st: "dl_intern_str_of ref_engine (db demo_queue_store) 3 = Some QUEUED" by code_simp
  have "active_delivery (eng ref_env) ref_facts (db (s_store ?s)) 7 0"
    using st by (simp add: active_delivery_def rows ref_sys_def QUEUE_SET_MAX_ROWS_def active_status_def numeral_2_eq_2 cong: conj_cong)
  from spool_gc_keeps_active [OF refsys.mail_system_axioms this, of ref_cfg]
  have "ref_files (s_world (exec (spool_gc ref_env ref_cfg) ?s)) (storage_spool (cfg_storage ref_cfg) @ ''/'' @ spool_out_name 7 0)
      = ref_files (s_world ?s) (storage_spool (cfg_storage ref_cfg) @ ''/'' @ spool_out_name 7 0)" by blast
  moreover have "storage_spool (cfg_storage ref_cfg) @ ''/'' @ spool_out_name 7 0 = ''sp/7.0.out.eml''" by code_simp
  ultimately show ?thesis by (simp add: ref_files_def)
qed

end
