(* ===== verification/Smtp_Frames.thy ===== *)
theory Smtp_Frames
  imports Smtp_World
begin

text \<open>
  What the parts of the inbound server leave alone. Forwarding and the durable queue work on the store
  and the world only; the command handlers also on the connection being served, but not on its
  unread input; nothing in a session touches the other connections. Each statement is one
  instance of the preorder \<open>same f\<close>, "the projection \<open>f\<close> of the state is as before".
\<close>

section \<open>Projections that stay the same\<close>

definition same :: "('s \<Rightarrow> 'a) \<Rightarrow> 's \<Rightarrow> 's \<Rightarrow> bool" where
  "same f s t \<longleftrightarrow> f t = f s"

interpretation same: state_preorder "same f" for f
  by unfold_locales (simp_all add: same_def)

lemma sameD: "state_io_rel (same f) m \<Longrightarrow> f (exec m s) = f s"
  by (simp add: state_io_rel_def same_def)

lemma sameI: "(\<And>s. f (exec m s) = f s) \<Longrightarrow> state_io_rel (same f) m"
  by (simp add: state_io_rel_def same_def)

lemma same_comp: "state_io_rel (same f) m \<Longrightarrow> state_io_rel (same (\<lambda>s. g (f s))) m"
  by (simp add: state_io_rel_def same_def)

context state_preorder
begin

lemma scan_io:
  "(\<And>e t. r = Scan_found e t \<Longrightarrow> state_io_rel R (f e t)) \<Longrightarrow> state_io_rel R g \<Longrightarrow>
   (\<And>p. r = Scan_more p \<Longrightarrow> state_io_rel R (h p)) \<Longrightarrow>
   state_io_rel R (case r of Scan_found e t \<Rightarrow> f e t | Scan_error \<Rightarrow> g | Scan_more p \<Rightarrow> h p)"
  by (cases r) auto

lemma hs_io:
  "state_io_rel R f \<Longrightarrow> state_io_rel R g \<Longrightarrow> state_io_rel R h \<Longrightarrow>
   state_io_rel R (case r of HS_fatal \<Rightarrow> f | HS_more \<Rightarrow> g | HS_done \<Rightarrow> h)"
  by (cases r) auto

lemma rcpt_io:
  "state_io_rel R f \<Longrightarrow> state_io_rel R g \<Longrightarrow> state_io_rel R h \<Longrightarrow> state_io_rel R i \<Longrightarrow>
   state_io_rel R (case r of RCPT_OK \<Rightarrow> f | RCPT_BAD_DOMAIN \<Rightarrow> g | RCPT_NOROUTE \<Rightarrow> h | RCPT_ERR \<Rightarrow> i)"
  by (cases r) auto

lemma smtp_io:
  "state_io_rel R f \<Longrightarrow> state_io_rel R g \<Longrightarrow> state_io_rel R h \<Longrightarrow> state_io_rel R i \<Longrightarrow>
   state_io_rel R (case r of SMTP_OK \<Rightarrow> f | SMTP_TEMPFAIL \<Rightarrow> g | SMTP_PERMFAIL \<Rightarrow> h | SMTP_ERROR \<Rightarrow> i)"
  by (cases r) auto

lemma shape_io:
  "(\<And>m. state_io_rel R (f m)) \<Longrightarrow> (\<And>m k. state_io_rel R (g m k)) \<Longrightarrow> state_io_rel R h \<Longrightarrow>
   state_io_rel R (case r of Spool_in m \<Rightarrow> f m | Spool_out m k \<Rightarrow> g m k | Spool_foreign \<Rightarrow> h)"
  by (cases r) auto

lemmas control_io = return_io gets_io bind_io whenM_io if_io option_io sum_io prod_io let_io foldM_io scan_io hs_io rcpt_io smtp_io shape_io

end

section \<open>Forwarding and delivery\<close>

text \<open>Everything but the store, the reply marks and the world.\<close>

definition frame :: "('d, 'w) Sys \<Rightarrow> Conn \<times> Conn list \<times> int \<times> int \<times> bool" where
  "frame s = (s_conn s, s_conns s, s_next_revmap_sweep s, s_next_spool_sweep s, s_stalled s)"

abbreviation backend :: "(('d, 'w) Sys, 'r) state \<Rightarrow> bool" where
  "backend \<equiv> state_io_rel (same frame)"

lemma on_store_b: "backend (on_store f)"
  by (rule sameI) (simp add: frame_def)

lemma on_world_b: "backend (on_world f)"
  by (rule sameI) (simp add: frame_def)

lemma conn_b: "backend conn"
  by (rule sameI) simp

lemma mark_b: "backend (reply_mark_push m k)" "backend (reply_mark_remove m k)"
  by (simp_all add: sameI reply_mark_push_def reply_mark_remove_def frame_def)

lemmas backend_rules = same.control_io on_store_b on_world_b conn_b mark_b

lemma time32_b: "backend (time32 E)"
  unfolding time32_def by (intro backend_rules)

lemma log_add_b: "backend (log_add E m ts dr l r st)"
  unfolding log_add_def by (intro backend_rules)

lemma set_status_b: "backend (set_status E m k st a ts)"
  unfolding set_status_def by (intro backend_rules)

lemma route_b: "backend (route_inbound E cfg r)"
  unfolding route_inbound_def by (intro backend_rules time32_b)

lemma rcpt_ok_b: "backend (smtp_in_rcpt_ok E cfg r)"
  unfolding smtp_in_rcpt_ok_def by (intro backend_rules route_b)

lemma deliver_one_b: "backend (queue_deliver_one E cfg m k f t a)"
  unfolding queue_deliver_one_def queue_requeue_def finish_delivery_def
  by (intro backend_rules time32_b set_status_b log_add_b)

lemma redrive_loop_b: "backend (redrive_loop E cfg d i items)"
proof (induction items arbitrary: i)
  case (Cons it items)
  show ?case unfolding redrive_loop.simps by (intro backend_rules deliver_one_b Cons)
qed (simp add: same.return_io)

lemma redrive_b: "backend (queue_redrive E cfg)"
  unfolding queue_redrive_def by (intro backend_rules time32_b redrive_loop_b)

lemma mkdir_b: "backend (mkdir_p E p)"
proof -
  have "backend (mkdir_all E ps)" for ps
  proof (induction ps)
    case (Cons p ps)
    show ?case unfolding mkdir_all.simps by (intro backend_rules Cons)
  qed (simp add: same.return_io)
  then show ?thesis unfolding mkdir_p_def by (intro backend_rules)
qed

lemma enqueue_b: "backend (queue_enqueue E cfg m k f t b r)"
  unfolding queue_enqueue_def spool_body_def by (intro backend_rules time32_b mkdir_b log_add_b deliver_one_b)

lemma sign_b: "backend (forward_sign E cfg a b)"
  unfolding forward_sign_def by (intro backend_rules)

lemma prepare_b: "backend (forward_prepare E cfg msg sender a)"
  unfolding forward_prepare_def forward_rewrite_def by (intro backend_rules time32_b sign_b)

lemma forward_b: "backend (forward_alias E cfg msg sender rcpt m ts k)"
  unfolding forward_alias_def forward_one_def enqueue_dest_def by (intro backend_rules log_add_b prepare_b enqueue_b)

lemma reply_b: "backend (forward_reply E cfg msg a d rv ow m ts k)"
  unfolding forward_reply_def by (intro backend_rules log_add_b sign_b enqueue_b)

lemma deliver_rcpt_b: "backend (deliver_rcpt E cfg msg sender m ts acc rcpt)"
  unfolding deliver_rcpt_def by (intro backend_rules route_b reply_b log_add_b forward_b)

lemma spool_raw_b: "backend (spool_raw E cfg m msg)"
  unfolding spool_raw_def by (intro backend_rules mkdir_b)

lemma spool_gc_b: "backend (spool_gc E cfg)"
  unfolding spool_gc_def spool_gc_file_def by (intro backend_rules)

lemma log_reject_b: "backend (log_rcpt_reject E r st)"
  unfolding log_rcpt_reject_def by (intro backend_rules time32_b log_add_b)

lemma tls_start_b: "backend (smtp_in_tls_start E fd)"
  unfolding smtp_in_tls_start_def by (intro backend_rules)

lemma tls_step_b: "backend (smtp_in_tls_handshake_step E t)"
  unfolding smtp_in_tls_handshake_step_def by (intro backend_rules)

lemma tls_recv_b: "backend (smtp_in_tls_recv E t n)"
  unfolding smtp_in_tls_recv_def by (intro backend_rules)

lemmas backend_parts = on_store_b on_world_b conn_b time32_b log_add_b route_b rcpt_ok_b log_reject_b spool_raw_b deliver_rcpt_b
  tls_start_b tls_step_b tls_recv_b

section \<open>Sessions\<close>

text \<open>The unread input, the flags that steer the session, and all that is not the connection.\<close>

definition calm :: "('d, 'w) Sys \<Rightarrow> (Conn list \<times> int \<times> int) \<times> bool \<times> string \<times> bool" where
  "calm s = ((s_conns s, s_next_revmap_sweep s, s_next_spool_sweep s), s_stalled s, c_in (s_conn s), c_tls_proxy_wait (s_conn s))"

definition others :: "('d, 'w) Sys \<Rightarrow> Conn list \<times> int \<times> int" where
  "others s = (s_conns s, s_next_revmap_sweep s, s_next_spool_sweep s)"

abbreviation calmly :: "(('d, 'w) Sys, 'r) state \<Rightarrow> bool" where
  "calmly \<equiv> state_io_rel (same calm)"

abbreviation aloof :: "(('d, 'w) Sys, 'r) state \<Rightarrow> bool" where
  "aloof \<equiv> state_io_rel (same others)"

lemma backend_calm: "backend m \<Longrightarrow> calmly m"
  by (simp add: state_io_rel_def same_def frame_def calm_def)

lemma calm_local: "calmly m \<Longrightarrow> aloof m"
  by (simp add: state_io_rel_def same_def others_def calm_def)

lemma upd_calm: "(\<And>c. c_in (f c) = c_in c \<and> c_tls_proxy_wait (f c) = c_tls_proxy_wait c) \<Longrightarrow> calmly (upd_conn f)"
  by (rule sameI) (simp add: calm_def)

lemma upd_local: "aloof (upd_conn f)"
  by (rule sameI) (simp add: others_def)

lemma stall_local: "aloof stall"
  by (rule sameI) (simp add: others_def stall_def)

lemmas calm_rules = same.control_io backend_parts [THEN backend_calm]

lemma flush_calm: "calmly (conn_flush E)"
  unfolding conn_flush_def by (intro calm_rules upd_calm) (simp add: after_flush_def split: flush_end.split)

lemma reply_calm: "calmly (conn_reply E text)"
  unfolding conn_reply_def close_conn_def by (intro calm_rules flush_calm upd_calm) simp_all

lemma reset_calm: "calmly (conn_reset st)"
  unfolding conn_reset_def by (rule upd_calm) (simp add: reset_conn_def)

lemma deliver_calm: "calmly (deliver_message E srv now)"
  unfolding deliver_message_def deliver_accepted_def close_conn_def
  by (intro calm_rules reply_calm upd_calm) simp_all

lemma command_calm: "calmly (smtp_command E srv line)"
  unfolding smtp_command_def do_helo_def do_mail_def do_rcpt_def do_data_def do_starttls_def conn_add_rcpt_def close_conn_def
  by (intro calm_rules reply_calm reset_calm upd_calm) simp_all

lemma reply_close_calm: "calmly (reply_close E text)"
  unfolding reply_close_def close_conn_def by (intro calm_rules reply_calm upd_calm) simp

lemma handle_no_wait:
  assumes "\<not> c_tls_proxy_wait (s_conn s)"
  shows "run_state (handle_command E srv adv line) s = run_state (handle_command E srv adv' line) s"
    and "calm (exec (handle_command E srv adv line) s) = calm s"
proof -
  obtain r c' where p: "proxy_parse E (s_cfg srv) (s_conn s) line = (r, c')" by (cases "proxy_parse E (s_cfg srv) (s_conn s) line")
  then have "c_in c' = c_in (s_conn s)" "c_tls_proxy_wait c' = c_tls_proxy_wait (s_conn s)"
    by (auto simp: proxy_parse_def split: if_splits option.splits)
  then have "calm (s\<lparr>s_conn := c'\<lparr>c_proxy_seen := True\<rparr>\<rparr>) = calm s" by (simp add: calm_def)
  then show "calm (exec (handle_command E srv adv line) s) = calm s"
    using assms p sameD [OF command_calm, of E srv line] by (simp add: handle_command_def)
  show "run_state (handle_command E srv adv line) s = run_state (handle_command E srv adv' line) s"
    using assms p by (simp add: handle_command_def)
qed

section \<open>Received bytes are processed in a bounded number of steps\<close>

text \<open>
  Every command consumes at least the line feed that ends it, so fuel beyond the length of the
  unread input is never used up, and more of it makes no difference.
\<close>

lemma process_commands_fuel:
  fixes E :: "('d, 'w) Env" and s :: "('d, 'w) Sys"
  assumes "\<not> c_tls_proxy_wait (s_conn s)" "length (c_in (s_conn s)) < n" "n \<le> m"
  shows "run_state (process_commands E srv m) s = run_state (process_commands E srv n) s
    \<and> s_stalled (exec (process_commands E srv n) s) = s_stalled s"
  using assms
proof (induction n arbitrary: m s)
  case (Suc n)
  let ?c = "s_conn s"
  let ?raw = "takeWhile (\<lambda>ch. ch \<noteq> LF) (c_in ?c)"
  obtain m' where m: "m = Suc m'" "n \<le> m'" using Suc.prems(3) by (cases m) auto
  have sm: "process_commands E srv m = commands_step E srv (tls_advance E srv m') (process_commands E srv m')"
    "process_commands E srv (Suc n) = commands_step E srv (tls_advance E srv n) (process_commands E srv n)"
    by (simp_all add: process_commands.simps m)
  show ?case
  proof (cases "c_closed ?c \<or> length ?raw = length (c_in ?c) \<or> length ?raw > unat (max_line srv)")
    case True
    have "s_stalled (exec (reply_close E t) s) = s_stalled s" for t
      using sameD [OF reply_close_calm, of E t s] by (simp add: calm_def)
    with True show ?thesis unfolding sm by (auto simp: commands_step_def Let_def)
  next
    case False
    let ?s1 = "s\<lparr>s_conn := ?c\<lparr>c_in := drop (length ?raw + 1) (c_in ?c)\<rparr>\<rparr>"
    let ?s2 = "exec (handle_command E srv (tls_advance E srv n) (command_line ?raw)) ?s1"
    have w: "\<not> c_tls_proxy_wait (s_conn ?s1)" using Suc.prems(1) by simp
    note h = handle_no_wait [OF w, where adv = "tls_advance E srv n" and line = "command_line ?raw" and E = E and srv = srv]
    have le: "length ?raw < length (c_in ?c)" using False length_takeWhile_le [of "\<lambda>ch. ch \<noteq> LF" "c_in ?c"] by linarith
    have c2: "\<not> c_tls_proxy_wait (s_conn ?s2)" "length (c_in (s_conn ?s2)) < n" "s_stalled ?s2 = s_stalled s"
      using h(2) Suc.prems le by (simp_all add: calm_def)
    have mv: "s_stalled (exec (move_to_data E srv) ?s2) = s_stalled s"
      using sameD [OF reply_close_calm, of E _ ?s2] c2(3) by (simp add: move_to_data_def calm_def)
    show ?thesis unfolding sm using False Suc.IH [OF c2(1,2) m(2)] h(1) [where adv' = "tls_advance E srv m'"] c2(3) mv
      by (simp add: commands_step_def Let_def)
  qed
qed simp

lemma data_step_fuel:
  assumes "\<not> c_tls_proxy_wait (s_conn s)" "length (c_in (s_conn s)) + length (c_data (s_conn s)) < n" "n \<le> m"
  shows "run_state (data_step E srv now (process_commands E srv m)) s = run_state (data_step E srv now (process_commands E srv n)) s
    \<and> s_stalled (exec (data_step E srv now (process_commands E srv n)) s) = s_stalled s"
proof (cases "data_scan (c_data (s_conn s)) (max_line srv) (raw_cap srv) (c_scan_pos (s_conn s))")
  case (Scan_found e t)
  let ?c = "s_conn s"
  let ?s1 = "s\<lparr>s_conn := ?c\<lparr>c_in := c_in ?c @ drop (e + t) (c_data ?c), c_data := take e (c_data ?c)\<rparr>\<rparr>"
  let ?s2 = "exec (conn_reset ST_HELO) (exec (deliver_message E srv now) ?s1)"
  have "calm ?s2 = calm ?s1" by (simp only: sameD [OF reset_calm] sameD [OF deliver_calm])
  then have "\<not> c_tls_proxy_wait (s_conn ?s2)" "length (c_in (s_conn ?s2)) < n" "s_stalled ?s2 = s_stalled s"
    using assms by (simp_all add: calm_def)
  from this(3) process_commands_fuel [OF this(1,2) assms(3), of E srv] show ?thesis using Scan_found by (simp add: data_step_def)
next
  case Scan_error
  then show ?thesis using sameD [OF reply_close_calm, of E _ s] by (simp add: data_step_def calm_def)
qed (simp add: data_step_def)

lemma take_bytes_fuel:
  assumes "\<not> c_tls_proxy_wait (s_conn s)" "length (c_in (s_conn s)) + length (c_data (s_conn s)) + length tmp + 1 < n" "n \<le> m"
  shows "run_state (conn_take_bytes E srv m now tmp) s = run_state (conn_take_bytes E srv n now tmp) s
    \<and> s_stalled (exec (conn_take_bytes E srv n now tmp) s) = s_stalled s"
proof -
  let ?c = "s_conn s"
  obtain n' m' where nm: "n = Suc n'" "m = Suc m'" "n' \<le> m'" using assms(2,3) by (cases n; cases m) auto
  have un: "conn_take_bytes E srv (Suc i) now tmp =
      take_bytes_step E srv tmp (process_commands E srv i) (data_step E srv now (process_commands E srv i))" for i
    by (simp add: conn_take_bytes.simps)
  have d: "run_state (data_step E srv now (process_commands E srv m')) (s\<lparr>s_conn := ?c\<lparr>c_data := c_data ?c @ tmp\<rparr>\<rparr>)
      = run_state (data_step E srv now (process_commands E srv n')) (s\<lparr>s_conn := ?c\<lparr>c_data := c_data ?c @ tmp\<rparr>\<rparr>)
      \<and> s_stalled (exec (data_step E srv now (process_commands E srv n')) (s\<lparr>s_conn := ?c\<lparr>c_data := c_data ?c @ tmp\<rparr>\<rparr>)) = s_stalled s"
    using data_step_fuel [OF _ _ nm(3), of "s\<lparr>s_conn := ?c\<lparr>c_data := c_data ?c @ tmp\<rparr>\<rparr>" E srv now] assms nm(1) by simp
  have p: "run_state (process_commands E srv m') (s\<lparr>s_conn := ?c\<lparr>c_in := c_in ?c @ tmp\<rparr>\<rparr>)
      = run_state (process_commands E srv n') (s\<lparr>s_conn := ?c\<lparr>c_in := c_in ?c @ tmp\<rparr>\<rparr>)
      \<and> s_stalled (exec (process_commands E srv n') (s\<lparr>s_conn := ?c\<lparr>c_in := c_in ?c @ tmp\<rparr>\<rparr>)) = s_stalled s"
    using process_commands_fuel [OF _ _ nm(3), of "s\<lparr>s_conn := ?c\<lparr>c_in := c_in ?c @ tmp\<rparr>\<rparr>" E srv] assms nm(1) by simp
  have "s_stalled (exec (reply_close E t) s) = s_stalled s" for t
    using sameD [OF reply_close_calm, of E t s] by (simp add: calm_def)
  then show ?thesis using d p unfolding nm(1,2) un by (simp add: take_bytes_step_def)
qed

section \<open>Nothing in a session touches the other connections\<close>

lemmas aloof_rules = same.control_io stall_local upd_local backend_parts [THEN backend_calm, THEN calm_local]
  reply_calm [THEN calm_local] reset_calm [THEN calm_local] flush_calm [THEN calm_local]
  reply_close_calm [THEN calm_local] command_calm [THEN calm_local] deliver_calm [THEN calm_local]

lemma steps_aloof:
  "(\<And>now. aloof (adv now)) \<Longrightarrow> aloof again \<Longrightarrow> aloof (commands_step E srv adv again)"
  "aloof again \<Longrightarrow> aloof (data_step E srv now again)"
  "aloof again \<Longrightarrow> aloof data \<Longrightarrow> aloof (take_bytes_step E srv tmp again data)"
  "(\<And>bytes. aloof (take_bytes bytes)) \<Longrightarrow> aloof again \<Longrightarrow> aloof (drain_step E now take_bytes again)"
  "(\<And>bytes. aloof (take_bytes bytes)) \<Longrightarrow> aloof again \<Longrightarrow> aloof (readable_step E now take_bytes again)"
  "aloof again \<Longrightarrow> aloof (advance_step E srv now again)"
  unfolding commands_step_def handle_command_def start_implicit_tls_def drop_conn_def close_conn_def move_to_data_def
    data_step_def take_bytes_step_def drain_step_def readable_step_def advance_step_def
  by (intro aloof_rules; assumption)+

lemma session_aloof:
  "aloof (process_commands E srv n)" "aloof (conn_take_bytes E srv n now tmp)" "aloof (tls_drain E srv n now)"
  "aloof (conn_readable E srv n now)" "aloof (tls_advance E srv n now)"
proof (induction n arbitrary: now tmp)
  case 0
  { case 1 then show ?case by (simp add: process_commands.simps stall_local)
  next case 2 then show ?case by (simp add: conn_take_bytes.simps stall_local)
  next case 3 then show ?case by (simp add: tls_drain.simps stall_local)
  next case 4 then show ?case by (simp add: conn_readable.simps stall_local)
  next case 5 then show ?case by (simp add: tls_advance.simps stall_local) }
next
  case (Suc n)
  { case 1 then show ?case by (simp add: process_commands.simps [of E srv "Suc n"] steps_aloof Suc)
  next case 2 then show ?case by (simp add: conn_take_bytes.simps [of E srv "Suc n"] steps_aloof Suc)
  next case 3 then show ?case by (simp add: tls_drain.simps [of E srv "Suc n"] steps_aloof Suc)
  next case 4 then show ?case by (simp add: conn_readable.simps [of E srv "Suc n"] steps_aloof Suc)
  next case 5 then show ?case by (simp add: tls_advance.simps [of E srv "Suc n"] steps_aloof Suc) }
qed

end
