(* ===== verification/Smtp_Session_Proofs.thy ===== *)
theory Smtp_Session_Proofs
  imports Smtp_Frames
begin

text \<open>
  The invariant of an SMTP session: what the session state says about the sender and the
  recipients, the bounds of the buffers, the resume position of the DATA scan, and where the peer
  address may come from. It is kept by everything that can happen to a connection. The theory also
  shows that STARTTLS discards what was said in the clear, and that received bytes are processed
  in a bounded number of steps.
\<close>

section \<open>The invariant\<close>

definition reply_max :: "Server \<Rightarrow> nat" where
  "reply_max srv = length (host_name (s_cfg srv)) + 512"

definition session_ok :: "Server \<Rightarrow> Conn \<Rightarrow> bool" where
  "session_ok srv c \<longleftrightarrow>
     (c_state c = ST_HELO \<longrightarrow> c_from c = None \<and> c_rcpts c = []) \<and>
     (c_state c = ST_MAIL \<or> c_state c = ST_DATA \<longrightarrow> c_from c \<noteq> None) \<and>
     (c_state c = ST_DATA \<longrightarrow> c_rcpts c \<noteq> []) \<and>
     (\<forall>f. c_from c = Some f \<longrightarrow> path_clean f) \<and>
     (\<forall>r \<in> set (c_rcpts c). r \<noteq> [] \<and> path_clean r \<and> mail_addr_parse r \<noteq> None) \<and>
     (max_rcpts srv \<noteq> 0 \<longrightarrow> length (c_rcpts c) \<le> unat (max_rcpts srv))"

definition output_ok :: "Server \<Rightarrow> Conn \<Rightarrow> bool" where
  "output_ok srv c \<longleftrightarrow> c_out_off c \<le> length (c_out c) \<and> length (c_out c) \<le> SMTP_IN_MAX_OUT + reply_max srv"

definition peer_ok :: "('d, 'w) Env \<Rightarrow> Server \<Rightarrow> string \<Rightarrow> Conn \<Rightarrow> bool" where
  "peer_ok E srv ip c \<longleftrightarrow> c_real_ip c = ip \<and> (c_peer_ip c = ip \<or> proxy_peer_trusted E (s_cfg srv) c)"

text \<open>The received text is within the limit, and resuming at \<open>c_scan_pos\<close> is as good as rescanning.\<close>

definition data_ok :: "Server \<Rightarrow> Conn \<Rightarrow> bool" where
  "data_ok srv c \<longleftrightarrow>
     length (c_data c) \<le> unat (raw_cap srv) \<and>
     (c_scan_pos c = 0 \<or>
      (\<exists>b1 b2. c_data c = b1 @ b2 \<and> data_scan b1 (max_line srv) (raw_cap srv) 0 = Scan_more (c_scan_pos c)))"

text \<open>While a message is being delivered its text may grow by the header prepended to it; \<open>rest\<close> says whether the text counts.\<close>

definition conn_inv :: "('d, 'w) Env \<Rightarrow> Server \<Rightarrow> string \<Rightarrow> bool \<Rightarrow> Conn \<Rightarrow> bool" where
  "conn_inv E srv ip rest c \<longleftrightarrow> session_ok srv c \<and> output_ok srv c \<and> peer_ok E srv ip c \<and> (rest \<longrightarrow> data_ok srv c)"

section \<open>Steps on the connection\<close>

abbreviation keepc :: "(Conn \<Rightarrow> bool) \<Rightarrow> (('d, 'w) Sys, 'r) state \<Rightarrow> bool" where
  "keepc P \<equiv> state_io_rel (keeps (\<lambda>s. P (s_conn s)))"

lemma keepcD: "keepc P m \<Longrightarrow> P (s_conn s) \<Longrightarrow> P (s_conn (exec m s))"
  by (simp add: state_io_rel_def keeps_def)

lemma keepcI: "(\<And>s. P (s_conn s) \<Longrightarrow> P (s_conn (exec m s))) \<Longrightarrow> keepc P m"
  by (simp add: state_io_rel_def keeps_def)

lemma backend_c: "backend m \<Longrightarrow> keepc P m"
  by (auto simp: state_io_rel_def same_def keeps_def frame_def)

lemma upd_conn_c: "(\<And>c. P c \<Longrightarrow> P (f c)) \<Longrightarrow> keepc P (upd_conn f)"
  by (simp add: keepcI)

lemma stall_c: "keepc P stall"
  by (simp add: stall_def keepcI)

lemmas conn_rules = keeping.control_io stall_c backend_parts [THEN backend_c]

section \<open>Output\<close>

lemma flush_blocked: "flush_loop f out off w = (Flush_blocked i, w') \<Longrightarrow> i < length out"
proof (induction f out off w rule: flush_loop.induct)
  case (1 f out off w)
  obtain r v where r: "f (drop off out) w = (r, v)" by (cases "f (drop off out) w")
  show ?case
  proof (cases "off \<ge> length out")
    case True
    then show ?thesis using 1(2) by (simp add: flush_loop.simps)
  next
    case False
    note IH = 1(1) [OF False r [symmetric]]
    show ?thesis
    proof (cases r)
      case (Sent n)
      then show ?thesis using IH [OF Sent] False r 1(2) by (cases "n = 0") (simp_all add: flush_loop.simps [of f out off w])
    qed (use False r 1(2) in \<open>simp_all add: flush_loop.simps [of f out off w]\<close>)
  qed
qed

lemma peer_trust_conn: "c_real_ip c = c_real_ip c' \<Longrightarrow> proxy_peer_trusted E cfg c = proxy_peer_trusted E cfg c'"
  unfolding proxy_peer_trusted_def by (erule ssubst) (rule refl)

text \<open>The fields the invariant reads.\<close>

lemma conn_inv_cong:
  assumes "c_state c' = c_state c" "c_from c' = c_from c" "c_rcpts c' = c_rcpts c" "c_data c' = c_data c"
    "c_scan_pos c' = c_scan_pos c" "c_real_ip c' = c_real_ip c" "c_peer_ip c' = c_peer_ip c"
    and "conn_inv E srv ip b c" "output_ok srv c'"
  shows "conn_inv E srv ip b c'"
  using assms peer_trust_conn [of c' c E "s_cfg srv"]
  by (simp add: conn_inv_def session_ok_def peer_ok_def data_ok_def)

lemma conn_inv_same_output:
  assumes "c_state c' = c_state c" "c_from c' = c_from c" "c_rcpts c' = c_rcpts c" "c_data c' = c_data c"
    "c_scan_pos c' = c_scan_pos c" "c_real_ip c' = c_real_ip c" "c_peer_ip c' = c_peer_ip c"
    "c_out c' = c_out c" "c_out_off c' = c_out_off c" and "conn_inv E srv ip b c"
  shows "conn_inv E srv ip b c'"
  using assms by (intro conn_inv_cong [of c' c]) (simp_all add: conn_inv_def output_ok_def)

lemma upd_other_c:
  assumes "\<And>c. c_state (f c) = c_state c \<and> c_from (f c) = c_from c \<and> c_rcpts (f c) = c_rcpts c \<and> c_data (f c) = c_data c \<and>
    c_scan_pos (f c) = c_scan_pos c \<and> c_real_ip (f c) = c_real_ip c \<and> c_peer_ip (f c) = c_peer_ip c \<and>
    c_out (f c) = c_out c \<and> c_out_off (f c) = c_out_off c"
  shows "keepc (conn_inv E srv ip b) (upd_conn f)"
  using assms conn_inv_same_output by (intro upd_conn_c) blast

lemma close_c: "keepc (conn_inv E srv ip b) close_conn"
  unfolding close_conn_def by (rule upd_other_c) simp

lemma drop_c: "keepc (conn_inv E srv ip b) drop_conn"
  unfolding drop_conn_def by (rule upd_conn_c, erule conn_inv_cong [rotated 7]) (simp_all add: output_ok_def)

lemma flush_c:
  fixes E :: "('d, 'w) Env"
  shows "keepc (conn_inv E srv ip b) (conn_flush E)"
proof (rule keepcI)
  fix s :: "('d, 'w) Sys"
  assume i: "conn_inv E srv ip b (s_conn s)"
  let ?c = "s_conn s"
  let ?f = "flush_loop (flush_send E ?c) (c_out ?c) (c_out_off ?c) (s_world s)"
  have e: "s_conn (exec (conn_flush E) s) = after_flush (fst ?f) ?c"
    by (simp add: conn_flush_def)
  have "off \<le> length (c_out ?c)" if "fst ?f = Flush_blocked off" for off
    using flush_blocked [of _ "c_out ?c" "c_out_off ?c" "s_world s" off] that by (metis less_imp_le prod.collapse)
  then have "output_ok srv (s_conn (exec (conn_flush E) s))"
    using i unfolding e by (auto simp: output_ok_def conn_inv_def after_flush_def split: flush_end.split)
  then show "conn_inv E srv ip b (s_conn (exec (conn_flush E) s))"
    by (rule conn_inv_cong [OF _ _ _ _ _ _ _ i, rotated 7]) (simp_all add: e after_flush_def split: flush_end.split)
qed

text \<open>A reply of bounded length: appended while the backlog is at most the cap.\<close>

lemma conn_reply_c:
  fixes E :: "('d, 'w) Env"
  assumes "length text \<le> reply_max srv"
  shows "keepc (conn_inv E srv ip b) (conn_reply E text)"
proof (rule keepcI)
  fix s :: "('d, 'w) Sys"
  assume i: "conn_inv E srv ip b (s_conn s)"
  show "conn_inv E srv ip b (s_conn (exec (conn_reply E text) s))"
  proof (cases "length (c_out (s_conn s)) > SMTP_IN_MAX_OUT")
    case True
    then show ?thesis using keepcD [where P = "conn_inv E srv ip b" and s = s, OF close_c i] by (simp add: conn_reply_def)
  next
    case False
    let ?c = "(s_conn s)\<lparr>c_out := c_out (s_conn s) @ text\<rparr>"
    have "output_ok srv ?c" using False i assms by (simp add: output_ok_def conn_inv_def)
    then have "conn_inv E srv ip b ?c" by (rule conn_inv_cong [OF _ _ _ _ _ _ _ i, rotated 7]) simp_all
    then have "conn_inv E srv ip b (s_conn (s\<lparr>s_conn := ?c\<rparr>))" by simp
    from keepcD [where P = "conn_inv E srv ip b", OF flush_c this] show ?thesis using False by (simp add: conn_reply_def)
  qed
qed

lemma reply_close_c: "length text \<le> reply_max srv \<Longrightarrow> keepc (conn_inv E srv ip b) (reply_close E text)"
  unfolding reply_close_def by (intro keeping.bind_io conn_reply_c close_c)

lemma short_text: "length text \<le> 512 \<Longrightarrow> length text \<le> reply_max srv"
  by (simp add: reply_max_def)

lemmas reply_rules = conn_reply_c reply_close_c close_c drop_c flush_c

text \<open>What a reply leaves alone.\<close>

definition same_session :: "Conn \<Rightarrow> Conn \<Rightarrow> bool" where
  "same_session c c' \<longleftrightarrow> c_state c' = c_state c \<and> c_from c' = c_from c \<and> c_rcpts c' = c_rcpts c \<and> c_in c' = c_in c \<and>
     c_data c' = c_data c \<and> c_scan_pos c' = c_scan_pos c \<and> c_tls c' = c_tls c \<and> c_tls_proxy_wait c' = c_tls_proxy_wait c \<and> c_greeted c' = c_greeted c"

lemma reply_same: "same_session (s_conn s) (s_conn (exec (conn_reply E text) s))"
  by (simp add: conn_reply_def conn_flush_def close_conn_def same_session_def after_flush_def split: flush_end.split)


section \<open>Commands keep the invariant\<close>

lemma reset_conn_inv:
  "conn_inv E srv ip b c \<Longrightarrow> st = ST_INIT \<or> st = ST_HELO \<Longrightarrow> conn_inv E srv ip b' (reset_conn st c)"
  using peer_trust_conn [of "reset_conn st c" c E "s_cfg srv"]
  by (auto simp: conn_inv_def session_ok_def output_ok_def peer_ok_def data_ok_def reset_conn_def)

lemma reset_c: "st = ST_INIT \<or> st = ST_HELO \<Longrightarrow> keepc (conn_inv E srv ip b) (conn_reset st)"
  unfolding conn_reset_def by (rule upd_conn_c) (rule reset_conn_inv)

lemma ehlo_length: "length (ehlo_text E srv c) \<le> length (host_name (s_cfg srv)) + 95"
  by (simp only: ehlo_text_def length_take min.cobounded2)

lemma helo_c: "keepc (conn_inv E srv ip b) (do_helo E srv ehlo)"
proof -
  have "length (if ehlo then ehlo_text E srv c else ''250 '' @ host_name (s_cfg srv) @ CRLF) \<le> reply_max srv" for c
    using ehlo_length [of E srv c] by (simp add: reply_max_def)
  then show ?thesis unfolding do_helo_def by (intro conn_rules reset_c conn_reply_c) simp
qed

lemma mail_inv:
  "conn_inv E srv ip b c \<Longrightarrow> path_clean p \<Longrightarrow> conn_inv E srv ip b (c\<lparr>c_from := Some p, c_state := ST_MAIL\<rparr>)"
  using peer_trust_conn [of "c\<lparr>c_from := Some p, c_state := ST_MAIL\<rparr>" c E "s_cfg srv"]
  by (auto simp: conn_inv_def session_ok_def output_ok_def peer_ok_def data_ok_def)

lemma mail_c: "keepc (conn_inv E srv ip b) (do_mail E srv rest)"
proof -
  have p: "keepc (conn_inv E srv ip b) (upd_conn (\<lambda>c. c\<lparr>c_from := Some p, c_state := ST_MAIL\<rparr>))" if "path_clean p" for p
    by (rule upd_conn_c, erule mail_inv, rule that)
  show ?thesis unfolding do_mail_def by (intro conn_rules conn_reply_c p short_text) simp_all
qed

lemma rcpt_inv:
  assumes "conn_inv E srv ip b c" "c_state c = ST_MAIL" "\<not> (max_rcpts srv \<noteq> 0 \<and> length (c_rcpts c) \<ge> unat (max_rcpts srv))"
    and "path_clean p" "p \<noteq> []" "mail_addr_parse p \<noteq> None"
  shows "conn_inv E srv ip b (c\<lparr>c_rcpts := c_rcpts c @ [p]\<rparr>)"
  using assms peer_trust_conn [of "c\<lparr>c_rcpts := c_rcpts c @ [p]\<rparr>" c E "s_cfg srv"]
  by (auto simp: conn_inv_def session_ok_def output_ok_def peer_ok_def data_ok_def)

text \<open>A recipient is added to the very connection the guards were checked on.\<close>

lemma rcpt_ok_conn: "s_conn (exec (smtp_in_rcpt_ok E cfg p) s) = s_conn s"
  using keepcD [where P = "\<lambda>c. c = s_conn s" and s = s, OF backend_c [OF rcpt_ok_b]] by simp

lemma rcpt_c:
  fixes E :: "('d, 'w) Env"
  shows "keepc (conn_inv E srv ip b) (do_rcpt E srv rest)"
proof (rule keepcI)
  fix s :: "('d, 'w) Sys"
  let ?c = "s_conn s"
  assume i: "conn_inv E srv ip b ?c"
  have r: "conn_inv E srv ip b (s_conn (exec (conn_reply E t) u))" if "conn_inv E srv ip b (s_conn u)" "length t \<le> 512" for t and u :: "('d, 'w) Sys"
    using keepcD [OF conn_reply_c [OF short_text]] that by blast
  show "conn_inv E srv ip b (s_conn (exec (do_rcpt E srv rest) s))"
  proof (cases "c_state ?c = ST_MAIL \<and> \<not> (max_rcpts srv \<noteq> 0 \<and> length (c_rcpts ?c) \<ge> unat (max_rcpts srv)) \<and>
      (\<exists>p q. parse_addr_arg rest ''TO'' SMTP_MAX_LINE = Some (p, q) \<and> path_clean p \<and> p \<noteq> [] \<and> mail_addr_parse p \<noteq> None)")
    case False
    then show ?thesis using r [OF i] by (auto simp: do_rcpt_def split: option.split)
  next
    case True
    then obtain p q where t: "c_state ?c = ST_MAIL" "\<not> (max_rcpts srv \<noteq> 0 \<and> length (c_rcpts ?c) \<ge> unat (max_rcpts srv))"
      "parse_addr_arg rest ''TO'' SMTP_MAX_LINE = Some (p, q)" "path_clean p" "p \<noteq> []" "mail_addr_parse p \<noteq> None" by blast
    have g: "(max_rcpts srv \<noteq> 0 \<and> length (c_rcpts ?c) \<ge> unat (max_rcpts srv)) = False" "(mail_addr_parse p = None) = False"
      using t(2,6) by blast+
    let ?s = "exec (smtp_in_rcpt_ok E (s_cfg srv) p) s" and ?d = "eval (smtp_in_rcpt_ok E (s_cfg srv) p) s"
    have e: "exec (do_rcpt E srv rest) s = exec (case ?d of
        RCPT_OK \<Rightarrow> conn_add_rcpt p \<bind> (\<lambda>_. conn_reply E (''250 2.1.5 OK'' @ CRLF))
      | RCPT_ERR \<Rightarrow> log_rcpt_reject E p ''error'' \<bind> (\<lambda>_. conn_reply E (''451 4.3.0 Temporary routing failure'' @ CRLF))
      | _ \<Rightarrow> log_rcpt_reject E p ''rejected'' \<bind> (\<lambda>_. conn_reply E (''550 5.1.1 User unknown'' @ CRLF))) ?s"
      by (simp only: do_rcpt_def run_bind run_conn fst_conv snd_conv t(1,3) g prod.case option.case t(4,5) if_False if_True simp_thms)
    have add: "conn_inv E srv ip b (s_conn (exec (conn_add_rcpt p) ?s))"
      using rcpt_inv [OF i t(1,2,4,5,6)] rcpt_ok_conn [of E "s_cfg srv" p s] by (simp add: conn_add_rcpt_def)
    have lg: "conn_inv E srv ip b (s_conn (exec (log_rcpt_reject E p st) ?s))" for st
      by (rule keepcD [where P = "conn_inv E srv ip b", OF backend_c [OF log_reject_b]]) (simp add: i rcpt_ok_conn)
    show ?thesis unfolding e by (cases ?d) (simp_all add: r add lg)
  qed
qed

lemma data_inv:
  assumes "conn_inv E srv ip b c" "c_state c = ST_MAIL" "c_rcpts c \<noteq> []"
  shows "conn_inv E srv ip b (c\<lparr>c_data := [], c_scan_pos := 0, c_state := ST_DATA\<rparr>)"
  using assms peer_trust_conn [of "c\<lparr>c_data := [], c_scan_pos := 0, c_state := ST_DATA\<rparr>" c E "s_cfg srv"]
  by (auto simp: conn_inv_def session_ok_def output_ok_def peer_ok_def data_ok_def)

lemma data_cmd_c:
  fixes E :: "('d, 'w) Env"
  shows "keepc (conn_inv E srv ip b) (do_data E)"
proof (rule keepcI)
  fix s :: "('d, 'w) Sys"
  assume i: "conn_inv E srv ip b (s_conn s)"
  have r: "conn_inv E srv ip b (s_conn (exec (conn_reply E t) s))" if "length t \<le> 512" for t
    using keepcD [OF conn_reply_c [OF short_text]] that i by blast
  show "conn_inv E srv ip b (s_conn (exec (do_data E) s))"
  proof (cases "c_state (s_conn s) = ST_MAIL \<and> c_rcpts (s_conn s) \<noteq> []")
    case False
    then show ?thesis using r by (auto simp: do_data_def)
  next
    case True
    let ?u = "exec (conn_reply E (''354 End data with <CR><LF>.<CR><LF>'' @ CRLF)) s"
    have "conn_inv E srv ip b (s_conn ?u)" by (rule r) simp
    moreover have "c_state (s_conn ?u) = ST_MAIL" "c_rcpts (s_conn ?u) \<noteq> []"
      using reply_same [of s E "''354 End data with <CR><LF>.<CR><LF>'' @ CRLF"] True by (simp_all add: same_session_def)
    ultimately show ?thesis using data_inv True by (simp add: do_data_def)
  qed
qed

lemma starttls_c: "keepc (conn_inv E srv ip b) (do_starttls E rest)"
  unfolding do_starttls_def by (intro conn_rules conn_reply_c upd_other_c short_text) simp_all

lemma command_c: "keepc (conn_inv E srv ip b) (smtp_command E srv line)"
  unfolding smtp_command_def
  by (intro conn_rules conn_reply_c reset_c close_c helo_c mail_c rcpt_c data_cmd_c starttls_c short_text) simp_all

lemma implicit_tls_c:
  assumes "\<And>now. keepc (conn_inv E srv ip b) (adv now)"
  shows "keepc (conn_inv E srv ip b) (start_implicit_tls E adv)"
  unfolding start_implicit_tls_def by (intro conn_rules drop_c upd_other_c assms) simp_all

lemma proxy_inv:
  assumes "conn_inv E srv ip b c" "proxy_parse E (s_cfg srv) c line = (r, c')"
  shows "conn_inv E srv ip b (c'\<lparr>c_proxy_seen := True\<rparr>)"
proof (cases "c' = c")
  case True
  then show ?thesis using conn_inv_same_output [OF _ _ _ _ _ _ _ _ _ assms(1), of "c\<lparr>c_proxy_seen := True\<rparr>"] by simp
next
  case False
  then obtain a where c': "c' = c\<lparr>c_peer_ip := a\<rparr>" and t: "proxy_peer_trusted E (s_cfg srv) c"
    using assms(2) by (auto simp: proxy_parse_def split: if_splits option.splits)
  then show ?thesis using assms(1) peer_trust_conn [of "c'\<lparr>c_proxy_seen := True\<rparr>" c E "s_cfg srv"]
    by (auto simp: conn_inv_def session_ok_def output_ok_def peer_ok_def data_ok_def)
qed

lemma handle_c:
  fixes E :: "('d, 'w) Env"
  assumes "\<And>now. keepc (conn_inv E srv ip b) (adv now)"
  shows "keepc (conn_inv E srv ip b) (handle_command E srv adv line)"
proof (rule keepcI)
  fix s :: "('d, 'w) Sys"
  assume i: "conn_inv E srv ip b (s_conn s)"
  show "conn_inv E srv ip b (s_conn (exec (handle_command E srv adv line) s))"
  proof (cases "c_proxy_seen (s_conn s)")
    case True
    then show ?thesis using keepcD [where P = "conn_inv E srv ip b", OF command_c i] by (simp add: handle_command_def)
  next
    case False
    obtain r c' where p: "proxy_parse E (s_cfg srv) (s_conn s) line = (r, c')" by (cases "proxy_parse E (s_cfg srv) (s_conn s) line")
    let ?s = "s\<lparr>s_conn := c'\<lparr>c_proxy_seen := True\<rparr>\<rparr>"
    have i': "conn_inv E srv ip b (s_conn ?s)" using proxy_inv [OF i p] by simp
    have t: "conn_inv E srv ip b (s_conn (exec (start_implicit_tls E adv) ?s))"
      using keepcD [where P = "conn_inv E srv ip b", OF implicit_tls_c [OF assms] i'] .
    have "conn_inv E srv ip b (s_conn (exec (smtp_command E srv line) ?s))"
      using keepcD [where P = "conn_inv E srv ip b", OF command_c i'] .
    then show ?thesis using False p t i' by (simp add: handle_command_def)
  qed
qed


section \<open>Received bytes keep the invariant\<close>

lemma move_c:
  fixes E :: "('d, 'w) Env"
  shows "keepc (conn_inv E srv ip b) (move_to_data E srv)"
proof (rule keepcI)
  fix s :: "('d, 'w) Sys"
  let ?c = "s_conn s"
  assume i: "conn_inv E srv ip b ?c"
  show "conn_inv E srv ip b (s_conn (exec (move_to_data E srv) s))"
  proof (cases "c_in ?c = [] \<or> length (c_data ?c) + length (c_in ?c) > unat (raw_cap srv)")
    case True
    have "conn_inv E srv ip b (s_conn (exec (reply_close E (''552 5.3.4 Message exceeds fixed limit'' @ CRLF)) s))"
      by (rule keepcD [where P = "conn_inv E srv ip b", OF reply_close_c [OF short_text] i]) simp
    then show ?thesis using True i by (auto simp: move_to_data_def)
  next
    case False
    have "data_ok srv (?c\<lparr>c_data := c_data ?c @ c_in ?c, c_in := []\<rparr>)" if "data_ok srv ?c"
      using that False by (fastforce simp: data_ok_def)
    then have "conn_inv E srv ip b (?c\<lparr>c_data := c_data ?c @ c_in ?c, c_in := []\<rparr>)"
      using i peer_trust_conn [of "?c\<lparr>c_data := c_data ?c @ c_in ?c, c_in := []\<rparr>" ?c E "s_cfg srv"]
      by (auto simp: conn_inv_def session_ok_def output_ok_def peer_ok_def)
    then show ?thesis using False by (simp add: move_to_data_def)
  qed
qed

lemma commands_c:
  assumes "\<And>now. keepc (conn_inv E srv ip b) (adv now)" "keepc (conn_inv E srv ip b) again"
  shows "keepc (conn_inv E srv ip b) (commands_step E srv adv again)"
  unfolding commands_step_def
  by (intro conn_rules reply_close_c upd_other_c handle_c move_c assms short_text) simp_all

lemma conn_invI:
  assumes "conn_inv E srv ip b c" "c_real_ip c' = c_real_ip c" "c_peer_ip c' = c_peer_ip c"
    and "session_ok srv c \<Longrightarrow> session_ok srv c'" "output_ok srv c \<Longrightarrow> output_ok srv c'" "b' \<Longrightarrow> data_ok srv c'"
  shows "conn_inv E srv ip b' c'"
  using assms peer_trust_conn [OF assms(2), of E "s_cfg srv"] by (simp add: conn_inv_def peer_ok_def)

lemmas conn_fields = session_ok_def output_ok_def

lemma deliver_c: "keepc (conn_inv E srv ip False) (deliver_message E srv now)"
proof -
  have u: "keepc (conn_inv E srv ip False) (upd_conn (\<lambda>c. c\<lparr>c_data := d\<rparr>))" for d
    by (rule upd_conn_c, erule conn_invI) (simp_all add: conn_fields)
  show ?thesis unfolding deliver_message_def deliver_accepted_def
    by (intro conn_rules conn_reply_c close_c u short_text) simp_all
qed

text \<open>The resume position that the invariant allows gives the answer of a full scan.\<close>

lemma data_ok_scan: "data_ok srv c \<Longrightarrow>
  data_scan (c_data c) (max_line srv) (raw_cap srv) (c_scan_pos c) = data_scan (c_data c) (max_line srv) (raw_cap srv) 0"
  using data_scan_resume by (auto simp: data_ok_def)

lemma data_step_c:
  fixes E :: "('d, 'w) Env"
  assumes "keepc (conn_inv E srv ip True) commands"
  shows "keepc (conn_inv E srv ip True) (data_step E srv now commands)"
proof (rule keepcI)
  fix s :: "('d, 'w) Sys"
  let ?c = "s_conn s" and ?I = "conn_inv E srv ip True"
  let ?r = "data_scan (c_data ?c) (max_line srv) (raw_cap srv) (c_scan_pos ?c)"
  assume i: "?I ?c"
  show "?I (s_conn (exec (data_step E srv now commands) s))"
  proof (cases ?r)
    case (Scan_found e t)
    let ?s1 = "s\<lparr>s_conn := ?c\<lparr>c_in := c_in ?c @ drop (e + t) (c_data ?c), c_data := take e (c_data ?c)\<rparr>\<rparr>"
    have "conn_inv E srv ip False (s_conn ?s1)"
      by (rule conn_invI [OF i]) (simp_all add: conn_fields)
    then have "conn_inv E srv ip False (s_conn (exec (deliver_message E srv now) ?s1))"
      by (rule keepcD [where P = "conn_inv E srv ip False", OF deliver_c])
    then have "?I (s_conn (exec (conn_reset ST_HELO) (exec (deliver_message E srv now) ?s1)))"
      using reset_conn_inv [of E srv ip False _ ST_HELO True] by (simp add: conn_reset_def)
    moreover from this have "?I (s_conn (exec commands (exec (conn_reset ST_HELO) (exec (deliver_message E srv now) ?s1))))"
      by (rule keepcD [where P = ?I, OF assms])
    ultimately show ?thesis using Scan_found by (simp add: data_step_def)
  next
    case Scan_error
    have "?I (s_conn (exec (reply_close E (''552 5.3.4 Message exceeds fixed limits'' @ CRLF)) s))"
      by (rule keepcD [where P = ?I, OF reply_close_c [OF short_text] i]) simp
    then show ?thesis using Scan_error by (simp add: data_step_def)
  next
    case (Scan_more p)
    have "data_scan (c_data ?c) (max_line srv) (raw_cap srv) 0 = Scan_more p"
      using data_ok_scan [of srv ?c] i Scan_more by (simp add: conn_inv_def)
    moreover have "c_data ?c = c_data ?c @ []" by simp
    ultimately have "\<exists>b1 b2. c_data ?c = b1 @ b2 \<and> data_scan b1 (max_line srv) (raw_cap srv) 0 = Scan_more p" by blast
    then have "data_ok srv (?c\<lparr>c_scan_pos := p\<rparr>)"
      using i by (simp add: data_ok_def conn_inv_def)
    then have "?I (?c\<lparr>c_scan_pos := p\<rparr>)"
      by (intro conn_invI [OF i]) (simp_all add: conn_fields)
    then show ?thesis using Scan_more by (simp add: data_step_def)
  qed
qed

lemma take_bytes_c:
  fixes E :: "('d, 'w) Env"
  assumes "keepc (conn_inv E srv ip True) commands" "keepc (conn_inv E srv ip True) data"
  shows "keepc (conn_inv E srv ip True) (take_bytes_step E srv tmp commands data)"
proof (rule keepcI)
  fix s :: "('d, 'w) Sys"
  let ?c = "s_conn s" and ?I = "conn_inv E srv ip True"
  assume i: "?I ?c"
  show "?I (s_conn (exec (take_bytes_step E srv tmp commands data) s))"
  proof (cases "c_state ?c = ST_DATA")
    case False
    have "?I (s_conn (s\<lparr>s_conn := ?c\<lparr>c_in := c_in ?c @ tmp\<rparr>\<rparr>))"
      using conn_inv_same_output [OF _ _ _ _ _ _ _ _ _ i, of "?c\<lparr>c_in := c_in ?c @ tmp\<rparr>"] by simp
    from keepcD [where P = ?I, OF assms(1) this] show ?thesis using False by (simp add: take_bytes_step_def)
  next
    case True
    show ?thesis
    proof (cases "length (c_data ?c) + length tmp > unat (raw_cap srv)")
      case big: True
      have "?I (s_conn (exec (reply_close E (''552 5.3.4 Message exceeds fixed limit'' @ CRLF)) s))"
        by (rule keepcD [where P = ?I, OF reply_close_c [OF short_text] i]) simp
      then show ?thesis using True big by (simp add: take_bytes_step_def)
    next
      case fits: False
      have "data_ok srv (?c\<lparr>c_data := c_data ?c @ tmp\<rparr>)"
        using i fits by (fastforce simp: data_ok_def conn_inv_def)
      then have "?I (s_conn (s\<lparr>s_conn := ?c\<lparr>c_data := c_data ?c @ tmp\<rparr>\<rparr>))"
        by (intro conn_invI [OF i]) (simp_all add: conn_fields)
      from keepcD [where P = ?I, OF assms(2) this] show ?thesis using True fits by (simp add: take_bytes_step_def)
    qed
  qed
qed

lemma drain_c:
  assumes "\<And>bytes. keepc (conn_inv E srv ip b) (take_bytes bytes)" "keepc (conn_inv E srv ip b) again"
  shows "keepc (conn_inv E srv ip b) (drain_step E now take_bytes again)"
  unfolding drain_step_def by (intro conn_rules upd_other_c close_c assms) simp_all

lemma readable_c:
  assumes "\<And>bytes. keepc (conn_inv E srv ip b) (take_bytes bytes)" "keepc (conn_inv E srv ip b) drain"
  shows "keepc (conn_inv E srv ip b) (readable_step E now take_bytes drain)"
  unfolding readable_step_def by (intro conn_rules upd_other_c close_c assms) simp_all

lemma greeting_length: "length (greeting cfg) \<le> 512"
  by (simp add: greeting_def Let_def)

lemma advance_c:
  assumes "keepc (conn_inv E srv ip b) readable"
  shows "keepc (conn_inv E srv ip b) (advance_step E srv now readable)"
proof -
  have "conn_inv E srv ip b (c\<lparr>c_greeted := True, c_state := ST_INIT\<rparr>)" if i: "conn_inv E srv ip b c" for c
    using i by (intro conn_invI [OF i]) (simp_all add: conn_fields conn_inv_def data_ok_def)
  then have g: "keepc (conn_inv E srv ip b) (upd_conn (\<lambda>c. c\<lparr>c_greeted := True, c_state := ST_INIT\<rparr>))"
    by (rule upd_conn_c)
  show ?thesis unfolding advance_step_def
    by (intro conn_rules upd_other_c drop_c g reset_c conn_reply_c assms short_text greeting_length) simp_all
qed

theorem session_steps:
  "keepc (conn_inv E srv ip True) (process_commands E srv n)"
  "keepc (conn_inv E srv ip True) (conn_take_bytes E srv n now tmp)"
  "keepc (conn_inv E srv ip True) (tls_drain E srv n now)"
  "keepc (conn_inv E srv ip True) (conn_readable E srv n now)"
  "keepc (conn_inv E srv ip True) (tls_advance E srv n now)"
proof (induction n arbitrary: now tmp)
  case 0
  { case 1 then show ?case by (simp add: process_commands.simps stall_c)
  next case 2 then show ?case by (simp add: conn_take_bytes.simps stall_c)
  next case 3 then show ?case by (simp add: tls_drain.simps stall_c)
  next case 4 then show ?case by (simp add: conn_readable.simps stall_c)
  next case 5 then show ?case by (simp add: tls_advance.simps stall_c) }
next
  case (Suc n)
  { case 1 then show ?case unfolding process_commands.simps [of E srv "Suc n"] by (intro keeping.if_io stall_c commands_c) (simp_all add: Suc)
  next case 2 then show ?case unfolding conn_take_bytes.simps [of E srv "Suc n"] by (intro keeping.if_io stall_c take_bytes_c data_step_c) (simp_all add: Suc)
  next case 3 then show ?case unfolding tls_drain.simps [of E srv "Suc n"] by (intro keeping.if_io stall_c drain_c) (simp_all add: Suc)
  next case 4 then show ?case unfolding conn_readable.simps [of E srv "Suc n"] by (intro keeping.if_io stall_c readable_c) (simp_all add: Suc)
  next case 5 then show ?case unfolding tls_advance.simps [of E srv "Suc n"] by (intro keeping.if_io stall_c advance_c) (simp_all add: Suc) }
qed

end
