(* ===== verification/Admin_Api.thy ===== *)
theory Admin_Api
  imports Smtp_Conn Json_Text Http_Parse Mail_Address
begin

text \<open>
  The admin API (\<open>admin.c\<close>): from a fully buffered HTTP request to the full response, with the
  bearer-token check, the alias, log and status routes, and the replay of finished deliveries.
  The handlers run on the store and the world of the server. The static pages are generated files;
  their bytes are the parameter \<open>AdminUi\<close>. Allocations succeed.
\<close>

section \<open>Response accumulator\<close>

record AdminResp =
  ar_buf :: string
  ar_fail :: bool

definition ar_append :: "AdminResp \<Rightarrow> string \<Rightarrow> AdminResp" where
  "ar_append r s = (if ar_fail r then r else r\<lparr>ar_buf := ar_buf r @ s\<rparr>)"

definition http_head :: "nat \<Rightarrow> string \<Rightarrow> string \<Rightarrow> nat \<Rightarrow> string" where
  "http_head status reason ctype bodylen =
     ''HTTP/1.0 '' @ dec_of_nat status @ [SP] @ reason @ CRLF @ ''Content-Type: '' @ ctype @ CRLF @
     ''Content-Length: '' @ dec_of_nat bodylen @ CRLF @ ''Connection: close'' @ CRLF @ CRLF"

definition ar_respond :: "AdminResp \<Rightarrow> nat \<Rightarrow> string \<Rightarrow> string \<Rightarrow> string \<Rightarrow> AdminResp" where
  "ar_respond r status reason ctype body =
     (if ar_fail r then r
      else
        let head = http_head status reason ctype (length body) in
        if length head \<ge> 256 then r\<lparr>ar_fail := True\<rparr>
        else ar_append (ar_append r head) body)"

abbreviation dq :: "string \<Rightarrow> string" where
  "dq s \<equiv> DQ # s @ [DQ]"

abbreviation JSON_TYPE :: string where
  "JSON_TYPE \<equiv> ''application/json''"

definition err_body :: "string \<Rightarrow> string" where
  "err_body msg = take 1023 (''{'' @ dq ''error'' @ '':'' @ dq msg @ ''}'')"

definition ar_err :: "AdminResp \<Rightarrow> nat \<Rightarrow> string \<Rightarrow> string \<Rightarrow> AdminResp" where
  "ar_err r status reason msg = ar_respond r status reason JSON_TYPE (err_body msg)"

definition ar_finish :: "AdminResp \<Rightarrow> string visage_result" where
  "ar_finish r = (if ar_fail r then Inl VISAGE_ENOMEM else Inr (ar_buf r))"

section \<open>Request line and token\<close>

definition line_stop :: "char \<Rightarrow> bool" where
  "line_stop c \<longleftrightarrow> c = SP \<or> c = CR \<or> c = LF"

text \<open>Method and target are copied into C strings of 16 and 1024 bytes.\<close>

definition parse_request_line :: "string \<Rightarrow> (string \<times> string) option" where
  "parse_request_line req =
     (let m = takeWhile (\<lambda>c. \<not> line_stop c) req in
      if m = [] \<or> length m \<ge> 16 then None
      else
        let t = takeWhile (\<lambda>c. \<not> line_stop c) (dropWhile (\<lambda>c. c = SP) (drop (length m) req)) in
        if t = [] \<or> length t \<ge> 1024 then None
        else Some (cstr m, cstr t))"

unbundle bit_operations_syntax

text \<open>The byte at a position of a C string, 0 past its end.\<close>

definition pad_byte :: "string \<Rightarrow> nat \<Rightarrow> 8 word" where
  "pad_byte s i = (if i < length s then of_nat (byte (s ! i)) else 0)"

definition token_eq_ct :: "string \<Rightarrow> string \<Rightarrow> bool" where
  "token_eq_ct supplied configured =
     (fold (\<lambda>i d. d OR (pad_byte supplied i XOR pad_byte configured i))
        [0..<(if length supplied > length configured then length supplied else length configured)] 0 = 0)"

definition auth_ok :: "string \<Rightarrow> nat \<Rightarrow> string \<Rightarrow> bool" where
  "auth_ok req header_end token =
     (if token = [] then False
      else case http_header_value (take header_end req) ''Authorization'' 512 of
        None \<Rightarrow> False
      | Some auth \<Rightarrow>
          let p = dropWhile is_wsp (cstr auth) in
          if length p < 7 \<or> \<not> http_ci_eq p ''Bearer '' 7 then False
          else token_eq_ct (dropWhile is_wsp (drop 7 p)) token)"

section \<open>Static pages\<close>

record AdminUi =
  ui_index_html :: string
  ui_app_js :: string
  ui_style_css :: string

definition static_asset :: "AdminUi \<Rightarrow> string \<Rightarrow> (string \<times> string) option" where
  "static_asset ui target =
     (if target = ''/'' \<or> target = ''/admin'' \<or> target = ''/admin/'' \<or> target = ''/index.html''
      then Some (''text/html; charset=utf-8'', ui_index_html ui)
      else if target = ''/app.js'' then Some (''text/javascript; charset=utf-8'', ui_app_js ui)
      else if target = ''/style.css'' then Some (''text/css; charset=utf-8'', ui_style_css ui)
      else None)"

definition serve_static :: "AdminUi \<Rightarrow> string \<Rightarrow> string \<Rightarrow> AdminResp \<Rightarrow> AdminResp option" where
  "serve_static ui meth target r =
     (if meth \<noteq> ''GET'' then None
      else case static_asset ui target of
        None \<Rightarrow> None
      | Some (ctype, body) \<Rightarrow> Some (ar_respond r 200 ''OK'' ctype body))"

section \<open>Handlers\<close>

text \<open>A sequence of builder calls whose return codes are ignored, and items separated by commas.\<close>

type_synonym jcall = "JsonBuilder \<Rightarrow> bool \<times> JsonBuilder"

definition jsonb_seq :: "jcall list \<Rightarrow> JsonBuilder \<Rightarrow> JsonBuilder" where
  "jsonb_seq calls b = fold (\<lambda>f b. snd (f b)) calls b"

fun sep_items :: "('a \<Rightarrow> jcall list) \<Rightarrow> 'a list \<Rightarrow> jcall list" where
  "sep_items f [] = []"
| "sep_items f [x] = f x"
| "sep_items f (x # y # ys) = f x @ [jsonb_comma] @ sep_items f (y # ys)"

definition finish_json :: "AdminResp \<Rightarrow> jcall list \<Rightarrow> AdminResp" where
  "finish_json r calls =
     (case fst (jsonb_detach (jsonb_seq calls jsonb_init)) of
        None \<Rightarrow> ar_err r 500 ''Internal Server Error'' ''out of memory''
      | Some body \<Rightarrow> ar_respond r 200 ''OK'' JSON_TYPE body)"

text \<open>The digits loop of the \<open>?n=\<close> parameter.\<close>

fun log_count_digits :: "nat \<Rightarrow> string \<Rightarrow> nat" where
  "log_count_digits v [] = v"
| "log_count_digits v (c # p) =
     (if is_digit c then if v > 1000 * 10 then v else log_count_digits (v * 10 + (byte c - 48)) p
      else v)"

definition log_count :: "string \<Rightarrow> nat" where
  "log_count target =
     (let q = dropWhile (\<lambda>c. c \<noteq> CHR ''?'') target;
          v = (if take 3 q = ''?n='' then log_count_digits 0 (drop 3 q) else 0);
          n = (if v > 0 then v else 100) in
      if n > 1000 then 1000 else n)"

definition log_calls :: "StoreLogEntry \<Rightarrow> jcall list" where
  "log_calls e =
     [jsonb_begin_object,
      jsonb_key ''msgid'', jsonb_u32 (log_msgid e), jsonb_comma,
      jsonb_key ''ts'', jsonb_u32 (log_ts e), jsonb_comma,
      jsonb_key ''dir'', jsonb_u32 (log_dir e), jsonb_comma,
      jsonb_key ''local'', jsonb_str (log_local e), jsonb_comma,
      jsonb_key ''remote'', jsonb_str (log_remote e), jsonb_comma,
      jsonb_key ''status'', jsonb_str (log_status e),
      jsonb_end_object]"

definition handle_log :: "('d, 'w) Env \<Rightarrow> AdminResp \<Rightarrow> string \<Rightarrow> (('d, 'w) Sys, AdminResp) state" where
  "handle_log E r target = do {
     es \<leftarrow> on_store (\<lambda>s. (store_log_recent (eng E) s (log_count target), s));
     return (case es of
         Inl _ \<Rightarrow> ar_err r 500 ''Internal Server Error'' ''store error''
       | Inr entries \<Rightarrow> finish_json r ([jsonb_begin_array] @ sep_items log_calls entries @ [jsonb_end_array]))
   }"

definition config_alias_read_only :: "Config \<Rightarrow> string \<Rightarrow> bool" where
  "config_alias_read_only cfg alias = list_ex (\<lambda>a. name_eq (ca_alias a) alias) (cfg_aliases cfg)"

definition ok_body :: string where
  "ok_body = ''{'' @ dq ''ok'' @ '':true}''"

definition handle_alias :: "('d, 'w) Env \<Rightarrow> Config \<Rightarrow> AdminResp \<Rightarrow> bool \<Rightarrow> string \<Rightarrow> nat \<Rightarrow> (('d, 'w) Sys, AdminResp) state" where
  "handle_alias E cfg r rm req header_end =
     (let body = cstr (drop header_end req) in
      case json_obj_get_str body ''alias'' 512 of
        None \<Rightarrow> return (ar_err r 400 ''Bad Request'' (''expected {'' @ dq ''alias'' @ '','' @ dq ''destination'' @ ''}''))
      | Some al \<Rightarrow>
          (case json_obj_get_str body ''destination'' 512 of
             None \<Rightarrow> return (ar_err r 400 ''Bad Request'' (''expected {'' @ dq ''alias'' @ '','' @ dq ''destination'' @ ''}''))
           | Some dest \<Rightarrow>
               let alias = cstr al; dest = cstr dest in
               if \<not> rm \<and> \<not> (mail_addr_parse alias \<noteq> None \<and> mail_addr_parse dest \<noteq> None)
               then return (ar_err r 400 ''Bad Request'' ''alias and destination must be valid mail addresses'')
               else if config_alias_read_only cfg alias
               then return (ar_err r 403 ''Forbidden'' ''alias is declared in config (read-only)'')
               else do {
                 rc \<leftarrow> on_store (\<lambda>s. if rm then store_alias_rm (eng E) s alias dest else store_alias_add (eng E) s alias dest);
                 return (case rc of
                     Inl _ \<Rightarrow> ar_err r 500 ''Internal Server Error'' ''store error''
                   | Inr _ \<Rightarrow> ar_respond r 200 ''OK'' JSON_TYPE ok_body)
               }))"

definition alias_calls :: "string \<times> string \<Rightarrow> jcall list" where
  "alias_calls p =
     [jsonb_begin_object, jsonb_key ''alias'', jsonb_str (fst p), jsonb_comma,
      jsonb_key ''destination'', jsonb_str (snd p), jsonb_end_object]"

definition handle_aliases :: "('d, 'w) Env \<Rightarrow> AdminResp \<Rightarrow> (('d, 'w) Sys, AdminResp) state" where
  "handle_aliases E r = do {
     ps \<leftarrow> on_store (\<lambda>s. (store_alias_list_all (eng E) s, s));
     return (case ps of
         Inl _ \<Rightarrow> ar_err r 500 ''Internal Server Error'' ''store error''
       | Inr ps \<Rightarrow> finish_json r
           ([jsonb_begin_object, jsonb_key ''aliases'', jsonb_begin_array] @ sep_items alias_calls ps @ [jsonb_end_array, jsonb_end_object]))
   }"

text \<open>The four counts of the status page; a failing count ends the collection.\<close>

fun queue_counts :: "('d, 'w) Env \<Rightarrow> string list \<Rightarrow> (('d, 'w) Sys, (string \<times> int) list option) state" where
  "queue_counts E [] = return (Some [])"
| "queue_counts E (st # sts) = do {
     n \<leftarrow> on_store (\<lambda>s. store_queue_count_by_status (eng E) s st);
     if n < 0 then return None
     else do {
       rest \<leftarrow> queue_counts E sts;
       return (map_option ((#) (st, n)) rest)
     }
   }"

definition count_calls :: "string \<times> int \<Rightarrow> jcall list" where
  "count_calls p = [jsonb_key (fst p), jsonb_u32 (of_int (snd p))]"

definition status_calls :: "Config \<Rightarrow> int \<Rightarrow> (string \<times> int) list \<Rightarrow> jcall list" where
  "status_calls cfg ac q =
     [jsonb_begin_object, jsonb_key ''hostname'', jsonb_str (cfg_hostname cfg), jsonb_comma,
      jsonb_key ''domains'', jsonb_begin_array] @ sep_items (\<lambda>d. [jsonb_str d]) (cfg_domains cfg) @ [jsonb_end_array, jsonb_comma,
      jsonb_key ''listen'', jsonb_begin_object,
      jsonb_key ''address'', jsonb_str (listen_address (cfg_listen cfg)), jsonb_comma,
      jsonb_key ''port'', jsonb_u32 (listen_port (cfg_listen cfg)), jsonb_end_object, jsonb_comma,
      jsonb_key ''http'', jsonb_begin_object,
      jsonb_key ''address'', jsonb_str (http_address (cfg_http cfg)), jsonb_comma,
      jsonb_key ''port'', jsonb_u32 (http_port (cfg_http cfg)), jsonb_end_object, jsonb_comma,
      jsonb_key ''relay'', jsonb_begin_object,
      jsonb_key ''host'', jsonb_str (relay_host (cfg_relay cfg)), jsonb_comma,
      jsonb_key ''port'', jsonb_u32 (relay_port (cfg_relay cfg)), jsonb_comma,
      jsonb_key ''tls'', jsonb_str (relay_tls (cfg_relay cfg)), jsonb_end_object, jsonb_comma,
      jsonb_key ''alias_count'', jsonb_u32 (of_int ac), jsonb_comma,
      jsonb_key ''queue'', jsonb_begin_object] @ sep_items count_calls q @ [jsonb_end_object, jsonb_end_object]"

definition handle_status :: "('d, 'w) Env \<Rightarrow> Config \<Rightarrow> AdminResp \<Rightarrow> (('d, 'w) Sys, AdminResp) state" where
  "handle_status E cfg r = do {
     ac \<leftarrow> on_store (\<lambda>s. (store_alias_count (eng E) s, s));
     if ac < 0 then return (ar_err r 500 ''Internal Server Error'' ''store error'')
     else do {
       q \<leftarrow> queue_counts E [QUEUED, DELIVERING, DELIVERED, PERMFAIL];
       return (case q of
           None \<Rightarrow> ar_err r 500 ''Internal Server Error'' ''store error''
         | Some q \<Rightarrow> finish_json r (status_calls cfg ac q))
     }
   }"

section \<open>Replay\<close>

definition replay_collect_cb :: "u32 list \<Rightarrow> u32 \<Rightarrow> string \<Rightarrow> string \<Rightarrow> string \<Rightarrow> u32 list \<times> bool" where
  "replay_collect_cb items k from to status =
     (if status \<noteq> DELIVERED \<and> status \<noteq> PERMFAIL then (items, False) else (items @ [k], False))"

text \<open>One collected delivery: its body must still be in the spool.\<close>

definition replay_one :: "('d, 'w) Env \<Rightarrow> Config \<Rightarrow> u32 \<Rightarrow> nat \<Rightarrow> u32 \<Rightarrow> (('d, 'w) Sys, nat) state" where
  "replay_one E cfg msgid replayed k =
     (let path = storage_spool (cfg_storage cfg) @ ''/'' @ spool_out_name msgid k in
      if length path \<ge> 4096 then return replayed
      else do {
        st \<leftarrow> on_world (file_stat E path);
        case st of
          None \<Rightarrow> return replayed
        | Some _ \<Rightarrow> do {
            rc \<leftarrow> on_store (\<lambda>s. store_queue_set_status (eng E) s msgid k QUEUED 0 0);
            return (case rc of Inl _ \<Rightarrow> replayed | Inr _ \<Rightarrow> replayed + 1)
          }
      })"

definition handle_replay :: "('d, 'w) Env \<Rightarrow> Config \<Rightarrow> AdminResp \<Rightarrow> string \<Rightarrow> nat \<Rightarrow> (('d, 'w) Sys, AdminResp) state" where
  "handle_replay E cfg r req header_end =
     (case json_obj_get_u32 (cstr (drop header_end req)) ''msgid'' of
        None \<Rightarrow> return (ar_err r 400 ''Bad Request'' (''expected {'' @ dq ''msgid'' @ '':N}''))
      | Some msgid \<Rightarrow> do {
          w \<leftarrow> on_store (\<lambda>s. (store_queue_walk_msgid (eng E) s msgid replay_collect_cb [], s));
          case w of
            (Inl _, items) \<Rightarrow> return (ar_err r 500 ''Internal Server Error'' ''store error'')
          | (Inr _, items) \<Rightarrow> do {
              replayed \<leftarrow> foldM (replay_one E cfg msgid) 0 items;
              return (ar_respond r 200 ''OK'' JSON_TYPE (''{'' @ dq ''ok'' @ '':true,'' @ dq ''replayed'' @ '':'' @ dec_of_nat replayed @ ''}''))
            }
        })"

section \<open>Entry point\<close>

definition log_target :: "string \<Rightarrow> bool" where
  "log_target target \<longleftrightarrow> target = ''/log'' \<or> take 5 target = ''/log?''"

definition known_path :: "string \<Rightarrow> bool" where
  "known_path target \<longleftrightarrow>
     target \<in> {''/alias'', ''/replay'', ''/aliases'', ''/status'', ''/health'', ''/'', ''/admin'', ''/admin/'',
       ''/index.html'', ''/app.js'', ''/style.css''} \<or> log_target target"

definition admin_dispatch :: "('d, 'w) Env \<Rightarrow> Config \<Rightarrow> AdminResp \<Rightarrow> string \<Rightarrow> string \<Rightarrow> string \<Rightarrow> nat \<Rightarrow> (('d, 'w) Sys, AdminResp) state" where
  "admin_dispatch E cfg r meth target req header_end =
     (if meth = ''GET'' \<and> target = ''/aliases'' then handle_aliases E r
      else if meth = ''GET'' \<and> target = ''/status'' then handle_status E cfg r
      else if meth = ''GET'' \<and> log_target target then handle_log E r target
      else if meth = ''POST'' \<and> target = ''/alias'' then handle_alias E cfg r False req header_end
      else if meth = ''DELETE'' \<and> target = ''/alias'' then handle_alias E cfg r True req header_end
      else if meth = ''POST'' \<and> target = ''/replay'' then handle_replay E cfg r req header_end
      else return
        (if meth \<in> {''GET'', ''POST'', ''DELETE''} \<and> known_path target
         then ar_err r 405 ''Method Not Allowed'' ''method not allowed''
         else ar_err r 404 ''Not Found'' ''unknown path''))"

definition admin_build_response :: "('d, 'w) Env \<Rightarrow> AdminUi \<Rightarrow> Config \<Rightarrow> string \<Rightarrow> nat \<Rightarrow> (('d, 'w) Sys, string visage_result) state" where
  "admin_build_response E ui cfg req header_end =
     (let r = \<lparr>ar_buf = [], ar_fail = False\<rparr> in
      case parse_request_line req of
        None \<Rightarrow> return (ar_finish (ar_err r 400 ''Bad Request'' ''malformed request''))
      | Some (meth, target) \<Rightarrow>
          if int header_end = SIZE_MAX \<or> header_end > length req
          then return (ar_finish (ar_err r 400 ''Bad Request'' ''malformed headers''))
          else if meth = ''GET'' \<and> target = ''/health''
          then return (ar_finish (ar_respond r 200 ''OK'' JSON_TYPE ok_body))
          else case serve_static ui meth target r of
            Some r' \<Rightarrow> return (ar_finish r')
          | None \<Rightarrow>
              if \<not> auth_ok req header_end (cfg_admin_token cfg)
              then return (ar_finish (ar_err r 401 ''Unauthorized'' ''missing or invalid token''))
              else do {
                r' \<leftarrow> admin_dispatch E cfg r meth target req header_end;
                return (ar_finish r')
              })"

end
