(* ===== verification/Admin_Proofs.thy ===== *)
theory Admin_Proofs
  imports Admin_Api Smtp_Frames Json_Proofs
begin

text \<open>
  The admin API: the token comparison decides equality, no request without the token reads or
  changes anything, what the alias routes do to the store, and that a replay only ever
  re-queues finished deliveries whose body is still there.
\<close>

section \<open>The token comparison\<close>

lemma fold_or_zero: "fold (\<lambda>i d. d OR f i) xs (a :: 8 word) = 0 \<longleftrightarrow> a = 0 \<and> (\<forall>i \<in> set xs. f i = 0)"
  by (induction xs arbitrary: a) (auto simp: or_eq_0_iff)

lemma xor_zero: "(a :: 8 word) XOR b = 0 \<longleftrightarrow> a = b"
proof
  assume "a XOR b = 0"
  then have "(a XOR b) XOR b = b" by simp
  then show "a = b" by (simp add: xor.assoc)
qed simp

lemma pad_byte_inject:
  assumes "nul_free s" "nul_free t" "pad_byte s i = pad_byte t i" "i < length s"
  shows "i < length t \<and> s ! i = t ! i"
proof -
  have w: "unat (of_nat (byte c) :: 8 word) = byte c" for c :: char
    using byte_less [of c] by (simp add: unat_of_nat)
  have "byte (s ! i) \<noteq> 0" using assms(1,4) by (auto simp: nul_free_def byte_inject [symmetric] in_set_conv_nth)
  moreover have "unat (pad_byte s i) = byte (s ! i)" using assms(4) w by (simp add: pad_byte_def)
  moreover have "unat (pad_byte t i) = (if i < length t then byte (t ! i) else 0)" using w by (simp add: pad_byte_def)
  ultimately show ?thesis using assms(3) byte_inject by (auto split: if_splits)
qed

lemma token_eq_iff:
  assumes "nul_free a" "nul_free b"
  shows "token_eq_ct a b \<longleftrightarrow> a = b"
proof
  assume "token_eq_ct a b"
  then have p: "pad_byte a i = pad_byte b i" if "i < length a \<or> i < length b" for i
    using that unfolding token_eq_ct_def fold_or_zero xor_zero by (auto split: if_splits)
  show "a = b"
  proof (rule nth_equalityI)
    have "i < length b" if "i < length a" for i using pad_byte_inject [OF assms p] that by blast
    moreover have "i < length a" if "i < length b" for i using pad_byte_inject [OF assms(2,1)] p that by metis
    ultimately show "length a = length b" by (metis linorder_neqE_nat less_irrefl)
    show "a ! i = b ! i" if "i < length a" for i using pad_byte_inject [OF assms p] that by blast
  qed
next
  assume "a = b"
  then show "token_eq_ct a b" unfolding token_eq_ct_def fold_or_zero xor_zero by simp
qed

text \<open>
  The constant-time comparison decides equality: for two C strings the accumulated difference is
  zero exactly when they are the same string, so neither a prefix of the token, nor the token with
  anything appended, nor a permutation of it is accepted.
\<close>

theorem token_eq_exact: "token_eq_ct (cstr a) (cstr b) \<longleftrightarrow> cstr a = cstr b"
  by (rule token_eq_iff) simp_all

section \<open>The bearer token\<close>

text \<open>What a request presents as its bearer token.\<close>

definition bearer_token :: "string \<Rightarrow> nat \<Rightarrow> string option" where
  "bearer_token req he =
     (case http_header_value (take he req) ''Authorization'' 512 of
        None \<Rightarrow> None
      | Some auth \<Rightarrow>
          let p = dropWhile is_wsp (cstr auth) in
          if 7 \<le> length p \<and> name_eq (take 7 p) ''Bearer '' then Some (dropWhile is_wsp (drop 7 p)) else None)"

lemma nul_free_sub: "nul_free s \<Longrightarrow> set t \<subseteq> set s \<Longrightarrow> nul_free t"
  by (auto simp: nul_free_def)

lemma auth_ok_iff:
  assumes "nul_free token"
  shows "auth_ok req he token \<longleftrightarrow> token \<noteq> [] \<and> bearer_token req he = Some token"
proof (cases "http_header_value (take he req) ''Authorization'' 512")
  case (Some auth)
  let ?p = "dropWhile is_wsp (cstr auth)"
  have "nul_free (dropWhile is_wsp (drop 7 ?p))"
    by (rule nul_free_sub [OF nul_free_cstr [of auth]]) (meson set_dropWhileD in_set_dropD subsetI)
  then have "token_eq_ct (dropWhile is_wsp (drop 7 ?p)) token \<longleftrightarrow> dropWhile is_wsp (drop 7 ?p) = token"
    using token_eq_iff assms by blast
  moreover have "http_ci_eq ?p ''Bearer '' 7 \<longleftrightarrow> name_eq (take 7 ?p) ''Bearer ''" if "7 \<le> length ?p"
    using ascii_ieq_iff [of "take 7 ?p" 7 "''Bearer ''"] ascii_ieq_take [of 7 ?p "''Bearer ''"] that by (simp add: http_ci_eq_ascii name_eq_iff)
  ultimately show ?thesis using Some by (auto simp: auth_ok_def bearer_token_def Let_def)
qed (simp add: auth_ok_def bearer_token_def)

text \<open>
  C6. Nothing behind the token gate is reachable without the token. If the request does not present
  exactly the configured token (or no token is configured), the whole request changes neither the
  store nor anything else, and the response is the same bytes that any other installation, with
  another configuration, another store and another world, gives to a request that fails its gate:
  the answer carries no information about aliases, log, queue or token.
\<close>

theorem admin_auth_gate:
  assumes "nul_free (cfg_admin_token cfg)" "cfg_admin_token cfg = [] \<or> bearer_token req he \<noteq> Some (cfg_admin_token cfg)"
    and "nul_free (cfg_admin_token cfg')" "cfg_admin_token cfg' = [] \<or> bearer_token req he \<noteq> Some (cfg_admin_token cfg')"
  shows "exec (admin_build_response E ui cfg req he) s = s
    \<and> eval (admin_build_response E ui cfg req he) s = eval (admin_build_response E' ui cfg' req he) s'"
  using assms(2,4) auth_ok_iff [OF assms(1), of req he] auth_ok_iff [OF assms(3), of req he]
  by (auto simp: admin_build_response_def Let_def split: option.split)

theorem admin_auth_gate_witness:
  "let req = ''GET /aliases HTTP/1.0'' @ CRLF @ ''Authorization: Bearer t0k'' @ CRLF @ CRLF;
       ui = \<lparr>ui_index_html = [], ui_app_js = [], ui_style_css = []\<rparr> in
   exec (admin_build_response ref_env ui ref_cfg req (length req)) (ref_sys demo_alias_store SMTP_OK) = ref_sys demo_alias_store SMTP_OK
   \<and> eval (admin_build_response ref_env ui ref_cfg req (length req)) (ref_sys demo_alias_store SMTP_OK)
     = eval (admin_build_response ref_env ui ref_cfg req (length req)) (ref_sys ref_store SMTP_OK)"
proof -
  let ?req = "''GET /aliases HTTP/1.0'' @ CRLF @ ''Authorization: Bearer t0k'' @ CRLF @ CRLF"
  have b: "bearer_token ?req (length ?req) \<noteq> Some (cfg_admin_token ref_cfg)" by code_simp
  have n: "nul_free (cfg_admin_token ref_cfg)" by code_simp
  show ?thesis unfolding Let_def using admin_auth_gate [OF n disjI2 [OF b] n disjI2 [OF b]] by blast
qed

section \<open>What the builder writes\<close>

definition writes :: "jcall \<Rightarrow> string \<Rightarrow> bool" where
  "writes f t \<longleftrightarrow> (\<forall>b. \<not> jerr b \<and> jsonb_inv b \<and> int (length (jbuf b) + length t + 1) \<le> 2 ^ 63 \<longrightarrow>
     \<not> jerr (snd (f b)) \<and> jsonb_inv (snd (f b)) \<and> jbuf (snd (f b)) = jbuf b @ t)"

lemma raw_writes: "writes (jsonb_raw t) t"
  unfolding writes_def using jsonb_raw_ok by (metis snd_conv)

definition json_text :: "string \<Rightarrow> string" where
  "json_text s = (case json_escape s (length s * 6 + 3) of None \<Rightarrow> [] | Some (out, _) \<Rightarrow> out)"

lemma quoted_writes: "writes (jsonb_quoted s close) (DQ # json_text s @ close)"
  unfolding writes_def
proof (intro allI impI)
  fix b
  assume a: "\<not> jerr b \<and> jsonb_inv b \<and> int (length (jbuf b) + length (DQ # json_text s @ close) + 1) \<le> 2 ^ 63"
  obtain out n where e: "json_escape s (length s * 6 + 3) = Some (out, n)" "NUL \<notin> set out" using escape_sized [of s] by blast
  then have out: "json_text s = out" "cstr out = out" by (simp_all add: json_text_def cstr_id nul_free_def)
  obtain b1 where b1: "jsonb_raw [DQ] b = (True, b1)" "jbuf b1 = jbuf b @ [DQ]" "\<not> jerr b1" "jsonb_inv b1"
    using jsonb_raw_ok [of b "[DQ]"] a by auto
  obtain b2 where b2: "jsonb_raw out b1 = (True, b2)" "jbuf b2 = jbuf b @ DQ # out" "\<not> jerr b2" "jsonb_inv b2"
    using jsonb_raw_ok [OF b1(3,4), of out] a out b1(2) by auto
  obtain b3 where "jsonb_raw close b2 = (True, b3)" "jbuf b3 = jbuf b @ DQ # out @ close" "\<not> jerr b3" "jsonb_inv b3"
    using jsonb_raw_ok [OF b2(3,4), of close] a out b2(2) by auto
  then show "\<not> jerr (snd (jsonb_quoted s close b)) \<and> jsonb_inv (snd (jsonb_quoted s close b)) \<and>
      jbuf (snd (jsonb_quoted s close b)) = jbuf b @ DQ # json_text s @ close"
    using b1 b2 e out by (simp add: jsonb_quoted_def)
qed

lemma call_writes:
  "writes jsonb_begin_object ''{''" "writes jsonb_end_object ''}''" "writes jsonb_begin_array ''[''" "writes jsonb_end_array '']''"
  "writes jsonb_comma '',''" "writes (jsonb_u32 v) (dec_of_nat (unat v))"
  "writes (jsonb_key k) (DQ # json_text k @ [DQ, CHR '':''])" "writes (jsonb_str s) (DQ # json_text s @ [DQ])"
  using raw_writes quoted_writes
  by (simp_all add: writes_def jsonb_begin_object_def jsonb_end_object_def jsonb_begin_array_def jsonb_end_array_def
      jsonb_comma_def jsonb_u32_def jsonb_key_def jsonb_str_def)

lemma seq_writes:
  "list_all2 writes calls ts \<Longrightarrow> \<not> jerr b \<Longrightarrow> jsonb_inv b \<Longrightarrow> int (length (jbuf b) + length (concat ts) + 1) \<le> 2 ^ 63 \<Longrightarrow>
   \<not> jerr (jsonb_seq calls b) \<and> jbuf (jsonb_seq calls b) = jbuf b @ concat ts"
proof (induction calls ts arbitrary: b rule: list_all2_induct)
  case (Cons f fs t ts)
  have "\<not> jerr (snd (f b)) \<and> jsonb_inv (snd (f b)) \<and> jbuf (snd (f b)) = jbuf b @ t"
    using Cons.hyps(1) Cons.prems unfolding writes_def by simp
  then show ?case using Cons.IH [of "snd (f b)"] Cons.prems by (simp add: jsonb_seq_def)
qed (simp add: jsonb_seq_def)

lemma detach_writes:
  assumes "list_all2 writes calls ts" "int (length (concat ts) + 1) \<le> 2 ^ 63"
  shows "fst (jsonb_detach (jsonb_seq calls jsonb_init)) = Some (concat ts)"
  using seq_writes [OF assms(1) jsonb_init_ok(1,2)] assms(2) jsonb_init_ok(3) by (simp add: jsonb_detach_def)

lemma json_text_plain: "key_plain k \<Longrightarrow> json_text k = k"
  using json_escape_plain [of k 0 "length k * 6 + 3"] by (simp add: json_text_def json_escape_def)

section \<open>Aliases\<close>

definition alias_object :: "string \<Rightarrow> string \<Rightarrow> string" where
  "alias_object a d = ''{'' @ dq ''alias'' @ '':'' @ dq (json_text a) @ '','' @ dq ''destination'' @ '':'' @ dq (json_text d) @ ''}''"

lemma json_text_keys: "json_text ''alias'' = ''alias''" "json_text ''destination'' = ''destination''" "json_text ''aliases'' = ''aliases''"
  by (rule json_text_plain, simp add: key_plain_def)+

lemma alias_writes:
  "list_all2 writes (alias_calls (a, d)) [''{'', DQ # json_text ''alias'' @ [DQ, CHR '':''], DQ # json_text a @ [DQ], '','',
     DQ # json_text ''destination'' @ [DQ, CHR '':''], DQ # json_text d @ [DQ], ''}'']"
  unfolding alias_calls_def fst_conv snd_conv by (intro list_all2_Cons [THEN iffD2] conjI call_writes) simp

lemma json_find_key_skip:
  assumes "key_plain a" "k \<noteq> j" "key_plain j" "k \<noteq> a" and that: "x \<noteq> DQ"
  shows "json_find_key (x # DQ # j @ DQ # CHR '':'' # DQ # a @ DQ # r) k = json_find_key r k"
proof -
  have "to_quote (x # DQ # j @ DQ # CHR '':'' # DQ # a @ DQ # r) = Some ([x], j @ DQ # CHR '':'' # DQ # a @ DQ # r)"
    using that by (simp add: to_quote_def)
  moreover have "to_quote (j @ DQ # CHR '':'' # DQ # a @ DQ # r) = Some (j, CHR '':'' # DQ # a @ DQ # r)"
    using assms(3) by (intro to_quote_plain) (auto simp: key_plain_def)
  moreover have "to_quote (CHR '':'' # DQ # a @ DQ # r) = Some ('':'', a @ DQ # r)" by (simp add: to_quote_def)
  moreover have "to_quote (a @ DQ # r) = Some (a, r)" using assms(1) by (intro to_quote_plain) (auto simp: key_plain_def)
  ultimately show ?thesis using assms(2,4)
    by (simp add: json_find_key.simps [of "x # _"] json_find_key.simps [of "CHR '':'' # _"])
qed

lemma plain_unescape:
  "key_plain v \<Longrightarrow> w + length v < outsz \<Longrightarrow> json_unescape outsz w (v @ DQ # r) = Some v"
  by (induction v arbitrary: w) (auto simp: key_plain_def)

lemma plain_nul_free: "key_plain s \<Longrightarrow> nul_free s"
proof -
  assume "key_plain s"
  then have "NUL \<in> set s \<Longrightarrow> (0x20 :: nat) \<le> byte NUL" unfolding key_plain_def by blast
  then show ?thesis by (auto simp: nul_free_def)
qed

lemma alias_object_read:
  assumes "key_plain a" "key_plain d" "a \<noteq> ''destination''" "length a < 512" "length d < 512"
  shows "json_obj_get_str (alias_object a d) ''alias'' 512 = Some a" "json_obj_get_str (alias_object a d) ''destination'' 512 = Some d"
proof -
  have k: "key_plain ''alias''" "key_plain ''destination''" by (simp_all add: key_plain_def)
  have t: "alias_object a d = CHR ''{'' # DQ # ''alias'' @ DQ # CHR '':'' # DQ # a @ DQ # CHR '','' # DQ # ''destination'' @ DQ # CHR '':'' # DQ # d @ DQ # ''}''"
    using assms(1,2) by (simp add: alias_object_def json_text_plain)
  have f1: "json_find_key (alias_object a d) ''alias'' = Some (CHR '':'' # DQ # a @ DQ # CHR '','' # DQ # ''destination'' @ DQ # CHR '':'' # DQ # d @ DQ # ''}'')"
    unfolding t by (rule json_find_key_first [OF k(1)])
  show "json_obj_get_str (alias_object a d) ''alias'' 512 = Some a"
    using plain_unescape [OF assms(1), of 0 512] assms(4) f1 by (simp add: json_obj_get_str_def json_ws_def)
  have "json_find_key (alias_object a d) ''destination'' = json_find_key (CHR '','' # DQ # ''destination'' @ DQ # CHR '':'' # DQ # d @ DQ # ''}'') ''destination''"
    unfolding t using json_find_key_skip [OF assms(1) _ k(1), of "''destination''" "CHR ''{''"] assms(3) by simp
  also have "\<dots> = Some (CHR '':'' # DQ # d @ DQ # ''}'')"
    using to_quote_plain [of "''destination''" "CHR '':'' # DQ # d @ DQ # ''}''"] by (simp add: json_find_key.simps to_quote_def)
  finally show "json_obj_get_str (alias_object a d) ''destination'' 512 = Some d"
    using plain_unescape [OF assms(2), of 0 512] assms(5) by (simp add: json_obj_get_str_def json_ws_def)
qed

text \<open>
  What the API shows is what it takes. The text the builder writes for an entry of the alias
  list is read back by the alias routes as the same alias and destination, for every pair of valid
  addresses without quoted parts that fits the buffers; posting it adds exactly that alias to the
  store and deleting it removes exactly that one, unless the alias is declared in the configuration:
  then the store is left alone and the answer is 403.
\<close>

theorem admin_alias_roundtrip:
  assumes "key_plain a" "key_plain d" "length a < 512" "length d < 512" "mail_addr_parse a \<noteq> None" "mail_addr_parse d \<noteq> None"
  shows "fst (jsonb_detach (jsonb_seq (alias_calls (a, d)) jsonb_init)) = Some (alias_object a d)
    \<and> run_state (handle_alias E cfg r rm (hdr @ alias_object a d) (length hdr)) s =
        (if config_alias_read_only cfg a then (ar_err r 403 ''Forbidden'' ''alias is declared in config (read-only)'', s)
         else case (if rm then store_alias_rm (eng E) (s_store s) a d else store_alias_add (eng E) (s_store s) a d) of (rc, st) \<Rightarrow>
           (case rc of Inl _ \<Rightarrow> ar_err r 500 ''Internal Server Error'' ''store error'' | Inr _ \<Rightarrow> ar_respond r 200 ''OK'' JSON_TYPE ok_body,
            s\<lparr>s_store := st\<rparr>))"
proof -
  obtain la da ld dd where pa: "mail_addr_parse a = Some (la, da)" "mail_addr_parse d = Some (ld, dd)" using assms(5,6) by auto
  have ne: "a \<noteq> ''destination''" using assms(5) by (auto, code_simp)
  have pl: "cstr a = a" "cstr d = d" using plain_nul_free assms(1,2) by (simp_all add: cstr_id)
  have "nul_free (alias_object a d)"
    using plain_nul_free [OF assms(1)] plain_nul_free [OF assms(2)] assms(1,2) by (simp add: alias_object_def json_text_plain nul_free_def)
  then have "cstr (alias_object a d) = alias_object a d" by (rule cstr_id)
  then have run: "run_state (handle_alias E cfg r rm (hdr @ alias_object a d) (length hdr)) s =
        (if config_alias_read_only cfg a then (ar_err r 403 ''Forbidden'' ''alias is declared in config (read-only)'', s)
         else case (if rm then store_alias_rm (eng E) (s_store s) a d else store_alias_add (eng E) (s_store s) a d) of (rc, st) \<Rightarrow>
           (case rc of Inl _ \<Rightarrow> ar_err r 500 ''Internal Server Error'' ''store error'' | Inr _ \<Rightarrow> ar_respond r 200 ''OK'' JSON_TYPE ok_body,
            s\<lparr>s_store := st\<rparr>))"
    using alias_object_read [OF assms(1,2) ne assms(3,4)] pa pl
    by (simp add: handle_alias_def Let_def split_beta)
  have c: "concat [''{'', DQ # json_text ''alias'' @ [DQ, CHR '':''], DQ # json_text a @ [DQ], '','',
     DQ # json_text ''destination'' @ [DQ, CHR '':''], DQ # json_text d @ [DQ], ''}''] = alias_object a d"
    by (simp add: alias_object_def json_text_keys)
  have l: "int (length (alias_object a d) + 1) \<le> 2 ^ 63"
    using assms(1-4) by (simp add: alias_object_def json_text_plain)
  show ?thesis using detach_writes [OF alias_writes [of a d], unfolded c, OF l] run by (rule conjI)
qed

theorem admin_alias_roundtrip_witness:
  "fst (jsonb_detach (jsonb_seq (alias_calls (''info@ex.org'', ''me@home.net'')) jsonb_init)) = Some (alias_object ''info@ex.org'' ''me@home.net'')"
proof -
  have "key_plain ''info@ex.org''" "key_plain ''me@home.net''" "mail_addr_parse ''info@ex.org'' \<noteq> None" "mail_addr_parse ''me@home.net'' \<noteq> None"
    by code_simp+
  from admin_alias_roundtrip [OF this(1,2) _ _ this(3,4), of ref_env ref_cfg "\<lparr>ar_buf = [], ar_fail = False\<rparr>" False "[]" "ref_sys ref_store SMTP_OK"]
  show ?thesis by simp
qed

section \<open>Replay\<close>

definition finished_row :: "'d dl_engine \<Rightarrow> 'd \<Rightarrow> row \<Rightarrow> bool" where
  "finished_row E d x \<longleftrightarrow> dl_intern_str_of E d (x ! 6) = Some DELIVERED \<or> dl_intern_str_of E d (x ! 6) = Some PERMFAIL"

lemma walk_items:
  "snd (queue_msgid_walk E d replay_collect_cb rows acc) = acc @ map (\<lambda>c. c ! 1) (filter (finished_row E d)
     (takeWhile (\<lambda>c. dl_intern_str_of E d (c ! 2) \<noteq> None \<and> dl_intern_str_of E d (c ! 3) \<noteq> None \<and> dl_intern_str_of E d (c ! 6) \<noteq> None) rows))"
  by (induction rows arbitrary: acc) (auto simp: replay_collect_cb_def finished_row_def split: option.split)

lemma walk_finished:
  "k \<in> set (snd (queue_msgid_walk E d replay_collect_cb rows [])) \<Longrightarrow> \<exists>c \<in> set rows. c ! 1 = k \<and> finished_row E d c"
  unfolding walk_items by (auto dest: set_takeWhileD)

text \<open>The rows of one delivery.\<close>

definition rows_of_key :: "('d \<Rightarrow> rel \<Rightarrow> row set) \<Rightarrow> u32 \<Rightarrow> u32 \<Rightarrow> ('d, 'w) Sys \<Rightarrow> row set" where
  "rows_of_key F m k s = {x \<in> F (db (s_store s)) REL_QUEUE. take 2 x = [m, k]}"

context dl_provider
begin

lemma set_status_rows:
  fixes V :: "('d, 'w) Env"
  assumes "eng V = E" "[m', k'] \<noteq> [m, k]"
  shows "state_io_rel (same (rows_of_key facts m k))
    (on_store (\<lambda>s. store_queue_set_status (eng V) s m' k' st a ts) :: (('d, 'w) Sys, unit visage_result) state)"
proof (rule sameI)
  fix s :: "('d, 'w) Sys"
  obtain r st' where r: "store_queue_set_status E (s_store s) m' k' st a ts = (r, st')"
    by (cases "store_queue_set_status E (s_store s) m' k' st a ts")
  have "x \<in> facts (db st') REL_QUEUE \<longleftrightarrow> x \<in> facts (db (s_store s)) REL_QUEUE" if "take 2 x = [m, k]" for x
    using set_status_other [OF r] that assms(2) by metis
  then show "rows_of_key facts m k (exec (on_store (\<lambda>s. store_queue_set_status (eng V) s m' k' st a ts)) s) = rows_of_key facts m k s"
    using r assms(1) by (auto simp: rows_of_key_def)
qed

lemma replay_rows:
  fixes V :: "('d, 'w) Env" and s :: "('d, 'w) Sys"
  assumes "eng V = E" "\<And>x. x \<in> rows_of_key facts m k s \<Longrightarrow> \<not> finished_row E (db (s_store s)) x"
  shows "rows_of_key facts m k (exec (handle_replay V cfg r req he) s) = rows_of_key facts m k s"
proof (cases "json_obj_get_u32 (cstr (drop he req)) ''msgid''")
  case None
  then show ?thesis by (simp add: handle_replay_def)
next
  case (Some msgid)
  let ?R = "same (rows_of_key facts m k)" and ?w = "store_queue_walk_msgid E (s_store s) msgid replay_collect_cb []"
  have ne: "[msgid, k'] \<noteq> [m, k]" if k': "k' \<in> set (snd ?w)" for k'
  proof
    assume eq: "[msgid, k'] = [m, k]"
    obtain rows where p: "dl_prefix E (db (s_store s)) REL_QUEUE [msgid] = Some rows"
      "k' \<in> set (snd (queue_msgid_walk E (db (s_store s)) replay_collect_cb rows []))"
      using k' by (auto simp: store_queue_walk_msgid_def split: option.splits prod.splits)
    obtain c where c: "c \<in> set rows" "c ! 1 = k'" "finished_row E (db (s_store s)) c" using walk_finished [OF p(2)] by blast
    then have f: "c \<in> facts (db (s_store s)) REL_QUEUE" "take 1 c = [msgid]" using prefix_rows [OF p(1)] by auto
    have "length c = 7" using arity [OF f(1)] by simp
    then have "take 2 c = [m, k]" using f(2) c(2) eq by (cases c; cases "tl c") (auto simp: numeral_2_eq_2)
    then show False using assms(2) f(1) c(3) by (simp add: rows_of_key_def)
  qed
  have w: "state_io_rel ?R (on_world f)" for f :: "'w \<Rightarrow> (bool \<times> int) option \<times> 'w"
    by (rule sameI) (simp add: rows_of_key_def)
  have one: "state_io_rel ?R (replay_one V cfg msgid n k')" if "k' \<in> set (snd ?w)" for n k'
    unfolding replay_one_def Let_def by (intro same.control_io w set_status_rows [OF assms(1) ne [OF that]])
  have all: "rows_of_key facts m k (exec (foldM (replay_one V cfg msgid) n ks) t) = rows_of_key facts m k t"
    if "set ks \<subseteq> set (snd ?w)" for n ks t
    using that
  proof (induction ks arbitrary: n t)
    case (Cons k' ks)
    then have "rows_of_key facts m k (exec (replay_one V cfg msgid n k') t) = rows_of_key facts m k t" using sameD [OF one] by simp
    then show ?case using Cons by simp
  qed simp
  obtain res items where w: "?w = (res, items)" by (cases ?w)
  show ?thesis using all [of items 0 s] Some assms(1) w by (cases res) (simp_all add: handle_replay_def)
qed

end

text \<open>
  A replay never disturbs a delivery that is still to be made. A delivery all of whose rows are
  queued or being delivered has exactly the same rows after the request as before, whatever
  message id the request names and whatever the spool holds; only deliveries with a delivered or
  permanently failed row can change.
\<close>

theorem replay_leaves_active:
  assumes "dl_provider (eng E) F" "\<forall>x \<in> rows_of_key F m k s. \<not> finished_row (eng E) (db (s_store s)) x"
  shows "rows_of_key F m k (exec (handle_replay E cfg r req he) s) = rows_of_key F m k s"
  using dl_provider.replay_rows [OF assms(1) refl] assms(2) by blast

theorem replay_leaves_active_witness:
  "rows_of_key ref_facts 7 0 (exec (handle_replay ref_env ref_cfg \<lparr>ar_buf = [], ar_fail = False\<rparr> (''{'' @ dq ''msgid'' @ '':7}'') 0)
     (ref_sys demo_queue_store SMTP_OK)) = {[7, 0, 1, 2, 0, 0, 3]}"
proof -
  let ?s = "ref_sys demo_queue_store SMTP_OK"
  have rows: "ref_facts (db demo_queue_store) REL_QUEUE = {[7, 0, 1, 2, 0, 0, 3]}" by code_simp
  have st: "dl_intern_str_of ref_engine (db demo_queue_store) 3 = Some QUEUED" by code_simp
  have k: "rows_of_key ref_facts 7 0 ?s = {[7, 0, 1, 2, 0, 0, 3]}"
    by (auto simp: rows_of_key_def ref_sys_def rows numeral_2_eq_2)
  have p: "dl_provider (eng ref_env) ref_facts" using refsys.dl_provider_axioms by simp
  have "\<forall>x \<in> rows_of_key ref_facts 7 0 ?s. \<not> finished_row (eng ref_env) (db (s_store ?s)) x"
    using st unfolding k by (simp add: finished_row_def ref_sys_def)
  from replay_leaves_active [OF p this] k show ?thesis by simp
qed

end
