(* ===== verification/Http_Server.thy ===== *)
theory Http_Server
  imports Admin_Api
begin

text \<open>
  The admin HTTP server (\<open>http.c\<close>) and the slot table through which the event loop of
  \<open>smtp_in.c\<close> multiplexes its connections. A slot owns the connection object its \<open>user\<close> pointer
  leads to; the callbacks of a slot are always those of \<open>http.c\<close>. Closing a descriptor has no
  effect in the model.
\<close>

section \<open>State\<close>

abbreviation POLLIN :: poll_bits where "POLLIN \<equiv> 1"
abbreviation POLLOUT :: poll_bits where "POLLOUT \<equiv> 4"
abbreviation POLLERR :: poll_bits where "POLLERR \<equiv> 8"
abbreviation POLLHUP :: poll_bits where "POLLHUP \<equiv> 16"

definition SMTP_IN_MAX_HTTP :: nat where
  "SMTP_IN_MAX_HTTP = 32"

definition SMTP_IN_MAX_EXTRA :: nat where
  "SMTP_IN_MAX_EXTRA = 8"

definition HTTP_MAX_REQ :: nat where
  "HTTP_MAX_REQ = 65536"

definition HTTP_RECV_CHUNK :: nat where
  "HTTP_RECV_CHUNK = 4096"

datatype http_state = HTTP_ST_RECV | HTTP_ST_RESPOND

record HttpConn =
  hc_fd :: int
  hc_handle :: int
  hc_recv :: string
  hc_header_end :: nat
  hc_body_len :: nat
  hc_state :: http_state
  hc_resp :: string
  hc_resp_off :: nat

record HttpSlot =
  hs_used :: bool
  hs_fd :: int
  hs_events :: poll_bits
  hs_idle :: u32
  hs_last_act :: int
  hs_user :: "HttpConn option"

text \<open>The whole process: the SMTP server, the slot table and the extra listeners.\<close>

record ('d, 'w) Daemon =
  d_sys :: "('d, 'w) Sys"
  d_http :: "HttpSlot list"
  d_extra :: "int list"

definition on_sys :: "(('d, 'w) Sys, 'r) state \<Rightarrow> (('d, 'w) Daemon, 'r) state" where
  "on_sys m = State (\<lambda>d. case run_state m (d_sys d) of (r, s) \<Rightarrow> (r, d\<lparr>d_sys := s\<rparr>))"

lemma run_on_sys [simp]: "run_state (on_sys m) d = (eval m (d_sys d), d\<lparr>d_sys := exec m (d_sys d)\<rparr>)"
  by (simp add: on_sys_def split_beta)

section \<open>The slot table\<close>

definition smtp_in_add_extra_fd :: "int \<Rightarrow> (('d, 'w) Daemon, unit visage_result) state" where
  "smtp_in_add_extra_fd fd = do {
     fds \<leftarrow> gets d_extra;
     if fd < 0 \<or> length fds \<ge> SMTP_IN_MAX_EXTRA then return (Inl VISAGE_EPARAM)
     else do {
       modify (\<lambda>d. d\<lparr>d_extra := d_extra d @ [fd]\<rparr>);
       return (Inr ())
     }
   }"

definition upd_slot :: "nat \<Rightarrow> (HttpSlot \<Rightarrow> HttpSlot) \<Rightarrow> (('d, 'w) Daemon, unit) state" where
  "upd_slot i f = modify (\<lambda>d. d\<lparr>d_http := (d_http d)[i := f (d_http d ! i)]\<rparr>)"

fun free_slot :: "nat \<Rightarrow> HttpSlot list \<Rightarrow> nat option" where
  "free_slot i [] = None"
| "free_slot i (h # hs) = (if \<not> hs_used h then Some i else free_slot (Suc i) hs)"

definition smtp_in_register_http_conn :: "('d, 'w) Env \<Rightarrow> int \<Rightarrow> u32 \<Rightarrow> HttpConn \<Rightarrow> (('d, 'w) Daemon, nat visage_result) state" where
  "smtp_in_register_http_conn E fd idle user =
     (if fd < 0 then return (Inl VISAGE_EPARAM)
      else do {
        hs \<leftarrow> gets d_http;
        case free_slot 0 hs of
          None \<Rightarrow> return (Inl VISAGE_ENOMEM)
        | Some i \<Rightarrow> do {
            now \<leftarrow> on_sys (on_world (os_time E));
            upd_slot i (\<lambda>h. \<lparr>hs_used = True, hs_fd = fd, hs_events = POLLIN, hs_idle = idle, hs_last_act = now, hs_user = Some user\<rparr>);
            return (Inr i)
          }
      })"

definition smtp_in_http_set_events :: "int \<Rightarrow> poll_bits \<Rightarrow> (('d, 'w) Daemon, unit) state" where
  "smtp_in_http_set_events handle events =
     (if handle < 0 \<or> handle \<ge> int SMTP_IN_MAX_HTTP then return ()
      else do {
        hs \<leftarrow> gets d_http;
        if \<not> hs_used (hs ! nat handle) then return ()
        else upd_slot (nat handle) (\<lambda>h. h\<lparr>hs_events := events\<rparr>)
      })"

definition smtp_in_http_close :: "int \<Rightarrow> (('d, 'w) Daemon, unit) state" where
  "smtp_in_http_close handle =
     (if handle < 0 \<or> handle \<ge> int SMTP_IN_MAX_HTTP then return ()
      else upd_slot (nat handle) (\<lambda>h. h\<lparr>hs_used := False, hs_fd := -1, hs_events := 0, hs_user := None\<rparr>))"

section \<open>Connections\<close>

definition http_conn_free :: "HttpConn \<Rightarrow> (('d, 'w) Daemon, unit) state" where
  "http_conn_free c = whenM (hc_handle c \<ge> 0) (smtp_in_http_close (hc_handle c))"

text \<open>The object behind the \<open>user\<close> pointer of a slot, as a handler leaves it.\<close>

definition http_conn_put :: "HttpConn \<Rightarrow> (('d, 'w) Daemon, unit) state" where
  "http_conn_put c = upd_slot (nat (hc_handle c)) (\<lambda>h. h\<lparr>hs_user := Some c\<rparr>)"

definition http_set_response_buf :: "HttpConn \<Rightarrow> string \<Rightarrow> HttpConn" where
  "http_set_response_buf c buf = c\<lparr>hc_resp := buf, hc_resp_off := 0, hc_state := HTTP_ST_RESPOND\<rparr>"

definition http_set_response :: "HttpConn \<Rightarrow> nat \<Rightarrow> string \<Rightarrow> string \<Rightarrow> string \<Rightarrow> HttpConn" where
  "http_set_response c status reason ctype body =
     http_set_response_buf c (take 255 (http_head status reason ctype (length body)) @ body)"

definition http_try_flush :: "('d, 'w) Env \<Rightarrow> HttpConn \<Rightarrow> (('d, 'w) Daemon, unit) state" where
  "http_try_flush E c = do {
     r \<leftarrow> on_sys (on_world (flush_loop (os_send E (hc_fd c)) (hc_resp c) (hc_resp_off c)));
     case r of
       Flush_done \<Rightarrow> http_conn_free c
     | Flush_blocked off \<Rightarrow> http_conn_put (c\<lparr>hc_resp_off := off\<rparr>)
     | Flush_dead \<Rightarrow> http_conn_free c
   }"

definition http_send :: "('d, 'w) Env \<Rightarrow> HttpConn \<Rightarrow> (('d, 'w) Daemon, unit) state" where
  "http_send E c = do {
     smtp_in_http_set_events (hc_handle c) POLLOUT;
     http_try_flush E c
   }"

definition http_respond :: "('d, 'w) Env \<Rightarrow> HttpConn \<Rightarrow> nat \<Rightarrow> string \<Rightarrow> string \<Rightarrow> string \<Rightarrow> (('d, 'w) Daemon, unit) state" where
  "http_respond E c status reason ctype body = http_send E (http_set_response c status reason ctype body)"

definition http_respond_err :: "('d, 'w) Env \<Rightarrow> HttpConn \<Rightarrow> nat \<Rightarrow> string \<Rightarrow> string \<Rightarrow> (('d, 'w) Daemon, unit) state" where
  "http_respond_err E c status reason msg = http_respond E c status reason JSON_TYPE (err_body msg)"

definition handle_request :: "('d, 'w) Env \<Rightarrow> AdminUi \<Rightarrow> Config \<Rightarrow> HttpConn \<Rightarrow> (('d, 'w) Daemon, unit) state" where
  "handle_request E ui cfg c = do {
     r \<leftarrow> on_sys (admin_build_response E ui cfg (hc_recv c) (hc_header_end c));
     case r of
       Inl _ \<Rightarrow> http_respond_err E c 500 ''Internal Server Error'' ''out of memory''
     | Inr resp \<Rightarrow> http_send E (http_set_response_buf c resp)
   }"

abbreviation too_large :: "('d, 'w) Env \<Rightarrow> HttpConn \<Rightarrow> (('d, 'w) Daemon, unit) state" where
  "too_large E c \<equiv> http_respond_err E c 413 ''Request Entity Too Large'' ''request too large''"

text \<open>\<open>header_end\<close> and \<open>body_len\<close> start as \<open>SIZE_MAX\<close> and \<open>0\<close>.\<close>

definition http_process :: "('d, 'w) Env \<Rightarrow> AdminUi \<Rightarrow> Config \<Rightarrow> HttpConn \<Rightarrow> (('d, 'w) Daemon, unit) state" where
  "http_process E ui cfg c =
     (case http_parse_probe (hc_recv c) HTTP_MAX_REQ of (r, ends) \<Rightarrow>
        case r of
          HTTP_PARSE_NEED_MORE \<Rightarrow> if length (hc_recv c) \<ge> HTTP_MAX_REQ then too_large E c else http_conn_put c
        | HTTP_PARSE_ERR \<Rightarrow> too_large E c
        | HTTP_PARSE_DONE \<Rightarrow>
            (case (case ends of None \<Rightarrow> (nat SIZE_MAX, 0) | Some e \<Rightarrow> e) of (he, bl) \<Rightarrow>
               if length (hc_recv c) \<noteq> he + bl
               then http_respond_err E c 400 ''Bad Request'' ''body does not match Content-Length''
               else handle_request E ui cfg (c\<lparr>hc_header_end := he, hc_body_len := bl\<rparr>)))"

definition http_conn_on_readable :: "('d, 'w) Env \<Rightarrow> AdminUi \<Rightarrow> Config \<Rightarrow> HttpConn \<Rightarrow> (('d, 'w) Daemon, unit) state" where
  "http_conn_on_readable E ui cfg c =
     (if hc_state c \<noteq> HTTP_ST_RECV then return ()
      else if length (hc_recv c) \<ge> HTTP_MAX_REQ then too_large E c
      else do {
        r \<leftarrow> on_sys (on_world (os_recv E (hc_fd c)
               (if HTTP_MAX_REQ - length (hc_recv c) < HTTP_RECV_CHUNK then HTTP_MAX_REQ - length (hc_recv c) else HTTP_RECV_CHUNK)));
        case r of
          Inl e \<Rightarrow> if e = Would_block then return () else http_conn_free c
        | Inr bytes \<Rightarrow>
            if bytes = [] then http_conn_free c
            else http_process E ui cfg (c\<lparr>hc_recv := hc_recv c @ bytes\<rparr>)
      })"

definition http_conn_on_writable :: "('d, 'w) Env \<Rightarrow> HttpConn \<Rightarrow> (('d, 'w) Daemon, unit) state" where
  "http_conn_on_writable E c = whenM (hc_state c = HTTP_ST_RESPOND) (http_try_flush E c)"

definition http_conn_on_closed :: "HttpConn \<Rightarrow> (('d, 'w) Daemon, unit) state" where
  "http_conn_on_closed c = http_conn_free c"

definition http_slot_idle_close :: "nat \<Rightarrow> (('d, 'w) Daemon, unit) state" where
  "http_slot_idle_close handle = do {
     hs \<leftarrow> gets d_http;
     smtp_in_http_close (int handle);
     case hs_user (hs ! handle) of None \<Rightarrow> return () | Some c \<Rightarrow> http_conn_on_closed c
   }"

section \<open>Accepting\<close>

definition http_busy :: string where
  "http_busy = ''HTTP/1.0 503 Service Unavailable'' @ CRLF @ ''Content-Type: application/json'' @ CRLF @
     ''Content-Length: 0'' @ CRLF @ ''Connection: close'' @ CRLF @ CRLF"

definition http_accept_one :: "('d, 'w) Env \<Rightarrow> int \<Rightarrow> (('d, 'w) Daemon, unit) state" where
  "http_accept_one E cfd = do {
     let c = \<lparr>hc_fd = cfd, hc_handle = -1, hc_recv = [], hc_header_end = 0, hc_body_len = 0, hc_state = HTTP_ST_RECV,
              hc_resp = [], hc_resp_off = 0\<rparr>;
     handle \<leftarrow> smtp_in_register_http_conn E cfd 5 c;
     case handle of
       Inl _ \<Rightarrow> do { _ \<leftarrow> on_sys (on_world (os_send E cfd http_busy)); return () }
     | Inr i \<Rightarrow> http_conn_put (c\<lparr>hc_handle := int i\<rparr>)
   }"

definition http_accept :: "('d, 'w) Env \<Rightarrow> (('d, 'w) Daemon, unit) state" where
  "http_accept E = do {
     fds \<leftarrow> on_sys (on_world (os_accept E L_admin));
     foldM (\<lambda>_ f. http_accept_one E (fst f)) () fds
   }"

end
