(* ===== verification/Smtp_Loop.thy ===== *)
theory Smtp_Loop
  imports Smtp_Session Http_Server
begin

text \<open>
  The event loop of the daemon (\<open>smtp_in.c\<close> from \<open>conn_timeout\<close> to \<open>smtp_in_main\<close>): idle timeouts,
  accepting with the connection caps, what each connection polls for, the dispatch of its events,
  the reaping of closed connections, the periodic sweeps, and start-up recovery. One call of
  \<open>server_round\<close> is one iteration of the loop of \<open>server_poll\<close>. The fuel \<open>n\<close> is that of the session
  functions.
\<close>

unbundle bit_operations_syntax

section \<open>Deadlines\<close>

definition conn_timeout :: "Server \<Rightarrow> Conn \<Rightarrow> u32" where
  "conn_timeout srv c = (if c_state c = ST_DATA then data_tmo srv else cmd_tmo srv)"

text \<open>The cast of a 64-bit count of milliseconds to \<open>int\<close>.\<close>

definition to_int32 :: "int \<Rightarrow> int" where
  "to_int32 x = (x + 2147483648) mod 4294967296 - 2147483648"

text \<open>
  One of the two deadline loops, over pairs of a timeout and the time of the last activity.
  \<open>None\<close> is the early return of 0.
\<close>

fun deadline_scan :: "int \<Rightarrow> (u32 \<times> int) list \<Rightarrow> int \<Rightarrow> int option" where
  "deadline_scan now [] ms = Some ms"
| "deadline_scan now ((tmo, last_act) # ds) ms =
     (if tmo = 0 then deadline_scan now ds ms
      else
        let elapsed = (if now > last_act then now - last_act else 0) in
        if elapsed \<ge> int (unat tmo) then None
        else
          let rms = to_int32 ((int (unat tmo) - elapsed) * 1000) in
          deadline_scan now ds (if ms < 0 \<or> rms < ms then rms else ms))"

definition poll_timeout_ms :: "('d, 'w) Env \<Rightarrow> Server \<Rightarrow> int \<Rightarrow> (('d, 'w) Daemon, int) state" where
  "poll_timeout_ms E srv now = do {
     cs \<leftarrow> gets (\<lambda>d. s_conns (d_sys d));
     hs \<leftarrow> gets d_http;
     case deadline_scan now (map (\<lambda>c. (conn_timeout srv c, c_last_act c)) cs) (-1) of
       None \<Rightarrow> return 0
     | Some ms1 \<Rightarrow>
         (case deadline_scan now (map (\<lambda>h. (if hs_used h then hs_idle h else 0, hs_last_act h)) hs) ms1 of
            None \<Rightarrow> return 0
          | Some ms \<Rightarrow> do {
              next_due \<leftarrow> on_sys (on_store (store_queue_next_due (eng E)));
              return
                (if next_due = UINT32_MAX then ms
                 else
                   let now32 = of_int now;
                       d0 = (if next_due > now32 then next_due - now32 else 0);
                       delta = (if d0 > 30 then 30 else d0);
                       qms = to_int32 (int (unat (delta * 1000))) in
                   if ms < 0 \<or> qms < ms then qms else ms)
            })
   }"

section \<open>Serving one connection of the table\<close>

definition with_conn :: "nat \<Rightarrow> (('d, 'w) Sys, unit) state \<Rightarrow> (('d, 'w) Sys, unit) state" where
  "with_conn i m = do {
     modify (\<lambda>s. s\<lparr>s_conn := s_conns s ! i\<rparr>);
     m;
     modify (\<lambda>s. s\<lparr>s_conns := (s_conns s)[i := s_conn s]\<rparr>)
   }"

section \<open>Accepting\<close>

definition SMTP_IN_MAX_CONNS :: nat where
  "SMTP_IN_MAX_CONNS = 1024"

definition SMTP_IN_MAX_CONNS_PER_IP :: nat where
  "SMTP_IN_MAX_CONNS_PER_IP = 128"

definition count_peer_conns :: "Conn list \<Rightarrow> string \<Rightarrow> nat" where
  "count_peer_conns cs ip = (if ip = [] then 0 else length (filter (\<lambda>c. c_real_ip c = ip) cs))"

definition new_conn :: "int \<Rightarrow> string \<Rightarrow> bool \<Rightarrow> int \<Rightarrow> Conn" where
  "new_conn fd ip implicit now =
     \<lparr>c_fd = fd, c_state = ST_INIT, c_closed = False, c_from = None, c_rcpts = [], c_in = [], c_data = [], c_scan_pos = 0,
      c_out = [], c_out_off = 0, c_last_act = now, c_peer_ip = ip, c_real_ip = ip, c_proxy_seen = False, c_greeted = False,
      c_tls_proxy_wait = implicit, c_tls = None\<rparr>"

definition server_accept_one :: "('d, 'w) Env \<Rightarrow> Server \<Rightarrow> bool \<Rightarrow> int \<Rightarrow> int \<times> string \<Rightarrow> (('d, 'w) Sys, unit) state" where
  "server_accept_one E srv implicit now a =
     (case a of (fd, ip) \<Rightarrow> do {
        cs \<leftarrow> gets s_conns;
        let busy = do { _ \<leftarrow> on_world (os_send E fd (''421 4.7.0 Too many connections'' @ CRLF)); return () };
        if length cs \<ge> SMTP_IN_MAX_CONNS then busy
        else if ip \<noteq> [] \<and> count_peer_conns cs ip \<ge> SMTP_IN_MAX_CONNS_PER_IP then busy
        else do {
          modify (\<lambda>s. s\<lparr>s_conns := s_conns s @ [new_conn fd ip implicit now]\<rparr>);
          if implicit then return ()
          else with_conn (length cs) (do {
            conn_reply E (greeting (s_cfg srv));
            upd_conn (\<lambda>c. c\<lparr>c_greeted := True\<rparr>)
          })
        }
      })"

definition server_accept :: "('d, 'w) Env \<Rightarrow> Server \<Rightarrow> listener \<Rightarrow> int \<Rightarrow> (('d, 'w) Sys, unit) state" where
  "server_accept E srv lsn now = do {
     as \<leftarrow> on_world (os_accept E lsn);
     foldM (\<lambda>_. server_accept_one E srv (lsn = L_smtps) now) () as
   }"

section \<open>One iteration\<close>

definition idle_over :: "int \<Rightarrow> u32 \<Rightarrow> int \<Rightarrow> bool" where
  "idle_over now tmo last_act \<longleftrightarrow> tmo \<noteq> 0 \<and> now > last_act \<and> now - last_act \<ge> int (unat tmo)"

definition conn_idle :: "('d, 'w) Env \<Rightarrow> Server \<Rightarrow> int \<Rightarrow> (('d, 'w) Sys, unit) state" where
  "conn_idle E srv now = do {
     c \<leftarrow> conn;
     whenM (idle_over now (conn_timeout srv c) (c_last_act c))
       (if smtp_in_tls_handshaking (c_tls c) then drop_conn
        else do {
          conn_reply E (''421 4.4.2 Timeout - closing connection'' @ CRLF);
          close_conn
        })
   }"

definition for_conns :: "nat \<Rightarrow> (nat \<Rightarrow> (('d, 'w) Sys, unit) state) \<Rightarrow> (('d, 'w) Sys, unit) state" where
  "for_conns k f = foldM (\<lambda>_ i. with_conn i (f i)) () [0..<k]"

definition idle_sweep :: "('d, 'w) Env \<Rightarrow> Server \<Rightarrow> int \<Rightarrow> (('d, 'w) Sys, unit) state" where
  "idle_sweep E srv now = do {
     cs \<leftarrow> gets s_conns;
     for_conns (length cs) (\<lambda>_. conn_idle E srv now)
   }"

definition http_idle :: "int \<Rightarrow> nat \<Rightarrow> (('d, 'w) Daemon, unit) state" where
  "http_idle now i = do {
     hs \<leftarrow> gets d_http;
     whenM (hs_used (hs ! i) \<and> idle_over now (hs_idle (hs ! i)) (hs_last_act (hs ! i))) (http_slot_idle_close i)
   }"

definition sweeps :: "('d, 'w) Env \<Rightarrow> Server \<Rightarrow> int \<Rightarrow> (('d, 'w) Sys, unit) state" where
  "sweeps E srv now = do {
     s \<leftarrow> gets id;
     whenM (now \<ge> s_next_revmap_sweep s) (do {
       _ \<leftarrow> on_store (\<lambda>st. store_revmap_expire (eng E) st (of_int now));
       _ \<leftarrow> on_store (\<lambda>st. store_log_expire (eng E) st (of_int now));
       modify (\<lambda>s. s\<lparr>s_next_revmap_sweep := now + 3600\<rparr>)
     });
     whenM (now \<ge> s_next_spool_sweep s) (do {
       spool_gc E (s_cfg srv);
       modify (\<lambda>s. s\<lparr>s_next_spool_sweep := now + 3600\<rparr>)
     })
   }"

text \<open>What a connection polls for.\<close>

definition conn_events :: "Conn \<Rightarrow> poll_bits" where
  "conn_events c =
     (if \<not> c_closed c \<and> smtp_in_tls_handshaking (c_tls c) then
        if smtp_in_tls_pending (c_tls c) then POLLOUT
        else if smtp_in_tls_wants_write (c_tls c) then POLLOUT else POLLIN
      else if c_closed c then if c_out_off c < length (c_out c) then POLLOUT else 0
      else (if length (c_out c) < SMTP_IN_MAX_OUT div 2 then POLLIN else 0) OR
           (if c_out_off c < length (c_out c) then POLLOUT else 0))"

definition poll_fds :: "int \<Rightarrow> int \<Rightarrow> ('d, 'w) Daemon \<Rightarrow> (int \<times> poll_bits) list" where
  "poll_fds lfd tls_fd d =
     [(lfd, POLLIN), (tls_fd, if tls_fd \<ge> 0 then POLLIN else 0)] @
     map (\<lambda>fd. (fd, POLLIN)) (d_extra d) @
     map (\<lambda>c. (c_fd c, conn_events c)) (s_conns (d_sys d)) @
     map (\<lambda>h. (if hs_used h then hs_fd h else -1, if hs_used h then hs_events h else 0)) (d_http d)"

definition bits :: "poll_bits \<Rightarrow> poll_bits \<Rightarrow> bool" where
  "bits rv m \<longleftrightarrow> rv AND m \<noteq> 0"

definition conn_dispatch :: "('d, 'w) Env \<Rightarrow> Server \<Rightarrow> nat \<Rightarrow> int \<Rightarrow> poll_bits \<Rightarrow> (('d, 'w) Sys, unit) state" where
  "conn_dispatch E srv n now rv = do {
     c \<leftarrow> conn;
     if c_closed c then whenM (bits rv POLLOUT) (conn_flush E)
     else if smtp_in_tls_pending (c_tls c) then
       whenM (bits rv POLLOUT) (do {
         conn_flush E;
         c \<leftarrow> conn;
         whenM (\<not> c_closed c \<and> c_out_off c \<ge> length (c_out c)) (tls_advance E srv n now)
       })
     else if smtp_in_tls_handshaking (c_tls c) then
       whenM (bits rv (POLLIN OR POLLOUT OR POLLHUP OR POLLERR)) (tls_advance E srv n now)
     else do {
       whenM (bits rv (POLLIN OR POLLHUP OR POLLERR)) (conn_readable E srv n now);
       c \<leftarrow> conn;
       whenM (\<not> c_closed c \<and> bits rv POLLOUT) (conn_flush E)
     }
   }"

definition http_dispatch :: "('d, 'w) Env \<Rightarrow> AdminUi \<Rightarrow> Config \<Rightarrow> int \<Rightarrow> nat \<Rightarrow> poll_bits \<Rightarrow> (('d, 'w) Daemon, unit) state" where
  "http_dispatch E ui cfg now i rv = do {
     hs \<leftarrow> gets d_http;
     if \<not> hs_used (hs ! i) then return ()
     else do {
       whenM (bits rv (POLLIN OR POLLHUP OR POLLERR)) (do {
         upd_slot i (\<lambda>h. h\<lparr>hs_last_act := now\<rparr>);
         case hs_user (hs ! i) of None \<Rightarrow> return () | Some c \<Rightarrow> http_conn_on_readable E ui cfg c
       });
       hs \<leftarrow> gets d_http;
       whenM (hs_used (hs ! i) \<and> bits rv POLLOUT) (do {
         upd_slot i (\<lambda>h. h\<lparr>hs_last_act := now\<rparr>);
         case hs_user (hs ! i) of None \<Rightarrow> return () | Some c \<Rightarrow> http_conn_on_writable E c
       })
     }
   }"

text \<open>The reaping loop: a finished connection is replaced by the last one, which is looked at next.\<close>

definition conn_done :: "Conn \<Rightarrow> bool" where
  "conn_done c \<longleftrightarrow> c_closed c \<and> c_out_off c \<ge> length (c_out c)"

function reap :: "nat \<Rightarrow> Conn list \<Rightarrow> Conn list" where
  "reap i cs =
     (if i \<ge> length cs then cs
      else if conn_done (cs ! i) then reap i (butlast (cs[i := last cs]))
      else reap (Suc i) cs)"
  by pat_completeness auto
termination
  by (relation "measure (\<lambda>(i, cs). length cs - i)") auto

declare reap.simps [simp del]

definition revent :: "poll_bits list \<Rightarrow> nat \<Rightarrow> poll_bits" where
  "revent revs i = (if i < length revs then revs ! i else 0)"

definition dispatch_all :: "('d, 'w) Env \<Rightarrow> AdminUi \<Rightarrow> Server \<Rightarrow> nat \<Rightarrow> int \<Rightarrow> poll_bits list \<Rightarrow> (('d, 'w) Daemon, unit) state" where
  "dispatch_all E ui srv n now revs = do {
     d \<leftarrow> gets id;
     let nextra = length (d_extra d);
     let n_before = length (s_conns (d_sys d));
     whenM (bits (revent revs 0) POLLIN) (on_sys (server_accept E srv L_smtp now));
     whenM (bits (revent revs 1) POLLIN) (on_sys (server_accept E srv L_smtps now));
     foldM (\<lambda>_ i. whenM (bits (revent revs (i + 2)) (POLLIN OR POLLHUP OR POLLERR)) (http_accept E)) () [0..<nextra];
     on_sys (for_conns n_before (\<lambda>i. conn_dispatch E srv n now (revent revs (2 + nextra + i))));
     foldM (\<lambda>_ i. http_dispatch E ui (s_cfg srv) now i (revent revs (2 + nextra + n_before + i))) () [0..<SMTP_IN_MAX_HTTP];
     on_sys (modify (\<lambda>s. s\<lparr>s_conns := reap 0 (s_conns s)\<rparr>))
   }"

text \<open>One iteration of the loop; the value says whether the loop goes on.\<close>

definition server_round :: "('d, 'w) Env \<Rightarrow> AdminUi \<Rightarrow> Server \<Rightarrow> nat \<Rightarrow> int \<Rightarrow> int \<Rightarrow> (('d, 'w) Daemon, bool) state" where
  "server_round E ui srv n lfd tls_fd = do {
     now \<leftarrow> on_sys (on_world (os_time E));
     on_sys (idle_sweep E srv now);
     foldM (\<lambda>_. http_idle now) () [0..<SMTP_IN_MAX_HTTP];
     on_sys (queue_redrive E (s_cfg srv));
     on_sys (sweeps E srv now);
     fds \<leftarrow> gets (poll_fds lfd tls_fd);
     tmo \<leftarrow> poll_timeout_ms E srv now;
     p \<leftarrow> on_sys (on_world (os_poll E fds tmo));
     case p of
       Poll_interrupted \<Rightarrow> return True
     | Poll_failed \<Rightarrow> return False
     | Poll_ready revs \<Rightarrow> do {
         dispatch_all E ui srv n now revs;
         return True
       }
   }"

fun server_poll :: "('d, 'w) Env \<Rightarrow> AdminUi \<Rightarrow> Server \<Rightarrow> nat \<Rightarrow> int \<Rightarrow> int \<Rightarrow> nat \<Rightarrow> (('d, 'w) Daemon, unit) state" where
  "server_poll E ui srv n lfd tls_fd 0 = return ()"
| "server_poll E ui srv n lfd tls_fd (Suc k) = do {
     go \<leftarrow> server_round E ui srv n lfd tls_fd;
     whenM go (server_poll E ui srv n lfd tls_fd k)
   }"

section \<open>Start-up\<close>

definition startup :: "('d, 'w) Env \<Rightarrow> Server \<Rightarrow> (('d, 'w) Sys, unit) state" where
  "startup E srv = do {
     _ \<leftarrow> on_store (store_queue_reset_delivering (eng E));
     now \<leftarrow> time32 E;
     _ \<leftarrow> on_store (\<lambda>st. store_revmap_expire (eng E) st now);
     now \<leftarrow> time32 E;
     _ \<leftarrow> on_store (\<lambda>st. store_log_expire (eng E) st now);
     spool_gc E (s_cfg srv);
     queue_redrive E (s_cfg srv)
   }"

definition empty_slot :: HttpSlot where
  "empty_slot = \<lparr>hs_used = False, hs_fd = 0, hs_events = 0, hs_idle = 0, hs_last_act = 0, hs_user = None\<rparr>"

text \<open>The process as \<open>smtp_in_main\<close> finds it: no connections yet, the store open.\<close>

definition boot :: "'d Store \<Rightarrow> 'w \<Rightarrow> int list \<Rightarrow> int \<Rightarrow> ('d, 'w) Daemon" where
  "boot st w extra now =
     \<lparr>d_sys = \<lparr>s_store = st, s_conns = [], s_reply_rows = [], s_next_revmap_sweep = now + 3600, s_next_spool_sweep = now + 3600,
        s_conn = new_conn (-1) [] False 0, s_world = w, s_stalled = False\<rparr>,
      d_http = replicate SMTP_IN_MAX_HTTP empty_slot, d_extra = extra\<rparr>"

definition smtp_in_main :: "('d, 'w) Env \<Rightarrow> AdminUi \<Rightarrow> Config \<Rightarrow> nat \<Rightarrow> int \<Rightarrow> int \<Rightarrow> nat \<Rightarrow> (('d, 'w) Daemon, unit visage_result) state" where
  "smtp_in_main E ui cfg n lfd tls_fd k =
     (if lfd < 0 then return (Inl VISAGE_ERR)
      else if tls_listen_port (cfg_tls_listen cfg) \<noteq> 0 \<and> tls_fd < 0 then return (Inl VISAGE_ERR)
      else do {
        on_sys (startup E (server_init cfg));
        server_poll E ui (server_init cfg) n lfd (if tls_listen_port (cfg_tls_listen cfg) \<noteq> 0 then tls_fd else -1) k;
        return (Inr ())
      })"

text \<open>The admin listener is registered with the loop before it starts.\<close>

definition http_serve :: "('d, 'w) Env \<Rightarrow> AdminUi \<Rightarrow> Config \<Rightarrow> nat \<Rightarrow> int \<Rightarrow> int \<Rightarrow> int \<Rightarrow> nat \<Rightarrow> (('d, 'w) Daemon, unit visage_result) state" where
  "http_serve E ui cfg n http_fd lfd tls_fd k =
     (if http_fd < 0 then return (Inl VISAGE_ERR)
      else do {
        r \<leftarrow> smtp_in_add_extra_fd http_fd;
        case r of
          Inl _ \<Rightarrow> return (Inl VISAGE_ERR)
        | Inr _ \<Rightarrow> smtp_in_main E ui cfg n lfd tls_fd k
      })"

end
