(* ===== verification/Smtp_Loop_Proofs.thy ===== *)
theory Smtp_Loop_Proofs
  imports Smtp_Loop Smtp_Session_Proofs Admin_Proofs "HOL-Library.Multiset"
begin

text \<open>
  Invariants of the running daemon, from start-up through any number of iterations of the event
  loop: the connection caps, the session invariant of every connection, and the consistency of
  the slot table of the admin server. The theory also shows that the loop sleeps no longer than
  the nearest deadline, and that reaping removes exactly the finished connections.
\<close>

section \<open>The connection table\<close>

definition conns_ok :: "('d, 'w) Env \<Rightarrow> Server \<Rightarrow> Conn list \<Rightarrow> bool" where
  "conns_ok E srv cs \<longleftrightarrow>
     length cs \<le> SMTP_IN_MAX_CONNS \<and>
     (\<forall>ip. count_peer_conns cs ip \<le> SMTP_IN_MAX_CONNS_PER_IP) \<and>
     (\<forall>c \<in> set cs. conn_inv E srv (c_real_ip c) True c)"

definition server_ok :: "('d, 'w) Env \<Rightarrow> Server \<Rightarrow> ('d, 'w) Sys \<Rightarrow> bool" where
  "server_ok E srv s \<longleftrightarrow> conns_ok E srv (s_conns s)"

abbreviation keep_srv :: "('d, 'w) Env \<Rightarrow> Server \<Rightarrow> (('d, 'w) Sys, 'r) state \<Rightarrow> bool" where
  "keep_srv E srv \<equiv> state_io_rel (keeps (server_ok E srv))"

lemma aloof_srv: "aloof m \<Longrightarrow> keep_srv E srv m"
  by (simp add: state_io_rel_def same_def keeps_def others_def server_ok_def)

lemma backend_srv: "backend m \<Longrightarrow> keep_srv E srv m"
  by (intro aloof_srv calm_local backend_calm)

lemma count_update:
  assumes "i < length cs" "c_real_ip c = c_real_ip (cs ! i)"
  shows "count_peer_conns (cs[i := c]) ip = count_peer_conns cs ip"
proof -
  have "map c_real_ip (cs[i := c]) = map c_real_ip cs"
    using assms by (simp add: map_update) (metis list_update_id map_update nth_map)
  then have "length (filter (\<lambda>x. x = ip) (map c_real_ip (cs[i := c]))) = length (filter (\<lambda>x. x = ip) (map c_real_ip cs))" by simp
  then show ?thesis by (simp add: count_peer_conns_def filter_map o_def)
qed

lemma conns_update:
  assumes "conns_ok E srv cs" "i < length cs" "conn_inv E srv (c_real_ip (cs ! i)) True c"
  shows "conns_ok E srv (cs[i := c])"
proof -
  have ip: "c_real_ip c = c_real_ip (cs ! i)" using assms(3) by (simp add: conn_inv_def peer_ok_def)
  then have "conn_inv E srv (c_real_ip x) True x" if "x \<in> set (cs[i := c])" for x
    using that assms set_update_subset_insert [of cs i c] by (auto simp: conns_ok_def)
  then show ?thesis using assms(1) count_update [OF assms(2) ip] by (simp add: conns_ok_def)
qed

text \<open>Serving one connection of the table keeps the whole table in order.\<close>

lemma with_conn_srv:
  fixes E :: "('d, 'w) Env" and m :: "(('d, 'w) Sys, unit) state"
  assumes "aloof m" "\<And>ip. keepc (conn_inv E srv ip True) m"
  shows "keep_srv E srv (with_conn i m)"
proof (rule keepsI)
  fix s :: "('d, 'w) Sys"
  let ?s1 = "s\<lparr>s_conn := s_conns s ! i\<rparr>"
  assume ok: "server_ok E srv s"
  have o: "s_conns (exec m ?s1) = s_conns s" using sameD [OF assms(1), of ?s1] by (simp add: others_def)
  have e: "s_conns (exec (with_conn i m) s) = (s_conns s)[i := s_conn (exec m ?s1)]" by (simp add: with_conn_def o)
  show "server_ok E srv (exec (with_conn i m) s)"
  proof (cases "i < length (s_conns s)")
    case True
    then have "conn_inv E srv (c_real_ip (s_conns s ! i)) True (s_conn ?s1)" using ok by (simp add: server_ok_def conns_ok_def)
    then have "conn_inv E srv (c_real_ip (s_conns s ! i)) True (s_conn (exec m ?s1))"
      by (rule keepcD [where P = "conn_inv E srv (c_real_ip (s_conns s ! i)) True", OF assms(2)])
    then show ?thesis using conns_update [OF _ True] ok by (simp add: server_ok_def e)
  next
    case False
    then show ?thesis using ok by (simp add: server_ok_def e list_update_beyond)
  qed
qed

lemma for_conns_srv:
  assumes "\<And>i. aloof (f i)" "\<And>i ip. keepc (conn_inv E srv ip True) (f i)"
  shows "keep_srv E srv (for_conns k f)"
  unfolding for_conns_def by (intro keeping.foldM_io with_conn_srv assms)

subsection \<open>Accepting\<close>

lemma new_conn_inv: "conn_inv E srv ip True (new_conn fd ip implicit now)"
  by (simp add: conn_inv_def session_ok_def output_ok_def peer_ok_def data_ok_def new_conn_def)

lemma greet_conn:
  fixes E :: "('d, 'w) Env"
  shows "aloof (conn_reply E (greeting cfg) \<bind> (\<lambda>_. upd_conn (\<lambda>c. c\<lparr>c_greeted := True\<rparr>)) :: (('d, 'w) Sys, unit) state)"
    "keepc (conn_inv E srv ip True) (conn_reply E (greeting cfg) \<bind> (\<lambda>_. upd_conn (\<lambda>c. c\<lparr>c_greeted := True\<rparr>)))"
  by (intro aloof_rules) (intro keeping.bind_io conn_reply_c short_text greeting_length upd_other_c, simp)

lemma add_conn_ok:
  assumes "conns_ok E srv cs" "length cs < SMTP_IN_MAX_CONNS" "ip = [] \<or> count_peer_conns cs ip < SMTP_IN_MAX_CONNS_PER_IP"
  shows "conns_ok E srv (cs @ [new_conn fd ip implicit now])"
proof -
  let ?c = "new_conn fd ip implicit now"
  have ip: "c_real_ip ?c = ip" by (simp add: new_conn_def)
  have "count_peer_conns (cs @ [?c]) i \<le> count_peer_conns cs i + (if i = ip \<and> ip \<noteq> [] then 1 else 0)" for i
    by (simp add: count_peer_conns_def ip)
  then have "count_peer_conns (cs @ [?c]) i \<le> SMTP_IN_MAX_CONNS_PER_IP" for i
    using assms(1,3) unfolding conns_ok_def by (smt (verit) Suc_leI add.right_neutral add_Suc_right le_trans One_nat_def)
  then show ?thesis using assms(1,2) new_conn_inv [of E srv ip fd implicit now] ip by (simp add: conns_ok_def)
qed

lemma accept_one_srv:
  fixes E :: "('d, 'w) Env"
  shows "keep_srv E srv (server_accept_one E srv implicit now a)"
proof (rule keepsI)
  fix s :: "('d, 'w) Sys"
  obtain fd ip where a: "a = (fd, ip)" by (cases a)
  let ?s1 = "s\<lparr>s_conns := s_conns s @ [new_conn fd ip implicit now]\<rparr>"
  assume ok: "server_ok E srv s"
  show "server_ok E srv (exec (server_accept_one E srv implicit now a) s)"
  proof (cases "length (s_conns s) \<ge> SMTP_IN_MAX_CONNS \<or> (ip \<noteq> [] \<and> count_peer_conns (s_conns s) ip \<ge> SMTP_IN_MAX_CONNS_PER_IP)")
    case True
    then show ?thesis using ok by (auto simp: server_accept_one_def a server_ok_def Let_def)
  next
    case False
    then have "server_ok E srv ?s1" using add_conn_ok [of E srv "s_conns s" ip] ok by (auto simp: server_ok_def)
    moreover from keepsD [OF with_conn_srv [OF greet_conn(1) greet_conn(2)] this]
    have "server_ok E srv (exec (with_conn (length (s_conns s)) (do {
            conn_reply E (greeting (s_cfg srv)); upd_conn (\<lambda>c. c\<lparr>c_greeted := True\<rparr>) })) ?s1)" .
    ultimately show ?thesis using False by (cases implicit) (auto simp: server_accept_one_def a Let_def)
  qed
qed

lemma accept_srv: "keep_srv E srv (server_accept E srv lsn now)"
  unfolding server_accept_def by (intro keeping.bind_io keeping.foldM_io accept_one_srv backend_srv on_world_b)

subsection \<open>Idle connections and dispatch\<close>

lemma idle_conn:
  "aloof (conn_idle E srv now)" "keepc (conn_inv E srv ip True) (conn_idle E srv now)"
proof -
  have "aloof drop_conn" "aloof close_conn" by (simp_all add: drop_conn_def close_conn_def upd_local)
  then show "aloof (conn_idle E srv now)" unfolding conn_idle_def by (intro aloof_rules)
  show "keepc (conn_inv E srv ip True) (conn_idle E srv now)"
    unfolding conn_idle_def by (intro conn_rules conn_reply_c drop_c close_c short_text) simp
qed

lemma idle_sweep_srv: "keep_srv E srv (idle_sweep E srv now)"
  unfolding idle_sweep_def by (intro keeping.control_io for_conns_srv idle_conn)

lemma dispatch_conn:
  "aloof (conn_dispatch E srv n now rv)" "keepc (conn_inv E srv ip True) (conn_dispatch E srv n now rv)"
  unfolding conn_dispatch_def
  by (intro aloof_rules session_aloof) (intro conn_rules flush_c session_steps)

lemma sweeps_srv: "keep_srv E srv (sweeps E srv now)"
proof -
  have "keep_srv E srv (modify (\<lambda>s. s\<lparr>s_next_revmap_sweep := t\<rparr>))" "keep_srv E srv (modify (\<lambda>s. s\<lparr>s_next_spool_sweep := t\<rparr>))" for t
    by (rule keepsI, simp add: server_ok_def)+
  then show ?thesis unfolding sweeps_def
    by (intro keeping.control_io on_store_b [THEN backend_srv] spool_gc_b [THEN backend_srv])
qed

lemma startup_srv: "keep_srv E srv (startup E srv)"
  unfolding startup_def by (intro backend_srv backend_rules time32_b spool_gc_b redrive_b)

subsection \<open>Reaping\<close>

lemma butlast_update_mset:
  assumes "i < length cs"
  shows "mset (butlast (cs[i := last cs])) + {#cs ! i#} = mset cs"
proof -
  have ne: "cs \<noteq> []" using assms by auto
  have u: "cs[i := last cs] \<noteq> []" "last (cs[i := last cs]) = last cs"
    using ne assms by (auto simp: last_list_update)
  have "mset (butlast (cs[i := last cs])) + {#last cs#} = mset (cs[i := last cs])"
    by (metis add_mset_add_single append_butlast_last_id mset_append mset_single_iff_right u mset.simps(1) mset.simps(2) union_commute)
  also have "\<dots> = mset cs - {#cs ! i#} + {#last cs#}" using mset_update [OF assms] by simp
  finally have "mset (butlast (cs[i := last cs])) = mset cs - {#cs ! i#}" by simp
  then show ?thesis using assms by (simp add: insert_DiffM2)
qed

lemma reap_mset:
  "mset (reap i cs) = mset (take i cs) + filter_mset (\<lambda>c. \<not> conn_done c) (mset (drop i cs))"
proof (induction i cs rule: reap.induct)
  case (1 i cs)
  show ?case
  proof (cases "i < length cs")
    case False
    then show ?thesis by (simp add: reap.simps)
  next
    case i: True
    let ?b = "butlast (cs[i := last cs])"
    show ?thesis
    proof (cases "conn_done (cs ! i)")
      case True
      have t: "take i ?b = take i cs" using i by (simp add: take_butlast)
      have "mset (take i ?b) + mset (drop i ?b) + {#cs ! i#} = mset (take i cs) + mset (drop i cs)"
        using butlast_update_mset [OF i] by (metis append_take_drop_id mset_append)
      then have "mset (drop i ?b) + {#cs ! i#} = mset (drop i cs)" unfolding t by (simp add: add.assoc)
      then have "filter_mset (\<lambda>c. \<not> conn_done c) (mset (drop i ?b)) = filter_mset (\<lambda>c. \<not> conn_done c) (mset (drop i cs))"
        using True by (metis (no_types, lifting) add.right_neutral filter_empty_mset filter_single_mset filter_union_mset)
      then show ?thesis using 1(1) i True t by (simp add: reap.simps [of i cs])
    next
      case False
      have "mset (drop i cs) = add_mset (cs ! i) (mset (drop (Suc i) cs))" using i by (simp add: Cons_nth_drop_Suc [symmetric])
      then show ?thesis using 1(2) i False by (simp add: reap.simps [of i cs] take_Suc_conv_app_nth)
    qed
  qed
qed

lemma reap_ok:
  assumes "conns_ok E srv cs"
  shows "conns_ok E srv (reap 0 cs)"
proof -
  have m: "mset (reap 0 cs) = filter_mset (\<lambda>c. \<not> conn_done c) (mset cs)" using reap_mset [of 0 cs] by simp
  then have sub: "mset (reap 0 cs) \<subseteq># mset cs" by simp
  have "length (filter P (reap 0 cs)) \<le> length (filter P cs)" for P
    using size_mset_mono [OF multiset_filter_mono [OF sub, of P]] by (simp flip: mset_filter)
  then have "count_peer_conns (reap 0 cs) ip \<le> count_peer_conns cs ip" for ip by (simp add: count_peer_conns_def)
  moreover have "length (reap 0 cs) \<le> length cs" using size_mset_mono [OF sub] by simp
  moreover have "set (reap 0 cs) \<subseteq> set cs" using set_mset_mono [OF sub] by simp
  ultimately show ?thesis using assms unfolding conns_ok_def by (meson le_trans subsetD)
qed

section \<open>The daemon\<close>

context state_preorder
begin

lemma flush_end_io:
  "state_io_rel R f \<Longrightarrow> (\<And>i. state_io_rel R (g i)) \<Longrightarrow> state_io_rel R h \<Longrightarrow>
   state_io_rel R (case r of Flush_done \<Rightarrow> f | Flush_blocked i \<Rightarrow> g i | Flush_dead \<Rightarrow> h)"
  by (cases r) auto

lemma polled_io:
  "(\<And>rs. state_io_rel R (f rs)) \<Longrightarrow> state_io_rel R g \<Longrightarrow> state_io_rel R h \<Longrightarrow>
   state_io_rel R (case r of Poll_ready rs \<Rightarrow> f rs | Poll_interrupted \<Rightarrow> g | Poll_failed \<Rightarrow> h)"
  by (cases r) auto

lemma verdict_io:
  "state_io_rel R f \<Longrightarrow> state_io_rel R g \<Longrightarrow> state_io_rel R h \<Longrightarrow>
   state_io_rel R (case r of HTTP_PARSE_NEED_MORE \<Rightarrow> f | HTTP_PARSE_DONE \<Rightarrow> g | HTTP_PARSE_ERR \<Rightarrow> h)"
  by (cases r) auto

lemmas daemon_io = control_io flush_end_io polled_io verdict_io

end

subsection \<open>Requests leave the connections alone\<close>

lemma queue_counts_b: "backend (queue_counts E sts)"
proof (induction sts)
  case (Cons st sts)
  show ?case unfolding queue_counts.simps by (intro backend_rules Cons)
qed (simp add: same.return_io)

lemma admin_b: "backend (admin_build_response E ui cfg req he)"
  unfolding admin_build_response_def admin_dispatch_def handle_aliases_def handle_status_def handle_log_def handle_alias_def
    handle_replay_def replay_one_def
  by (intro backend_rules queue_counts_b)

abbreviation keep_daemon :: "('d, 'w) Env \<Rightarrow> Server \<Rightarrow> (('d, 'w) Daemon, 'r) state \<Rightarrow> bool" where
  "keep_daemon E srv \<equiv> state_io_rel (keeps (\<lambda>d. server_ok E srv (d_sys d)))"

lemma on_sys_daemon: "keep_srv E srv m \<Longrightarrow> keep_daemon E srv (on_sys m)"
  by (simp add: state_io_rel_def keeps_def)

lemma slot_daemon: "keep_daemon E srv (upd_slot i f)"
  by (rule keepsI) (simp add: upd_slot_def)

lemmas daemon_rules = keeping.daemon_io slot_daemon on_world_b [THEN backend_srv, THEN on_sys_daemon]
  on_store_b [THEN backend_srv, THEN on_sys_daemon] admin_b [THEN backend_srv, THEN on_sys_daemon]

lemmas http_defs = smtp_in_register_http_conn_def smtp_in_http_set_events_def smtp_in_http_close_def http_conn_free_def
  http_conn_put_def http_try_flush_def http_send_def http_respond_def http_respond_err_def handle_request_def http_process_def
  http_conn_on_readable_def http_conn_on_writable_def http_conn_on_closed_def http_slot_idle_close_def http_accept_one_def http_accept_def

lemma http_daemon:
  "keep_daemon E srv (http_idle now i)" "keep_daemon E srv (http_accept E)" "keep_daemon E srv (http_dispatch E ui cfg now i rv)"
  unfolding http_idle_def http_dispatch_def http_defs by (intro daemon_rules)+

lemma reap_daemon: "keep_srv E srv (modify (\<lambda>s. s\<lparr>s_conns := reap 0 (s_conns s)\<rparr>))"
  by (rule keepsI) (simp add: server_ok_def reap_ok)

lemma round_daemon: "keep_daemon E srv (server_round E ui srv n lfd tls_fd)"
  unfolding server_round_def dispatch_all_def poll_timeout_ms_def
  by (intro daemon_rules http_daemon on_sys_daemon accept_srv for_conns_srv dispatch_conn idle_sweep_srv sweeps_srv
      redrive_b [THEN backend_srv] reap_daemon)

lemma poll_daemon: "keep_daemon E srv (server_poll E ui srv n lfd tls_fd k)"
proof (induction k)
  case (Suc k)
  show ?case unfolding server_poll.simps by (intro daemon_rules round_daemon Suc)
qed (simp add: keeping.return_io)

lemma main_daemon:
  "server_ok E (server_init cfg) (d_sys d) \<Longrightarrow> server_ok E (server_init cfg) (d_sys (exec (smtp_in_main E ui cfg n lfd tls_fd k) d))"
proof -
  have "keep_daemon E (server_init cfg) (smtp_in_main E ui cfg n lfd tls_fd k)"
    unfolding smtp_in_main_def by (intro daemon_rules on_sys_daemon startup_srv poll_daemon)
  then show "server_ok E (server_init cfg) (d_sys d) \<Longrightarrow> server_ok E (server_init cfg) (d_sys (exec (smtp_in_main E ui cfg n lfd tls_fd k) d))"
    by (rule keepsD)
qed

lemma boot_ok: "server_ok E srv (d_sys (boot st w extra now))"
  by (simp add: boot_def server_ok_def conns_ok_def count_peer_conns_def)


text \<open>
  C9. Every session is sound at all times. In every state the daemon reaches, every connection
  satisfies the session invariant: a transaction that has been begun has a sender that is clean (no
  control character, angle bracket or quote) and, once DATA was accepted, at least one recipient; after HELO, RSET or a
  delivery nothing of an earlier transaction is left; every recipient is a clean, parsable
  address and there are no more of them than the configured limit; the reply backlog and the
  message text are within their bounds; the resume position of the end-of-data scan gives the answer
  of a full scan; and the peer address that feeds SPF is the TCP peer's unless that peer is a trusted proxy.
\<close>

theorem session_invariant:
  "\<forall>c. c \<in> set (s_conns (d_sys (exec (smtp_in_main E ui cfg n lfd tls_fd k) (boot st w extra now)))) \<longrightarrow>
     conn_inv E (server_init cfg) (c_real_ip c) True c"
  using main_daemon [OF boot_ok, of E cfg ui n lfd tls_fd k st w extra now] by (simp add: server_ok_def conns_ok_def)

text \<open>A world in which one client connects.\<close>

definition one_client :: "(ref_db, ref_world) Env" where
  "one_client = ref_env\<lparr>os_accept := \<lambda>lsn w. (if lsn = L_smtp then [(5, [CHR 0x0A, NUL, NUL, CHR 0x01])] else [], w)\<rparr>"

definition no_ui :: AdminUi where
  "no_ui = \<lparr>ui_index_html = [], ui_app_js = [], ui_style_css = []\<rparr>"

theorem session_invariant_witness:
  "\<exists>c. s_conns (d_sys (exec (smtp_in_main one_client no_ui ref_cfg 4 3 4 1)
       (boot ref_store (s_world (ref_sys ref_store SMTP_OK)) [] 0))) = [c]
     \<and> conn_inv one_client (server_init ref_cfg) (c_real_ip c) True c"
proof -
  let ?cs = "s_conns (d_sys (exec (smtp_in_main one_client no_ui ref_cfg 4 3 4 1) (boot ref_store (s_world (ref_sys ref_store SMTP_OK)) [] 0)))"
  have "length ?cs = 1" by code_simp
  then obtain c where c: "?cs = [c]" by (auto simp: length_Suc_conv)
  then have "c \<in> set ?cs" by simp
  from session_invariant [rule_format, OF this] c show ?thesis by blast
qed

section \<open>The slot table of the admin server\<close>

text \<open>
  A used slot owns a connection that points back to it, whose request buffer is within bounds, and
  which waits for exactly what it needs next: more input while the request is incomplete,
  room in the socket while response bytes are left.
\<close>

definition slot_ok :: "nat \<Rightarrow> HttpSlot \<Rightarrow> bool" where
  "slot_ok i h \<longleftrightarrow> (hs_used h \<longrightarrow>
     (\<exists>c. hs_user h = Some c \<and> hc_handle c = int i \<and> hc_fd c = hs_fd h \<and> length (hc_recv c) \<le> HTTP_MAX_REQ \<and>
        (hc_state c = HTTP_ST_RECV \<and> hs_events h = POLLIN \<or>
         hc_state c = HTTP_ST_RESPOND \<and> hs_events h = POLLOUT \<and> hc_resp_off c < length (hc_resp c))))"

definition slots_ok :: "('d, 'w) Daemon \<Rightarrow> bool" where
  "slots_ok d \<longleftrightarrow> length (d_http d) = SMTP_IN_MAX_HTTP \<and> (\<forall>i < SMTP_IN_MAX_HTTP. slot_ok i (d_http d ! i))"

text \<open>\<open>recv\<close> returns at most as many bytes as it was asked for.\<close>

definition recv_bounded :: "('d, 'w) Env \<Rightarrow> bool" where
  "recv_bounded E \<longleftrightarrow> (\<forall>fd len w b w'. os_recv E fd len w = (Inr b, w') \<longrightarrow> length b \<le> len)"

abbreviation keep_slots :: "(('d, 'w) Daemon, 'r) state \<Rightarrow> bool" where
  "keep_slots \<equiv> state_io_rel (keeps slots_ok)"

lemma on_sys_slots: "keep_slots (on_sys m)"
  by (rule keepsI) (simp add: slots_ok_def)

lemma nth_update: "xs[i := x] ! j = (if i = j \<and> i < length xs then x else xs ! j)"
  by (cases "i < length xs") (simp_all add: nth_list_update list_update_beyond)

lemma slots_update: "slots_ok d \<Longrightarrow> slot_ok i h \<Longrightarrow> slots_ok (d\<lparr>d_http := (d_http d)[i := h]\<rparr>)"
  by (simp add: slots_ok_def nth_update)

lemma slots_touch: "slots_ok d \<Longrightarrow> slots_ok (d\<lparr>d_http := (d_http d)[i := (d_http d ! i)\<lparr>hs_last_act := t\<rparr>]\<rparr>)"
  by (simp add: slots_ok_def nth_update) (simp add: slot_ok_def)

lemma free_slot_Some: "free_slot j hs = Some i \<Longrightarrow> j \<le> i \<and> i < j + length hs \<and> \<not> hs_used (hs ! (i - j))"
  by (induction j hs rule: free_slot.induct) (auto split: if_splits simp: nth_Cons' )

text \<open>A connection that a handler works on: it owns its slot.\<close>

definition owns :: "('d, 'w) Daemon \<Rightarrow> HttpConn \<Rightarrow> bool" where
  "owns d c \<longleftrightarrow> slots_ok d \<and> 0 \<le> hc_handle c \<and> hc_handle c < int SMTP_IN_MAX_HTTP \<and>
     hs_used (d_http d ! nat (hc_handle c)) \<and> hs_fd (d_http d ! nat (hc_handle c)) = hc_fd c \<and>
     length (hc_recv c) \<le> HTTP_MAX_REQ"

lemma closed_slot: "slot_ok i (h\<lparr>hs_used := False, hs_fd := f, hs_events := e, hs_user := u\<rparr>)"
  by (simp add: slot_ok_def)

lemma free_slots: "owns d c \<Longrightarrow> slots_ok (exec (http_conn_free c) d)"
  by (simp add: http_conn_free_def smtp_in_http_close_def upd_slot_def owns_def slots_update closed_slot)

lemma put_slots:
  "slots_ok d \<Longrightarrow> slot_ok (nat (hc_handle c)) ((d_http d ! nat (hc_handle c))\<lparr>hs_user := Some c\<rparr>) \<Longrightarrow> slots_ok (exec (http_conn_put c) d)"
  by (simp add: http_conn_put_def upd_slot_def slots_update)

lemma put_recv_slots:
  assumes "owns d c" "hc_state c = HTTP_ST_RECV" "hs_events (d_http d ! nat (hc_handle c)) = POLLIN"
  shows "slots_ok (exec (http_conn_put c) d)"
  using assms by (intro put_slots) (auto simp: slot_ok_def owns_def)

text \<open>Flushing: the events of the slot are already those of a response.\<close>

lemma flush_slots:
  fixes E :: "('d, 'w) Env"
  assumes "owns d c" "hc_state c = HTTP_ST_RESPOND" "hs_events (d_http d ! nat (hc_handle c)) = POLLOUT"
  shows "slots_ok (exec (http_try_flush E c) d)"
proof -
  let ?f = "flush_loop (os_send E (hc_fd c)) (hc_resp c) (hc_resp_off c)"
  let ?d1 = "exec (on_sys (on_world ?f :: (('d, 'w) Sys, flush_end) state)) d"
  have o: "owns ?d1 c" using assms(1) by (simp add: owns_def slots_ok_def)
  obtain r w where r: "?f (s_world (d_sys d)) = (r, w)" by (cases "?f (s_world (d_sys d))")
  show ?thesis
  proof (cases r)
    case (Flush_blocked i)
    then have "i < length (hc_resp c)" using flush_blocked [of "os_send E (hc_fd c)" "hc_resp c" "hc_resp_off c" "s_world (d_sys d)" i w] r by simp
    then have "slot_ok (nat (hc_handle c)) ((d_http d ! nat (hc_handle c))\<lparr>hs_user := Some (c\<lparr>hc_resp_off := i\<rparr>)\<rparr>)"
      using assms unfolding slot_ok_def owns_def by simp
    then have "slots_ok (exec (http_conn_put (c\<lparr>hc_resp_off := i\<rparr>)) ?d1)"
      using o by (intro put_slots) (simp_all add: owns_def)
    then show ?thesis using r Flush_blocked by (simp add: http_try_flush_def)
  qed (use free_slots [OF o] r in \<open>simp_all add: http_try_flush_def\<close>)
qed

lemma send_slots:
  assumes "owns d c" "hc_state c = HTTP_ST_RESPOND"
  shows "slots_ok (exec (http_send E c) d)"
proof -
  let ?i = "nat (hc_handle c)"
  let ?d1 = "d\<lparr>d_http := (d_http d)[?i := (d_http d ! ?i)\<lparr>hs_events := POLLOUT\<rparr>]\<rparr>"
  have i: "?i < SMTP_IN_MAX_HTTP" "length (d_http d) = SMTP_IN_MAX_HTTP"
    using assms(1) by (simp_all add: owns_def slots_ok_def nat_less_iff)
  have e: "exec (http_send E c) d = exec (http_try_flush E c) ?d1"
    using assms(1) by (simp add: http_send_def smtp_in_http_set_events_def upd_slot_def owns_def)
  txt \<open>Between arming the slot and flushing, only this slot is out of order.\<close>
  let ?f = "flush_loop (os_send E (hc_fd c)) (hc_resp c) (hc_resp_off c)"
  obtain r w where r: "?f (s_world (d_sys d)) = (r, w)" by (cases "?f (s_world (d_sys d))")
  have others: "slots_ok (?d1\<lparr>d_sys := s, d_http := (d_http ?d1)[?i := h]\<rparr>)" if "slot_ok ?i h" for s h
    using assms(1) that by (simp add: owns_def slots_ok_def nth_update)
  show ?thesis
  proof (cases r)
    case (Flush_blocked j)
    then have "j < length (hc_resp c)" using flush_blocked [of "os_send E (hc_fd c)" "hc_resp c" "hc_resp_off c" "s_world (d_sys d)" j w] r by simp
    then have "slot_ok ?i ((d_http ?d1 ! ?i)\<lparr>hs_user := Some (c\<lparr>hc_resp_off := j\<rparr>)\<rparr>)"
      using assms i unfolding slot_ok_def owns_def by simp
    then show ?thesis unfolding e using others r Flush_blocked by (simp add: http_try_flush_def http_conn_put_def upd_slot_def)
  qed (use others [OF closed_slot] r assms(1) in
      \<open>simp_all add: e http_try_flush_def http_conn_free_def smtp_in_http_close_def upd_slot_def owns_def\<close>)
qed

lemma owns_update: "owns d c \<Longrightarrow> hc_handle c' = hc_handle c \<Longrightarrow> hc_fd c' = hc_fd c \<Longrightarrow> length (hc_recv c') \<le> HTTP_MAX_REQ \<Longrightarrow> owns d c'"
  by (simp add: owns_def)

lemma owns_sys: "owns d c \<Longrightarrow> owns (d\<lparr>d_sys := s\<rparr>) c"
  by (simp add: owns_def slots_ok_def)

lemma set_buf: "hc_state (http_set_response_buf c b) = HTTP_ST_RESPOND" "hc_handle (http_set_response_buf c b) = hc_handle c"
  "hc_fd (http_set_response_buf c b) = hc_fd c" "hc_recv (http_set_response_buf c b) = hc_recv c"
  by (simp_all add: http_set_response_buf_def)

lemma buf_slots: "owns d c \<Longrightarrow> slots_ok (exec (http_send E (http_set_response_buf c b)) d)"
  by (rule send_slots [OF owns_update]) (simp_all add: set_buf owns_def)

lemma err_slots: "owns d c \<Longrightarrow> slots_ok (exec (http_respond_err E c st rs msg) d)"
  unfolding http_respond_err_def http_respond_def http_set_response_def by (rule buf_slots)

lemma request_slots: "owns d c \<Longrightarrow> slots_ok (exec (handle_request E ui cfg c) d)"
  by (auto simp: handle_request_def err_slots buf_slots owns_sys split: sum.split)

lemma process_slots:
  assumes "owns d c" "hc_state c = HTTP_ST_RECV" "hs_events (d_http d ! nat (hc_handle c)) = POLLIN"
  shows "slots_ok (exec (http_process E ui cfg c) d)"
proof -
  obtain r en where r: "http_parse_probe (hc_recv c) HTTP_MAX_REQ = (r, en)" by (cases "http_parse_probe (hc_recv c) HTTP_MAX_REQ")
  obtain he bl where e: "(case en of None \<Rightarrow> (nat SIZE_MAX, 0) | Some e \<Rightarrow> e) = (he, bl)" by (cases "case en of None \<Rightarrow> (nat SIZE_MAX, 0) | Some e \<Rightarrow> e")
  have "slots_ok (exec (handle_request E ui cfg (c\<lparr>hc_header_end := he, hc_body_len := bl\<rparr>)) d)"
    by (rule request_slots [OF owns_update [OF assms(1)]]) (use assms(1) in \<open>simp_all add: owns_def\<close>)
  then show ?thesis using err_slots [OF assms(1)] put_recv_slots [OF assms] r e by (cases r) (simp_all add: http_process_def)
qed

lemma readable_slots:
  assumes "recv_bounded E" "owns d c" "hc_state c = HTTP_ST_RECV \<Longrightarrow> hs_events (d_http d ! nat (hc_handle c)) = POLLIN"
  shows "slots_ok (exec (http_conn_on_readable E ui cfg c) d)"
proof (cases "hc_state c \<noteq> HTTP_ST_RECV \<or> length (hc_recv c) \<ge> HTTP_MAX_REQ")
  case True
  then show ?thesis using assms(2) err_slots [OF assms(2)] by (auto simp: http_conn_on_readable_def owns_def)
next
  case False
  let ?want = "if HTTP_MAX_REQ - length (hc_recv c) < HTTP_RECV_CHUNK then HTTP_MAX_REQ - length (hc_recv c) else HTTP_RECV_CHUNK"
  obtain r w where r: "os_recv E (hc_fd c) ?want (s_world (d_sys d)) = (r, w)" by (cases "os_recv E (hc_fd c) ?want (s_world (d_sys d))")
  let ?d1 = "d\<lparr>d_sys := (d_sys d)\<lparr>s_world := w\<rparr>\<rparr>"
  have o: "owns ?d1 c" by (rule owns_sys [OF assms(2)])
  have e: "exec (http_conn_on_readable E ui cfg c) d = exec (case r of
          Inl e \<Rightarrow> if e = Would_block then return () else http_conn_free c
        | Inr bytes \<Rightarrow> if bytes = [] then http_conn_free c else http_process E ui cfg (c\<lparr>hc_recv := hc_recv c @ bytes\<rparr>)) ?d1"
    using False r by (simp add: http_conn_on_readable_def)
  show ?thesis
  proof (cases r)
    case (Inl x)
    then show ?thesis unfolding e using free_slots [OF o] o by (simp add: owns_def)
  next
    case (Inr bytes)
    let ?c = "c\<lparr>hc_recv := hc_recv c @ bytes\<rparr>"
    have "length bytes \<le> ?want" using assms(1) r Inr unfolding recv_bounded_def by blast
    then have "owns ?d1 ?c" using o False by (intro owns_update [OF o]) (auto split: if_splits)
    then have "slots_ok (exec (http_process E ui cfg ?c) ?d1)" using assms(3) False by (intro process_slots) auto
    then show ?thesis unfolding e using Inr free_slots [OF o] by simp
  qed
qed

lemma writable_slots:
  assumes "owns d c" "hc_state c = HTTP_ST_RESPOND \<Longrightarrow> hs_events (d_http d ! nat (hc_handle c)) = POLLOUT"
  shows "slots_ok (exec (http_conn_on_writable E c) d)"
  using flush_slots [OF assms(1)] assms by (auto simp: http_conn_on_writable_def owns_def)

text \<open>A used slot of a table in order, with its activity clock set: the handler finds its own connection.\<close>

lemma slot_user:
  assumes "slots_ok d" "i < SMTP_IN_MAX_HTTP" "hs_used (d_http d ! i)"
  obtains c where "hs_user (d_http d ! i) = Some c"
    "owns (d\<lparr>d_http := (d_http d)[i := (d_http d ! i)\<lparr>hs_last_act := t\<rparr>]\<rparr>) c" "nat (hc_handle c) = i"
    "hc_state c = HTTP_ST_RECV \<and> hs_events (d_http d ! i) = POLLIN \<or> hc_state c = HTTP_ST_RESPOND \<and> hs_events (d_http d ! i) = POLLOUT"
proof -
  obtain c where c: "hs_user (d_http d ! i) = Some c" "hc_handle c = int i" "hc_fd c = hs_fd (d_http d ! i)" "length (hc_recv c) \<le> HTTP_MAX_REQ"
    "hc_state c = HTTP_ST_RECV \<and> hs_events (d_http d ! i) = POLLIN \<or> hc_state c = HTTP_ST_RESPOND \<and> hs_events (d_http d ! i) = POLLOUT"
    using assms unfolding slots_ok_def slot_ok_def by blast
  moreover have "owns (d\<lparr>d_http := (d_http d)[i := (d_http d ! i)\<lparr>hs_last_act := t\<rparr>]\<rparr>) c"
    using slots_touch [OF assms(1)] assms c by (simp add: owns_def) (simp add: slots_ok_def)
  ultimately show ?thesis using that by simp
qed

lemma dispatch_slots:
  fixes E :: "('d, 'w) Env"
  assumes "recv_bounded E" "i < SMTP_IN_MAX_HTTP"
  shows "keep_slots (http_dispatch E ui cfg now i rv)"
proof (rule keepsI)
  fix d :: "('d, 'w) Daemon"
  assume ok: "slots_ok d"
  let ?t = "\<lambda>d. d\<lparr>d_http := (d_http d)[i := (d_http d ! i)\<lparr>hs_last_act := now\<rparr>]\<rparr>"
  show "slots_ok (exec (http_dispatch E ui cfg now i rv) d)"
  proof (cases "hs_used (d_http d ! i)")
    case used: True
    obtain c where c: "hs_user (d_http d ! i) = Some c" "owns (?t d) c" "nat (hc_handle c) = i"
      "hc_state c = HTTP_ST_RECV \<and> hs_events (d_http d ! i) = POLLIN \<or> hc_state c = HTTP_ST_RESPOND \<and> hs_events (d_http d ! i) = POLLOUT"
      using slot_user [OF ok assms(2) used] by metis
    have li: "i < length (d_http d)" using ok assms(2) by (simp add: slots_ok_def)
    have "slots_ok (exec (http_conn_on_readable E ui cfg c) (?t d))"
      using c li by (intro readable_slots [OF assms(1) c(2)]) auto
    then obtain d1 where d1: "slots_ok d1" "exec (http_dispatch E ui cfg now i rv) d = exec (do {
        hs \<leftarrow> gets d_http;
        whenM (hs_used (hs ! i) \<and> bits rv POLLOUT) (do {
          upd_slot i (\<lambda>h. h\<lparr>hs_last_act := now\<rparr>);
          case hs_user (hs ! i) of None \<Rightarrow> return () | Some c \<Rightarrow> http_conn_on_writable E c
        }) }) d1"
      using ok used c(1) by (cases "bits rv (POLLIN OR POLLHUP OR POLLERR)") (auto simp: http_dispatch_def upd_slot_def)
    show ?thesis
    proof (cases "hs_used (d_http d1 ! i)")
      case True
      obtain c' where c': "hs_user (d_http d1 ! i) = Some c'" "owns (?t d1) c'" "nat (hc_handle c') = i"
        "hc_state c' = HTTP_ST_RECV \<and> hs_events (d_http d1 ! i) = POLLIN \<or> hc_state c' = HTTP_ST_RESPOND \<and> hs_events (d_http d1 ! i) = POLLOUT"
        using slot_user [OF d1(1) assms(2) True] by metis
      have "i < length (d_http d1)" using d1(1) assms(2) by (simp add: slots_ok_def)
      then have "slots_ok (exec (http_conn_on_writable E c') (?t d1))" using c' by (intro writable_slots [OF c'(2)]) auto
      then show ?thesis using d1 c'(1) by (auto simp: upd_slot_def)
    next
      case False
      then show ?thesis using d1 by simp
    qed
  qed (use ok in \<open>simp add: http_dispatch_def\<close>)
qed

lemma idle_slots:
  fixes now :: int
  assumes "i < SMTP_IN_MAX_HTTP"
  shows "keep_slots (http_idle now i :: (('d, 'w) Daemon, unit) state)"
proof (rule keepsI)
  fix d :: "('d, 'w) Daemon"
  assume ok: "slots_ok d"
  have close: "slots_ok (exec (smtp_in_http_close h) d')" if "slots_ok d'" for h and d' :: "('d, 'w) Daemon"
    using that by (simp add: smtp_in_http_close_def upd_slot_def slots_update closed_slot)
  then have "slots_ok (exec (http_conn_on_closed c) d')" if "slots_ok d'" for c and d' :: "('d, 'w) Daemon"
    using that by (simp add: http_conn_on_closed_def http_conn_free_def)
  then show "slots_ok (exec (http_idle now i) d)"
    using ok close by (auto simp: http_idle_def http_slot_idle_close_def split: option.split)
qed

lemma accept_slots:
  fixes E :: "('d, 'w) Env"
  shows "keep_slots (http_accept_one E cfd)"
proof (rule keepsI)
  fix d :: "('d, 'w) Daemon"
  assume ok: "slots_ok d"
  show "slots_ok (exec (http_accept_one E cfd) d)"
  proof (cases "cfd < 0 \<or> free_slot 0 (d_http d) = None")
    case True
    then show ?thesis using ok by (auto simp: http_accept_one_def smtp_in_register_http_conn_def slots_ok_def)
  next
    case False
    then obtain i where i: "free_slot 0 (d_http d) = Some i" "0 \<le> cfd" by auto
    then have "i < length (d_http d)" using free_slot_Some by fastforce
    then have "exec (http_accept_one E cfd) d = d\<lparr>d_sys := exec (on_world (os_time E)) (d_sys d), d_http := (d_http d)[i :=
        \<lparr>hs_used = True, hs_fd = cfd, hs_events = POLLIN, hs_idle = 5, hs_last_act = eval (on_world (os_time E)) (d_sys d),
         hs_user = Some \<lparr>hc_fd = cfd, hc_handle = int i, hc_recv = [], hc_header_end = 0, hc_body_len = 0, hc_state = HTTP_ST_RECV,
              hc_resp = [], hc_resp_off = 0\<rparr>\<rparr>]\<rparr>"
      using i by (simp add: http_accept_one_def smtp_in_register_http_conn_def http_conn_put_def upd_slot_def)
    moreover have "slots_ok (d\<lparr>d_sys := s, d_http := (d_http d)[i := h]\<rparr>)" if "slot_ok i h" for s h
      using ok that by (simp add: slots_ok_def nth_update)
    ultimately show ?thesis by (simp add: slot_ok_def)
  qed
qed

lemma round_slots:
  fixes E :: "('d, 'w) Env"
  assumes "recv_bounded E"
  shows "keep_slots (server_round E ui srv n lfd tls_fd)"
proof -
  have "keep_slots (http_accept E)" unfolding http_accept_def by (intro keeping.daemon_io accept_slots on_sys_slots)
  then have d: "keep_slots (dispatch_all E ui srv n now revs)" for now revs
    unfolding dispatch_all_def by (intro keeping.daemon_io on_sys_slots dispatch_slots [OF assms]) auto
  show ?thesis unfolding server_round_def poll_timeout_ms_def by (intro keeping.daemon_io on_sys_slots idle_slots d) auto
qed

lemma poll_slots: "recv_bounded E \<Longrightarrow> keep_slots (server_poll E ui srv n lfd tls_fd k)"
proof (induction k)
  case (Suc k)
  then show ?case unfolding server_poll.simps by (intro keeping.daemon_io round_slots)
qed (simp add: keeping.return_io)

text \<open>
  C24. No admin connection is lost or left waiting for the wrong event. In every state the daemon
  reaches, each used slot of the table holds a connection that points back to that slot, whose
  request is within the buffer, and which polls for input exactly while its request is incomplete
  and for output exactly while bytes of its response remain; so a slot can neither leak nor
  hang without a deadline, and two connections never share one.
\<close>

theorem http_slots_consistent:
  assumes "recv_bounded E" "i < 32"
  shows "slot_ok i (d_http (exec (smtp_in_main E ui cfg n lfd tls_fd k) (boot st w extra now)) ! i)"
proof -
  have "keep_slots (smtp_in_main E ui cfg n lfd tls_fd k)"
    unfolding smtp_in_main_def by (intro keeping.daemon_io on_sys_slots poll_slots assms(1))
  moreover have "slots_ok (boot st w extra now)" by (simp add: boot_def slots_ok_def slot_ok_def empty_slot_def)
  ultimately have "slots_ok (exec (smtp_in_main E ui cfg n lfd tls_fd k) (boot st w extra now))" by (rule keepsD)
  then show ?thesis using assms(2) by (simp add: slots_ok_def SMTP_IN_MAX_HTTP_def)
qed

text \<open>A world in which an admin client connects.\<close>

definition admin_client :: "(ref_db, ref_world) Env" where
  "admin_client = ref_env\<lparr>os_accept := \<lambda>lsn w. (if lsn = L_admin then [(6, [])] else [], w), os_recv := \<lambda>fd len w. (Inl Would_block, w)\<rparr>"

theorem http_slots_consistent_witness:
  "let h = d_http (exec (smtp_in_main admin_client no_ui ref_cfg 4 3 4 1) (boot ref_store (s_world (ref_sys ref_store SMTP_OK)) [9] 0)) ! 0 in
   hs_used h \<and> slot_ok 0 h"
proof -
  have "recv_bounded admin_client" by (simp add: recv_bounded_def admin_client_def)
  from http_slots_consistent [OF this, of 0 no_ui ref_cfg 4 3 4 1 ref_store "s_world (ref_sys ref_store SMTP_OK)" "[9]" 0]
  have "slot_ok 0 (d_http (exec (smtp_in_main admin_client no_ui ref_cfg 4 3 4 1) (boot ref_store (s_world (ref_sys ref_store SMTP_OK)) [9] 0)) ! 0)" by simp
  moreover have "hs_used (d_http (exec (smtp_in_main admin_client no_ui ref_cfg 4 3 4 1) (boot ref_store (s_world (ref_sys ref_store SMTP_OK)) [9] 0)) ! 0)"
    by code_simp
  ultimately show ?thesis by (simp add: Let_def)
qed

end
