(* ===== verification/Smtp_Loop_Safety.thy ===== *)
theory Smtp_Loop_Safety
  imports Smtp_Loop_Proofs
begin

text \<open>
  Three more facts about the loop and its sessions: bytes that have arrived are processed in a bounded
  number of steps; STARTTLS keeps nothing of what was said in the clear; and the loop never
  sleeps past the nearest deadline as long as the configured timeouts fit the millisecond counter.
\<close>

section \<open>Progress\<close>

text \<open>
  C23. Reading always comes to an end. On a connection in the clear (and not one that still waits for
  the PROXY line of the implicit-TLS listener) one readiness event, that is one receive of at
  most 4096 bytes and everything it triggers (any number of pipelined commands, a finished
  message with its deliveries, the commands behind it), is processed within a number of nested
  steps bounded by the bytes at hand: the model does not run out of fuel, and more fuel gives the same result.
\<close>

theorem session_reading_terminates:
  assumes "recv_bounded E" "c_tls (s_conn s) = None" "\<not> c_tls_proxy_wait (s_conn s)"
    and "length (c_in (s_conn s)) + length (c_data (s_conn s)) + 4099 \<le> n" "n \<le> m"
  shows "s_stalled (exec (conn_readable E srv n now) s) = s_stalled s
    \<and> run_state (conn_readable E srv m now) s = run_state (conn_readable E srv n now) s"
proof -
  obtain n' m' where nm: "n = Suc n'" "m = Suc m'" "n' \<le> m'" using assms(4,5) by (cases n; cases m) auto
  have un: "conn_readable E srv (Suc i) now = readable_step E now (conn_take_bytes E srv i now) (tls_drain E srv i now)" for i
    by (simp add: conn_readable.simps)
  obtain r w where r: "os_recv E (c_fd (s_conn s)) SMTP_IN_RECV_CHUNK (s_world s) = (r, w)"
    by (cases "os_recv E (c_fd (s_conn s)) SMTP_IN_RECV_CHUNK (s_world s)")
  show ?thesis
  proof (cases r)
    case (Inl e)
    then show ?thesis using r assms(2) unfolding nm(1,2) un by (simp add: readable_step_def close_conn_def)
  next
    case (Inr bytes)
    let ?s = "s\<lparr>s_world := w, s_conn := (s_conn s)\<lparr>c_last_act := now\<rparr>\<rparr>"
    have "length bytes \<le> 4096" using assms(1) r Inr unfolding recv_bounded_def SMTP_IN_RECV_CHUNK_def by blast
    then have "run_state (conn_take_bytes E srv m' now bytes) ?s = run_state (conn_take_bytes E srv n' now bytes) ?s
        \<and> s_stalled (exec (conn_take_bytes E srv n' now bytes) ?s) = s_stalled ?s"
      using assms(3,4) nm by (intro take_bytes_fuel) simp_all
    then show ?thesis using r Inr assms(2) unfolding nm(1,2) un by (simp add: readable_step_def close_conn_def)
  qed
qed

lemma ref_recv_bounded: "recv_bounded ref_env"
  by (auto simp: recv_bounded_def ref_env_def split: list.splits)

theorem session_reading_terminates_witness:
  "\<not> s_stalled (exec (conn_readable ref_env (server_init ref_cfg) 4100 0)
     ((ref_sys ref_store SMTP_OK)\<lparr>s_world := (s_world (ref_sys ref_store SMTP_OK))\<lparr>w_input := [''NOOP'' @ CRLF @ ''RSET'' @ CRLF]\<rparr>\<rparr>))"
  using session_reading_terminates [OF ref_recv_bounded, of "(ref_sys ref_store SMTP_OK)\<lparr>s_world := (s_world (ref_sys ref_store SMTP_OK))\<lparr>w_input := [''NOOP'' @ CRLF @ ''RSET'' @ CRLF]\<rparr>\<rparr>" 4100 4100]
  by (simp add: ref_sys_def ref_conn_def)

section \<open>STARTTLS\<close>

text \<open>The commands other than STARTTLS do not touch the TLS state.\<close>

abbreviation tls_same :: "(('d, 'w) Sys, 'r) state \<Rightarrow> bool" where
  "tls_same \<equiv> state_io_rel (same (\<lambda>s. c_tls (s_conn s)))"

lemma backend_tls: "backend m \<Longrightarrow> tls_same m"
  by (simp add: state_io_rel_def same_def frame_def)

lemma upd_tls: "(\<And>c. c_tls (f c) = c_tls c) \<Longrightarrow> tls_same (upd_conn f)"
  by (rule sameI) simp

lemma reply_tls: "tls_same (conn_reply E t)"
  by (rule sameI) (rule reply_same [unfolded same_session_def, THEN conjunct2, THEN conjunct2, THEN conjunct2, THEN conjunct2,
      THEN conjunct2, THEN conjunct2, THEN conjunct1])

lemmas tls_rules = same.control_io backend_parts [THEN backend_tls] reply_tls

lemma other_commands_tls:
  "tls_same (do_helo E srv b)" "tls_same (do_mail E srv rest)" "tls_same (do_rcpt E srv rest)" "tls_same (do_data E)"
  "tls_same (conn_reset st)" "tls_same close_conn"
  unfolding do_helo_def do_mail_def do_rcpt_def do_data_def conn_add_rcpt_def close_conn_def conn_reset_def
  by (intro tls_rules upd_tls; simp add: reset_conn_def)+

text \<open>A connection between the acceptance of STARTTLS and the end of the handshake.\<close>

definition tls_waiting :: "Conn \<Rightarrow> bool" where
  "tls_waiting c \<longleftrightarrow> smtp_in_tls_handshaking (c_tls c) \<and> c_in c = [] \<and> c_state c = ST_HELO \<and> c_from c = None \<and> c_rcpts c = [] \<and> c_greeted c"

lemma starttls_waiting:
  assumes "c_tls (s_conn s) = None" "session_ok srv (s_conn s)" "c_greeted (s_conn s)"
    and "c_tls (s_conn (exec (do_starttls E rest) s)) \<noteq> None"
  shows "tls_waiting (s_conn (exec (do_starttls E rest) s))
    \<and> c_tls (s_conn (exec (do_starttls E rest) s)) = Some \<lparr>t_state = TLS_PENDING, t_want_write = False, t_fd = c_fd (s_conn s), t_prebuf = []\<rparr>"
proof -
  have r: "c_tls (s_conn (exec (conn_reply E t) s)) = None" for t using sameD [OF reply_tls, of E t s] assms(1) by simp
  have g: "c_state (s_conn s) = ST_HELO" "rest = []" "c_in (s_conn s) = []" "smtp_in_tls_available E"
    using assms(4) r assms(1) by (auto simp: do_starttls_def split: if_splits)
  obtain t s1 where t: "run_state (smtp_in_tls_start E (c_fd (s_conn s))) s = (t, s1)" by (cases "run_state (smtp_in_tls_start E (c_fd (s_conn s))) s")
  have c1: "s_conn s1 = s_conn s" using sameD [OF tls_start_b, of E "c_fd (s_conn s)" s] t by (simp add: frame_def)
  show ?thesis
  proof (cases t)
    case None
    have "c_tls (s_conn (exec (conn_reply E u) s1)) = None" for u using sameD [OF reply_tls, of E u s1] assms(1) c1 by simp
    then show ?thesis using assms(1,4) g t None by (simp add: do_starttls_def)
  next
    case (Some tt)
    have p: "tt = \<lparr>t_state = TLS_PENDING, t_want_write = False, t_fd = c_fd (s_conn s), t_prebuf = []\<rparr>"
      using t Some by (auto simp: smtp_in_tls_start_def tls_start_def split: if_splits prod.splits)
    let ?s2 = "s1\<lparr>s_conn := (s_conn s1)\<lparr>c_tls := Some tt\<rparr>\<rparr>"
    have e: "exec (do_starttls E rest) s = exec (conn_reply E (''220 2.0.0 Ready to start TLS'' @ CRLF)) ?s2"
      using assms(1) g t Some by (simp add: do_starttls_def)
    have "same_session (s_conn ?s2) (s_conn (exec (do_starttls E rest) s))" unfolding e by (rule reply_same)
    then show ?thesis using g assms(2,3) c1 p
      by (simp add: same_session_def tls_waiting_def smtp_in_tls_handshaking_def session_ok_def)
  qed
qed

lemma command_tls:
  "tls_same (smtp_command E srv line) \<or> smtp_command E srv line = do_starttls E (skip_spaces (dropWhile (\<lambda>ch. ch \<noteq> SP) (skip_spaces line)))"
proof (cases "verb_is ''STARTTLS'' (takeWhile (\<lambda>ch. ch \<noteq> SP) (skip_spaces line))")
  case True
  then show ?thesis by (simp add: smtp_command_def Let_def verb_is_def)
next
  case False
  have "tls_same (smtp_command E srv line)"
    unfolding smtp_command_def Let_def by (intro tls_rules other_commands_tls) (use False in simp)
  then show ?thesis by simp
qed



text \<open>What one handshake round leaves of the TLS state.\<close>

lemma handshake_result:
  assumes "run_state (smtp_in_tls_handshake_step E (Some t)) s = ((r, t'), s')" "t_state t \<noteq> TLS_ESTABLISHED"
  shows "(r = HS_more \<longrightarrow> smtp_in_tls_handshaking t') \<and> (r = HS_done \<longrightarrow> smtp_in_tls_established t') \<and> s_conn s' = s_conn s"
  using assms by (auto simp: smtp_in_tls_handshake_step_def tls_handshake_step_def smtp_in_tls_handshaking_def smtp_in_tls_established_def Let_def
      split: if_splits mbed_code.splits prod.splits)

lemma advance_waiting:
  assumes "tls_waiting (s_conn s)"
  shows "(let c = s_conn (exec (tls_advance E srv (Suc n) now) s) in tls_waiting c \<or> c_closed c) \<or>
    (\<exists>s1. exec (tls_advance E srv (Suc n) now) s = exec (conn_readable E srv n now) s1 \<and>
       smtp_in_tls_established (c_tls (s_conn s1)) \<and> c_in (s_conn s1) = [] \<and> c_state (s_conn s1) = ST_INIT \<and>
       c_from (s_conn s1) = None \<and> c_rcpts (s_conn s1) = [] \<and> c_data (s_conn s1) = [])"
proof -
  obtain t where t: "c_tls (s_conn s) = Some t" "t_state t \<noteq> TLS_ESTABLISHED"
    using assms by (auto simp: tls_waiting_def smtp_in_tls_handshaking_def split: option.splits)
  let ?s1 = "s\<lparr>s_conn := (s_conn s)\<lparr>c_last_act := now\<rparr>\<rparr>"
  obtain r t' s2 where h: "run_state (smtp_in_tls_handshake_step E (Some t)) ?s1 = ((r, t'), s2)" by (metis prod.exhaust)
  note hs = handshake_result [OF h t(2)]
  have un: "tls_advance E srv (Suc n) now = advance_step E srv now (conn_readable E srv n now)" by (simp add: tls_advance.simps)
  show ?thesis
  proof (cases r)
    case HS_fatal
    then show ?thesis using t(1) h unfolding un by (simp add: advance_step_def drop_conn_def)
  next
    case HS_more
    then show ?thesis using t(1) h hs assms unfolding un by (simp add: advance_step_def tls_waiting_def)
  next
    case HS_done
    let ?s3 = "s2\<lparr>s_conn := reset_conn ST_INIT ((s_conn s2)\<lparr>c_tls := t'\<rparr>)\<rparr>"
    have "exec (tls_advance E srv (Suc n) now) s = exec (conn_readable E srv n now) ?s3"
      using HS_done t(1) h hs assms unfolding un by (simp add: advance_step_def tls_waiting_def conn_reset_def)
    moreover have "c_in (s_conn s2) = []" using hs assms by (simp add: tls_waiting_def)
    ultimately show ?thesis using hs HS_done by (intro disjI2 exI [of _ ?s3]) (simp add: reset_conn_def)
  qed
qed

lemma flush_waiting: "tls_waiting (s_conn s) \<Longrightarrow> tls_waiting (s_conn (exec (conn_flush E) s))"
  by (simp add: conn_flush_def after_flush_def tls_waiting_def split: flush_end.split)

text \<open>
  C7. Nothing said in the clear survives STARTTLS. Whatever event the loop dispatches to a connection
  that waits for its handshake, the connection still waits afterwards (with no unread input, no
  sender and no recipients), or it is closed, or the handshake has completed and the first thing
  done over TLS is to read from it in the initial session state, with no unread input, sender, recipient
  or message text left from before: the client has to say EHLO again.
\<close>

theorem starttls_session_restart:
  assumes "tls_waiting (s_conn s)"
  shows "(let c = s_conn (exec (conn_dispatch E srv (Suc n) now rv) s) in tls_waiting c \<or> c_closed c) \<or>
    (\<exists>s1. exec (conn_dispatch E srv (Suc n) now rv) s = exec (conn_readable E srv n now) s1 \<and>
       smtp_in_tls_established (c_tls (s_conn s1)) \<and> c_in (s_conn s1) = [] \<and> c_state (s_conn s1) = ST_INIT \<and>
       c_from (s_conn s1) = None \<and> c_rcpts (s_conn s1) = [] \<and> c_data (s_conn s1) = [])"
proof -
  have hs: "smtp_in_tls_handshaking (c_tls (s_conn s))" using assms by (simp add: tls_waiting_def)
  note w = assms flush_waiting [OF assms, of E]
  show ?thesis
    using w hs advance_waiting [OF w(1), of E srv n now] advance_waiting [OF w(2), of E srv n now]
    by (simp add: conn_dispatch_def Let_def) 
qed

definition waiting_sys :: "(ref_db, ref_world) Sys" where
  "waiting_sys = (ref_sys ref_store SMTP_OK)\<lparr>s_conn := ref_conn\<lparr>c_state := ST_HELO,
     c_tls := Some \<lparr>t_state = TLS_PENDING, t_want_write = False, t_fd = 5, t_prebuf = []\<rparr>\<rparr>\<rparr>"

theorem starttls_session_restart_witness:
  "tls_waiting (s_conn waiting_sys) \<and>
   ((let c = s_conn (exec (conn_dispatch ref_env (server_init ref_cfg) (Suc 3) 0 POLLOUT) waiting_sys) in tls_waiting c \<or> c_closed c) \<or>
    (\<exists>s1. exec (conn_dispatch ref_env (server_init ref_cfg) (Suc 3) 0 POLLOUT) waiting_sys = exec (conn_readable ref_env (server_init ref_cfg) 3 0) s1 \<and>
       smtp_in_tls_established (c_tls (s_conn s1)) \<and> c_in (s_conn s1) = [] \<and> c_state (s_conn s1) = ST_INIT \<and>
       c_from (s_conn s1) = None \<and> c_rcpts (s_conn s1) = [] \<and> c_data (s_conn s1) = []))"
proof -
  have "tls_waiting (s_conn waiting_sys)" by code_simp
  then show ?thesis using starttls_session_restart [of waiting_sys ref_env "server_init ref_cfg" 3 0 POLLOUT] by blast
qed

section \<open>Deadlines\<close>

lemma to_int32_id: "0 \<le> x \<Longrightarrow> x \<le> 2147483647 \<Longrightarrow> to_int32 x = x"
  by (simp add: to_int32_def)

text \<open>The seconds left to a deadline.\<close>

definition time_left :: "int \<Rightarrow> u32 \<Rightarrow> int \<Rightarrow> int" where
  "time_left now tmo last_act = int (unat tmo) - (if now > last_act then now - last_act else 0)"

lemma deadline_scan_step:
  assumes "tmo \<noteq> 0" "unat tmo \<le> 2147483" "deadline_scan now ((tmo, last_act) # ds) ms = Some r"
  shows "0 < time_left now tmo last_act \<and>
    deadline_scan now ds (if ms < 0 \<or> 1000 * time_left now tmo last_act < ms then 1000 * time_left now tmo last_act else ms) = Some r"
proof -
  define u where "u = int (unat tmo)"
  define e where "e = (if now > last_act then now - last_act else 0)"
  have u: "u \<le> 2147483" using assms(2) by (simp add: u_def del: of_nat_unat)
  have e: "0 \<le> e" by (simp add: e_def)
  have l: "time_left now tmo last_act = u - e" by (simp only: time_left_def u_def e_def)
  have scan: "deadline_scan now ((tmo, last_act) # ds) ms =
    (if u \<le> e then None else deadline_scan now ds (if ms < 0 \<or> to_int32 ((u - e) * 1000) < ms then to_int32 ((u - e) * 1000) else ms))"
    using assms(1) by (simp only: deadline_scan.simps Let_def u_def e_def if_False)
  then have lt: "e < u" using assms(3) by (simp split: if_splits)
  then have t: "to_int32 ((u - e) * 1000) = 1000 * (u - e)" using u e by (subst to_int32_id) auto
  have "deadline_scan now ds (if ms < 0 \<or> 1000 * (u - e) < ms then 1000 * (u - e) else ms) = Some r"
    using scan [unfolded t] lt assms(3) by (simp only: not_le [symmetric] if_False)
  then show ?thesis unfolding l using lt by (simp only: diff_gt_0_iff_gt)
qed

lemma deadline_scan_bound:
  assumes "\<forall>(tmo, last_act) \<in> set ds. unat tmo \<le> 2147483" "-1 \<le> ms" "deadline_scan now ds ms = Some r"
  shows "-1 \<le> r \<and> (0 \<le> ms \<longrightarrow> 0 \<le> r \<and> r \<le> ms) \<and>
    (\<forall>(tmo, last_act) \<in> set ds. tmo \<noteq> 0 \<longrightarrow> 0 \<le> r \<and> r \<le> 1000 * time_left now tmo last_act)"
  using assms
proof (induction ds arbitrary: ms)
  case (Cons d ds)
  obtain tmo last_act where d: "d = (tmo, last_act)" by force
  show ?case
  proof (cases "tmo = 0")
    case True
    then show ?thesis using Cons d by auto
  next
    case False
    have "unat tmo \<le> 2147483" using Cons.prems(1) d by simp
    note st = deadline_scan_step [OF False this, of now last_act ds ms r]
    define m where "m = (if ms < 0 \<or> 1000 * time_left now tmo last_act < ms then 1000 * time_left now tmo last_act else ms)"
    have l: "0 < time_left now tmo last_act" and m: "deadline_scan now ds m = Some r"
      using st Cons.prems(3) d by (auto simp: m_def)
    have b: "0 \<le> m" "m \<le> 1000 * time_left now tmo last_act" "0 \<le> ms \<longrightarrow> m \<le> ms" using l by (auto simp: m_def)
    have "-1 \<le> m" using b by simp
    then have "-1 \<le> r \<and> (0 \<le> m \<longrightarrow> 0 \<le> r \<and> r \<le> m) \<and>
        (\<forall>(tmo, last_act) \<in> set ds. tmo \<noteq> 0 \<longrightarrow> 0 \<le> r \<and> r \<le> 1000 * time_left now tmo last_act)"
      using Cons.IH [of m] Cons.prems(1) m by simp
    then show ?thesis using b d by auto
  qed
qed simp

text \<open>The deadlines the daemon keeps: one per connection and one per HTTP slot in use.\<close>

definition deadlines :: "Server \<Rightarrow> ('d, 'w) Daemon \<Rightarrow> (u32 \<times> int) list" where
  "deadlines srv d = map (\<lambda>c. (conn_timeout srv c, c_last_act c)) (s_conns (d_sys d)) @
     map (\<lambda>h. (if hs_used h then hs_idle h else 0, hs_last_act h)) (d_http d)"

lemma deadline_scan_append: "deadline_scan now (xs @ ys) ms = Option.bind (deadline_scan now xs ms) (deadline_scan now ys)"
  by (induction now xs ms rule: deadline_scan.induct) (simp_all add: Let_def)

lemma queue_wait_bound:
  fixes next_due now32 :: u32
  shows "let d0 = (if next_due > now32 then next_due - now32 else 0); delta = (if d0 > 30 then 30 else d0) in
    to_int32 (int (unat (delta * 1000))) = int (unat delta) * 1000 \<and> unat delta \<le> 30 \<and> unat delta \<le> unat next_due - unat now32"
proof -
  define d0 where "d0 = (if next_due > now32 then next_due - now32 else 0)"
  define delta where "delta = (if d0 > 30 then 30 else d0)"
  have d0: "unat d0 = unat next_due - unat now32"
    by (auto simp: d0_def unat_sub less_imp_le word_less_nat_alt not_less)
  have d: "unat delta \<le> 30" "unat delta \<le> unat d0" by (auto simp: delta_def word_less_nat_alt not_less)
  then have "unat (delta * 1000) = unat delta * 1000"
    by (subst unat_mult_lem [THEN iffD1]) auto
  then have "to_int32 (int (unat (delta * 1000))) = int (unat delta) * 1000"
    using d(1) by (simp add: to_int32_id del: of_nat_unat)
  then show ?thesis unfolding Let_def d0_def [symmetric] delta_def [symmetric] using d d0 by simp
qed

lemma poll_timeout_eq:
  "eval (poll_timeout_ms E srv now) d =
     (case deadline_scan now (deadlines srv d) (-1) of
        None \<Rightarrow> 0
      | Some ms \<Rightarrow>
          let next_due = fst (store_queue_next_due (eng E) (s_store (d_sys d))); now32 = of_int now;
              d0 = (if next_due > now32 then next_due - now32 else 0); delta = (if d0 > 30 then 30 else d0);
              qms = to_int32 (int (unat (delta * 1000))) in
          if next_due = UINT32_MAX then ms else if ms < 0 \<or> qms < ms then qms else ms)"
proof -
  define hs where "hs = map (\<lambda>h. (if hs_used h then hs_idle h else 0, hs_last_act h)) (d_http d)"
  define cs where "cs = map (\<lambda>c. (conn_timeout srv c, c_last_act c)) (s_conns (d_sys d))"
  show ?thesis
    unfolding poll_timeout_ms_def deadlines_def cs_def [symmetric] hs_def [symmetric] deadline_scan_append
    by (cases "deadline_scan now cs (-1)"; cases "deadline_scan now hs (the (deadline_scan now cs (-1)))")
       (simp_all add: cs_def [symmetric] hs_def [symmetric] on_store_def Let_def split_beta del: of_nat_unat)
qed

text \<open>
  C35. The loop never sleeps through a deadline. When the configured timeouts fit the \<open>int\<close> of
  milliseconds that \<open>poll\<close> takes, the wait chosen for one round is -1 (wait for an event) or a
  duration, never longer than the time that is left to any idle deadline of a connection or of an HTTP
  slot; and while something is queued it is at most 30 seconds and at most the time to the next due
  delivery.
\<close>

theorem poll_wakes_in_time:
  assumes "\<forall>(tmo, last_act) \<in> set (deadlines srv d). unat tmo \<le> 2147483"
  shows "let ms = eval (poll_timeout_ms E srv now) d; next_due = fst (store_queue_next_due (eng E) (s_store (d_sys d))) in
    -1 \<le> ms \<and>
    (\<forall>(tmo, last_act) \<in> set (deadlines srv d). tmo \<noteq> 0 \<longrightarrow> 0 \<le> ms \<and> ms \<le> 1000 * max 0 (time_left now tmo last_act)) \<and>
    (next_due \<noteq> UINT32_MAX \<longrightarrow> 0 \<le> ms \<and> ms \<le> 30000 \<and> ms \<le> 1000 * int (unat next_due - unat (of_int now :: u32)))"
proof (cases "deadline_scan now (deadlines srv d) (-1)")
  case None
  then show ?thesis by (auto simp: poll_timeout_eq)
next
  case (Some r)
  define next_due where "next_due = fst (store_queue_next_due (eng E) (s_store (d_sys d)))"
  define d0 where "d0 = (if next_due > (of_int now :: u32) then next_due - of_int now else 0)"
  define delta where "delta = (if d0 > 30 then 30 else d0)"
  define q where "q = to_int32 (int (unat (delta * 1000)))"
  have q: "0 \<le> q" "q \<le> 30000" "q \<le> 1000 * int (unat next_due - unat (of_int now :: u32))"
    using queue_wait_bound [of "of_int now" next_due]
    by (auto simp: Let_def d0_def [symmetric] delta_def [symmetric] q_def simp del: of_nat_unat)
  have r: "-1 \<le> r" "\<forall>(tmo, last_act) \<in> set (deadlines srv d). tmo \<noteq> 0 \<longrightarrow> 0 \<le> r \<and> r \<le> 1000 * time_left now tmo last_act"
    using deadline_scan_bound [OF assms _ Some] by auto
  have ms: "eval (poll_timeout_ms E srv now) d = (if next_due = UINT32_MAX then r else if r < 0 \<or> q < r then q else r)"
    by (simp only: poll_timeout_eq Some option.case Let_def next_due_def d0_def delta_def q_def)
  have "\<forall>(tmo, last_act) \<in> set (deadlines srv d). tmo \<noteq> 0 \<longrightarrow>
      0 \<le> eval (poll_timeout_ms E srv now) d \<and> eval (poll_timeout_ms E srv now) d \<le> 1000 * max 0 (time_left now tmo last_act)"
    using r(2) q(1) unfolding ms by fastforce
  then show ?thesis using q r(1) unfolding Let_def next_due_def [symmetric] ms by auto
qed

definition polled_daemon :: "(ref_db, ref_world) Daemon" where
  "polled_daemon = \<lparr>d_sys = (ref_sys ref_store SMTP_OK)\<lparr>s_conns := [ref_conn]\<rparr>, d_http = [], d_extra = []\<rparr>"

theorem poll_wakes_in_time_witness:
  "list_all (\<lambda>(tmo, last_act). unat tmo \<le> 2147483) (deadlines (server_init ref_cfg) polled_daemon) \<and>
   0 \<le> eval (poll_timeout_ms ref_env (server_init ref_cfg) 7) polled_daemon"
proof -
  have h: "\<forall>(tmo, last_act) \<in> set (deadlines (server_init ref_cfg) polled_daemon). unat tmo \<le> 2147483" by code_simp
  have "\<exists>(tmo, last_act) \<in> set (deadlines (server_init ref_cfg) polled_daemon). tmo \<noteq> 0" by code_simp
  then show ?thesis using h poll_wakes_in_time [OF h, of ref_env 7] by (fastforce simp: Let_def list_all_iff)
qed

end
