(* ===== verification/Base64.thy ===== *)
theory Base64
  imports Visage_Prelude
begin

text \<open>
  Base64 as the programs use it for AUTH: the encoder of the relay client (\<open>smtp_b64_encode\<close> of
  \<open>smtp_out.c\<close>), the streaming decoder of the submission server (\<open>outbox_b64_decode\<close> of
  \<open>outbox_auth.c\<close>) and the quad-wise decoder of the IMAP server (\<open>imapd_b64_decode\<close> of
  \<open>imap_maildir.c\<close>). Both decoders are shown to invert the encoder.
\<close>

unbundle bit_operations_syntax

section \<open>The encoder\<close>

definition b64_tab :: string where
  "b64_tab = ''ABCDEFGHIJKLMNOPQRSTUVWXYZabcdefghijklmnopqrstuvwxyz0123456789+/''"

text \<open>The unsigned byte at \<open>p[i]\<close> widened to 32 bits, and \<open>b64_tab[(v >> k) & 0x3f]\<close>.\<close>

definition u8 :: "char \<Rightarrow> u32" where
  "u8 c = of_nat (byte c)"

definition b64_digit :: "u32 \<Rightarrow> nat \<Rightarrow> char" where
  "b64_digit v k = b64_tab ! unat (drop_bit k v AND 0x3f)"

definition PAD :: char where
  "PAD = CHR ''=''"

fun b64_encode_loop :: "string \<Rightarrow> string" where
  "b64_encode_loop (a # b # c # p) =
     (let v = push_bit 16 (u8 a) OR push_bit 8 (u8 b) OR u8 c in
      [b64_digit v 18, b64_digit v 12, b64_digit v 6, b64_digit v 0] @ b64_encode_loop p)"
| "b64_encode_loop [a, b] =
     (let v = push_bit 16 (u8 a) OR push_bit 8 (u8 b) in
      [b64_digit v 18, b64_digit v 12, b64_digit v 6, PAD])"
| "b64_encode_loop [a] =
     (let v = push_bit 16 (u8 a) in
      [b64_digit v 18, b64_digit v 12, PAD, PAD])"
| "b64_encode_loop [] = []"

definition smtp_b64_encode :: "string \<Rightarrow> nat \<Rightarrow> string option" where
  "smtp_b64_encode p outsz =
     (if int (length p) > SIZE_MAX div 2 then None
      else if outsz < (length p + 2) div 3 * 4 + 1 then None
      else Some (b64_encode_loop p))"

section \<open>The decoders\<close>

definition b64_val :: "char \<Rightarrow> nat option" where
  "b64_val c =
     (if is_upper c then Some (byte c - 65)
      else if is_lower c then Some (byte c - 97 + 26)
      else if is_digit c then Some (byte c - 48 + 52)
      else if c = CHR ''+'' then Some 62
      else if c = CHR ''/'' then Some 63
      else None)"

text \<open>
  The loop of \<open>outbox_b64_decode\<close>: the accumulator with its count of pending bits, the number of
  padding characters seen, and the bytes written so far.
\<close>

fun outbox_b64_loop :: "string \<Rightarrow> nat \<Rightarrow> u32 \<Rightarrow> nat \<Rightarrow> nat \<Rightarrow> string \<Rightarrow> (u32 \<times> nat \<times> nat \<times> string) option" where
  "outbox_b64_loop [] outsz acc nbits pad out = Some (acc, nbits, pad, out)"
| "outbox_b64_loop (c # inp) outsz acc nbits pad out =
     (if c = PAD then outbox_b64_loop inp outsz acc nbits (pad + 1) out
      else if pad > 0 then None
      else case b64_val c of
        None \<Rightarrow> None
      | Some v \<Rightarrow>
          let acc = push_bit 6 acc OR of_nat v; nbits = nbits + 6 in
          if nbits \<ge> 8 then
            let nbits = nbits - 8 in
            if length out \<ge> outsz then None
            else outbox_b64_loop inp outsz acc nbits pad (out @ [char_of (unat (drop_bit nbits acc AND 0xff))])
          else outbox_b64_loop inp outsz acc nbits pad out)"

definition outbox_b64_decode :: "string \<Rightarrow> nat \<Rightarrow> string option" where
  "outbox_b64_decode inp outsz =
     (case outbox_b64_loop inp outsz 0 0 0 [] of
        None \<Rightarrow> None
      | Some (acc, nbits, pad, out) \<Rightarrow>
          if pad > 2 then None
          else if nbits \<ge> 8 \<or> nbits > 0 \<and> acc AND (push_bit nbits 1 - 1) \<noteq> 0 then None
          else Some out)"

text \<open>
  One quad of \<open>imapd_b64_decode\<close>: the inner loop over its four characters (the index \<open>j\<close>, the
  padding so far), giving the accumulator and the padding. \<open>final\<close> is \<open>i + 4 == inlen\<close>.
\<close>

fun imapd_quad :: "bool \<Rightarrow> string \<Rightarrow> nat \<Rightarrow> nat \<Rightarrow> u32 \<Rightarrow> (u32 \<times> nat) option" where
  "imapd_quad final [] j pad acc = Some (acc, pad)"
| "imapd_quad final (c # q) j pad acc =
     (if c = PAD then
        if \<not> final \<or> j < 2 then None
        else imapd_quad final q (j + 1) (pad + 1) acc
      else if pad > 0 then None
      else case b64_val c of
        None \<Rightarrow> None
      | Some v \<Rightarrow> imapd_quad final q (j + 1) pad (acc OR push_bit (18 - 6 * j) (of_nat v)))"

fun imapd_b64_loop :: "string \<Rightarrow> nat \<Rightarrow> string \<Rightarrow> string option" where
  "imapd_b64_loop (c0 # c1 # c2 # c3 # inp) outsz out =
     (case imapd_quad (inp = []) [c0, c1, c2, c3] 0 0 0 of
        None \<Rightarrow> None
      | Some (acc, pad) \<Rightarrow>
          let keep = 3 - pad in
          if length out + keep > outsz then None
          else imapd_b64_loop inp outsz
            (out @ take keep [char_of (unat (drop_bit 16 acc AND 0xff)), char_of (unat (drop_bit 8 acc AND 0xff)), char_of (unat (acc AND 0xff))]))"
| "imapd_b64_loop inp outsz out = Some out"

definition imapd_b64_decode :: "string \<Rightarrow> nat \<Rightarrow> string option" where
  "imapd_b64_decode inp outsz = (if length inp mod 4 \<noteq> 0 then None else imapd_b64_loop inp outsz [])"

section \<open>The decoders invert the encoder\<close>

lemma b64_val_tab: "n < 64 \<Longrightarrow> b64_val (b64_tab ! n) = Some n \<and> b64_tab ! n \<noteq> PAD"
proof -
  have m: "map b64_val b64_tab = map Some [0..<64]" by code_simp
  have p: "PAD \<notin> set b64_tab" by code_simp
  have l: "length b64_tab = 64" by code_simp
  assume n: "n < 64"
  then have "map b64_val b64_tab ! n = Some n" unfolding m by simp
  then show ?thesis using n l p by (metis nth_map nth_mem)
qed

lemma masks: "(0x3f :: u32) = mask 6" "(0xff :: u32) = mask 8"
  by (simp_all add: mask_eq_exp_minus_1)

lemma b64_val_digit [simp]: "b64_val (b64_digit v k) = Some (unat (drop_bit k v AND 0x3f))" "b64_digit v k \<noteq> PAD"
proof -
  have "unat (drop_bit k v AND 0x3f) < 64"
    using and_mask_less' [of 6 "drop_bit k v"] by (simp add: masks word_less_nat_alt)
  then show "b64_val (b64_digit v k) = Some (unat (drop_bit k v AND 0x3f))" "b64_digit v k \<noteq> PAD"
    unfolding b64_digit_def by (auto dest: b64_val_tab)
qed

lemma unat_u8: "unat (u8 c) = byte c"
proof -
  have "byte c < 4294967296" using byte_less [of c] by linarith
  then show ?thesis unfolding u8_def by (rule u32_of_nat)
qed

lemma char_u8 [simp]: "char_of (unat (u8 c)) = c"
  by (simp only: unat_u8 char_of_char)

lemma bit_u8D: "bit (u8 c) n \<Longrightarrow> n < 8"
proof (rule ccontr)
  assume b: "bit (u8 c) n" "\<not> n < 8"
  have "u8 c < 2 ^ 8" using byte_less [of c] by (simp add: word_less_nat_alt unat_u8)
  then have "take_bit 8 (u8 c) = u8 c" by (simp add: less_mask_eq take_bit_eq_mask)
  then show False using b by (metis bit_take_bit_iff)
qed

text \<open>The bytes of a group of three, and of the shorter groups that end the text.\<close>

lemma group_bytes:
  "drop_bit 16 (push_bit 16 (u8 a) OR push_bit 8 (u8 b) OR u8 c) AND 0xff = u8 a"
  "drop_bit 8 (push_bit 16 (u8 a) OR push_bit 8 (u8 b) OR u8 c) AND 0xff = u8 b"
  "(push_bit 16 (u8 a) OR push_bit 8 (u8 b) OR u8 c) AND 0xff = u8 c"
  "drop_bit 16 (push_bit 16 (u8 a) OR push_bit 8 (u8 b)) AND 0xff = u8 a"
  "drop_bit 8 (push_bit 16 (u8 a) OR push_bit 8 (u8 b)) AND 0xff = u8 b"
  "drop_bit 16 (push_bit 16 (u8 a)) AND 0xff = u8 a"
  unfolding masks by (rule bit_word_eqI; auto simp: bit_simps dest: bit_u8D)+

lemma less_8_cases: "n < 8 \<longleftrightarrow> n = 0 \<or> n = 1 \<or> n = 2 \<or> n = 3 \<or> n = 4 \<or> n = 5 \<or> n = 6 \<or> n = (7::nat)"
  by arith

text \<open>
  One digit of \<open>v\<close> shifted into the accumulator of the streaming decoder, and what the accumulator
  holds after two, three and four digits.
\<close>

definition shift_in :: "u32 \<Rightarrow> u32 \<Rightarrow> nat \<Rightarrow> u32" where
  "shift_in acc v k = push_bit 6 acc OR (drop_bit k v AND 0x3f)"

lemma shift_in_bytes:
  "drop_bit 4 (shift_in (shift_in acc v 18) v 12) AND 0xff = drop_bit 16 v AND 0xff"
  "drop_bit 2 (shift_in (shift_in acc v 12) v 6) AND 0xff = drop_bit 8 v AND 0xff"
  "shift_in (shift_in acc v 6) v 0 AND 0xff = v AND 0xff"
  unfolding masks shift_in_def by (rule bit_word_eqI; auto simp: bit_simps less_8_cases)+

lemmas decoded_bytes = shift_in_bytes [where v = "push_bit 16 (u8 a) OR push_bit 8 (u8 b) OR u8 c" for a b c, unfolded group_bytes]
  shift_in_bytes [where v = "push_bit 16 (u8 a) OR push_bit 8 (u8 b)" for a b, unfolded group_bytes]
  shift_in_bytes [where v = "push_bit 16 (u8 a)" for a, unfolded group_bytes]

lemma leftover_zero:
  "shift_in acc (push_bit 16 (u8 a) OR push_bit 8 (u8 b)) 6 AND 3 = 0"
  "shift_in acc (push_bit 16 (u8 a)) 12 AND 15 = 0"
proof -
  have m: "(3::u32) = mask 2" "(15::u32) = mask 4" by (simp_all add: mask_eq_exp_minus_1)
  show "shift_in acc (push_bit 16 (u8 a) OR push_bit 8 (u8 b)) 6 AND 3 = 0"
    "shift_in acc (push_bit 16 (u8 a)) 12 AND 15 = 0"
    unfolding masks m shift_in_def by (rule bit_word_eqI; auto simp: bit_simps dest: bit_u8D)+
qed

lemma outbox_loop_digit:
  "outbox_b64_loop (b64_digit v k # inp) outsz acc nbits 0 out =
     (if nbits + 6 \<ge> 8 then
        if length out \<ge> outsz then None
        else outbox_b64_loop inp outsz (shift_in acc v k) (nbits + 6 - 8) 0
               (out @ [char_of (unat (drop_bit (nbits + 6 - 8) (shift_in acc v k) AND 0xff))])
      else outbox_b64_loop inp outsz (shift_in acc v k) (nbits + 6) 0 out)"
  by (simp add: Let_def shift_in_def)

lemma outbox_loop_pad: "outbox_b64_loop (PAD # inp) outsz acc nbits pad out = outbox_b64_loop inp outsz acc nbits (pad + 1) out"
  by simp

declare outbox_b64_loop.simps(2) [simp del]

lemma outbox_loop_encoded:
  "length out \<le> outsz \<Longrightarrow> if length out + length p \<le> outsz
   then \<exists>acc' nbits pad. outbox_b64_loop (b64_encode_loop p) outsz acc 0 0 out = Some (acc', nbits, pad, out @ p) \<and>
          pad \<le> 2 \<and> nbits < 8 \<and> acc' AND (push_bit nbits 1 - 1) = 0
   else outbox_b64_loop (b64_encode_loop p) outsz acc 0 0 out = None"
proof (induction p arbitrary: acc out rule: b64_encode_loop.induct)
  case (1 a b c p)
  let ?v = "push_bit 16 (u8 a) OR push_bit 8 (u8 b) OR u8 c"
  let ?acc = "shift_in (shift_in (shift_in (shift_in acc ?v 18) ?v 12) ?v 6) ?v 0"
  show ?case
  proof (cases "length out + 3 \<le> outsz")
    case True
    then show ?thesis
      using "1.IH" [OF refl, of "out @ [a, b, c]" ?acc] by (simp add: Let_def outbox_loop_digit decoded_bytes cong: if_cong)
  next
    case False
    then show ?thesis by (simp add: Let_def outbox_loop_digit)
  qed
qed (simp_all add: Let_def outbox_loop_digit outbox_loop_pad decoded_bytes leftover_zero)

lemma outbox_decode_encode: "outbox_b64_decode (b64_encode_loop p) outsz = (if length p \<le> outsz then Some p else None)"
  using outbox_loop_encoded [of "[]" outsz p 0] by (auto simp: outbox_b64_decode_def split: if_splits)

text \<open>The quad decoder puts each digit at its place; two, three or four of them give back the bytes.\<close>

definition quad_in :: "u32 \<Rightarrow> u32 \<Rightarrow> nat \<Rightarrow> u32" where
  "quad_in acc v k = acc OR push_bit k (drop_bit k v AND 0x3f)"

lemma bit_quad_in: "k \<le> 18 \<Longrightarrow> bit (quad_in acc v k) n \<longleftrightarrow> bit acc n \<or> k \<le> n \<and> n < k + 6 \<and> bit v n"
  unfolding quad_in_def masks by (auto simp: bit_simps dest: bit_imp_le_length)

lemma quad_bytes:
  "drop_bit 16 (quad_in (quad_in 0 v 18) v 12) AND 0xff = drop_bit 16 v AND 0xff"
  "drop_bit 16 (quad_in (quad_in (quad_in 0 v 18) v 12) v 6) AND 0xff = drop_bit 16 v AND 0xff"
  "drop_bit 8 (quad_in (quad_in (quad_in 0 v 18) v 12) v 6) AND 0xff = drop_bit 8 v AND 0xff"
  "drop_bit 16 (quad_in (quad_in (quad_in (quad_in 0 v 18) v 12) v 6) v 0) AND 0xff = drop_bit 16 v AND 0xff"
  "drop_bit 8 (quad_in (quad_in (quad_in (quad_in 0 v 18) v 12) v 6) v 0) AND 0xff = drop_bit 8 v AND 0xff"
  "quad_in (quad_in (quad_in (quad_in 0 v 18) v 12) v 6) v 0 AND 0xff = v AND 0xff"
  unfolding masks by (rule bit_word_eqI; auto simp: bit_and_iff bit_drop_bit_eq bit_mask_iff bit_quad_in)+

lemmas quad_decoded = quad_bytes [where v = "push_bit 16 (u8 a) OR push_bit 8 (u8 b) OR u8 c" for a b c, unfolded group_bytes]
  quad_bytes [where v = "push_bit 16 (u8 a) OR push_bit 8 (u8 b)" for a b, unfolded group_bytes]
  quad_bytes [where v = "push_bit 16 (u8 a)" for a, unfolded group_bytes]

lemma imapd_quad_digit:
  "18 - 6 * j = k \<Longrightarrow> imapd_quad fin (b64_digit v k # q) j 0 acc = imapd_quad fin q (j + 1) 0 (quad_in acc v k)"
  by (simp add: quad_in_def)

lemma imapd_quad_pad: "imapd_quad fin (PAD # q) j pad acc = (if \<not> fin \<or> j < 2 then None else imapd_quad fin q (j + 1) (pad + 1) acc)"
  by simp

declare imapd_quad.simps(2) [simp del]

lemma b64_encode_length: "length (b64_encode_loop p) = (length p + 2) div 3 * 4"
proof (induction p rule: b64_encode_loop.induct)
  case (1 a b c p)
  have "(5 + length p) div 3 = Suc (Suc (Suc (length p)) div 3)" by presburger
  with 1 show ?case by (simp add: Let_def)
qed (simp_all add: Let_def)

lemma imapd_loop_encoded:
  "length out \<le> outsz \<Longrightarrow> imapd_b64_loop (b64_encode_loop p) outsz out = (if length out + length p \<le> outsz then Some (out @ p) else None)"
proof (induction p arbitrary: out rule: b64_encode_loop.induct)
  case (1 a b c p)
  then show ?case using "1.IH" [OF refl, of "out @ [a, b, c]"]
    by (simp add: Let_def imapd_quad_digit quad_decoded)
qed (simp_all add: Let_def imapd_quad_digit imapd_quad_pad quad_decoded)

lemma imapd_decode_encode: "imapd_b64_decode (b64_encode_loop p) outsz = (if length p \<le> outsz then Some p else None)"
  by (simp add: imapd_b64_decode_def b64_encode_length imapd_loop_encoded)

text \<open>Both servers' decoders are left inverses of the client's encoder.\<close>

interpretation outbox_b64: coding b64_encode_loop "\<lambda>t. outbox_b64_decode t n" "\<lambda>p. length p \<le> n" for n
  by unfold_locales (simp add: outbox_decode_encode)

interpretation imapd_b64: coding b64_encode_loop "\<lambda>t. imapd_b64_decode t n" "\<lambda>p. length p \<le> n" for n
  by unfold_locales (simp add: imapd_decode_encode)

text \<open>
  C35. Credentials survive the wire. Whatever bytes are encoded (NULs included), encoding fails
  exactly when the output buffer cannot hold the text and its terminator; and both server decoders
  return exactly the encoded bytes when their buffer is large enough, and fail, rather than truncate,
  when it is not.
\<close>

theorem b64_roundtrip:
  "smtp_b64_encode p outsz =
     (if int (length p) \<le> SIZE_MAX div 2 \<and> (length p + 2) div 3 * 4 < outsz then Some (b64_encode_loop p) else None)
   \<and> length (b64_encode_loop p) = (length p + 2) div 3 * 4
   \<and> outbox_b64_decode (b64_encode_loop p) n = (if length p \<le> n then Some p else None)
   \<and> imapd_b64_decode (b64_encode_loop p) n = (if length p \<le> n then Some p else None)"
  by (simp add: smtp_b64_encode_def outbox_decode_encode imapd_decode_encode b64_encode_length)

end
