(* ===== verification/Smtp_Out.thy ===== *)
theory Smtp_Out
  imports Base64 Visage_Monad Smtp_Conn
begin

text \<open>
  The relay client (\<open>smtp_out.c\<close>), first part: its pure helpers and the bounded input and output
  over a connection that is in the clear or inside TLS. The sockets, the resolver, the clock and mbedTLS
  are the functions of \<open>RelayEnv\<close> on a world \<open>'w\<close>; a system call that was interrupted is taken to
  be retried, as the code does. A call that waits (\<open>poll\<close> followed by \<open>read\<close> or \<open>send\<close>) is one function
  that is given the number of milliseconds it may wait.
\<close>

section \<open>Pure helpers\<close>

definition SMTP_CONNECT_TIMEOUT_MS :: int where "SMTP_CONNECT_TIMEOUT_MS = 10000"
definition SMTP_DEFAULT_TIMEOUT :: u32 where "SMTP_DEFAULT_TIMEOUT = 60"
definition SMTP_MAX_CRED_LEN :: nat where "SMTP_MAX_CRED_LEN = 4096"
definition SMTP_WRITE_CHUNK :: nat where "SMTP_WRITE_CHUNK = 65536"
definition SMTP_MAX_REPLY :: nat where "SMTP_MAX_REPLY = 16384"

definition smtp_reply_code :: "string \<Rightarrow> nat option" where
  "smtp_reply_code line =
     (case line of
        a # b # c # _ \<Rightarrow>
          if is_digit a \<and> is_digit b \<and> is_digit c then Some (digit_val a * 100 + digit_val b * 10 + digit_val c) else None
      | _ \<Rightarrow> None)"

definition has_crlf :: "string \<Rightarrow> bool" where
  "has_crlf s \<longleftrightarrow> CR \<in> set s \<or> LF \<in> set s"

definition smtp_class :: "nat \<Rightarrow> smtp_status" where
  "smtp_class code =
     (if code \<ge> 200 \<and> code < 400 then SMTP_OK
      else if code \<ge> 400 \<and> code < 500 then SMTP_TEMPFAIL
      else if code \<ge> 500 \<and> code < 600 then SMTP_PERMFAIL
      else SMTP_ERROR)"

definition timeout_ms :: "u32 \<Rightarrow> int" where
  "timeout_ms seconds =
     (if seconds = 0 then -1
      else let ms = int (unat (ucast seconds * 1000 :: u64)) in
           if ms > 2147483647 then 2147483647 else ms)"

definition smtp_tls_valid :: "string \<Rightarrow> bool" where
  "smtp_tls_valid tls \<longleftrightarrow> tls = ''none'' \<or> tls = ''starttls'' \<or> tls = ''starttls-verify'' \<or> tls = ''implicit''"

text \<open>
  \<open>smtp_reply_has_cap\<close>: the tokens after the code of one line, then the lines.
\<close>

definition cap_sep :: "char \<Rightarrow> bool" where
  "cap_sep c \<longleftrightarrow> c = SP \<or> c = HT \<or> c = CR"

function cap_tokens :: "string \<Rightarrow> string \<Rightarrow> bool" where
  "cap_tokens p cap =
     (if p = [] then False
      else
        let p = dropWhile cap_sep p;
            tok = takeWhile (\<lambda>c. \<not> cap_sep c) p;
            rest = dropWhile (\<lambda>c. \<not> cap_sep c) p in
        if length tok = length cap \<and> ascii_ieq tok cap (length cap) then True
        else if p = [] then False
        else cap_tokens rest cap)"
  by pat_completeness auto
termination
proof (relation "measure (\<lambda>(p, cap). length p)")
  fix p cap :: string and x xa xb
  assume a: "x = dropWhile cap_sep p" "xb = dropWhile (\<lambda>c. \<not> cap_sep c) x" "x \<noteq> []"
  have "\<not> cap_sep (hd x)" using a(1,3) by (metis hd_dropWhile)
  then have "length xb < length x" using a(2,3) by (simp add: length_dropWhile_less)
  also have "length x \<le> length p" using a(1) by (simp add: length_dropWhile_le)
  finally show "((xb, cap), (p, cap)) \<in> measure (\<lambda>(p, cap). length p)" by simp
qed simp

declare cap_tokens.simps [simp del]

definition cap_line :: "string \<Rightarrow> bool" where
  "cap_line line \<longleftrightarrow> length line \<ge> 4 \<and> is_digit (line ! 0) \<and> is_digit (line ! 1) \<and> is_digit (line ! 2) \<and>
     (line ! 3 = SP \<or> line ! 3 = CHR ''-'')"

function cap_lines :: "string \<Rightarrow> string \<Rightarrow> bool" where
  "cap_lines reply cap =
     (if reply = [] then False
      else
        let line = takeWhile (\<lambda>c. c \<noteq> LF) reply;
            rest = drop 1 (dropWhile (\<lambda>c. c \<noteq> LF) reply) in
        if cap_line line \<and> cap_tokens (drop 4 line) cap then True
        else cap_lines rest cap)"
  by pat_completeness auto
termination
proof (relation "measure (\<lambda>(reply, cap). length reply)")
  fix reply cap :: string and x xa
  assume a: "reply \<noteq> []" "xa = drop 1 (dropWhile (\<lambda>c. c \<noteq> LF) reply)"
  then show "((xa, cap), (reply, cap)) \<in> measure (\<lambda>(reply, cap). length reply)"
    by (cases reply) (auto simp: less_Suc_eq_le intro: order.trans [OF diff_le_self length_dropWhile_le])
qed simp

declare cap_lines.simps [simp del]

definition smtp_reply_has_cap :: "string \<Rightarrow> string \<Rightarrow> bool" where
  "smtp_reply_has_cap reply cap = (if cap = [] then False else cap_lines reply cap)"

text \<open>The text of the first line of a reply, for the status message.\<close>

definition reply_first_text :: "string \<Rightarrow> nat \<Rightarrow> string" where
  "reply_first_text reply outsz =
     (if length reply < 4 then []
      else
        let end = length (takeWhile (\<lambda>c. c \<noteq> LF \<and> c \<noteq> CR) reply) in
        take (outsz - 1) (take (end - 4) (drop 4 reply)))"

definition smtp_auth_class :: "nat \<Rightarrow> smtp_status" where
  "smtp_auth_class code =
     (if code = 235 then SMTP_OK
      else if code \<ge> 400 \<and> code < 500 then SMTP_TEMPFAIL
      else if code \<ge> 500 \<and> code < 600 then SMTP_PERMFAIL
      else SMTP_ERROR)"

definition build_addr_cmd :: "nat \<Rightarrow> string \<Rightarrow> string \<Rightarrow> string option" where
  "build_addr_cmd bufsz verb addr =
     (let cmd = verb @ ''<'' @ addr @ ''>'' @ CRLF in
      if length cmd \<ge> bufsz then None else Some cmd)"

end
