(* ===== verification/Smtp_Relay.thy ===== *)
theory Smtp_Relay
  imports Smtp_Out Smtp_Delivery Mail_Body
begin

text \<open>
  The relay client (\<open>smtp_out.c\<close>), second part: the connection, the dialogue with the relay and the
  retry loop. The state is that of one call of \<open>smtp_out_send_host\<close>: the connection, the status text,
  the process-wide TLS set-up and the world. A return out of the middle of a function is the \<open>Inl\<close>
  side of its result (\<open>orelse\<close>).

  The one loop that the peer can keep running for ever is the one over the lines of a reply
  (\<open>smtp_read_reply\<close>): it takes fuel \<open>n\<close>, the number of lines of one reply, and \<open>r_stalled\<close> records that it ran out.
\<close>

section \<open>The outside world\<close>

text \<open>
  An SSL context: the configuration it was set up with and the host name given to it.
\<close>

datatype ssl_conf = Verify_none | Verify_required

record Ssl =
  ssl_setup :: "ssl_conf option"
  ssl_host :: "string option"

record 'w RelayEnv =
  net_resolve :: "string \<Rightarrow> string \<Rightarrow> 'w \<Rightarrow> (string + string list) \<times> 'w"
  net_socket :: "string \<Rightarrow> 'w \<Rightarrow> int \<times> 'w"
  net_set_nonblock :: "int \<Rightarrow> bool \<Rightarrow> 'w \<Rightarrow> bool \<times> 'w"
  net_connect :: "int \<Rightarrow> string \<Rightarrow> 'w \<Rightarrow> bool \<times> 'w"
  net_wait_connected :: "int \<Rightarrow> int \<Rightarrow> 'w \<Rightarrow> bool \<times> 'w"
  net_so_error :: "int \<Rightarrow> 'w \<Rightarrow> bool \<times> 'w"
  net_close :: "int \<Rightarrow> 'w \<Rightarrow> unit \<times> 'w"
  net_read :: "int \<Rightarrow> int \<Rightarrow> nat \<Rightarrow> 'w \<Rightarrow> string option \<times> 'w"
  net_send :: "int \<Rightarrow> int \<Rightarrow> string \<Rightarrow> 'w \<Rightarrow> nat \<times> 'w"
  net_sleep :: "u32 \<Rightarrow> 'w \<Rightarrow> unit \<times> 'w"
  mb_seed :: "'w \<Rightarrow> int \<times> 'w"
  mb_config :: "ssl_conf \<Rightarrow> 'w \<Rightarrow> int \<times> 'w"
  mb_parse_ca :: "string \<Rightarrow> 'w \<Rightarrow> int \<times> 'w"
  mb_setup :: "ssl_conf \<Rightarrow> 'w \<Rightarrow> int \<times> 'w"
  mb_set_hostname :: "string \<Rightarrow> 'w \<Rightarrow> int \<times> 'w"
  mb_handshake :: "Ssl \<Rightarrow> int \<Rightarrow> u32 \<Rightarrow> 'w \<Rightarrow> int \<times> 'w"
  mb_verify_result :: "Ssl \<Rightarrow> 'w \<Rightarrow> u32 \<times> 'w"
  mb_read :: "Ssl \<Rightarrow> int \<Rightarrow> u32 \<Rightarrow> nat \<Rightarrow> 'w \<Rightarrow> (int + string) \<times> 'w"
  mb_write :: "Ssl \<Rightarrow> int \<Rightarrow> u32 \<Rightarrow> string \<Rightarrow> 'w \<Rightarrow> nat \<times> 'w"
  mb_close_notify :: "Ssl \<Rightarrow> int \<Rightarrow> 'w \<Rightarrow> unit \<times> 'w"
  mb_strerror :: "int \<Rightarrow> string"

abbreviation MBEDTLS_ERR_X509_CERT_VERIFY_FAILED :: int where "MBEDTLS_ERR_X509_CERT_VERIFY_FAILED \<equiv> -0x2700"
abbreviation MBEDTLS_ERR_SSL_BAD_CERTIFICATE :: int where "MBEDTLS_ERR_SSL_BAD_CERTIFICATE \<equiv> -0x7A00"
abbreviation MBEDTLS_ERR_SSL_CA_CHAIN_REQUIRED :: int where "MBEDTLS_ERR_SSL_CA_CHAIN_REQUIRED \<equiv> -0x7680"

section \<open>State\<close>

text \<open>\<open>sc_rbuf\<close> holds the read-ahead bytes \<open>rbuf[rbuf_off..rbuf_len)\<close>.\<close>

record SmtpConn =
  sc_fd :: int
  sc_tls :: bool
  sc_tmo :: u32
  sc_rbuf :: string
  sc_ssl :: Ssl

text \<open>The lazily computed, sticky results of the process-wide TLS set-up; \<open>None\<close> is not ready.\<close>

record TlsGlobals =
  g_tls :: "int option"
  g_verify :: "int option"

record 'w Relay =
  r_conn :: SmtpConn
  r_status :: string
  r_status_sz :: nat
  r_tls :: TlsGlobals
  r_world :: 'w
  r_stalled :: bool

definition io :: "('w \<Rightarrow> 'r \<times> 'w) \<Rightarrow> ('w Relay, 'r) state" where
  "io f = State (\<lambda>s. case f (r_world s) of (r, w) \<Rightarrow> (r, s\<lparr>r_world := w\<rparr>))"

definition upd_relay :: "(SmtpConn \<Rightarrow> SmtpConn) \<Rightarrow> ('w Relay, unit) state" where
  "upd_relay f = modify (\<lambda>s. s\<lparr>r_conn := f (r_conn s)\<rparr>)"

lemma run_io [simp]: "run_state (io f) s = (fst (f (r_world s)), s\<lparr>r_world := snd (f (r_world s))\<rparr>)"
  by (simp add: io_def split_beta)

lemma run_upd_relay [simp]: "run_state (upd_relay f) s = ((), s\<lparr>r_conn := f (r_conn s)\<rparr>)"
  by (simp add: upd_relay_def)

text \<open>Go on unless the function has returned.\<close>

definition orelse :: "('s, 'e + 'a) state \<Rightarrow> ('a \<Rightarrow> ('s, 'e + 'b) state) \<Rightarrow> ('s, 'e + 'b) state" where
  "orelse m f = do {
     r \<leftarrow> m;
     case r of Inl e \<Rightarrow> return (Inl e) | Inr x \<Rightarrow> f x
   }"

definition set_status :: "string \<Rightarrow> ('w Relay, unit) state" where
  "set_status msg = modify (\<lambda>s. if r_status_sz s = 0 then s else s\<lparr>r_status := take (r_status_sz s - 1) (cstr msg)\<rparr>)"

section \<open>TLS set-up\<close>

definition smtp_tls_global_init :: "'w RelayEnv \<Rightarrow> ('w Relay, int) state" where
  "smtp_tls_global_init E = do {
     g \<leftarrow> gets r_tls;
     case g_tls g of
       Some r \<Rightarrow> return r
     | None \<Rightarrow> do {
         r0 \<leftarrow> io (mb_seed E);
         r1 \<leftarrow> (if r0 = 0 then io (mb_config E Verify_none) else return r0);
         r2 \<leftarrow> (if r1 = 0 then io (mb_config E Verify_required) else return r1);
         modify (\<lambda>s. s\<lparr>r_tls := (r_tls s)\<lparr>g_tls := Some r2\<rparr>\<rparr>);
         return r2
       }
   }"

text \<open>An empty \<open>tls_ca\<close> selects the embedded bundle; that choice is made by \<open>mb_parse_ca\<close>.\<close>

definition smtp_tls_verify_init :: "'w RelayEnv \<Rightarrow> string \<Rightarrow> ('w Relay, int) state" where
  "smtp_tls_verify_init E tls_ca = do {
     g \<leftarrow> gets r_tls;
     case g_verify g of
       Some r \<Rightarrow> return r
     | None \<Rightarrow> do {
         r0 \<leftarrow> smtp_tls_global_init E;
         r1 \<leftarrow> (if r0 \<noteq> 0 then return r0
               else do {
                 r \<leftarrow> io (mb_parse_ca E tls_ca);
                 return (if r < 0 then r else 0)
               });
         modify (\<lambda>s. s\<lparr>r_tls := (r_tls s)\<lparr>g_verify := Some r1\<rparr>\<rparr>);
         return r1
       }
   }"

section \<open>Bounded input and output\<close>

definition smtp_conn_init :: "int \<Rightarrow> SmtpConn" where
  "smtp_conn_init fd = \<lparr>sc_fd = fd, sc_tls = False, sc_tmo = 0, sc_rbuf = [], sc_ssl = \<lparr>ssl_setup = None, ssl_host = None\<rparr>\<rparr>"

definition smtp_conn_close :: "'w RelayEnv \<Rightarrow> bool \<Rightarrow> ('w Relay, unit) state" where
  "smtp_conn_close E graceful = do {
     c \<leftarrow> gets r_conn;
     whenM (sc_tls c \<and> graceful) (io (mb_close_notify E (sc_ssl c) (sc_fd c)));
     whenM (sc_fd c \<ge> 0) (io (net_close E (sc_fd c)));
     upd_relay (\<lambda>c. c\<lparr>sc_fd := -1\<rparr>)
   }"

text \<open>One byte; \<open>Inl True\<close> is end of input (0), \<open>Inl False\<close> a timeout or an error (-1).\<close>

definition RBUF_SIZE :: nat where "RBUF_SIZE = 4096"

definition conn_read_byte :: "'w RelayEnv \<Rightarrow> u32 \<Rightarrow> ('w Relay, bool + char) state" where
  "conn_read_byte E tmo = do {
     c \<leftarrow> gets r_conn;
     case sc_rbuf c of
       b # rest \<Rightarrow> do {
         upd_relay (\<lambda>c. c\<lparr>sc_rbuf := rest\<rparr>);
         return (Inr b)
       }
     | [] \<Rightarrow>
         if sc_tls c then do {
           upd_relay (\<lambda>c. c\<lparr>sc_tmo := tmo\<rparr>);
           r \<leftarrow> io (mb_read E (sc_ssl c) (sc_fd c) tmo RBUF_SIZE);
           case r of
             Inr (b # rest) \<Rightarrow> do {
               upd_relay (\<lambda>c. c\<lparr>sc_rbuf := rest\<rparr>);
               return (Inr b)
             }
           | Inr [] \<Rightarrow> return (Inl True)
           | Inl e \<Rightarrow> return (Inl (e = -0x7880))
         }
         else do {
           r \<leftarrow> io (net_read E (sc_fd c) (timeout_ms tmo) RBUF_SIZE);
           case r of
             Some (b # rest) \<Rightarrow> do {
               upd_relay (\<lambda>c. c\<lparr>sc_rbuf := rest\<rparr>);
               return (Inr b)
             }
           | Some [] \<Rightarrow> return (Inl True)
           | None \<Rightarrow> return (Inl False)
         }
   }"

text \<open>The number of bytes sent; 0 stands for every failure (-1).\<close>

definition conn_send :: "'w RelayEnv \<Rightarrow> string \<Rightarrow> u32 \<Rightarrow> ('w Relay, nat) state" where
  "conn_send E buf tmo = do {
     c \<leftarrow> gets r_conn;
     if sc_tls c then do {
       upd_relay (\<lambda>c. c\<lparr>sc_tmo := tmo\<rparr>);
       io (mb_write E (sc_ssl c) (sc_fd c) tmo buf)
     }
     else io (net_send E (sc_fd c) (timeout_ms tmo) (take SMTP_WRITE_CHUNK buf))
   }"

text \<open>\<open>smtp_read_line\<close>, with the room left in the line buffer as the recursion argument.\<close>

fun read_line_loop :: "'w RelayEnv \<Rightarrow> u32 \<Rightarrow> nat \<Rightarrow> string \<Rightarrow> ('w Relay, string option) state" where
  "read_line_loop E tmo 0 buf = return None"
| "read_line_loop E tmo (Suc room) buf = do {
     r \<leftarrow> conn_read_byte E tmo;
     case r of
       Inl _ \<Rightarrow> return None
     | Inr b \<Rightarrow> if b = LF then return (Some (buf @ [b])) else read_line_loop E tmo room (buf @ [b])
   }"

definition smtp_read_line :: "'w RelayEnv \<Rightarrow> u32 \<Rightarrow> nat \<Rightarrow> ('w Relay, string option) state" where
  "smtp_read_line E tmo bufsz = read_line_loop E tmo bufsz []"

text \<open>The code and the separator of a reply line.\<close>

definition reply_line :: "string \<Rightarrow> (nat \<times> bool) option" where
  "reply_line line =
     (if length line < 4 then None
      else case smtp_reply_code line of
        None \<Rightarrow> None
      | Some lc \<Rightarrow>
          if line ! 3 = SP then Some (lc, True)
          else if line ! 3 = CHR ''-'' then Some (lc, False)
          else None)"

definition line_text :: "string \<Rightarrow> string" where
  "line_text line =
     (let tlen = (if length line \<ge> 2 \<and> line ! (length line - 2) = CR \<and> line ! (length line - 1) = LF then length line - 2
                  else if length line \<ge> 1 \<and> line ! (length line - 1) = LF then length line - 1 else length line) in
      take (tlen - 4) (drop 4 line))"

fun read_reply_loop :: "'w RelayEnv \<Rightarrow> nat \<Rightarrow> u32 \<Rightarrow> (nat \<times> string) option \<Rightarrow> ('w Relay, (nat \<times> string) option) state" where
  "read_reply_loop E 0 tmo first = do {
     modify (\<lambda>s. s\<lparr>r_stalled := True\<rparr>);
     return None
   }"
| "read_reply_loop E (Suc n) tmo first = do {
     l \<leftarrow> smtp_read_line E tmo SMTP_MAX_LINE;
     case l of
       None \<Rightarrow> return None
     | Some line \<Rightarrow>
         (case reply_line line of
            None \<Rightarrow> return None
          | Some (lc, final) \<Rightarrow>
              (case first of
                 None \<Rightarrow>
                   let f = (lc, take (SMTP_MAX_LINE - 1) (line_text line)) in
                   if final then return (Some f) else read_reply_loop E n tmo (Some f)
               | Some f \<Rightarrow>
                   if lc \<noteq> fst f then return None
                   else if final then return (Some f) else read_reply_loop E n tmo first))
   }"

definition smtp_read_reply :: "'w RelayEnv \<Rightarrow> nat \<Rightarrow> u32 \<Rightarrow> ('w Relay, (nat \<times> string) option) state" where
  "smtp_read_reply E n tmo = read_reply_loop E n tmo None"

text \<open>
  \<open>smtp_read_reply_all\<close> keeps the text of every line; each line takes at least four bytes of the
  buffer, which bounds the recursion: \<open>n\<close> lines of room are enough when \<open>n\<close> is the size of the buffer.
\<close>

fun reply_all_loop :: "'w RelayEnv \<Rightarrow> nat \<Rightarrow> u32 \<Rightarrow> nat \<Rightarrow> nat option \<Rightarrow> string \<Rightarrow> ('w Relay, (nat \<times> string) option) state" where
  "reply_all_loop E 0 tmo replysz first sofar = return None"
| "reply_all_loop E (Suc n) tmo replysz first sofar = do {
     l \<leftarrow> smtp_read_line E tmo SMTP_MAX_LINE;
     case l of
       None \<Rightarrow> return None
     | Some line \<Rightarrow>
         (case reply_line line of
            None \<Rightarrow> return None
          | Some (lc, final) \<Rightarrow>
              if first \<noteq> None \<and> first \<noteq> Some lc then return None
              else if length sofar > replysz - 1 \<or> length line > replysz - 1 - length sofar then return None
              else if final then return (Some (lc, sofar @ line))
              else reply_all_loop E n tmo replysz (Some lc) (sofar @ line))
   }"

definition smtp_read_reply_all :: "'w RelayEnv \<Rightarrow> u32 \<Rightarrow> nat \<Rightarrow> ('w Relay, (nat \<times> string) option) state" where
  "smtp_read_reply_all E tmo replysz = reply_all_loop E replysz tmo replysz None []"

text \<open>\<open>smtp_write_all\<close>, on the bytes that are left; every round sends at least one.\<close>

fun write_loop :: "'w RelayEnv \<Rightarrow> nat \<Rightarrow> string \<Rightarrow> u32 \<Rightarrow> ('w Relay, bool) state" where
  "write_loop E 0 buf tmo = return (buf = [])"
| "write_loop E (Suc k) buf tmo =
     (if buf = [] then return True
      else do {
        w \<leftarrow> conn_send E buf tmo;
        if w = 0 then return False else write_loop E k (drop w buf) tmo
      })"

definition smtp_write_all :: "'w RelayEnv \<Rightarrow> string \<Rightarrow> u32 \<Rightarrow> ('w Relay, bool) state" where
  "smtp_write_all E buf tmo = write_loop E (length buf) buf tmo"

definition smtp_exchange :: "'w RelayEnv \<Rightarrow> nat \<Rightarrow> u32 \<Rightarrow> string \<Rightarrow> ('w Relay, nat option) state" where
  "smtp_exchange E n tmo cmd = do {
     ok \<leftarrow> smtp_write_all E cmd tmo;
     if \<not> ok then do { set_status ''write failed''; return None }
     else do {
       r \<leftarrow> smtp_read_reply E n tmo;
       case r of
         None \<Rightarrow> do { set_status ''read failed''; return None }
       | Some (code, txt) \<Rightarrow> do { set_status txt; return (Some code) }
     }
   }"

section \<open>Connecting\<close>

text \<open>One address of the list: the steps of the loop body, with the socket closed on every failure.\<close>

definition connect_addr :: "'w RelayEnv \<Rightarrow> string \<Rightarrow> ('w Relay, int option) state" where
  "connect_addr E a = do {
     s \<leftarrow> io (net_socket E a);
     if s < 0 then return None
     else do {
       nb \<leftarrow> io (net_set_nonblock E s True);
       let giveup = do { io (net_close E s); return None };
       if \<not> nb then giveup
       else do {
         ok \<leftarrow> io (net_connect E s a);
         if \<not> ok then giveup
         else do {
           up \<leftarrow> io (net_wait_connected E s SMTP_CONNECT_TIMEOUT_MS);
           if \<not> up then giveup
           else do {
             fine \<leftarrow> io (net_so_error E s);
             if \<not> fine then giveup
             else do {
               bl \<leftarrow> io (net_set_nonblock E s False);
               if \<not> bl then giveup else return (Some s)
             }
           }
         }
       }
     }
   }"

fun connect_loop :: "'w RelayEnv \<Rightarrow> string list \<Rightarrow> ('w Relay, int option) state" where
  "connect_loop E [] = return None"
| "connect_loop E (a # as) = do {
     r \<leftarrow> connect_addr E a;
     case r of Some s \<Rightarrow> return (Some s) | None \<Rightarrow> connect_loop E as
   }"

definition smtp_connect :: "'w RelayEnv \<Rightarrow> string \<Rightarrow> u32 \<Rightarrow> ('w Relay, int option) state" where
  "smtp_connect E host port = do {
     r \<leftarrow> io (net_resolve E host (dec_of_nat (unat port)));
     case r of
       Inl msg \<Rightarrow> do { set_status msg; return None }
     | Inr as \<Rightarrow> do {
         fd \<leftarrow> connect_loop E as;
         whenM (fd = None) (set_status ''connect failed'');
         return fd
       }
   }"

section \<open>The TLS handshake and AUTH\<close>

definition smtp_tls_handshake :: "'w RelayEnv \<Rightarrow> string \<Rightarrow> bool \<Rightarrow> string \<Rightarrow> u32 \<Rightarrow> ('w Relay, int + unit) state" where
  "smtp_tls_handshake E host verify tls_ca tmo = do {
     let fail = (\<lambda>msg r. do { set_status msg; return (Inl r) });
     let conf = (if verify then Verify_required else Verify_none);
     r0 \<leftarrow> smtp_tls_global_init E;
     if r0 \<noteq> 0 then fail ''tls init failed'' r0
     else do {
       r1 \<leftarrow> (if verify then smtp_tls_verify_init E tls_ca else return 0);
       if r1 \<noteq> 0 then fail ''tls verify init failed'' r1
       else do {
         r2 \<leftarrow> io (mb_setup E conf);
         if r2 \<noteq> 0 then fail ''tls setup failed'' r2
         else do {
           upd_relay (\<lambda>c. c\<lparr>sc_ssl := (sc_ssl c)\<lparr>ssl_setup := Some conf\<rparr>\<rparr>);
           r3 \<leftarrow> (if host \<noteq> [] then io (mb_set_hostname E host) else return 0);
           if r3 \<noteq> 0 then fail ''tls hostname failed'' r3
           else do {
             upd_relay (\<lambda>c. c\<lparr>sc_ssl := (sc_ssl c)\<lparr>ssl_host := (if host \<noteq> [] then Some host else None)\<rparr>, sc_tmo := tmo\<rparr>);
             c \<leftarrow> gets r_conn;
             r4 \<leftarrow> io (mb_handshake E (sc_ssl c) (sc_fd c) tmo);
             if r4 \<noteq> 0 then fail (mb_strerror E r4) r4
             else do {
               upd_relay (\<lambda>c. c\<lparr>sc_tls := True\<rparr>);
               return (Inr ())
             }
           }
         }
       }
     }
   }"

definition smtp_auth_plain :: "'w RelayEnv \<Rightarrow> nat \<Rightarrow> u32 \<Rightarrow> ConfigRelayAuth \<Rightarrow> ('w Relay, smtp_status) state" where
  "smtp_auth_plain E n tmo auth = do {
     let u = auth_username auth;
     let p = auth_password auth;
     if length u > SMTP_MAX_CRED_LEN \<or> length p > SMTP_MAX_CRED_LEN \<or> 1 + length u + 1 + length p > SMTP_MAX_CRED_LEN
     then do { set_status ''auth credentials too long''; return SMTP_ERROR }
     else do {
       let plain = NUL # u @ NUL # p;
       case smtp_b64_encode plain ((length plain + 2) div 3 * 4 + 1) of
         None \<Rightarrow> do { set_status ''base64 encode failed''; return SMTP_ERROR }
       | Some b64 \<Rightarrow> do {
           r \<leftarrow> smtp_exchange E n tmo (''AUTH PLAIN '' @ b64 @ CRLF);
           case r of
             None \<Rightarrow> return SMTP_TEMPFAIL
           | Some code \<Rightarrow>
               if code = 334 then do {
                 r \<leftarrow> smtp_exchange E n tmo (b64 @ CRLF);
                 case r of
                   None \<Rightarrow> return SMTP_TEMPFAIL
                 | Some code \<Rightarrow> return (smtp_auth_class code)
               }
               else return (smtp_auth_class code)
         }
     }
   }"

section \<open>The dialogue\<close>

definition smtp_send_data :: "'w RelayEnv \<Rightarrow> u32 \<Rightarrow> string \<Rightarrow> ('w Relay, bool) state" where
  "smtp_send_data E dtmo body = do {
     ok \<leftarrow> smtp_write_all E (mail_stuff_dots body) dtmo;
     if ok then smtp_write_all E (CRLF @ DOT # CRLF) dtmo else return False
   }"

abbreviation tls_opp :: "Config \<Rightarrow> bool" where "tls_opp c \<equiv> relay_tls (cfg_relay c) = ''starttls''"
abbreviation tls_verify :: "Config \<Rightarrow> bool" where "tls_verify c \<equiv> relay_tls (cfg_relay c) = ''starttls-verify''"
abbreviation tls_implicit :: "Config \<Rightarrow> bool" where "tls_implicit c \<equiv> relay_tls (cfg_relay c) = ''implicit''"

text \<open>Step 0: implicit TLS.\<close>

definition dlg_implicit :: "'w RelayEnv \<Rightarrow> Config \<Rightarrow> string \<Rightarrow> u32 \<Rightarrow> ('w Relay, smtp_status + unit) state" where
  "dlg_implicit E c host tmo =
     (if tls_implicit c then do {
        r \<leftarrow> smtp_tls_handshake E host False (relay_tls_ca (cfg_relay c)) tmo;
        return (case r of Inl _ \<Rightarrow> Inl SMTP_TEMPFAIL | Inr _ \<Rightarrow> Inr ())
      }
      else return (Inr ()))"

text \<open>Step 1: the greeting.\<close>

definition dlg_greeting :: "'w RelayEnv \<Rightarrow> nat \<Rightarrow> u32 \<Rightarrow> ('w Relay, smtp_status + unit) state" where
  "dlg_greeting E n tmo = do {
     r \<leftarrow> smtp_read_reply E n tmo;
     case r of
       None \<Rightarrow> do { set_status ''no greeting''; return (Inl SMTP_TEMPFAIL) }
     | Some (code, txt) \<Rightarrow> do {
         set_status txt;
         return (if code \<noteq> 220 then Inl (if code \<ge> 400 then smtp_class code else SMTP_ERROR) else Inr ())
       }
   }"

text \<open>Step 2: EHLO, keeping the capabilities.\<close>

definition ehlo_cmd :: "Config \<Rightarrow> string" where
  "ehlo_cmd c = ''EHLO '' @ (if cfg_hostname c \<noteq> [] then cfg_hostname c else ''localhost'') @ CRLF"

definition dlg_ehlo :: "'w RelayEnv \<Rightarrow> Config \<Rightarrow> u32 \<Rightarrow> ('w Relay, smtp_status + string) state" where
  "dlg_ehlo E c tmo =
     (if length (ehlo_cmd c) \<ge> SMTP_MAX_LINE then do { set_status ''EHLO name too long''; return (Inl SMTP_ERROR) }
      else do {
        ok \<leftarrow> smtp_write_all E (ehlo_cmd c) tmo;
        if \<not> ok then do { set_status ''write failed''; return (Inl SMTP_TEMPFAIL) }
        else do {
          r \<leftarrow> smtp_read_reply_all E tmo SMTP_MAX_REPLY;
          case r of
            None \<Rightarrow> do { set_status ''read failed''; return (Inl SMTP_TEMPFAIL) }
          | Some (code, caps) \<Rightarrow> do {
              sz \<leftarrow> gets r_status_sz;
              set_status (reply_first_text caps sz);
              return (if smtp_class code \<noteq> SMTP_OK then Inl (smtp_class code) else Inr caps)
            }
        }
      })"

text \<open>
  Step 3: STARTTLS. \<open>dlg_upgrade\<close> is the branch for a relay that advertises it; its result is
  whether TLS is up, and the class of a refusal.
\<close>

definition handshake_verdict :: "'w RelayEnv \<Rightarrow> bool \<Rightarrow> int \<Rightarrow> ('w Relay, smtp_status) state" where
  "handshake_verdict E verify hr =
     (if verify then
        if hr = MBEDTLS_ERR_X509_CERT_VERIFY_FAILED \<or> hr = MBEDTLS_ERR_SSL_BAD_CERTIFICATE \<or> hr = MBEDTLS_ERR_SSL_CA_CHAIN_REQUIRED
        then return SMTP_PERMFAIL
        else do {
          c \<leftarrow> gets r_conn;
          v \<leftarrow> io (mb_verify_result E (sc_ssl c));
          return (if v \<noteq> 0 then SMTP_PERMFAIL else SMTP_TEMPFAIL)
        }
      else return SMTP_TEMPFAIL)"

definition dlg_upgrade :: "'w RelayEnv \<Rightarrow> nat \<Rightarrow> Config \<Rightarrow> string \<Rightarrow> u32 \<Rightarrow> ('w Relay, smtp_status + (bool \<times> smtp_status)) state" where
  "dlg_upgrade E n c host tmo = do {
     r \<leftarrow> smtp_exchange E n tmo (''STARTTLS'' @ CRLF);
     case r of
       None \<Rightarrow> return (Inl SMTP_TEMPFAIL)
     | Some code \<Rightarrow>
         if code = 220 then do {
           upd_relay (\<lambda>c. c\<lparr>sc_rbuf := []\<rparr>);
           h \<leftarrow> smtp_tls_handshake E host (tls_verify c) (relay_tls_ca (cfg_relay c)) tmo;
           case h of
             Inl hr \<Rightarrow> do {
               v \<leftarrow> handshake_verdict E (tls_verify c) hr;
               return (Inl v)
             }
           | Inr _ \<Rightarrow> do {
               r \<leftarrow> smtp_exchange E n tmo (ehlo_cmd c);
               return (case r of
                   None \<Rightarrow> Inl SMTP_TEMPFAIL
                 | Some code \<Rightarrow> if smtp_class code \<noteq> SMTP_OK then Inl (smtp_class code) else Inr (True, SMTP_ERROR))
             }
         }
         else if tls_verify c then do {
           set_status ''STARTTLS refused (starttls-verify)'';
           return (Inl (if smtp_class code = SMTP_TEMPFAIL then SMTP_TEMPFAIL else SMTP_PERMFAIL))
         }
         else return (Inr (False, smtp_class code))
   }"

definition dlg_starttls :: "'w RelayEnv \<Rightarrow> nat \<Rightarrow> Config \<Rightarrow> string \<Rightarrow> u32 \<Rightarrow> string \<Rightarrow> ('w Relay, smtp_status + bool) state" where
  "dlg_starttls E n c host tmo caps =
     (if \<not> (tls_opp c \<or> tls_verify c) then return (Inr False)
      else
        let advertised = smtp_reply_has_cap caps ''STARTTLS'' in
        if tls_verify c \<and> \<not> advertised then do {
          set_status ''relay does not advertise STARTTLS (starttls-verify)'';
          return (Inl SMTP_PERMFAIL)
        }
        else orelse
          (if advertised then dlg_upgrade E n c host tmo else return (Inr (False, SMTP_ERROR)))
          (\<lambda>(did_tls, cls).
             if \<not> did_tls \<and> tls_opp c \<and> auth_enabled (relay_auth (cfg_relay c)) then do {
               set_status ''refusing to send AUTH over plaintext'';
               return (Inl (if cls = SMTP_TEMPFAIL then SMTP_TEMPFAIL else SMTP_PERMFAIL))
             }
             else return (Inr did_tls)))"

text \<open>Step 4: AUTH, over verified TLS only.\<close>

definition dlg_auth :: "'w RelayEnv \<Rightarrow> nat \<Rightarrow> Config \<Rightarrow> u32 \<Rightarrow> bool \<Rightarrow> ('w Relay, smtp_status + unit) state" where
  "dlg_auth E n c tmo did_tls =
     (if \<not> auth_enabled (relay_auth (cfg_relay c)) then return (Inr ())
      else if \<not> (tls_verify c \<and> did_tls) then do {
        set_status (''refusing AUTH over unverified TLS (relay.tls must be '' @ [DQ] @ ''starttls-verify'' @ [DQ] @ '')'');
        return (Inl SMTP_PERMFAIL)
      }
      else do {
        cls \<leftarrow> smtp_auth_plain E n tmo (relay_auth (cfg_relay c));
        return (if cls \<noteq> SMTP_OK then Inl cls else Inr ())
      })"

text \<open>Steps 5 and 6: one envelope command; steps 7 to 10: the message.\<close>

definition dlg_command :: "'w RelayEnv \<Rightarrow> nat \<Rightarrow> u32 \<Rightarrow> string \<Rightarrow> ('w Relay, smtp_status + unit) state" where
  "dlg_command E n tmo cmd = do {
     r \<leftarrow> smtp_exchange E n tmo cmd;
     return (case r of
         None \<Rightarrow> Inl SMTP_TEMPFAIL
       | Some code \<Rightarrow> if smtp_class code \<noteq> SMTP_OK then Inl (smtp_class code) else Inr ())
   }"

definition dlg_message :: "'w RelayEnv \<Rightarrow> nat \<Rightarrow> u32 \<Rightarrow> u32 \<Rightarrow> string \<Rightarrow> ('w Relay, smtp_status + unit) state" where
  "dlg_message E n tmo dtmo body = do {
     let refused = (\<lambda>code. Inl (if smtp_class code = SMTP_OK then SMTP_ERROR else smtp_class code));
     r \<leftarrow> smtp_exchange E n tmo (''DATA'' @ CRLF);
     case r of
       None \<Rightarrow> return (Inl SMTP_TEMPFAIL)
     | Some code \<Rightarrow>
         if code \<noteq> 354 then return (refused code)
         else do {
           ok \<leftarrow> smtp_send_data E dtmo body;
           if \<not> ok then do { set_status ''data write failed''; return (Inl SMTP_TEMPFAIL) }
           else do {
             r \<leftarrow> smtp_read_reply E n tmo;
             case r of
               None \<Rightarrow> do { set_status ''no reply after DATA''; return (Inl SMTP_TEMPFAIL) }
             | Some (code, txt) \<Rightarrow> do {
                 set_status txt;
                 if code \<noteq> 250 \<and> code \<noteq> 251 then return (refused code)
                 else do {
                   _ \<leftarrow> smtp_write_all E (''QUIT'' @ CRLF) tmo;
                   return (Inr ())
                 }
               }
           }
         }
   }"

definition smtp_dialogue :: "'w RelayEnv \<Rightarrow> nat \<Rightarrow> Config \<Rightarrow> string \<Rightarrow> u32 \<Rightarrow> u32 \<Rightarrow> string \<Rightarrow> string \<Rightarrow> string \<Rightarrow> ('w Relay, smtp_status) state" where
  "smtp_dialogue E n c host tmo dtmo body mail_cmd rcpt_cmd = do {
     r \<leftarrow> orelse (dlg_implicit E c host tmo) (\<lambda>_.
          orelse (dlg_greeting E n tmo) (\<lambda>_.
          orelse (dlg_ehlo E c tmo) (\<lambda>caps.
          orelse (dlg_starttls E n c host tmo caps) (\<lambda>did_tls.
          orelse (dlg_auth E n c tmo did_tls) (\<lambda>_.
          orelse (dlg_command E n tmo mail_cmd) (\<lambda>_.
          orelse (dlg_command E n tmo rcpt_cmd) (\<lambda>_.
          dlg_message E n tmo dtmo body)))))));
     return (case r of Inl s \<Rightarrow> s | Inr _ \<Rightarrow> SMTP_OK)
   }"

section \<open>Sending\<close>

text \<open>
  The attempts: \<open>left\<close> is \<open>retries - attempt\<close>, so \<open>attempt >= retries\<close> is \<open>left = 0\<close>.
\<close>

fun attempt_loop :: "'w RelayEnv \<Rightarrow> string \<Rightarrow> u32 \<Rightarrow> ('w Relay, smtp_status) state \<Rightarrow> nat \<Rightarrow> u32 \<Rightarrow> ('w Relay, smtp_status) state" where
  "attempt_loop E host port dialogue left attempt = do {
     whenM (attempt > 0) (io (net_sleep E (smtp_backoff_sec attempt)));
     fd \<leftarrow> smtp_connect E host port;
     let again = (case left of 0 \<Rightarrow> return SMTP_TEMPFAIL | Suc k \<Rightarrow> attempt_loop E host port dialogue k (attempt + 1));
     case fd of
       None \<Rightarrow> again
     | Some fd \<Rightarrow> do {
         upd_relay (\<lambda>_. smtp_conn_init fd);
         rc \<leftarrow> dialogue;
         smtp_conn_close E (rc = SMTP_OK);
         if rc = SMTP_TEMPFAIL then again else return rc
       }
   }"

declare attempt_loop.simps [simp del]

definition smtp_out_send_host :: "'w RelayEnv \<Rightarrow> nat \<Rightarrow> Config \<Rightarrow> string \<Rightarrow> u32 \<Rightarrow> string \<Rightarrow> string \<Rightarrow> string \<Rightarrow> ('w Relay, smtp_status) state" where
  "smtp_out_send_host E n c host port from to body = do {
     let bad = (\<lambda>msg. do { set_status msg; return SMTP_ERROR });
     set_status [];
     if host = [] then bad ''bad arguments''
     else if \<not> smtp_tls_valid (relay_tls (cfg_relay c))
     then bad (''invalid relay.tls (expected '' @ [DQ] @ ''none'' @ [DQ] @ '', '' @ [DQ] @ ''starttls'' @ [DQ] @ '', or '' @ [DQ] @ ''starttls-verify'' @ [DQ] @ '')'')
     else if has_crlf from \<or> has_crlf to then bad ''invalid envelope address''
     else if to = [] then bad ''empty envelope address''
     else do {
       let tmo = (if cmd_timeout (cfg_limits c) \<noteq> 0 then cmd_timeout (cfg_limits c) else SMTP_DEFAULT_TIMEOUT);
       let dtmo = (if data_timeout (cfg_limits c) \<noteq> 0 then data_timeout (cfg_limits c) else tmo);
       case (build_addr_cmd SMTP_MAX_LINE ''MAIL FROM:'' from, build_addr_cmd SMTP_MAX_LINE ''RCPT TO:'' to) of
         (Some mail_cmd, Some rcpt_cmd) \<Rightarrow>
           attempt_loop E host port (smtp_dialogue E n c host tmo dtmo body mail_cmd rcpt_cmd) (unat (relay_retries (cfg_relay c))) 0
       | _ \<Rightarrow> bad ''envelope address too long''
     }
   }"

definition smtp_out_send_relay :: "'w RelayEnv \<Rightarrow> nat \<Rightarrow> Config \<Rightarrow> string \<Rightarrow> string \<Rightarrow> string \<Rightarrow> ('w Relay, smtp_status) state" where
  "smtp_out_send_relay E n c from to body = do {
     set_status [];
     if relay_host (cfg_relay c) = [] then do { set_status ''no relay host configured''; return SMTP_ERROR }
     else smtp_out_send_host E n c (relay_host (cfg_relay c)) (relay_port (cfg_relay c)) from to body
   }"

end
