(* ===== verification/Smtp_Relay_Proofs.thy ===== *)
theory Smtp_Relay_Proofs
  imports Smtp_Relay Smtp_Data_Proofs Smtp_World "HOL-Library.Sublist"
begin

text \<open>
  What the relay client says to whom. \<open>recorded E\<close> is any environment \<open>E\<close> with a log of what
  leaves the process: the bytes sent in the clear, the bytes sent inside a TLS session (with the
  session they were sent in), the handshakes that succeeded, the addresses dialled and the pauses. The properties
  are statements about the log that hold for every environment, whatever the relay answers.
\<close>

section \<open>Recording\<close>

datatype said = Clear string | Secret int Ssl string | Handshaken int Ssl | Dialled string | Slept u32

definition unlogged :: "('w \<Rightarrow> 'r \<times> 'w) \<Rightarrow> 'w \<times> said list \<Rightarrow> 'r \<times> 'w \<times> said list" where
  "unlogged f wl = (case wl of (w, l) \<Rightarrow> case f w of (r, w') \<Rightarrow> (r, w', l))"

definition logged :: "('w \<Rightarrow> 'r \<times> 'w) \<Rightarrow> ('r \<Rightarrow> said list) \<Rightarrow> 'w \<times> said list \<Rightarrow> 'r \<times> 'w \<times> said list" where
  "logged f ev wl = (case wl of (w, l) \<Rightarrow> case f w of (r, w') \<Rightarrow> (r, w', l @ ev r))"

definition recorded :: "'w RelayEnv \<Rightarrow> ('w \<times> said list) RelayEnv" where
  "recorded E =
     \<lparr>net_resolve = \<lambda>h p. logged (net_resolve E h p) (\<lambda>_. [Dialled h]),
      net_socket = \<lambda>a. unlogged (net_socket E a),
      net_set_nonblock = \<lambda>fd b. unlogged (net_set_nonblock E fd b),
      net_connect = \<lambda>fd a. unlogged (net_connect E fd a),
      net_wait_connected = \<lambda>fd ms. unlogged (net_wait_connected E fd ms),
      net_so_error = \<lambda>fd. unlogged (net_so_error E fd),
      net_close = \<lambda>fd. unlogged (net_close E fd),
      net_read = \<lambda>fd ms n. unlogged (net_read E fd ms n),
      net_send = \<lambda>fd ms buf. logged (net_send E fd ms buf) (\<lambda>n. [Clear (take n buf)]),
      net_sleep = \<lambda>t. logged (net_sleep E t) (\<lambda>_. [Slept t]),
      mb_seed = unlogged (mb_seed E),
      mb_config = \<lambda>v. unlogged (mb_config E v),
      mb_parse_ca = \<lambda>ca. unlogged (mb_parse_ca E ca),
      mb_setup = \<lambda>v. unlogged (mb_setup E v),
      mb_set_hostname = \<lambda>h. unlogged (mb_set_hostname E h),
      mb_handshake = \<lambda>ssl fd t. logged (mb_handshake E ssl fd t) (\<lambda>r. if r = 0 then [Handshaken fd ssl] else []),
      mb_verify_result = \<lambda>ssl. unlogged (mb_verify_result E ssl),
      mb_read = \<lambda>ssl fd t n. unlogged (mb_read E ssl fd t n),
      mb_write = \<lambda>ssl fd t buf. logged (mb_write E ssl fd t buf) (\<lambda>n. [Secret fd ssl (take n buf)]),
      mb_close_notify = \<lambda>ssl fd. unlogged (mb_close_notify E ssl fd),
      mb_strerror = mb_strerror E\<rparr>"

abbreviation rlog :: "('w \<times> said list) Relay \<Rightarrow> said list" where
  "rlog s \<equiv> snd (r_world s)"

lemma snd_unlogged [simp]: "snd (snd (unlogged f wl)) = snd wl"
  by (simp add: unlogged_def split_beta)

lemma snd_logged [simp]: "snd (snd (logged f ev wl)) = snd wl @ ev (fst (logged f ev wl))"
  by (simp add: logged_def split_beta)

section \<open>What a computation adds to the log\<close>

text \<open>
  \<open>emits obs m Q\<close>: what the run of \<open>m\<close> adds to the log, seen through \<open>obs\<close>, is related to the result by \<open>Q\<close>.
\<close>

definition observe :: "(said \<Rightarrow> 'b list) \<Rightarrow> ('w \<times> said list) Relay \<Rightarrow> 'b list" where
  "observe obs s = concat (map obs (rlog s))"

definition emits :: "(said \<Rightarrow> 'b list) \<Rightarrow> (('w \<times> said list) Relay, 'r) state \<Rightarrow> ('r \<Rightarrow> 'b list \<Rightarrow> bool) \<Rightarrow> bool" where
  "emits obs m Q \<longleftrightarrow> (\<forall>s. \<exists>w. observe obs (exec m s) = observe obs s @ w \<and> Q (eval m s) w)"

lemma emitsD: "emits obs m Q \<Longrightarrow> \<exists>w. observe obs (exec m s) = observe obs s @ w \<and> Q (eval m s) w"
  by (simp add: emits_def)

lemma emits_mono: "emits obs m R \<Longrightarrow> (\<And>x w. R x w \<Longrightarrow> Q x w) \<Longrightarrow> emits obs m Q"
  unfolding emits_def by blast

lemma emits_return [intro]: "Q x [] \<Longrightarrow> emits obs (return x) Q"
  by (simp add: emits_def)

lemma emits_bind:
  assumes "emits obs m R" "\<And>x w. R x w \<Longrightarrow> emits obs (f x) (\<lambda>y w'. Q y (w @ w'))"
  shows "emits obs (m \<bind> f) Q"
  unfolding emits_def
proof
  fix s
  obtain w where w: "observe obs (exec m s) = observe obs s @ w" "R (eval m s) w" using emitsD [OF assms(1)] by blast
  obtain w' where "observe obs (exec (f (eval m s)) (exec m s)) = observe obs (exec m s) @ w'" "Q (eval (f (eval m s)) (exec m s)) (w @ w')"
    using emitsD [OF assms(2) [OF w(2)]] by blast
  then show "\<exists>w. observe obs (exec (m \<bind> f) s) = observe obs s @ w \<and> Q (eval (m \<bind> f) s) w" using w by auto
qed

text \<open>A silent computation adds nothing that \<open>obs\<close> shows.\<close>

abbreviation silent :: "(said \<Rightarrow> 'b list) \<Rightarrow> (('w \<times> said list) Relay, 'r) state \<Rightarrow> bool" where
  "silent obs m \<equiv> emits obs m (\<lambda>_ w. w = [])"

lemma silent_bind: "silent obs m \<Longrightarrow> (\<And>x. emits obs (f x) Q) \<Longrightarrow> emits obs (m \<bind> f) Q"
  by (rule emits_bind [where R = "\<lambda>_ w. w = []"]) auto

lemma silent_gets: "silent obs (gets f)"
  by (simp add: emits_def)

lemma silent_modify: "(\<And>s. r_world (f s) = r_world s) \<Longrightarrow> silent obs (modify f)"
  by (simp add: emits_def observe_def)

lemma silent_set_status: "silent obs (set_status msg)"
  unfolding set_status_def by (rule silent_modify) simp

lemma silent_upd_relay: "silent obs (upd_relay f)"
  by (simp add: emits_def observe_def)

lemma silent_unlogged: "silent obs (io (unlogged f))"
  by (simp add: emits_def observe_def)

lemma emits_logged: "(\<And>r. Q r (concat (map obs (ev r)))) \<Longrightarrow> emits obs (io (logged f ev)) Q"
  by (simp add: emits_def observe_def)

lemma emits_whenM: "(b \<Longrightarrow> emits obs m Q) \<Longrightarrow> (\<not> b \<Longrightarrow> Q () []) \<Longrightarrow> emits obs (whenM b m) Q"
  by (simp add: whenM_def emits_return)

lemma emits_orelse:
  assumes "emits obs m R" "\<And>e w. R (Inl e) w \<Longrightarrow> Q (Inl e) w" "\<And>x w. R (Inr x) w \<Longrightarrow> emits obs (f x) (\<lambda>y w'. Q y (w @ w'))"
  shows "emits obs (orelse m f) Q"
  unfolding orelse_def by (rule emits_bind [OF assms(1)]) (auto split: sum.split intro!: emits_return assms(3) dest: assms(2))

lemma silent_orelse: "silent obs m \<Longrightarrow> (\<And>x. silent obs (f x)) \<Longrightarrow> silent obs (orelse m f)"
  by (erule emits_orelse) auto

lemma emits_if: "(b \<Longrightarrow> emits obs m Q) \<Longrightarrow> (\<not> b \<Longrightarrow> emits obs n Q) \<Longrightarrow> emits obs (if b then m else n) Q"
  by simp

lemma emits_prod: "(\<And>a b. p = (a, b) \<Longrightarrow> emits obs (f a b) Q) \<Longrightarrow> emits obs (case p of (a, b) \<Rightarrow> f a b) Q"
  by (cases p) simp

lemmas silent_rules = silent_gets silent_set_status silent_upd_relay silent_unlogged

lemma recorded_io:
  "silent obs (io (net_socket (recorded E) a))" "silent obs (io (net_set_nonblock (recorded E) fd b))"
  "silent obs (io (net_connect (recorded E) fd a))" "silent obs (io (net_wait_connected (recorded E) fd ms))"
  "silent obs (io (net_so_error (recorded E) fd))" "silent obs (io (net_close (recorded E) fd))"
  "silent obs (io (net_read (recorded E) fd ms n))" "silent obs (io (mb_seed (recorded E)))"
  "silent obs (io (mb_config (recorded E) v))" "silent obs (io (mb_parse_ca (recorded E) ca))"
  "silent obs (io (mb_setup (recorded E) v))" "silent obs (io (mb_set_hostname (recorded E) h))"
  "silent obs (io (mb_verify_result (recorded E) ssl))" "silent obs (io (mb_read (recorded E) ssl fd t n))"
  "silent obs (io (mb_close_notify (recorded E) ssl fd))"
  by (simp_all add: recorded_def silent_unlogged)

text \<open>Reading adds nothing, whatever is observed; nor does connecting or setting TLS up, when dialling and handshakes are not observed.\<close>

lemmas emits_steps = silent_bind emits_return silent_rules recorded_io

lemma silent_read_byte: "silent obs (conn_read_byte (recorded E) tmo)"
  unfolding conn_read_byte_def by (auto intro!: emits_steps split: list.split sum.split option.split)

lemma silent_read_line_loop: "silent obs (read_line_loop (recorded E) tmo room buf)"
  by (induction room arbitrary: buf) (auto intro!: emits_steps silent_read_byte split: sum.split)

lemma silent_read_line: "silent obs (smtp_read_line (recorded E) tmo bufsz)"
  unfolding smtp_read_line_def by (rule silent_read_line_loop)

lemma silent_read_reply: "silent obs (smtp_read_reply (recorded E) n tmo)"
proof -
  have "silent obs (read_reply_loop (recorded E) n tmo first)" for first
    by (induction n arbitrary: first)
       (auto intro!: emits_steps silent_modify silent_read_line simp: Let_def split: option.split)
  then show ?thesis unfolding smtp_read_reply_def .
qed

lemma silent_read_reply_all: "silent obs (smtp_read_reply_all (recorded E) tmo replysz)"
proof -
  have "silent obs (reply_all_loop (recorded E) n tmo replysz first sofar)" for n first sofar
    by (induction n arbitrary: first sofar) (auto intro!: emits_steps silent_read_line split: option.split)
  then show ?thesis unfolding smtp_read_reply_all_def .
qed

lemma silent_tls_init:
  "silent obs (smtp_tls_global_init (recorded E))" "silent obs (smtp_tls_verify_init (recorded E) ca)"
proof -
  show g: "silent obs (smtp_tls_global_init (recorded E))"
    unfolding smtp_tls_global_init_def by (auto intro!: emits_steps silent_modify split: option.split)
  show "silent obs (smtp_tls_verify_init (recorded E) ca)"
    unfolding smtp_tls_verify_init_def by (auto intro!: emits_steps silent_modify g split: option.split)
qed

lemma silent_handshake:
  assumes "\<And>fd ssl. obs (Handshaken fd ssl) = []"
  shows "silent obs (smtp_tls_handshake (recorded E) host verify ca tmo)"
proof -
  have "silent obs (io (mb_handshake (recorded E) ssl fd t))" for ssl fd t
    by (auto simp: recorded_def assms intro!: emits_logged)
  then show ?thesis
    unfolding smtp_tls_handshake_def Let_def by (auto intro!: emits_steps silent_tls_init)
qed

lemma silent_connect_loop: "silent obs (connect_loop (recorded E) as)"
  by (induction as) (auto intro!: emits_steps simp: connect_addr_def Let_def split: option.split)

lemma silent_conn_close: "silent obs (smtp_conn_close (recorded E) graceful)"
  unfolding smtp_conn_close_def by (auto intro!: emits_steps emits_whenM)

section \<open>The transcript\<close>

fun bytes :: "said \<Rightarrow> string" where
  "bytes (Clear b) = b"
| "bytes (Secret fd ssl b) = b"
| "bytes _ = []"

text \<open>The documented behaviour of \<open>send\<close>: it takes no more bytes than it is given.\<close>

definition send_bounded :: "'w RelayEnv \<Rightarrow> bool" where
  "send_bounded E \<longleftrightarrow> (\<forall>fd ms buf w. fst (net_send E fd ms buf w) \<le> length buf)"

lemma emits_conn_send:
  assumes "send_bounded E"
  shows "emits bytes (conn_send (recorded E) buf tmo) (\<lambda>n w. w = take n buf)"
proof -
  have "emits bytes (io (net_send (recorded E) fd ms (take k buf))) (\<lambda>n w. w = take n buf)" for fd ms k
    unfolding emits_def
  proof
    fix s :: "('a \<times> said list) Relay"
    have "fst (net_send (recorded E) fd ms (take k buf) (r_world s)) \<le> length (take k buf)"
      using assms by (simp add: send_bounded_def recorded_def logged_def split_beta del: length_take)
    then have "fst (net_send (recorded E) fd ms (take k buf) (r_world s)) \<le> k" by simp
    then have "take (fst (net_send (recorded E) fd ms (take k buf) (r_world s))) (take k buf) = take (fst (net_send (recorded E) fd ms (take k buf) (r_world s))) buf"
      by (simp add: min_absorb1)
    then show "\<exists>w. observe bytes (exec (io (net_send (recorded E) fd ms (take k buf))) s) = observe bytes s @ w \<and>
        w = take (eval (io (net_send (recorded E) fd ms (take k buf))) s) buf"
      by (simp add: recorded_def observe_def)
  qed
  moreover have "emits bytes (io (mb_write (recorded E) ssl fd t buf)) (\<lambda>n w. w = take n buf)" for ssl fd t
    by (simp add: recorded_def emits_logged)
  ultimately show ?thesis
    unfolding conn_send_def by (auto intro!: silent_bind silent_rules)
qed

lemma emits_write_all:
  assumes "send_bounded E"
  shows "emits bytes (smtp_write_all (recorded E) buf tmo) (\<lambda>ok w. (ok \<longrightarrow> w = buf) \<and> prefix w buf)"
proof -
  have "length buf \<le> k \<Longrightarrow> emits bytes (write_loop (recorded E) k buf tmo) (\<lambda>ok w. (ok \<longrightarrow> w = buf) \<and> prefix w buf)" for k
  proof (induction k arbitrary: buf)
    case (Suc k)
    show ?case
    proof (cases "buf = []")
      case False
      have "emits bytes (if n = 0 then return False else write_loop (recorded E) k (drop n buf) tmo)
          (\<lambda>ok w. (ok \<longrightarrow> take n buf @ w = buf) \<and> prefix (take n buf @ w) buf)" for n
      proof (cases "n = 0")
        case False
        then have "emits bytes (write_loop (recorded E) k (drop n buf) tmo) (\<lambda>ok w. (ok \<longrightarrow> w = drop n buf) \<and> prefix w (drop n buf))"
          using Suc.prems by (intro Suc.IH) simp
        then show ?thesis using False by (auto elim!: emits_mono) (metis append_take_drop_id same_prefix_prefix)
      qed (auto intro!: emits_return)
      then show ?thesis using False by (auto intro!: emits_bind [OF emits_conn_send [OF assms]])
    qed (auto intro!: emits_return)
  qed (auto intro!: emits_return)
  then show ?thesis unfolding smtp_write_all_def by simp
qed

lemma emits_exchange:
  assumes "send_bounded E"
  shows "emits bytes (smtp_exchange (recorded E) n tmo cmd) (\<lambda>r w. r \<noteq> None \<longrightarrow> w = cmd)"
  unfolding smtp_exchange_def
  by (rule emits_bind [OF emits_write_all [OF assms]])
     (auto intro!: silent_bind silent_set_status silent_read_reply emits_return split: option.split)

lemma write_all_bind:
  assumes "send_bounded E" "\<And>w. prefix w buf \<Longrightarrow> emits bytes (f False) (\<lambda>y w'. Q y (w @ w'))" "emits bytes (f True) (\<lambda>y w'. Q y (buf @ w'))"
  shows "emits bytes (smtp_write_all (recorded E) buf tmo \<bind> f) Q"
proof (rule emits_bind [OF emits_write_all [OF assms(1)]])
  fix ok w
  assume "(ok \<longrightarrow> w = buf) \<and> prefix w buf"
  then show "emits bytes (f ok) (\<lambda>y w'. Q y (w @ w'))" using assms(2,3) by (cases ok) auto
qed

lemma exchange_bind:
  assumes "send_bounded E" "\<And>w. emits bytes (f None) (\<lambda>y w'. Q y (w @ w'))" "\<And>code. emits bytes (f (Some code)) (\<lambda>y w'. Q y (cmd @ w'))"
  shows "emits bytes (smtp_exchange (recorded E) n tmo cmd \<bind> f) Q"
proof (rule emits_bind [OF emits_exchange [OF assms(1)]])
  fix r :: "nat option" and w
  assume "r \<noteq> None \<longrightarrow> w = cmd"
  then show "emits bytes (f r) (\<lambda>y w'. Q y (w @ w'))" using assms(2,3) by (cases r) auto
qed

lemma verdict_bind:
  "(\<And>e. e \<noteq> SMTP_OK \<Longrightarrow> emits obs (f e) Q) \<Longrightarrow> emits obs (handshake_verdict (recorded E) verify hr \<bind> f) Q"
proof (rule emits_bind [where R = "\<lambda>e w. w = [] \<and> e \<noteq> SMTP_OK"])
  show "emits obs (handshake_verdict (recorded E) verify hr) (\<lambda>e w. w = [] \<and> e \<noteq> SMTP_OK)"
    unfolding handshake_verdict_def by (auto intro!: emits_steps split: if_splits)
qed auto

lemma smtp_class_OK: "smtp_class code = SMTP_OK \<longleftrightarrow> 200 \<le> code \<and> code < 400"
  by (simp add: smtp_class_def)

lemmas quiet_binds = silent_bind [OF silent_upd_relay] verdict_bind silent_bind [OF silent_set_status]
  silent_bind [OF silent_gets] silent_bind [OF silent_read_reply] silent_bind [OF silent_read_reply_all]

lemma bytes_unseen: "bytes (Handshaken fd ssl) = []" by simp

text \<open>The commands of the dialogue that depend on the relay's capabilities and on the configuration.\<close>

definition said_starttls :: "Config \<Rightarrow> bool \<Rightarrow> string \<Rightarrow> bool" where
  "said_starttls c did_tls w \<longleftrightarrow> (if did_tls then w = ''STARTTLS'' @ CRLF @ ehlo_cmd c else w = [] \<or> w = ''STARTTLS'' @ CRLF)"

definition said_auth :: "Config \<Rightarrow> string \<Rightarrow> bool" where
  "said_auth c w \<longleftrightarrow>
     (let a = relay_auth (cfg_relay c); b64 = b64_encode_loop (NUL # auth_username a @ NUL # auth_password a) in
      if auth_enabled a then w = ''AUTH PLAIN '' @ b64 @ CRLF \<or> w = ''AUTH PLAIN '' @ b64 @ CRLF @ b64 @ CRLF else w = [])"

lemma emits_upgrade:
  assumes "send_bounded E"
  shows "emits bytes (dlg_upgrade (recorded E) n c host tmo)
    (\<lambda>r w. case r of Inl e \<Rightarrow> e \<noteq> SMTP_OK | Inr (did_tls, _) \<Rightarrow> w = ''STARTTLS'' @ CRLF @ (if did_tls then ehlo_cmd c else []))"
  unfolding dlg_upgrade_def
  by (auto intro!: exchange_bind [OF assms] quiet_binds silent_bind [OF silent_handshake] emits_return bytes_unseen
      split: option.split sum.split if_splits)

lemma emits_starttls:
  assumes "send_bounded E"
  shows "emits bytes (dlg_starttls (recorded E) n c host tmo caps) (\<lambda>r w. case r of Inl e \<Rightarrow> e \<noteq> SMTP_OK | Inr did_tls \<Rightarrow> said_starttls c did_tls w)"
proof -
  have "emits bytes (if adv then dlg_upgrade (recorded E) n c host tmo else return (Inr (False, SMTP_ERROR)))
    (\<lambda>r w. case r of Inl e \<Rightarrow> e \<noteq> SMTP_OK | Inr (did_tls, _) \<Rightarrow> said_starttls c did_tls w)" for adv
  proof (cases adv)
    case True
    have "emits bytes (dlg_upgrade (recorded E) n c host tmo) (\<lambda>r w. case r of Inl e \<Rightarrow> e \<noteq> SMTP_OK | Inr (did_tls, _) \<Rightarrow> said_starttls c did_tls w)"
      by (rule emits_mono [OF emits_upgrade [OF assms]]) (auto simp: said_starttls_def split: sum.splits if_splits)
    then show ?thesis using True by simp
  qed (simp add: emits_return said_starttls_def)
  note * = emits_orelse [OF this]
  show ?thesis
    unfolding dlg_starttls_def Let_def
    by (intro emits_if * quiet_binds emits_prod emits_return) (simp_all add: said_starttls_def)
qed

lemma emits_auth:
  assumes "send_bounded E"
  shows "emits bytes (dlg_auth (recorded E) n c tmo did_tls) (\<lambda>r w. case r of Inl e \<Rightarrow> e \<noteq> SMTP_OK | Inr _ \<Rightarrow> said_auth c w)"
proof -
  let ?a = "relay_auth (cfg_relay c)"
  let ?b = "b64_encode_loop (NUL # auth_username ?a @ NUL # auth_password ?a)"
  have "emits bytes (smtp_auth_plain (recorded E) n tmo ?a)
    (\<lambda>r w. r = SMTP_OK \<longrightarrow> w = ''AUTH PLAIN '' @ ?b @ CRLF \<or> w = ''AUTH PLAIN '' @ ?b @ CRLF @ ?b @ CRLF)"
    unfolding smtp_auth_plain_def Let_def
    by (auto intro!: quiet_binds exchange_bind [OF assms] emits_return simp: smtp_b64_encode_def split: option.split)
  note * = emits_bind [OF this]
  show ?thesis
    unfolding dlg_auth_def said_auth_def Let_def
    by (auto intro!: * silent_bind [OF silent_set_status] emits_return)
qed

lemma emits_implicit: "emits bytes (dlg_implicit (recorded E) c host tmo) (\<lambda>r w. w = [] \<and> r \<noteq> Inl SMTP_OK)"
  unfolding dlg_implicit_def by (auto intro!: silent_bind [OF silent_handshake] bytes_unseen emits_return split: sum.splits)

lemma emits_greeting: "emits bytes (dlg_greeting (recorded E) n tmo) (\<lambda>r w. w = [] \<and> r \<noteq> Inl SMTP_OK)"
  unfolding dlg_greeting_def by (auto intro!: quiet_binds emits_return simp: smtp_class_OK split: option.split)

lemma emits_ehlo:
  assumes "send_bounded E"
  shows "emits bytes (dlg_ehlo (recorded E) c tmo) (\<lambda>r w. case r of Inl e \<Rightarrow> e \<noteq> SMTP_OK | Inr _ \<Rightarrow> w = ehlo_cmd c)"
  unfolding dlg_ehlo_def
  by (auto intro!: quiet_binds write_all_bind [OF assms] emits_return split: option.split)

lemma emits_command:
  assumes "send_bounded E"
  shows "emits bytes (dlg_command (recorded E) n tmo cmd) (\<lambda>r w. case r of Inl e \<Rightarrow> e \<noteq> SMTP_OK | Inr _ \<Rightarrow> w = cmd)"
  unfolding dlg_command_def by (auto intro!: exchange_bind [OF assms] emits_return)

lemma emits_message:
  assumes "send_bounded E"
  shows "emits bytes (dlg_message (recorded E) n tmo dtmo body)
    (\<lambda>r w. case r of Inl e \<Rightarrow> e \<noteq> SMTP_OK | Inr _ \<Rightarrow>
       \<exists>quit. w = ''DATA'' @ CRLF @ mail_stuff_dots body @ CRLF @ DOT # CRLF @ quit \<and> prefix quit (''QUIT'' @ CRLF))"
proof -
  have "emits bytes (smtp_send_data (recorded E) dtmo body) (\<lambda>ok w. ok \<longrightarrow> w = mail_stuff_dots body @ CRLF @ DOT # CRLF)"
    unfolding smtp_send_data_def
    by (auto intro!: write_all_bind [OF assms] emits_return emits_mono [OF emits_write_all [OF assms]])
  note data = emits_bind [OF this]
  show ?thesis
    unfolding dlg_message_def Let_def
    by (auto intro!: exchange_bind [OF assms] data quiet_binds write_all_bind [OF assms] emits_return split: option.split)
qed

text \<open>A complete, accepted delivery as the relay sees it.\<close>

definition delivery_transcript :: "Config \<Rightarrow> string \<Rightarrow> string \<Rightarrow> string \<Rightarrow> string \<Rightarrow> bool" where
  "delivery_transcript c mail_cmd rcpt_cmd body w \<longleftrightarrow>
     (\<exists>did_tls tls auth quit. said_starttls c did_tls tls \<and> said_auth c auth \<and> prefix quit (''QUIT'' @ CRLF) \<and>
        w = ehlo_cmd c @ tls @ auth @ mail_cmd @ rcpt_cmd @ ''DATA'' @ CRLF @ mail_stuff_dots body @ CRLF @ DOT # CRLF @ quit)"

lemma emits_dialogue:
  assumes "send_bounded E"
  shows "emits bytes (smtp_dialogue (recorded E) n c host tmo dtmo body mail_cmd rcpt_cmd)
    (\<lambda>r w. r = SMTP_OK \<longrightarrow> delivery_transcript c mail_cmd rcpt_cmd body w)"
proof -
  note steps = emits_orelse [OF emits_implicit] emits_orelse [OF emits_greeting] emits_orelse [OF emits_ehlo [OF assms]]
    emits_orelse [OF emits_starttls [OF assms]] emits_orelse [OF emits_auth [OF assms]] emits_orelse [OF emits_command [OF assms]]
    emits_mono [OF emits_message [OF assms]]
  show ?thesis
    unfolding smtp_dialogue_def
  proof (rule emits_bind [where R = "\<lambda>r w. case r of Inl e \<Rightarrow> e \<noteq> SMTP_OK | Inr _ \<Rightarrow> delivery_transcript c mail_cmd rcpt_cmd body w"])
    fix r w
    assume "case r of Inl e \<Rightarrow> e \<noteq> SMTP_OK | Inr (_ :: unit) \<Rightarrow> delivery_transcript c mail_cmd rcpt_cmd body w"
    then show "emits bytes (return (case r of Inl s \<Rightarrow> s | Inr _ \<Rightarrow> SMTP_OK)) (\<lambda>r w'. r = SMTP_OK \<longrightarrow> delivery_transcript c mail_cmd rcpt_cmd body (w @ w'))"
      by (auto intro!: emits_return split: sum.splits)
  qed (intro steps; force simp: delivery_transcript_def split: sum.splits)
qed

lemma emits_connect:
  assumes "\<And>h. obs (Dialled h) = []"
  shows "silent obs (smtp_connect (recorded E) host port)"
proof -
  have "silent obs (io (net_resolve (recorded E) host p))" for p
    by (simp add: recorded_def emits_logged assms)
  then show ?thesis
    unfolding smtp_connect_def
    by (auto intro!: silent_bind emits_return silent_set_status silent_connect_loop emits_whenM split: sum.split)
qed

text \<open>What the last attempt says decides: an attempt that did not succeed is followed by another one or by failure.\<close>

lemma emits_attempts:
  assumes "emits bytes dialogue (\<lambda>r w. r = SMTP_OK \<longrightarrow> T w)"
  shows "emits bytes (attempt_loop (recorded E) host port dialogue left attempt) (\<lambda>r w. r = SMTP_OK \<longrightarrow> (\<exists>pre t. w = pre @ t \<and> T t))"
proof (induction left arbitrary: attempt)
  have sleep: "emits bytes (whenM b (io (net_sleep (recorded E) t))) (\<lambda>_ w. w = [])" for b t
    by (auto simp: recorded_def intro!: emits_whenM emits_logged)
  have body: "emits bytes (attempt_loop (recorded E) host port dialogue left attempt) (\<lambda>r w. r = SMTP_OK \<longrightarrow> (\<exists>pre t. w = pre @ t \<and> T t))"
    if again: "emits bytes (case left of 0 \<Rightarrow> return SMTP_TEMPFAIL | Suc k \<Rightarrow> attempt_loop (recorded E) host port dialogue k (attempt + 1))
      (\<lambda>r w. r = SMTP_OK \<longrightarrow> (\<exists>pre t. w = pre @ t \<and> T t))" for left attempt
  proof -
    have after: "emits bytes (smtp_conn_close (recorded E) (rc = SMTP_OK) \<bind> (\<lambda>_. if rc = SMTP_TEMPFAIL then
        (case left of 0 \<Rightarrow> return SMTP_TEMPFAIL | Suc k \<Rightarrow> attempt_loop (recorded E) host port dialogue k (attempt + 1)) else return rc))
        (\<lambda>r w'. r = SMTP_OK \<longrightarrow> (\<exists>pre t. w @ w' = pre @ t \<and> T t))" if "rc = SMTP_OK \<longrightarrow> T w" for rc w
    proof (rule silent_bind [OF silent_conn_close], rule emits_if)
      show "emits bytes (case left of 0 \<Rightarrow> return SMTP_TEMPFAIL | Suc k \<Rightarrow> attempt_loop (recorded E) host port dialogue k (attempt + 1))
        (\<lambda>r w'. r = SMTP_OK \<longrightarrow> (\<exists>pre t. w @ w' = pre @ t \<and> T t))"
        by (rule emits_mono [OF again]) (metis append.assoc)
      show "emits bytes (return rc) (\<lambda>r w'. r = SMTP_OK \<longrightarrow> (\<exists>pre t. w @ w' = pre @ t \<and> T t))"
        using that by (intro emits_return) (metis append_Nil append_Nil2)
    qed
    show ?thesis
      unfolding attempt_loop.simps [of _ _ _ _ left] Let_def
      by (intro silent_bind [OF sleep] silent_bind [OF emits_connect]; (simp; fail)?)
         (auto intro!: again silent_bind [OF silent_upd_relay] emits_bind [OF assms] after split: option.split)
  qed
  { case 0 show ?case by (rule body) (simp add: emits_return) }
  { case (Suc k) show ?case by (rule body) (simp add: Suc.IH) }
qed

text \<open>The payload of a text of CRLF-terminated lines is that of the text with an empty line added.\<close>

lemma stuffed_payload:
  assumes "\<forall>l \<in> set lines. eol_free l"
  shows "mail_stuff_dots (text_of lines) @ CRLF = mail_stuff_dots (text_of (lines @ [[]]))"
proof -
  have "\<forall>l \<in> set (lines @ [[]]). eol_free l" using assms by (simp add: eol_free_def)
  then have "mail_stuff_dots (text_of (lines @ [[]])) = text_of (map stuffed (lines @ [[]]))" by (rule stuff_text)
  also have "\<dots> = mail_stuff_dots (text_of lines) @ CRLF"
    using stuff_text [OF assms] by (simp add: text_of_def stuffed_def c_head_def)
  finally show ?thesis by simp
qed


text \<open>A relay that follows a script: each read takes the next reply, everything else succeeds.\<close>

definition take_reply :: "string list \<Rightarrow> string option \<times> string list" where
  "take_reply w = (case w of [] \<Rightarrow> (None, []) | r # rs \<Rightarrow> (Some r, rs))"

definition script_relay :: "string list RelayEnv" where
  "script_relay =
     \<lparr>net_resolve = \<lambda>h p w. (Inr [h], w), net_socket = \<lambda>a w. (7, w), net_set_nonblock = \<lambda>fd b w. (True, w),
      net_connect = \<lambda>fd a w. (True, w), net_wait_connected = \<lambda>fd ms w. (True, w), net_so_error = \<lambda>fd w. (True, w),
      net_close = \<lambda>fd w. ((), w), net_read = \<lambda>fd ms n. take_reply, net_send = \<lambda>fd ms buf w. (length buf, w),
      net_sleep = \<lambda>t w. ((), w), mb_seed = \<lambda>w. (0, w), mb_config = \<lambda>v w. (0, w), mb_parse_ca = \<lambda>ca w. (0, w),
      mb_setup = \<lambda>v w. (0, w), mb_set_hostname = \<lambda>h w. (0, w), mb_handshake = \<lambda>ssl fd t w. (0, w),
      mb_verify_result = \<lambda>ssl w. (0, w),
      mb_read = \<lambda>ssl fd t n w. (case take_reply w of (None, w') \<Rightarrow> (Inl (-1), w') | (Some b, w') \<Rightarrow> (Inr b, w')),
      mb_write = \<lambda>ssl fd t buf w. (length buf, w), mb_close_notify = \<lambda>ssl fd w. ((), w), mb_strerror = \<lambda>r. ''TLS error''\<rparr>"

definition relay_start :: "string list \<Rightarrow> (string list \<times> said list) Relay" where
  "relay_start script = \<lparr>r_conn = smtp_conn_init (-1), r_status = [], r_status_sz = 64, r_tls = \<lparr>g_tls = None, g_verify = None\<rparr>,
     r_world = (script, []), r_stalled = False\<rparr>"

definition plain_script :: "string list" where
  "plain_script = [''220 relay'' @ CRLF, ''250-relay'' @ CRLF, ''250 SIZE 100'' @ CRLF, ''250 ok'' @ CRLF, ''250 ok'' @ CRLF, ''354 go'' @ CRLF, ''250 queued'' @ CRLF]"

lemma script_bounded: "send_bounded script_relay"
  by (simp add: send_bounded_def script_relay_def)


section \<open>Retries\<close>

lemma silent_conn_send:
  assumes "\<And>b. obs (Clear b) = []" "\<And>fd ssl b. obs (Secret fd ssl b) = []"
  shows "silent obs (conn_send (recorded E) buf tmo)"
  unfolding conn_send_def using assms
  by (auto simp: recorded_def intro!: silent_bind silent_rules emits_logged)

lemma silent_write_all:
  assumes "\<And>b. obs (Clear b) = []" "\<And>fd ssl b. obs (Secret fd ssl b) = []"
  shows "silent obs (smtp_write_all (recorded E) buf tmo)"
proof -
  have "silent obs (write_loop (recorded E) k buf tmo)" for k
    by (induction k arbitrary: buf) (auto intro!: emits_return silent_bind silent_conn_send assms)
  then show ?thesis unfolding smtp_write_all_def .
qed

lemma silent_dialogue:
  assumes "\<And>b. obs (Clear b) = []" "\<And>fd ssl b. obs (Secret fd ssl b) = []" "\<And>fd ssl. obs (Handshaken fd ssl) = []"
  shows "silent obs (smtp_dialogue (recorded E) n c host tmo dtmo body mail_cmd rcpt_cmd)"
proof -
  have x: "silent obs (smtp_exchange (recorded E) n tmo cmd)" for cmd
    unfolding smtp_exchange_def by (auto intro!: silent_bind silent_write_all silent_read_reply silent_set_status emits_return assms split: option.split)
  have v: "silent obs (handshake_verdict (recorded E) verify hr)" for verify hr
    unfolding handshake_verdict_def by (auto intro!: emits_steps)
  note q = silent_bind emits_return silent_set_status silent_upd_relay silent_gets silent_read_reply silent_read_reply_all
    silent_write_all [of obs, OF assms(1,2)] silent_handshake [of obs, OF assms(3)] x v
  have a: "silent obs (smtp_auth_plain (recorded E) n tmo auth)" for auth
    unfolding smtp_auth_plain_def Let_def by (auto intro!: q split: option.split)
  have u: "silent obs (dlg_upgrade (recorded E) n c host tmo)"
    unfolding dlg_upgrade_def by (auto intro!: q split: option.split sum.split)
  have "silent obs (dlg_starttls (recorded E) n c host tmo caps)" for caps
    unfolding dlg_starttls_def Let_def by (intro emits_if silent_orelse emits_prod q u) simp_all
  moreover have "silent obs (dlg_auth (recorded E) n c tmo did)" for did
    unfolding dlg_auth_def by (auto intro!: q a)
  moreover have "silent obs (dlg_message (recorded E) n tmo dtmo body)"
    unfolding dlg_message_def smtp_send_data_def Let_def by (auto intro!: q split: option.split)
  ultimately show ?thesis
    unfolding smtp_dialogue_def dlg_implicit_def dlg_greeting_def dlg_ehlo_def dlg_command_def
    by (auto intro!: silent_orelse q split: option.split)
qed

text \<open>
  The addresses dialled and the pauses between them.
\<close>

fun pace :: "said \<Rightarrow> (string + u32) list" where
  "pace (Dialled h) = [Inl h]"
| "pace (Slept t) = [Inr t]"
| "pace _ = []"

text \<open>The pace of \<open>k\<close> attempts that start with attempt number \<open>a\<close>.\<close>

definition attempts_pace :: "string \<Rightarrow> nat \<Rightarrow> nat \<Rightarrow> (string + u32) list" where
  "attempts_pace host a k = concat (map (\<lambda>i. (if i = 0 then [] else [Inr (smtp_backoff_sec (of_nat i))]) @ [Inl host]) [a..<a + k])"

lemma attempts_pace_Suc:
  "attempts_pace host a (Suc k) = (if a = 0 then [] else [Inr (smtp_backoff_sec (of_nat a))]) @ Inl host # attempts_pace host (Suc a) k"
proof -
  have "[a..<a + Suc k] = a # [Suc a..<Suc a + k]" by (simp add: upt_rec)
  then show ?thesis by (simp add: attempts_pace_def)
qed

lemma emits_attempts_pace:
  assumes "silent pace dialogue" "a + left < 4294967296"
  shows "emits pace (attempt_loop (recorded E) host port dialogue left (of_nat a))
    (\<lambda>r w. \<exists>k. 1 \<le> k \<and> k \<le> Suc left \<and> w = attempts_pace host a k \<and> (r = SMTP_TEMPFAIL \<longrightarrow> k = Suc left))"
  using assms(2)
proof (induction left arbitrary: a)
  let ?Q = "\<lambda>left a r w. \<exists>k. 1 \<le> k \<and> k \<le> Suc left \<and> w = attempts_pace host a k \<and> (r = SMTP_TEMPFAIL \<longrightarrow> k = Suc left)"
  have pause: "emits pace (whenM ((of_nat a :: u32) > 0) (io (net_sleep (recorded E) (smtp_backoff_sec (of_nat a)))))
      (\<lambda>_ w. w = (if a = 0 then [] else [Inr (smtp_backoff_sec (of_nat a))]))" if "a < 4294967296" for a
  proof -
    have "a = 0" if z: "(of_nat a :: u32) = 0"
      using u32_of_nat [OF \<open>a < 4294967296\<close>] unfolding z by simp
    then have "(of_nat a :: u32) > 0 \<longleftrightarrow> a \<noteq> 0" unfolding word_greater_zero_iff by (cases "a = 0"; auto)
    then show ?thesis by (auto simp: recorded_def intro!: emits_whenM emits_logged)
  qed
  have dial: "emits pace (smtp_connect (recorded E) host port) (\<lambda>_ w. w = [Inl host])"
  proof -
    have "emits pace (io (net_resolve (recorded E) host p)) (\<lambda>_ w. w = [Inl host])" for p
      by (simp add: recorded_def emits_logged)
    then show ?thesis
      unfolding smtp_connect_def
      by (rule emits_bind)
         (auto intro!: silent_bind emits_return silent_set_status silent_connect_loop emits_whenM split: sum.split)
  qed
  have body: "emits pace (attempt_loop (recorded E) host port dialogue left (of_nat a)) (?Q left a)"
    if "a < 4294967296"
      and again: "emits pace (case left of 0 \<Rightarrow> return SMTP_TEMPFAIL | Suc k \<Rightarrow> attempt_loop (recorded E) host port dialogue k (of_nat a + 1))
        (\<lambda>r w. \<exists>k \<le> left. w = attempts_pace host (Suc a) k \<and> (r = SMTP_TEMPFAIL \<longrightarrow> k = left))" for left a
  proof -
    let ?p = "if a = 0 then [] else [Inr (smtp_backoff_sec (of_nat a))]"
    have more: "emits pace (case left of 0 \<Rightarrow> return SMTP_TEMPFAIL | Suc k \<Rightarrow> attempt_loop (recorded E) host port dialogue k (of_nat a + 1))
        (\<lambda>r w. ?Q left a r (?p @ [Inl host] @ w))"
      by (rule emits_mono [OF again]) (auto simp: attempts_pace_Suc intro: exI [of _ "Suc _"])
    have stop: "emits pace (return rc) (\<lambda>r w. ?Q left a r (?p @ [Inl host] @ w))" if "rc \<noteq> SMTP_TEMPFAIL" for rc
      using that by (intro emits_return exI [of _ 1]) (simp add: attempts_pace_Suc [of _ _ 0, simplified] attempts_pace_def)
    show ?thesis
      unfolding attempt_loop.simps [of _ _ _ _ left] Let_def
    proof (rule emits_bind [OF pause [OF that(1)]], rule emits_bind [OF dial])
      fix x fd and w w' :: "(string + u32) list"
      assume "w = ?p" "w' = [Inl host]"
      then show "emits pace (case fd of None \<Rightarrow> (case left of 0 \<Rightarrow> return SMTP_TEMPFAIL | Suc k \<Rightarrow> attempt_loop (recorded E) host port dialogue k (of_nat a + 1))
         | Some fd \<Rightarrow> upd_relay (\<lambda>_. smtp_conn_init fd) \<bind> (\<lambda>_. dialogue \<bind> (\<lambda>rc. smtp_conn_close (recorded E) (rc = SMTP_OK) \<bind>
             (\<lambda>_. if rc = SMTP_TEMPFAIL then (case left of 0 \<Rightarrow> return SMTP_TEMPFAIL | Suc k \<Rightarrow> attempt_loop (recorded E) host port dialogue k (of_nat a + 1)) else return rc))))
        (\<lambda>y w''. ?Q left a y (w @ w' @ w''))"
        using more stop by (cases fd) (auto intro!: silent_bind [OF silent_upd_relay] silent_bind [OF assms(1)] silent_bind [OF silent_conn_close] emits_if)
    qed
  qed
  {
    case 0
    show ?case by (rule body) (use 0 in \<open>auto intro!: emits_return simp: attempts_pace_def\<close>)
  next
    case (Suc k)
    have "emits pace (attempt_loop (recorded E) host port dialogue k (of_nat a + 1)) (?Q k (Suc a))"
      using Suc.IH [of "Suc a"] Suc.prems by (simp add: add.commute)
    then show ?case using Suc.prems by (intro body) (auto elim!: emits_mono)
  }
qed

lemma backoff_bounds: "1 \<le> unat (smtp_backoff_sec i) \<and> unat (smtp_backoff_sec i) \<le> 3600"
proof (cases "i - 1 \<ge> 12")
  case False
  then have "unat (i - 1) < 12" by (simp add: word_le_nat_alt)
  then have le: "(2::nat) ^ unat (i - 1) \<le> 2 ^ 11" by (intro power_increasing) auto
  have "push_bit (unat (i - 1)) 1 = (of_nat (2 ^ unat (i - 1)) :: u32)" by (simp add: push_bit_eq_mult)
  moreover have "unat (of_nat (2 ^ unat (i - 1)) :: u32) = 2 ^ unat (i - 1)" using le by (intro u32_of_nat) simp
  ultimately have "smtp_backoff_sec i = of_nat (2 ^ unat (i - 1))" "unat (of_nat (2 ^ unat (i - 1)) :: u32) = 2 ^ unat (i - 1)"
    using False by (simp_all only: smtp_backoff_sec_def Let_def if_False)
  then show ?thesis using le by simp
qed (simp add: smtp_backoff_sec_def Let_def)

text \<open>
  C30. Sending ends, with bounded patience. Whatever happens, a call dials the relay at most \<open>retries + 1\<close>
  times; between the attempts it pauses exactly for the backoff schedule, each pause between one second and
  an hour, and it reports a temporary failure only when all of the attempts are used up.
\<close>

theorem relay_retries_bounded:
  "\<exists>k. k \<le> Suc (unat (relay_retries (cfg_relay c))) \<and>
     observe pace (exec (smtp_out_send_host (recorded E) n c host port from to body) s) = observe pace s @ attempts_pace host 0 k \<and>
     (eval (smtp_out_send_host (recorded E) n c host port from to body) s = SMTP_TEMPFAIL \<longrightarrow> k = Suc (unat (relay_retries (cfg_relay c)))) \<and>
     (\<forall>i. 1 \<le> unat (smtp_backoff_sec i) \<and> unat (smtp_backoff_sec i) \<le> 3600)"
proof -
  let ?Q = "\<lambda>r w. \<exists>k. k \<le> Suc (unat (relay_retries (cfg_relay c))) \<and> w = attempts_pace host 0 k \<and> (r = SMTP_TEMPFAIL \<longrightarrow> k = Suc (unat (relay_retries (cfg_relay c))))"
  have loop: "emits pace (attempt_loop (recorded E) host port (smtp_dialogue (recorded E) n c host tmo dtmo body m r) (unat (relay_retries (cfg_relay c))) 0) ?Q" for tmo dtmo m r
  proof (rule emits_mono [OF emits_attempts_pace [where a = 0, simplified]])
    show "silent pace (smtp_dialogue (recorded E) n c host tmo dtmo body m r)" by (rule silent_dialogue) simp_all
    show "unat (relay_retries (cfg_relay c)) < 4294967296" by (rule u32_less)
  qed blast
  have none: "?Q SMTP_ERROR []" by (rule exI [of _ 0]) (simp add: attempts_pace_def)
  have "emits pace (smtp_out_send_host (recorded E) n c host port from to body) ?Q"
    unfolding smtp_out_send_host_def Let_def
    by (intro silent_bind [OF silent_set_status] emits_if emits_return none)
       (auto simp: build_addr_cmd_def Let_def intro!: loop silent_bind [OF silent_set_status] emits_return none)
  then show ?thesis using emitsD [of pace _ ?Q s] backoff_bounds by blast
qed

theorem relay_retries_bounded_witness:
  "eval (smtp_out_send_host (recorded script_relay) 3 (ref_cfg\<lparr>cfg_relay := ref_relay\<lparr>relay_retries := 2\<rparr>\<rparr>) ''mx'' 25 ''a@b'' ''c@d'' ''hi'') (relay_start []) = SMTP_TEMPFAIL \<and>
   observe pace (exec (smtp_out_send_host (recorded script_relay) 3 (ref_cfg\<lparr>cfg_relay := ref_relay\<lparr>relay_retries := 2\<rparr>\<rparr>) ''mx'' 25 ''a@b'' ''c@d'' ''hi'') (relay_start [])) =
     [Inl ''mx'', Inr 1, Inl ''mx'', Inr 2, Inl ''mx'']"
proof -
  let ?c = "ref_cfg\<lparr>cfg_relay := ref_relay\<lparr>relay_retries := 2\<rparr>\<rparr>"
  have t: "eval (smtp_out_send_host (recorded script_relay) 3 ?c ''mx'' 25 ''a@b'' ''c@d'' ''hi'') (relay_start []) = SMTP_TEMPFAIL" by code_simp
  have "observe pace (relay_start []) = []" "attempts_pace ''mx'' 0 (Suc (unat (relay_retries (cfg_relay ?c)))) = [Inl ''mx'', Inr 1, Inl ''mx'', Inr 2, Inl ''mx'']"
    by code_simp+
  then show ?thesis
    using t relay_retries_bounded [of ?c script_relay 3 "''mx''" 25 "''a@b''" "''c@d''" "''hi''" "relay_start []"] by auto
qed

section \<open>Credentials\<close>

text \<open>
  C29. Credentials are used over verified TLS only. Unless the configuration asks for \<open>starttls-verify\<close>,
  nothing the client does depends on the user name and the password: two configurations that
  differ in them make the same calls with the same arguments and end in the same state, in every environment.
\<close>

theorem relay_credentials_confined:
  assumes "relay_tls (cfg_relay c) \<noteq> ''starttls-verify''" "auth_enabled a = auth_enabled (relay_auth (cfg_relay c))"
  shows "run_state (smtp_out_send_host E n (c\<lparr>cfg_relay := (cfg_relay c)\<lparr>relay_auth := a\<rparr>\<rparr>) host port from to body) s =
    run_state (smtp_out_send_host E n c host port from to body) s"
proof -
  let ?c = "c\<lparr>cfg_relay := (cfg_relay c)\<lparr>relay_auth := a\<rparr>\<rparr>"
  have ehlo: "ehlo_cmd ?c = ehlo_cmd c" by (simp add: ehlo_cmd_def)
  have same: "relay_tls (cfg_relay ?c) = relay_tls (cfg_relay c)" "relay_tls_ca (cfg_relay ?c) = relay_tls_ca (cfg_relay c)"
    "relay_retries (cfg_relay ?c) = relay_retries (cfg_relay c)" "cfg_limits ?c = cfg_limits c" by simp_all
  have "dlg_auth E n ?c tmo did = dlg_auth E n c tmo did" for tmo did using assms by (simp add: dlg_auth_def)
  moreover have "dlg_upgrade E n ?c h tmo = dlg_upgrade E n c h tmo" for h tmo unfolding dlg_upgrade_def ehlo same by (rule refl)
  then have "dlg_starttls E n ?c h tmo caps = dlg_starttls E n c h tmo caps" for h tmo caps using assms by (simp add: dlg_starttls_def)
  moreover have "dlg_implicit E ?c h tmo = dlg_implicit E c h tmo" for h tmo by (simp add: dlg_implicit_def)
  moreover have "dlg_ehlo E ?c tmo = dlg_ehlo E c tmo" for tmo by (simp add: dlg_ehlo_def ehlo)
  ultimately have dlg: "smtp_dialogue E n ?c h tmo dtmo b m r = smtp_dialogue E n c h tmo dtmo b m r" for h tmo dtmo b m r
    by (simp add: smtp_dialogue_def)
  show ?thesis unfolding smtp_out_send_host_def same dlg by (rule refl)
qed

definition secret_cfg :: "string \<Rightarrow> Config" where
  "secret_cfg mode = ref_cfg\<lparr>cfg_relay := ref_relay\<lparr>relay_tls := mode, relay_auth := \<lparr>auth_enabled = True, auth_username = ''u'', auth_password = ''pw''\<rparr>\<rparr>\<rparr>"

theorem relay_credentials_confined_witness:
  "run_state (smtp_out_send_host (recorded script_relay) 3 (secret_cfg ''implicit'') ''mx'' 25 ''a@b'' ''c@d'' ''hi'') (relay_start plain_script) =
   run_state (smtp_out_send_host (recorded script_relay) 3 ((secret_cfg ''implicit'')\<lparr>cfg_relay := (cfg_relay (secret_cfg ''implicit''))\<lparr>relay_auth :=
     \<lparr>auth_enabled = True, auth_username = ''other'', auth_password = ''secret''\<rparr>\<rparr>\<rparr>) ''mx'' 25 ''a@b'' ''c@d'' ''hi'') (relay_start plain_script) \<and>
   eval (smtp_out_send_host (recorded script_relay) 3 (secret_cfg ''implicit'') ''mx'' 25 ''a@b'' ''c@d'' ''hi'') (relay_start plain_script) = SMTP_PERMFAIL"
proof -
  have h: "relay_tls (cfg_relay (secret_cfg ''implicit'')) \<noteq> ''starttls-verify''"
    "auth_enabled \<lparr>auth_enabled = True, auth_username = ''other'', auth_password = ''secret''\<rparr> = auth_enabled (relay_auth (cfg_relay (secret_cfg ''implicit'')))"
    by code_simp+
  have "eval (smtp_out_send_host (recorded script_relay) 3 (secret_cfg ''implicit'') ''mx'' 25 ''a@b'' ''c@d'' ''hi'') (relay_start plain_script) = SMTP_PERMFAIL"
    by code_simp
  then show ?thesis by (intro conjI relay_credentials_confined [OF h, symmetric])
qed

end
