(* ===== verification/Smtp_Relay_Tls.thy ===== *)
theory Smtp_Relay_Tls
  imports Smtp_Relay_Proofs
begin

text \<open>
  Mandatory TLS of the relay client (\<open>relay.tls = starttls-verify\<close>): over every run of a delivery, whatever the relay and the
  network do, nothing but EHLO and STARTTLS is written in the clear, and everything else is written through a TLS session
  whose peer certificate had to verify for the host that was dialled.
\<close>

section \<open>Sound logs\<close>

text \<open>
  Mandatory TLS. A log is sound when everything in the clear is a piece of EHLO or STARTTLS and everything
  else went through a session with the configured peer whose certificate chain had to verify and whose handshake had
  succeeded on the same descriptor after the last dial.
\<close>

fun is_dial :: "said \<Rightarrow> bool" where
  "is_dial (Dialled _) = True"
| "is_dial _ = False"

definition since_dial :: "said list \<Rightarrow> said list" where
  "since_dial l = takeWhile (\<lambda>e. \<not> is_dial e) (rev l)"

lemma since_dial_snoc [simp]: "since_dial (l @ [e]) = (if is_dial e then [] else e # since_dial l)"
  by (simp add: since_dial_def)

fun sound_event :: "Config \<Rightarrow> string \<Rightarrow> said list \<Rightarrow> said \<Rightarrow> bool" where
  "sound_event c host before (Clear b) \<longleftrightarrow> sublist b (ehlo_cmd c) \<or> sublist b (''STARTTLS'' @ CRLF)"
| "sound_event c host before (Secret fd ssl b) \<longleftrightarrow> ssl_setup ssl = Some Verify_required \<and> ssl_host ssl = Some host \<and> Handshaken fd ssl \<in> set (since_dial before)"
| "sound_event c host before _ \<longleftrightarrow> True"

definition sound_log :: "Config \<Rightarrow> string \<Rightarrow> said list \<Rightarrow> bool" where
  "sound_log c host l \<longleftrightarrow> (\<forall>i < length l. sound_event c host (take i l) (l ! i))"

lemma sound_log_snoc: "sound_log c host (l @ [e]) \<longleftrightarrow> sound_log c host l \<and> sound_event c host l e"
  by (auto simp: sound_log_def nth_append less_Suc_eq)

lemma sound_log_Nil: "sound_log c host []"
  by (simp add: sound_log_def)

text \<open>The state in between: whether TLS is on, and if it is, that this session is a verified one.\<close>

definition guarded :: "Config \<Rightarrow> string \<Rightarrow> bool \<Rightarrow> ('w \<times> said list) Relay \<Rightarrow> bool" where
  "guarded c host on s \<longleftrightarrow> sound_log c host (rlog s) \<and> sc_tls (r_conn s) = on \<and>
     (on \<longrightarrow> ssl_setup (sc_ssl (r_conn s)) = Some Verify_required \<and> ssl_host (sc_ssl (r_conn s)) = Some host \<and>
        Handshaken (sc_fd (r_conn s)) (sc_ssl (r_conn s)) \<in> set (since_dial (rlog s)))"

text \<open>What leaves the log and the TLS part of the connection alone keeps \<open>guarded\<close>.\<close>

definition unheard :: "('w \<times> said list) Relay \<Rightarrow> ('w \<times> said list) Relay \<Rightarrow> bool" where
  "unheard s t \<longleftrightarrow> rlog t = rlog s \<and> sc_tls (r_conn t) = sc_tls (r_conn s) \<and> sc_ssl (r_conn t) = sc_ssl (r_conn s) \<and> sc_fd (r_conn t) = sc_fd (r_conn s)"

interpretation unheard: state_preorder unheard
  by unfold_locales (auto simp: unheard_def)

lemma unheard_io:
  "state_io_rel unheard (io (unlogged f))" "state_io_rel unheard (set_status msg)"
  "state_io_rel unheard (upd_relay (\<lambda>c. c\<lparr>sc_rbuf := x\<rparr>))" "state_io_rel unheard (upd_relay (\<lambda>c. c\<lparr>sc_tmo := t\<rparr>))"
  by (simp_all add: state_io_rel_def unheard_def set_status_def)

lemma unheard_recorded:
  "state_io_rel unheard (io (net_socket (recorded E) a))" "state_io_rel unheard (io (net_set_nonblock (recorded E) fd b))"
  "state_io_rel unheard (io (net_connect (recorded E) fd a))" "state_io_rel unheard (io (net_wait_connected (recorded E) fd ms))"
  "state_io_rel unheard (io (net_so_error (recorded E) fd))" "state_io_rel unheard (io (net_close (recorded E) fd))"
  "state_io_rel unheard (io (net_read (recorded E) fd ms n))" "state_io_rel unheard (io (mb_seed (recorded E)))"
  "state_io_rel unheard (io (mb_config (recorded E) v))" "state_io_rel unheard (io (mb_parse_ca (recorded E) ca))"
  "state_io_rel unheard (io (mb_setup (recorded E) v))" "state_io_rel unheard (io (mb_set_hostname (recorded E) h))"
  "state_io_rel unheard (io (mb_verify_result (recorded E) ssl))" "state_io_rel unheard (io (mb_read (recorded E) ssl fd t n))"
  "state_io_rel unheard (io (mb_close_notify (recorded E) ssl fd))"
  by (simp_all add: recorded_def unheard_io)

lemmas unheard_rules = unheard_io unheard_recorded

lemma unheard_read_byte: "state_io_rel unheard (conn_read_byte (recorded E) tmo)"
  unfolding conn_read_byte_def by (auto intro!: unheard_rules split: list.split sum.split option.split)

lemma unheard_read_line: "state_io_rel unheard (smtp_read_line (recorded E) tmo bufsz)"
proof -
  have "state_io_rel unheard (read_line_loop (recorded E) tmo room buf)" for room buf
    by (induction room arbitrary: buf) (auto intro!: unheard_read_byte split: sum.split)
  then show ?thesis unfolding smtp_read_line_def .
qed

lemma unheard_read_reply: "state_io_rel unheard (smtp_read_reply (recorded E) n tmo)"
proof -
  have "state_io_rel unheard (read_reply_loop (recorded E) n tmo first)" for first
    by (induction n arbitrary: first)
       (auto intro!: unheard_read_line unheard.modify_io simp: unheard_def Let_def split: option.split)
  then show ?thesis unfolding smtp_read_reply_def .
qed

lemma unheard_read_reply_all: "state_io_rel unheard (smtp_read_reply_all (recorded E) tmo replysz)"
proof -
  have "state_io_rel unheard (reply_all_loop (recorded E) n tmo replysz first sofar)" for n first sofar
    by (induction n arbitrary: first sofar) (auto intro!: unheard_read_line split: option.split)
  then show ?thesis unfolding smtp_read_reply_all_def .
qed

lemma unheard_tls_init:
  "state_io_rel unheard (smtp_tls_global_init (recorded E))" "state_io_rel unheard (smtp_tls_verify_init (recorded E) ca)"
proof -
  have m: "state_io_rel unheard (modify (\<lambda>s. s\<lparr>r_tls := f (r_tls s)\<rparr>))" for f
    by (simp add: state_io_rel_def unheard_def)
  show g: "state_io_rel unheard (smtp_tls_global_init (recorded E))"
    unfolding smtp_tls_global_init_def by (auto intro!: unheard_rules m split: option.split)
  show "state_io_rel unheard (smtp_tls_verify_init (recorded E) ca)"
    unfolding smtp_tls_verify_init_def by (auto intro!: unheard_rules m g split: option.split)
qed

lemma triple_orelse:
  "triple P m R \<Longrightarrow> (\<And>e s. R (Inl e) s \<Longrightarrow> Q (Inl e) s) \<Longrightarrow> (\<And>x. triple (R (Inr x)) (f x) Q) \<Longrightarrow> triple P (orelse m f) Q"
  unfolding orelse_def by (erule triple_bind) (auto intro: triple_return split: sum.split)

lemma unheard_guarded: "unheard s t \<Longrightarrow> guarded c host on s \<Longrightarrow> guarded c host on t"
  by (simp add: unheard_def guarded_def)

lemma triple_unheard: "state_io_rel unheard m \<Longrightarrow> triple (guarded c host on) m (\<lambda>_. guarded c host on)"
  unfolding triple_def state_io_rel_def using unheard_guarded by blast

lemmas triple_quiet = triple_unheard [OF unheard_io(2)] triple_unheard [OF unheard.gets_io] triple_unheard [OF unheard_read_reply]
  triple_unheard [OF unheard_read_reply_all] triple_unheard [OF unheard_io(3)]

lemma triple_send_tls: "triple (guarded c host True) (conn_send (recorded E) buf tmo) (\<lambda>_. guarded c host True)"
  unfolding triple_def conn_send_def by (auto simp: recorded_def guarded_def sound_log_snoc)

lemma triple_send_clear:
  assumes "sublist buf (ehlo_cmd c) \<or> sublist buf (''STARTTLS'' @ CRLF)"
  shows "triple (guarded c host False) (conn_send (recorded E) buf tmo) (\<lambda>_. guarded c host False)"
proof -
  have "sublist (take n (take k buf)) buf" for n k by (meson sublist_order.order.trans sublist_take)
  then have "sound_event c host l (Clear (take n (take k buf)))" for n k l
    using assms unfolding sound_event.simps by (blast intro: sublist_order.order.trans)
  then show ?thesis
    unfolding triple_def conn_send_def by (simp add: recorded_def guarded_def sound_log_snoc del: take_take sound_event.simps)
qed

definition may_write :: "Config \<Rightarrow> bool \<Rightarrow> string \<Rightarrow> bool" where
  "may_write c on buf \<longleftrightarrow> on \<or> sublist buf (ehlo_cmd c) \<or> sublist buf (''STARTTLS'' @ CRLF)"

lemma triple_write_all:
  assumes "may_write c on buf"
  shows "triple (guarded c host on) (smtp_write_all (recorded E) buf tmo) (\<lambda>_. guarded c host on)"
proof -
  have "may_write c on buf \<Longrightarrow> triple (guarded c host on) (write_loop (recorded E) k buf tmo) (\<lambda>_. guarded c host on)" for k
  proof (induction k arbitrary: buf)
    case (Suc k)
    have "triple (guarded c host on) (conn_send (recorded E) buf tmo) (\<lambda>_. guarded c host on)"
      using Suc.prems triple_send_clear [of buf c host E tmo] by (cases on) (simp_all add: triple_send_tls may_write_def)
    moreover have "may_write c on (drop w buf)" for w
      using Suc.prems unfolding may_write_def by (meson sublist_order.order.trans sublist_drop)
    ultimately show ?case by (auto intro!: triple_return triple_bind Suc.IH)
  qed (simp add: triple_return)
  with assms show ?thesis unfolding smtp_write_all_def by simp
qed

lemma triple_exchange:
  assumes "may_write c on cmd"
  shows "triple (guarded c host on) (smtp_exchange (recorded E) n tmo cmd) (\<lambda>_. guarded c host on)"
  unfolding smtp_exchange_def
  by (auto intro!: triple_bind [OF triple_write_all [OF assms]] triple_bind [OF triple_quiet(1)] triple_bind [OF triple_quiet(3)] triple_return split: option.split)

text \<open>The handshake in verifying mode either leaves the connection in the clear or makes it a guarded session.\<close>

lemma triple_handshake:
  assumes "host \<noteq> []"
  shows "triple (guarded c host False) (smtp_tls_handshake (recorded E) host True ca tmo)
    (\<lambda>r. case r of Inl _ \<Rightarrow> guarded c host False | Inr _ \<Rightarrow> guarded c host True)"
proof -
  let ?A = "\<lambda>s :: ('a \<times> said list) Relay. guarded c host False s \<and> ssl_setup (sc_ssl (r_conn s)) = Some Verify_required"
  let ?B = "\<lambda>s :: ('a \<times> said list) Relay. ?A s \<and> ssl_host (sc_ssl (r_conn s)) = Some host"
  have fail: "triple (guarded c host False) (set_status msg \<bind> (\<lambda>_. return (Inl r))) (\<lambda>r. case r of Inl (_ :: int) \<Rightarrow> guarded c host False | Inr (_ :: unit) \<Rightarrow> guarded c host True)" for msg r
    by (rule triple_bind [OF triple_quiet(1)]) (simp add: triple_return)
  have shake: "triple ?B (gets r_conn \<bind> (\<lambda>k. io (mb_handshake (recorded E) (sc_ssl k) (sc_fd k) tmo) \<bind> (\<lambda>r4. if r4 \<noteq> 0 then set_status (mb_strerror (recorded E) r4) \<bind> (\<lambda>_. return (Inl r4))
      else upd_relay (\<lambda>c. c\<lparr>sc_tls := True\<rparr>) \<bind> (\<lambda>_. return (Inr ()))))) (\<lambda>r. case r of Inl _ \<Rightarrow> guarded c host False | Inr _ \<Rightarrow> guarded c host True)"
    by (auto simp: triple_def recorded_def set_status_def guarded_def sound_log_snoc)
  have ssl: "triple (guarded c host False) (upd_relay (\<lambda>c. c\<lparr>sc_ssl := (sc_ssl c)\<lparr>ssl_setup := Some Verify_required\<rparr>\<rparr>)) (\<lambda>_. ?A)"
    "triple ?A (upd_relay (\<lambda>c. c\<lparr>sc_ssl := (sc_ssl c)\<lparr>ssl_host := Some host\<rparr>, sc_tmo := tmo\<rparr>)) (\<lambda>_. ?B)"
    by (auto simp: triple_def guarded_def)
  have name: "triple ?A (io (mb_set_hostname (recorded E) host)) (\<lambda>_. ?A)"
    by (auto simp: triple_def guarded_def recorded_def)
  show ?thesis
    unfolding smtp_tls_handshake_def Let_def using assms
    by (auto intro!: triple_bind [OF triple_unheard [OF unheard_tls_init(1)]] triple_bind [OF triple_unheard [OF unheard_tls_init(2)]]
        triple_bind [OF triple_unheard [OF unheard_recorded(11)]] triple_bind [OF ssl(1)] triple_bind [OF name] triple_bind [OF ssl(2)] fail
        triple_pre [OF fail] shake)
qed

lemma ehlo_may_write: "may_write c on (ehlo_cmd c)" "may_write c on (''STARTTLS'' @ CRLF)" "may_write c True buf"
  by (simp_all add: may_write_def)

lemma triple_upgrade:
  assumes "host \<noteq> []" "tls_verify c"
  shows "triple (guarded c host False) (dlg_upgrade (recorded E) n c host tmo)
    (\<lambda>r s. sound_log c host (rlog s) \<and> (case r of Inl _ \<Rightarrow> True | Inr (did_tls, _) \<Rightarrow> did_tls \<and> guarded c host True s))"
proof -
  have g: "guarded c host on s \<Longrightarrow> sound_log c host (rlog s)" for on and s :: "('a \<times> said list) Relay" by (simp add: guarded_def)
  have verdict: "triple (guarded c host False) (handshake_verdict (recorded E) True hr) (\<lambda>_. guarded c host False)" for hr
    by (rule triple_unheard) (auto simp: handshake_verdict_def intro!: unheard_rules)
  have again: "triple (guarded c host True) (smtp_exchange (recorded E) n tmo (ehlo_cmd c)) (\<lambda>_. guarded c host True)"
    by (rule triple_exchange) (simp add: may_write_def)
  have up: "triple (case h of Inl (_ :: int) \<Rightarrow> guarded c host False | Inr (_ :: unit) \<Rightarrow> guarded c host True)
      (case h of Inl hr \<Rightarrow> handshake_verdict (recorded E) True hr \<bind> (\<lambda>v. return (Inl v))
        | Inr _ \<Rightarrow> smtp_exchange (recorded E) n tmo (ehlo_cmd c) \<bind> (\<lambda>r. return (case r of None \<Rightarrow> Inl SMTP_TEMPFAIL
            | Some code \<Rightarrow> if smtp_class code \<noteq> SMTP_OK then Inl (smtp_class code) else Inr (True, SMTP_ERROR))))
      (\<lambda>r s. sound_log c host (rlog s) \<and> (case r of Inl _ \<Rightarrow> True | Inr (did_tls, _) \<Rightarrow> did_tls \<and> guarded c host True s))" for h
    by (auto intro!: triple_bind [OF verdict] triple_bind [OF again] triple_return dest: g split: sum.split option.splits if_splits)
  show ?thesis
    unfolding dlg_upgrade_def eqTrueI [OF assms(2)] if_True
    by (rule triple_bind [OF triple_exchange [OF ehlo_may_write(2)]])
       (auto intro!: triple_bind [OF triple_quiet(5)] triple_bind [OF triple_handshake [OF assms(1)]] up triple_bind [OF triple_quiet(1)] triple_return
         dest: g split: option.split)
qed

lemma triple_dialogue:
  assumes "host \<noteq> []" "tls_verify c"
  shows "triple (guarded c host False) (smtp_dialogue (recorded E) n c host tmo dtmo body mail_cmd rcpt_cmd) (\<lambda>_ s. sound_log c host (rlog s))"
proof -
  have g: "guarded c host on s \<Longrightarrow> sound_log c host (rlog s)" for on and s :: "('a \<times> said list) Relay" by (simp add: guarded_def)
  note x = triple_exchange [OF ehlo_may_write(3)] note w = triple_write_all [OF ehlo_may_write(3)]
  have implicit: "triple (guarded c host False) (dlg_implicit (recorded E) c host tmo) (\<lambda>_. guarded c host False)"
    using assms(2) by (simp add: dlg_implicit_def triple_return)
  have greeting: "triple (guarded c host False) (dlg_greeting (recorded E) n tmo) (\<lambda>_. guarded c host False)"
    unfolding dlg_greeting_def by (auto intro!: triple_bind [OF triple_quiet(3)] triple_bind [OF triple_quiet(1)] triple_return split: option.split)
  have ehlo: "triple (guarded c host False) (dlg_ehlo (recorded E) c tmo) (\<lambda>_. guarded c host False)"
    unfolding dlg_ehlo_def
    by (auto intro!: triple_bind [OF triple_quiet(1)] triple_bind [OF triple_quiet(2)] triple_bind [OF triple_quiet(4)]
        triple_bind [OF triple_write_all [OF ehlo_may_write(1)]] triple_return split: option.split)
  have starttls: "triple (guarded c host False) (dlg_starttls (recorded E) n c host tmo caps)
      (\<lambda>r s. sound_log c host (rlog s) \<and> (case r of Inl _ \<Rightarrow> True | Inr _ \<Rightarrow> guarded c host True s))" for caps
    unfolding dlg_starttls_def Let_def using assms(2)
    by (auto intro!: triple_bind [OF triple_quiet(1)] triple_orelse [OF triple_upgrade [OF assms]] triple_return dest: g)
  have plain: "triple (guarded c host True) (smtp_auth_plain (recorded E) n tmo auth) (\<lambda>_. guarded c host True)" for auth
    unfolding smtp_auth_plain_def Let_def
    by (auto intro!: triple_bind [OF triple_quiet(1)] triple_bind [OF x] triple_return split: option.split)
  have auth: "triple (guarded c host True) (dlg_auth (recorded E) n c tmo did) (\<lambda>_. guarded c host True)" for did
    unfolding dlg_auth_def by (auto intro!: triple_bind [OF triple_quiet(1)] triple_bind [OF plain] triple_return)
  have command: "triple (guarded c host True) (dlg_command (recorded E) n tmo cmd) (\<lambda>_. guarded c host True)" for cmd
    unfolding dlg_command_def by (auto intro!: triple_bind [OF x] triple_return)
  have data: "triple (guarded c host True) (smtp_send_data (recorded E) dtmo body) (\<lambda>_. guarded c host True)"
    unfolding smtp_send_data_def by (auto intro!: triple_bind [OF w] w triple_return)
  have message: "triple (guarded c host True) (dlg_message (recorded E) n tmo dtmo body) (\<lambda>_. guarded c host True)"
    unfolding dlg_message_def Let_def
    by (auto intro!: triple_bind [OF data] triple_bind [OF x] triple_bind [OF w] triple_bind [OF triple_quiet(1)] triple_bind [OF triple_quiet(3)] triple_return
        split: option.split)
  show ?thesis
    unfolding smtp_dialogue_def
  proof (rule triple_bind [where R = "\<lambda>_ s. sound_log c host (rlog s)"])
    show "triple (guarded c host False)
      (orelse (dlg_implicit (recorded E) c host tmo) (\<lambda>_. orelse (dlg_greeting (recorded E) n tmo) (\<lambda>_. orelse (dlg_ehlo (recorded E) c tmo) (\<lambda>caps.
       orelse (dlg_starttls (recorded E) n c host tmo caps) (\<lambda>did_tls. orelse (dlg_auth (recorded E) n c tmo did_tls) (\<lambda>_.
       orelse (dlg_command (recorded E) n tmo mail_cmd) (\<lambda>_. orelse (dlg_command (recorded E) n tmo rcpt_cmd) (\<lambda>_. dlg_message (recorded E) n tmo dtmo body))))))))
      (\<lambda>_ s. sound_log c host (rlog s))"
      by (intro triple_orelse [OF implicit] triple_orelse [OF greeting] triple_orelse [OF ehlo] triple_orelse [OF starttls]
          triple_pre [OF triple_orelse [OF auth]] triple_orelse [OF command] triple_weaken [OF message]) (auto dest: g)
  qed (auto intro!: triple_return)
qed

section \<open>Over all attempts\<close>

definition kept_sound :: "Config \<Rightarrow> string \<Rightarrow> ('w \<times> said list) Relay \<Rightarrow> ('w \<times> said list) Relay \<Rightarrow> bool" where
  "kept_sound c host s t \<longleftrightarrow> (sound_log c host (rlog s) \<longrightarrow> sound_log c host (rlog t))"

interpretation kept: state_preorder "kept_sound c host" for c host
  by unfold_locales (auto simp: kept_sound_def)

lemma kept_unheard: "state_io_rel unheard m \<Longrightarrow> state_io_rel (kept_sound c host) m"
  by (simp add: state_io_rel_def unheard_def kept_sound_def)

lemma kept_dial:
  "state_io_rel (kept_sound c host) (io (net_resolve (recorded E) h p))" "state_io_rel (kept_sound c host) (io (net_sleep (recorded E) t))"
  "state_io_rel (kept_sound c host) (upd_relay f)"
  by (simp_all add: recorded_def state_io_rel_def kept_sound_def sound_log_snoc)

lemma kept_connect: "state_io_rel (kept_sound c host) (smtp_connect (recorded E) h port)"
proof -
  have "state_io_rel unheard (connect_addr (recorded E) a)" for a
    unfolding connect_addr_def Let_def by (auto intro!: unheard_rules)
  then have "state_io_rel unheard (connect_loop (recorded E) as)" for as
    by (induction as) auto
  from kept_unheard [OF this] show ?thesis
    unfolding smtp_connect_def by (auto intro!: kept_dial kept_unheard [OF unheard_io(2)])
qed

lemma kept_close: "state_io_rel (kept_sound c host) (smtp_conn_close (recorded E) g)"
  unfolding smtp_conn_close_def by (auto intro!: kept_dial(3) kept_unheard [OF unheard_recorded(15)] kept_unheard [OF unheard_recorded(6)])

lemma kept_dialogue:
  assumes "triple (guarded c host False) m (\<lambda>_ s. sound_log c host (rlog s))" and "\<And>x. state_io_rel (kept_sound c host) (f x)"
  shows "state_io_rel (kept_sound c host) (upd_relay (\<lambda>_. smtp_conn_init fd) \<bind> (\<lambda>_. m \<bind> f))"
  using assms by (auto simp: state_io_rel_def kept_sound_def triple_def guarded_def smtp_conn_init_def)

lemma kept_attempts:
  assumes "triple (guarded c host False) dialogue (\<lambda>_ s. sound_log c host (rlog s))"
  shows "state_io_rel (kept_sound c host) (attempt_loop (recorded E) h port dialogue left attempt)"
proof (induction left arbitrary: attempt)
  have body: "state_io_rel (kept_sound c host) (attempt_loop (recorded E) h port dialogue left attempt)"
    if "state_io_rel (kept_sound c host) (case left of 0 \<Rightarrow> return SMTP_TEMPFAIL | Suc k \<Rightarrow> attempt_loop (recorded E) h port dialogue k (attempt + 1))" for left attempt
    unfolding attempt_loop.simps [of _ _ _ _ left] Let_def
    by (auto intro!: that kept_dial kept_connect kept_close kept_dialogue [OF assms])
  { case 0 show ?case by (rule body) auto }
  { case (Suc k) show ?case by (rule body) (simp add: Suc.IH) }
qed

text \<open>
  C4. Mandatory TLS fails closed: with \<open>relay.tls = starttls-verify\<close>, in every run of \<open>smtp_out_send_host\<close>, whatever the
  relay answers, the network does and the TLS library returns, all that is ever written in the clear is (pieces of) EHLO and
  STARTTLS. Everything else, credentials, envelope and message included, is written through a TLS session that was set up to
  require a verified certificate for the host the caller asked for, after the handshake of that session succeeded on that
  descriptor since the last dial.
\<close>

theorem starttls_verify_fail_closed:
  assumes "tls_verify c"
  shows "sound_log c host (rlog (exec (smtp_out_send_host (recorded E) n c host port from to body) (s\<lparr>r_world := (w, [])\<rparr>)))"
proof -
  have "host \<noteq> [] \<Longrightarrow> state_io_rel (kept_sound c host) (attempt_loop (recorded E) host port (smtp_dialogue (recorded E) n c host tmo dtmo body m r) k 0)" for tmo dtmo m r k
    by (rule kept_attempts [OF triple_dialogue [OF _ assms]])
  then have "state_io_rel (kept_sound c host) (smtp_out_send_host (recorded E) n c host port from to body)"
    unfolding smtp_out_send_host_def Let_def by (auto intro!: kept_unheard [OF unheard_io(2)] split: option.split)
  then show ?thesis by (simp add: state_io_rel_def kept_sound_def sound_log_Nil)
qed

definition starttls_script :: "string list" where
  "starttls_script = [''220 relay'' @ CRLF, ''250-relay'' @ CRLF, ''250 STARTTLS'' @ CRLF, ''220 go'' @ CRLF, ''250 relay'' @ CRLF,
     ''235 in'' @ CRLF, ''250 ok'' @ CRLF, ''250 ok'' @ CRLF, ''354 go'' @ CRLF, ''250 queued'' @ CRLF]"

theorem starttls_verify_fail_closed_witness:
  "tls_verify (secret_cfg ''starttls-verify'') \<and>
   (let t = run_state (smtp_out_send_host (recorded script_relay) 3 (secret_cfg ''starttls-verify'') ''mx'' 25 ''a@b'' ''c@d'' ''hi'') ((relay_start [])\<lparr>r_world := (starttls_script, [])\<rparr>)
    in fst t = SMTP_OK \<and> length (rlog (snd t)) = 12 \<and> sound_log (secret_cfg ''starttls-verify'') ''mx'' (rlog (snd t)))"
proof -
  have v: "tls_verify (secret_cfg ''starttls-verify'')" by code_simp
  have "let t = run_state (smtp_out_send_host (recorded script_relay) 3 (secret_cfg ''starttls-verify'') ''mx'' 25 ''a@b'' ''c@d'' ''hi'') ((relay_start [])\<lparr>r_world := (starttls_script, [])\<rparr>)
    in fst t = SMTP_OK \<and> length (rlog (snd t)) = 12"
    by code_simp
  then show ?thesis
    unfolding Let_def by (intro conjI v starttls_verify_fail_closed [OF v]) (erule conjunct1, erule conjunct2)
qed

end
