(* ===== verification/Outbox_Auth.thy ===== *)
theory Outbox_Auth
  imports Visage_Prelude "HOL-Library.Word"
begin

text \<open>
  The credential store and the brute-force lockout of the submission server (\<open>outbox_auth.c\<close>): the
  \<open>user:pass\<close> file, the constant-time check, and the table of failures per address. A file that cannot be
  read is \<open>None\<close>. The table \<open>fails[0..nfails)\<close> is the list of its used entries; an address is the string of
  its \<open>len\<close> bytes, so the test \<open>!ip || !len\<close> is \<open>ip = []\<close>.
\<close>

unbundle bit_operations_syntax

section \<open>The credential file\<close>

record OutboxCred =
  cred_user :: string
  cred_pass :: string

definition user_char :: "char \<Rightarrow> bool" where
  "user_char c \<longleftrightarrow> is_upper c \<or> is_lower c \<or> is_digit c \<or> c = DOT \<or> c = CHR ''_'' \<or> c = CHR ''-''"

definition user_ok :: "string \<Rightarrow> bool" where
  "user_ok u \<longleftrightarrow> u \<noteq> [] \<and> list_all user_char u \<and> length u \<le> 128"

function passwd_lines :: "string \<Rightarrow> string list" where
  "passwd_lines p =
     (if p = [] then []
      else takeWhile (\<lambda>c. c \<noteq> LF) p # passwd_lines (drop 1 (dropWhile (\<lambda>c. c \<noteq> LF) p)))"
  by pat_completeness auto
termination
proof (relation "measure length")
  fix p :: string
  assume "p \<noteq> []"
  then show "(drop 1 (dropWhile (\<lambda>c. c \<noteq> LF) p), p) \<in> measure length"
    using length_dropWhile_le [of "\<lambda>c. c \<noteq> LF" p] by (cases p) auto
qed simp

declare passwd_lines.simps [simp del]

text \<open>What the loader makes of one line: comments, lines without a colon, bad user names and empty passwords are skipped.\<close>

definition passwd_entry :: "string \<Rightarrow> OutboxCred option" where
  "passwd_entry line =
     (if line = [] \<or> hd line = CHR ''#'' then None
      else
        let user = takeWhile (\<lambda>c. c \<noteq> CHR '':'') line;
            colon = dropWhile (\<lambda>c. c \<noteq> CHR '':'') line in
        if colon = [] then None
        else if user_ok user \<and> tl colon \<noteq> [] then Some \<lparr>cred_user = user, cred_pass = tl colon\<rparr>
        else None)"

definition outbox_auth_load :: "string option \<Rightarrow> OutboxCred list" where
  "outbox_auth_load file =
     (case file of None \<Rightarrow> [] | Some buf \<Rightarrow> List.map_filter passwd_entry (passwd_lines (cstr buf)))"

section \<open>The check\<close>

definition byte_at :: "string \<Rightarrow> nat \<Rightarrow> 8 word" where
  "byte_at s i = (if i < length s then of_nat (byte (s ! i)) else 0)"

definition ct_equal :: "string \<Rightarrow> string \<Rightarrow> bool" where
  "ct_equal a b \<longleftrightarrow>
     foldl (\<lambda>diff i. diff OR (byte_at a i XOR byte_at b i)) 0 [0..<max (length a) (length b)] = 0"

definition dummy_pass :: string where
  "dummy_pass = ''visage-dummy-outbox-password''"

definition outbox_auth_check :: "OutboxCred list \<Rightarrow> string \<Rightarrow> string \<Rightarrow> bool" where
  "outbox_auth_check creds user pass =
     (let cand = (case find (\<lambda>c. cred_user c = user) creds of Some c \<Rightarrow> cred_pass c | None \<Rightarrow> dummy_pass)
      in ct_equal pass cand)"

section \<open>The lockout table\<close>

record OutboxFail =
  f_ip :: string
  f_count :: u32
  f_first :: int
  f_lock :: int

definition OUTBOX_AUTH_MAX_FAILS :: u32 where "OUTBOX_AUTH_MAX_FAILS = 5"
definition OUTBOX_AUTH_WINDOW_SEC :: int where "OUTBOX_AUTH_WINDOW_SEC = 60"
definition OUTBOX_AUTH_LOCKOUT_SEC :: int where "OUTBOX_AUTH_LOCKOUT_SEC = 300"
definition OUTBOX_AUTH_MAX_TRACKED :: nat where "OUTBOX_AUTH_MAX_TRACKED = 64"

fun fail_find :: "OutboxFail list \<Rightarrow> string \<Rightarrow> nat option" where
  "fail_find [] ip = None"
| "fail_find (f # fs) ip = (if f_ip f = ip then Some 0 else map_option Suc (fail_find fs ip))"

text \<open>The entry to evict when the table is full: the first one with the least \<open>first_fail\<close>.\<close>

definition fail_evict :: "OutboxFail list \<Rightarrow> nat" where
  "fail_evict fs = foldl (\<lambda>ev j. if f_first (fs ! j) < f_first (fs ! ev) then j else ev) 0 [1..<length fs]"

definition fresh_fail :: "string \<Rightarrow> OutboxFail" where
  "fresh_fail ip = \<lparr>f_ip = ip, f_count = 0, f_first = 0, f_lock = 0\<rparr>"

definition fail_bump :: "int \<Rightarrow> OutboxFail \<Rightarrow> OutboxFail" where
  "fail_bump now f =
     (let f1 = (if now - f_first f > OUTBOX_AUTH_WINDOW_SEC then f\<lparr>f_first := now, f_count := 0\<rparr> else f);
          f2 = f1\<lparr>f_count := f_count f1 + 1\<rparr>
      in if f_count f2 \<ge> OUTBOX_AUTH_MAX_FAILS then f2\<lparr>f_lock := now + OUTBOX_AUTH_LOCKOUT_SEC\<rparr> else f2)"

definition outbox_auth_fail :: "OutboxFail list \<Rightarrow> string \<Rightarrow> int \<Rightarrow> OutboxFail list" where
  "outbox_auth_fail fs ip now =
     (if ip = [] then fs
      else
        let (i, fs1) =
          (case fail_find fs ip of
             Some i \<Rightarrow> (i, fs)
           | None \<Rightarrow>
               if length fs \<ge> OUTBOX_AUTH_MAX_TRACKED then (fail_evict fs, fs[fail_evict fs := fresh_fail ip])
               else (length fs, fs @ [fresh_fail ip]))
        in fs1[i := fail_bump now (fs1 ! i)])"

definition outbox_auth_clear :: "OutboxFail list \<Rightarrow> string \<Rightarrow> OutboxFail list" where
  "outbox_auth_clear fs ip =
     (if ip = [] then fs
      else case fail_find fs ip of
        None \<Rightarrow> fs
      | Some i \<Rightarrow> fs[i := (fs ! i)\<lparr>f_count := 0, f_first := 0, f_lock := 0\<rparr>])"

definition outbox_auth_blocked :: "OutboxFail list \<Rightarrow> string \<Rightarrow> int \<Rightarrow> bool \<times> OutboxFail list" where
  "outbox_auth_blocked fs ip now =
     (if ip = [] then (False, fs)
      else case fail_find fs ip of
        None \<Rightarrow> (False, fs)
      | Some i \<Rightarrow>
          if f_lock (fs ! i) \<noteq> 0 \<and> now < f_lock (fs ! i) then (True, fs)
          else if f_lock (fs ! i) \<noteq> 0 then (False, fs[i := (fs ! i)\<lparr>f_lock := 0\<rparr>])
          else (False, fs))"

end
