(* ===== verification/Outbox_Queue.thy ===== *)
theory Outbox_Queue
  imports Visage_Prelude
begin

text \<open>
  The delivery queue of the submission server (\<open>outbox_deliver.c\<close>, types of \<open>outbox.h\<close>): jobs with their
  envelope, admission with the two caps, the worker's choice of a job, and the re-append of a job that must be
  retried. Each operation is one critical section of the code. The linked list is the list of its jobs; sizes are those of
  live allocations, so their sums do not wrap.
\<close>

record OutboxDeliveryJob =
  j_from :: string
  j_rcpts :: "string list"
  j_msg :: string
  j_due :: int
  j_attempt :: u32
  j_done :: "bool list"

record OutboxDeliveryQueue =
  q_jobs :: "OutboxDeliveryJob list"
  q_shutdown :: bool
  q_njobs :: nat
  q_bytes :: nat
  q_max_jobs :: nat
  q_max_bytes :: nat

definition OUTBOX_DEFAULT_QUEUE_MAX_JOBS :: nat where
  "OUTBOX_DEFAULT_QUEUE_MAX_JOBS = 1024"

definition OUTBOX_DEFAULT_QUEUE_MAX_BYTES :: nat where
  "OUTBOX_DEFAULT_QUEUE_MAX_BYTES = 256 * 1024 * 1024"

definition outbox_delivery_queue_init :: OutboxDeliveryQueue where
  "outbox_delivery_queue_init =
     \<lparr>q_jobs = [], q_shutdown = False, q_njobs = 0, q_bytes = 0,
      q_max_jobs = OUTBOX_DEFAULT_QUEUE_MAX_JOBS, q_max_bytes = OUTBOX_DEFAULT_QUEUE_MAX_BYTES\<rparr>"

definition new_job :: "string \<Rightarrow> string list \<Rightarrow> string \<Rightarrow> OutboxDeliveryJob" where
  "new_job from rcpts msg =
     \<lparr>j_from = from, j_rcpts = rcpts, j_msg = msg, j_due = 0, j_attempt = 1, j_done = replicate (length rcpts) False\<rparr>"

text \<open>The results of the admission: \<open>0\<close>, \<open>-1\<close> and \<open>-2\<close>.\<close>

datatype enqueue_result = Enq_ok | Enq_closed | Enq_full

definition queue_append :: "OutboxDeliveryQueue \<Rightarrow> OutboxDeliveryJob \<Rightarrow> OutboxDeliveryQueue" where
  "queue_append q job =
     q\<lparr>q_jobs := q_jobs q @ [job], q_njobs := q_njobs q + 1, q_bytes := q_bytes q + length (j_msg job)\<rparr>"

definition outbox_delivery_enqueue :: "OutboxDeliveryQueue \<Rightarrow> string \<Rightarrow> string list \<Rightarrow> string \<Rightarrow> enqueue_result \<times> OutboxDeliveryQueue" where
  "outbox_delivery_enqueue q from rcpts msg =
     (let job = new_job from rcpts msg in
      if q_shutdown q then (Enq_closed, q)
      else if (q_max_jobs q \<noteq> 0 \<and> q_njobs q \<ge> q_max_jobs q) \<or> (q_max_bytes q \<noteq> 0 \<and> q_bytes q + length (j_msg job) > q_max_bytes q)
      then (Enq_full, q)
      else (Enq_ok, queue_append q job))"

definition outbox_delivery_shutdown :: "OutboxDeliveryQueue \<Rightarrow> OutboxDeliveryQueue" where
  "outbox_delivery_shutdown q = q\<lparr>q_shutdown := True\<rparr>"

definition queue_reappend :: "OutboxDeliveryQueue \<Rightarrow> OutboxDeliveryJob \<Rightarrow> OutboxDeliveryQueue" where
  "queue_reappend q job = queue_append q job"

text \<open>
  The selection loop of the worker: the first job that is due (every job once the queue is shut down), or
  the least due time seen, with 0 for none.
\<close>

fun pick_due :: "bool \<Rightarrow> int \<Rightarrow> int \<Rightarrow> OutboxDeliveryJob list \<Rightarrow> int + (OutboxDeliveryJob \<times> OutboxDeliveryJob list)" where
  "pick_due shut now next_due [] = Inl next_due"
| "pick_due shut now next_due (it # its) =
     (if shut \<or> j_due it \<le> now then Inr (it, its)
      else case pick_due shut now (if next_due = 0 \<or> j_due it < next_due then j_due it else next_due) its of
        Inl d \<Rightarrow> Inl d
      | Inr (job, rest) \<Rightarrow> Inr (job, it # rest))"

datatype worker_pick = Pick_job OutboxDeliveryJob OutboxDeliveryQueue | Pick_exit | Pick_wait | Pick_wait_until int

definition worker_take :: "OutboxDeliveryQueue \<Rightarrow> int \<Rightarrow> worker_pick" where
  "worker_take q now =
     (case pick_due (q_shutdown q) now 0 (q_jobs q) of
        Inr (job, rest) \<Rightarrow> Pick_job job (q\<lparr>q_jobs := rest, q_njobs := q_njobs q - 1, q_bytes := q_bytes q - length (j_msg job)\<rparr>)
      | Inl next_due \<Rightarrow>
          if q_jobs q = [] then if q_shutdown q then Pick_exit else Pick_wait
          else Pick_wait_until next_due)"

end
