(* ===== verification/Outbox_Submit.thy ===== *)
theory Outbox_Submit
  imports Smtp_Conn Outbox_Auth Outbox_Queue Base64 Mail_Headers Smtp_Data
begin

text \<open>
  The session of the submission server (\<open>outbox_submit.c\<close>, \<open>tls_advance\<close> of \<open>outbox_main.c\<close>): replies, the
  sender policy, DATA completion with signing, spooling and enqueueing, AUTH PLAIN and LOGIN, the command
  handlers, and the routing of received bytes. The system calls, mbedTLS and the DKIM signer are those of the environment record of
  \<open>Smtp_Conn\<close>; the TLS layer, the send loop of a flush and the helpers that the source file repeats from \<open>smtp_in.c\<close>
  (\<open>ascii_strncasecmp\<close>, \<open>ascii_ieq_str\<close>, \<open>parse_addr_arg\<close>) are the definitions made there. Allocations succeed.
\<close>

section \<open>State\<close>

datatype ob_state = OB_ST_INIT | OB_ST_HELO | OB_ST_MAIL | OB_ST_DATA

datatype ob_auth = OB_AUTH_NONE | OB_AUTH_PLAIN | OB_AUTH_LOGIN_USER | OB_AUTH_LOGIN_PASS

record OutboxConfig =
  ob_domains :: "string list"
  ob_dkim :: "(string \<times> string) list"
  ob_hostname :: string
  ob_spool :: string
  ob_max_msg :: u32
  ob_max_line :: u32
  ob_max_rcpts :: u32
  ob_cmd_tmo :: u32
  ob_data_tmo :: u32
  ob_max_attempts :: u32
  ob_deliver_port :: u32
  ob_internal_host :: string
  ob_internal_port :: u32
  ob_internal_tls :: string
  ob_internal_user :: string
  ob_internal_pass :: string
  ob_internal_domains :: "string list"

record OutboxConn =
  oc_fd :: int
  oc_closed :: bool
  oc_implicit_tls :: bool
  oc_greeted :: bool
  oc_authenticated :: bool
  oc_auth_user :: "string option"
  oc_pending_user :: "string option"
  oc_state :: ob_state
  oc_auth_pending :: ob_auth
  oc_from :: "string option"
  oc_rcpts :: "string list"
  oc_in :: string
  oc_data :: string
  oc_scan_pos :: nat
  oc_out :: string
  oc_out_off :: nat
  oc_last_act :: int
  oc_peer_ip :: string
  oc_tls :: "SmtpTls option"

text \<open>
  \<open>OutboxServer\<close> is what the program computes once at start. \<open>Outbox\<close> is what the poll thread changes: the connection it
  serves, the table of connections, the lockout table, the delivery queue it shares with the worker, the counter of spool files,
  and the world.
\<close>

record OutboxServer =
  sv_cfg :: OutboxConfig
  sv_creds :: "OutboxCred list"
  sv_max_line :: u32
  sv_max_msg :: u32
  sv_max_rcpts :: u32
  sv_cmd_tmo :: u32
  sv_data_tmo :: u32
  sv_raw_cap :: u64

record 'w Outbox =
  ob_conns :: "OutboxConn list"
  ob_conn :: OutboxConn
  ob_fails :: "OutboxFail list"
  ob_queue :: OutboxDeliveryQueue
  ob_seq :: u64
  ob_world :: 'w
  ob_stalled :: bool

definition OUTBOX_DEFAULT_MAX_MSG :: u32 where "OUTBOX_DEFAULT_MAX_MSG = 32 * 1024 * 1024"
definition OUTBOX_DEFAULT_CMD_TMO :: u32 where "OUTBOX_DEFAULT_CMD_TMO = 300"
definition OUTBOX_DEFAULT_DATA_TMO :: u32 where "OUTBOX_DEFAULT_DATA_TMO = 600"
definition OUTBOX_MAX_OUT :: nat where "OUTBOX_MAX_OUT = 256 * 1024"
definition OUTBOX_RECV_CHUNK :: nat where "OUTBOX_RECV_CHUNK = 4096"

definition outbox_server :: "OutboxConfig \<Rightarrow> string option \<Rightarrow> OutboxServer" where
  "outbox_server cfg passwd =
     (let mm = (if ob_max_msg cfg \<noteq> 0 then ob_max_msg cfg else OUTBOX_DEFAULT_MAX_MSG) in
      \<lparr>sv_cfg = cfg, sv_creds = outbox_auth_load passwd,
       sv_max_line = (if ob_max_line cfg \<noteq> 0 then ob_max_line cfg else of_nat SMTP_MAX_LINE),
       sv_max_msg = mm, sv_max_rcpts = ob_max_rcpts cfg,
       sv_cmd_tmo = (if ob_cmd_tmo cfg \<noteq> 0 then ob_cmd_tmo cfg else OUTBOX_DEFAULT_CMD_TMO),
       sv_data_tmo = (if ob_data_tmo cfg \<noteq> 0 then ob_data_tmo cfg else OUTBOX_DEFAULT_DATA_TMO),
       sv_raw_cap = ucast mm * 2 + 16\<rparr>)"

section \<open>Primitive steps\<close>

definition ob_io :: "('w \<Rightarrow> 'r \<times> 'w) \<Rightarrow> ('w Outbox, 'r) state" where
  "ob_io f = State (\<lambda>s. case f (ob_world s) of (r, w) \<Rightarrow> (r, s\<lparr>ob_world := w\<rparr>))"

definition oconn :: "('w Outbox, OutboxConn) state" where
  "oconn = gets ob_conn"

definition upd_oconn :: "(OutboxConn \<Rightarrow> OutboxConn) \<Rightarrow> ('w Outbox, unit) state" where
  "upd_oconn f = modify (\<lambda>s. s\<lparr>ob_conn := f (ob_conn s)\<rparr>)"

definition oclose :: "('w Outbox, unit) state" where
  "oclose = upd_oconn (\<lambda>c. c\<lparr>oc_closed := True\<rparr>)"

definition ostall :: "('w Outbox, unit) state" where
  "ostall = modify (\<lambda>s. s\<lparr>ob_stalled := True\<rparr>)"

lemma run_ob_io [simp]: "run_state (ob_io f) s = (fst (f (ob_world s)), s\<lparr>ob_world := snd (f (ob_world s))\<rparr>)"
  by (simp add: ob_io_def split_beta)

lemma run_oconn [simp]: "run_state oconn s = (ob_conn s, s)"
  by (simp add: oconn_def)

lemma run_upd_oconn [simp]: "run_state (upd_oconn f) s = ((), s\<lparr>ob_conn := f (ob_conn s)\<rparr>)"
  by (simp add: upd_oconn_def)

section \<open>Replies\<close>

definition oflush_send :: "('d, 'w) Env \<Rightarrow> OutboxConn \<Rightarrow> string \<Rightarrow> 'w \<Rightarrow> sent \<times> 'w" where
  "oflush_send E c = (if oc_tls c \<noteq> None \<and> \<not> smtp_in_tls_pending (oc_tls c) then smtp_in_tls_send E (oc_fd c) else os_send E (oc_fd c))"

definition oafter_flush :: "flush_end \<Rightarrow> OutboxConn \<Rightarrow> OutboxConn" where
  "oafter_flush r c =
     (case r of
        Flush_done \<Rightarrow> c\<lparr>oc_out := [], oc_out_off := 0\<rparr>
      | Flush_blocked off \<Rightarrow> c\<lparr>oc_out_off := off\<rparr>
      | Flush_dead \<Rightarrow> c\<lparr>oc_closed := True, oc_out := [], oc_out_off := 0\<rparr>)"

definition outbox_conn_flush :: "('d, 'w) Env \<Rightarrow> ('w Outbox, unit) state" where
  "outbox_conn_flush E = do {
     c \<leftarrow> oconn;
     r \<leftarrow> ob_io (flush_loop (oflush_send E c) (oc_out c) (oc_out_off c));
     upd_oconn (oafter_flush r)
   }"

definition outbox_conn_reply :: "('d, 'w) Env \<Rightarrow> string \<Rightarrow> ('w Outbox, unit) state" where
  "outbox_conn_reply E text = do {
     c \<leftarrow> oconn;
     if length (oc_out c) > OUTBOX_MAX_OUT then oclose
     else do {
       upd_oconn (\<lambda>c. c\<lparr>oc_out := oc_out c @ text\<rparr>);
       outbox_conn_flush E
     }
   }"

definition oreply_close :: "('d, 'w) Env \<Rightarrow> string \<Rightarrow> ('w Outbox, unit) state" where
  "oreply_close E text = do { outbox_conn_reply E text; oclose }"

definition outbox_conn_reset_txn :: "ob_state \<Rightarrow> OutboxConn \<Rightarrow> OutboxConn" where
  "outbox_conn_reset_txn st c =
     c\<lparr>oc_from := None, oc_rcpts := [], oc_data := [], oc_scan_pos := 0, oc_auth_pending := OB_AUTH_NONE,
       oc_pending_user := None, oc_state := st\<rparr>"

definition outbox_conn_add_rcpt :: "string \<Rightarrow> OutboxConn \<Rightarrow> OutboxConn" where
  "outbox_conn_add_rcpt rcpt c = c\<lparr>oc_rcpts := oc_rcpts c @ [rcpt]\<rparr>"

section \<open>Domains\<close>

definition outbox_domain_allowed :: "OutboxConfig \<Rightarrow> string \<Rightarrow> bool" where
  "outbox_domain_allowed cfg d \<longleftrightarrow> list_ex (\<lambda>x. ascii_ieq_str x d) (ob_domains cfg)"

definition outbox_domain_internal :: "OutboxConfig \<Rightarrow> string \<Rightarrow> bool" where
  "outbox_domain_internal cfg d \<longleftrightarrow>
     list_ex (\<lambda>x. ascii_ieq_str x d) (if ob_internal_domains cfg \<noteq> [] then ob_internal_domains cfg else ob_domains cfg)"

definition outbox_dkim_key :: "OutboxConfig \<Rightarrow> string \<Rightarrow> string option" where
  "outbox_dkim_key cfg d = map_option snd (find (\<lambda>k. ascii_ieq_str (fst k) d) (ob_dkim cfg))"

definition lowercase_into :: "string \<Rightarrow> nat \<Rightarrow> string" where
  "lowercase_into s outsz = map to_lower (take (outsz - 1) s)"

definition outbox_addr_domain :: "string \<Rightarrow> nat \<Rightarrow> string option" where
  "outbox_addr_domain addr outsz =
     (case mail_addr_parse addr of
        None \<Rightarrow> None
      | Some (local, dm) \<Rightarrow> if dm = [] then None else Some (lowercase_into dm outsz))"

definition from_addr_extract :: "string \<Rightarrow> nat \<Rightarrow> string option" where
  "from_addr_extract hdr addr_sz =
     (let lt = dropWhile (\<lambda>c. c \<noteq> CHR ''<'') hdr in
      if lt \<noteq> [] then
        let a = takeWhile (\<lambda>c. c \<noteq> CHR ''>'') (tl lt) in
        if dropWhile (\<lambda>c. c \<noteq> CHR ''>'') lt = [] then None
        else if a = [] \<or> length a \<ge> addr_sz then None
        else Some a
      else
        let h = rtrim (ltrim hdr) in
        if h = [] \<or> length h \<ge> addr_sz then None else Some h)"

definition outbox_from_header_domain :: "string \<Rightarrow> nat \<Rightarrow> string option" where
  "outbox_from_header_domain msg outsz =
     (case mail_header_get msg ''From'' 4096 of
        None \<Rightarrow> None
      | Some hdr \<Rightarrow>
          (case from_addr_extract hdr SMTP_MAX_LINE of
             None \<Rightarrow> None
           | Some addr \<Rightarrow> outbox_addr_domain addr outsz))"

section \<open>DATA completion\<close>

definition dec_of_int :: "int \<Rightarrow> string" where
  "dec_of_int t = (if t < 0 then CHR ''-'' # dec_of_nat (nat (- t)) else dec_of_nat (nat t))"

text \<open>The directories of a path from the outermost on; each is made unless it exists.\<close>

fun omkdir_all :: "('d, 'w) Env \<Rightarrow> string list \<Rightarrow> ('w Outbox, bool) state" where
  "omkdir_all E [] = return True"
| "omkdir_all E (p # ps) = do {
     ok \<leftarrow> ob_io (os_mkdir E p);
     if ok then omkdir_all E ps else return False
   }"

definition opath_prefixes :: "string \<Rightarrow> string list" where
  "opath_prefixes path = [take i path. i \<leftarrow> [1..<length path], path ! i = CHR ''/''] @ [path]"

text \<open>The envelope file: the lines that fit, or nothing.\<close>

fun env_rcpts :: "string \<Rightarrow> string list \<Rightarrow> string option" where
  "env_rcpts env [] = Some env"
| "env_rcpts env (r # rs) =
     (let l = ''RCPT TO:<'' @ r @ ''>'' @ [LF] in
      if length l \<ge> 4096 - length env then None else env_rcpts (env @ l) rs)"

definition env_text :: "string \<Rightarrow> string list \<Rightarrow> string option" where
  "env_text from rcpts =
     (let l = ''MAIL FROM:<'' @ from @ ''>'' @ [LF] in if length l \<ge> 4096 then None else env_rcpts l rcpts)"

definition spool_message :: "('d, 'w) Env \<Rightarrow> OutboxServer \<Rightarrow> string \<Rightarrow> string list \<Rightarrow> string \<Rightarrow> ('w Outbox, unit) state" where
  "spool_message E srv from rcpts msg =
     (let dir = ob_spool (sv_cfg srv) in
      if dir = [] then return ()
      else do {
        ok \<leftarrow> omkdir_all E (opath_prefixes dir);
        if \<not> ok then return ()
        else do {
          t \<leftarrow> ob_io (os_time E);
          seq \<leftarrow> gets ob_seq;
          let stem = dir @ ''/'' @ dec_of_int t @ ''-'' @ dec_of_nat (unat seq);
          if length (stem @ ''.eml'') \<ge> 4096 then return ()
          else do {
            modify (\<lambda>s. s\<lparr>ob_seq := ob_seq s + 1\<rparr>);
            w \<leftarrow> ob_io (file_write E (stem @ ''.eml'') msg);
            if \<not> w then return ()
            else case env_text from rcpts of
              None \<Rightarrow> return ()
            | Some env \<Rightarrow> do { _ \<leftarrow> ob_io (file_write E (stem @ ''.env'') env); return () }
          }
        }
      })"

definition with_queue :: "(OutboxDeliveryQueue \<Rightarrow> 'r \<times> OutboxDeliveryQueue) \<Rightarrow> ('w Outbox, 'r) state" where
  "with_queue f = State (\<lambda>s. case f (ob_queue s) of (r, q) \<Rightarrow> (r, s\<lparr>ob_queue := q\<rparr>))"

lemma run_with_queue [simp]: "run_state (with_queue f) s = (fst (f (ob_queue s)), s\<lparr>ob_queue := snd (f (ob_queue s))\<rparr>)"
  by (simp add: with_queue_def split_beta)

text \<open>The DKIM step: the signed message when there is a key and signing works, else the message as it is.\<close>

definition outbox_sign :: "('d, 'w) Env \<Rightarrow> OutboxConfig \<Rightarrow> string \<Rightarrow> string \<Rightarrow> ('w Outbox, string) state" where
  "outbox_sign E cfg msg fromdom =
     (case outbox_dkim_key cfg fromdom of
        None \<Rightarrow> return msg
      | Some key \<Rightarrow> do {
          r \<leftarrow> ob_io (dkim_sign E msg fromdom ''visage'' key);
          return (case r of None \<Rightarrow> msg | Some m \<Rightarrow> m)
        })"

definition from_aligned :: "OutboxConn \<Rightarrow> string \<Rightarrow> string option" where
  "from_aligned c msg =
     (case oc_from c of
        None \<Rightarrow> None
      | Some from \<Rightarrow>
          (case (outbox_addr_domain from 256, outbox_from_header_domain msg 256) of
             (Some envdom, Some fromdom) \<Rightarrow> if ascii_ieq_str envdom fromdom then Some fromdom else None
           | _ \<Rightarrow> None))"

definition outbox_deliver_message :: "('d, 'w) Env \<Rightarrow> OutboxServer \<Rightarrow> ('w Outbox, unit) state" where
  "outbox_deliver_message E srv = do {
     upd_oconn (\<lambda>c. c\<lparr>oc_data := mail_unstuff_dots (oc_data c)\<rparr>);
     c \<leftarrow> oconn;
     let msg = oc_data c;
     if mail_data_has_ctl msg then oreply_close E (''554 5.6.0 Message contains NUL or control bytes'' @ CRLF)
     else if length msg > unat (sv_max_msg srv) then oreply_close E (''552 5.3.4 Message exceeds fixed limit'' @ CRLF)
     else case from_aligned c msg of
       None \<Rightarrow> outbox_conn_reply E (''554 5.7.1 Sender address rejected (From domain must equal envelope MAIL FROM)'' @ CRLF)
     | Some fromdom \<Rightarrow> do {
         out_msg \<leftarrow> outbox_sign E (sv_cfg srv) msg fromdom;
         let from = (case oc_from c of None \<Rightarrow> [] | Some f \<Rightarrow> f);
         spool_message E srv from (oc_rcpts c) out_msg;
         q \<leftarrow> with_queue (\<lambda>q. outbox_delivery_enqueue q from (oc_rcpts c) out_msg);
         case q of
           Enq_full \<Rightarrow> outbox_conn_reply E (''452 4.3.1 Delivery queue full, try later'' @ CRLF)
         | Enq_closed \<Rightarrow> outbox_conn_reply E (''451 4.3.0 Temporary delivery failure'' @ CRLF)
         | Enq_ok \<Rightarrow> outbox_conn_reply E (''250 2.0.0 OK: queued'' @ CRLF)
       }
   }"

section \<open>AUTH\<close>

definition auth_failed :: "int \<Rightarrow> ('w Outbox, unit) state" where
  "auth_failed now = modify (\<lambda>s. s\<lparr>ob_fails := outbox_auth_fail (ob_fails s) (oc_peer_ip (ob_conn s)) now\<rparr>)"

definition auth_cleared :: "('w Outbox, unit) state" where
  "auth_cleared = modify (\<lambda>s. s\<lparr>ob_fails := outbox_auth_clear (ob_fails s) (oc_peer_ip (ob_conn s))\<rparr>)"

definition auth_asked :: "int \<Rightarrow> ('w Outbox, bool) state" where
  "auth_asked now = State (\<lambda>s. case outbox_auth_blocked (ob_fails s) (oc_peer_ip (ob_conn s)) now of (b, fs) \<Rightarrow> (b, s\<lparr>ob_fails := fs\<rparr>))"

lemma run_auth_steps [simp]:
  "run_state (auth_failed now) s = ((), s\<lparr>ob_fails := outbox_auth_fail (ob_fails s) (oc_peer_ip (ob_conn s)) now\<rparr>)"
  "run_state auth_cleared s = ((), s\<lparr>ob_fails := outbox_auth_clear (ob_fails s) (oc_peer_ip (ob_conn s))\<rparr>)"
  "run_state (auth_asked now) s = (fst (outbox_auth_blocked (ob_fails s) (oc_peer_ip (ob_conn s)) now),
     s\<lparr>ob_fails := snd (outbox_auth_blocked (ob_fails s) (oc_peer_ip (ob_conn s)) now)\<rparr>)"
  by (simp_all add: auth_failed_def auth_cleared_def auth_asked_def split_beta)

definition finish_auth :: "('d, 'w) Env \<Rightarrow> OutboxServer \<Rightarrow> string \<Rightarrow> string \<Rightarrow> int \<Rightarrow> ('w Outbox, unit) state" where
  "finish_auth E srv user pass now = do {
     blocked \<leftarrow> auth_asked now;
     if blocked then outbox_conn_reply E (''454 4.7.0 Too many failed attempts'' @ CRLF)
     else if outbox_auth_check (sv_creds srv) user pass then do {
       auth_cleared;
       upd_oconn (\<lambda>c. c\<lparr>oc_authenticated := True, oc_auth_user := Some user\<rparr>);
       outbox_conn_reply E (''235 2.7.0 Authentication successful'' @ CRLF)
     }
     else do {
       auth_failed now;
       outbox_conn_reply E (''535 5.7.8 Authentication credentials invalid'' @ CRLF)
     }
   }"

definition auth_bad :: "('d, 'w) Env \<Rightarrow> int \<Rightarrow> string \<Rightarrow> ('w Outbox, unit) state" where
  "auth_bad E now text = do { auth_failed now; outbox_conn_reply E text }"

text \<open>
  The SASL PLAIN response \<open>authzid NUL authcid NUL passwd\<close>; the password is what the C string holds.
\<close>

definition plain_split :: "string \<Rightarrow> (string \<times> string) option" where
  "plain_split dec =
     (let d1 = dropWhile (\<lambda>c. c \<noteq> NUL) dec;
          user = takeWhile (\<lambda>c. c \<noteq> NUL) (tl d1);
          d2 = dropWhile (\<lambda>c. c \<noteq> NUL) (tl d1) in
      if d1 = [] \<or> d2 = [] then None
      else if user = [] \<or> length user \<ge> 128 \<or> length (tl d2) \<ge> 512 then None
      else Some (user, cstr (tl d2)))"

definition auth_plain_check :: "('d, 'w) Env \<Rightarrow> OutboxServer \<Rightarrow> string \<Rightarrow> int \<Rightarrow> ('w Outbox, unit) state" where
  "auth_plain_check E srv b64 now =
     (case outbox_b64_decode b64 512 of
        None \<Rightarrow> auth_bad E now (''501 5.5.4 Invalid base64'' @ CRLF)
      | Some dec \<Rightarrow>
          (case plain_split dec of
             None \<Rightarrow> auth_bad E now (''501 5.5.4 Malformed AUTH PLAIN response'' @ CRLF)
           | Some (user, pass) \<Rightarrow> finish_auth E srv user pass now))"

text \<open>A base64 field of AUTH LOGIN, for a buffer of \<open>sz\<close> bytes with room for the terminator.\<close>

definition login_field :: "string \<Rightarrow> nat \<Rightarrow> string option" where
  "login_field line sz =
     (case outbox_b64_decode line sz of
        None \<Rightarrow> None
      | Some u \<Rightarrow> if u = [] \<or> length u \<ge> sz then None else Some (cstr u))"

definition handle_auth_cont :: "('d, 'w) Env \<Rightarrow> OutboxServer \<Rightarrow> string \<Rightarrow> int \<Rightarrow> ('w Outbox, unit) state" where
  "handle_auth_cont E srv line now = do {
     c \<leftarrow> oconn;
     if line = ''*'' then do {
       upd_oconn (\<lambda>c. c\<lparr>oc_auth_pending := OB_AUTH_NONE, oc_pending_user := None\<rparr>);
       outbox_conn_reply E (''501 5.7.0 Authentication aborted'' @ CRLF)
     }
     else case oc_auth_pending c of
       OB_AUTH_PLAIN \<Rightarrow> do {
         upd_oconn (\<lambda>c. c\<lparr>oc_auth_pending := OB_AUTH_NONE\<rparr>);
         auth_plain_check E srv line now
       }
     | OB_AUTH_LOGIN_USER \<Rightarrow> do {
         upd_oconn (\<lambda>c. c\<lparr>oc_auth_pending := OB_AUTH_NONE\<rparr>);
         case login_field line 256 of
           None \<Rightarrow> do {
             upd_oconn (\<lambda>c. c\<lparr>oc_pending_user := None\<rparr>);
             auth_bad E now (''501 5.5.4 Invalid base64'' @ CRLF)
           }
         | Some u \<Rightarrow> do {
             upd_oconn (\<lambda>c. c\<lparr>oc_pending_user := Some u, oc_auth_pending := OB_AUTH_LOGIN_PASS\<rparr>);
             outbox_conn_reply E (''334 UGFzc3dvcmQ6'' @ CRLF)
           }
       }
     | OB_AUTH_LOGIN_PASS \<Rightarrow> do {
         upd_oconn (\<lambda>c. c\<lparr>oc_auth_pending := OB_AUTH_NONE, oc_pending_user := None\<rparr>);
         case (oc_pending_user c, login_field line 512) of
           (Some user, Some p) \<Rightarrow> finish_auth E srv user p now
         | _ \<Rightarrow> auth_bad E now (''501 5.5.4 Invalid base64'' @ CRLF)
       }
     | OB_AUTH_NONE \<Rightarrow> do {
         upd_oconn (\<lambda>c. c\<lparr>oc_auth_pending := OB_AUTH_NONE\<rparr>);
         outbox_conn_reply E (''503 5.5.1 Bad sequence of commands'' @ CRLF)
       }
   }"

definition do_auth :: "('d, 'w) Env \<Rightarrow> OutboxServer \<Rightarrow> string \<Rightarrow> int \<Rightarrow> ('w Outbox, unit) state" where
  "do_auth E srv rest now =
     (let p = skip_spaces rest;
          mech = takeWhile (\<lambda>c. c \<noteq> SP) p;
          init = skip_spaces (dropWhile (\<lambda>c. c \<noteq> SP) p) in
      if length mech = 5 \<and> ascii_strncasecmp mech ''PLAIN'' 5 = 0 then
        if init \<noteq> [] then auth_plain_check E srv init now
        else do {
          upd_oconn (\<lambda>c. c\<lparr>oc_auth_pending := OB_AUTH_PLAIN\<rparr>);
          outbox_conn_reply E (''334 '' @ CRLF)
        }
      else if length mech = 5 \<and> ascii_strncasecmp mech ''LOGIN'' 5 = 0 then
        if init \<noteq> [] then do {
          upd_oconn (\<lambda>c. c\<lparr>oc_auth_pending := OB_AUTH_NONE\<rparr>);
          case login_field init 256 of
            None \<Rightarrow> auth_bad E now (''501 5.5.4 Invalid base64'' @ CRLF)
          | Some u \<Rightarrow> do {
              upd_oconn (\<lambda>c. c\<lparr>oc_pending_user := Some u, oc_auth_pending := OB_AUTH_LOGIN_PASS\<rparr>);
              outbox_conn_reply E (''334 UGFzc3dvcmQ6'' @ CRLF)
            }
        }
        else do {
          upd_oconn (\<lambda>c. c\<lparr>oc_auth_pending := OB_AUTH_LOGIN_USER\<rparr>);
          outbox_conn_reply E (''334 VXNlcm5hbWU6'' @ CRLF)
        }
      else outbox_conn_reply E (''504 5.5.4 Unrecognized authentication type'' @ CRLF))"

section \<open>Commands\<close>

definition channel_secure :: "OutboxConn \<Rightarrow> bool" where
  "channel_secure c = smtp_in_tls_established (oc_tls c)"

definition require_secure :: "('d, 'w) Env \<Rightarrow> ('w Outbox, bool) state" where
  "require_secure E = do {
     c \<leftarrow> oconn;
     if channel_secure c then return True
     else do { outbox_conn_reply E (''530 5.7.0 Must issue a STARTTLS command first'' @ CRLF); return False }
   }"

definition require_auth :: "('d, 'w) Env \<Rightarrow> ('w Outbox, bool) state" where
  "require_auth E = do {
     ok \<leftarrow> require_secure E;
     if \<not> ok then return False
     else do {
       c \<leftarrow> oconn;
       if oc_authenticated c then return True
       else do { outbox_conn_reply E (''530 5.7.0 Authentication required'' @ CRLF); return False }
     }
   }"

definition ob_host :: "OutboxServer \<Rightarrow> string" where
  "ob_host srv = (if ob_hostname (sv_cfg srv) \<noteq> [] then ob_hostname (sv_cfg srv) else ''localhost'')"

text \<open>\<open>snprintf\<close> into a buffer of 512 bytes, with the text that is sent when it does not fit.\<close>

definition fit512 :: "string \<Rightarrow> string \<Rightarrow> string" where
  "fit512 s alt = (if length s \<ge> 512 then alt else s)"

definition outbox_do_helo :: "('d, 'w) Env \<Rightarrow> OutboxServer \<Rightarrow> bool \<Rightarrow> ('w Outbox, unit) state" where
  "outbox_do_helo E srv ehlo = do {
     upd_oconn (outbox_conn_reset_txn OB_ST_HELO);
     c \<leftarrow> oconn;
     outbox_conn_reply E
       (if ehlo then
          fit512 (''250-'' @ ob_host srv @ CRLF @ ''250-8BITMIME'' @ CRLF @ ''250-SIZE '' @ dec_of_nat (unat (sv_max_msg srv)) @ CRLF @
            (if channel_secure c then ''250-AUTH PLAIN LOGIN'' @ CRLF else []) @
            (if \<not> channel_secure c \<and> smtp_in_tls_available E then ''250-STARTTLS'' @ CRLF else []) @ ''250 OK'' @ CRLF)
            (''250 OK'' @ CRLF)
        else fit512 (''250 '' @ ob_host srv @ CRLF) (''250 localhost'' @ CRLF))
   }"

definition outbox_do_mail :: "('d, 'w) Env \<Rightarrow> OutboxServer \<Rightarrow> string \<Rightarrow> ('w Outbox, unit) state" where
  "outbox_do_mail E srv rest = do {
     c \<leftarrow> oconn;
     if oc_state c \<noteq> OB_ST_HELO then outbox_conn_reply E (''503 5.5.1 Error: send EHLO first'' @ CRLF)
     else do {
       ok \<leftarrow> require_auth E;
       if \<not> ok then return ()
       else case parse_addr_arg rest ''FROM'' SMTP_MAX_LINE of
         None \<Rightarrow> outbox_conn_reply E (''501 5.5.4 Syntax: MAIL FROM:<address>'' @ CRLF)
       | Some (path, params) \<Rightarrow>
           if (case outbox_addr_domain path 256 of None \<Rightarrow> True | Some d \<Rightarrow> \<not> outbox_domain_allowed (sv_cfg srv) d)
           then outbox_conn_reply E (''554 5.7.1 Sender address rejected (domain not permitted)'' @ CRLF)
           else do {
             upd_oconn (\<lambda>c. c\<lparr>oc_from := Some path, oc_state := OB_ST_MAIL\<rparr>);
             outbox_conn_reply E (''250 2.1.0 OK'' @ CRLF)
           }
     }
   }"

definition outbox_do_rcpt :: "('d, 'w) Env \<Rightarrow> OutboxServer \<Rightarrow> string \<Rightarrow> ('w Outbox, unit) state" where
  "outbox_do_rcpt E srv rest = do {
     c \<leftarrow> oconn;
     if oc_state c \<noteq> OB_ST_MAIL then outbox_conn_reply E (''503 5.5.1 Error: need MAIL first'' @ CRLF)
     else do {
       ok \<leftarrow> require_auth E;
       if \<not> ok then return ()
       else if sv_max_rcpts srv \<noteq> 0 \<and> length (oc_rcpts c) \<ge> unat (sv_max_rcpts srv)
       then outbox_conn_reply E (''452 4.5.3 Too many recipients'' @ CRLF)
       else case parse_addr_arg rest ''TO'' SMTP_MAX_LINE of
         None \<Rightarrow> outbox_conn_reply E (''501 5.5.4 Syntax: RCPT TO:<address>'' @ CRLF)
       | Some (path, params) \<Rightarrow>
           if path = [] then outbox_conn_reply E (''501 5.5.4 Empty recipient'' @ CRLF)
           else if mail_addr_parse path = None then outbox_conn_reply E (''501 5.5.4 Invalid recipient address'' @ CRLF)
           else do {
             upd_oconn (outbox_conn_add_rcpt path);
             outbox_conn_reply E (''250 2.1.5 OK'' @ CRLF)
           }
     }
   }"

definition outbox_do_data :: "('d, 'w) Env \<Rightarrow> ('w Outbox, unit) state" where
  "outbox_do_data E = do {
     c \<leftarrow> oconn;
     if oc_state c \<noteq> OB_ST_MAIL then outbox_conn_reply E (''503 5.5.1 Error: need RCPT first'' @ CRLF)
     else do {
       ok \<leftarrow> require_auth E;
       if \<not> ok then return ()
       else if oc_rcpts c = [] then outbox_conn_reply E (''503 5.5.1 Error: no valid recipients'' @ CRLF)
       else do {
         outbox_conn_reply E (''354 End data with <CR><LF>.<CR><LF>'' @ CRLF);
         upd_oconn (\<lambda>c. c\<lparr>oc_data := [], oc_scan_pos := 0, oc_state := OB_ST_DATA\<rparr>)
       }
     }
   }"

definition outbox_do_starttls :: "('d, 'w) Env \<Rightarrow> string \<Rightarrow> ('w Outbox, unit) state" where
  "outbox_do_starttls E rest = do {
     c \<leftarrow> oconn;
     if channel_secure c \<or> oc_tls c \<noteq> None then outbox_conn_reply E (''503 5.5.1 Error: TLS already active'' @ CRLF)
     else if oc_state c \<noteq> OB_ST_HELO then outbox_conn_reply E (''503 5.5.1 Error: send EHLO first'' @ CRLF)
     else if rest \<noteq> [] then outbox_conn_reply E (''501 5.5.4 Syntax: STARTTLS'' @ CRLF)
     else if oc_in c \<noteq> [] then outbox_conn_reply E (''500 5.5.2 Pipelined data before STARTTLS'' @ CRLF)
     else if \<not> smtp_in_tls_available E then outbox_conn_reply E (''502 5.5.1 Command not implemented'' @ CRLF)
     else do {
       t \<leftarrow> ob_io (tls_start E (oc_fd c));
       upd_oconn (\<lambda>c. c\<lparr>oc_tls := t\<rparr>);
       outbox_conn_reply E (if t = None then ''451 4.3.0 Storage allocation failure'' @ CRLF else ''220 2.0.0 Ready to start TLS'' @ CRLF)
     }
   }"

definition is_verb :: "string \<Rightarrow> string \<Rightarrow> bool" where
  "is_verb verb v \<longleftrightarrow> length v = length verb \<and> ascii_strncasecmp v verb (length verb) = 0"

definition outbox_handle_command :: "('d, 'w) Env \<Rightarrow> OutboxServer \<Rightarrow> int \<Rightarrow> string \<Rightarrow> ('w Outbox, unit) state" where
  "outbox_handle_command E srv now line =
     (let p = skip_spaces line;
          v = takeWhile (\<lambda>ch. ch \<noteq> SP) p;
          rest = skip_spaces (dropWhile (\<lambda>ch. ch \<noteq> SP) p) in
      if is_verb ''EHLO'' v then
        if rest = [] then outbox_conn_reply E (''501 5.5.4 EHLO requires a domain'' @ CRLF) else outbox_do_helo E srv True
      else if is_verb ''HELO'' v then
        if rest = [] then outbox_conn_reply E (''501 5.5.4 HELO requires a domain'' @ CRLF) else outbox_do_helo E srv False
      else if is_verb ''STARTTLS'' v then outbox_do_starttls E rest
      else if is_verb ''AUTH'' v then do {
        ok \<leftarrow> require_secure E;
        if \<not> ok then return ()
        else do {
          blocked \<leftarrow> auth_asked now;
          if blocked then outbox_conn_reply E (''454 4.7.0 Too many failed attempts'' @ CRLF)
          else do_auth E srv rest now
        }
      }
      else if is_verb ''MAIL'' v then outbox_do_mail E srv rest
      else if is_verb ''RCPT'' v then outbox_do_rcpt E srv rest
      else if is_verb ''DATA'' v then outbox_do_data E
      else if is_verb ''RSET'' v then do {
        upd_oconn (\<lambda>c. outbox_conn_reset_txn (if oc_state c = OB_ST_INIT then OB_ST_INIT else OB_ST_HELO) c);
        outbox_conn_reply E (''250 2.0.0 OK'' @ CRLF)
      }
      else if is_verb ''NOOP'' v then outbox_conn_reply E (''250 2.0.0 OK'' @ CRLF)
      else if is_verb ''QUIT'' v then oreply_close E (''221 2.0.0 Bye'' @ CRLF)
      else if is_verb ''VRFY'' v then outbox_conn_reply E (''252 2.5.2 Cannot VRFY user'' @ CRLF)
      else outbox_conn_reply E (''500 5.5.2 Command not recognized'' @ CRLF))"

section \<open>Received bytes\<close>

text \<open>
  The resumable scan of the DATA text, with the line start and the resume point kept apart as in this copy of
  the function: \<open>Inl\<close> is the terminator found or a line that is too long, \<open>Inr\<close> the state in which the loop ends.
\<close>

function outbox_scan_loop :: "string \<Rightarrow> nat \<Rightarrow> nat \<Rightarrow> nat \<Rightarrow> nat \<Rightarrow> (nat \<times> nat) option + (nat \<times> nat)" where
  "outbox_scan_loop buf line_max i line_start resume =
     (if i \<ge> length buf then Inr (line_start, resume)
      else if buf ! i = LF then
        let content_end = (if i > line_start \<and> buf ! (i - 1) = CR then i - 1 else i);
            clen = content_end - line_start in
        if clen > line_max then Inl None
        else if clen = 1 \<and> buf ! line_start = DOT then Inl (Some (line_start, i + 1 - line_start))
        else outbox_scan_loop buf line_max (i + 1) (i + 1) (i + 1)
      else if buf ! i = CR then
        if i + 1 < length buf \<and> buf ! (i + 1) = LF then outbox_scan_loop buf line_max (i + 1) line_start resume
        else
          let clen = i - line_start in
          if clen > line_max then Inl None
          else if clen = 1 \<and> buf ! line_start = DOT then Inl (Some (line_start, i + 1 - line_start))
          else if i + 1 = length buf then Inr (i + 1, resume)
          else outbox_scan_loop buf line_max (i + 1) (i + 1) (i + 1)
      else outbox_scan_loop buf line_max (i + 1) line_start resume)"
  by pat_completeness auto
termination
  by (relation "measure (\<lambda>(buf, line_max, i, line_start, resume). length buf - i)") auto

declare outbox_scan_loop.simps [simp del]

definition outbox_data_scan :: "string \<Rightarrow> nat \<Rightarrow> u32 \<Rightarrow> u64 \<Rightarrow> scan_result" where
  "outbox_data_scan buf scan_pos mline mtotal =
     (let line_max = unat mline + 1 in
      case outbox_scan_loop buf line_max scan_pos scan_pos scan_pos of
        Inl None \<Rightarrow> Scan_error
      | Inl (Some (e, t)) \<Rightarrow> Scan_found e t
      | Inr (line_start, resume) \<Rightarrow>
          if length buf > unat mtotal then Scan_error
          else if length buf - line_start > line_max then Scan_error
          else Scan_more resume)"

text \<open>
  One turn of each of the functions that call each other; the calls are arguments, as in \<open>Smtp_Session\<close>.
\<close>

definition oline :: "string \<Rightarrow> string" where
  "oline raw = cstr (if raw \<noteq> [] \<and> last raw = CR then butlast raw else raw)"

definition outbox_move_to_data :: "('d, 'w) Env \<Rightarrow> OutboxServer \<Rightarrow> ('w Outbox, unit) state" where
  "outbox_move_to_data E srv = do {
     c \<leftarrow> oconn;
     if oc_in c = [] then return ()
     else if length (oc_data c) + length (oc_in c) > unat (sv_raw_cap srv)
     then oreply_close E (''552 5.3.4 Message exceeds fixed limit'' @ CRLF)
     else upd_oconn (\<lambda>c. c\<lparr>oc_data := oc_data c @ oc_in c, oc_in := []\<rparr>)
   }"

definition outbox_commands_step :: "('d, 'w) Env \<Rightarrow> OutboxServer \<Rightarrow> int \<Rightarrow> ('w Outbox, unit) state \<Rightarrow> ('w Outbox, unit) state" where
  "outbox_commands_step E srv now again = do {
     c \<leftarrow> oconn;
     if oc_closed c then return ()
     else
       let raw = takeWhile (\<lambda>ch. ch \<noteq> LF) (oc_in c) in
       if length raw = length (oc_in c) then
         whenM (length (oc_in c) > unat (sv_max_line srv)) (oreply_close E (''500 5.5.2 Line too long'' @ CRLF))
       else if length raw > unat (sv_max_line srv) then oreply_close E (''500 5.5.2 Line too long'' @ CRLF)
       else do {
         upd_oconn (\<lambda>c. c\<lparr>oc_in := drop (length raw + 1) (oc_in c)\<rparr>);
         (if oc_auth_pending c \<noteq> OB_AUTH_NONE then handle_auth_cont E srv (oline raw) now
          else outbox_handle_command E srv now (oline raw));
         c \<leftarrow> oconn;
         if oc_state c = OB_ST_DATA \<and> \<not> oc_closed c then outbox_move_to_data E srv else again
       }
   }"

definition outbox_data_step :: "('d, 'w) Env \<Rightarrow> OutboxServer \<Rightarrow> ('w Outbox, unit) state \<Rightarrow> ('w Outbox, unit) state" where
  "outbox_data_step E srv commands = do {
     c \<leftarrow> oconn;
     case outbox_data_scan (oc_data c) (oc_scan_pos c) (sv_max_line srv) (sv_raw_cap srv) of
       Scan_error \<Rightarrow> oreply_close E (''552 5.3.4 Message exceeds fixed limits'' @ CRLF)
     | Scan_more pos \<Rightarrow> upd_oconn (\<lambda>c. c\<lparr>oc_scan_pos := pos\<rparr>)
     | Scan_found e t \<Rightarrow> do {
         upd_oconn (\<lambda>c. c\<lparr>oc_in := oc_in c @ drop (e + t) (oc_data c), oc_data := take e (oc_data c)\<rparr>);
         outbox_deliver_message E srv;
         upd_oconn (outbox_conn_reset_txn OB_ST_HELO);
         c \<leftarrow> oconn;
         whenM (\<not> oc_closed c \<and> oc_in c \<noteq> []) commands
       }
   }"

fun outbox_process_commands :: "('d, 'w) Env \<Rightarrow> OutboxServer \<Rightarrow> nat \<Rightarrow> int \<Rightarrow> ('w Outbox, unit) state" where
  "outbox_process_commands E srv 0 now = ostall"
| "outbox_process_commands E srv (Suc n) now = outbox_commands_step E srv now (outbox_process_commands E srv n now)"

definition outbox_take_bytes :: "('d, 'w) Env \<Rightarrow> OutboxServer \<Rightarrow> nat \<Rightarrow> int \<Rightarrow> string \<Rightarrow> ('w Outbox, unit) state" where
  "outbox_take_bytes E srv n now tmp = do {
     c \<leftarrow> oconn;
     if oc_state c = OB_ST_DATA then
       if length (oc_data c) + length tmp > unat (sv_raw_cap srv)
       then oreply_close E (''552 5.3.4 Message exceeds fixed limit'' @ CRLF)
       else do {
         upd_oconn (\<lambda>c. c\<lparr>oc_data := oc_data c @ tmp\<rparr>);
         outbox_data_step E srv (outbox_process_commands E srv n now)
       }
     else do {
       upd_oconn (\<lambda>c. c\<lparr>oc_in := oc_in c @ tmp\<rparr>);
       outbox_process_commands E srv n now
     }
   }"

fun outbox_drain :: "('d, 'w) Env \<Rightarrow> OutboxServer \<Rightarrow> nat \<Rightarrow> nat \<Rightarrow> int \<Rightarrow> ('w Outbox, unit) state" where
  "outbox_drain E srv n 0 now = ostall"
| "outbox_drain E srv n (Suc k) now = do {
     c \<leftarrow> oconn;
     case oc_tls c of
       None \<Rightarrow> return ()
     | Some t \<Rightarrow> do {
         (r, t') \<leftarrow> ob_io (tls_recv E t OUTBOX_RECV_CHUNK);
         upd_oconn (\<lambda>c. c\<lparr>oc_tls := Some t'\<rparr>);
         case r of
           Inl _ \<Rightarrow> oclose
         | Inr bytes \<Rightarrow>
             if bytes = [] then return ()
             else do {
               upd_oconn (\<lambda>c. c\<lparr>oc_last_act := now\<rparr>);
               outbox_take_bytes E srv n now bytes;
               c \<leftarrow> oconn;
               if oc_closed c then return () else outbox_drain E srv n k now
             }
       }
   }"

definition outbox_conn_readable :: "('d, 'w) Env \<Rightarrow> OutboxServer \<Rightarrow> nat \<Rightarrow> nat \<Rightarrow> int \<Rightarrow> ('w Outbox, unit) state" where
  "outbox_conn_readable E srv n k now = do {
     c \<leftarrow> oconn;
     if oc_tls c \<noteq> None then whenM (smtp_in_tls_established (oc_tls c)) (outbox_drain E srv n k now)
     else do {
       r \<leftarrow> ob_io (os_recv E (oc_fd c) OUTBOX_RECV_CHUNK);
       case r of
         Inl e \<Rightarrow> whenM (e \<noteq> Would_block) oclose
       | Inr bytes \<Rightarrow>
           if bytes = [] then oclose
           else do {
             upd_oconn (\<lambda>c. c\<lparr>oc_last_act := now\<rparr>);
             outbox_take_bytes E srv n now bytes
           }
     }
   }"

definition outbox_greeting :: "OutboxServer \<Rightarrow> string" where
  "outbox_greeting srv = fit512 (''220 '' @ ob_host srv @ '' ESMTP outbox'' @ CRLF) (''220 localhost ESMTP outbox'' @ CRLF)"

definition outbox_tls_advance :: "('d, 'w) Env \<Rightarrow> OutboxServer \<Rightarrow> nat \<Rightarrow> nat \<Rightarrow> int \<Rightarrow> ('w Outbox, unit) state" where
  "outbox_tls_advance E srv n k now = do {
     upd_oconn (\<lambda>c. c\<lparr>oc_last_act := now\<rparr>);
     c \<leftarrow> oconn;
     (r, t) \<leftarrow> ob_io (tls_handshake_step E (oc_tls c));
     upd_oconn (\<lambda>c. c\<lparr>oc_tls := t\<rparr>);
     case r of
       HS_fatal \<Rightarrow> upd_oconn (\<lambda>c. c\<lparr>oc_closed := True, oc_out := [], oc_out_off := 0\<rparr>)
     | HS_more \<Rightarrow> return ()
     | HS_done \<Rightarrow>
         if oc_implicit_tls c \<and> \<not> oc_greeted c then do {
           upd_oconn (\<lambda>c. c\<lparr>oc_greeted := True, oc_state := OB_ST_INIT\<rparr>);
           outbox_conn_reply E (outbox_greeting srv);
           outbox_conn_readable E srv n k now
         }
         else do {
           upd_oconn (\<lambda>c. outbox_conn_reset_txn OB_ST_INIT (c\<lparr>oc_authenticated := False, oc_auth_user := None\<rparr>));
           outbox_conn_readable E srv n k now
         }
   }"

end
