(* ===== verification/Outbox_Auth_Proofs.thy ===== *)
theory Outbox_Auth_Proofs
  imports Outbox_Auth
begin

text \<open>
  Properties of the credential store and of the lockout of the submission server: the constant-time
  comparison decides equality of C strings, the credential file is read back as it was written, exactly which pairs
  the check accepts, and the lockout table as a refinement of a finite map from addresses to counters.
\<close>

section \<open>The comparison and the check\<close>

lemma foldl_or_zero: "foldl (\<lambda>d i. d OR g i) (d0 :: 8 word) xs = 0 \<longleftrightarrow> d0 = 0 \<and> (\<forall>i \<in> set xs. g i = 0)"
  by (induction xs arbitrary: d0) (auto simp: or_eq_0_iff)

lemma xor_zero_iff: "(a :: 8 word) XOR b = 0 \<longleftrightarrow> a = b"
proof
  assume "a XOR b = 0"
  then have "(a XOR b) XOR b = 0 XOR b" by simp
  then show "a = b" by (simp add: xor.assoc)
qed simp

lemma byte_word_inj: "(of_nat (byte c) :: 8 word) = of_nat (byte d) \<longleftrightarrow> c = d"
  using byte_less [of c] byte_less [of d] by (simp add: word_of_nat_eq_iff take_bit_nat_eq_self)

lemma byte_at_zero: "byte_at s i = 0 \<longleftrightarrow> length s \<le> i \<or> s ! i = NUL"
  using byte_word_inj [of "s ! i" NUL] by (auto simp: byte_at_def)

lemma ct_equal_iff:
  assumes "nul_free a" "nul_free b"
  shows "ct_equal a b \<longleftrightarrow> a = b"
proof -
  have all: "ct_equal a b \<longleftrightarrow> (\<forall>i < max (length a) (length b). byte_at a i = byte_at b i)"
    by (auto simp: ct_equal_def foldl_or_zero xor_zero_iff)
  have short: False if "\<forall>i < max (length x) (length y). byte_at x i = byte_at y i" "nul_free y" "length x < length y" for x y
  proof -
    have "byte_at y (length x) = 0" using that byte_at_zero [of x "length x"] by auto
    then show False using that nth_mem [of "length x" y] by (auto simp: byte_at_zero nul_free_def)
  qed
  show ?thesis
  proof
    assume "ct_equal a b"
    then have eq: "\<forall>i < max (length a) (length b). byte_at a i = byte_at b i" using all by simp
    have len: "length a = length b"
      using short [of a b] short [of b a] eq assms by (metis max.commute linorder_neqE_nat)
    with eq show "a = b" by (intro nth_equalityI) (auto simp: byte_at_def byte_word_inj)
  qed (use all in simp)
qed

text \<open>The table of credentials, with the first line of a user winning.\<close>

definition creds_map :: "OutboxCred list \<Rightarrow> string \<Rightarrow> string option" where
  "creds_map cs = map_of (map (\<lambda>c. (cred_user c, cred_pass c)) cs)"

lemma find_creds: "find (\<lambda>c. cred_user c = u) cs = None \<longleftrightarrow> creds_map cs u = None"
    "find (\<lambda>c. cred_user c = u) cs = Some c \<Longrightarrow> creds_map cs u = Some (cred_pass c)"
  by (induction cs) (auto simp: creds_map_def)

lemma passwd_lines_nul: "nul_free p \<Longrightarrow> l \<in> set (passwd_lines p) \<Longrightarrow> nul_free l"
proof (induction p rule: passwd_lines.induct)
  case (1 p)
  have "nul_free (drop 1 (dropWhile (\<lambda>c. c \<noteq> LF) p))" "nul_free (takeWhile (\<lambda>c. c \<noteq> LF) p)"
    using 1(2) by (auto simp: nul_free_def dest: set_takeWhileD in_set_dropD set_dropWhileD)
  then show ?case using 1 by (subst (asm) (2) passwd_lines.simps) (auto split: if_splits)
qed

lemma load_entries:
  assumes "c \<in> set (outbox_auth_load file)"
  shows "user_ok (cred_user c) \<and> cred_pass c \<noteq> [] \<and> nul_free (cred_pass c)"
proof -
  obtain buf l where l: "l \<in> set (passwd_lines (cstr buf))" "passwd_entry l = Some c"
    using assms by (auto simp: outbox_auth_load_def map_filter_def split: option.splits)
  moreover have "nul_free l" using passwd_lines_nul [OF _ l(1)] by simp
  moreover have "set (tl (dropWhile (\<lambda>c. c \<noteq> CHR '':'') l)) \<subseteq> set l"
    using set_dropWhileD [of _ "\<lambda>c. c \<noteq> CHR '':''" l] list.set_sel(2) [of "dropWhile (\<lambda>c. c \<noteq> CHR '':'') l"]
    by (metis list.sel(2) subsetI)
  ultimately show ?thesis
    by (auto simp: passwd_entry_def Let_def nul_free_def split: if_splits)
qed

lemma creds_map_load: "creds_map (outbox_auth_load file) u = Some p \<Longrightarrow> p \<noteq> [] \<and> nul_free p"
  using load_entries by (fastforce simp: creds_map_def dest: map_of_SomeD)

lemma dummy_nul_free [simp]: "nul_free dummy_pass"
  by (simp add: dummy_pass_def nul_free_def)

lemma auth_check_map:
  assumes "nul_free pass"
  shows "outbox_auth_check (outbox_auth_load file) user pass \<longleftrightarrow>
    (case creds_map (outbox_auth_load file) user of Some p \<Rightarrow> pass = p | None \<Rightarrow> pass = dummy_pass)"
proof (cases "find (\<lambda>c. cred_user c = user) (outbox_auth_load file)")
  case None
  then show ?thesis using find_creds(1) [of user "outbox_auth_load file"] assms by (simp add: outbox_auth_check_def ct_equal_iff)
next
  case (Some c)
  then have "creds_map (outbox_auth_load file) user = Some (cred_pass c)" by (rule find_creds(2))
  then show ?thesis using Some assms creds_map_load [of _ user] by (simp add: outbox_auth_check_def ct_equal_iff)
qed

text \<open>Writing a credential file, and reading it back.\<close>

definition cred_line :: "OutboxCred \<Rightarrow> string" where
  "cred_line c = cred_user c @ CHR '':'' # cred_pass c"

definition passwd_file :: "OutboxCred list \<Rightarrow> string" where
  "passwd_file cs = concat (map (\<lambda>c. cred_line c @ [LF]) cs)"

definition cred_ok :: "OutboxCred \<Rightarrow> bool" where
  "cred_ok c \<longleftrightarrow> user_ok (cred_user c) \<and> cred_pass c \<noteq> [] \<and> NUL \<notin> set (cred_pass c) \<and> LF \<notin> set (cred_pass c)"

lemma user_char_neq: "user_char c \<Longrightarrow> c \<noteq> CHR '':'' \<and> c \<noteq> LF \<and> c \<noteq> NUL \<and> c \<noteq> CHR ''#''"
  by (auto simp: user_char_def is_upper_def is_lower_def is_digit_def)

lemma passwd_lines_line: "LF \<notin> set l \<Longrightarrow> passwd_lines (l @ LF # rest) = l # passwd_lines rest"
  using takeWhile_all [of l "\<lambda>c. c \<noteq> LF" "LF # rest"] dropWhile_all [of l "\<lambda>c. c \<noteq> LF" "LF # rest"]
  by (subst passwd_lines.simps) (fastforce simp del: drop_append)

lemma entry_of_line: "cred_ok c \<Longrightarrow> passwd_entry (cred_line c) = Some c"
proof -
  assume c: "cred_ok c"
  have u: "\<forall>x \<in> set (cred_user c). x \<noteq> CHR '':'' \<and> x \<noteq> CHR ''#''"
    using c user_char_neq by (auto simp: cred_ok_def user_ok_def list_all_iff)
  moreover have "cred_user c \<noteq> []" using c by (simp add: cred_ok_def user_ok_def)
  ultimately show ?thesis using c
    by (simp add: passwd_entry_def cred_line_def Let_def cred_ok_def takeWhile_tail dropWhile_append3 hd_append)
qed

lemma load_passwd_file:
  assumes "\<forall>c \<in> set cs. cred_ok c"
  shows "outbox_auth_load (Some (passwd_file cs)) = cs"
proof -
  have l: "LF \<notin> set (cred_line c)" "NUL \<notin> set (cred_line c)" if "cred_ok c" for c
    using that user_char_neq by (auto simp: cred_line_def cred_ok_def user_ok_def list_all_iff)
  have "nul_free (passwd_file cs)" using assms l by (auto simp: passwd_file_def nul_free_def)
  moreover have "List.map_filter passwd_entry (passwd_lines (passwd_file cs)) = cs"
    using assms
  proof (induction cs)
    case (Cons c cs)
    then show ?case using l [of c] entry_of_line [of c] by (simp add: passwd_file_def passwd_lines_line map_filter_simps)
  qed (simp add: passwd_file_def passwd_lines.simps map_filter_simps)
  ultimately show ?thesis by (simp add: outbox_auth_load_def cstr_id)
qed

interpretation passwd: coding passwd_file "\<lambda>f. Some (outbox_auth_load (Some f))" "\<lambda>cs. \<forall>c \<in> set cs. cred_ok c"
  by unfold_locales (simp add: load_passwd_file)

text \<open>
  Exactly which pairs the submission server accepts, for every credential file and every user and password that
  reach it as C strings. A user with an entry is accepted with the password of the first line for that user and with
  nothing else. A user without one is accepted with the built-in dummy password: the result of the comparison that hides
  whether the user exists is also the answer.
\<close>

theorem outbox_auth_check_exact:
  assumes "nul_free pass"
  shows "outbox_auth_check (outbox_auth_load file) user pass \<longleftrightarrow>
    (case creds_map (outbox_auth_load file) user of Some p \<Rightarrow> pass = p | None \<Rightarrow> pass = dummy_pass)"
  by (rule auth_check_map [OF assms])

theorem outbox_auth_check_exact_witness:
  "outbox_auth_load (Some (''# users'' @ LF # ''ann:secret'' @ [LF])) = [\<lparr>cred_user = ''ann'', cred_pass = ''secret''\<rparr>]
   \<and> outbox_auth_check (outbox_auth_load (Some (''# users'' @ LF # ''ann:secret'' @ [LF]))) ''ann'' ''secret''
   \<and> \<not> outbox_auth_check (outbox_auth_load (Some (''# users'' @ LF # ''ann:secret'' @ [LF]))) ''ann'' dummy_pass
   \<and> outbox_auth_check (outbox_auth_load (Some (''# users'' @ LF # ''ann:secret'' @ [LF]))) ''nobody'' dummy_pass"
proof -
  have f: "outbox_auth_load (Some (''# users'' @ LF # ''ann:secret'' @ [LF])) = [\<lparr>cred_user = ''ann'', cred_pass = ''secret''\<rparr>]"
    by code_simp
  have "nul_free ''secret''" by (simp add: nul_free_def)
  from outbox_auth_check_exact [OF this, of "Some (''# users'' @ LF # ''ann:secret'' @ [LF])"]
    outbox_auth_check_exact [OF dummy_nul_free, of "Some (''# users'' @ LF # ''ann:secret'' @ [LF])"] f
  show ?thesis by (simp add: creds_map_def dummy_pass_def)
qed

text \<open>
  The credential bypass in one line: with an empty or missing credential file, where the program announces that
  every login will fail, every user name is accepted with the dummy password.
\<close>

theorem outbox_dummy_password_accepted: "outbox_auth_check (outbox_auth_load None) user dummy_pass"
  using auth_check_map [OF dummy_nul_free, of None user] by (simp add: creds_map_def outbox_auth_load_def)

section \<open>The lockout table as a map\<close>

text \<open>The abstract table: a map from addresses to entries that never forgets.\<close>

type_synonym fail_map = "string \<Rightarrow> OutboxFail option"

datatype auth_event = Failed string int | Cleared string | Asked string int

fun event_ip :: "auth_event \<Rightarrow> string" where
  "event_ip (Failed ip t) = ip"
| "event_ip (Cleared ip) = ip"
| "event_ip (Asked ip t) = ip"

text \<open>What an event does to the entry of its address; the empty address is never tracked.\<close>

fun entry_step :: "auth_event \<Rightarrow> OutboxFail option \<Rightarrow> OutboxFail option" where
  "entry_step (Failed ip t) e = Some (fail_bump t (case e of None \<Rightarrow> fresh_fail ip | Some f \<Rightarrow> f))"
| "entry_step (Cleared ip) e = map_option (\<lambda>f. f\<lparr>f_count := 0, f_first := 0, f_lock := 0\<rparr>) e"
| "entry_step (Asked ip t) e = map_option (\<lambda>f. if f_lock f \<noteq> 0 \<and> t < f_lock f then f else f\<lparr>f_lock := 0\<rparr>) e"

definition spec_step :: "fail_map \<Rightarrow> auth_event \<Rightarrow> fail_map" where
  "spec_step T e = (if event_ip e = [] then T else T(event_ip e := entry_step e (T (event_ip e))))"

fun table_step :: "OutboxFail list \<Rightarrow> auth_event \<Rightarrow> OutboxFail list" where
  "table_step fs (Failed ip t) = outbox_auth_fail fs ip t"
| "table_step fs (Cleared ip) = outbox_auth_clear fs ip"
| "table_step fs (Asked ip t) = snd (outbox_auth_blocked fs ip t)"

definition fail_tab :: "OutboxFail list \<Rightarrow> fail_map" where
  "fail_tab fs = map_of (map (\<lambda>f. (f_ip f, f)) fs)"

definition table_ok :: "OutboxFail list \<Rightarrow> bool" where
  "table_ok fs \<longleftrightarrow> distinct (map f_ip fs) \<and> [] \<notin> f_ip ` set fs \<and> length fs \<le> OUTBOX_AUTH_MAX_TRACKED"

lemma fail_find_None: "fail_find fs ip = None \<longleftrightarrow> ip \<notin> f_ip ` set fs"
  by (induction fs) auto

lemma fail_find_Some: "fail_find fs ip = Some i \<Longrightarrow> i < length fs \<and> f_ip (fs ! i) = ip"
  by (induction fs arbitrary: i) (auto split: if_splits)

lemma fail_tab_None: "fail_tab fs ip = None \<longleftrightarrow> ip \<notin> f_ip ` set fs"
  by (simp add: fail_tab_def map_of_eq_None_iff image_comp comp_def)

lemma fail_tab_nth: "distinct (map f_ip fs) \<Longrightarrow> i < length fs \<Longrightarrow> fail_tab fs (f_ip (fs ! i)) = Some (fs ! i)"
  unfolding fail_tab_def by (rule map_of_is_SomeI) (auto simp: comp_def)

lemma fail_tab_update:
  assumes "distinct (map f_ip fs)" "i < length fs" "f_ip f = f_ip (fs ! i)"
  shows "fail_tab (fs[i := f]) = (fail_tab fs)(f_ip f \<mapsto> f)"
proof -
  have m: "map f_ip (fs[i := f]) = map f_ip fs" using assms by (simp add: map_update) (metis list_update_id length_map nth_map)
  then have d: "distinct (map f_ip (fs[i := f]))" using assms(1) by simp
  show ?thesis
  proof
    fix ip
    show "fail_tab (fs[i := f]) ip = ((fail_tab fs)(f_ip f \<mapsto> f)) ip"
    proof (cases "ip \<in> f_ip ` set fs")
      case True
      then obtain j where j: "j < length fs" "ip = f_ip (fs ! j)" by (metis imageE in_set_conv_nth)
      have fj: "f_ip (fs[i := f] ! j) = ip" using j assms(3) by (cases "j = i") (simp_all add: nth_list_update)
      have "fail_tab (fs[i := f]) ip = Some (fs[i := f] ! j)" using fail_tab_nth [OF d, of j] j(1) fj by simp
      moreover have "fail_tab fs ip = Some (fs ! j)" using fail_tab_nth [OF assms(1) j(1)] j(2) by simp
      moreover have "ip = f_ip f \<longleftrightarrow> j = i"
        using assms j nth_eq_iff_index_eq [OF assms(1), of j i] by auto
      ultimately show ?thesis using assms(2) by auto
    next
      case False
      then have "ip \<notin> f_ip ` set (fs[i := f])" using m by (metis list.set_map)
      moreover have "ip \<noteq> f_ip f" using False assms(2,3) by auto
      ultimately show ?thesis using False by (metis fail_tab_None fun_upd_other)
    qed
  qed
qed

lemma evict_least: "fs \<noteq> [] \<Longrightarrow> fail_evict fs < length fs \<and> (\<forall>j < length fs. f_first (fs ! fail_evict fs) \<le> f_first (fs ! j))"
proof -
  have "foldl (\<lambda>ev j. if f_first (fs ! j) < f_first (fs ! ev) then j else ev) 0 [1..<n] < n \<and>
    (\<forall>j < n. f_first (fs ! foldl (\<lambda>ev j. if f_first (fs ! j) < f_first (fs ! ev) then j else ev) 0 [1..<n]) \<le> f_first (fs ! j))"
    if "1 \<le> n" for n
    using that
  proof (induction n rule: nat_induct_at_least)
    case (Suc n)
    then show ?case by (auto simp: less_Suc_eq intro: order_trans)
  qed simp
  moreover assume "fs \<noteq> []"
  ultimately show ?thesis unfolding fail_evict_def by (simp add: Suc_leI)
qed

lemma f_ip_bump [simp]: "f_ip (fail_bump t f) = f_ip f" "f_ip (fresh_fail ip) = ip"
  by (simp_all add: fail_bump_def Let_def fresh_fail_def)

lemma fail_tab_snoc: "f_ip f \<notin> f_ip ` set fs \<Longrightarrow> fail_tab (fs @ [f]) = (fail_tab fs)(f_ip f \<mapsto> f)"
  using fail_tab_None [of fs "f_ip f"] by (auto simp: fail_tab_def map_add_def fun_eq_iff split: option.split)

lemma table_step_refines:
  assumes "table_ok fs" "event_ip e \<in> f_ip ` set fs \<or> length fs < OUTBOX_AUTH_MAX_TRACKED"
  shows "fail_tab (table_step fs e) = spec_step (fail_tab fs) e"
proof (cases "event_ip e = []")
  case True
  then show ?thesis by (cases e) (simp_all add: spec_step_def outbox_auth_fail_def outbox_auth_clear_def outbox_auth_blocked_def)
next
  case ne: False
  have d: "distinct (map f_ip fs)" using assms(1) by (simp add: table_ok_def)
  show ?thesis
  proof (cases "fail_find fs (event_ip e)")
    case None
    then have n: "event_ip e \<notin> f_ip ` set fs" "fail_tab fs (event_ip e) = None" by (simp_all add: fail_find_None fail_tab_None)
    then have r: "length fs < OUTBOX_AUTH_MAX_TRACKED" using assms(2) by simp
    have "fail_tab (fs @ [fail_bump t (fresh_fail ip)]) = (fail_tab fs)(ip \<mapsto> fail_bump t (fresh_fail ip))" if "ip \<notin> f_ip ` set fs" for t ip
      using fail_tab_snoc [of "fail_bump t (fresh_fail ip)" fs] that by simp
    then show ?thesis using ne None n r
      by (cases e) (simp_all add: spec_step_def outbox_auth_fail_def outbox_auth_clear_def outbox_auth_blocked_def fun_upd_idem)
  next
    case (Some i)
    note i = fail_find_Some [OF Some]
    have t: "fail_tab fs (event_ip e) = Some (fs ! i)" using fail_tab_nth [OF d, of i] i by simp
    have u: "f_ip f = event_ip e \<Longrightarrow> fail_tab (fs[i := f]) = (fail_tab fs)(event_ip e \<mapsto> f)" for f
      using fail_tab_update [OF d, of i f] i by simp
    have same: "(fail_tab fs)(event_ip e \<mapsto> fs ! i) = fail_tab fs" using t by (simp add: fun_upd_idem)
    show ?thesis using ne Some i t u same
      by (cases e) (auto simp: spec_step_def outbox_auth_fail_def outbox_auth_clear_def outbox_auth_blocked_def)
  qed
qed

lemma update_same_ip: "i < length fs \<Longrightarrow> f_ip f = f_ip (fs ! i) \<Longrightarrow> map f_ip (fs[i := f]) = map f_ip fs"
  by (metis length_map list_update_id map_update nth_map)

lemma table_ok_update: "table_ok fs \<Longrightarrow> i < length fs \<Longrightarrow> f_ip f = f_ip (fs ! i) \<Longrightarrow> table_ok (fs[i := f])"
  unfolding table_ok_def by (metis update_same_ip length_list_update list.set_map)

text \<open>The three ways a failure is recorded.\<close>

lemma auth_fail_full:
  assumes "ip \<noteq> []" "fail_find fs ip = None" "length fs \<ge> OUTBOX_AUTH_MAX_TRACKED"
  shows "outbox_auth_fail fs ip t = fs[fail_evict fs := fail_bump t (fresh_fail ip)]" "fail_evict fs < length fs"
proof -
  have "fs \<noteq> []" using assms(3) by (auto simp: OUTBOX_AUTH_MAX_TRACKED_def)
  from evict_least [OF this] show "fail_evict fs < length fs" by simp
  then show "outbox_auth_fail fs ip t = fs[fail_evict fs := fail_bump t (fresh_fail ip)]"
    using assms by (simp add: outbox_auth_fail_def)
qed

lemma auth_fail_room:
  "ip \<noteq> [] \<Longrightarrow> fail_find fs ip = None \<Longrightarrow> length fs < OUTBOX_AUTH_MAX_TRACKED \<Longrightarrow> outbox_auth_fail fs ip t = fs @ [fail_bump t (fresh_fail ip)]"
  by (simp add: outbox_auth_fail_def)

lemma table_ok_replace:
  assumes "table_ok fs" "f_ip f \<notin> f_ip ` set fs" "f_ip f \<noteq> []"
  shows "table_ok (fs[i := f])"
proof -
  have "distinct ((map f_ip fs)[i := f_ip f])" using assms by (intro distinct_list_update) (auto simp: table_ok_def)
  moreover have "f_ip ` set (fs[i := f]) \<subseteq> insert (f_ip f) (f_ip ` set fs)" using set_update_subset_insert [of fs i f] by auto
  ultimately show ?thesis using assms by (auto simp: table_ok_def map_update)
qed

lemma table_step_ok: "table_ok fs \<Longrightarrow> table_ok (table_step fs e)"
proof (cases e)
  case (Failed ip t)
  assume ok: "table_ok fs"
  show ?thesis
  proof (cases "ip \<noteq> [] \<and> fail_find fs ip = None")
    case True
    then have new: "ip \<notin> set (map f_ip fs)" by (simp add: fail_find_None)
    show ?thesis
    proof (cases "length fs \<ge> OUTBOX_AUTH_MAX_TRACKED")
      case full: True
      then show ?thesis using ok True new Failed
        by (simp add: auth_fail_full(1)) (rule table_ok_replace; simp)
    next
      case room: False
      then show ?thesis using ok True new Failed by (auto simp: auth_fail_room table_ok_def)
    qed
  next
    case False
    then show ?thesis using ok Failed fail_find_Some [of fs ip]
      by (auto simp: outbox_auth_fail_def intro!: table_ok_update)
  qed
next
  case (Cleared ip)
  assume "table_ok fs"
  then show ?thesis using Cleared fail_find_Some [of fs ip]
    by (auto simp: outbox_auth_clear_def intro!: table_ok_update split: option.split)
next
  case (Asked ip t)
  assume "table_ok fs"
  then show ?thesis using Asked fail_find_Some [of fs ip]
    by (auto simp: outbox_auth_blocked_def intro!: table_ok_update split: option.split)
qed

interpretation lockout: stepwise table_step table_ok
  by unfold_locales (rule table_step_ok)

lemma table_step_ips: "f_ip ` set (table_step fs e) \<subseteq> insert (event_ip e) (f_ip ` set fs)"
proof -
  have u: "f_ip ` set (fs[i := f]) \<subseteq> insert (f_ip f) (f_ip ` set fs)" for i f and fs :: "OutboxFail list"
    using set_update_subset_insert [of fs i f] by auto
  have b: "f_ip ` set (fs[i := f]) \<subseteq> f_ip ` set fs" if "i < length fs" "f_ip f = f_ip (fs ! i)" for i f
    using update_same_ip [OF that] by (metis list.set_map order_refl)
  have k: "f_ip ` set (fs[i := f]) \<subseteq> insert ip (f_ip ` set fs)" if "fail_find fs ip = Some i" "f_ip f = f_ip (fs ! i)" for i f ip
    using b [of i f] that fail_find_Some [OF that(1)] by auto
  show ?thesis
  proof (cases e)
    case (Failed ip t)
    show ?thesis
    proof (cases "fail_find fs ip")
      case None
      consider "ip = []" | "ip \<noteq> []" "length fs \<ge> OUTBOX_AUTH_MAX_TRACKED" | "ip \<noteq> []" "length fs < OUTBOX_AUTH_MAX_TRACKED" by linarith
      then show ?thesis
        using None Failed u [of fs "fail_evict fs" "fail_bump t (fresh_fail ip)"]
        by cases (auto simp: auth_fail_full(1) auth_fail_room outbox_auth_fail_def [of _ "[]"])
    next
      case (Some i)
      then show ?thesis using Failed b [of i "fail_bump t (fs ! i)"] fail_find_Some [OF Some] by (auto simp: outbox_auth_fail_def)
    qed
  next
    case (Cleared ip)
    then show ?thesis by (simp add: outbox_auth_clear_def k subset_insertI split: option.split)
  next
    case (Asked ip t)
    then show ?thesis by (simp add: outbox_auth_blocked_def k subset_insertI split: option.split)
  qed
qed

lemma table_run_refines:
  "table_ok fs \<Longrightarrow> card (f_ip ` set fs \<union> event_ip ` set es) \<le> OUTBOX_AUTH_MAX_TRACKED \<Longrightarrow>
   fail_tab (foldl table_step fs es) = foldl spec_step (fail_tab fs) es"
proof (induction es arbitrary: fs)
  case (Cons e es)
  let ?all = "f_ip ` set fs \<union> event_ip ` set (e # es)"
  have "event_ip e \<in> f_ip ` set fs \<or> length fs < OUTBOX_AUTH_MAX_TRACKED"
  proof (cases "event_ip e \<in> f_ip ` set fs")
    case False
    then have "Suc (card (f_ip ` set fs)) = card (insert (event_ip e) (f_ip ` set fs))" by simp
    also have "\<dots> \<le> card ?all" by (intro card_mono) auto
    finally show ?thesis using Cons.prems distinct_card [of "map f_ip fs"] by (simp add: table_ok_def)
  qed simp
  then have "fail_tab (table_step fs e) = spec_step (fail_tab fs) e" using table_step_refines Cons.prems(1) by blast
  moreover have "f_ip ` set (table_step fs e) \<union> event_ip ` set es \<subseteq> ?all" using table_step_ips [of fs e] by auto
  then have "card (f_ip ` set (table_step fs e) \<union> event_ip ` set es) \<le> OUTBOX_AUTH_MAX_TRACKED"
    using Cons.prems(2) card_mono [of ?all] by (meson List.finite_set finite_UnI finite_imageI le_trans)
  ultimately show ?case using Cons.IH [OF table_step_ok [OF Cons.prems(1)]] by simp
qed simp

text \<open>
  C27. The lockout table refines a map from addresses to failure counters. From every well-formed table (distinct
  non-empty addresses, at most 64 entries), every sequence of failures, successful logins and block queries leaves the
  table well-formed; and as long as no more than 64 addresses are involved, what it records is exactly what the
  map would record: an event touches the entry of its own address and no other.
\<close>

theorem outbox_lockout_refines:
  assumes "table_ok fs"
  shows "table_ok (foldl table_step fs es) \<and>
    (card (f_ip ` set fs \<union> event_ip ` set es) \<le> OUTBOX_AUTH_MAX_TRACKED \<longrightarrow>
      fail_tab (foldl table_step fs es) = foldl spec_step (fail_tab fs) es)"
  using assms lockout.run_inv table_run_refines by blast

theorem outbox_lockout_refines_witness:
  "table_ok [] \<and> fail_tab (foldl table_step [] [Failed ''a'' 100, Failed ''b'' 101, Failed ''a'' 102]) ''a'' =
     Some \<lparr>f_ip = ''a'', f_count = 2, f_first = 100, f_lock = 0\<rparr>"
proof -
  have ok: "table_ok []" by (simp add: table_ok_def OUTBOX_AUTH_MAX_TRACKED_def)
  have "card (f_ip ` set [] \<union> event_ip ` set [Failed ''a'' 100, Failed ''b'' 101, Failed ''a'' 102]) \<le> OUTBOX_AUTH_MAX_TRACKED"
    by (simp add: OUTBOX_AUTH_MAX_TRACKED_def card_insert_if)
  with outbox_lockout_refines [OF ok]
  have "fail_tab (foldl table_step [] [Failed ''a'' 100, Failed ''b'' 101, Failed ''a'' 102]) =
    foldl spec_step (fail_tab []) [Failed ''a'' 100, Failed ''b'' 101, Failed ''a'' 102]" by blast
  moreover have "foldl spec_step (fail_tab []) [Failed ''a'' 100, Failed ''b'' 101, Failed ''a'' 102] ''a'' =
    Some \<lparr>f_ip = ''a'', f_count = 2, f_first = 100, f_lock = 0\<rparr>" by code_simp
  ultimately show ?thesis using ok by (simp only: simp_thms)
qed

section \<open>When the lockout engages\<close>

lemma spec_run_entry:
  "ip \<noteq> [] \<Longrightarrow> foldl spec_step T es ip = foldl (\<lambda>x e. entry_step e x) (T ip) (filter (\<lambda>e. event_ip e = ip) es)"
  by (induction es arbitrary: T) (auto simp: spec_step_def)

text \<open>
  After \<open>k\<close> failures between \<open>t\<close> and \<open>t + 60\<close> the address is locked, or the failures are counted in the window that was
  open at \<open>t\<close>, or a new window was opened, once, after at most four of them.
\<close>

definition heat :: "int \<Rightarrow> nat \<Rightarrow> OutboxFail \<Rightarrow> bool" where
  "heat t k f \<longleftrightarrow> t + 300 \<le> f_lock f \<or>
     (unat (f_count f) < 5 \<and> (if f_first f < t then k \<le> unat (f_count f) else k \<le> unat (f_count f) + 4))"

lemma count_next: "f_count f \<noteq> UINT32_MAX \<Longrightarrow> unat (f_count f + 1) = unat (f_count f) + 1"
proof (rule u32_Suc)
  have "(- 1 :: u32) = UINT32_MAX" by simp
  then show "f_count f \<noteq> UINT32_MAX \<Longrightarrow> f_count f + 1 \<noteq> 0" by (metis eq_neg_iff_add_eq_0)
qed

lemma max_fails_le: "OUTBOX_AUTH_MAX_FAILS \<le> c \<longleftrightarrow> 5 \<le> unat c"
  by (simp add: OUTBOX_AUTH_MAX_FAILS_def word_le_nat_alt)

lemma small_count: "unat (c :: u32) < 5 \<Longrightarrow> c \<noteq> UINT32_MAX"
  by auto

lemma heat_first:
  assumes "f_count f \<noteq> UINT32_MAX" "t \<le> x"
  shows "heat t 1 (fail_bump x f)"
  using assms count_next [OF assms(1)]
  by (auto simp: heat_def fail_bump_def Let_def max_fails_le OUTBOX_AUTH_WINDOW_SEC_def OUTBOX_AUTH_LOCKOUT_SEC_def)

lemma heat_next:
  assumes "heat t k f" "t \<le> x" "x \<le> t + 60"
  shows "heat t (Suc k) (fail_bump x f)"
proof (cases "t + 300 \<le> f_lock f")
  case True
  then show ?thesis using assms(2) by (simp add: heat_def fail_bump_def Let_def OUTBOX_AUTH_LOCKOUT_SEC_def)
next
  case False
  then have c: "unat (f_count f) < 5" using assms(1) by (simp add: heat_def)
  show ?thesis using False assms c count_next [OF small_count [OF c]]
    by (auto simp: heat_def fail_bump_def Let_def max_fails_le OUTBOX_AUTH_WINDOW_SEC_def OUTBOX_AUTH_LOCKOUT_SEC_def split: if_splits)
qed

fun is_failure :: "auth_event \<Rightarrow> bool" where
  "is_failure (Failed ip x) = True"
| "is_failure _ = False"

fun burst_event :: "int \<Rightarrow> auth_event \<Rightarrow> bool" where
  "burst_event t (Failed ip x) \<longleftrightarrow> t \<le> x \<and> x \<le> t + 60"
| "burst_event t (Cleared ip) \<longleftrightarrow> False"
| "burst_event t (Asked ip x) \<longleftrightarrow> x \<le> t + 60"

definition warm :: "int \<Rightarrow> nat \<Rightarrow> OutboxFail option \<Rightarrow> bool" where
  "warm t k x \<longleftrightarrow> (case x of None \<Rightarrow> k = 0 | Some f \<Rightarrow> if k = 0 then f_count f \<noteq> UINT32_MAX else heat t k f)"

lemma warm_step:
  assumes "warm t k x" "burst_event t e" "0 \<le> t"
  shows "warm t (if is_failure e then Suc k else k) (entry_step e x)"
proof (cases e)
  case (Failed ip y)
  then show ?thesis using assms heat_first [of _ t y] heat_next [of t k _ y]
    by (cases "k = 0"; cases x) (auto simp: warm_def fresh_fail_def)
next
  case (Asked ip y)
  then show ?thesis using assms by (cases x) (auto simp: warm_def heat_def split: if_splits)
qed (use assms in simp)

lemma warm_run:
  "warm t k x \<Longrightarrow> \<forall>e \<in> set es. burst_event t e \<Longrightarrow> 0 \<le> t \<Longrightarrow>
   warm t (k + length (filter is_failure es)) (foldl (\<lambda>x e. entry_step e x) x es)"
proof (induction es arbitrary: k x)
  case (Cons e es)
  then show ?case using Cons.IH [OF warm_step [of t k x e]] by (cases "is_failure e") simp_all
qed simp

lemma blocked_iff:
  "table_ok fs \<Longrightarrow> ip \<noteq> [] \<Longrightarrow> fst (outbox_auth_blocked fs ip now) \<longleftrightarrow> (\<exists>f. fail_tab fs ip = Some f \<and> f_lock f \<noteq> 0 \<and> now < f_lock f)"
proof (cases "fail_find fs ip")
  case None
  assume "ip \<noteq> []"
  then show ?thesis using None fail_tab_None [of fs ip] fail_find_None [of fs ip] by (simp add: outbox_auth_blocked_def)
next
  case (Some i)
  assume "table_ok fs" "ip \<noteq> []"
  then show ?thesis using Some fail_find_Some [OF Some] fail_tab_nth [of fs i] by (auto simp: outbox_auth_blocked_def table_ok_def)
qed

text \<open>
  C28. Guessing is stopped. Nine failed logins from one address within sixty seconds, interleaved in any way with block queries and
  with the logins of other addresses (at most 64 addresses in all), always leave the address locked: every attempt before
  300 seconds after the first of them is refused. (Five are enough when they fall into one window; the window is not a sliding
  one, so up to eight failures in a minute can go unnoticed.)
\<close>

theorem outbox_lockout_engages:
  assumes "table_ok fs" "\<forall>f \<in> set fs. f_count f \<noteq> UINT32_MAX" "ip \<noteq> []" "0 \<le> t"
    and "card (f_ip ` set fs \<union> event_ip ` set es) \<le> OUTBOX_AUTH_MAX_TRACKED"
    and "\<forall>e \<in> set es. event_ip e = ip \<longrightarrow> burst_event t e"
    and "9 \<le> length (filter is_failure (filter (\<lambda>e. event_ip e = ip) es))"
    and "now < t + 300"
  shows "fst (outbox_auth_blocked (foldl table_step fs es) ip now)"
proof -
  let ?mine = "filter (\<lambda>e. event_ip e = ip) es"
  have "warm t 0 (fail_tab fs ip)"
    using assms(2) by (auto simp: warm_def fail_tab_def split: option.split dest!: map_of_SomeD)
  then have w: "warm t (length (filter is_failure ?mine)) (foldl (\<lambda>x e. entry_step e x) (fail_tab fs ip) ?mine)"
    using warm_run [of t 0 "fail_tab fs ip" ?mine] assms(4,6) by simp
  have "foldl (\<lambda>x e. entry_step e x) (fail_tab fs ip) ?mine = fail_tab (foldl table_step fs es) ip"
    using table_run_refines [OF assms(1,5)] spec_run_entry [OF assms(3)] by simp
  with w assms(7) obtain f where "fail_tab (foldl table_step fs es) ip = Some f" "t + 300 \<le> f_lock f"
    by (auto simp: warm_def heat_def split: option.splits if_splits)
  then show ?thesis using blocked_iff [OF lockout.run_inv [OF assms(1)] assms(3)] assms(4,8) by auto
qed

definition burst :: "auth_event list" where
  "burst = [Failed ''a'' 159, Failed ''a'' 160, Failed ''b'' 160, Failed ''a'' 161, Failed ''a'' 162, Failed ''a'' 163, Failed ''a'' 164, Failed ''a'' 165, Failed ''a'' 166, Failed ''a'' 167]"

theorem outbox_lockout_engages_witness:
  "fst (outbox_auth_blocked (foldl table_step [fresh_fail ''c''] burst) ''a'' 400) \<and>
   \<not> fst (outbox_auth_blocked (foldl table_step [(fresh_fail ''a'')\<lparr>f_count := 1, f_first := 100\<rparr>] (take 7 burst)) ''a'' 400)"
proof -
  have "table_ok [fresh_fail ''c'']" by (simp add: table_ok_def OUTBOX_AUTH_MAX_TRACKED_def)
  moreover have "card (f_ip ` set [fresh_fail ''c''] \<union> event_ip ` set burst) \<le> OUTBOX_AUTH_MAX_TRACKED"
    by (simp add: burst_def OUTBOX_AUTH_MAX_TRACKED_def card_insert_if)
  moreover have "9 \<le> length (filter is_failure (filter (\<lambda>e. event_ip e = ''a'') burst))" by code_simp
  ultimately have "fst (outbox_auth_blocked (foldl table_step [fresh_fail ''c''] burst) ''a'' 400)"
    by (intro outbox_lockout_engages [where t = 159]) (simp_all add: fresh_fail_def burst_def)
  moreover have "\<not> fst (outbox_auth_blocked (foldl table_step [(fresh_fail ''a'')\<lparr>f_count := 1, f_first := 100\<rparr>] (take 7 burst)) ''a'' 400)"
    by code_simp
  ultimately show ?thesis by blast
qed

end
