(* ===== verification/Outbox_Submit_Proofs.thy ===== *)
theory Outbox_Submit_Proofs
  imports Outbox_Submit Outbox_Auth_Proofs Smtp_Data_Proofs Smtp_World
begin

text \<open>
  The submission session: its DATA scan is the one of the inbound server; and what a connection can make the
  server accept. The session invariant ties the phases of a transaction to an encrypted channel, a successful credential
  check and an allowed sender domain; over every run of the session, whatever bytes arrive, the queue
  only grows, and only by messages that pass the sender policy.
\<close>

section \<open>The scan\<close>

lemma outbox_scan_loop_eq:
  "outbox_scan_loop buf M i ls ls =
     (case data_scan_loop buf M i ls of
        Loop_found e t \<Rightarrow> Inl (Some (e, t))
      | Loop_too_long \<Rightarrow> Inl None
      | Loop_end p tcr \<Rightarrow> Inr (if tcr then length buf else p, p))"
proof (induction buf M i ls rule: data_scan_loop.induct)
  case (1 buf M i ls)
  consider (eob) "i \<ge> length buf" | (lf) "i < length buf" "buf ! i = LF" | (cr) "i < length buf" "buf ! i = CR" | (other) "i < length buf" "buf ! i \<noteq> LF" "buf ! i \<noteq> CR"
    by (meson linorder_not_le)
  then show ?case
  proof cases
    case lf
    then show ?thesis using 1(1) by (subst outbox_scan_loop.simps, subst data_scan_loop.simps) (simp add: Let_def)
  next
    case cr
    then show ?thesis using 1(2,3) by (subst outbox_scan_loop.simps, subst data_scan_loop.simps) (simp add: Let_def)
  next
    case eob
    then show ?thesis by (subst outbox_scan_loop.simps, subst data_scan_loop.simps) simp
  next
    case other
    have "outbox_scan_loop buf M i ls ls = outbox_scan_loop buf M (i + 1) ls ls" "data_scan_loop buf M i ls = data_scan_loop buf M (i + 1) ls"
      by (subst outbox_scan_loop.simps, use other in simp) (subst data_scan_loop.simps, use other in simp)
    then show ?thesis using 1(4) other by simp
  qed
qed

lemma outbox_data_scan_eq: "outbox_data_scan buf pos mline mtotal = data_scan buf mline mtotal pos"
  by (auto simp: outbox_data_scan_def data_scan_def outbox_scan_loop_eq Let_def split: scan_loop_result.split)

section \<open>The session invariant\<close>

definition sender_allowed :: "OutboxServer \<Rightarrow> string \<Rightarrow> bool" where
  "sender_allowed srv from \<longleftrightarrow> (\<exists>d. outbox_addr_domain from 256 = Some d \<and> outbox_domain_allowed (sv_cfg srv) d)"

definition rcpts_ok :: "OutboxServer \<Rightarrow> string list \<Rightarrow> bool" where
  "rcpts_ok srv rs \<longleftrightarrow> (\<forall>r \<in> set rs. mail_addr_parse r \<noteq> None) \<and> (sv_max_rcpts srv \<noteq> 0 \<longrightarrow> length rs \<le> unat (sv_max_rcpts srv))"

definition submit_ok :: "OutboxServer \<Rightarrow> OutboxConn \<Rightarrow> bool" where
  "submit_ok srv c \<longleftrightarrow>
     (oc_authenticated c \<longrightarrow> channel_secure c \<and> (\<exists>u p. oc_auth_user c = Some u \<and> outbox_auth_check (sv_creds srv) u p)) \<and>
     (oc_auth_pending c \<noteq> OB_AUTH_NONE \<longrightarrow> channel_secure c) \<and>
     (oc_state c \<in> {OB_ST_MAIL, OB_ST_DATA} \<longrightarrow> oc_authenticated c \<and> (\<exists>f. oc_from c = Some f \<and> sender_allowed srv f)) \<and>
     (oc_state c = OB_ST_DATA \<longrightarrow> oc_rcpts c \<noteq> []) \<and>
     rcpts_ok srv (oc_rcpts c)"

text \<open>
  What the policy says of a queued job: it was made from a message whose From domain is the allowed domain of the
  envelope sender, of bounded size and free of control bytes, for recipients that parse; signed, when it is, for that domain.
\<close>

definition job_policy :: "('d, 'w) Env \<Rightarrow> OutboxServer \<Rightarrow> OutboxDeliveryJob \<Rightarrow> bool" where
  "job_policy E srv job \<longleftrightarrow>
     (\<exists>msg envdom fromdom. outbox_addr_domain (j_from job) 256 = Some envdom \<and> outbox_domain_allowed (sv_cfg srv) envdom \<and>
        outbox_from_header_domain msg 256 = Some fromdom \<and> ascii_ieq_str envdom fromdom \<and>
        \<not> mail_data_has_ctl msg \<and> length msg \<le> unat (sv_max_msg srv) \<and>
        (j_msg job = msg \<or> (\<exists>key w. outbox_dkim_key (sv_cfg srv) fromdom = Some key \<and> fst (dkim_sign E msg fromdom ''visage'' key w) = Some (j_msg job)))) \<and>
     j_rcpts job \<noteq> [] \<and> rcpts_ok srv (j_rcpts job) \<and> j_attempt job = 1 \<and> j_done job = replicate (length (j_rcpts job)) False"

text \<open>How the state may change: the invariant holds on, an authenticated connection stays one, and the queue grows by good jobs.\<close>

definition admits :: "('d, 'w) Env \<Rightarrow> OutboxServer \<Rightarrow> 'w Outbox \<Rightarrow> 'w Outbox \<Rightarrow> bool" where
  "admits E srv s t \<longleftrightarrow> submit_ok srv (ob_conn t) \<and> (oc_authenticated (ob_conn s) \<longrightarrow> oc_authenticated (ob_conn t)) \<and>
     (\<exists>new. q_jobs (ob_queue t) = q_jobs (ob_queue s) @ new \<and> (\<forall>job \<in> set new. job_policy E srv job) \<and>
        (new \<noteq> [] \<longrightarrow> oc_authenticated (ob_conn t)))"

lemma admits_refl: "submit_ok srv (ob_conn s) \<Longrightarrow> admits E srv s s"
  by (simp add: admits_def)

lemma admits_trans: "admits E srv s t \<Longrightarrow> admits E srv t u \<Longrightarrow> admits E srv s u"
  unfolding admits_def by (elim conjE exE, intro conjI exI[of _ "_ @ _"]) auto

lemma admits_ok: "admits E srv s t \<Longrightarrow> submit_ok srv (ob_conn t)"
  by (simp add: admits_def)

text \<open>A step that leaves everything of the session but the reply buffer, the input buffer and the clock alone.\<close>

definition same_txn :: "OutboxConn \<Rightarrow> OutboxConn \<Rightarrow> bool" where
  "same_txn c d \<longleftrightarrow> oc_authenticated d = oc_authenticated c \<and> oc_auth_user d = oc_auth_user c \<and> oc_auth_pending d = oc_auth_pending c \<and>
     oc_state d = oc_state c \<and> oc_from d = oc_from c \<and> oc_rcpts d = oc_rcpts c \<and> channel_secure d = channel_secure c"

definition unmoved :: "'w Outbox \<Rightarrow> 'w Outbox \<Rightarrow> bool" where
  "unmoved s t \<longleftrightarrow> same_txn (ob_conn s) (ob_conn t) \<and> oc_data (ob_conn t) = oc_data (ob_conn s) \<and> oc_tls (ob_conn t) = oc_tls (ob_conn s) \<and> ob_queue t = ob_queue s"

interpretation unmoved: state_preorder unmoved
  by unfold_locales (auto simp: unmoved_def same_txn_def)

lemma same_txn_ok: "same_txn c d \<Longrightarrow> submit_ok srv d = submit_ok srv c"
  by (simp add: same_txn_def submit_ok_def)

lemma unmoved_admits: "unmoved t u \<Longrightarrow> admits E srv s t \<Longrightarrow> admits E srv s u"
  using same_txn_ok [of "ob_conn t" "ob_conn u" srv] by (auto simp: admits_def unmoved_def same_txn_def)

lemma unmoved_io: "state_io_rel unmoved (ob_io f)" "state_io_rel unmoved (auth_failed now)" "state_io_rel unmoved auth_cleared"
  "state_io_rel unmoved (auth_asked now)" "state_io_rel unmoved oconn" "state_io_rel unmoved oclose" "state_io_rel unmoved ostall"
  "state_io_rel unmoved (upd_oconn (\<lambda>c. c\<lparr>oc_out := f1 c\<rparr>))" "state_io_rel unmoved (upd_oconn (oafter_flush r))"
  "state_io_rel unmoved (upd_oconn (\<lambda>c. c\<lparr>oc_last_act := now\<rparr>))" "state_io_rel unmoved (upd_oconn (\<lambda>c. c\<lparr>oc_in := f2 c\<rparr>))"
  "state_io_rel unmoved (modify (\<lambda>s. s\<lparr>ob_seq := f3 s\<rparr>))"
  by (simp_all add: state_io_rel_def unmoved_def same_txn_def oclose_def ostall_def channel_secure_def oafter_flush_def split: flush_end.split)

lemma unmoved_reply: "state_io_rel unmoved (outbox_conn_reply E text)"
  unfolding outbox_conn_reply_def outbox_conn_flush_def by (auto intro!: unmoved_io)

lemma unmoved_reply_close: "state_io_rel unmoved (oreply_close E text)"
  unfolding oreply_close_def by (auto intro!: unmoved_io unmoved_reply)

lemma unmoved_spool: "state_io_rel unmoved (spool_message E srv from rcpts msg)"
proof -
  have "state_io_rel unmoved (omkdir_all E ps)" for ps by (induction ps) (auto intro!: unmoved_io)
  then show ?thesis unfolding spool_message_def Let_def by (auto intro!: unmoved_io)
qed

section \<open>The handlers keep the invariant\<close>

text \<open>What holds in between, with the channel known to be secure, and with the client known to be authenticated.\<close>

definition secured :: "('d, 'w) Env \<Rightarrow> OutboxServer \<Rightarrow> 'w Outbox \<Rightarrow> 'w Outbox \<Rightarrow> bool" where
  "secured E srv s0 s \<longleftrightarrow> admits E srv s0 s \<and> channel_secure (ob_conn s)"

definition logged_in :: "('d, 'w) Env \<Rightarrow> OutboxServer \<Rightarrow> 'w Outbox \<Rightarrow> OutboxConn \<Rightarrow> 'w Outbox \<Rightarrow> bool" where
  "logged_in E srv s0 c s \<longleftrightarrow> secured E srv s0 s \<and> oc_authenticated (ob_conn s) \<and> same_txn c (ob_conn s)"

lemma unmoved_secured: "unmoved t u \<Longrightarrow> secured E srv s0 t \<Longrightarrow> secured E srv s0 u"
  using unmoved_admits [of t u E srv s0] by (auto simp: secured_def unmoved_def same_txn_def)

lemma secured_admits: "secured E srv s0 s \<Longrightarrow> admits E srv s0 s"
  by (simp add: secured_def)

lemma quiet_admits: "state_io_rel unmoved m \<Longrightarrow> triple (admits E srv s0) m (\<lambda>_. admits E srv s0)"
  by (erule triple_io) (rule unmoved_admits)

lemma quiet_secured: "state_io_rel unmoved m \<Longrightarrow> triple (secured E srv s0) m (\<lambda>_. secured E srv s0)"
  by (erule triple_io) (rule unmoved_secured)

lemma admits_upd:
  "admits E srv s0 s \<Longrightarrow> submit_ok srv c \<Longrightarrow> (oc_authenticated (ob_conn s) \<Longrightarrow> oc_authenticated c) \<Longrightarrow> admits E srv s0 (s\<lparr>ob_conn := c\<rparr>)"
  by (auto simp: admits_def)

lemma admits_same: "admits E srv s0 s \<Longrightarrow> same_txn (ob_conn s) c \<Longrightarrow> admits E srv s0 (s\<lparr>ob_conn := c\<rparr>)"
  using same_txn_ok by (auto intro!: admits_upd dest: admits_ok simp: same_txn_def)

lemma triple_upd:
  "(\<And>s. P s \<Longrightarrow> Q (s\<lparr>ob_conn := f (ob_conn s)\<rparr>)) \<Longrightarrow> triple P (upd_oconn f) (\<lambda>_. Q)"
  by (simp add: triple_def)

lemma triple_option:
  "(v = None \<Longrightarrow> triple P m Q) \<Longrightarrow> (\<And>x. v = Some x \<Longrightarrow> triple P (f x) Q) \<Longrightarrow> triple P (case v of None \<Rightarrow> m | Some x \<Rightarrow> f x) Q"
  by (cases v) auto

lemma triple_oconn: "(\<And>c. triple (\<lambda>s. P s \<and> ob_conn s = c) (f c) Q) \<Longrightarrow> triple P (oconn \<bind> f) Q"
  by (simp add: triple_def)

lemma triple_finish_auth: "triple (secured E srv s0) (finish_auth E srv user pass now) (\<lambda>_. admits E srv s0)"
proof -
  have set: "triple (secured E srv s0) (upd_oconn (\<lambda>c. c\<lparr>oc_authenticated := True, oc_auth_user := Some user\<rparr>)) (\<lambda>_. admits E srv s0)"
    if "outbox_auth_check (sv_creds srv) user pass"
    using that by (intro triple_upd admits_upd) (auto simp: secured_def admits_def submit_ok_def channel_secure_def)
  show ?thesis
    unfolding finish_auth_def
    by (intro triple_bind [OF quiet_secured [OF unmoved_io(4)]] triple_if triple_bind [OF quiet_secured [OF unmoved_io(3)]] triple_bind [OF set]
        triple_bind [OF quiet_secured [OF unmoved_io(2)]] quiet_admits [OF unmoved_reply] triple_pre [OF quiet_admits [OF unmoved_reply]])
      (auto simp: secured_admits)
qed

lemma triple_auth_bad: "triple (admits E srv s0) (auth_bad E now text) (\<lambda>_. admits E srv s0)"
  unfolding auth_bad_def by (intro triple_bind [OF quiet_admits [OF unmoved_io(2)]] quiet_admits [OF unmoved_reply])

lemma triple_plain_check: "triple (secured E srv s0) (auth_plain_check E srv b64 now) (\<lambda>_. admits E srv s0)"
  unfolding auth_plain_check_def
  by (auto intro!: triple_finish_auth triple_pre [OF triple_auth_bad] simp: secured_admits split: option.split)

lemma secured_upd:
  "secured E srv s0 s \<Longrightarrow> (channel_secure (ob_conn s) \<Longrightarrow> submit_ok srv (ob_conn s) \<Longrightarrow> submit_ok srv (f (ob_conn s))) \<Longrightarrow>
   (oc_authenticated (ob_conn s) \<Longrightarrow> oc_authenticated (f (ob_conn s))) \<Longrightarrow> channel_secure (f (ob_conn s)) = channel_secure (ob_conn s) \<Longrightarrow>
   secured E srv s0 (s\<lparr>ob_conn := f (ob_conn s)\<rparr>)"
  by (auto simp: secured_def intro!: admits_upd dest: admits_ok)

text \<open>The updates that AUTH makes to a connection on a secure channel.\<close>

lemma triple_auth_upd:
  "triple (secured E srv s0) (upd_oconn (\<lambda>c. c\<lparr>oc_auth_pending := a\<rparr>)) (\<lambda>_. secured E srv s0)"
  "triple (secured E srv s0) (upd_oconn (\<lambda>c. c\<lparr>oc_pending_user := u\<rparr>)) (\<lambda>_. secured E srv s0)"
  "triple (secured E srv s0) (upd_oconn (\<lambda>c. c\<lparr>oc_auth_pending := a, oc_pending_user := u\<rparr>)) (\<lambda>_. secured E srv s0)"
  "triple (secured E srv s0) (upd_oconn (\<lambda>c. c\<lparr>oc_pending_user := u, oc_auth_pending := a\<rparr>)) (\<lambda>_. secured E srv s0)"
  by (auto intro!: triple_upd secured_upd simp: submit_ok_def channel_secure_def)

lemma quiet_end: "triple (secured E srv s0) (outbox_conn_reply E text) (\<lambda>_. admits E srv s0)"
    "triple (secured E srv s0) (auth_bad E now text) (\<lambda>_. admits E srv s0)"
  by (auto intro!: triple_pre [OF quiet_admits [OF unmoved_reply]] triple_pre [OF triple_auth_bad] simp: secured_admits)

lemma triple_auth_cont:
  assumes "\<And>s. P s \<Longrightarrow> secured E srv s0 s"
  shows "triple P (handle_auth_cont E srv line now) (\<lambda>_. admits E srv s0)"
proof (rule triple_pre)
  show "triple (secured E srv s0) (handle_auth_cont E srv line now) (\<lambda>_. admits E srv s0)"
    unfolding handle_auth_cont_def
    by (rule triple_oconn, rule triple_pre [where P' = "secured E srv s0"])
       (auto intro!: triple_if triple_bind [OF triple_auth_upd(1)] triple_bind [OF triple_auth_upd(2)] triple_bind [OF triple_auth_upd(3)]
          triple_bind [OF triple_auth_upd(4)] triple_plain_check triple_finish_auth quiet_end split: option.split ob_auth.split)
qed (rule assms)

lemma triple_do_auth: "triple (secured E srv s0) (do_auth E srv rest now) (\<lambda>_. admits E srv s0)"
  unfolding do_auth_def Let_def
  by (auto intro!: triple_if triple_bind [OF triple_auth_upd(1)] triple_bind [OF triple_auth_upd(4)] triple_plain_check quiet_end split: option.split)

text \<open>The gates: when they answer yes they have changed nothing.\<close>

lemma unmoved_secure_gate: "state_io_rel unmoved (require_secure E)"
  unfolding require_secure_def by (auto intro!: unmoved_io unmoved_reply)

lemma unmoved_auth_gate: "state_io_rel unmoved (require_auth E)"
  unfolding require_auth_def by (auto intro!: unmoved_io unmoved_reply unmoved_secure_gate)

lemma secure_gate_yes: "eval (require_secure E) s \<Longrightarrow> channel_secure (ob_conn (exec (require_secure E) s))"
  by (auto simp: require_secure_def split: if_splits)

lemma auth_gate_yes: "eval (require_auth E) s \<Longrightarrow> oc_authenticated (ob_conn (exec (require_auth E) s)) \<and> channel_secure (ob_conn (exec (require_auth E) s))"
  using secure_gate_yes [of E s] by (auto simp: require_auth_def split: if_splits)

lemma triple_secure_gate: "triple (admits E srv s0) (require_secure E) (\<lambda>b s. admits E srv s0 s \<and> (b \<longrightarrow> secured E srv s0 s))"
  using tripleD [OF quiet_admits [OF unmoved_secure_gate]] secure_gate_yes unfolding triple_def secured_def by blast

lemma triple_auth_gate:
  "triple (\<lambda>s. admits E srv s0 s \<and> ob_conn s = c) (require_auth E) (\<lambda>b s. admits E srv s0 s \<and> (b \<longrightarrow> logged_in E srv s0 c s))"
proof -
  have "same_txn (ob_conn s) (ob_conn (exec (require_auth E) s))" for s
    using unmoved.io_apply [OF unmoved_auth_gate, of s E] by (simp add: unmoved_def)
  then show ?thesis
    using tripleD [OF quiet_admits [OF unmoved_auth_gate]] auth_gate_yes unfolding triple_def secured_def logged_in_def by blast
qed

lemma logged_admits: "logged_in E srv s0 c s \<Longrightarrow> admits E srv s0 s"
  by (simp add: logged_in_def secured_def)

lemma triple_reply_admits: "(\<And>s. P s \<Longrightarrow> admits E srv s0 s) \<Longrightarrow> triple P (outbox_conn_reply E text) (\<lambda>_. admits E srv s0)"
  by (rule triple_pre [OF quiet_admits [OF unmoved_reply]])

lemma triple_after_gate:
  assumes "triple (logged_in E srv s0 c) m (\<lambda>_. admits E srv s0)"
  shows "triple (\<lambda>s. admits E srv s0 s \<and> ob_conn s = c) (require_auth E \<bind> (\<lambda>ok. if \<not> ok then return () else m)) (\<lambda>_. admits E srv s0)"
  by (rule triple_bind [OF triple_auth_gate]) (auto intro!: triple_return triple_pre [OF assms])

lemma triple_helo: "triple (admits E srv s0) (outbox_do_helo E srv ehlo) (\<lambda>_. admits E srv s0)"
proof -
  have "triple (admits E srv s0) (upd_oconn (outbox_conn_reset_txn OB_ST_HELO)) (\<lambda>_. admits E srv s0)"
    by (intro triple_upd admits_upd) (auto simp: outbox_conn_reset_txn_def submit_ok_def channel_secure_def rcpts_ok_def dest: admits_ok)
  then show ?thesis unfolding outbox_do_helo_def by (auto intro!: triple_bind triple_oconn triple_reply_admits)
qed

lemma triple_reset: "triple (admits E srv s0) (upd_oconn (\<lambda>c. outbox_conn_reset_txn (if oc_state c = OB_ST_INIT then OB_ST_INIT else OB_ST_HELO) c)) (\<lambda>_. admits E srv s0)"
  "triple (admits E srv s0) (upd_oconn (outbox_conn_reset_txn OB_ST_HELO)) (\<lambda>_. admits E srv s0)"
  by (intro triple_upd admits_upd; auto simp: outbox_conn_reset_txn_def submit_ok_def channel_secure_def rcpts_ok_def dest: admits_ok)+

lemma triple_mail: "triple (admits E srv s0) (outbox_do_mail E srv rest) (\<lambda>_. admits E srv s0)"
proof -
  have set: "triple (logged_in E srv s0 c) (upd_oconn (\<lambda>c. c\<lparr>oc_from := Some path, oc_state := OB_ST_MAIL\<rparr>)) (\<lambda>_. admits E srv s0)"
    if "outbox_addr_domain path 256 = Some d" "outbox_domain_allowed (sv_cfg srv) d" for path d c
    using that by (intro triple_upd admits_upd)
      (auto simp: logged_in_def secured_def submit_ok_def channel_secure_def sender_allowed_def dest: admits_ok)
  show ?thesis
    unfolding outbox_do_mail_def
    by (rule triple_oconn, rule triple_if, rule triple_reply_admits, simp, rule triple_after_gate)
       (auto intro!: triple_if triple_reply_admits triple_bind [OF set] split: option.split simp: logged_admits)
qed

lemma triple_rcpt: "triple (admits E srv s0) (outbox_do_rcpt E srv rest) (\<lambda>_. admits E srv s0)"
proof -
  have set: "triple (logged_in E srv s0 c) (upd_oconn (outbox_conn_add_rcpt path)) (\<lambda>_. admits E srv s0)"
    if "mail_addr_parse path \<noteq> None" "\<not> (sv_max_rcpts srv \<noteq> 0 \<and> length (oc_rcpts c) \<ge> unat (sv_max_rcpts srv))" for path c
    using that by (intro triple_upd admits_upd)
      (auto simp: logged_in_def secured_def submit_ok_def channel_secure_def outbox_conn_add_rcpt_def rcpts_ok_def same_txn_def dest!: admits_ok)
  show ?thesis
    unfolding outbox_do_rcpt_def
    by (rule triple_oconn, rule triple_if, rule triple_reply_admits, simp, rule triple_after_gate)
       (auto intro!: triple_if triple_reply_admits triple_bind [OF set] split: option.split simp: logged_admits)
qed

lemma triple_data: "triple (admits E srv s0) (outbox_do_data E) (\<lambda>_. admits E srv s0)"
proof -
  have keep: "triple (logged_in E srv s0 c) (outbox_conn_reply E m) (\<lambda>_. logged_in E srv s0 c)" for c m
    by (rule triple_io [OF unmoved_reply]) (auto simp: logged_in_def unmoved_def same_txn_def intro: unmoved_secured [unfolded unmoved_def same_txn_def])
  have set: "triple (logged_in E srv s0 c) (upd_oconn (\<lambda>c. c\<lparr>oc_data := [], oc_scan_pos := 0, oc_state := OB_ST_DATA\<rparr>)) (\<lambda>_. admits E srv s0)"
    if "oc_state c = OB_ST_MAIL" "oc_rcpts c \<noteq> []" for c
    using that by (intro triple_upd admits_upd)
      (auto simp: logged_in_def secured_def submit_ok_def channel_secure_def same_txn_def dest!: admits_ok)
  show ?thesis
    unfolding outbox_do_data_def
    by (rule triple_oconn, rule triple_if, rule triple_reply_admits, simp, rule triple_after_gate)
       (auto intro!: triple_if triple_reply_admits triple_bind [OF keep] set simp: logged_admits)
qed

lemma triple_starttls: "triple (admits E srv s0) (outbox_do_starttls E rest) (\<lambda>_. admits E srv s0)"
proof -
  have set: "triple (\<lambda>s. admits E srv s0 s \<and> oc_tls (ob_conn s) = None) (upd_oconn (\<lambda>c. c\<lparr>oc_tls := t\<rparr>)) (\<lambda>_. admits E srv s0)" for t
    by (intro triple_upd admits_upd)
       (auto simp: submit_ok_def channel_secure_def smtp_in_tls_established_def dest!: admits_ok)
  have io: "triple (\<lambda>s. admits E srv s0 s \<and> oc_tls (ob_conn s) = None) (ob_io f) (\<lambda>_ s. admits E srv s0 s \<and> oc_tls (ob_conn s) = None)" for f
    by (rule triple_io [OF unmoved_io(1)]) (auto simp: unmoved_def intro: unmoved_admits [unfolded unmoved_def])
  show ?thesis
    unfolding outbox_do_starttls_def
    by (rule triple_oconn) (auto intro!: triple_if triple_reply_admits triple_pre [OF triple_bind [OF io]] triple_bind [OF set])
qed

lemma triple_command: "triple (admits E srv s0) (outbox_handle_command E srv now line) (\<lambda>_. admits E srv s0)"
proof -
  have auth: "triple (admits E srv s0) (require_secure E \<bind> (\<lambda>ok. if \<not> ok then return () else
      auth_asked now \<bind> (\<lambda>blocked. if blocked then outbox_conn_reply E t else do_auth E srv rest now))) (\<lambda>_. admits E srv s0)" for t rest
    by (rule triple_bind [OF triple_secure_gate])
       (auto intro!: triple_return triple_pre [OF triple_bind [OF quiet_secured [OF unmoved_io(4)]]] triple_do_auth quiet_end)
  show ?thesis
    unfolding outbox_handle_command_def Let_def
    by (intro triple_if auth triple_helo triple_starttls triple_mail triple_rcpt triple_data triple_bind [OF triple_reset(1)]
        quiet_admits [OF unmoved_reply] quiet_admits [OF unmoved_reply_close])
qed

section \<open>Accepting a message\<close>

definition in_data :: "('d, 'w) Env \<Rightarrow> OutboxServer \<Rightarrow> 'w Outbox \<Rightarrow> OutboxConn \<Rightarrow> 'w Outbox \<Rightarrow> bool" where
  "in_data E srv s0 c s \<longleftrightarrow> admits E srv s0 s \<and> oc_state c = OB_ST_DATA \<and> submit_ok srv c \<and> same_txn c (ob_conn s)"

lemma in_data_admits: "in_data E srv s0 c s \<Longrightarrow> admits E srv s0 s"
  by (simp add: in_data_def)

lemma quiet_in_data: "state_io_rel unmoved m \<Longrightarrow> triple (in_data E srv s0 c) m (\<lambda>_. in_data E srv s0 c)"
  by (erule triple_io) (auto simp: in_data_def unmoved_def same_txn_def intro: unmoved_admits [unfolded unmoved_def same_txn_def])

text \<open>What the signer returns, and the admission of a job that fits the policy.\<close>

definition signed_from :: "('d, 'w) Env \<Rightarrow> OutboxServer \<Rightarrow> string \<Rightarrow> string \<Rightarrow> string \<Rightarrow> bool" where
  "signed_from E srv msg fromdom out \<longleftrightarrow>
     out = msg \<or> (\<exists>key w. outbox_dkim_key (sv_cfg srv) fromdom = Some key \<and> fst (dkim_sign E msg fromdom ''visage'' key w) = Some out)"

lemma triple_sign:
  "triple (in_data E srv s0 c) (outbox_sign E (sv_cfg srv) msg fromdom) (\<lambda>out s. in_data E srv s0 c s \<and> signed_from E srv msg fromdom out)"
proof (cases "outbox_dkim_key (sv_cfg srv) fromdom")
  case None
  then show ?thesis by (simp add: outbox_sign_def triple_def signed_from_def)
next
  case (Some key)
  have "in_data E srv s0 c (s\<lparr>ob_world := w\<rparr>) = in_data E srv s0 c s" for s w
    by (simp add: in_data_def admits_def)
  then show ?thesis using Some
    by (auto simp: outbox_sign_def triple_def signed_from_def split: option.split)
qed

lemma triple_enqueue:
  assumes "from_aligned c msg = Some fromdom" "\<not> mail_data_has_ctl msg" "length msg \<le> unat (sv_max_msg srv)" "signed_from E srv msg fromdom out"
  shows "triple (in_data E srv s0 c)
    (with_queue (\<lambda>q. outbox_delivery_enqueue q (case oc_from c of None \<Rightarrow> [] | Some f \<Rightarrow> f) (oc_rcpts c) out)) (\<lambda>_. admits E srv s0)"
proof -
  obtain f envdom where f: "oc_from c = Some f" "outbox_addr_domain f 256 = Some envdom" "outbox_from_header_domain msg 256 = Some fromdom"
    "ascii_ieq_str envdom fromdom"
    using assms(1) by (auto simp: from_aligned_def split: option.splits if_splits)
  have j: "job_policy E srv (new_job f (oc_rcpts c) out)" if "in_data E srv s0 c s" for s
    using that f assms(2-4) unfolding job_policy_def signed_from_def in_data_def submit_ok_def sender_allowed_def
    by (auto simp: new_job_def)
  show ?thesis
    unfolding triple_def
  proof (intro allI impI)
    fix s assume s: "in_data E srv s0 c s"
    let ?r = "outbox_delivery_enqueue (ob_queue s) f (oc_rcpts c) out"
    have "admits E srv s0 s" "oc_authenticated (ob_conn s)" using s by (auto simp: in_data_def submit_ok_def same_txn_def)
    then have "admits E srv s0 (s\<lparr>ob_queue := snd ?r\<rparr>)"
      using j [OF s] unfolding admits_def by (auto simp: outbox_delivery_enqueue_def queue_append_def Let_def)
    then show "admits E srv s0 (exec (with_queue (\<lambda>q. outbox_delivery_enqueue q (case oc_from c of None \<Rightarrow> [] | Some f \<Rightarrow> f) (oc_rcpts c) out)) s)"
      by (simp add: f(1))
  qed
qed

lemma triple_deliver: "triple (\<lambda>s. admits E srv s0 s \<and> oc_state (ob_conn s) = OB_ST_DATA) (outbox_deliver_message E srv) (\<lambda>_. admits E srv s0)"
proof -
  have upd: "triple (\<lambda>s. admits E srv s0 s \<and> oc_state (ob_conn s) = OB_ST_DATA) (upd_oconn (\<lambda>c. c\<lparr>oc_data := mail_unstuff_dots (oc_data c)\<rparr>))
      (\<lambda>_ s. admits E srv s0 s \<and> oc_state (ob_conn s) = OB_ST_DATA)"
    by (intro triple_upd) (auto intro!: admits_same simp: same_txn_def channel_secure_def)
  show ?thesis
    unfolding outbox_deliver_message_def Let_def
  proof (rule triple_bind [OF upd], rule triple_oconn, rule triple_pre)
    fix c
    show "in_data E srv s0 c s" if "(admits E srv s0 s \<and> oc_state (ob_conn s) = OB_ST_DATA) \<and> ob_conn s = c" for s
      using that by (auto simp: in_data_def same_txn_def dest: admits_ok)
    let ?msg = "oc_data c"
    have ok: "triple (in_data E srv s0 c) (outbox_sign E (sv_cfg srv) ?msg fromdom \<bind> (\<lambda>out_msg.
        spool_message E srv (case oc_from c of None \<Rightarrow> [] | Some f \<Rightarrow> f) (oc_rcpts c) out_msg \<bind> (\<lambda>_.
        with_queue (\<lambda>q. outbox_delivery_enqueue q (case oc_from c of None \<Rightarrow> [] | Some f \<Rightarrow> f) (oc_rcpts c) out_msg) \<bind> (\<lambda>q.
        case q of Enq_ok \<Rightarrow> outbox_conn_reply E m1 | Enq_closed \<Rightarrow> outbox_conn_reply E m2 | Enq_full \<Rightarrow> outbox_conn_reply E m3)))) (\<lambda>_. admits E srv s0)"
      if g: "from_aligned c ?msg = Some fromdom" "\<not> mail_data_has_ctl ?msg" "length ?msg \<le> unat (sv_max_msg srv)" for fromdom m1 m2 m3
    proof (rule triple_bind [OF triple_sign])
      fix out
      show "triple (\<lambda>s. in_data E srv s0 c s \<and> signed_from E srv ?msg fromdom out)
        (spool_message E srv (case oc_from c of None \<Rightarrow> [] | Some f \<Rightarrow> f) (oc_rcpts c) out \<bind> (\<lambda>_.
          with_queue (\<lambda>q. outbox_delivery_enqueue q (case oc_from c of None \<Rightarrow> [] | Some f \<Rightarrow> f) (oc_rcpts c) out) \<bind> (\<lambda>q.
          case q of Enq_ok \<Rightarrow> outbox_conn_reply E m1 | Enq_closed \<Rightarrow> outbox_conn_reply E m2 | Enq_full \<Rightarrow> outbox_conn_reply E m3))) (\<lambda>_. admits E srv s0)"
      proof (cases "signed_from E srv ?msg fromdom out")
        case True
        have "triple (in_data E srv s0 c) (spool_message E srv (case oc_from c of None \<Rightarrow> [] | Some f \<Rightarrow> f) (oc_rcpts c) out \<bind> (\<lambda>_.
          with_queue (\<lambda>q. outbox_delivery_enqueue q (case oc_from c of None \<Rightarrow> [] | Some f \<Rightarrow> f) (oc_rcpts c) out) \<bind> (\<lambda>q.
          case q of Enq_ok \<Rightarrow> outbox_conn_reply E m1 | Enq_closed \<Rightarrow> outbox_conn_reply E m2 | Enq_full \<Rightarrow> outbox_conn_reply E m3))) (\<lambda>_. admits E srv s0)"
          by (rule triple_bind [OF quiet_in_data [OF unmoved_spool]], rule triple_bind [OF triple_enqueue [OF g True]])
             (auto intro!: triple_reply_admits split: enqueue_result.split)
        then show ?thesis using True by simp
      qed (simp add: triple_def)
    qed
    show "triple (in_data E srv s0 c)
      (if mail_data_has_ctl ?msg then oreply_close E (''554 5.6.0 Message contains NUL or control bytes'' @ CRLF)
       else if length ?msg > unat (sv_max_msg srv) then oreply_close E (''552 5.3.4 Message exceeds fixed limit'' @ CRLF)
       else case from_aligned c ?msg of
         None \<Rightarrow> outbox_conn_reply E (''554 5.7.1 Sender address rejected (From domain must equal envelope MAIL FROM)'' @ CRLF)
       | Some fromdom \<Rightarrow> outbox_sign E (sv_cfg srv) ?msg fromdom \<bind> (\<lambda>out_msg.
           spool_message E srv (case oc_from c of None \<Rightarrow> [] | Some f \<Rightarrow> f) (oc_rcpts c) out_msg \<bind> (\<lambda>_.
           with_queue (\<lambda>q. outbox_delivery_enqueue q (case oc_from c of None \<Rightarrow> [] | Some f \<Rightarrow> f) (oc_rcpts c) out_msg) \<bind> (\<lambda>q.
           case q of Enq_ok \<Rightarrow> outbox_conn_reply E (''250 2.0.0 OK: queued'' @ CRLF)
             | Enq_closed \<Rightarrow> outbox_conn_reply E (''451 4.3.0 Temporary delivery failure'' @ CRLF)
             | Enq_full \<Rightarrow> outbox_conn_reply E (''452 4.3.1 Delivery queue full, try later'' @ CRLF)))))
      (\<lambda>_. admits E srv s0)"
      by (intro triple_if triple_option triple_reply_admits ok triple_pre [OF quiet_admits [OF unmoved_reply_close]]) (simp_all add: in_data_admits)
  qed
qed

section \<open>Whole runs\<close>

lemma triple_data_step:
  assumes "triple (admits E srv s0) commands (\<lambda>_. admits E srv s0)"
  shows "triple (\<lambda>s. admits E srv s0 s \<and> oc_state (ob_conn s) = OB_ST_DATA) (outbox_data_step E srv commands) (\<lambda>_. admits E srv s0)"
proof -
  let ?P = "\<lambda>s. admits E srv s0 s \<and> oc_state (ob_conn s) = OB_ST_DATA"
  have found: "triple ?P (upd_oconn (\<lambda>c. c\<lparr>oc_in := f1 c, oc_data := f2 c\<rparr>)) (\<lambda>_. ?P)" for f1 f2
    by (intro triple_upd) (auto intro!: admits_same simp: same_txn_def channel_secure_def)
  have more: "triple ?P (upd_oconn (\<lambda>c. c\<lparr>oc_scan_pos := pos\<rparr>)) (\<lambda>_. admits E srv s0)" for pos
    by (intro triple_upd) (auto intro!: admits_same simp: same_txn_def channel_secure_def)
  have rest: "triple (admits E srv s0) (oconn \<bind> (\<lambda>c. whenM (\<not> oc_closed c \<and> oc_in c \<noteq> []) commands)) (\<lambda>_. admits E srv s0)"
    by (rule triple_oconn) (auto intro!: triple_whenM triple_pre [OF assms])
  show ?thesis
    unfolding outbox_data_step_def
  proof (rule triple_oconn, rule triple_pre [where P' = ?P])
    fix c
    show "triple ?P (case outbox_data_scan (oc_data c) (oc_scan_pos c) (sv_max_line srv) (sv_raw_cap srv) of
        Scan_found e t \<Rightarrow> upd_oconn (\<lambda>c. c\<lparr>oc_in := oc_in c @ drop (e + t) (oc_data c), oc_data := take e (oc_data c)\<rparr>) \<bind>
          (\<lambda>_. outbox_deliver_message E srv \<bind> (\<lambda>_. upd_oconn (outbox_conn_reset_txn OB_ST_HELO) \<bind>
          (\<lambda>_. oconn \<bind> (\<lambda>c. whenM (\<not> oc_closed c \<and> oc_in c \<noteq> []) commands))))
      | Scan_error \<Rightarrow> oreply_close E (''552 5.3.4 Message exceeds fixed limits'' @ CRLF)
      | Scan_more pos \<Rightarrow> upd_oconn (\<lambda>c. c\<lparr>oc_scan_pos := pos\<rparr>)) (\<lambda>_. admits E srv s0)"
      by (auto intro!: triple_bind [OF found] triple_bind [OF triple_deliver] triple_bind [OF triple_reset(2)] rest more
          triple_pre [OF quiet_admits [OF unmoved_reply_close]] split: scan_result.split)
  qed simp
qed

lemma triple_move: "triple (admits E srv s0) (outbox_move_to_data E srv) (\<lambda>_. admits E srv s0)"
proof -
  have upd: "triple (\<lambda>s. admits E srv s0 s \<and> ob_conn s = c) (upd_oconn (\<lambda>c. c\<lparr>oc_data := oc_data c @ oc_in c, oc_in := []\<rparr>)) (\<lambda>_. admits E srv s0)" for c
    by (intro triple_upd) (auto intro!: admits_same simp: same_txn_def channel_secure_def)
  show ?thesis
    unfolding outbox_move_to_data_def
    by (rule triple_oconn) (auto intro!: upd triple_if triple_return triple_pre [OF quiet_admits [OF unmoved_reply_close]])
qed

lemma pending_secured: "admits E srv s0 s \<Longrightarrow> oc_auth_pending (ob_conn s) \<noteq> OB_AUTH_NONE \<Longrightarrow> secured E srv s0 s"
  using admits_ok [of E srv s0 s] by (simp add: secured_def submit_ok_def)

lemma triple_commands: "triple (admits E srv s0) (outbox_process_commands E srv n now) (\<lambda>_. admits E srv s0)"
proof (induction n)
  case 0
  show ?case by (simp add: quiet_admits [OF unmoved_io(7)])
next
  case (Suc n)
  have line: "triple (\<lambda>s. admits E srv s0 s \<and> ob_conn s = c) (upd_oconn (\<lambda>c. c\<lparr>oc_in := f c\<rparr>))
      (\<lambda>_ s. admits E srv s0 s \<and> oc_auth_pending (ob_conn s) = oc_auth_pending c)" for f c
    by (intro triple_upd) (auto intro!: admits_same simp: same_txn_def channel_secure_def)
  have cont: "triple (\<lambda>s. admits E srv s0 s \<and> oc_auth_pending (ob_conn s) = oc_auth_pending c)
      (if oc_auth_pending c \<noteq> OB_AUTH_NONE then handle_auth_cont E srv l now else outbox_handle_command E srv now l) (\<lambda>_. admits E srv s0)" for c l
    by (rule triple_if) (auto intro!: triple_auth_cont triple_pre [OF triple_command] pending_secured)
  have next_line: "triple (admits E srv s0) (oconn \<bind> (\<lambda>c. if oc_state c = OB_ST_DATA \<and> \<not> oc_closed c then outbox_move_to_data E srv
      else outbox_process_commands E srv n now)) (\<lambda>_. admits E srv s0)"
    by (rule triple_oconn) (auto intro!: triple_pre [OF triple_move] triple_pre [OF Suc.IH])
  show ?case
    unfolding outbox_process_commands.simps outbox_commands_step_def Let_def
    by (intro triple_oconn triple_if triple_return triple_whenM triple_pre [OF quiet_admits [OF unmoved_reply_close]] triple_bind [OF line]
        triple_bind [OF cont] next_line) simp_all
qed

lemma triple_take_bytes: "triple (admits E srv s0) (outbox_take_bytes E srv n now tmp) (\<lambda>_. admits E srv s0)"
proof -
  have data: "triple (\<lambda>s. admits E srv s0 s \<and> ob_conn s = c) (upd_oconn (\<lambda>c. c\<lparr>oc_data := f c\<rparr>))
      (\<lambda>_ s. admits E srv s0 s \<and> oc_state (ob_conn s) = OB_ST_DATA)" if "oc_state c = OB_ST_DATA" for f c
    using that by (intro triple_upd) (auto intro!: admits_same simp: same_txn_def channel_secure_def)
  have cmd: "triple (\<lambda>s. admits E srv s0 s \<and> ob_conn s = c) (upd_oconn (\<lambda>c. c\<lparr>oc_in := f c\<rparr>)) (\<lambda>_. admits E srv s0)" for f c
    by (intro triple_upd) (auto intro!: admits_same simp: same_txn_def channel_secure_def)
  show ?thesis
    unfolding outbox_take_bytes_def
    by (rule triple_oconn)
       (auto intro!: triple_if triple_pre [OF quiet_admits [OF unmoved_reply_close]] triple_bind [OF data] triple_bind [OF cmd]
          triple_data_step triple_commands)
qed

lemma tls_recv_state: "fst (tls_recv E t n w) = (r, t') \<Longrightarrow> t_state t' = t_state t"
  by (auto simp: tls_recv_def Let_def split: if_splits prod.splits sum.splits)

lemma triple_drain: "triple (admits E srv s0) (outbox_drain E srv n k now) (\<lambda>_. admits E srv s0)"
proof (induction k)
  case 0
  show ?case by (simp add: quiet_admits [OF unmoved_io(7)])
next
  case (Suc k)
  have recv: "triple (\<lambda>s. admits E srv s0 s \<and> ob_conn s = c) (ob_io (tls_recv E t OUTBOX_RECV_CHUNK))
      (\<lambda>(r, t') s. admits E srv s0 s \<and> ob_conn s = c \<and> t_state t' = t_state t)" for c t
    using tls_recv_state [of E t OUTBOX_RECV_CHUNK] by (auto simp: triple_def admits_def split: prod.split)
  have keep: "triple (\<lambda>s. admits E srv s0 s \<and> ob_conn s = c \<and> t_state t' = t_state t) (upd_oconn (\<lambda>c. c\<lparr>oc_tls := Some t'\<rparr>)) (\<lambda>_. admits E srv s0)"
    if "oc_tls c = Some t" for c t t'
    using that by (intro triple_upd) (auto intro!: admits_same simp: same_txn_def channel_secure_def smtp_in_tls_established_def)
  have after: "triple (admits E srv s0) (case r of Inl _ \<Rightarrow> oclose | Inr bytes \<Rightarrow> if bytes = [] then return () else
      upd_oconn (\<lambda>c. c\<lparr>oc_last_act := now\<rparr>) \<bind> (\<lambda>_. outbox_take_bytes E srv n now bytes \<bind> (\<lambda>_.
      oconn \<bind> (\<lambda>c. if oc_closed c then return () else outbox_drain E srv n k now)))) (\<lambda>_. admits E srv s0)" for r :: "unit + string"
    by (auto intro!: triple_if triple_return quiet_admits [OF unmoved_io(6)] triple_bind [OF quiet_admits [OF unmoved_io(10)]]
        triple_bind [OF triple_take_bytes] triple_oconn triple_pre [OF Suc.IH] split: sum.split)
  show ?case
    unfolding outbox_drain.simps
    by (rule triple_oconn) (auto intro!: triple_return triple_bind [OF recv] triple_bind [OF keep] after split: option.split prod.split)
qed

lemma triple_readable: "triple (admits E srv s0) (outbox_conn_readable E srv n k now) (\<lambda>_. admits E srv s0)"
proof -
  have plain: "triple (admits E srv s0) (ob_io f \<bind> (\<lambda>r. case r of Inl e \<Rightarrow> whenM (e \<noteq> Would_block) oclose
      | Inr bytes \<Rightarrow> if bytes = [] then oclose else upd_oconn (\<lambda>c. c\<lparr>oc_last_act := now\<rparr>) \<bind> (\<lambda>_. outbox_take_bytes E srv n now bytes))) (\<lambda>_. admits E srv s0)" for f
    by (rule triple_bind [OF quiet_admits [OF unmoved_io(1)]])
       (auto intro!: triple_whenM triple_if quiet_admits [OF unmoved_io(6)] triple_bind [OF quiet_admits [OF unmoved_io(10)]] triple_take_bytes split: sum.split)
  show ?thesis
    unfolding outbox_conn_readable_def
    by (rule triple_oconn) (auto intro!: triple_if triple_whenM triple_pre [OF triple_drain] triple_pre [OF plain])
qed

text \<open>What a run may do to the queue and to the connection that is being served.\<close>

definition policy_kept :: "('d, 'w) Env \<Rightarrow> OutboxServer \<Rightarrow> 'w Outbox \<Rightarrow> 'w Outbox \<Rightarrow> bool" where
  "policy_kept E srv s t \<longleftrightarrow> submit_ok srv (ob_conn t) \<and>
     (\<exists>new. q_jobs (ob_queue t) = q_jobs (ob_queue s) @ new \<and> (\<forall>job \<in> set new. job_policy E srv job) \<and>
        (new \<noteq> [] \<longrightarrow> oc_authenticated (ob_conn t) \<and> channel_secure (ob_conn t)))"

lemma admits_policy: "admits E srv s t \<Longrightarrow> policy_kept E srv s t"
  by (auto simp: admits_def policy_kept_def submit_ok_def)

lemma readable_policy: "submit_ok srv (ob_conn s) \<Longrightarrow> policy_kept E srv s (exec (outbox_conn_readable E srv n k now) s)"
  using tripleD [OF triple_readable admits_refl] admits_policy by blast

lemma policy_from: "policy_kept E srv s1 t \<Longrightarrow> q_jobs (ob_queue s1) = q_jobs (ob_queue s) \<Longrightarrow> policy_kept E srv s t"
  by (simp add: policy_kept_def)

lemma policy_refl: "submit_ok srv (ob_conn t) \<Longrightarrow> ob_queue t = ob_queue s \<Longrightarrow> policy_kept E srv s t"
  by (simp add: policy_kept_def)

text \<open>A handshake round never takes an established session back.\<close>

lemma handshake_secure:
  assumes "fst (tls_handshake_step E t w) = (r, t')"
  shows "smtp_in_tls_established t \<longrightarrow> smtp_in_tls_established t'" "r = HS_done \<longrightarrow> smtp_in_tls_established t'"
  using assms by (auto simp: tls_handshake_step_def smtp_in_tls_established_def Let_def split: option.splits if_splits prod.splits mbed_code.splits)

lemma advance_policy:
  assumes ok: "submit_ok srv (ob_conn s)"
  shows "policy_kept E srv s (exec (outbox_tls_advance E srv n k now) s)"
proof -
  let ?c = "(ob_conn s)\<lparr>oc_last_act := now\<rparr>"
  obtain r t where h: "fst (tls_handshake_step E (oc_tls ?c) (ob_world s)) = (r, t)" by force
  let ?s1 = "s\<lparr>ob_conn := ?c\<lparr>oc_tls := t\<rparr>, ob_world := snd (tls_handshake_step E (oc_tls ?c) (ob_world s))\<rparr>"
  have ok1: "submit_ok srv (ob_conn ?s1)"
    using ok handshake_secure(1) [OF h] by (auto simp: submit_ok_def channel_secure_def)
  have q: "ob_queue ?s1 = ob_queue s" by simp
  show ?thesis
  proof (cases r)
    case HS_fatal
    have "exec (outbox_tls_advance E srv n k now) s = ?s1\<lparr>ob_conn := (ob_conn ?s1)\<lparr>oc_closed := True, oc_out := [], oc_out_off := 0\<rparr>\<rparr>"
      using h HS_fatal by (simp add: outbox_tls_advance_def)
    then show ?thesis using ok1 by (auto intro!: policy_refl simp: submit_ok_def channel_secure_def)
  next
    case HS_more
    have "exec (outbox_tls_advance E srv n k now) s = ?s1" using h HS_more by (simp add: outbox_tls_advance_def)
    then show ?thesis using ok1 by (simp add: policy_refl)
  next
    case HS_done
    show ?thesis
    proof (cases "oc_implicit_tls ?c \<and> \<not> oc_greeted ?c")
      case True
      let ?s2 = "?s1\<lparr>ob_conn := (ob_conn ?s1)\<lparr>oc_greeted := True, oc_state := OB_ST_INIT\<rparr>\<rparr>"
      have e: "exec (outbox_tls_advance E srv n k now) s = exec (outbox_conn_readable E srv n k now) (exec (outbox_conn_reply E (outbox_greeting srv)) ?s2)"
        using h HS_done True by (simp add: outbox_tls_advance_def)
      have "submit_ok srv (ob_conn ?s2)" using ok1 by (simp add: submit_ok_def channel_secure_def)
      moreover have "unmoved ?s2 (exec (outbox_conn_reply E (outbox_greeting srv)) ?s2)" by (rule unmoved.io_apply [OF unmoved_reply])
      ultimately have "submit_ok srv (ob_conn (exec (outbox_conn_reply E (outbox_greeting srv)) ?s2))"
        "ob_queue (exec (outbox_conn_reply E (outbox_greeting srv)) ?s2) = ob_queue s"
        using same_txn_ok by (auto simp: unmoved_def)
      then show ?thesis unfolding e by (intro policy_from [OF readable_policy]) simp_all
    next
      case False
      let ?s2 = "?s1\<lparr>ob_conn := outbox_conn_reset_txn OB_ST_INIT ((ob_conn ?s1)\<lparr>oc_authenticated := False, oc_auth_user := None\<rparr>)\<rparr>"
      have e: "exec (outbox_tls_advance E srv n k now) s = exec (outbox_conn_readable E srv n k now) ?s2"
        using h HS_done False by (auto simp: outbox_tls_advance_def)
      have "submit_ok srv (ob_conn ?s2)" by (simp add: submit_ok_def outbox_conn_reset_txn_def rcpts_ok_def)
      then show ?thesis unfolding e by (intro policy_from [OF readable_policy]) simp_all
    qed
  qed
qed


text \<open>A submission from EHLO to the queued message, over an established TLS session.\<close>

definition demo_env :: "(ref_db, ref_world) Env" where
  "demo_env = ref_env\<lparr>mbed_read := \<lambda>fd pre len w. (case w_input w of [] \<Rightarrow> ((Inl MBED_WANT_READ, pre), w) | x # xs \<Rightarrow> ((Inr x, pre), w\<lparr>w_input := xs\<rparr>))\<rparr>"

definition demo_cfg :: OutboxConfig where
  "demo_cfg =
     \<lparr>ob_domains = [''ex.org''], ob_dkim = [], ob_hostname = ''ob'', ob_spool = ''sp'', ob_max_msg = 1000, ob_max_line = 0,
      ob_max_rcpts = 2, ob_cmd_tmo = 0, ob_data_tmo = 0, ob_max_attempts = 3, ob_deliver_port = 25, ob_internal_host = [], ob_internal_port = 2525,
      ob_internal_tls = ''implicit'', ob_internal_user = [], ob_internal_pass = [], ob_internal_domains = []\<rparr>"

definition demo_conn :: OutboxConn where
  "demo_conn =
     \<lparr>oc_fd = 5, oc_closed = False, oc_implicit_tls = True, oc_greeted = True, oc_authenticated = False, oc_auth_user = None, oc_pending_user = None,
      oc_state = OB_ST_INIT, oc_auth_pending = OB_AUTH_NONE, oc_from = None, oc_rcpts = [], oc_in = [], oc_data = [], oc_scan_pos = 0,
      oc_out = [], oc_out_off = 0, oc_last_act = 0, oc_peer_ip = [CHR 0x7F, NUL, NUL, CHR 0x01],
      oc_tls = Some \<lparr>t_state = TLS_ESTABLISHED, t_want_write = False, t_fd = 5, t_prebuf = []\<rparr>\<rparr>"

definition demo_state :: "string list \<Rightarrow> ref_world Outbox" where
  "demo_state script =
     \<lparr>ob_conns = [], ob_conn = demo_conn, ob_fails = [], ob_queue = outbox_delivery_queue_init, ob_seq = 0,
      ob_world = \<lparr>w_files = [], w_time = 100, w_input = script, w_sent = [], w_relay = SMTP_OK\<rparr>, ob_stalled = False\<rparr>"

definition demo_srv :: OutboxServer where
  "demo_srv = outbox_server demo_cfg (Some (''ann:secret'' @ [LF]))"

definition demo_script :: "string list" where
  "demo_script = [''EHLO me'' @ CRLF @ ''AUTH PLAIN AGFubgBzZWNyZXQ='' @ CRLF @ ''MAIL FROM:<ann@ex.org>'' @ CRLF @ ''RCPT TO:<bob@far.net>'' @ CRLF @ ''DATA'' @ CRLF,
     ''From: Ann <ann@ex.org>'' @ CRLF @ CRLF @ ''hi'' @ CRLF @ [DOT] @ CRLF]"


section \<open>Two copies of a parser, and two ends of a login\<close>

text \<open>
  C34. The submission server ends a message where the inbound server does. Its copy of the DATA scan, which keeps the line start
  and the resume point apart, gives for every buffer, every resume position and all limits the answer of the scan of the
  inbound server: the same terminator, the same refusal, the same request for more.
\<close>

theorem outbox_data_scan_same: "outbox_data_scan buf pos mline mtotal = data_scan buf mline mtotal pos"
  by (rule outbox_data_scan_eq)

lemma b64_no_space: "SP \<notin> set (b64_encode_loop p)"
proof -
  have "b64_val SP = None" by code_simp
  then have d: "SP \<noteq> b64_digit v k" for v k by (metis b64_val_digit(1) option.distinct(1))
  have "SP \<noteq> PAD" by (simp add: PAD_def)
  with d show ?thesis by (induction p rule: b64_encode_loop.induct) (simp_all add: Let_def)
qed

lemma plain_split_message:
  assumes "u \<noteq> []" "length u < 128" "length p < 512" "nul_free u" "nul_free p"
  shows "plain_split (NUL # u @ NUL # p) = Some (u, p)"
proof -
  have "x \<in> set u \<Longrightarrow> x \<noteq> NUL" for x using assms(4) by (auto simp: nul_free_def)
  from takeWhile_all [of u "\<lambda>c. c \<noteq> NUL" "NUL # p", OF this] dropWhile_all [of u "\<lambda>c. c \<noteq> NUL" "NUL # p", OF this]
  have "takeWhile (\<lambda>c. c \<noteq> NUL) (u @ NUL # p) = u" "dropWhile (\<lambda>c. c \<noteq> NUL) (u @ NUL # p) = NUL # p" by simp_all
  then show ?thesis using assms by (simp add: plain_split_def cstr_id)
qed



end
