(* ===== verification/Outbox_Deliver.thy ===== *)
theory Outbox_Deliver
  imports Outbox_Submit Smtp_Relay
begin

text \<open>
  The delivery worker of the submission server (\<open>outbox_deliver.c\<close>, and the delivery configurations of
  \<open>outbox_main\<close>): the cache of MX routes, resolution, one attempt for one recipient, one pass over a job, and the
  worker loop. An attempt is a run of the relay client (\<open>Smtp_Relay\<close>) to its end. The DNS client
  of \<open>auth_results.c\<close> and \<open>inet_ntop\<close> are functions of the environment; \<open>None\<close> is their error return. \<open>k_log\<close> is what the worker
  prints about finished recipients. The fuel \<open>n\<close> is that of the relay client.
\<close>

section \<open>State\<close>

record 'w DeliverEnv =
  d_time :: "'w \<Rightarrow> int \<times> 'w"
  d_mx :: "string \<Rightarrow> 'w \<Rightarrow> string list option \<times> 'w"
  d_addr :: "string \<Rightarrow> 'w \<Rightarrow> string list option \<times> 'w"
  d_ntop4 :: "string \<Rightarrow> string option"
  d_ntop6 :: "string \<Rightarrow> string option"
  d_relay :: "'w RelayEnv"

record DeliverMxRoute =
  mx_domain :: string
  mx_filled :: int
  mx_ips :: "string list"

record 'w Worker =
  k_cache :: "DeliverMxRoute list"
  k_cache_next :: nat
  k_tls :: TlsGlobals
  k_log :: "(string \<times> string \<times> string) list"
  k_world :: 'w
  k_stalled :: bool

definition DELIVER_MAX_TARGETS :: nat where "DELIVER_MAX_TARGETS = 16 * 16 + 16"
definition DELIVER_MX_CACHE_SLOTS :: nat where "DELIVER_MX_CACHE_SLOTS = 8"
definition DELIVER_MX_CACHE_TTL :: int where "DELIVER_MX_CACHE_TTL = 300"
definition OUTBOX_DEFAULT_MAX_ATTEMPTS :: u32 where "OUTBOX_DEFAULT_MAX_ATTEMPTS = 5"

definition worker_init :: "'w \<Rightarrow> 'w Worker" where
  "worker_init w =
     \<lparr>k_cache = replicate DELIVER_MX_CACHE_SLOTS \<lparr>mx_domain = [], mx_filled = 0, mx_ips = []\<rparr>, k_cache_next = 0,
      k_tls = \<lparr>g_tls = None, g_verify = None\<rparr>, k_log = [], k_world = w, k_stalled = False\<rparr>"

definition k_io :: "('w \<Rightarrow> 'r \<times> 'w) \<Rightarrow> ('w Worker, 'r) state" where
  "k_io f = State (\<lambda>s. case f (k_world s) of (r, w) \<Rightarrow> (r, s\<lparr>k_world := w\<rparr>))"

lemma run_k_io [simp]: "run_state (k_io f) s = (fst (f (k_world s)), s\<lparr>k_world := snd (f (k_world s))\<rparr>)"
  by (simp add: k_io_def split_beta)

section \<open>Configuration of the relay client\<close>

definition blank_cfg :: Config where
  "blank_cfg =
     (let relay = \<lparr>relay_host = [], relay_port = 0, relay_auth = \<lparr>auth_enabled = False, auth_username = [], auth_password = []\<rparr>,
        relay_retries = 0, relay_tls = [], relay_max_attempts = 0, relay_tls_ca = []\<rparr> in
      \<lparr>cfg_hostname = [], cfg_domains = [], cfg_listen = \<lparr>listen_address = [], listen_port = 0, proxy_from = []\<rparr>,
       cfg_tls_listen = \<lparr>tls_listen_address = None, tls_listen_port = 0\<rparr>,
       cfg_limits = \<lparr>limit_message = 0, limit_line = 0, limit_rcpts = 0, cmd_timeout = 0, data_timeout = 0\<rparr>,
       cfg_relay = relay, cfg_reply_relay = relay, cfg_storage = \<lparr>storage_path = [], storage_spool = [], retention_days = 0\<rparr>,
       cfg_reply = \<lparr>reply_prefix = [], reply_separator = []\<rparr>, cfg_catch_all = [], cfg_aliases = [],
       cfg_http = \<lparr>http_address = [], http_port = 0\<rparr>, cfg_admin_token = [], cfg_dkim = []\<rparr>)"

definition deliver_cfg :: "OutboxServer \<Rightarrow> Config" where
  "deliver_cfg srv =
     blank_cfg\<lparr>cfg_hostname := ob_hostname (sv_cfg srv), cfg_relay := (cfg_relay blank_cfg)\<lparr>relay_tls := ''starttls''\<rparr>,
       cfg_limits := (cfg_limits blank_cfg)\<lparr>cmd_timeout := sv_cmd_tmo srv, data_timeout := sv_data_tmo srv\<rparr>\<rparr>"

definition deliver_cfg_internal :: "OutboxServer \<Rightarrow> Config" where
  "deliver_cfg_internal srv =
     blank_cfg\<lparr>cfg_hostname := ob_hostname (sv_cfg srv),
       cfg_relay := (cfg_relay blank_cfg)\<lparr>relay_tls := ob_internal_tls (sv_cfg srv),
         relay_auth := \<lparr>auth_enabled = (ob_internal_user (sv_cfg srv) \<noteq> []), auth_username = ob_internal_user (sv_cfg srv),
           auth_password = ob_internal_pass (sv_cfg srv)\<rparr>\<rparr>,
       cfg_limits := (cfg_limits blank_cfg)\<lparr>cmd_timeout := sv_cmd_tmo srv, data_timeout := sv_data_tmo srv\<rparr>\<rparr>"

text \<open>The start-up check of the internal relay's TLS mode (fail-closed).\<close>

definition internal_tls_ok :: "OutboxConfig \<Rightarrow> bool" where
  "internal_tls_ok cfg \<longleftrightarrow> ob_internal_host cfg = [] \<or> smtp_tls_valid (ob_internal_tls cfg)"

section \<open>Routes\<close>

definition mx_cache_get :: "'w DeliverEnv \<Rightarrow> string \<Rightarrow> ('w Worker, string list option) state" where
  "mx_cache_get E dm = do {
     now \<leftarrow> k_io (d_time E);
     cache \<leftarrow> gets k_cache;
     return (map_option mx_ips (find (\<lambda>e. mx_domain e \<noteq> [] \<and> \<not> now - mx_filled e > DELIVER_MX_CACHE_TTL \<and> mx_domain e = dm) cache))
   }"

definition mx_cache_put :: "'w DeliverEnv \<Rightarrow> string \<Rightarrow> string list \<Rightarrow> ('w Worker, unit) state" where
  "mx_cache_put E dm ips =
     (if dm = [] \<or> length dm \<ge> 256 then return ()
      else do {
        i \<leftarrow> gets k_cache_next;
        modify (\<lambda>s. s\<lparr>k_cache_next := (i + 1) mod DELIVER_MX_CACHE_SLOTS\<rparr>);
        now \<leftarrow> k_io (d_time E);
        modify (\<lambda>s. s\<lparr>k_cache := (k_cache s)[i := \<lparr>mx_domain = dm, mx_filled = now, mx_ips = ips\<rparr>]\<rparr>)
      })"

text \<open>The addresses of one host, as text, appended while there is room for another target.\<close>

fun add_targets :: "'w DeliverEnv \<Rightarrow> string list \<Rightarrow> string list \<Rightarrow> string list" where
  "add_targets E ips [] = ips"
| "add_targets E ips (a # as) =
     (if length ips < DELIVER_MAX_TARGETS then
        add_targets E
          (case (if length a = 4 then d_ntop4 E a else if length a = 16 then d_ntop6 E a else None) of None \<Rightarrow> ips | Some t \<Rightarrow> ips @ [t])
          as
      else ips)"

fun mx_targets :: "'w DeliverEnv \<Rightarrow> string list \<Rightarrow> string list \<Rightarrow> ('w Worker, string list) state" where
  "mx_targets E ips [] = return ips"
| "mx_targets E ips (host # hosts) = do {
     r \<leftarrow> k_io (d_addr E host);
     mx_targets E (case r of None \<Rightarrow> ips | Some as \<Rightarrow> add_targets E ips as) hosts
   }"

definition deliver_resolve :: "'w DeliverEnv \<Rightarrow> string \<Rightarrow> ('w Worker, (smtp_status \<times> string) + string list) state" where
  "deliver_resolve E dm = do {
     c \<leftarrow> mx_cache_get E dm;
     case c of
       Some ips \<Rightarrow> return (Inr ips)
     | None \<Rightarrow> do {
         mx \<leftarrow> k_io (d_mx E dm);
         case mx of
           None \<Rightarrow> return (Inl (SMTP_TEMPFAIL, ''DNS MX query failed''))
         | Some hosts \<Rightarrow>
             if hosts \<noteq> [] then do {
               ips \<leftarrow> mx_targets E [] hosts;
               if ips = [] then return (Inl (SMTP_TEMPFAIL, ''MX hosts present but none resolved to an address''))
               else do { mx_cache_put E dm ips; return (Inr ips) }
             }
             else do {
               r \<leftarrow> k_io (d_addr E dm);
               case r of
                 None \<Rightarrow> return (Inl (SMTP_TEMPFAIL, ''DNS A/AAAA query failed''))
               | Some as \<Rightarrow>
                   let ips = add_targets E [] as in
                   if ips = [] then return (Inl (SMTP_PERMFAIL, ''no MX and no A/AAAA record''))
                   else do { mx_cache_put E dm ips; return (Inr ips) }
             }
       }
   }"

section \<open>One attempt\<close>

text \<open>A call of the relay client from the worker: a fresh connection, the process-wide TLS state of the worker.\<close>

definition send_host :: "'w DeliverEnv \<Rightarrow> nat \<Rightarrow> Config \<Rightarrow> string \<Rightarrow> u32 \<Rightarrow> string \<Rightarrow> string \<Rightarrow> string \<Rightarrow> ('w Worker, smtp_status \<times> string) state" where
  "send_host E n cfg host port from rcpt msg = State (\<lambda>s.
     case run_state (smtp_out_send_host (d_relay E) n cfg host port from rcpt msg)
       \<lparr>r_conn = smtp_conn_init (-1), r_status = [], r_status_sz = 512, r_tls = k_tls s, r_world = k_world s, r_stalled = False\<rparr> of
     (rc, r) \<Rightarrow> ((rc, r_status r), s\<lparr>k_tls := r_tls r, k_world := r_world r, k_stalled := k_stalled s \<or> r_stalled r\<rparr>))"

definition deliver_internal :: "'w DeliverEnv \<Rightarrow> nat \<Rightarrow> OutboxServer \<Rightarrow> string \<Rightarrow> string \<Rightarrow> string \<Rightarrow> ('w Worker, smtp_status \<times> string) state" where
  "deliver_internal E n srv from rcpt msg =
     send_host E n (deliver_cfg_internal srv) (ob_internal_host (sv_cfg srv)) (ob_internal_port (sv_cfg srv)) from rcpt msg"

definition deliver_recipient :: "'w DeliverEnv \<Rightarrow> nat \<Rightarrow> OutboxServer \<Rightarrow> string \<Rightarrow> string \<Rightarrow> string \<Rightarrow> u32 \<Rightarrow> ('w Worker, smtp_status \<times> string) state" where
  "deliver_recipient E n srv from rcpt msg attempt =
     (case outbox_addr_domain rcpt 256 of
        None \<Rightarrow> return (SMTP_PERMFAIL, ''invalid recipient address'')
      | Some dm \<Rightarrow>
          if ob_internal_host (sv_cfg srv) \<noteq> [] \<and> outbox_domain_internal (sv_cfg srv) dm then deliver_internal E n srv from rcpt msg
          else do {
            r \<leftarrow> deliver_resolve E dm;
            case r of
              Inl fail \<Rightarrow> return fail
            | Inr ips \<Rightarrow> send_host E n (deliver_cfg srv) (ips ! (unat (attempt - 1) mod length ips)) (ob_deliver_port (sv_cfg srv)) from rcpt msg
          })"

section \<open>One pass over a job, and the worker\<close>

definition max_attempts :: "OutboxServer \<Rightarrow> u32" where
  "max_attempts srv = (if ob_max_attempts (sv_cfg srv) \<noteq> 0 then ob_max_attempts (sv_cfg srv) else OUTBOX_DEFAULT_MAX_ATTEMPTS)"

definition log_line :: "string \<Rightarrow> string \<Rightarrow> string \<Rightarrow> ('w Worker, unit) state" where
  "log_line from rcpt status = modify (\<lambda>s. s\<lparr>k_log := k_log s @ [(if from = [] then ''<>'' else from, rcpt, status)]\<rparr>)"

text \<open>The loop over the recipients, with their marks: the new marks, and how many remain to be retried.\<close>

fun job_pass :: "'w DeliverEnv \<Rightarrow> nat \<Rightarrow> OutboxServer \<Rightarrow> OutboxDeliveryJob \<Rightarrow> (string \<times> bool) list \<Rightarrow> ('w Worker, bool list \<times> nat) state" where
  "job_pass E n srv job [] = return ([], 0)"
| "job_pass E n srv job ((rcpt, fin) # rest) =
     (if fin then do {
        (fs, pending) \<leftarrow> job_pass E n srv job rest;
        return (True # fs, pending)
      }
      else do {
        (rc, status) \<leftarrow> deliver_recipient E n srv (j_from job) rcpt (j_msg job) (j_attempt job);
        if rc = SMTP_OK \<or> rc = SMTP_PERMFAIL then do {
          log_line (j_from job) rcpt status;
          (fs, pending) \<leftarrow> job_pass E n srv job rest;
          return (True # fs, pending)
        }
        else if j_attempt job \<ge> max_attempts srv then do {
          log_line (j_from job) rcpt (''temporary failure after '' @ dec_of_nat (unat (max_attempts srv)) @ '' attempts'');
          (fs, pending) \<leftarrow> job_pass E n srv job rest;
          return (True # fs, pending)
        }
        else do {
          (fs, pending) \<leftarrow> job_pass E n srv job rest;
          return (False # fs, pending + 1)
        }
      })"

text \<open>\<open>True\<close> is the return value 1: the job must be retried.\<close>

definition job_deliver :: "'w DeliverEnv \<Rightarrow> nat \<Rightarrow> OutboxServer \<Rightarrow> OutboxDeliveryJob \<Rightarrow> ('w Worker, bool \<times> OutboxDeliveryJob) state" where
  "job_deliver E n srv job = do {
     (fs, pending) \<leftarrow> job_pass E n srv job (zip (j_rcpts job) (j_done job));
     let job = job\<lparr>j_done := fs\<rparr>;
     if pending = 0 then return (False, job)
     else do {
       let attempt = j_attempt job + 1;
       now \<leftarrow> k_io (d_time E);
       return (True, job\<lparr>j_attempt := attempt, j_due := now + int (unat (smtp_backoff_sec attempt))\<rparr>)
     }
   }"

text \<open>
  The worker loop on a queue that no other thread changes, for at most \<open>fuel\<close> turns. It ends because the queue was shut
  down and is drained (\<open>True\<close>), or it sleeps (\<open>False\<close>): until it is signalled, or until the next due time.
\<close>

fun outbox_delivery_worker :: "'w DeliverEnv \<Rightarrow> nat \<Rightarrow> OutboxServer \<Rightarrow> nat \<Rightarrow> OutboxDeliveryQueue \<Rightarrow> ('w Worker, bool \<times> OutboxDeliveryQueue) state" where
  "outbox_delivery_worker E n srv 0 q = return (False, q)"
| "outbox_delivery_worker E n srv (Suc fuel) q = do {
     now \<leftarrow> k_io (d_time E);
     case worker_take q now of
       Pick_exit \<Rightarrow> return (True, q)
     | Pick_wait \<Rightarrow> return (False, q)
     | Pick_wait_until due \<Rightarrow> return (False, q)
     | Pick_job job q' \<Rightarrow> do {
         (again, job') \<leftarrow> job_deliver E n srv job;
         outbox_delivery_worker E n srv fuel (if again then queue_reappend q' job' else q')
       }
   }"

end
