(* ===== verification/Outbox_Deliver_Proofs.thy ===== *)
theory Outbox_Deliver_Proofs
  imports Outbox_Deliver Outbox_Submit_Proofs Smtp_Relay_Proofs "HOL-Library.Multiset"
begin

text \<open>
  The delivery queue between the poll thread and the worker, as a step relation that interleaves the two: what is in the queue
  is accounted for, nothing that was accepted is lost, every recipient is reported exactly once, the
  caps hold, and after shutdown the worker drains the queue and ends.
\<close>

section \<open>One pass\<close>

definition sender_name :: "OutboxDeliveryJob \<Rightarrow> string" where
  "sender_name job = (if j_from job = [] then ''<>'' else j_from job)"

text \<open>The reports a pass writes, without their texts: one for each recipient that it finishes.\<close>

definition reports :: "'w Worker \<Rightarrow> (string \<times> string) list" where
  "reports w = map (\<lambda>(f, r, _). (f, r)) (k_log w)"

fun newly :: "OutboxDeliveryJob \<Rightarrow> (string \<times> bool) list \<Rightarrow> bool list \<Rightarrow> (string \<times> string) list" where
  "newly job ((r, was) # rs) (f # fs) = (if \<not> was \<and> f then [(sender_name job, r)] else []) @ newly job rs fs"
| "newly job _ _ = []"

lemma reports_log [simp]: "reports (exec (log_line f r st) w) = reports w @ [(if f = [] then ''<>'' else f, r)]"
  by (simp add: reports_def log_line_def)

definition hush :: "'w Worker \<Rightarrow> 'w Worker \<Rightarrow> bool" where
  "hush s t \<longleftrightarrow> k_log t = k_log s"

interpretation hush: state_preorder hush
  by unfold_locales (auto simp: hush_def)

lemma hush_io: "state_io_rel hush (k_io f)" "state_io_rel hush (modify (\<lambda>s. s\<lparr>k_cache := f1 s\<rparr>))" "state_io_rel hush (modify (\<lambda>s. s\<lparr>k_cache_next := f2 s\<rparr>))"
  "state_io_rel hush (send_host E n cfg host port from rcpt msg)"
  by (simp_all add: state_io_rel_def hush_def send_host_def split_beta)

lemma hush_resolve: "state_io_rel hush (deliver_resolve E dm)"
proof -
  have "state_io_rel hush (mx_targets E ips hosts)" for ips hosts
    by (induction hosts arbitrary: ips) (auto intro!: hush_io)
  then show ?thesis
    unfolding deliver_resolve_def mx_cache_get_def mx_cache_put_def Let_def by (auto intro!: hush_io split: option.split)
qed

lemma hush_recipient: "state_io_rel hush (deliver_recipient E n srv from rcpt msg attempt)"
  unfolding deliver_recipient_def deliver_internal_def by (auto intro!: hush_io hush_resolve split: option.split sum.split)

lemma recipient_reports: "reports (exec (deliver_recipient E n srv f rcpt msg attempt) s) = reports s"
  using hush.io_apply [OF hush_recipient, of s E n srv f rcpt msg attempt] by (simp add: hush_def reports_def)

definition pass_ok :: "OutboxServer \<Rightarrow> OutboxDeliveryJob \<Rightarrow> (string \<times> bool) list \<Rightarrow> 'w Worker \<Rightarrow> bool list \<times> nat \<Rightarrow> 'w Worker \<Rightarrow> bool" where
  "pass_ok srv job rs s r s' \<longleftrightarrow>
     list_all2 (\<lambda>r f. snd r \<longrightarrow> f) rs (fst r) \<and> snd r = length (filter Not (fst r)) \<and>
     (j_attempt job \<ge> max_attempts srv \<longrightarrow> snd r = 0) \<and> reports s' = reports s @ newly job rs (fst r)"

lemma job_pass_ok: "pass_ok srv job rs s (eval (job_pass E n srv job rs) s) (exec (job_pass E n srv job rs) s)"
proof (induction rs arbitrary: s)
  case Nil
  then show ?case by (simp add: pass_ok_def)
next
  case (Cons r rs)
  obtain rcpt fin where r: "r = (rcpt, fin)" by force
  let ?d = "deliver_recipient E n srv (j_from job) rcpt (j_msg job) (j_attempt job)"
  obtain rc status where d: "eval ?d s = (rc, status)" by force
  consider (was) fin | (over) "\<not> fin" "rc = SMTP_OK \<or> rc = SMTP_PERMFAIL \<or> j_attempt job \<ge> max_attempts srv"
    | (again) "\<not> fin" "\<not> (rc = SMTP_OK \<or> rc = SMTP_PERMFAIL)" "\<not> j_attempt job \<ge> max_attempts srv" by blast
  then show ?case
  proof cases
    case was
    then show ?thesis using Cons.IH [of s] unfolding r by (auto simp: pass_ok_def split_beta)
  next
    case over
    let ?m = "if rc = SMTP_OK \<or> rc = SMTP_PERMFAIL then status else ''temporary failure after '' @ dec_of_nat (unat (max_attempts srv)) @ '' attempts''"
    obtain msg1 where "msg1 = ?m" and e: "run_state (job_pass E n srv job (r # rs)) s =
      run_state (log_line (j_from job) rcpt msg1 \<bind> (\<lambda>_. job_pass E n srv job rs \<bind> (\<lambda>(fs, pending). return (True # fs, pending)))) (exec ?d s)"
      using over d unfolding r by (cases "rc = SMTP_OK \<or> rc = SMTP_PERMFAIL") auto
    show ?thesis
      unfolding e using Cons.IH [of "exec (log_line (j_from job) rcpt msg1) (exec ?d s)"] over(1)
      by (auto simp: r pass_ok_def split_beta sender_name_def recipient_reports)
  next
    case again
    then show ?thesis using Cons.IH [of "exec ?d s"] d unfolding r
      by (simp add: pass_ok_def split_beta recipient_reports)
  qed
qed

section \<open>One job\<close>

definition envelope :: "OutboxDeliveryJob \<Rightarrow> string \<times> string list \<times> string" where
  "envelope job = (j_from job, j_rcpts job, j_msg job)"

definition finished :: "OutboxDeliveryJob \<Rightarrow> (string \<times> string) multiset" where
  "finished job = mset (map (\<lambda>(r, f). (sender_name job, r)) (filter snd (zip (j_rcpts job) (j_done job))))"

definition job_ok :: "OutboxServer \<Rightarrow> OutboxDeliveryJob \<Rightarrow> bool" where
  "job_ok srv job \<longleftrightarrow> length (j_done job) = length (j_rcpts job) \<and> 1 \<le> j_attempt job \<and> j_attempt job \<le> max_attempts srv"

lemma max_attempts_pos: "1 \<le> max_attempts srv"
  by (auto simp: max_attempts_def OUTBOX_DEFAULT_MAX_ATTEMPTS_def word_le_nat_alt unat_eq_zero Suc_le_eq unat_gt_0)

lemma new_job_ok: "job_ok srv (new_job f rs m)" "finished (new_job f rs m) = {#}" "envelope (new_job f rs m) = (f, rs, m)"
proof -
  have "filter snd (zip rs (replicate (length rs) False)) = []" by (induction rs) auto
  then show "finished (new_job f rs m) = {#}" by (simp add: finished_def new_job_def)
qed (simp_all add: job_ok_def new_job_def max_attempts_pos envelope_def)

lemma newly_finished:
  "list_all2 (\<lambda>r f. snd r \<longrightarrow> f) rs fs \<Longrightarrow>
   mset (newly job rs fs) + mset (map (\<lambda>(r, f). (sender_name job, r)) (filter snd rs)) =
   mset (map (\<lambda>(r, f). (sender_name job, r)) (filter snd (zip (map fst rs) fs)))"
  by (induction rs fs rule: list_all2_induct) auto

lemma less_next_nonzero: "(m :: u32) < k \<Longrightarrow> m + 1 \<noteq> 0"
  by (auto simp: eq_neg_iff_add_eq_0 [symmetric])

lemma job_deliver_ok:
  assumes "job_ok srv job" "run_state (job_deliver E n srv job) s = ((again, job'), s')"
  shows "envelope job' = envelope job" "job_ok srv job'" "again \<longleftrightarrow> False \<in> set (j_done job')"
    "again \<longrightarrow> unat (j_attempt job') = unat (j_attempt job) + 1"
    "mset (reports s') + finished job = mset (reports s) + finished job'"
proof -
  let ?rs = "zip (j_rcpts job) (j_done job)"
  obtain fs pending s1 where p: "run_state (job_pass E n srv job ?rs) s = ((fs, pending), s1)" by (metis prod.exhaust)
  have ok: "pass_ok srv job ?rs s (fs, pending) s1" using job_pass_ok [of srv job ?rs s E n] p by simp
  have len: "length fs = length (j_rcpts job)" using ok assms(1) by (auto simp: pass_ok_def job_ok_def dest: list_all2_lengthD)
  have z: "map fst ?rs = j_rcpts job" using assms(1) by (simp add: job_ok_def)
  have "filter Not fs = [] \<longleftrightarrow> False \<notin> set fs" by (induction fs) auto
  then have more: "pending = 0 \<longleftrightarrow> False \<notin> set fs" using ok by (auto simp: pass_ok_def)
  have room: "pending \<noteq> 0 \<Longrightarrow> j_attempt job < max_attempts srv" using ok by (auto simp: pass_ok_def not_le)
  then have suc: "pending \<noteq> 0 \<Longrightarrow> unat (j_attempt job + 1) = unat (j_attempt job) + 1"
    using u32_Suc less_next_nonzero by blast
  have r: "again = (pending \<noteq> 0)" "reports s' = reports s1" "j_done job' = fs" "envelope job' = envelope job" "sender_name job' = sender_name job"
    "j_rcpts job' = j_rcpts job" "j_attempt job' = (if again then j_attempt job + 1 else j_attempt job)"
    using assms(2) p by (auto simp: job_deliver_def Let_def envelope_def sender_name_def reports_def split: if_splits)
  show "envelope job' = envelope job" by (rule r)
  show "again \<longleftrightarrow> False \<in> set (j_done job')" using r more by simp
  show att: "again \<longrightarrow> unat (j_attempt job') = unat (j_attempt job) + 1" using r suc by simp
  show "job_ok srv job'"
    using assms(1) r len room suc by (auto simp: job_ok_def word_le_nat_alt word_less_nat_alt)
  show "mset (reports s') + finished job = mset (reports s) + finished job'"
    using ok newly_finished [of ?rs fs job] r z unfolding pass_ok_def finished_def by simp
qed

section \<open>The two threads\<close>

text \<open>
  The state the two threads share, the job the worker holds, the worker's own state; and, as history, the jobs admitted
  and the jobs freed. A step is one critical section of the queue or one pass of the worker over its job; in between the world may
  change in any way.
\<close>

record 'w Delivery =
  y_queue :: OutboxDeliveryQueue
  y_cur :: "OutboxDeliveryJob option"
  y_worker :: "'w Worker"
  y_in :: "OutboxDeliveryJob list"
  y_out :: "OutboxDeliveryJob list"

inductive delivery_step :: "'w DeliverEnv \<Rightarrow> nat \<Rightarrow> OutboxServer \<Rightarrow> 'w Delivery \<Rightarrow> 'w Delivery \<Rightarrow> bool" for E n srv where
  submit: "outbox_delivery_enqueue (y_queue d) f rs m = (r, q) \<Longrightarrow>
    delivery_step E n srv d (d\<lparr>y_queue := q, y_in := (if r = Enq_ok then y_in d @ [new_job f rs m] else y_in d)\<rparr>)"
| shutdown: "delivery_step E n srv d (d\<lparr>y_queue := outbox_delivery_shutdown (y_queue d)\<rparr>)"
| take: "y_cur d = None \<Longrightarrow> worker_take (y_queue d) now = Pick_job job q \<Longrightarrow>
    delivery_step E n srv d (d\<lparr>y_queue := q, y_cur := Some job\<rparr>)"
| deliver: "y_cur d = Some job \<Longrightarrow> run_state (job_deliver E n srv job) (y_worker d) = ((again, job'), w) \<Longrightarrow>
    delivery_step E n srv d (d\<lparr>y_cur := None, y_worker := w,
      y_queue := (if again then queue_reappend (y_queue d) job' else y_queue d), y_out := (if again then y_out d else y_out d @ [job'])\<rparr>)"
| world: "delivery_step E n srv d (d\<lparr>y_worker := (y_worker d)\<lparr>k_world := w\<rparr>\<rparr>)"

inductive delivery_reachable :: "'w DeliverEnv \<Rightarrow> nat \<Rightarrow> OutboxServer \<Rightarrow> 'w Delivery \<Rightarrow> 'w Delivery \<Rightarrow> bool" for E n srv d0 where
  start: "delivery_reachable E n srv d0 d0"
| step: "delivery_reachable E n srv d0 d \<Longrightarrow> delivery_step E n srv d d' \<Longrightarrow> delivery_reachable E n srv d0 d'"

definition delivery_init :: "nat \<Rightarrow> nat \<Rightarrow> 'w \<Rightarrow> 'w Delivery" where
  "delivery_init jobs size_cap w =
     \<lparr>y_queue = outbox_delivery_queue_init\<lparr>q_max_jobs := jobs, q_max_bytes := size_cap\<rparr>, y_cur = None, y_worker = worker_init w, y_in = [], y_out = []\<rparr>"

definition held :: "'w Delivery \<Rightarrow> OutboxDeliveryJob list" where
  "held d = (case y_cur d of None \<Rightarrow> [] | Some j \<Rightarrow> [j])"

definition alive :: "'w Delivery \<Rightarrow> OutboxDeliveryJob list" where
  "alive d = held d @ q_jobs (y_queue d)"

definition weight :: "OutboxDeliveryJob list \<Rightarrow> nat" where
  "weight js = sum_list (map (\<lambda>j. length (j_msg j)) js)"

lemma weight_simps [simp]: "weight [] = 0" "weight (j # js) = length (j_msg j) + weight js" "weight (js @ ks) = weight js + weight ks"
  by (simp_all add: weight_def)

text \<open>The two conservation laws and the accounting of the queue.\<close>

definition delivery_ok :: "OutboxServer \<Rightarrow> 'w Delivery \<Rightarrow> bool" where
  "delivery_ok srv d \<longleftrightarrow>
     q_njobs (y_queue d) = length (q_jobs (y_queue d)) \<and> q_bytes (y_queue d) = weight (q_jobs (y_queue d)) \<and>
     (\<forall>j \<in> set (alive d @ y_out d). job_ok srv j) \<and> (\<forall>j \<in> set (y_out d). False \<notin> set (j_done j)) \<and>
     mset (map envelope (y_in d)) = mset (map envelope (alive d @ y_out d)) \<and>
     mset (reports (y_worker d)) = \<Sum>\<^sub># (mset (map finished (alive d @ y_out d)))"

lemma pick_due_split: "pick_due shut now nd js = Inr (job, rest) \<Longrightarrow> mset js = add_mset job (mset rest)"
  by (induction js arbitrary: nd rest) (auto split: if_splits sum.splits)

lemma weight_mset: "weight js = sum_mset (image_mset (\<lambda>j. length (j_msg j)) (mset js))"
  by (simp add: weight_def flip: sum_mset_sum_list)

lemma worker_take_job:
  assumes "worker_take q now = Pick_job job q'"
  shows "mset (q_jobs q) = add_mset job (mset (q_jobs q'))" "weight (q_jobs q) = length (j_msg job) + weight (q_jobs q')"
    "length (q_jobs q) = Suc (length (q_jobs q'))" "q_njobs q' = q_njobs q - 1" "q_bytes q' = q_bytes q - length (j_msg job)"
    "q_max_jobs q' = q_max_jobs q" "q_max_bytes q' = q_max_bytes q" "q_shutdown q' = q_shutdown q"
proof -
  show m: "mset (q_jobs q) = add_mset job (mset (q_jobs q'))"
    using assms pick_due_split [of "q_shutdown q" now 0 "q_jobs q"] by (auto simp: worker_take_def split: sum.splits if_splits)
  then show "weight (q_jobs q) = length (j_msg job) + weight (q_jobs q')" by (simp add: weight_mset)
  show "length (q_jobs q) = Suc (length (q_jobs q'))" using m by (metis size_add_mset size_mset)
qed (use assms in \<open>auto simp: worker_take_def split: sum.splits if_splits\<close>)

lemma take_alive:
  assumes "y_cur d = None" "worker_take (y_queue d) now = Pick_job job q"
  shows "mset (alive (d\<lparr>y_queue := q, y_cur := Some job\<rparr>)) = mset (alive d)"
  using worker_take_job(1) [OF assms(2)] assms(1) by (simp add: alive_def held_def)

lemma delivery_ok_step: "delivery_step E n srv d d' \<Longrightarrow> delivery_ok srv d \<Longrightarrow> delivery_ok srv d'"
proof (induction rule: delivery_step.induct)
  case (submit d f rs m r q)
  then show ?case
    by (auto simp: delivery_ok_def alive_def held_def outbox_delivery_enqueue_def queue_append_def new_job_ok Let_def split: if_splits option.splits)
next
  case (shutdown d)
  then show ?case by (simp add: delivery_ok_def alive_def held_def outbox_delivery_shutdown_def)
next
  case (take d now job q)
  let ?d = "d\<lparr>y_queue := q, y_cur := Some job\<rparr>"
  have a: "mset (alive ?d) = mset (alive d)" by (rule take_alive [OF take(1,2)])
  then have "set (alive ?d) = set (alive d)" by (metis set_mset_mset)
  then show ?case using take(3) worker_take_job [OF take(2)] by (simp add: delivery_ok_def a)
next
  case (deliver d job again job' w)
  have ok: "job_ok srv job" using deliver(1,3) by (simp add: delivery_ok_def alive_def held_def)
  note j = job_deliver_ok [OF ok deliver(2)]
  have len: "length (j_msg job') = length (j_msg job)" using j(1) by (simp add: envelope_def)
  let ?rest = "\<Sum>\<^sub># (mset (map finished (q_jobs (y_queue d) @ y_out d)))"
  have "mset (reports w) + finished job = finished job + ?rest + finished job'"
    using j(5) deliver(1,3) by (simp add: delivery_ok_def alive_def held_def ac_simps)
  then have "mset (reports w) = ?rest + finished job'" by (simp add: ac_simps)
  then show ?case using deliver(1,3) j(1-3) len
    by (cases again) (auto simp: delivery_ok_def alive_def held_def queue_reappend_def queue_append_def ac_simps)
next
  case (world d w)
  then show ?case by (simp add: delivery_ok_def alive_def held_def reports_def)
qed

lemma delivery_ok_init: "delivery_ok srv (delivery_init jobs size_cap w)"
  by (simp add: delivery_ok_def delivery_init_def alive_def held_def outbox_delivery_queue_init_def reports_def worker_init_def)

lemma delivery_ok_reachable: "delivery_reachable E n srv d0 d \<Longrightarrow> delivery_ok srv d0 \<Longrightarrow> delivery_ok srv d"
  by (induction rule: delivery_reachable.induct) (auto intro: delivery_ok_step)

text \<open>
  C3. Accepted mail is neither lost nor duplicated in the queue. In every state that the poll thread and the worker can
  reach together, in any interleaving of submissions, shutdown, the worker's turns and changes of the world: the envelopes and
  messages admitted are, counted with multiplicity, those of the job in the worker's hands, the queued jobs and
  the jobs freed; every freed job has a final outcome for each of its recipients; the worker's reports are exactly one per
  finished recipient; no job has been tried more often than configured; and the counters of the queue are exact.
\<close>

theorem delivery_conserves:
  assumes "delivery_reachable E n srv (delivery_init jobs size_cap w) d"
  shows "mset (map envelope (y_in d)) = mset (map envelope (alive d @ y_out d)) \<and>
    (\<forall>j \<in> set (y_out d). length (j_done j) = length (j_rcpts j) \<and> False \<notin> set (j_done j)) \<and>
    mset (reports (y_worker d)) = \<Sum>\<^sub># (mset (map finished (alive d @ y_out d))) \<and>
    (\<forall>j \<in> set (alive d @ y_out d). j_attempt j \<le> max_attempts srv) \<and>
    q_njobs (y_queue d) = length (q_jobs (y_queue d)) \<and> q_bytes (y_queue d) = weight (q_jobs (y_queue d))"
proof -
  have "delivery_ok srv d" using delivery_ok_reachable [OF assms delivery_ok_init] .
  then show ?thesis unfolding delivery_ok_def job_ok_def by auto
qed

section \<open>A run of the two threads\<close>

text \<open>One message, submitted, taken by the worker and delivered to a scripted host.\<close>

definition demo_deliver :: "string list DeliverEnv" where
  "demo_deliver =
     \<lparr>d_time = \<lambda>w. (100, w), d_mx = \<lambda>dm w. (Some [''mx''], w), d_addr = \<lambda>h w. (Some [[CHR 0x0A, NUL, NUL, CHR 0x09]], w),
      d_ntop4 = \<lambda>a. Some ''10.0.0.9'', d_ntop6 = \<lambda>a. None, d_relay = script_relay\<rparr>"

definition demo_job :: OutboxDeliveryJob where
  "demo_job = new_job ''ann@ex.org'' [''bob@far.net''] (''hi'' @ CRLF)"

definition demo_run :: "OutboxDeliveryJob \<times> string list Worker" where
  "demo_run = (case run_state (job_deliver demo_deliver 3 demo_srv demo_job) (worker_init plain_script) of ((again, job), w) \<Rightarrow> (job, w))"

definition demo_submitted :: "string list Delivery" where
  "demo_submitted = (let d = delivery_init 2 100 plain_script in
     d\<lparr>y_queue := queue_append (y_queue d) demo_job, y_in := [demo_job]\<rparr>)"

definition demo_delivered :: "string list Delivery" where
  "demo_delivered = (delivery_init 2 100 plain_script)\<lparr>y_in := [demo_job], y_out := [fst demo_run], y_worker := snd demo_run\<rparr>"

lemma demo_deliver_run: "eval (job_deliver demo_deliver 3 demo_srv demo_job) (worker_init plain_script) = (False, demo_job\<lparr>j_done := [True]\<rparr>)"
  by code_simp

lemma demo_reachable: "delivery_reachable demo_deliver 3 demo_srv (delivery_init 2 100 plain_script) demo_submitted"
  "delivery_reachable demo_deliver 3 demo_srv (delivery_init 2 100 plain_script) demo_delivered"
proof -
  let ?d0 = "delivery_init 2 100 plain_script" and ?R = "delivery_reachable demo_deliver 3 demo_srv (delivery_init 2 100 plain_script)"
  let ?d2 = "?d0\<lparr>y_cur := Some demo_job, y_in := [demo_job]\<rparr>"
  have e: "outbox_delivery_enqueue (y_queue ?d0) ''ann@ex.org'' [''bob@far.net''] (''hi'' @ CRLF) = (Enq_ok, queue_append (y_queue ?d0) demo_job)"
    by (simp add: outbox_delivery_enqueue_def delivery_init_def outbox_delivery_queue_init_def demo_job_def new_job_def)
  have "delivery_step demo_deliver 3 demo_srv ?d0 demo_submitted"
    using delivery_step.submit [OF e, of demo_deliver 3 demo_srv] by (simp add: demo_submitted_def demo_job_def delivery_init_def Let_def)
  then show 1: "?R demo_submitted" using delivery_reachable.start delivery_reachable.step by metis
  have t: "worker_take (y_queue demo_submitted) 100 = Pick_job demo_job (y_queue ?d0)"
    by (simp add: worker_take_def demo_submitted_def delivery_init_def outbox_delivery_queue_init_def queue_append_def demo_job_def new_job_def Let_def)
  have "y_cur demo_submitted = None" by (simp add: demo_submitted_def delivery_init_def Let_def)
  from delivery_step.take [OF this t, of demo_deliver 3 demo_srv]
  have "delivery_step demo_deliver 3 demo_srv demo_submitted ?d2" by (simp add: demo_submitted_def delivery_init_def Let_def)
  then have 2: "?R ?d2" using 1 delivery_reachable.step by metis
  have d: "run_state (job_deliver demo_deliver 3 demo_srv demo_job) (y_worker ?d2) = ((False, fst demo_run), snd demo_run)"
    by (simp add: demo_run_def split_beta delivery_init_def prod_eq_iff demo_deliver_run)
  from delivery_step.deliver [OF _ d]
  have "delivery_step demo_deliver 3 demo_srv ?d2 demo_delivered" by (simp add: demo_delivered_def delivery_init_def)
  then show "?R demo_delivered" using 2 delivery_reachable.step by metis
qed

theorem delivery_conserves_witness:
  "delivery_reachable demo_deliver 3 demo_srv (delivery_init 2 100 plain_script) demo_delivered \<and>
   y_out demo_delivered = [demo_job\<lparr>j_done := [True]\<rparr>] \<and>
   mset (reports (y_worker demo_delivered)) = {#(''ann@ex.org'', ''bob@far.net'')#}"
proof -
  have o: "y_out demo_delivered = [demo_job\<lparr>j_done := [True]\<rparr>]" by (simp add: demo_delivered_def demo_run_def split_beta demo_deliver_run)
  have "mset (reports (y_worker demo_delivered)) = \<Sum>\<^sub># (mset (map finished (alive demo_delivered @ y_out demo_delivered)))"
    using delivery_conserves [OF demo_reachable(2)] by blast
  moreover have "alive demo_delivered = []"
    by (simp add: demo_delivered_def alive_def held_def delivery_init_def outbox_delivery_queue_init_def)
  ultimately have "mset (reports (y_worker demo_delivered)) = {#(''ann@ex.org'', ''bob@far.net'')#}"
    unfolding o by (simp add: finished_def demo_job_def new_job_def sender_name_def)
  then show ?thesis using demo_reachable(2) o by blast
qed

section \<open>The caps\<close>

definition caps_ok :: "'w Delivery \<Rightarrow> bool" where
  "caps_ok d \<longleftrightarrow>
     (q_max_jobs (y_queue d) \<noteq> 0 \<longrightarrow> length (alive d) \<le> q_max_jobs (y_queue d) + 1) \<and>
     (q_max_bytes (y_queue d) \<noteq> 0 \<longrightarrow> (\<forall>j \<in> set (alive d). length (j_msg j) \<le> q_max_bytes (y_queue d)) \<and>
        weight (alive d) \<le> 2 * q_max_bytes (y_queue d))"

lemma enqueue_cases:
  assumes "outbox_delivery_enqueue q f rs m = (r, q')"
  obtains "q' = q" "r \<noteq> Enq_ok" | "r = Enq_ok" "q' = queue_append q (new_job f rs m)"
    "q_max_jobs q \<noteq> 0 \<longrightarrow> q_njobs q < q_max_jobs q" "q_max_bytes q \<noteq> 0 \<longrightarrow> q_bytes q + length m \<le> q_max_bytes q"
  using assms by (auto simp: outbox_delivery_enqueue_def Let_def new_job_def not_le split: if_splits)

lemma caps_submit:
  assumes "outbox_delivery_enqueue (y_queue d) f rs m = (r, q)" "delivery_ok srv d" "caps_ok d"
  shows "caps_ok (d\<lparr>y_queue := q, y_in := is\<rparr>) \<and> q_max_jobs q = q_max_jobs (y_queue d) \<and> q_max_bytes q = q_max_bytes (y_queue d)"
  using assms(1)
proof (cases rule: enqueue_cases)
  case 1
  then show ?thesis using assms(3) by (simp add: caps_ok_def alive_def held_def)
next
  case 2
  have h: "length (held d) \<le> 1" by (simp add: held_def split: option.split)
  have w: "weight (held d) \<le> q_max_bytes (y_queue d)" if "q_max_bytes (y_queue d) \<noteq> 0"
    using assms(3) that by (simp add: caps_ok_def alive_def held_def split: option.splits)
  have a: "alive (d\<lparr>y_queue := q, y_in := is\<rparr>) = alive d @ [new_job f rs m]"
    by (simp add: 2(2) alive_def held_def queue_append_def)
  have c: "length (alive d) = length (held d) + q_njobs (y_queue d)" "weight (alive d) = weight (held d) + q_bytes (y_queue d)"
    using assms(2) by (simp_all add: delivery_ok_def alive_def)
  show ?thesis using assms(3) 2(3,4) h w c unfolding caps_ok_def a
    by (auto simp: 2(2) queue_append_def new_job_def)
qed
lemma caps_step:
  assumes "delivery_step E n srv d d'" "delivery_ok srv d" "caps_ok d"
  shows "caps_ok d' \<and> q_max_jobs (y_queue d') = q_max_jobs (y_queue d) \<and> q_max_bytes (y_queue d') = q_max_bytes (y_queue d)"
  using assms
proof (induction rule: delivery_step.induct)
  case (submit d f rs m r q)
  then show ?case using caps_submit [OF submit(1-3)] by simp
next
  case (take d now job q)
  let ?d = "d\<lparr>y_queue := q, y_cur := Some job\<rparr>"
  have a: "mset (alive ?d) = mset (alive d)" by (rule take_alive [OF take(1,2)])
  then have "set (alive ?d) = set (alive d)" "length (alive ?d) = length (alive d)" "weight (alive ?d) = weight (alive d)"
    by (metis set_mset_mset, metis size_mset, metis weight_mset)
  then show ?case using take(4) worker_take_job(6,7) [OF take(2)] by (simp add: caps_ok_def)
next
  case (deliver d job again job' w)
  have ok: "job_ok srv job" using deliver(1,3) by (simp add: delivery_ok_def alive_def held_def)
  have "length (j_msg job') = length (j_msg job)" using job_deliver_ok(1) [OF ok deliver(2)] by (simp add: envelope_def)
  then show ?case using deliver(1,4) by (auto simp: caps_ok_def alive_def held_def queue_reappend_def queue_append_def)
qed (simp_all add: caps_ok_def alive_def held_def outbox_delivery_shutdown_def)



section \<open>Shutdown\<close>

definition turns :: "OutboxServer \<Rightarrow> OutboxDeliveryJob list \<Rightarrow> nat" where
  "turns srv js = sum_list (map (\<lambda>j. unat (max_attempts srv) + 1 - unat (j_attempt j)) js)"

definition everyone :: "OutboxDeliveryJob \<Rightarrow> (string \<times> string) multiset" where
  "everyone job = mset (map (\<lambda>r. (sender_name job, r)) (j_rcpts job))"

lemma everyone_envelope: "envelope j = envelope k \<Longrightarrow> everyone j = everyone k"
  by (simp add: envelope_def everyone_def sender_name_def)

lemma finished_everyone:
  assumes "length (j_done j) = length (j_rcpts j)" "False \<notin> set (j_done j)"
  shows "finished j = everyone j"
proof -
  have "\<forall>x \<in> set (zip (j_rcpts j) (j_done j)). snd x" using assms(2) by (metis (full_types) in_set_zipE prod.collapse)
  then have "filter snd (zip (j_rcpts j) (j_done j)) = zip (j_rcpts j) (j_done j)" by simp
  moreover have "map (\<lambda>(r, f). (sender_name j, r)) (zip (j_rcpts j) (j_done j)) = map (\<lambda>r. (sender_name j, r)) (map fst (zip (j_rcpts j) (j_done j)))"
    by (simp add: split_beta)
  ultimately show ?thesis using assms(1) by (simp add: finished_def everyone_def)
qed

lemma take_shutdown:
  "q_shutdown q \<Longrightarrow> worker_take q now = (case q_jobs q of [] \<Rightarrow> Pick_exit
     | j # js \<Rightarrow> Pick_job j (q\<lparr>q_jobs := js, q_njobs := q_njobs q - 1, q_bytes := q_bytes q - length (j_msg j)\<rparr>))"
  by (simp add: worker_take_def split: list.split)

lemma mset_exchange:
  fixes r :: "'a multiset"
  assumes "r' + a = r + a'" "x + f + a' = r' + e"
  shows "x + (a + f) = r + e"
proof -
  have "(x + (a + f)) + a' = (r + e) + a'" using assms by (metis add.assoc add.commute)
  then show ?thesis by (rule add_right_imp_eq)
qed

lemma worker_drain:
  "q_shutdown q \<Longrightarrow> \<forall>j \<in> set (q_jobs q). job_ok srv j \<Longrightarrow> turns srv (q_jobs q) < fuel \<Longrightarrow>
   let (r, s') = run_state (outbox_delivery_worker E n srv fuel q) s in
     fst r \<and> q_jobs (snd r) = [] \<and>
     mset (reports s') + \<Sum>\<^sub># (mset (map finished (q_jobs q))) = mset (reports s) + \<Sum>\<^sub># (mset (map everyone (q_jobs q)))"
proof (induction fuel arbitrary: q s)
  case (Suc fuel)
  let ?s1 = "exec (k_io (d_time E)) s"
  have r1: "reports ?s1 = reports s" by (simp add: reports_def)
  show ?case
  proof (cases "q_jobs q")
    case Nil
    then show ?thesis using Suc.prems(1) r1 by (simp add: take_shutdown)
  next
    case (Cons job js)
    let ?q1 = "q\<lparr>q_jobs := js, q_njobs := q_njobs q - 1, q_bytes := q_bytes q - length (j_msg job)\<rparr>"
    obtain again job' s2 where d: "run_state (job_deliver E n srv job) ?s1 = ((again, job'), s2)" by (metis prod.exhaust)
    have ok: "job_ok srv job" using Suc.prems(2) Cons by simp
    note j = job_deliver_ok [OF ok d]
    let ?q2 = "if again then queue_reappend ?q1 job' else ?q1"
    have run: "run_state (outbox_delivery_worker E n srv (Suc fuel) q) s = run_state (outbox_delivery_worker E n srv fuel ?q2) s2"
      using Suc.prems(1) Cons d by (simp add: take_shutdown)
    have jobs: "q_jobs ?q2 = js @ (if again then [job'] else [])" "q_shutdown ?q2" using Suc.prems(1)
      by (auto simp: queue_reappend_def queue_append_def)
    have "turns srv (q_jobs ?q2) < turns srv (q_jobs q)"
      using jobs(1) Cons ok j(2,4) by (auto simp: turns_def job_ok_def word_le_nat_alt)
    then have "turns srv (q_jobs ?q2) < fuel" using Suc.prems(3) by linarith
    moreover have "\<forall>j \<in> set (q_jobs ?q2). job_ok srv j" using jobs(1) Suc.prems(2) Cons j(2) by auto
    ultimately have ih: "let (r, s') = run_state (outbox_delivery_worker E n srv fuel ?q2) s2 in
      fst r \<and> q_jobs (snd r) = [] \<and>
      mset (reports s') + \<Sum>\<^sub># (mset (map finished (q_jobs ?q2))) = mset (reports s2) + \<Sum>\<^sub># (mset (map everyone (q_jobs ?q2)))"
      using Suc.IH [OF jobs(2)] by blast
    have ev: "everyone job' = everyone job" by (rule everyone_envelope [OF j(1)])
    have "\<not> again \<Longrightarrow> finished job' = everyone job'" using j(2,3) finished_everyone by (simp add: job_ok_def)
    then have "let (r, s') = run_state (outbox_delivery_worker E n srv fuel ?q2) s2 in
      fst r \<and> q_jobs (snd r) = [] \<and> mset (reports s') + \<Sum>\<^sub># (mset (map finished js)) + finished job' =
        mset (reports s2) + (everyone job + \<Sum>\<^sub># (mset (map everyone js)))"
      using ih ev unfolding jobs(1) by (cases again) (simp_all add: Let_def split_beta ac_simps)
    then show ?thesis using mset_exchange [OF j(5)] Cons unfolding run r1 by (simp add: Let_def split_beta)
  qed
qed simp

text \<open>
  C15. A clean stop delivers what was accepted. Once the queue is shut down, the worker loop ends by itself, with the queue empty, after no more turns
  than the attempts that its jobs have left; every recipient that was still pending has then been reported with a final outcome,
  and none twice.
\<close>

theorem worker_drains:
  assumes "q_shutdown q" "\<forall>j \<in> set (q_jobs q). job_ok srv j" "turns srv (q_jobs q) < fuel"
  shows "fst (eval (outbox_delivery_worker E n srv fuel q) s) \<and> q_jobs (snd (eval (outbox_delivery_worker E n srv fuel q) s)) = [] \<and>
    mset (reports (exec (outbox_delivery_worker E n srv fuel q) s)) + \<Sum>\<^sub># (mset (map finished (q_jobs q))) =
    mset (reports s) + \<Sum>\<^sub># (mset (map everyone (q_jobs q)))"
  using worker_drain [OF assms, of E n s] by (simp add: split_beta Let_def)

definition stopping_queue :: OutboxDeliveryQueue where
  "stopping_queue = outbox_delivery_shutdown (queue_append outbox_delivery_queue_init demo_job)"

theorem worker_drains_witness:
  "q_shutdown stopping_queue \<and> list_all (job_ok demo_srv) (q_jobs stopping_queue) \<and> turns demo_srv (q_jobs stopping_queue) < 4 \<and>
   fst (eval (outbox_delivery_worker demo_deliver 3 demo_srv 4 stopping_queue) (worker_init plain_script)) \<and>
   mset (reports (exec (outbox_delivery_worker demo_deliver 3 demo_srv 4 stopping_queue) (worker_init plain_script))) = {#(''ann@ex.org'', ''bob@far.net'')#}"
proof -
  have q: "q_jobs stopping_queue = [demo_job]" "q_shutdown stopping_queue"
    by (simp_all add: stopping_queue_def outbox_delivery_shutdown_def queue_append_def outbox_delivery_queue_init_def)
  have m: "max_attempts demo_srv = 3" by code_simp
  have t: "turns demo_srv (q_jobs stopping_queue) < 4" unfolding q by (simp add: turns_def m demo_job_def new_job_def)
  have ok: "\<forall>j \<in> set (q_jobs stopping_queue). job_ok demo_srv j" unfolding q by (simp add: demo_job_def new_job_ok)
  have f: "finished demo_job = {#}" "everyone demo_job = {#(''ann@ex.org'', ''bob@far.net'')#}"
    by (simp_all add: demo_job_def new_job_ok everyone_def) (simp_all add: new_job_def sender_name_def)
  show ?thesis
    using worker_drains [OF q(2) ok t, of demo_deliver 3 "worker_init plain_script"] t ok
    by (simp add: q f reports_def worker_init_def)
qed

section \<open>The internal relay with credentials\<close>

text \<open>A step that refuses for sure, and one that never reports success as a refusal.\<close>

definition refuses :: "('s, smtp_status + 'a) state \<Rightarrow> bool" where
  "refuses m \<longleftrightarrow> (\<forall>s. \<exists>st. eval m s = Inl st \<and> st \<noteq> SMTP_OK)"

definition honest :: "('s, smtp_status + 'a) state \<Rightarrow> bool" where
  "honest m \<longleftrightarrow> (\<forall>s st. eval m s = Inl st \<longrightarrow> st \<noteq> SMTP_OK)"

lemma refuses_orelse: "honest m \<Longrightarrow> (\<And>x. refuses (f x)) \<Longrightarrow> refuses (orelse m f)"
  unfolding refuses_def honest_def orelse_def by (auto split: sum.split)

lemma refuses_first: "refuses m \<Longrightarrow> refuses (orelse m f)"
proof -
  assume m: "refuses m"
  have "\<exists>st. eval (orelse m f) s = Inl st \<and> st \<noteq> SMTP_OK" for s
  proof -
    obtain st where "eval m s = Inl st" "st \<noteq> SMTP_OK" using m unfolding refuses_def by blast
    then show ?thesis by (simp add: orelse_def)
  qed
  then show ?thesis unfolding refuses_def by blast
qed

lemma honest_rules:
  "honest (return (Inr x))" "st \<noteq> SMTP_OK \<Longrightarrow> honest (return (Inl st))" "(\<And>y. honest (g y)) \<Longrightarrow> honest (m' \<bind> g)"
  "honest m \<Longrightarrow> (\<And>x. honest (f x)) \<Longrightarrow> honest (orelse m f)"
  "(b \<Longrightarrow> honest m) \<Longrightarrow> (\<not> b \<Longrightarrow> honest n) \<Longrightarrow> honest (if b then m else n)"
  by (auto simp: honest_def orelse_def split: sum.splits)

lemma class_400: "400 \<le> code \<Longrightarrow> smtp_class code \<noteq> SMTP_OK"
  by (simp add: smtp_class_def)

lemma honest_steps:
  "honest (dlg_implicit E c host tmo)" "honest (dlg_greeting E n tmo)" "honest (dlg_ehlo E c tmo)" "honest (dlg_starttls E n c host tmo caps)"
proof -
  have v: "\<forall>s. eval (handshake_verdict E b hr) s \<noteq> SMTP_OK" for b hr
    by (simp add: handshake_verdict_def split_beta)
  have u: "honest (dlg_upgrade E n c host tmo)"
    unfolding dlg_upgrade_def honest_def using v by (auto simp: split_beta Let_def split: option.splits sum.splits if_splits)
  show "honest (dlg_implicit E c host tmo)" "honest (dlg_greeting E n tmo)" "honest (dlg_ehlo E c tmo)"
    unfolding honest_def dlg_implicit_def dlg_greeting_def dlg_ehlo_def
    by (auto simp: split_beta Let_def class_400 split: option.splits sum.splits if_splits)
  show "honest (dlg_starttls E n c host tmo caps)"
    unfolding dlg_starttls_def Let_def using u by (auto intro!: honest_rules split: prod.split if_splits)
qed

lemma auth_refused:
  assumes "auth_enabled (relay_auth (cfg_relay c))" "\<not> tls_verify c"
  shows "eval (smtp_dialogue E n c host tmo dtmo body m r) s \<noteq> SMTP_OK"
proof -
  have "refuses (dlg_auth E n c tmo did_tls)" for did_tls using assms by (simp add: refuses_def dlg_auth_def)
  then have "refuses (orelse (dlg_implicit E c host tmo) (\<lambda>_. orelse (dlg_greeting E n tmo) (\<lambda>_. orelse (dlg_ehlo E c tmo) (\<lambda>caps.
      orelse (dlg_starttls E n c host tmo caps) (\<lambda>did_tls. orelse (dlg_auth E n c tmo did_tls) (\<lambda>_. orelse (dlg_command E n tmo m) (\<lambda>_.
      orelse (dlg_command E n tmo r) (\<lambda>_. dlg_message E n tmo dtmo body))))))))" (is "refuses ?steps")
    by (intro refuses_orelse [OF honest_steps(1)] refuses_orelse [OF honest_steps(2)] refuses_orelse [OF honest_steps(3)]
        refuses_orelse [OF honest_steps(4)] refuses_first)
  then obtain st where "eval ?steps s = Inl st" "st \<noteq> SMTP_OK" unfolding refuses_def by blast
  then show ?thesis by (simp add: smtp_dialogue_def)
qed

lemma attempts_refused:
  assumes "\<And>s. eval dialogue s \<noteq> SMTP_OK"
  shows "eval (attempt_loop E host port dialogue left attempt) s \<noteq> SMTP_OK"
proof (induction left arbitrary: attempt s)
  case 0
  show ?case using assms by (subst attempt_loop.simps) (simp add: split_beta Let_def split: option.split)
next
  case (Suc left)
  show ?case using assms Suc.IH by (subst attempt_loop.simps) (simp add: split_beta Let_def split: option.split)
qed

text \<open>
  Credentials for the internal relay make every delivery to it fail. The documented modes of \<open>--internal-relay-tls\<close> are \<open>none\<close>,
  \<open>starttls\<close> and \<open>implicit\<close>; with a user name set, in none of them does a delivery to the internal relay ever succeed, whatever the
  relay answers, because the client refuses to authenticate over anything but \<open>starttls-verify\<close>.
\<close>

lemma internal_auth_never_works:
  assumes "ob_internal_user (sv_cfg srv) \<noteq> []" "ob_internal_tls (sv_cfg srv) \<in> {''none'', ''starttls'', ''implicit''}"
  shows "fst (eval (deliver_internal E n srv f rcpt msg) s) \<noteq> SMTP_OK"
proof -
  have c: "auth_enabled (relay_auth (cfg_relay (deliver_cfg_internal srv)))" "\<not> tls_verify (deliver_cfg_internal srv)"
    using assms by (auto simp: deliver_cfg_internal_def)
  show ?thesis
    unfolding deliver_internal_def send_host_def smtp_out_send_host_def Let_def
    by (simp add: split_beta attempts_refused [OF auth_refused [OF c]] split: option.split)
qed

end
