(* ===== verification/Maildir_Uidlist.thy ===== *)
theory Maildir_Uidlist
  imports Maildir_Names
begin

text \<open>
  The table of message numbers of a mailbox (\<open>imap_maildir.c\<close>, the \<open>imapd-uidlist\<close> file): the two hash tables with open addressing,
  reading and writing the file, and the merge of the table of a session with the one on disk. \<open>sscanf\<close> is that of the C
  library: it skips white space, line ends included. Sizes of arrays do not wrap.
\<close>

section \<open>Open addressing\<close>

text \<open>
  The probing loop of both tables: from slot \<open>i\<close> on until \<open>stop\<close>; the capacity is a power of two. \<open>None\<close> is a loop that never
  ends, because the whole table was visited.
\<close>

fun probe :: "nat \<Rightarrow> nat \<Rightarrow> (nat \<Rightarrow> bool) \<Rightarrow> nat \<Rightarrow> nat option" where
  "probe 0 cap stop i = None"
| "probe (Suc n) cap stop i = (if stop i then Some i else probe n cap stop ((i + 1) AND (cap - 1)))"

text \<open>The growing of the capacity from 16 on until it is at least twice the number of entries.\<close>

function table_cap :: "nat \<Rightarrow> nat \<Rightarrow> nat" where
  "table_cap cap n = (if 0 < cap \<and> cap < n * 2 then table_cap (cap * 2) n else cap)"
  by pat_completeness auto
termination
  by (relation "measure (\<lambda>(cap, n). n * 2 - cap)") auto

declare table_cap.simps [simp del]

type_synonym BaseHash = "(string \<times> u32) option list"

definition bh_hash :: "string \<Rightarrow> u32" where
  "bh_hash s = foldl (\<lambda>h c. (h XOR of_nat (byte c)) * 16777619) 2166136261 s"

definition bh_init :: "nat \<Rightarrow> BaseHash" where
  "bh_init n = replicate (table_cap 16 n) None"

definition bh_find :: "BaseHash \<Rightarrow> string \<Rightarrow> nat option" where
  "bh_find h base =
     probe (length h) (length h) (\<lambda>i. case h ! i of None \<Rightarrow> True | Some (k, _) \<Rightarrow> k = base) (unat (bh_hash base) AND (length h - 1))"

definition bh_put :: "BaseHash \<Rightarrow> string \<Rightarrow> u32 \<Rightarrow> BaseHash" where
  "bh_put h base v = (case bh_find h base of None \<Rightarrow> h | Some i \<Rightarrow> h[i := Some (base, v)])"

definition bh_get :: "BaseHash \<Rightarrow> string \<Rightarrow> u32 option" where
  "bh_get h base = (case bh_find h base of None \<Rightarrow> None | Some i \<Rightarrow> map_option snd (h ! i))"

text \<open>The set of message numbers; 0 marks an empty slot.\<close>

type_synonym UidSet = "u32 list"

definition us_init :: "nat \<Rightarrow> UidSet" where
  "us_init n = replicate (table_cap 16 n) 0"

definition us_find :: "UidSet \<Rightarrow> u32 \<Rightarrow> nat option" where
  "us_find s uid = probe (length s) (length s) (\<lambda>i. s ! i = 0 \<or> s ! i = uid) (unat (uid * 2654435761) AND (length s - 1))"

definition us_add :: "UidSet \<Rightarrow> u32 \<Rightarrow> bool \<times> UidSet" where
  "us_add s uid =
     (if s = [] \<or> uid = 0 then (True, s)
      else case us_find s uid of
        None \<Rightarrow> (True, s)
      | Some i \<Rightarrow> if s ! i = uid then (False, s) else (True, s[i := uid]))"

section \<open>The file\<close>

record UidEnt =
  u_base :: string
  u_mid :: "string option"
  u_uid :: u32
  u_modseq :: u64

definition is_space :: "char \<Rightarrow> bool" where
  "is_space c \<longleftrightarrow> c = SP \<or> (9 \<le> byte c \<and> byte c \<le> 13)"

definition digits_value :: "string \<Rightarrow> nat" where
  "digits_value ds = foldl (\<lambda>v c. v * 10 + digit_val c) 0 ds"

text \<open>One \<open>%llu\<close> of \<open>sscanf\<close>: the value (the largest one when it does not fit, negated for a minus sign) and the rest.\<close>

definition scan_ull :: "string \<Rightarrow> (u64 \<times> string) option" where
  "scan_ull s =
     (let s1 = dropWhile is_space s;
          signed = s1 \<noteq> [] \<and> (hd s1 = CHR ''-'' \<or> hd s1 = CHR ''+'');
          s2 = (if signed then tl s1 else s1);
          ds = takeWhile is_digit s2;
          v = (if digits_value ds > unat (- 1 :: u64) then - 1 else of_nat (digits_value ds)) in
      if ds = [] then None
      else Some (if signed \<and> hd s1 = CHR ''-'' \<and> digits_value ds \<le> unat (- 1 :: u64) then - v else v, dropWhile is_digit s2))"

definition line_of :: "string \<Rightarrow> string" where
  "line_of p = takeWhile (\<lambda>c. c \<noteq> LF) p"

text \<open>
  One row at \<open>p\<close>: \<open>None\<close> ends the reading. The number is read by \<open>sscanf\<close>, then the digits at \<open>p\<close> itself are skipped.
\<close>

definition uid_row :: "string \<Rightarrow> UidEnt option" where
  "uid_row p =
     (case scan_ull p of
        None \<Rightarrow> None
      | Some (uid, _) \<Rightarrow>
          let p1 = dropWhile is_digit p in
          if p1 = [] \<or> hd p1 \<noteq> SP then None
          else
            let p2 = tl p1; line = line_of p2; base = takeWhile (\<lambda>c. c \<noteq> SP) line;
                more = dropWhile (\<lambda>c. c \<noteq> SP) line; q = drop (length base + 1) p2;
                (modseq, mid) =
                  (if more = [] then (1, None)
                   else case scan_ull q of
                     None \<Rightarrow> (1, None)
                   | Some (ms, _) \<Rightarrow>
                       let r = dropWhile is_digit q in
                       (ms, if r \<noteq> [] \<and> hd r = SP \<and> line_of (tl r) \<noteq> [] then Some (line_of (tl r)) else None)) in
            if base = [] \<or> uid = 0 \<or> unat uid > unat UINT32_MAX then None
            else Some \<lparr>u_base = base, u_mid = mid, u_uid = ucast uid, u_modseq = modseq\<rparr>)"

function uid_rows :: "string \<Rightarrow> UidEnt list" where
  "uid_rows p =
     (if p = [] then []
      else case uid_row p of
        None \<Rightarrow> []
      | Some e \<Rightarrow> e # uid_rows (drop (length (line_of p) + 1) p))"
  by pat_completeness auto
termination
  by (relation "measure length") auto

declare uid_rows.simps [simp del]

text \<open>
  \<open>uidlist_load\<close>: the rows and the two numbers of the header, which keep the given values when there is no file or no header.
\<close>

definition uidlist_load :: "string option \<Rightarrow> u32 \<Rightarrow> u32 \<Rightarrow> u32 \<times> u32 \<times> UidEnt list" where
  "uidlist_load file uidvalidity uidnext =
     (case file of
        None \<Rightarrow> (uidvalidity, uidnext, [])
      | Some content \<Rightarrow>
          let p = cstr content;
              (uv, un) =
                (case scan_ull p of
                   None \<Rightarrow> (uidvalidity, uidnext)
                 | Some (a, r) \<Rightarrow>
                     (case scan_ull r of
                        None \<Rightarrow> (uidvalidity, uidnext)
                      | Some (b, _) \<Rightarrow>
                          (if unat a > unat UINT32_MAX then 0 else ucast a, if unat b > unat UINT32_MAX then 1 else ucast b))) in
          if LF \<notin> set p then (uv, un, []) else (uv, un, uid_rows (drop (length (line_of p) + 1) p)))"

definition row_text :: "UidEnt \<Rightarrow> string" where
  "row_text e =
     dec_of_nat (unat (u_uid e)) @ '' '' @ u_base e @ '' '' @ dec_of_nat (unat (u_modseq e)) @
     (case u_mid e of Some m \<Rightarrow> if m \<noteq> [] then '' '' @ m else [] | None \<Rightarrow> []) @ [LF]"

definition uidlist_text :: "u32 \<Rightarrow> u32 \<Rightarrow> UidEnt list \<Rightarrow> string" where
  "uidlist_text uv un v = dec_of_nat (unat uv) @ '' '' @ dec_of_nat (unat un) @ [LF] @ concat (map row_text v)"

section \<open>The merge\<close>

definition uident_copy :: "UidEnt \<Rightarrow> UidEnt" where
  "uident_copy e = e\<lparr>u_mid := (if u_mid e = Some [] then None else u_mid e)\<rparr>"

definition tomb_table :: "string list \<Rightarrow> BaseHash option" where
  "tomb_table tomb =
     (if tomb = [] then None
      else Some (fold (\<lambda>(i, b) h. bh_put h b (of_nat i)) (enumerate 0 tomb) (bh_init (length tomb))))"

definition buried :: "BaseHash option \<Rightarrow> string \<Rightarrow> bool" where
  "buried t base = (case t of None \<Rightarrow> False | Some h \<Rightarrow> bh_get h base \<noteq> None)"

text \<open>One row of the merge: the rows so far and their index by base name.\<close>

definition merge_row :: "BaseHash option \<Rightarrow> UidEnt \<Rightarrow> UidEnt list \<times> BaseHash \<Rightarrow> UidEnt list \<times> BaseHash" where
  "merge_row tomb src = (\<lambda>(mv, idx).
     if u_base src = [] \<or> u_uid src = 0 then (mv, idx)
     else if buried tomb (u_base src) then (mv, idx)
     else case bh_get idx (u_base src) of
       Some at \<Rightarrow>
         if u_modseq src \<le> u_modseq (mv ! unat at) then (mv, idx)
         else (mv[unat at := uident_copy src], idx)
     | None \<Rightarrow> (mv @ [uident_copy src], bh_put idx (u_base src) (of_nat (length mv))))"

definition bump_next :: "u32 \<Rightarrow> UidEnt list \<Rightarrow> u32" where
  "bump_next un mv = foldl (\<lambda>un e. if u_uid e \<ge> un then u_uid e + 1 else un) un mv"

fun remint :: "UidSet \<Rightarrow> u32 \<Rightarrow> UidEnt list \<Rightarrow> u32 \<times> UidEnt list" where
  "remint us un [] = (un, [])"
| "remint us un (e # es) =
     (case us_add us (u_uid e) of
        (True, us') \<Rightarrow> (case remint us' un es of (un', es') \<Rightarrow> (un', e # es'))
      | (False, us') \<Rightarrow>
          let (uid, un1) = (if un = 0 then (un + 1, un + 2) else (un, un + 1));
              us2 = snd (us_add us' uid) in
          case remint us2 un1 es of (un', es') \<Rightarrow> (un', e\<lparr>u_uid := uid, u_modseq := ucast un1\<rparr> # es'))"

text \<open>The generations: the larger \<open>uidvalidity\<close> wins, and the rows of the other side are dropped.\<close>

definition uidlist_merge :: "string option \<Rightarrow> string list \<Rightarrow> u32 \<Rightarrow> u32 \<Rightarrow> UidEnt list \<Rightarrow> u32 \<times> u32 \<times> UidEnt list" where
  "uidlist_merge file tomb uidvalidity uidnext v =
     (let (duv, dun0, dv) = uidlist_load file 0 1;
          dun = (if dun0 = 0 then 1 else dun0);
          un = (if uidnext > dun then uidnext else dun);
          clash = (duv \<noteq> 0 \<and> uidvalidity \<noteq> 0 \<and> duv \<noteq> uidvalidity);
          uv = (if clash then if duv > uidvalidity then duv else uidvalidity else if uidvalidity \<noteq> 0 then uidvalidity else duv);
          mem = (if clash \<and> duv > uidvalidity then [] else v);
          disk = (if clash \<and> \<not> duv > uidvalidity then [] else dv);
          n = length mem + length disk;
          (mv, idx) = fold (merge_row (tomb_table tomb)) (disk @ mem) ([], bh_init n);
          (un', rows) = remint (us_init (n + 8)) (bump_next un mv) mv in
      (uv, un', rows))"

definition tomb_add :: "string list \<Rightarrow> string \<Rightarrow> string list" where
  "tomb_add tomb base = (if base = [] then tomb else tomb @ [base])"

section \<open>Saving\<close>

definition uidlist_path :: "string \<Rightarrow> string option" where
  "uidlist_path dir = (let path = dir @ ''/'' @ ''imapd-uidlist'' in if length path < 4200 then Some path else None)"

text \<open>
  The answer to a question about one base name: the number of the first row with it, 0 without one.
\<close>

definition probe_row :: "string option \<Rightarrow> UidEnt list \<Rightarrow> u32" where
  "probe_row base v =
     (case base of None \<Rightarrow> 0 | Some b \<Rightarrow> (case find (\<lambda>e. u_base e = b) v of None \<Rightarrow> 0 | Some e \<Rightarrow> u_uid e))"

text \<open>
  \<open>locked\<close>: the lock file could be opened and locked; \<open>written\<close>: the temporary file could be written, flushed and renamed. Files map a path to
  the bytes in it. The names of the lock and of the temporary file fit their buffers whenever the path fits its own.
\<close>

definition imapd_uidlist_save ::
  "bool \<Rightarrow> bool \<Rightarrow> (string \<rightharpoonup> string) \<Rightarrow> string \<Rightarrow> string list \<Rightarrow> u32 \<Rightarrow> u32 \<Rightarrow> UidEnt list \<Rightarrow> string option \<Rightarrow> int \<times> u32 \<times> (string \<rightharpoonup> string)" where
  "imapd_uidlist_save locked written files dir tomb uidvalidity uidnext v probe_base =
     (case uidlist_path dir of
        None \<Rightarrow> (- 1, 0, files)
      | Some path \<Rightarrow>
          let (wuv, wun, wv) = (if locked then uidlist_merge (files path) tomb uidvalidity uidnext v else (uidvalidity, uidnext, v)) in
          if \<not> written then (- 1, 0, files)
          else (0, probe_row probe_base wv, files(path \<mapsto> uidlist_text wuv wun wv)))"

end
