(* ===== verification/Maildir_Hash_Proofs.thy ===== *)
theory Maildir_Hash_Proofs
  imports Maildir_Uidlist
begin

text \<open>
  The two hash tables of the maildir store as one contract: a table with open addressing and linear probing, without deletion, finds
  what was put into it as long as one slot is free, which the growing of the capacity guarantees. The locale is interpreted on the table of base names and
  on the set of message numbers.
\<close>

section \<open>Probing\<close>

lemma and_cap: "(i :: nat) AND (2 ^ m - Suc 0) = i mod 2 ^ m"
  using take_bit_eq_mask [of m i] by (simp add: take_bit_eq_mod mask_eq_exp_minus_1)

lemma probe_None: "probe n (2 ^ m) stop (i mod 2 ^ m) = None \<longleftrightarrow> (\<forall>j < n. \<not> stop ((i + j) mod 2 ^ m))"
proof (induction n arbitrary: i)
  case (Suc n)
  have "(i mod 2 ^ m + 1) AND (2 ^ m - 1) = (i + 1) mod 2 ^ m" by (simp add: and_cap mod_Suc_eq)
  then have "probe (Suc n) (2 ^ m) stop (i mod 2 ^ m) = None \<longleftrightarrow> \<not> stop (i mod 2 ^ m) \<and> (\<forall>j < n. \<not> stop ((i + 1 + j) mod 2 ^ m))"
    using Suc [of "i + 1"] by simp
  also have "\<dots> \<longleftrightarrow> (\<forall>j < Suc n. \<not> stop ((i + j) mod 2 ^ m))"
    unfolding All_less_Suc2 by simp
  finally show ?case .
qed simp

lemma probe_Some:
  "probe n (2 ^ m) stop (i mod 2 ^ m) = Some r \<Longrightarrow> \<exists>j < n. r = (i + j) mod 2 ^ m \<and> stop r \<and> (\<forall>k < j. \<not> stop ((i + k) mod 2 ^ m))"
proof (induction n arbitrary: i)
  case (Suc n)
  have nx: "(i mod 2 ^ m + 1) AND (2 ^ m - 1) = (i + 1) mod 2 ^ m" by (simp add: and_cap mod_Suc_eq)
  show ?case
  proof (cases "stop (i mod 2 ^ m)")
    case True
    then show ?thesis using Suc.prems by (intro exI [of _ 0]) auto
  next
    case False
    then have "probe n (2 ^ m) stop ((i + 1) mod 2 ^ m) = Some r" using Suc.prems nx by simp
    then obtain j where j: "j < n" "r = (i + 1 + j) mod 2 ^ m" "stop r" "\<forall>k < j. \<not> stop ((i + 1 + k) mod 2 ^ m)" using Suc.IH by blast
    have "\<forall>k < Suc j. \<not> stop ((i + k) mod 2 ^ m)" unfolding All_less_Suc2 using False j(4) by simp
    then show ?thesis using j by (intro exI [of _ "Suc j"]) simp
  qed
qed simp

lemma probe_first:
  "j < n \<Longrightarrow> stop ((i + j) mod 2 ^ m) \<Longrightarrow> \<forall>k < j. \<not> stop ((i + k) mod 2 ^ m) \<Longrightarrow> probe n (2 ^ m) stop (i mod 2 ^ m) = Some ((i + j) mod 2 ^ m)"
proof (induction n arbitrary: i j)
  case (Suc n)
  have nx: "(i mod 2 ^ m + 1) AND (2 ^ m - 1) = (i + 1) mod 2 ^ m" by (simp add: and_cap mod_Suc_eq)
  show ?case
  proof (cases j)
    case 0
    then show ?thesis using Suc.prems by simp
  next
    case (Suc j')
    then have "\<not> stop (i mod 2 ^ m)" "\<forall>k < j'. \<not> stop ((i + 1 + k) mod 2 ^ m)" using Suc.prems(3) unfolding Suc All_less_Suc2 by simp_all
    then show ?thesis using Suc.IH [of j' "i + 1"] Suc.prems Suc nx by simp
  qed
qed simp

lemma table_cap_pow: "\<exists>m. table_cap (2 ^ k) n = 2 ^ m"
proof (induction "n * 2 - 2 ^ k" arbitrary: k rule: less_induct)
  case less
  show ?case
  proof (cases "2 ^ k < n * 2")
    case True
    moreover have "(0 :: nat) < 2 ^ k" by simp
    ultimately have "n * 2 - 2 ^ Suc k < n * 2 - 2 ^ k" unfolding power_Suc by linarith
    from less [OF this] show ?thesis using True by (subst table_cap.simps) (simp add: mult.commute)
  qed (simp add: table_cap.simps)
qed

lemma table_cap_ge: "0 < cap \<Longrightarrow> n * 2 \<le> table_cap cap n \<and> cap \<le> table_cap cap n"
proof (induction cap n rule: table_cap.induct)
  case (1 cap n)
  show ?case
  proof (cases "cap < n * 2")
    case True
    then show ?thesis using 1 by (subst (1 2) table_cap.simps) simp
  qed (simp add: table_cap.simps)
qed

section \<open>The contract\<close>

locale probing =
  fixes key :: "'s \<Rightarrow> 'k option" and hash :: "'k \<Rightarrow> nat" and free :: 's
  assumes key_free: "key free = None"
begin

definition find :: "'s list \<Rightarrow> 'k \<Rightarrow> nat option" where
  "find tab k = probe (length tab) (length tab) (\<lambda>i. key (tab ! i) = None \<or> key (tab ! i) = Some k) (hash k AND (length tab - 1))"

definition pos :: "'s list \<Rightarrow> 'k \<Rightarrow> nat \<Rightarrow> nat" where
  "pos tab k j = (hash k + j) mod length tab"

definition ok :: "'s list \<Rightarrow> bool" where
  "ok tab \<longleftrightarrow> (\<exists>m. length tab = 2 ^ m) \<and>
     (\<forall>i < length tab. \<forall>k. key (tab ! i) = Some k \<longrightarrow>
        (\<exists>j < length tab. i = pos tab k j \<and> (\<forall>j' < j. key (tab ! pos tab k j') \<noteq> None \<and> key (tab ! pos tab k j') \<noteq> Some k)))"

definition used :: "'s list \<Rightarrow> nat" where
  "used tab = length (filter (\<lambda>s. key s \<noteq> None) tab)"

definition keys :: "'s list \<Rightarrow> 'k set" where
  "keys tab = {k. Some k \<in> key ` set tab}"

lemma pos_less: "ok tab \<Longrightarrow> pos tab k j < length tab"
  unfolding ok_def pos_def by (metis mod_less_divisor zero_less_numeral zero_less_power)

lemma find_alt: "length tab = 2 ^ m \<Longrightarrow> find tab k = probe (2 ^ m) (2 ^ m) (\<lambda>i. key (tab ! i) = None \<or> key (tab ! i) = Some k) (hash k mod 2 ^ m)"
  by (simp add: find_def and_cap)

lemma find_stored:
  assumes "ok tab" "i < length tab" "key (tab ! i) = Some k"
  shows "find tab k = Some i"
proof -
  obtain m where m: "length tab = 2 ^ m" using assms(1) ok_def by blast
  obtain j where j: "j < length tab" "i = pos tab k j" "\<forall>j' < j. key (tab ! pos tab k j') \<noteq> None \<and> key (tab ! pos tab k j') \<noteq> Some k"
    using assms ok_def by metis
  then have "probe (2 ^ m) (2 ^ m) (\<lambda>i. key (tab ! i) = None \<or> key (tab ! i) = Some k) (hash k mod 2 ^ m) = Some ((hash k + j) mod 2 ^ m)"
    using assms(3) m by (intro probe_first) (auto simp: pos_def)
  then show ?thesis using j(2) m by (simp add: find_alt pos_def)
qed

lemma find_Some:
  assumes "ok tab" "find tab k = Some i"
  obtains j where "j < length tab" "i = pos tab k j" "i < length tab" "key (tab ! i) = None \<or> key (tab ! i) = Some k"
    "\<forall>j' < j. key (tab ! pos tab k j') \<noteq> None \<and> key (tab ! pos tab k j') \<noteq> Some k"
proof -
  obtain m where m: "length tab = 2 ^ m" using assms(1) ok_def by blast
  obtain j where "j < 2 ^ m" "i = (hash k + j) mod 2 ^ m" "key (tab ! i) = None \<or> key (tab ! i) = Some k"
    "\<forall>j' < j. \<not> (key (tab ! ((hash k + j') mod 2 ^ m)) = None \<or> key (tab ! ((hash k + j') mod 2 ^ m)) = Some k)"
    using probe_Some assms(2) [unfolded find_alt [OF m]] by blast
  then show ?thesis using that [of j] pos_less [OF assms(1)] m by (auto simp: pos_def)
qed

lemma find_keys:
  assumes "ok tab" "find tab k = Some i"
  shows "i < length tab" "k \<in> keys tab \<longleftrightarrow> key (tab ! i) = Some k" "k \<notin> keys tab \<longleftrightarrow> key (tab ! i) = None"
proof -
  show i: "i < length tab" using assms by (rule find_Some)
  have f: "key (tab ! i) = None \<or> key (tab ! i) = Some k" using assms by (rule find_Some)
  show k: "k \<in> keys tab \<longleftrightarrow> key (tab ! i) = Some k"
  proof
    assume "k \<in> keys tab"
    then obtain i' where "i' < length tab" "key (tab ! i') = Some k" by (auto simp: keys_def in_set_conv_nth)
    then show "key (tab ! i) = Some k" using find_stored [OF assms(1)] assms(2) by fastforce
  next
    assume "key (tab ! i) = Some k"
    then show "k \<in> keys tab" using nth_mem [OF i] by (force simp: keys_def)
  qed
  show "k \<notin> keys tab \<longleftrightarrow> key (tab ! i) = None" using f k by auto
qed

lemma used_room: "used tab < length tab \<Longrightarrow> \<exists>i < length tab. key (tab ! i) = None"
proof (rule ccontr)
  assume u: "used tab < length tab" and "\<not> (\<exists>i < length tab. key (tab ! i) = None)"
  then have "filter (\<lambda>s. key s \<noteq> None) tab = tab" by (auto simp: filter_id_conv in_set_conv_nth)
  then show False using u by (simp add: used_def)
qed

lemma find_room:
  assumes "ok tab" "used tab < length tab"
  shows "\<exists>i. find tab k = Some i"
proof (rule ccontr)
  obtain m where m: "length tab = 2 ^ m" using assms(1) ok_def by blast
  assume "\<not> ?thesis"
  then have n: "\<forall>j < 2 ^ m. key (tab ! ((hash k + j) mod 2 ^ m)) \<noteq> None" using probe_None by (auto simp: find_alt [OF m])
  obtain i where i: "i < 2 ^ m" "key (tab ! i) = None" using used_room [OF assms(2)] m by auto
  have h: "hash k mod 2 ^ m < 2 ^ m" by simp
  let ?j = "(i + (2 ^ m - hash k mod 2 ^ m)) mod 2 ^ m"
  have "(hash k + ?j) mod 2 ^ m = (hash k mod 2 ^ m + (i + (2 ^ m - hash k mod 2 ^ m))) mod 2 ^ m" by (simp add: mod_add_eq mod_add_left_eq mod_add_right_eq)
  also have "hash k mod 2 ^ m + (i + (2 ^ m - hash k mod 2 ^ m)) = i + 2 ^ m" using h by linarith
  also have "(i + 2 ^ m) mod 2 ^ m = i mod 2 ^ m" by simp
  also have "\<dots> = i" using i(1) by simp
  finally show False using n i(2) by (metis mod_less_divisor zero_less_numeral zero_less_power)
qed

lemma ok_update:
  assumes "ok tab" "find tab k = Some i" "key s = Some k"
  shows "ok (tab[i := s])"
proof -
  obtain j where j: "j < length tab" "i = pos tab k j" "i < length tab" "\<forall>j' < j. key (tab ! pos tab k j') \<noteq> None \<and> key (tab ! pos tab k j') \<noteq> Some k"
    using assms(1,2) by (rule find_Some)
  have p: "pos (tab[i := s]) = pos tab" by (simp add: pos_def fun_eq_iff)
  have "\<exists>j < length tab. i' = pos tab k' j \<and> (\<forall>j' < j. key (tab[i := s] ! pos tab k' j') \<noteq> None \<and> key (tab[i := s] ! pos tab k' j') \<noteq> Some k')"
    if i': "i' < length tab" "key (tab[i := s] ! i') = Some k'" for i' k'
  proof (cases "k' = k")
    case True
    have "i' = i"
    proof (rule ccontr)
      assume ne: "i' \<noteq> i"
      then have "key (tab ! i') = Some k" using i' True by simp
      then show False using find_stored [OF assms(1) i'(1)] assms(2) ne by simp
    qed
    moreover have "pos tab k j' \<noteq> i" if "j' < j" for j' using find_keys(2) [OF assms(1,2)] find_keys(3) [OF assms(1,2)] j(4) that by metis
    then have "\<forall>j' < j. tab[i := s] ! pos tab k j' = tab ! pos tab k j'" by (metis nth_list_update_neq)
    ultimately show ?thesis using j True by (intro exI [of _ j]) simp
  next
    case False
    then have "key (tab ! i') = Some k'" using i' assms(3) by (cases "i' = i") auto
    then obtain j1 where "j1 < length tab" "i' = pos tab k' j1" "\<forall>j' < j1. key (tab ! pos tab k' j') \<noteq> None \<and> key (tab ! pos tab k' j') \<noteq> Some k'"
      using assms(1) i'(1) unfolding ok_def by blast
    then show ?thesis using False assms(3) j(3) by (intro exI [of _ j1]) (auto simp: nth_list_update pos_less [OF assms(1)])
  qed
  then show ?thesis using assms(1) unfolding ok_def p length_list_update by blast
qed

lemma keys_nth: "k \<in> keys tab \<longleftrightarrow> (\<exists>i < length tab. key (tab ! i) = Some k)"
proof
  assume "k \<in> keys tab"
  then obtain x where "x \<in> set tab" "key x = Some k" unfolding keys_def by force
  then show "\<exists>i < length tab. key (tab ! i) = Some k" by (metis in_set_conv_nth)
next
  assume "\<exists>i < length tab. key (tab ! i) = Some k"
  then show "k \<in> keys tab" unfolding keys_def by (metis (mono_tags, lifting) image_eqI mem_Collect_eq nth_mem)
qed

lemma keys_update:
  assumes "ok tab" "find tab k = Some i" "key s = Some k"
  shows "keys (tab[i := s]) = insert k (keys tab)"
proof -
  note f = find_keys [OF assms(1,2)]
  have "key (tab ! i) = None \<or> key (tab ! i) = Some k" using f(2,3) by blast
  then have "(\<exists>i' < length tab. key (tab[i := s] ! i') = Some k') \<longleftrightarrow> k' = k \<or> (\<exists>i' < length tab. key (tab ! i') = Some k')" for k'
    using f(1) assms(3) by (cases "k' = k") (auto simp: nth_list_update, metis option.distinct(1), metis option.inject)
  then show ?thesis by (auto simp: keys_nth)
qed

lemma used_update:
  assumes "i < length tab" "key s = Some k"
  shows "used (tab[i := s]) = (if key (tab ! i) = None then Suc (used tab) else used tab)"
proof -
  have t: "tab = take i tab @ tab ! i # drop (Suc i) tab" using assms(1) by (rule id_take_nth_drop)
  have "tab[i := s] = take i tab @ s # drop (Suc i) tab" using assms(1) by (rule upd_conv_take_nth_drop)
  moreover have "used tab = used (take i tab) + (if key (tab ! i) = None then 0 else 1) + used (drop (Suc i) tab)"
    unfolding used_def by (subst t) simp
  ultimately show ?thesis using assms(2) by (simp add: used_def)
qed

lemma ok_new: "ok (replicate (2 ^ m) free)" "used (replicate n free) = 0" "keys (replicate n free) = {}"
  by (auto simp: ok_def used_def keys_def key_free)

end

interpretation bh: probing "map_option fst" "\<lambda>b. unat (bh_hash b)" None
  by unfold_locales simp

interpretation us: probing "\<lambda>u. if u = 0 then None else Some u" "\<lambda>u. unat (u * 2654435761)" 0
  by unfold_locales simp

section \<open>The table of base names\<close>

lemma bh_find_eq: "bh_find h b = bh.find h b"
proof -
  have "(\<lambda>i. case h ! i of None \<Rightarrow> True | Some (k, _) \<Rightarrow> k = b) = (\<lambda>i. map_option fst (h ! i) = None \<or> map_option fst (h ! i) = Some b)"
    by (auto simp: fun_eq_iff split: option.split)
  then show ?thesis unfolding bh_find_def bh.find_def by simp
qed

lemma bh_get_absent: "bh.ok h \<Longrightarrow> b \<notin> bh.keys h \<Longrightarrow> bh_get h b = None"
  using bh.find_keys(3) [of h b] by (auto simp: bh_get_def bh_find_eq split: option.split)

lemma bh_get_stored:
  assumes "bh.ok h" "i < length h" "h ! i = Some (b, v)"
  shows "bh_get h b = Some v"
  using bh.find_stored [OF assms(1,2), of b] assms(3) by (simp add: bh_get_def bh_find_eq)

definition bh_room :: "BaseHash \<Rightarrow> nat \<Rightarrow> bool" where
  "bh_room h n \<longleftrightarrow> bh.ok h \<and> bh.used h + n < length h"

lemma bh_put_room:
  assumes "bh_room h (Suc n)"
  shows "bh_room (bh_put h b v) n" "bh_get (bh_put h b v) b' = (if b' = b then Some v else bh_get h b')"
proof -
  have ok: "bh.ok h" and u: "bh.used h < length h" using assms by (simp_all add: bh_room_def)
  obtain i where i: "bh.find h b = Some i" using bh.find_room [OF ok u] by blast
  have p: "bh_put h b v = h[i := Some (b, v)]" by (simp add: bh_put_def bh_find_eq i)
  have k: "map_option fst (Some (b, v)) = Some b" by simp
  note f = bh.find_keys [OF ok i]
  have ok': "bh.ok (h[i := Some (b, v)])" by (rule bh.ok_update [OF ok i k])
  show "bh_room (bh_put h b v) n"
    using ok' assms bh.used_update [OF f(1) k] unfolding p bh_room_def by (auto split: if_splits)
  show "bh_get (bh_put h b v) b' = (if b' = b then Some v else bh_get h b')"
  proof (cases "b' = b")
    case True
    then show ?thesis using bh_get_stored [OF ok', of i b v] f(1) unfolding p by simp
  next
    case False
    show ?thesis
    proof (cases "b' \<in> bh.keys h")
      case True
      then obtain i' w where w: "i' < length h" "h ! i' = Some (b', w)" unfolding bh.keys_nth by auto
      have "map_option fst (h ! i) \<noteq> Some b'" using f(2,3) False by auto
      then have "i' \<noteq> i" using w(2) by auto
      then show ?thesis using False bh_get_stored [OF ok w] bh_get_stored [OF ok', of i' b' w] w unfolding p by simp
    next
      case absent: False
      then have "b' \<notin> bh.keys (h[i := Some (b, v)])" using False bh.keys_update [OF ok i k] by simp
      then show ?thesis using False bh_get_absent [OF ok absent] bh_get_absent [OF ok'] unfolding p by simp
    qed
  qed
qed

lemma bh_init_room: "bh_room (bh_init n) n" "bh_get (bh_init n) b = None"
proof -
  obtain m where m: "table_cap 16 n = 2 ^ m" using table_cap_pow [of 4 n] by auto
  have ok: "bh.ok (bh_init n)" unfolding bh_init_def m by (rule bh.ok_new)
  show "bh_room (bh_init n) n" using ok table_cap_ge [of 16 n] by (simp add: bh_room_def bh_init_def bh.ok_new)
  show "bh_get (bh_init n) b = None" using bh_get_absent [OF ok] by (simp add: bh_init_def bh.ok_new)
qed

section \<open>The set of message numbers\<close>

lemma us_find_eq: "uid \<noteq> 0 \<Longrightarrow> us_find s uid = us.find s uid"
proof -
  assume "uid \<noteq> 0"
  then have "(\<lambda>i. s ! i = 0 \<or> s ! i = uid) = (\<lambda>i. (if s ! i = 0 then None else Some (s ! i)) = None \<or> (if s ! i = 0 then None else Some (s ! i)) = Some uid)"
    by (auto simp: fun_eq_iff)
  then show ?thesis unfolding us_find_def us.find_def by simp
qed

definition us_room :: "UidSet \<Rightarrow> nat \<Rightarrow> bool" where
  "us_room s n \<longleftrightarrow> us.ok s \<and> us.used s + n < length s"

lemma us_add_room:
  assumes "us_room s (Suc n)" "uid \<noteq> 0" "us_add s uid = (absent, s')"
  shows "us_room s' n" "absent \<longleftrightarrow> uid \<notin> us.keys s" "us.keys s' = insert uid (us.keys s)" "\<not> absent \<Longrightarrow> s' = s"
proof -
  have ok: "us.ok s" and u: "us.used s < length s" using assms(1) by (simp_all add: us_room_def)
  obtain i where i: "us.find s uid = Some i" using us.find_room [OF ok u] by blast
  note f = us.find_keys [OF ok i]
  have "s \<noteq> []" using u by auto
  then have r: "us_add s uid = (if s ! i = uid then (False, s) else (True, s[i := uid]))" using assms(2) i by (simp add: us_add_def us_find_eq)
  have m: "uid \<in> us.keys s \<longleftrightarrow> s ! i = uid" using f(2) assms(2) by auto
  have k: "(if uid = 0 then None else Some uid) = Some uid" using assms(2) by simp
  show "absent \<longleftrightarrow> uid \<notin> us.keys s" "\<not> absent \<Longrightarrow> s' = s" using r m assms(3) by (auto split: if_splits)
  show "us.keys s' = insert uid (us.keys s)" using r m assms(3) us.keys_update [OF ok i k] by (auto split: if_splits)
  show "us_room s' n"
  proof (cases "s ! i = uid")
    case True
    then show ?thesis using r assms(1,3) by (auto simp: us_room_def)
  next
    case False
    then have "s' = s[i := uid]" using r assms(3) by simp
    then show ?thesis using us.ok_update [OF ok i k] us.used_update [OF f(1), of uid uid] assms(1,2) by (auto simp: us_room_def split: if_splits)
  qed
qed

lemma us_init_room: "us_room (us_init n) n" "us.keys (us_init n) = {}"
proof -
  obtain m where m: "table_cap 16 n = 2 ^ m" using table_cap_pow [of 4 n] by auto
  have "us.ok (us_init n)" unfolding us_init_def m by (rule us.ok_new)
  then show "us_room (us_init n) n" using table_cap_ge [of 16 n] by (simp add: us_room_def us_init_def us.ok_new)
  show "us.keys (us_init n) = {}" by (simp add: us_init_def us.ok_new)
qed

end
