(* ===== verification/Maildir_Names_Proofs.thy ===== *)
theory Maildir_Names_Proofs
  imports Maildir_Names
begin

text \<open>What the pure helpers of the maildir store compute, against reference definitions.\<close>

section \<open>The flag suffix\<close>

lemma flag_bits:
  "f AND IMAIL_DRAFT \<noteq> 0 \<longleftrightarrow> bit f 0" "f AND IMAIL_FLAGGED \<noteq> 0 \<longleftrightarrow> bit f 1" "f AND IMAIL_ANSWERED \<noteq> 0 \<longleftrightarrow> bit f 2"
  "f AND IMAIL_SEEN \<noteq> 0 \<longleftrightarrow> bit f 3" "f AND IMAIL_TRASHED \<noteq> 0 \<longleftrightarrow> bit f 4"
  using and_exp_eq_0_iff_not_bit [of f 0] and_exp_eq_0_iff_not_bit [of f 1] and_exp_eq_0_iff_not_bit [of f 2]
    and_exp_eq_0_iff_not_bit [of f 3] and_exp_eq_0_iff_not_bit [of f 4]
  by (simp_all add: IMAIL_DRAFT_def IMAIL_FLAGGED_def IMAIL_ANSWERED_def IMAIL_SEEN_def IMAIL_TRASHED_def)

lemma known_bits:
  "(if bit f 0 then IMAIL_DRAFT else 0) OR (if bit f 1 then IMAIL_FLAGGED else 0) OR (if bit f 2 then IMAIL_ANSWERED else 0) OR
      (if bit f 3 then IMAIL_SEEN else 0) OR (if bit f 4 then IMAIL_TRASHED else 0) = f AND 0x1F"
proof (rule bit_word_eqI)
  fix n
  assume "n < LENGTH(8)"
  then consider "n = 0" | "n = 1" | "n = 2" | "n = 3" | "n = 4" | "n = 5" | "n = 6" | "n = 7" by (auto simp: numeral_eq_Suc less_Suc_eq)
  then show "bit ((if bit f 0 then IMAIL_DRAFT else 0) OR (if bit f 1 then IMAIL_FLAGGED else 0) OR (if bit f 2 then IMAIL_ANSWERED else 0) OR
      (if bit f 3 then IMAIL_SEEN else 0) OR (if bit f 4 then IMAIL_TRASHED else 0)) n = bit (f AND 0x1F) n"
    by cases (simp_all add: bit_or_iff bit_and_iff IMAIL_DRAFT_def IMAIL_FLAGGED_def IMAIL_ANSWERED_def IMAIL_SEEN_def IMAIL_TRASHED_def)
qed

lemma flags_loop_known: "flags_loop sz fl u (known_letters f @ r) = flags_loop sz (fl OR (f AND 0x1F)) u r"
  unfolding known_bits [symmetric] by (simp add: known_letters_def flag_bits flag_letter_def or.assoc)

lemma flags_loop_unknown:
  "list_all (\<lambda>c. flag_letter c = None) cs \<Longrightarrow> length u + length cs < sz \<Longrightarrow> flags_loop sz fl u cs = Some (fl, u @ cs)"
  by (induction cs arbitrary: u) auto

text \<open>
  The flags of a message survive its file name. For every combination of the five known flags and up to 15
  unknown letters (as many as a message keeps), the suffix can be written into the 32 bytes that all callers use, and
  reading it back gives the same known flags and the same unknown letters in their order.
\<close>

theorem flags_roundtrip:
  assumes "list_all (\<lambda>c. flag_letter c = None) unk" "length unk < 16"
  shows "\<exists>info. imapd_flags_encode flags unk 32 = Some info \<and> imapd_flags_parse info 32 = Some (flags AND 0x1F, unk)"
proof -
  have "length (known_letters flags) \<le> 5" by (simp add: known_letters_def)
  then have e: "imapd_flags_encode flags unk 32 = Some (''2,'' @ known_letters flags @ unk)" using assms(2) by (simp add: imapd_flags_encode_def Let_def)
  have "flags_loop 32 0 [] (known_letters flags @ unk) = Some (flags AND 0x1F, unk)"
    using flags_loop_unknown [OF assms(1), of "[]" 32] assms(2) by (simp add: flags_loop_known)
  then show ?thesis using e by (simp add: imapd_flags_parse_def)
qed

theorem flags_roundtrip_witness:
  "list_all (\<lambda>c. flag_letter c = None) ''ax'' \<and>
   (\<exists>info. imapd_flags_encode (IMAIL_SEEN OR IMAIL_DRAFT) ''ax'' 32 = Some info \<and> imapd_flags_parse info 32 = Some (9, ''ax''))"
proof -
  have u: "list_all (\<lambda>c. flag_letter c = None) ''ax''" by (simp add: flag_letter_def)
  have "(IMAIL_SEEN OR IMAIL_DRAFT) AND 0x1F = 9" by (simp add: IMAIL_SEEN_def IMAIL_DRAFT_def)
  then show ?thesis using u flags_roundtrip [of "''ax''" "IMAIL_SEEN OR IMAIL_DRAFT"] by simp
qed

section \<open>Decimal numbers\<close>

definition dec_value :: "nat \<Rightarrow> string \<Rightarrow> nat" where
  "dec_value a ds = foldl (\<lambda>v c. v * 10 + digit_val c) a ds"

lemma dec_value_simps [simp]: "dec_value a [] = a" "dec_value a (d # ds) = dec_value (a * 10 + digit_val d) ds"
  "dec_value a (ds @ [d]) = dec_value a ds * 10 + digit_val d"
  by (simp_all add: dec_value_def)

lemma dec_value_ge: "a \<le> dec_value a ds"
proof (induction ds rule: rev_induct)
  case (snoc d ds)
  then show ?case by simp
qed simp

lemma digit_val_less: "is_digit c \<Longrightarrow> digit_val c < 10"
  by (auto simp: is_digit_def digit_val_def)

lemma char_of_digit: "is_digit c \<Longrightarrow> char_of (48 + digit_val c) = c"
  by (simp add: is_digit_def digit_val_def)

lemma dec_value_pos: "ds \<noteq> [] \<Longrightarrow> is_digit (hd ds) \<Longrightarrow> hd ds \<noteq> CHR ''0'' \<Longrightarrow> 0 < dec_value 0 ds"
proof -
  assume a: "ds \<noteq> []" "is_digit (hd ds)" "hd ds \<noteq> CHR ''0''"
  then obtain d es where ds: "ds = d # es" by (cases ds) auto
  have "0 < digit_val d"
  proof (rule ccontr)
    assume "\<not> 0 < digit_val d"
    then have "byte d = byte (CHR ''0'')" using a ds by (simp add: is_digit_def digit_val_def)
    then show False using a ds unfolding byte_inject by simp
  qed
  then show ?thesis using dec_value_ge [of "digit_val d" es] ds by simp
qed

lemma dec_of_nat_dec_value:
  "ds \<noteq> [] \<Longrightarrow> list_all is_digit ds \<Longrightarrow> hd ds \<noteq> CHR ''0'' \<Longrightarrow> dec_of_nat (dec_value 0 ds) = ds"
proof (induction ds rule: rev_induct)
  case (snoc d ds)
  show ?case
  proof (cases "ds = []")
    case True
    then show ?thesis using snoc.prems digit_val_less [of d] by (subst dec_of_nat.simps) (simp add: char_of_digit)
  next
    case False
    then have "0 < dec_value 0 ds" using snoc.prems by (intro dec_value_pos) (auto simp: hd_append neq_Nil_conv)
    then show ?thesis using snoc False digit_val_less [of d] by (subst dec_of_nat.simps) (simp add: char_of_digit hd_append)
  qed
qed simp

lemma dec_of_nat_hd: "0 < n \<Longrightarrow> hd (dec_of_nat n) \<noteq> CHR ''0''"
proof (induction n rule: dec_of_nat.induct)
  case (1 n)
  show ?case
  proof (cases "n < 10")
    case True
    have "char_of (48 + n) \<noteq> CHR ''0''"
    proof
      assume "char_of (48 + n) = CHR ''0''"
      then have "byte (char_of (48 + n)) = 48" by simp
      then show False using True 1(2) by (simp add: of_char_of)
    qed
    then show ?thesis using True by (subst dec_of_nat.simps) simp
  next
    case False
    then show ?thesis using 1(1) by (subst dec_of_nat.simps) (simp add: hd_append)
  qed
qed

lemma dec_of_nat_dec: "dec_value 0 (dec_of_nat n) = n" "list_all is_digit (dec_of_nat n)"
  using dec_of_nat_value [of n] dec_of_nat_digits [of n] by (simp_all add: dec_value_def list_all_iff)

section \<open>Message sets\<close>

text \<open>A set as its ranges: each end is a number or the star (\<open>None\<close>), and the grammar in which sets are written.\<close>

type_synonym seq_range = "nat option \<times> nat option option"

definition print_end :: "nat option \<Rightarrow> string" where
  "print_end e = (case e of None \<Rightarrow> ''*'' | Some n \<Rightarrow> dec_of_nat n)"

definition print_range :: "seq_range \<Rightarrow> string" where
  "print_range r = print_end (fst r) @ (case snd r of None \<Rightarrow> [] | Some b \<Rightarrow> '':'' @ print_end b)"

fun print_set :: "seq_range list \<Rightarrow> string" where
  "print_set [] = []"
| "print_set [r] = print_range r"
| "print_set (r # rs) = print_range r @ '','' @ print_set rs"

definition end_ok :: "nat option \<Rightarrow> bool" where
  "end_ok e \<longleftrightarrow> (case e of None \<Rightarrow> True | Some n \<Rightarrow> 0 < n \<and> n \<le> unat UINT32_MAX)"

definition range_ok :: "seq_range \<Rightarrow> bool" where
  "range_ok r \<longleftrightarrow> end_ok (fst r) \<and> (case snd r of None \<Rightarrow> True | Some b \<Rightarrow> end_ok b)"

definition end_val :: "u32 \<Rightarrow> nat option \<Rightarrow> u32" where
  "end_val star e = (case e of None \<Rightarrow> star | Some n \<Rightarrow> of_nat n)"

definition covers :: "u32 \<Rightarrow> u32 \<Rightarrow> seq_range \<Rightarrow> bool" where
  "covers star n r =
     (let a = end_val star (fst r); b = (case snd r of None \<Rightarrow> a | Some e \<Rightarrow> end_val star e) in (a \<le> n \<and> n \<le> b) \<or> (b \<le> n \<and> n \<le> a))"

definition no_digit :: "string \<Rightarrow> bool" where
  "no_digit s \<longleftrightarrow> s = [] \<or> \<not> is_digit (hd s)"

lemma seq_digits_append:
  "list_all is_digit ds \<Longrightarrow> dec_value a ds \<le> unat UINT32_MAX \<Longrightarrow> no_digit r \<Longrightarrow> seq_digits a n (ds @ r) = Some (dec_value a ds, n + length ds)"
proof (induction ds arbitrary: a n)
  case Nil
  then show ?case by (cases r) (auto simp: no_digit_def)
next
  case (Cons d ds)
  then show ?case using dec_value_ge [of "a * 10 + digit_val d" ds] by (simp add: Let_def)
qed

lemma seq_digits_Some:
  "seq_digits a n s = Some (v, k) \<Longrightarrow>
   list_all is_digit (take (k - n) s) \<and> v = dec_value a (take (k - n) s) \<and> no_digit (drop (k - n) s) \<and> (a \<le> unat UINT32_MAX \<longrightarrow> v \<le> unat UINT32_MAX)"
proof (induction s arbitrary: a n)
  case (Cons c s)
  show ?case
  proof (cases "is_digit c")
    case True
    then have r: "seq_digits (a * 10 + digit_val c) (n + 1) s = Some (v, k)" "a * 10 + digit_val c \<le> unat UINT32_MAX"
      using Cons.prems by (auto simp: Let_def split: if_splits)
    have "n + 1 \<le> k" using seq_digits_mono [OF r(1)] by simp
    then obtain j where "k = n + 1 + j" using le_Suc_ex by blast
    then show ?thesis using Cons.IH [OF r(1)] r(2) True by (simp add: Suc_diff_le)
  qed (use Cons.prems in \<open>auto simp: no_digit_def\<close>)
qed (simp add: no_digit_def)

lemma print_end_not_Nil [simp]: "print_end e \<noteq> []"
  by (simp add: print_end_def split: option.split)

lemma seq_num_print:
  assumes "end_ok e" "no_digit r"
  shows "seq_num (print_end e @ r) = Some (e, length (print_end e))"
proof (cases e)
  case (Some k)
  obtain c cs where d: "dec_of_nat k = c # cs" by (cases "dec_of_nat k") auto
  have k: "0 < k" "k \<le> unat UINT32_MAX" using assms(1) Some by (simp_all add: end_ok_def)
  have c: "is_digit c" "c \<noteq> CHR ''0''" using dec_of_nat_dec(2) [of k] dec_of_nat_hd [OF k(1)] d by simp_all
  then have "c \<noteq> CHR ''*''" by (auto simp: is_digit_def)
  moreover have "seq_digits 0 0 (dec_of_nat k @ r) = Some (k, length (dec_of_nat k))"
    using seq_digits_append [of "dec_of_nat k" 0 r 0] k(2) assms(2) by (simp add: dec_of_nat_dec)
  ultimately show ?thesis using c d Some by (simp add: seq_num_def print_end_def)
qed (simp add: seq_num_def print_end_def)

lemma seq_num_Some:
  assumes "seq_num s = Some (e, n)"
  shows "end_ok e" "s = print_end e @ drop n s" "n = length (print_end e)"
proof -
  have "end_ok e \<and> s = print_end e @ drop n s \<and> n = length (print_end e)"
  proof (cases e)
    case None
    then show ?thesis using assms by (cases s) (auto simp: seq_num_def end_ok_def print_end_def split: if_splits)
  next
    case (Some v)
    then obtain c cs where s: "s = c # cs" "is_digit c" "c \<noteq> CHR ''0''" and d: "seq_digits 0 0 s = Some (v, n)"
      using assms by (cases s) (auto simp: seq_num_def split: if_splits)
    have t: "list_all is_digit (take n s)" "v = dec_value 0 (take n s)" "v \<le> unat UINT32_MAX" using seq_digits_Some [OF d] by simp_all
    have n: "0 < n" "n \<le> length s" using seq_num_pos [OF assms] by simp_all
    then have h: "take n s \<noteq> []" "hd (take n s) = c" using s by (auto simp: hd_take)
    then have "dec_of_nat v = take n s" using dec_of_nat_dec_value [of "take n s"] t s(3) by simp
    moreover have "0 < v" using dec_value_pos [OF h(1)] h s t(2) by simp
    ultimately show ?thesis using Some t(3) n by (simp add: end_ok_def print_end_def)
  qed
  then show "end_ok e" "s = print_end e @ drop n s" "n = length (print_end e)" by blast+
qed

text \<open>What may follow a range in a set.\<close>

definition set_tail :: "string \<Rightarrow> bool" where
  "set_tail r \<longleftrightarrow> r = [] \<or> hd r = CHR '',''"

lemma set_tail_no_digit: "set_tail r \<Longrightarrow> no_digit r" "no_digit (CHR '':'' # r)"
  by (auto simp: set_tail_def no_digit_def is_digit_def)

definition ordered :: "u32 \<Rightarrow> u32 \<Rightarrow> u32 \<times> u32" where
  "ordered lo hi = (if lo > hi then (hi, lo) else (lo, hi))"

definition range_val :: "u32 \<Rightarrow> seq_range \<Rightarrow> u32 \<times> u32" where
  "range_val star r =
     ordered (end_val star (fst r)) (case snd r of None \<Rightarrow> end_val star (fst r) | Some e \<Rightarrow> end_val star e)"

lemma tok_print:
  assumes "range_ok r" "set_tail t"
  shows "seqset_tok (print_range r @ t) star = Some (length (print_range r), range_val star r)"
proof -
  obtain a b where r: "r = (a, b)" by force
  have a: "end_ok a" using assms(1) r by (simp add: range_ok_def)
  show ?thesis
  proof (cases b)
    case None
    then have "seq_num (print_range r @ t) = Some (a, length (print_end a))"
      using seq_num_print [OF a set_tail_no_digit(1) [OF assms(2)]] r by (simp add: print_range_def)
    then show ?thesis using r None assms(2)
      by (auto simp: seqset_tok_def print_range_def set_tail_def range_val_def ordered_def end_val_def Let_def)
  next
    case (Some e)
    have e: "end_ok e" using assms(1) r Some by (simp add: range_ok_def)
    have 1: "seq_num (print_range r @ t) = Some (a, length (print_end a))"
      using seq_num_print [OF a set_tail_no_digit(2)] r Some by (simp add: print_range_def)
    have 2: "seq_num (print_end e @ t) = Some (e, length (print_end e))" by (rule seq_num_print [OF e set_tail_no_digit(1) [OF assms(2)]])
    show ?thesis using 1 2 r Some unfolding seqset_tok_def
      by (simp add: print_range_def range_val_def ordered_def end_val_def Let_def)
  qed
qed

lemma tok_Some:
  assumes "seqset_tok s star = Some (n, p)"
  obtains r where "range_ok r" "s = print_range r @ drop n s" "n = length (print_range r)"
proof -
  obtain a k where a: "seq_num s = Some (a, k)" using assms by (auto simp: seqset_tok_def Let_def split: option.splits)
  note A = seq_num_Some [OF a]
  show ?thesis
  proof (cases "drop k s \<noteq> [] \<and> hd (drop k s) = CHR '':''")
    case True
    then obtain b j where b: "seq_num (drop (k + 1) s) = Some (b, j)" and n: "n = k + 1 + j"
      using assms a by (auto simp: seqset_tok_def Let_def split: option.splits)
    note B = seq_num_Some [OF b]
    have "drop k s = CHR '':'' # drop (k + 1) s" using True by (metis drop_Suc Suc_eq_plus1 tl_drop list.collapse drop_drop)
    then have "s = print_end a @ '':'' @ print_end b @ drop j (drop (k + 1) s)" using A(2) B(2) by (metis append_Cons append_Nil)
    moreover have "drop j (drop (k + 1) s) = drop n s" using n by (simp add: add.commute)
    ultimately have "s = print_range (a, Some b) @ drop n s" by (simp add: print_range_def)
    moreover have "n = length (print_range (a, Some b))" using n A(3) B(3) by (simp add: print_range_def)
    ultimately show ?thesis using that [of "(a, Some b)"] A(1) B(1) by (simp add: range_ok_def)
  next
    case False
    then have n: "n = k" using assms a by (auto simp: seqset_tok_def Let_def)
    then show ?thesis using that [of "(a, None)"] A by (simp add: range_ok_def print_range_def)
  qed
qed

lemma print_set_Cons: "rs \<noteq> [] \<Longrightarrow> print_set (r # rs) = print_range r @ '','' @ print_set rs"
  by (cases rs) auto

definition rest_text :: "seq_range list \<Rightarrow> string" where
  "rest_text rs = (if rs = [] then [] else '','' @ print_set rs)"

lemma print_set_rest: "print_set (r # rs) = print_range r @ rest_text rs"
  by (cases "rs = []") (auto simp: rest_text_def print_set_Cons)

lemma set_tail_rest [simp]: "set_tail (rest_text rs)"
  by (simp add: set_tail_def rest_text_def)

lemma print_range_not_Nil [simp]: "print_range r \<noteq> []"
  by (simp add: print_range_def)

lemma seqset_more_print: "list_all range_ok rs \<Longrightarrow> seqset_more (rest_text rs)"
proof (induction rs)
  case Nil
  then show ?case by (simp add: rest_text_def seqset_more.simps)
next
  case (Cons r rs)
  then show ?case using tok_print [of r "rest_text rs" 1]
    by (simp add: rest_text_def [of "r # rs"] print_set_rest seqset_more.simps [of "CHR '','' # _"])
qed

lemma seqset_more_Some: "seqset_more s \<Longrightarrow> \<exists>rs. list_all range_ok rs \<and> s = rest_text rs"
proof (induction s rule: seqset_more.induct)
  case (1 s)
  show ?case
  proof (cases "s \<noteq> [] \<and> hd s = CHR '',''")
    case True
    then obtain n p where t: "seqset_tok (tl s) 1 = Some (n, p)" and m: "seqset_more (drop n (tl s))"
      using 1(2) by (subst (asm) seqset_more.simps) (auto split: option.splits)
    obtain r where r: "range_ok r" "tl s = print_range r @ drop n (tl s)" by (rule tok_Some [OF t]) blast
    obtain rs where rs: "list_all range_ok rs" "drop n (tl s) = rest_text rs" using 1(1) [OF True t] m by auto
    have "s = '','' @ print_set (r # rs)" using True r(2) rs(2) by (metis append_Cons append_Nil list.collapse print_set_rest)
    then show ?thesis using r(1) rs(1) by (intro exI [of _ "r # rs"]) (simp add: rest_text_def)
  next
    case False
    then have "s = []" using 1(2) by (subst (asm) seqset_more.simps) auto
    then show ?thesis by (intro exI [of _ "[]"]) (simp add: rest_text_def)
  qed
qed

lemma seqset_valid_iff: "imapd_seqset_valid s \<longleftrightarrow> (\<exists>rs. rs \<noteq> [] \<and> list_all range_ok rs \<and> s = print_set rs)"
proof
  assume "imapd_seqset_valid s"
  then obtain n p where t: "seqset_tok s 1 = Some (n, p)" and m: "seqset_more (drop n s)"
    by (auto simp: imapd_seqset_valid_def split: if_splits option.splits)
  obtain r where r: "range_ok r" "s = print_range r @ drop n s" by (rule tok_Some [OF t]) blast
  obtain rs where "list_all range_ok rs" "drop n s = rest_text rs" using seqset_more_Some [OF m] by blast
  then have "list_all range_ok (r # rs) \<and> s = print_set (r # rs)" using r by (simp add: print_set_rest)
  then show "\<exists>rs. rs \<noteq> [] \<and> list_all range_ok rs \<and> s = print_set rs" by blast
next
  assume "\<exists>rs. rs \<noteq> [] \<and> list_all range_ok rs \<and> s = print_set rs"
  then obtain r rs where s: "list_all range_ok (r # rs)" "s = print_set (r # rs)" by (metis list.exhaust)
  then show "imapd_seqset_valid s" using tok_print [of r "rest_text rs" 1] seqset_more_print [of rs]
    by (simp add: imapd_seqset_valid_def print_set_rest)
qed

lemma covers_range_val: "covers star n r \<longleftrightarrow> fst (range_val star r) \<le> n \<and> n \<le> snd (range_val star r)"
  by (auto simp: covers_def range_val_def ordered_def Let_def)

lemma seqset_has_loop_print:
  "rs \<noteq> [] \<Longrightarrow> list_all range_ok rs \<Longrightarrow> seqset_has_loop (print_set rs) n star \<longleftrightarrow> (\<exists>r \<in> set rs. covers star n r)"
proof (induction rs)
  case (Cons r rs)
  obtain lo hi where v: "range_val star r = (lo, hi)" by force
  have t: "seqset_tok (print_set (r # rs)) star = Some (length (print_range r), lo, hi)"
    using tok_print [of r "rest_text rs" star] Cons.prems v by (simp add: print_set_rest)
  have c: "covers star n r \<longleftrightarrow> lo \<le> n \<and> n \<le> hi" by (simp add: covers_range_val v)
  have d: "drop (length (print_range r)) (print_set (r # rs)) = rest_text rs" "print_set (r # rs) \<noteq> []" by (simp_all add: print_set_rest)
  have "drop (length (print_range r) + 1) (print_set (r # rs)) = tl (rest_text rs)" by (simp add: print_set_rest drop_Suc)
  then show ?case using t c d Cons by (subst seqset_has_loop.simps) (cases "rs = []"; auto simp: rest_text_def)
qed simp

text \<open>
  C38. A message set means what the protocol says. A string is accepted as a set exactly when it is a comma separated
  list of numbers from 1 to \<open>UINT32_MAX\<close>, stars and ranges of the two; and for an accepted set, a nonzero value of the star and any
  number, the membership test says yes exactly when one of the ranges covers the number, with the ends of a range in either order.
\<close>

theorem seqset_meaning:
  "(imapd_seqset_valid s \<longleftrightarrow> (\<exists>rs. rs \<noteq> [] \<and> list_all range_ok rs \<and> s = print_set rs)) \<and>
   (rs \<noteq> [] \<and> list_all range_ok rs \<longrightarrow> star \<noteq> 0 \<longrightarrow> (imapd_seqset_has (print_set rs) n star \<longleftrightarrow> list_ex (covers star n) rs))"
  using seqset_valid_iff seqset_has_loop_print by (auto simp: imapd_seqset_has_def list_ex_iff)

theorem seqset_meaning_witness:
  "imapd_seqset_valid ''2,4:*'' \<and> imapd_seqset_has ''2,4:*'' 3 3 \<and> \<not> imapd_seqset_has ''2,4:*'' 3 9"
proof -
  let ?rs = "[(Some 2, None), (Some 4, Some None)] :: seq_range list"
  have p: "print_set ?rs = ''2,4:*''" by code_simp
  have ok: "?rs \<noteq> [] \<and> list_all range_ok ?rs" by code_simp
  have "list_ex (covers 3 3) ?rs" "\<not> list_ex (covers 9 3) ?rs" by code_simp+
  then have "imapd_seqset_has ''2,4:*'' 3 3" "\<not> imapd_seqset_has ''2,4:*'' 3 9"
    using seqset_meaning [THEN conjunct2, rule_format, OF ok, of 3 3] seqset_meaning [THEN conjunct2, rule_format, OF ok, of 9 3] unfolding p by simp_all
  moreover have "imapd_seqset_valid ''2,4:*''" using seqset_meaning [THEN conjunct1] ok p by metis
  ultimately show ?thesis by blast
qed

section \<open>Wildcards\<close>

text \<open>The meaning of a pattern (RFC 3501): a star matches anything, a percent sign anything without the hierarchy separator.\<close>

inductive glob :: "string \<Rightarrow> string \<Rightarrow> bool" where
  nil: "glob [] []"
| star: "glob pat v \<Longrightarrow> glob (CHR ''*'' # pat) (u @ v)"
| percent: "glob pat v \<Longrightarrow> DOT \<notin> set u \<Longrightarrow> glob (CHR ''%'' # pat) (u @ v)"
| char: "p \<noteq> CHR ''*'' \<Longrightarrow> p \<noteq> CHR ''%'' \<Longrightarrow> to_lower p = to_lower c \<Longrightarrow> glob pat cs \<Longrightarrow> glob (p # pat) (c # cs)"

inductive_cases glob_elims: "glob [] s" "glob (p # pat) s"

definition wild :: "char \<Rightarrow> bool" where
  "wild p \<longleftrightarrow> p = CHR ''*'' \<or> p = CHR ''%''"

text \<open>Patterns in which an ordinary character follows every wildcard but the last, and no separator follows a percent sign.\<close>

fun tame :: "string \<Rightarrow> bool" where
  "tame (p # q # pat) \<longleftrightarrow> (wild p \<longrightarrow> \<not> wild q) \<and> (p = CHR ''%'' \<longrightarrow> q \<noteq> DOT) \<and> tame (q # pat)"
| "tame _ \<longleftrightarrow> True"

lemma wildmat_sound:
  "imapd_wildmat pat s \<Longrightarrow> glob pat s"
  "wild_star pat s \<Longrightarrow> \<exists>u v. s = u @ v \<and> glob pat v"
  "wild_percent pat s \<Longrightarrow> \<exists>u v. s = u @ v \<and> DOT \<notin> set u \<and> glob pat v"
proof (induction pat s and pat s and pat s rule: imapd_wildmat_wild_star_wild_percent.induct)
  case (1 s)
  then show ?case by (auto intro: glob.nil)
next
  case (2 p pat s)
  consider (star) "p = CHR ''*''" | (percent) "p = CHR ''%''" | (char) "p \<noteq> CHR ''*''" "p \<noteq> CHR ''%''" by blast
  then show ?case
  proof cases
    case star
    then show ?thesis
    proof (cases "pat = []")
      case True
      then show ?thesis using star glob.star [OF glob.nil, of s] by simp
    next
      case False
      then obtain u v where "s = u @ v" "glob pat v" using 2 star by auto
      then show ?thesis using star glob.star by simp
    qed
  next
    case percent
    then show ?thesis
    proof (cases "pat = []")
      case True
      then show ?thesis using 2(4) percent glob.percent [OF glob.nil, of s] by simp
    next
      case False
      then obtain u v where "s = u @ v" "DOT \<notin> set u" "glob pat v" using 2 percent by auto
      then show ?thesis using percent glob.percent by simp
    qed
  next
    case char
    then show ?thesis using 2(3,4) by (auto intro!: glob.char split: list.splits if_splits)
  qed
next
  case (4 pat c cs)
  show ?case
  proof (cases "imapd_wildmat pat (c # cs)")
    case True
    then show ?thesis using 4(1) by (intro exI [of _ "[]"] exI [of _ "c # cs"]) simp
  next
    case False
    then obtain u v where "cs = u @ v" "glob pat v" using 4 by auto
    then show ?thesis by (intro exI [of _ "c # u"] exI [of _ v]) simp
  qed
next
  case (6 pat c cs)
  then have c: "c \<noteq> DOT" by auto
  show ?case
  proof (cases "imapd_wildmat pat (c # cs)")
    case True
    then show ?thesis using 6(1) c by (intro exI [of _ "[]"] exI [of _ "c # cs"]) simp
  next
    case False
    then obtain u v where "cs = u @ v" "DOT \<notin> set u" "glob pat v" using 6 c by auto
    then show ?thesis using c by (intro exI [of _ "c # u"] exI [of _ v]) simp
  qed
qed simp_all

lemma wild_star_append: "imapd_wildmat pat v \<Longrightarrow> v \<noteq> [] \<Longrightarrow> wild_star pat (u @ v)"
proof (induction u)
  case Nil
  then show ?case by (cases v) auto
qed auto

lemma wild_percent_append: "imapd_wildmat pat v \<Longrightarrow> v \<noteq> [] \<Longrightarrow> hd v \<noteq> DOT \<Longrightarrow> DOT \<notin> set u \<Longrightarrow> wild_percent pat (u @ v)"
proof (induction u)
  case Nil
  then show ?case by (cases v) auto
qed auto

lemma to_lower_dot: "to_lower c = DOT \<longleftrightarrow> c = DOT"
proof -
  have "to_lower DOT = DOT" by (simp add: to_lower_small)
  moreover have "to_lower c = DOT \<Longrightarrow> c = DOT"
  proof -
    assume l: "to_lower c = DOT"
    have "\<not> is_upper c" using byte_to_lower [of c] l by (auto simp: is_upper_def)
    then show "c = DOT" using l by (simp add: to_lower_def)
  qed
  ultimately show ?thesis by blast
qed

lemma glob_char: "glob (q # pat) v \<Longrightarrow> \<not> wild q \<Longrightarrow> \<exists>c cs. v = c # cs \<and> to_lower c = to_lower q"
  by (erule glob_elims) (auto simp: wild_def)

lemma tame_tl: "tame (p # pat) \<Longrightarrow> tame pat"
  by (cases pat) auto

lemma wildmat_complete: "glob pat s \<Longrightarrow> tame pat \<Longrightarrow> imapd_wildmat pat s"
proof (induction rule: glob.induct)
  case (star pat v u)
  show ?case
  proof (cases pat)
    case (Cons q pat')
    then have "\<not> wild q" using star(3) by (simp add: wild_def)
    then have "v \<noteq> []" using glob_char star(1) Cons by blast
    then show ?thesis using star tame_tl [OF star(3)] wild_star_append Cons by auto
  qed simp
next
  case (percent pat v u)
  show ?case
  proof (cases pat)
    case Nil
    then show ?thesis using percent by (auto elim: glob_elims)
  next
    case (Cons q pat')
    then have q: "\<not> wild q" "q \<noteq> DOT" using percent(4) by (simp_all add: wild_def)
    then obtain c cs where v: "v = c # cs" "to_lower c = to_lower q" using glob_char percent(1) Cons by blast
    then have "c \<noteq> DOT" using q(2) to_lower_dot by metis
    then show ?thesis using percent tame_tl [OF percent(4)] wild_percent_append [of pat v u] Cons v by auto
  qed
next
  case (char p c pat cs)
  then show ?case using tame_tl by simp
qed simp

lemma percent_before_dot: "\<not> imapd_wildmat (CHR ''%'' # DOT # pat) s"
proof -
  have "\<not> wild_percent (DOT # pat) s"
  proof (induction s)
    case (Cons c cs)
    have "to_lower DOT \<noteq> to_lower c" if "c \<noteq> DOT" using that to_lower_dot [of c] to_lower_dot [of DOT] by metis
    then show ?case using Cons by auto
  qed simp
  then show ?thesis by simp
qed

text \<open>
  C40. What LIST matches. The matcher never matches a name that the pattern does not stand for; and it matches every name that the
  pattern stands for, provided each wildcard is last or stands before an ordinary character and no percent sign stands before the hierarchy
  separator. The proviso is needed: a percent sign before a separator (as in \<open>%.%\<close>, the folders on the second level)
  matches no name at all, because the loop stops at the separator before trying the rest of the pattern there.
\<close>

theorem wildmat_meaning:
  "(imapd_wildmat pat s \<longrightarrow> glob pat s) \<and> (tame pat \<longrightarrow> glob pat s \<longrightarrow> imapd_wildmat pat s) \<and>
   \<not> imapd_wildmat (CHR ''%'' # DOT # pat) s"
  using wildmat_sound(1) wildmat_complete percent_before_dot by blast

theorem wildmat_meaning_witness:
  "imapd_wildmat ''a*B'' ''axb'' \<and> glob ''a*B'' ''axb'' \<and> tame ''%.b'' = False \<and> glob ''%.b'' ''a.b'' \<and> \<not> imapd_wildmat ''%.b'' ''a.b''"
proof -
  have "imapd_wildmat ''a*B'' ''axb''" by code_simp
  moreover have "glob ''%.b'' ([CHR ''a''] @ [DOT, CHR ''b''])"
    by (rule glob.percent) (auto intro!: glob.char glob.nil)
  moreover have "tame ''%.b'' = False" by simp
  ultimately show ?thesis using wildmat_meaning [of "''a*B''" "''axb''"] wildmat_meaning [of "''b''" "''a.b''"] by simp
qed

section \<open>Directories\<close>

lemma list_all_no_slash: "list_all imapd_user_char u \<Longrightarrow> CHR ''/'' \<notin> set u" "list_all mbox_char m \<Longrightarrow> CHR ''/'' \<notin> set m"
  by (auto simp: list_all_iff imapd_user_char_def mbox_char_def is_upper_def is_lower_def is_digit_def)

lemma slash_split: "CHR ''/'' \<notin> set u \<Longrightarrow> CHR ''/'' \<notin> set v \<Longrightarrow> u @ CHR ''/'' # x = v @ CHR ''/'' # y \<Longrightarrow> u = v \<and> x = y"
proof (induction u arbitrary: v)
  case Nil
  then show ?case by (cases v) auto
next
  case (Cons c u)
  then show ?case by (cases v) auto
qed

definition leaf :: "string \<Rightarrow> string" where
  "leaf name = (if ascii_ieq_str name ''INBOX'' then ''Inbox'' else CHR ''.'' # name)"

lemma mbox_dir_Some:
  assumes "imapd_mbox_dir cfg user name sz = Some d"
  shows "d = im_root cfg @ ''/'' @ user @ ''/'' @ leaf name" "imapd_user_ok user" "CHR ''/'' \<notin> set (leaf name)"
    "leaf name \<noteq> ''.'' \<and> leaf name \<noteq> ''..'' \<and> leaf name \<noteq> []" "length d < sz"
  using assms list_all_no_slash(2) [of name]
  by (auto simp: imapd_mbox_dir_def leaf_def imapd_mbox_name_ok_def Let_def split: if_splits)

text \<open>
  C39. Mailboxes are kept apart. A directory that is given out lies exactly two levels below the mail root: the user's name and one
  more component, neither of which contains a slash or is a dot name, so nothing outside the user's own directory can be named;
  and two pairs of user and mailbox have the same directory only if the users are equal and the mailboxes are equal or both spell INBOX.
\<close>

theorem mbox_dir_isolated:
  assumes "imapd_mbox_dir cfg user name sz = Some d"
  shows "(\<exists>l. d = im_root cfg @ ''/'' @ user @ ''/'' @ l \<and> CHR ''/'' \<notin> set user \<and> CHR ''/'' \<notin> set l \<and> l \<notin> {[], ''.'', ''..''} \<and> user \<notin> {[], ''.'', ''..''}) \<and>
    (imapd_mbox_dir cfg user' name' sz' = Some d \<longrightarrow>
       user' = user \<and> (name' = name \<or> ascii_ieq_str name ''INBOX'' \<and> ascii_ieq_str name' ''INBOX''))"
proof -
  note A = mbox_dir_Some [OF assms]
  have u: "CHR ''/'' \<notin> set user" "user \<notin> {[], ''.'', ''..''}" using A(2) list_all_no_slash(1) by (auto simp: imapd_user_ok_def)
  have "user' = user \<and> (name' = name \<or> ascii_ieq_str name ''INBOX'' \<and> ascii_ieq_str name' ''INBOX'')"
    if b: "imapd_mbox_dir cfg user' name' sz' = Some d"
  proof -
    note B = mbox_dir_Some [OF b]
    have u': "CHR ''/'' \<notin> set user'" using B(2) list_all_no_slash(1) by (auto simp: imapd_user_ok_def)
    have "user @ CHR ''/'' # leaf name = user' @ CHR ''/'' # leaf name'" using A(1) B(1) by simp
    then have "user = user' \<and> leaf name = leaf name'" by (rule slash_split [OF u(1) u'])
    then show ?thesis by (auto simp: leaf_def split: if_splits)
  qed
  then show ?thesis using A u by blast
qed

definition demo_imapd :: ImapdConfig where
  "demo_imapd = \<lparr>im_root = ''m'', im_hostname = ''h'', im_max_msg = 1000, im_cmd_tmo = 0, im_data_tmo = 0\<rparr>"

theorem mbox_dir_isolated_witness:
  "imapd_mbox_dir demo_imapd ''ann'' ''inbox'' 100 = Some ''m/ann/Inbox'' \<and> imapd_mbox_dir demo_imapd ''bob'' ''inbox'' 100 \<noteq> Some ''m/ann/Inbox'' \<and>
   imapd_mbox_dir demo_imapd ''ann'' ''../bob'' 100 = None"
proof -
  have d: "imapd_mbox_dir demo_imapd ''ann'' ''inbox'' 100 = Some ''m/ann/Inbox''" by code_simp
  moreover have "imapd_mbox_dir demo_imapd ''ann'' ''../bob'' 100 = None" by code_simp
  ultimately show ?thesis using mbox_dir_isolated [OF d, of "''bob''" "''inbox''" 100] by auto
qed

end
