(* ===== verification/Maildir_Uidlist_Proofs.thy ===== *)
theory Maildir_Uidlist_Proofs
  imports Maildir_Hash_Proofs Maildir_Names_Proofs
begin

text \<open>
  The table of message numbers: the merge of two tables against a reference without hash tables, the uniqueness and monotonicity of the
  numbers it leaves, the stability of the numbers that are on disk, and the round trip of the file.
\<close>

section \<open>The reference merge\<close>

definition ref_row :: "string set \<Rightarrow> UidEnt \<Rightarrow> UidEnt list \<Rightarrow> UidEnt list" where
  "ref_row dead src mv =
     (if u_base src = [] \<or> u_uid src = 0 \<or> u_base src \<in> dead then mv
      else if u_base src \<in> u_base ` set mv
      then map (\<lambda>e. if u_base e = u_base src \<and> u_modseq e < u_modseq src then uident_copy src else e) mv
      else mv @ [uident_copy src])"

definition idx_ok :: "UidEnt list \<Rightarrow> BaseHash \<Rightarrow> nat \<Rightarrow> bool" where
  "idx_ok mv idx n \<longleftrightarrow> bh_room idx n \<and> distinct (map u_base mv) \<and>
     (\<forall>b v. bh_get idx b = Some v \<longleftrightarrow> (\<exists>i < length mv. v = of_nat i \<and> u_base (mv ! i) = b))"

lemma copy_base [simp]: "u_base (uident_copy e) = u_base e" "u_uid (uident_copy e) = u_uid e" "u_modseq (uident_copy e) = u_modseq e"
  by (simp_all add: uident_copy_def)

lemma unat_of_nat_small: "n < 2 ^ 32 \<Longrightarrow> unat (of_nat n :: u32) = n"
  by (simp add: unat_of_nat)

lemma ref_row_bases: "distinct (map u_base mv) \<Longrightarrow> distinct (map u_base (ref_row dead src mv))"
  "set (map u_base (ref_row dead src mv)) =
     set (map u_base mv) \<union> (if u_base src = [] \<or> u_uid src = 0 \<or> u_base src \<in> dead then {} else {u_base src})"
proof -
  have m: "map u_base (map (\<lambda>e. if u_base e = u_base src \<and> u_modseq e < u_modseq src then uident_copy src else e) mv) = map u_base mv"
    by (induction mv) auto
  show "distinct (map u_base mv) \<Longrightarrow> distinct (map u_base (ref_row dead src mv))"
    unfolding ref_row_def using m by (auto simp del: map_map map_eq_conv)
  show "set (map u_base (ref_row dead src mv)) =
     set (map u_base mv) \<union> (if u_base src = [] \<or> u_uid src = 0 \<or> u_base src \<in> dead then {} else {u_base src})"
    unfolding ref_row_def using m by (auto simp del: map_map set_map map_eq_conv) (auto simp: image_iff)
qed

lemma map_update_nth:
  "distinct (map f xs) \<Longrightarrow> i < length xs \<Longrightarrow> f (xs ! i) = b \<Longrightarrow> map (\<lambda>e. if f e = b \<and> P e then y else e) xs = (if P (xs ! i) then xs[i := y] else xs)"
proof (rule nth_equalityI)
  fix j
  assume d: "distinct (map f xs)" "i < length xs" "f (xs ! i) = b" and "j < length (map (\<lambda>e. if f e = b \<and> P e then y else e) xs)"
  then have j: "j < length xs" by simp
  then have "f (xs ! j) = b \<longleftrightarrow> j = i" using d by (metis distinct_conv_nth length_map nth_map)
  then show "map (\<lambda>e. if f e = b \<and> P e then y else e) xs ! j = (if P (xs ! i) then xs[i := y] else xs) ! j"
    using j d(2) by (auto simp: nth_list_update)
qed simp

lemma merge_row_ref:
  assumes "idx_ok mv idx (Suc n)" "length mv + Suc n < 2 ^ 32" "\<And>b. buried t b \<longleftrightarrow> b \<in> dead"
  shows "fst (merge_row t src (mv, idx)) = ref_row dead src mv" "idx_ok (ref_row dead src mv) (snd (merge_row t src (mv, idx))) n"
    "length (ref_row dead src mv) \<le> Suc (length mv)"
proof -
  have room: "bh_room idx (Suc n)" and dist: "distinct (map u_base mv)"
    and get: "\<And>b v. bh_get idx b = Some v \<longleftrightarrow> (\<exists>i < length mv. v = of_nat i \<and> u_base (mv ! i) = b)"
    using assms(1) by (simp_all add: idx_ok_def)
  have room': "bh_room idx n" using room by (simp add: bh_room_def)
  show "length (ref_row dead src mv) \<le> Suc (length mv)" by (simp add: ref_row_def)
  let ?b = "u_base src"
  consider (skip) "?b = [] \<or> u_uid src = 0 \<or> ?b \<in> dead" | (old) "\<not> (?b = [] \<or> u_uid src = 0 \<or> ?b \<in> dead)" "?b \<in> u_base ` set mv"
    | (new) "\<not> (?b = [] \<or> u_uid src = 0 \<or> ?b \<in> dead)" "?b \<notin> u_base ` set mv" by blast
  then have "fst (merge_row t src (mv, idx)) = ref_row dead src mv \<and> idx_ok (ref_row dead src mv) (snd (merge_row t src (mv, idx))) n"
  proof cases
    case skip
    then show ?thesis using assms(1,3) room' by (auto simp: merge_row_def ref_row_def idx_ok_def)
  next
    case old
    then obtain i where i: "i < length mv" "u_base (mv ! i) = ?b" by (auto simp: in_set_conv_nth)
    then have g: "bh_get idx ?b = Some (of_nat i)" using get by blast
    have u: "unat (of_nat i :: u32) = i" using i(1) assms(2) by (intro unat_of_nat_small) simp
    have r: "ref_row dead src mv = (if u_modseq (mv ! i) < u_modseq src then mv[i := uident_copy src] else mv)"
      unfolding ref_row_def using old map_update_nth [OF dist i, of "\<lambda>e. u_modseq e < u_modseq src"] by simp
    have b: "map u_base (mv[i := uident_copy src]) = map u_base mv" using i by (simp add: map_update) (metis list_update_id length_map nth_map)
    have e: "merge_row t src (mv, idx) = (if u_modseq src \<le> u_modseq (mv ! i) then (mv, idx) else (mv[i := uident_copy src], idx))"
      using old(1) assms(3) g u by (simp add: merge_row_def)
    have "idx_ok (mv[i := uident_copy src]) idx n" using b get dist room' i unfolding idx_ok_def
      by (metis length_list_update length_map nth_map)
    moreover have "idx_ok mv idx n" using get dist room' by (simp add: idx_ok_def)
    ultimately show ?thesis unfolding e r by (cases "u_modseq src \<le> u_modseq (mv ! i)") (auto simp: not_le)
  next
    case new
    have g: "bh_get idx ?b = None"
    proof (rule ccontr)
      assume "bh_get idx ?b \<noteq> None"
      then obtain v where "bh_get idx ?b = Some v" by blast
      then obtain i where "i < length mv" "u_base (mv ! i) = ?b" using get by blast
      then show False using new(2) nth_mem by (metis imageI)
    qed
    have r: "ref_row dead src mv = mv @ [uident_copy src]" using new by (simp add: ref_row_def)
    note p = bh_put_room [OF room, of ?b "of_nat (length mv)"]
    have get': "bh_get (bh_put idx ?b (of_nat (length mv))) b = Some v \<longleftrightarrow>
        (\<exists>i < length (mv @ [uident_copy src]). v = of_nat i \<and> u_base ((mv @ [uident_copy src]) ! i) = b)" for b v
    proof (cases "b = ?b")
      case True
      have "u_base (mv ! i) \<noteq> ?b" if "i < length mv" for i using new(2) that nth_mem by (metis imageI)
      then show ?thesis using True unfolding p(2) by (auto simp: less_Suc_eq nth_append)
    next
      case False
      then show ?thesis using get [of b v] unfolding p(2) by (auto simp: less_Suc_eq nth_append)
    qed
    have "distinct (map u_base (mv @ [uident_copy src]))" using dist new(2) by simp
    then show ?thesis using new(1) assms(3) g r p(1) get' by (auto simp: merge_row_def idx_ok_def)
  qed
  then show "fst (merge_row t src (mv, idx)) = ref_row dead src mv" "idx_ok (ref_row dead src mv) (snd (merge_row t src (mv, idx))) n" by blast+
qed

lemma merge_fold_ref:
  assumes "idx_ok mv idx (length rows)" "length mv + length rows < 2 ^ 32" "\<And>b. buried t b \<longleftrightarrow> b \<in> dead"
  shows "fst (fold (merge_row t) rows (mv, idx)) = fold (ref_row dead) rows mv"
  using assms
proof (induction rows arbitrary: mv idx)
  case (Cons src rows)
  obtain mv' idx' where m: "merge_row t src (mv, idx) = (mv', idx')" by force
  note r = merge_row_ref [of mv idx "length rows" t dead src]
  have "mv' = ref_row dead src mv" "idx_ok mv' idx' (length rows)" "length mv' \<le> Suc (length mv)" using r Cons.prems m by auto
  then show ?case using Cons.IH [of mv' idx'] Cons.prems m by simp
qed simp

lemma tomb_fold:
  "bh_room h (length xs) \<Longrightarrow>
   bh_get (fold (\<lambda>(i, b) h. bh_put h b (of_nat i)) xs h) b \<noteq> None \<longleftrightarrow> b \<in> snd ` set xs \<or> bh_get h b \<noteq> None"
proof (induction xs arbitrary: h)
  case (Cons x xs)
  obtain i a where x: "x = (i, a)" by force
  note p = bh_put_room [of h "length xs" a "of_nat i"]
  show ?case using Cons.IH [of "bh_put h a (of_nat i)"] Cons.prems p by (auto simp: x)
qed simp

lemma buried_iff: "buried (tomb_table tomb) b \<longleftrightarrow> b \<in> set tomb"
proof (cases "tomb = []")
  case False
  have "bh_get (fold (\<lambda>(i, b) h. bh_put h b (of_nat i)) (enumerate 0 tomb) (bh_init (length tomb))) b \<noteq> None \<longleftrightarrow> b \<in> snd ` set (enumerate 0 tomb)"
    using tomb_fold [of "bh_init (length tomb)" "enumerate 0 tomb" b] bh_init_room by simp
  also have "snd ` set (enumerate 0 tomb) = set tomb" by (metis list.set_map map_snd_enumerate)
  finally show ?thesis using False by (simp add: buried_def tomb_table_def)
qed (simp add: buried_def tomb_table_def)

section \<open>Numbers given again\<close>

abbreviation below :: "u32 \<Rightarrow> UidEnt \<Rightarrow> bool" where
  "below un e \<equiv> 0 < u_uid e \<and> u_uid e < un"

lemma succ_u32: "unat x + 1 < 2 ^ 32 \<Longrightarrow> unat (x + 1 :: u32) = unat x + 1"
  by (simp add: unat_plus_simple word_le_nat_alt unat_word_ariths)

lemma bump_next_step:
  fixes un :: u32
  assumes "unat un \<le> K" "unat (u_uid e) < K" "K < 2 ^ 32" "0 < un"
  defines "un1 \<equiv> if u_uid e \<ge> un then u_uid e + 1 else un"
  shows "un \<le> un1" "u_uid e < un1" "unat un1 \<le> K" "0 < un1"
proof -
  have s: "unat (u_uid e + 1) = unat (u_uid e) + 1" using assms(2,3) by (intro succ_u32) simp
  show "un \<le> un1" "u_uid e < un1" "unat un1 \<le> K" "0 < un1"
    using s assms by (auto simp: un1_def word_le_nat_alt word_less_nat_alt)
qed

lemma bump_next_sound:
  assumes "unat un \<le> K" "\<forall>e\<in>set mv. unat (u_uid e) < K" "K < 2 ^ 32" "0 < un"
  shows "un \<le> bump_next un mv \<and> unat (bump_next un mv) \<le> K \<and> (\<forall>e\<in>set mv. u_uid e < bump_next un mv)"
  using assms
proof (induction mv arbitrary: un)
  case (Cons e mv)
  define un1 where "un1 = (if u_uid e \<ge> un then u_uid e + 1 else un)"
  note b = bump_next_step [of un K e, folded un1_def]
  have s: "un \<le> un1" "u_uid e < un1" "unat un1 \<le> K" "0 < un1" using b Cons.prems by auto
  have "bump_next un (e # mv) = bump_next un1 mv" by (simp add: bump_next_def un1_def)
  then show ?case using Cons.IH [of un1] Cons.prems s by auto
qed (simp add: bump_next_def)

text \<open>The first row that claims a number keeps it; every other one gets a fresh number.\<close>

definition reminted :: "u32 set \<Rightarrow> u32 \<Rightarrow> u32 \<Rightarrow> UidEnt list \<Rightarrow> UidEnt list \<Rightarrow> bool" where
  "reminted seen un un' es es' \<longleftrightarrow>
     length es' = length es \<and> un \<le> un' \<and> unat un' \<le> unat un + length es \<and> map u_base es' = map u_base es \<and> map u_mid es' = map u_mid es \<and> distinct (map u_uid es') \<and>
     (\<forall>e\<in>set es'. below un' e \<and> u_uid e \<notin> seen) \<and>
     (\<forall>i < length es. if u_uid (es ! i) \<in> seen \<union> u_uid ` set (take i es) then un \<le> u_uid (es' ! i) else es' ! i = es ! i)"

lemma reminted_Cons_kept:
  assumes "reminted (insert (u_uid e) seen) un un' es es'" "u_uid e \<notin> seen" "below un e"
  shows "reminted seen un un' (e # es) (e # es')"
proof -
  have "if u_uid ((e # es) ! i) \<in> seen \<union> u_uid ` set (take i (e # es)) then un \<le> u_uid ((e # es') ! i) else (e # es') ! i = (e # es) ! i"
    if "i < length (e # es)" for i
    using that assms by (cases i) (auto simp: reminted_def)
  then show ?thesis using assms by (auto simp: reminted_def)
qed

lemma reminted_Cons_fresh:
  assumes "reminted (insert un seen) (un + 1) un' es es'" "u_uid e \<in> seen" "unat un + 1 < 2 ^ 32" "0 < un" "\<forall>u\<in>seen. u < un"
    "\<forall>f\<in>set es. u_uid f < un" "u_base e' = u_base e" "u_uid e' = un" "u_mid e' = u_mid e"
  shows "reminted seen un un' (e # es) (e' # es')"
proof -
  have s: "unat (un + 1) = unat un + 1" using assms(3) by (rule succ_u32)
  then have lt: "un < un + 1" by (simp add: word_less_nat_alt)
  have r: "un + 1 \<le> un'" using assms(1) by (simp add: reminted_def)
  have d: "if u_uid ((e # es) ! i) \<in> seen \<union> u_uid ` set (take i (e # es)) then un \<le> u_uid ((e' # es') ! i) else (e' # es') ! i = (e # es) ! i"
    if "i < length (e # es)" for i
  proof (cases i)
    case (Suc j)
    have j: "j < length es" using that Suc by simp
    have ne: "u_uid (es ! j) \<noteq> un" using assms(6) j nth_mem by (metis less_irrefl)
    have "if u_uid (es ! j) \<in> insert un seen \<union> u_uid ` set (take j es) then un + 1 \<le> u_uid (es' ! j) else es' ! j = es ! j"
      using assms(1) j by (simp add: reminted_def)
    then show ?thesis using Suc ne assms(2) lt by (auto split: if_splits)
  qed (use assms in auto)
  have "un \<notin> seen" using assms(5) by auto
  then show ?thesis using assms s lt r d unfolding reminted_def by auto
qed

lemma remint_sound:
  assumes "remint us un es = (un', es')" "us_room us (length es)" "us.keys us = seen" "unat un + length es < 2 ^ 32"
    "\<forall>e\<in>set es. below un e" "\<forall>u\<in>seen. u < un" "0 < un"
  shows "reminted seen un un' es es'"
  using assms
proof (induction es arbitrary: us un un' es' seen)
  case Nil
  then show ?case by (simp add: reminted_def)
next
  case (Cons e es)
  obtain absent us' where a: "us_add us (u_uid e) = (absent, us')" by force
  have e0: "u_uid e \<noteq> 0" and eb: "below un e" using Cons.prems(5) by auto
  have room: "us_room us (Suc (length es))" using Cons.prems(2) by simp
  note add = us_add_room [OF room e0 a]
  show ?case
  proof (cases absent)
    case True
    obtain un1 es1 where r: "remint us' un es = (un1, es1)" by force
    have "es' = e # es1" "un1 = un'" using Cons.prems(1) a True r by auto
    moreover have "reminted (insert (u_uid e) seen) un un1 es es1"
      using Cons.IH [OF r] add(1,3) Cons.prems eb by auto
    ultimately show ?thesis using reminted_Cons_kept add(2) True Cons.prems(3) eb by auto
  next
    case False
    have us': "us' = us" using add(4) False by simp
    have un0: "un \<noteq> 0" using Cons.prems(7) by auto
    obtain b us2 where a2: "us_add us un = (b, us2)" by force
    note add2 = us_add_room [OF room un0 a2]
    obtain un1 es1 where r: "remint us2 (un + 1) es = (un1, es1)" by force
    have s: "unat (un + 1) = unat un + 1" using Cons.prems(4) by (intro succ_u32) simp
    then have lt: "un < un + 1" by (simp add: word_less_nat_alt)
    have "es' = e\<lparr>u_uid := un, u_modseq := ucast (un + 1)\<rparr> # es1" "un1 = un'" using Cons.prems(1) a False r us' un0 a2 by auto
    moreover have "reminted (insert un seen) (un + 1) un1 es es1"
    proof (rule Cons.IH [OF r])
      show "us_room us2 (length es)" by (rule add2(1))
      show "us.keys us2 = insert un seen" using add2(3) Cons.prems(3) by simp
      show "unat (un + 1) + length es < 2 ^ 32" using s Cons.prems(4) by simp
      show "\<forall>e\<in>set es. below (un + 1) e" "\<forall>u\<in>insert un seen. u < un + 1" using Cons.prems(5,6) lt by (auto intro: less_trans)
      show "0 < un + 1" using lt Cons.prems(7) by (rule less_trans [rotated])
    qed
    moreover have "u_uid e \<in> seen" using add(2) False Cons.prems(3) by simp
    ultimately show ?thesis using reminted_Cons_fresh [of un seen un1 es es1 e] Cons.prems by auto
  qed
qed

section \<open>The merge\<close>

text \<open>The rows that count: of both sides when the generations agree, else of the larger one, without the deleted ones.\<close>

definition live_rows :: "string set \<Rightarrow> u32 \<Rightarrow> UidEnt list \<Rightarrow> u32 \<Rightarrow> UidEnt list \<Rightarrow> UidEnt list" where
  "live_rows dead duv dv uv v =
     filter (\<lambda>e. u_base e \<noteq> [] \<and> u_uid e \<noteq> 0 \<and> u_base e \<notin> dead)
       ((if uv \<noteq> 0 \<and> duv < uv \<and> duv \<noteq> 0 then [] else dv) @ (if uv \<noteq> 0 \<and> uv < duv then [] else v))"

lemma ref_row_filter:
  "fold (ref_row dead) rows mv = fold (ref_row dead) (filter (\<lambda>e. u_base e \<noteq> [] \<and> u_uid e \<noteq> 0 \<and> u_base e \<notin> dead) rows) mv"
  by (induction rows arbitrary: mv) (auto simp: ref_row_def)

lemma ref_rows_members:
  "set (fold (ref_row dead) rows mv) \<subseteq> set mv \<union> uident_copy ` set rows"
  "u_base ` set (fold (ref_row dead) rows mv) =
     u_base ` set mv \<union> u_base ` {e \<in> set rows. u_base e \<noteq> [] \<and> u_uid e \<noteq> 0 \<and> u_base e \<notin> dead}"
  "distinct (map u_base mv) \<Longrightarrow> distinct (map u_base (fold (ref_row dead) rows mv))"
proof (induction rows arbitrary: mv)
  case (Cons r rows)
  have a: "set (ref_row dead r mv) \<subseteq> insert (uident_copy r) (set mv)" for mv by (auto simp: ref_row_def)
  have b: "u_base ` set (ref_row dead r mv) = u_base ` set mv \<union> (if u_base r = [] \<or> u_uid r = 0 \<or> u_base r \<in> dead then {} else {u_base r})" for mv
    using ref_row_bases(2) [of dead r mv] by simp
  { case 1 show ?case using Cons.IH(1) [of "ref_row dead r mv"] a [of mv] by (simp add: subset_iff) blast }
  { case 2 show ?case using Cons.IH(2) [of "ref_row dead r mv"] b [of mv] by auto }
  { case 3 then show ?case using Cons.IH(3) [OF ref_row_bases(1)] by simp }
qed auto

text \<open>The merge is the reference merge of the rows that count, then the numbering.\<close>

lemma uidlist_merge_ref:
  assumes "uidlist_load file 0 1 = (duv, dun, dv)" "length v + length dv < 2 ^ 32"
    "uidlist_merge file tomb uv un v = (uv', un', rows)"
  obtains mv n where "mv = fold (ref_row (set tomb)) (live_rows (set tomb) duv dv uv v) []" "length mv \<le> n"
    "uv' = (if duv \<le> uv then uv else duv)"
    "remint (us_init (n + 8)) (bump_next (if un > (if dun = 0 then 1 else dun) then un else if dun = 0 then 1 else dun) mv) mv = (un', rows)"
proof -
  let ?clash = "duv \<noteq> 0 \<and> uv \<noteq> 0 \<and> duv \<noteq> uv"
  define mem where "mem = (if ?clash \<and> duv > uv then [] else v)"
  define disk where "disk = (if ?clash \<and> \<not> duv > uv then [] else dv)"
  define st where "st = fold (merge_row (tomb_table tomb)) (disk @ mem) ([], bh_init (length mem + length disk))"
  have l: "length (disk @ mem) < 2 ^ 32" using assms(2) by (simp add: mem_def disk_def)
  have "idx_ok [] (bh_init (length mem + length disk)) (length (disk @ mem))"
    using bh_init_room by (simp add: idx_ok_def add.commute)
  then have "fst st = fold (ref_row (set tomb)) (disk @ mem) []"
    unfolding st_def using l by (intro merge_fold_ref) (simp_all add: buried_iff)
  moreover have "filter (\<lambda>e. u_base e \<noteq> [] \<and> u_uid e \<noteq> 0 \<and> u_base e \<notin> set tomb) (disk @ mem) = live_rows (set tomb) duv dv uv v"
    by (auto simp: live_rows_def mem_def disk_def not_less)
  ultimately have m: "fst st = fold (ref_row (set tomb)) (live_rows (set tomb) duv dv uv v) []" using ref_row_filter [of "set tomb" "disk @ mem" "[]"] by (simp del: fold_append)
  have len: "length (fold (ref_row dead) xs ms) \<le> length ms + length xs" for dead xs ms
  proof (induction xs arbitrary: ms)
    case (Cons x xs)
    have "length (ref_row dead x ms) \<le> Suc (length ms)" by (simp add: ref_row_def)
    then show ?case using Cons.IH [of "ref_row dead x ms"] by simp
  qed simp
  have n: "length (fst st) \<le> length mem + length disk"
    using len [of "set tomb" "disk @ mem" "[]"] \<open>fst st = fold (ref_row (set tomb)) (disk @ mem) []\<close> by simp
  have u: "uv' = (if duv \<le> uv then uv else duv)"
    using assms(1,3) by (auto simp: uidlist_merge_def Let_def split: prod.splits if_splits)
  have r: "remint (us_init (length mem + length disk + 8))
      (bump_next (if un > (if dun = 0 then 1 else dun) then un else if dun = 0 then 1 else dun) (fst st)) (fst st) = (un', rows)"
    using assms(1,3) by (auto simp: uidlist_merge_def Let_def mem_def disk_def st_def split: prod.splits)
  show thesis by (rule that [OF m n u r])
qed

lemma live_rows_members: "e \<in> set (live_rows dead duv dv uv v) \<Longrightarrow> e \<in> set dv \<union> set v \<and> u_base e \<noteq> [] \<and> u_uid e \<noteq> 0 \<and> u_base e \<notin> dead"
  by (auto simp: live_rows_def split: if_splits)

lemma live_rows_length: "length (live_rows dead duv dv uv v) \<le> length v + length dv"
  unfolding live_rows_def by (rule order_trans [OF length_filter_le]) auto

lemma ref_rows_length: "length (fold (ref_row dead) xs ms) \<le> length ms + length xs"
proof (induction xs arbitrary: ms)
  case (Cons x xs)
  have "length (ref_row dead x ms) \<le> Suc (length ms)" by (simp add: ref_row_def)
  then show ?case using Cons.IH [of "ref_row dead x ms"] by simp
qed simp

text \<open>The numbers of both sides stay below \<open>K\<close> and leave room for one new number per row.\<close>

definition numbers_below :: "nat \<Rightarrow> u32 \<times> u32 \<times> UidEnt list \<Rightarrow> u32 \<Rightarrow> UidEnt list \<Rightarrow> bool" where
  "numbers_below K disk un v \<longleftrightarrow>
     (case disk of (duv, dun, dv) \<Rightarrow>
        0 < K \<and> unat dun \<le> K \<and> unat un \<le> K \<and> list_all (\<lambda>e. unat (u_uid e) < K) (dv @ v) \<and> K + length v + length dv < 2 ^ 32)"

lemma uidlist_merge_numbers:
  assumes "uidlist_merge file tomb uv un v = (uv', un', rows)" "uidlist_load file 0 1 = (duv, dun, dv)" "numbers_below K (duv, dun, dv) un v"
  obtains mv un1 where "mv = fold (ref_row (set tomb)) (live_rows (set tomb) duv dv uv v) []" "uv' = (if duv \<le> uv then uv else duv)"
    "un \<le> un1" "dun \<le> un1" "reminted {} un1 un' mv rows" "unat un1 \<le> K"
proof -
  have l: "length v + length dv < 2 ^ 32" and K: "0 < K" "unat dun \<le> K" "unat un \<le> K" "\<forall>e\<in>set dv \<union> set v. unat (u_uid e) < K"
    "K + length v + length dv < 2 ^ 32"
    using assms(3) by (auto simp: numbers_below_def list_all_iff)
  define un0 where "un0 = (if un > (if dun = 0 then 1 else dun) then un else if dun = 0 then 1 else dun)"
  obtain mv n where m: "mv = fold (ref_row (set tomb)) (live_rows (set tomb) duv dv uv v) []" "length mv \<le> n"
    "uv' = (if duv \<le> uv then uv else duv)" "remint (us_init (n + 8)) (bump_next un0 mv) mv = (un', rows)"
    by (rule uidlist_merge_ref [OF assms(2) l assms(1)]) (auto simp: un0_def)
  have un0: "un \<le> un0" "dun \<le> un0" "0 < un0" "unat un0 \<le> K"
    using K(1-3) by (auto simp: un0_def word_le_nat_alt word_less_nat_alt unat_eq_zero unat_gt_0 not_less intro: le_trans)
  have len: "length mv \<le> length v + length dv"
    using ref_rows_length [of "set tomb" "live_rows (set tomb) duv dv uv v" "[]"] live_rows_length [of "set tomb" duv dv uv v] m(1) by simp
  have mem: "\<forall>e\<in>set mv. 0 < u_uid e \<and> unat (u_uid e) < K"
    using ref_rows_members(1) [of "set tomb" "live_rows (set tomb) duv dv uv v" "[]"] live_rows_members K(4) m(1)
    by (fastforce simp: word_gt_0)
  define un1 where "un1 = bump_next un0 mv"
  have b: "un0 \<le> un1" "unat un1 \<le> K" "\<forall>e\<in>set mv. u_uid e < un1"
    using bump_next_sound [of un0 K mv] un0 mem K(5) by (auto simp: un1_def)
  have "us_room (us_init (n + 8)) (length mv)" using us_init_room(1) [of "n + 8"] m(2) by (simp add: us_room_def)
  then have "reminted {} un1 un' mv rows"
    using m(4) us_init_room(2) b(2,3) len K(5) mem un0(3) b(1) unfolding un1_def [symmetric]
    by (intro remint_sound) auto
  then show thesis using that m(1,3) un0(1,2) b(1,2) by (meson order_trans)
qed

lemma merge_sound:
  assumes "numbers_below K (uidlist_load file 0 1) un v"
  shows "case (uidlist_load file 0 1, uidlist_merge file tomb uv un v) of ((duv, dun, dv), (uv', un', rows)) \<Rightarrow>
    distinct (map u_base rows) \<and> distinct (map u_uid rows) \<and> (\<forall>e\<in>set rows. 0 < u_uid e \<and> u_uid e < un') \<and>
    un \<le> un' \<and> dun \<le> un' \<and> unat un' \<le> K + length rows \<and> uv' = max uv duv \<and>
    u_base ` set rows = u_base ` set (live_rows (set tomb) duv dv uv v)"
proof -
  obtain duv dun dv where d: "uidlist_load file 0 1 = (duv, dun, dv)" by (metis prod_cases3)
  obtain uv' un' rows where m: "uidlist_merge file tomb uv un v = (uv', un', rows)" by (metis prod_cases3)
  obtain mv un1 where s: "mv = fold (ref_row (set tomb)) (live_rows (set tomb) duv dv uv v) []" "uv' = (if duv \<le> uv then uv else duv)"
    "un \<le> un1" "dun \<le> un1" "reminted {} un1 un' mv rows" "unat un1 \<le> K"
    using uidlist_merge_numbers [OF m d] assms d by metis
  let ?live = "live_rows (set tomb) duv dv uv v"
  have b: "map u_base rows = map u_base mv" "length rows = length mv" using s(5) by (simp_all add: reminted_def)
  have "distinct (map u_base mv)" unfolding s(1) by (rule ref_rows_members(3)) simp
  moreover have "u_base ` set rows = u_base ` set mv" using b(1) by (metis list.set_map)
  moreover have "u_base ` set mv = u_base ` {e \<in> set ?live. u_base e \<noteq> [] \<and> u_uid e \<noteq> 0 \<and> u_base e \<notin> set tomb}"
    unfolding s(1) using ref_rows_members(2) [of "set tomb" ?live "[]"] by simp
  moreover have "{e \<in> set ?live. u_base e \<noteq> [] \<and> u_uid e \<noteq> 0 \<and> u_base e \<notin> set tomb} = set ?live" using live_rows_members by blast
  moreover have "un1 \<le> un'" "unat un' \<le> unat un1 + length mv" "distinct (map u_uid rows)" "\<forall>e\<in>set rows. 0 < u_uid e \<and> u_uid e < un'"
    using s(5) by (simp_all add: reminted_def)
  ultimately show ?thesis using s(2-4,6) b unfolding d m by (auto simp: max_def)
qed

text \<open>
  C22. Saving a table of message numbers never leaves two messages with one number: after the merge of the table of a session with the one on disk
  the base names are distinct, the numbers are distinct, positive and below the next number; the next number is at least that of both sides; the
  larger \<open>uidvalidity\<close> wins; and the base names are exactly those of the sides that belong to it, without the ones the session deleted. No
  number wraps around as long as all numbers leave room for one new number per row.
\<close>

theorem uid_merge_sound:
  assumes "numbers_below K (uidlist_load file 0 1) un v"
  shows "case (uidlist_load file 0 1, uidlist_merge file tomb uv un v) of ((duv, dun, dv), (uv', un', rows)) \<Rightarrow>
    distinct (map u_base rows) \<and> distinct (map u_uid rows) \<and> (\<forall>e\<in>set rows. 0 < u_uid e \<and> u_uid e < un') \<and>
    un \<le> un' \<and> dun \<le> un' \<and> unat un' \<le> K + length rows \<and> uv' = max uv duv \<and>
    u_base ` set rows = u_base ` set (live_rows (set tomb) duv dv uv v)"
  using assms by (rule merge_sound)

definition demo_uidlist :: string where
  "demo_uidlist = ''7 6'' @ [LF] @ ''3 a 4'' @ [LF] @ ''5 b 6 <m@x>'' @ [LF]"

definition demo_rows :: "UidEnt list" where
  "demo_rows = [\<lparr>u_base = ''a'', u_mid = None, u_uid = 3, u_modseq = 9\<rparr>, \<lparr>u_base = ''c'', u_mid = None, u_uid = 5, u_modseq = 6\<rparr>]"

lemma demo_merge:
  "uidlist_load (Some demo_uidlist) 0 1 =
     (7, 6, [\<lparr>u_base = ''a'', u_mid = None, u_uid = 3, u_modseq = 4\<rparr>, \<lparr>u_base = ''b'', u_mid = Some ''<m@x>'', u_uid = 5, u_modseq = 6\<rparr>])"
  "uidlist_merge (Some demo_uidlist) [''x''] 7 6 demo_rows =
     (7, 7, [\<lparr>u_base = ''a'', u_mid = None, u_uid = 3, u_modseq = 9\<rparr>, \<lparr>u_base = ''b'', u_mid = Some ''<m@x>'', u_uid = 5, u_modseq = 6\<rparr>,
             \<lparr>u_base = ''c'', u_mid = None, u_uid = 6, u_modseq = 7\<rparr>])"
  by code_simp+

theorem uid_merge_sound_witness:
  "numbers_below 10 (uidlist_load (Some demo_uidlist) 0 1) 6 demo_rows \<and>
   (case uidlist_merge (Some demo_uidlist) [''x''] 7 6 demo_rows of (uv', un', rows) \<Rightarrow>
      distinct (map u_uid rows) \<and> 6 \<le> un' \<and> un' = 7 \<and> map u_uid rows = [3, 5, 6])"
proof -
  have n: "numbers_below 10 (uidlist_load (Some demo_uidlist) 0 1) 6 demo_rows"
    by (simp add: numbers_below_def demo_merge demo_rows_def)
  show ?thesis using n uid_merge_sound [OF n, where tomb = "[''x'']" and uv = 7] by (simp add: demo_merge)
qed

section \<open>Stable numbers\<close>

lemma ref_rows_fresh:
  "distinct (map u_base rows) \<Longrightarrow> u_base ` set mv \<inter> u_base ` set rows = {} \<Longrightarrow>
   list_all (\<lambda>e. u_base e \<noteq> [] \<and> u_uid e \<noteq> 0 \<and> u_base e \<notin> dead) rows \<Longrightarrow> fold (ref_row dead) rows mv = mv @ map uident_copy rows"
proof (induction rows arbitrary: mv)
  case (Cons r rows)
  have "ref_row dead r mv = mv @ [uident_copy r]" using Cons.prems(2,3) by (auto simp: ref_row_def)
  then show ?case using Cons.IH [of "mv @ [uident_copy r]"] Cons.prems by (auto simp: image_iff)
qed simp

text \<open>Rows that agree with the ones already there on the numbers of common base names leave these numbers where they are.\<close>

lemma ref_rows_prefix:
  assumes "\<forall>m\<in>set rows. \<forall>e\<in>set pre. u_base m = u_base e \<longrightarrow> u_uid m = u_uid e"
  shows "\<exists>pre' new'. fold (ref_row dead) rows (pre @ new) = pre' @ new' \<and> map u_base pre' = map u_base pre \<and> map u_uid pre' = map u_uid pre"
  using assms
proof (induction rows arbitrary: pre new)
  case (Cons r rows)
  let ?f = "\<lambda>e. if u_base e = u_base r \<and> u_modseq e < u_modseq r then uident_copy r else e"
  have same: "map u_base (map ?f pre) = map u_base pre" "map u_uid (map ?f pre) = map u_uid pre" using Cons.prems by auto
  have "ref_row dead r (pre @ new) = pre @ new \<or> ref_row dead r (pre @ new) = map ?f pre @ map ?f new \<or>
      ref_row dead r (pre @ new) = pre @ (new @ [uident_copy r])" by (simp add: ref_row_def)
  then obtain p n where p: "ref_row dead r (pre @ new) = p @ n" "p = pre \<or> p = map ?f pre" by blast
  have b: "map u_base p = map u_base pre" "map u_uid p = map u_uid pre" using p(2) same by auto
  have "u_base m = u_base e \<longrightarrow> u_uid m = u_uid e" if mr: "m \<in> set rows" and ep: "e \<in> set p" for m e
  proof -
    obtain i where i: "i < length p" "p ! i = e" using ep by (auto simp: in_set_conv_nth)
    then have "i < length pre" "u_base (pre ! i) = u_base e" "u_uid (pre ! i) = u_uid e" using b by (metis length_map nth_map)+
    then show ?thesis using Cons.prems mr nth_mem by (metis list.set_intros(2))
  qed
  then have "\<exists>pre' new'. fold (ref_row dead) rows (p @ n) = pre' @ new' \<and> map u_base pre' = map u_base p \<and> map u_uid pre' = map u_uid p"
    by (intro Cons.IH) simp
  then show ?case unfolding b using p(1) by simp
qed auto

text \<open>
  C16. The numbers that are on disk are stable: when the table of the session is of the same generation and agrees with the one on disk
  about the numbers of the base names they share, every row on disk that the session did not delete keeps its number in the merged table.
\<close>

theorem uid_merge_stable:
  assumes "uidlist_load file 0 1 = (uv, dun, dv)" "numbers_below K (uv, dun, dv) un v"
    "distinct (map u_base dv)" "distinct (map u_uid dv)" "\<forall>m\<in>set v. \<forall>e\<in>set dv. u_base m = u_base e \<longrightarrow> u_uid m = u_uid e"
    "uidlist_merge file tomb uv un v = (uv', un', rows)"
    "e \<in> set dv" "u_base e \<noteq> []" "u_uid e \<noteq> 0" "u_base e \<notin> set tomb"
  shows "(u_base e, u_uid e) \<in> set (map (\<lambda>r. (u_base r, u_uid r)) rows)"
proof -
  obtain mv un1 where s: "mv = fold (ref_row (set tomb)) (live_rows (set tomb) uv dv uv v) []" "reminted {} un1 un' mv rows"
    using uidlist_merge_numbers [OF assms(6,1,2)] by metis
  define P where "P = (\<lambda>e :: UidEnt. u_base e \<noteq> [] \<and> u_uid e \<noteq> 0 \<and> u_base e \<notin> set tomb)"
  have live: "live_rows (set tomb) uv dv uv v = filter P dv @ filter P v" by (simp add: live_rows_def P_def)
  have d: "distinct (map u_base (filter P dv))" "distinct (map u_uid (filter P dv))" using assms(3,4) by (simp_all add: distinct_map_filter)
  have "fold (ref_row (set tomb)) (filter P dv) [] = map uident_copy (filter P dv)"
    using ref_rows_fresh [OF d(1), of "[]" "set tomb"] by (auto simp: list_all_iff P_def)
  moreover have "\<exists>pre' new'. fold (ref_row (set tomb)) (filter P v) (map uident_copy (filter P dv) @ []) = pre' @ new' \<and>
      map u_base pre' = map u_base (map uident_copy (filter P dv)) \<and> map u_uid pre' = map u_uid (map uident_copy (filter P dv))"
    using assms(5) by (intro ref_rows_prefix) auto
  ultimately obtain pre new where mv: "mv = pre @ new" and pre: "map u_base pre = map u_base (filter P dv)" "map u_uid pre = map u_uid (filter P dv)"
    unfolding s(1) live by (auto simp: comp_def)
  have "e \<in> set (filter P dv)" using assms(7-10) by (simp add: P_def)
  then obtain i where i: "i < length (filter P dv)" "filter P dv ! i = e" by (metis in_set_conv_nth)
  then have ip: "i < length pre" "u_base (pre ! i) = u_base e" "u_uid (pre ! i) = u_uid e" using pre by (metis length_map nth_map)+
  have "u_uid (pre ! i) \<notin> u_uid ` set (take i pre)"
  proof
    assume "u_uid (pre ! i) \<in> u_uid ` set (take i pre)"
    then obtain j where "j < i" "u_uid (pre ! j) = u_uid (pre ! i)" using ip(1) by (auto simp: in_set_conv_nth)
    moreover have "distinct (map u_uid pre)" using d(2) pre(2) by simp
    ultimately show False using ip(1) by (metis (no_types) distinct_conv_nth length_map less_irrefl less_trans nth_map)
  qed
  then have "rows ! i = mv ! i" "i < length rows" using s(2) ip(1) mv by (auto simp: reminted_def nth_append)
  then have "rows ! i \<in> set rows" "u_base (rows ! i) = u_base e" "u_uid (rows ! i) = u_uid e" using ip mv nth_mem [of i rows] by (auto simp: nth_append simp del: nth_mem)
  then show ?thesis by (metis (mono_tags, lifting) image_eqI list.set_map)
qed

theorem uid_merge_stable_witness:
  "(''b'', 5) \<in> set (map (\<lambda>r. (u_base r, u_uid r)) (snd (snd (uidlist_merge (Some demo_uidlist) [''x''] 7 6 demo_rows))))"
proof -
  have n: "numbers_below 10 (uidlist_load (Some demo_uidlist) 0 1) 6 demo_rows"
    by (simp add: numbers_below_def demo_merge demo_rows_def)
  show ?thesis unfolding demo_merge(2)
    using uid_merge_stable [OF demo_merge(1) n [unfolded demo_merge(1)] _ _ _ demo_merge(2),
        of "\<lparr>u_base = ''b'', u_mid = Some ''<m@x>'', u_uid = 5, u_modseq = 6\<rparr>"]
    by (simp add: demo_rows_def)
qed

text \<open>
  Without the agreement the numbers on disk are not stable: a session whose table has two numbers the other way round and higher change counters takes
  both over, and the number published for one message becomes that of the other.
\<close>

lemma uid_merge_swap:
  "map (\<lambda>r. (u_base r, u_uid r))
     (snd (snd (uidlist_merge (Some (''7 7'' @ [LF] @ ''5 f 6'' @ [LF] @ ''6 g 7'' @ [LF])) [] 7 7
        [\<lparr>u_base = ''g'', u_mid = None, u_uid = 5, u_modseq = 6\<rparr>, \<lparr>u_base = ''f'', u_mid = None, u_uid = 6, u_modseq = 7\<rparr>]))) =
   [(''f'', 6), (''g'', 7)]"
  by code_simp

section \<open>The file\<close>

text \<open>A row that can be written: no separators in its texts.\<close>

definition row_ok :: "UidEnt \<Rightarrow> bool" where
  "row_ok e \<longleftrightarrow> u_base e \<noteq> [] \<and> SP \<notin> set (u_base e) \<and> LF \<notin> set (u_base e) \<and> NUL \<notin> set (u_base e) \<and> u_uid e \<noteq> 0 \<and>
     (case u_mid e of None \<Rightarrow> True | Some m \<Rightarrow> m \<noteq> [] \<and> LF \<notin> set m \<and> NUL \<notin> set m)"

lemma digits_value_dec: "digits_value ds = dec_value 0 ds"
  by (simp add: digits_value_def dec_value_def)

lemma digit_chars: "is_digit c \<Longrightarrow> c \<noteq> SP \<and> c \<noteq> LF \<and> c \<noteq> NUL \<and> \<not> is_space c \<and> c \<noteq> CHR ''-'' \<and> c \<noteq> CHR ''+''"
  by (auto simp: is_digit_def is_space_def)

lemma dec_not_Nil [simp]: "dec_of_nat n \<noteq> []"
  using dec_of_nat_dec(1) [of n] dec_of_nat_hd by (cases "n = 0") (auto simp: dec_of_nat.simps)

lemma digits_split:
  assumes "r = [] \<or> \<not> is_digit (hd r)"
  shows "takeWhile is_digit (dec_of_nat n @ r) = dec_of_nat n" "dropWhile is_digit (dec_of_nat n @ r) = r"
proof -
  have d: "\<forall>c\<in>set (dec_of_nat n). is_digit c" using dec_of_nat_dec(2) [of n] by (simp add: list_all_iff)
  then show "takeWhile is_digit (dec_of_nat n @ r) = dec_of_nat n" "dropWhile is_digit (dec_of_nat n @ r) = r"
    using assms by (cases r; simp add: takeWhile_append2 dropWhile_append2)+
qed

lemma u64_of_nat: "n < 2 ^ 64 \<Longrightarrow> unat (of_nat n :: u64) = n"
  by (simp add: unat_of_nat)

lemma widen_u32 [simp]: "unat (ucast (x :: u32) :: u64) = unat x" "ucast (ucast (x :: u32) :: u64) = x"
proof -
  have "unat x < 2 ^ 32" using unsigned_less [of x, where ?'a = nat] by simp
  then have "unat (of_nat (unat x) :: u64) = unat x" by (intro u64_of_nat) simp
  then show u: "unat (ucast x :: u64) = unat x" by simp
  have "(ucast (ucast x :: u64) :: u32) = of_nat (unat (ucast x :: u64))" by (rule of_nat_unat [symmetric])
  also have "\<dots> = x" unfolding u by simp
  finally show "ucast (ucast (x :: u32) :: u64) = x" .
qed

lemma until_first:
  "x \<notin> set xs \<Longrightarrow> takeWhile (\<lambda>c. c \<noteq> x) (xs @ x # ys) = xs" "x \<notin> set xs \<Longrightarrow> dropWhile (\<lambda>c. c \<noteq> x) (xs @ x # ys) = x # ys"
  by (induction xs) auto

lemma scan_dec:
  assumes "r = [] \<or> \<not> is_digit (hd r)" "n < 2 ^ 64"
  shows "scan_ull (dec_of_nat n @ r) = Some (of_nat n, r)"
proof -
  obtain c cs where c: "dec_of_nat n = c # cs" using dec_not_Nil by (metis list.exhaust)
  then have "is_digit c" using dec_of_nat_dec(2) [of n] by simp
  then have "dropWhile is_space (dec_of_nat n @ r) = dec_of_nat n @ r" "hd (dec_of_nat n @ r) \<noteq> CHR ''-'' \<and> hd (dec_of_nat n @ r) \<noteq> CHR ''+''"
    using digit_chars c by auto
  moreover have "\<not> unat (- 1 :: u64) < n" using assms(2) by (simp add: unsigned_minus_1_eq_mask mask_eq_exp_minus_1 not_less)
  ultimately show ?thesis
    using digits_split [OF assms(1), of n] by (simp add: scan_ull_def Let_def digits_value_dec dec_of_nat_dec(1))
qed

lemma uid_row_text:
  assumes "row_ok e"
  shows "uid_row (row_text e @ r) = Some e" "line_of (row_text e @ r) @ [LF] = row_text e"
proof -
  let ?mid = "case u_mid e of Some m \<Rightarrow> if m \<noteq> [] then '' '' @ m else [] | None \<Rightarrow> []"
  let ?tl = "?mid @ LF # r"
  have l: "line_of (xs @ LF # ys) = xs" if "LF \<notin> set xs" for xs ys
    using that by (simp add: line_of_def until_first)
  have dn: "LF \<notin> set (dec_of_nat n)" for n using dec_of_nat_dec(2) [of n] digit_chars by (auto simp: list_all_iff)
  have nolf: "LF \<notin> set ?mid" "LF \<notin> set (u_base e)" using assms by (auto simp: row_ok_def split: option.splits)
  have nd: "?tl \<noteq> [] \<and> \<not> is_digit (hd ?tl)" by (auto simp: is_digit_def split: option.splits)
  have nsp: "\<not> is_digit (hd ('' '' @ z))" for z by (simp add: is_digit_def)
  have split: "row_text e @ r = dec_of_nat (unat (u_uid e)) @ ('' '' @ (u_base e @ '' '' @ (dec_of_nat (unat (u_modseq e)) @ ?tl)))"
    by (simp add: row_text_def)
  have s1: "scan_ull (row_text e @ r) = Some (of_nat (unat (u_uid e)), '' '' @ (u_base e @ '' '' @ (dec_of_nat (unat (u_modseq e)) @ ?tl)))"
    unfolding split using unsigned_less [of "u_uid e", where ?'a = nat] nsp by (intro scan_dec) (auto simp: is_digit_def)
  have d1: "dropWhile is_digit (row_text e @ r) = '' '' @ (u_base e @ '' '' @ (dec_of_nat (unat (u_modseq e)) @ ?tl))"
    unfolding split by (rule digits_split(2)) (simp add: is_digit_def)
  have s2: "scan_ull (dec_of_nat (unat (u_modseq e)) @ ?tl) = Some (u_modseq e, ?tl)"
    using scan_dec [of ?tl "unat (u_modseq e)"] nd unsigned_less [of "u_modseq e", where ?'a = nat] by simp
  have d2: "dropWhile is_digit (dec_of_nat (unat (u_modseq e)) @ ?tl) = ?tl" using nd by (intro digits_split(2)) simp
  let ?line = "u_base e @ '' '' @ dec_of_nat (unat (u_modseq e)) @ ?mid"
  have line: "line_of (u_base e @ '' '' @ (dec_of_nat (unat (u_modseq e)) @ ?tl)) = ?line"
    using l [of ?line r] nolf dn by simp
  have b: "takeWhile (\<lambda>c. c \<noteq> SP) ?line = u_base e" "dropWhile (\<lambda>c. c \<noteq> SP) ?line \<noteq> []"
    using assms until_first [of SP "u_base e"] by (simp_all add: row_ok_def)
  have nz: "(ucast (u_uid e) :: u64) \<noteq> 0"
  proof
    assume "(ucast (u_uid e) :: u64) = 0"
    then have "unat (u_uid e) = 0" using widen_u32(1) [of "u_uid e"] by (metis unsigned_0)
    then show False using assms by (simp add: row_ok_def unat_eq_zero)
  qed
  have small: "unat (u_uid e) \<le> unat UINT32_MAX" using unsigned_less [of "u_uid e", where ?'a = nat] by simp
  show "uid_row (row_text e @ r) = Some e"
    using s1 d1 s2 d2 line b nz small assms by (auto simp: uid_row_def Let_def row_ok_def l split: option.splits)
  show "line_of (row_text e @ r) @ [LF] = row_text e"
    using l [of "dec_of_nat (unat (u_uid e)) @ '' '' @ ?line" r] nolf dn by (simp add: row_text_def)
qed

lemma uid_rows_text: "list_all row_ok rows \<Longrightarrow> uid_rows (concat (map row_text rows)) = rows"
proof (induction rows)
  case (Cons e rows)
  let ?r = "concat (map row_text rows)"
  have t: "uid_row (row_text e @ ?r) = Some e" "line_of (row_text e @ ?r) @ [LF] = row_text e" using Cons.prems uid_row_text by auto
  have l: "length (line_of (row_text e @ ?r)) + 1 = length (row_text e)" using arg_cong [OF t(2), of length] by simp
  have "row_text e @ ?r \<noteq> []" by (simp add: row_text_def)
  then show ?case using t(1) l Cons by (simp add: uid_rows.simps [of "row_text e @ ?r"])
qed (simp add: uid_rows.simps)

lemma scan_ull_space: "scan_ull (SP # s) = scan_ull s"
  by (simp add: scan_ull_def is_space_def)

lemma nul_free_dec: "nul_free (dec_of_nat n)"
  using dec_of_nat_dec(2) [of n] digit_chars by (auto simp: nul_free_def list_all_iff)

lemma nul_free_row: "row_ok e \<Longrightarrow> nul_free (row_text e)"
  using nul_free_dec by (auto simp: nul_free_def row_ok_def row_text_def split: option.splits)

lemma nul_free_text: "list_all row_ok rows \<Longrightarrow> nul_free (uidlist_text uv un rows)"
  using nul_free_dec nul_free_row by (auto simp: uidlist_text_def nul_free_def list_all_iff)

lemma load_text:
  assumes "list_all row_ok rows"
  shows "uidlist_load (Some (uidlist_text uv un rows)) uv0 un0 = (uv, un, rows)"
proof -
  let ?rows = "concat (map row_text rows)"
  let ?t = "uidlist_text uv un rows"
  have c: "cstr ?t = ?t" using nul_free_text [OF assms] by (rule cstr_id)
  have small: "unat (x :: u32) < 2 ^ 64" "unat x \<le> unat UINT32_MAX" for x using unsigned_less [of x, where ?'a = nat] by simp_all
  have s1: "scan_ull ?t = Some (ucast uv, SP # dec_of_nat (unat un) @ LF # ?rows)"
    using scan_dec [of "SP # dec_of_nat (unat un) @ LF # ?rows" "unat uv"] small by (simp add: uidlist_text_def is_digit_def)
  have s2: "scan_ull (SP # dec_of_nat (unat un) @ LF # ?rows) = Some (ucast un, LF # ?rows)"
    using scan_dec [of "LF # ?rows" "unat un"] small by (simp add: scan_ull_space is_digit_def)
  have h: "LF \<notin> set (dec_of_nat (unat uv) @ SP # dec_of_nat (unat un))"
    using dec_of_nat_dec(2) digit_chars by (auto simp: list_all_iff)
  have t: "?t = (dec_of_nat (unat uv) @ SP # dec_of_nat (unat un)) @ LF # ?rows" by (simp add: uidlist_text_def)
  have l: "line_of ?t = dec_of_nat (unat uv) @ SP # dec_of_nat (unat un)" unfolding t line_of_def by (rule until_first(1) [OF h])
  have d: "drop (length (line_of ?t) + 1) ?t = ?rows" unfolding l by (simp add: uidlist_text_def)
  have "LF \<in> set ?t" by (simp add: uidlist_text_def)
  then show ?thesis using s1 s2 c d small(2) [of uv] small(2) [of un] uid_rows_text [OF assms] by (simp add: uidlist_load_def Let_def)
qed

text \<open>
  C37. The file of message numbers is read back exactly as it was written: whatever the two numbers of the header are, for rows with a positive number, a
  nonempty base name without separators and no message id or one without line ends.
\<close>

theorem uidlist_roundtrip:
  "list_all row_ok rows \<Longrightarrow> uidlist_load (Some (uidlist_text uv un rows)) uv0 un0 = (uv, un, rows)"
  by (rule load_text)

theorem uidlist_roundtrip_witness:
  "list_all row_ok demo_rows \<and> uidlist_load (Some (uidlist_text 7 9 demo_rows)) 0 1 = (7, 9, demo_rows)"
proof -
  have "list_all row_ok demo_rows" by code_simp
  then show ?thesis using uidlist_roundtrip [of demo_rows 7 9 0 1] by simp
qed

text \<open>Every row that is read can be written.\<close>

lemma narrow_u64: "(ucast (x :: u64) :: u32) = 0 \<Longrightarrow> unat x \<le> unat UINT32_MAX \<Longrightarrow> x = 0"
proof -
  assume a: "(ucast x :: u32) = 0" "unat x \<le> unat UINT32_MAX"
  have "(of_nat (unat x) :: u32) = 0" using a(1) by simp
  then have "unat (of_nat (unat x) :: u32) = 0" by simp
  moreover have "unat (of_nat (unat x) :: u32) = unat x" unfolding unat_of_nat using a(2) by simp
  ultimately show ?thesis by (simp add: unat_eq_zero)
qed

lemma uid_row_Some:
  assumes "uid_row p = Some e"
  defines "p2 \<equiv> tl (dropWhile is_digit p)"
  shows "u_base e = takeWhile (\<lambda>c. c \<noteq> SP) (line_of p2)" "u_base e \<noteq> []" "u_uid e \<noteq> 0"
    "u_mid e = None \<or> (\<exists>k. u_mid e = Some (line_of (tl (dropWhile is_digit (drop k p2)))) \<and> line_of (tl (dropWhile is_digit (drop k p2))) \<noteq> [])"
proof -
  let ?base = "takeWhile (\<lambda>c. c \<noteq> SP) (line_of p2)"
  let ?q = "drop (length ?base + 1) p2"
  let ?r = "dropWhile is_digit ?q"
  define mm where "mm = (if dropWhile (\<lambda>c. c \<noteq> SP) (line_of p2) = [] then (1, None)
    else case scan_ull ?q of None \<Rightarrow> (1, None)
      | Some (ms, _) \<Rightarrow> (ms, if ?r \<noteq> [] \<and> hd ?r = SP \<and> line_of (tl ?r) \<noteq> [] then Some (line_of (tl ?r)) else None))"
  obtain uid r where s: "scan_ull p = Some (uid, r)" using assms(1) by (auto simp: uid_row_def split: option.splits)
  have e: "uid_row p = (if dropWhile is_digit p = [] \<or> hd (dropWhile is_digit p) \<noteq> SP then None
      else if ?base = [] \<or> uid = 0 \<or> unat uid > unat UINT32_MAX then None
      else Some \<lparr>u_base = ?base, u_mid = snd mm, u_uid = ucast uid, u_modseq = fst mm\<rparr>)"
    by (simp only: uid_row_def s Let_def option.case prod.case fst_conv snd_conv p2_def mm_def split_beta)
  then have "e = \<lparr>u_base = ?base, u_mid = snd mm, u_uid = ucast uid, u_modseq = fst mm\<rparr>" "?base \<noteq> []" "uid \<noteq> 0" "unat uid \<le> unat UINT32_MAX"
    using assms(1) by (simp_all split: if_splits)
  moreover have "snd mm = None \<or> (\<exists>k. snd mm = Some (line_of (tl (dropWhile is_digit (drop k p2)))) \<and> line_of (tl (dropWhile is_digit (drop k p2))) \<noteq> [])"
    unfolding mm_def by (auto split: option.splits prod.splits)
  ultimately show "u_base e = ?base" "u_base e \<noteq> []" "u_uid e \<noteq> 0"
    "u_mid e = None \<or> (\<exists>k. u_mid e = Some (line_of (tl (dropWhile is_digit (drop k p2)))) \<and> line_of (tl (dropWhile is_digit (drop k p2))) \<noteq> [])"
    using narrow_u64 by auto
qed

lemma uid_row_ok:
  assumes "uid_row p = Some e" "nul_free p"
  shows "row_ok e"
proof -
  have sub: "set (tl (dropWhile is_digit p)) \<subseteq> set p" for p by (metis set_dropWhileD list.sel(2) list.set_sel(2) subsetI)
  let ?p2 = "tl (dropWhile is_digit p)"
  have n: "NUL \<notin> set ?p2" using assms(2) sub by (auto simp: nul_free_def)
  have lf: "LF \<notin> set (line_of q)" "set (line_of q) \<subseteq> set q" for q by (auto simp: line_of_def dest: set_takeWhileD)
  have q: "NUL \<notin> set (line_of (tl (dropWhile is_digit (drop k ?p2))))" for k
    using n lf(2) sub [of "drop k ?p2"] set_drop_subset [of k ?p2] by blast
  have b: "u_base e = takeWhile (\<lambda>c. c \<noteq> SP) (line_of ?p2)" "u_base e \<noteq> []" "u_uid e \<noteq> 0"
    "u_mid e = None \<or> (\<exists>k. u_mid e = Some (line_of (tl (dropWhile is_digit (drop k ?p2)))) \<and> line_of (tl (dropWhile is_digit (drop k ?p2))) \<noteq> [])"
    using uid_row_Some [OF assms(1)] by auto
  have "SP \<notin> set (u_base e)" "set (u_base e) \<subseteq> set (line_of ?p2)" unfolding b(1) by (auto dest: set_takeWhileD)
  moreover from this have "LF \<notin> set (u_base e)" "NUL \<notin> set (u_base e)" using lf n by blast+
  ultimately show ?thesis using b(2-4) lf(1) q by (auto simp: row_ok_def split: option.splits)
qed

lemma uid_rows_ok: "nul_free p \<Longrightarrow> list_all row_ok (uid_rows p)"
proof (induction p rule: uid_rows.induct)
  case (1 p)
  show ?case
  proof (cases "p = [] \<or> uid_row p = None")
    case True
    then show ?thesis by (auto simp: uid_rows.simps [of p])
  next
    case False
    then obtain e where e: "p \<noteq> []" "uid_row p = Some e" by blast
    have "nul_free (drop (length (line_of p) + 1) p)" using 1(2) by (auto simp: nul_free_def dest: in_set_dropD)
    then show ?thesis using 1(1) e uid_row_ok [OF e(2) 1(2)] by (simp add: uid_rows.simps [of p])
  qed
qed

lemma uidlist_load_ok: "uidlist_load file a b = (uv, un, dv) \<Longrightarrow> list_all row_ok dv"
proof -
  assume l: "uidlist_load file a b = (uv, un, dv)"
  have "nul_free (drop n (cstr s))" for n s using nul_free_cstr [of s] by (auto simp: nul_free_def dest: in_set_dropD)
  then have "dv = [] \<or> (\<exists>p. nul_free p \<and> dv = uid_rows p)"
    using l by (auto simp: uidlist_load_def Let_def split: option.splits prod.splits if_splits)
  then show ?thesis using uid_rows_ok by auto
qed

text \<open>Texts of a row that can be written; an empty base name or the number 0 only make the merge skip the row.\<close>

definition row_clean :: "UidEnt \<Rightarrow> bool" where
  "row_clean e \<longleftrightarrow> SP \<notin> set (u_base e) \<and> LF \<notin> set (u_base e) \<and> NUL \<notin> set (u_base e) \<and>
     (case u_mid e of None \<Rightarrow> True | Some m \<Rightarrow> LF \<notin> set m \<and> NUL \<notin> set m)"

lemma row_ok_clean: "row_ok e \<Longrightarrow> row_clean e"
  by (auto simp: row_ok_def row_clean_def split: option.splits)

lemma row_clean_copy: "row_clean e \<Longrightarrow> u_base e \<noteq> [] \<Longrightarrow> u_uid e \<noteq> 0 \<Longrightarrow> row_ok (uident_copy e)"
  by (auto simp: row_ok_def row_clean_def uident_copy_def split: option.splits)

lemma reminted_ok:
  assumes "reminted seen un un' es es'" "list_all row_ok es"
  shows "list_all row_ok es'"
proof (unfold list_all_length, intro allI impI)
  fix i
  assume i: "i < length es'"
  have "length es' = length es" "map u_base es' = map u_base es" "map u_mid es' = map u_mid es" using assms(1) by (simp_all add: reminted_def)
  then have "u_base (es' ! i) = u_base (es ! i)" "u_mid (es' ! i) = u_mid (es ! i)" "i < length es" using i by (metis nth_map)+
  moreover have "u_uid (es' ! i) \<noteq> 0" using assms(1) nth_mem [OF i] by (auto simp: reminted_def)
  moreover have "row_ok (es ! i)" using assms(2) \<open>i < length es\<close> by (simp add: list_all_length)
  ultimately show "row_ok (es' ! i)" by (simp add: row_ok_def)
qed

lemma uidlist_merge_ok:
  assumes "uidlist_merge file tomb uv un v = (uv', un', rows)" "numbers_below K (uidlist_load file 0 1) un v" "list_all row_clean v"
  shows "list_all row_ok rows"
proof -
  obtain duv dun dv where d: "uidlist_load file 0 1 = (duv, dun, dv)" by (metis prod_cases3)
  obtain mv un1 where s: "mv = fold (ref_row (set tomb)) (live_rows (set tomb) duv dv uv v) []" "reminted {} un1 un' mv rows"
    using uidlist_merge_numbers [OF assms(1) d] assms(2) d by metis
  have "row_ok (uident_copy e)" if "e \<in> set (live_rows (set tomb) duv dv uv v)" for e
    using live_rows_members [OF that] uidlist_load_ok [OF d] assms(3) row_ok_clean row_clean_copy by (auto simp: list_all_iff)
  then have "list_all row_ok mv"
    using ref_rows_members(1) [of "set tomb" "live_rows (set tomb) duv dv uv v" "[]"] s(1) by (auto simp: list_all_iff)
  then show ?thesis by (rule reminted_ok [OF s(2)])
qed

text \<open>A save with the lock leaves the merged table in the file and answers with the number that is in it.\<close>

lemma uidlist_save_published:
  assumes "uidlist_path dir = Some path" "numbers_below K (uidlist_load (files path) 0 1) un v" "list_all row_clean v"
    "uidlist_merge (files path) tomb uv un v = (uv', un', rows)"
  shows "imapd_uidlist_save True written files dir tomb uv un v base =
      (if written then (0, probe_row base rows, files(path \<mapsto> uidlist_text uv' un' rows)) else (- 1, 0, files))"
    "uidlist_load (Some (uidlist_text uv' un' rows)) 0 1 = (uv', un', rows)"
proof -
  show "imapd_uidlist_save True written files dir tomb uv un v base =
      (if written then (0, probe_row base rows, files(path \<mapsto> uidlist_text uv' un' rows)) else (- 1, 0, files))"
    using assms(1,4) by (simp add: imapd_uidlist_save_def)
  show "uidlist_load (Some (uidlist_text uv' un' rows)) 0 1 = (uv', un', rows)"
    using uidlist_merge_ok [OF assms(4,2,3)] by (simp add: load_text)
qed

section \<open>Sequences of saves\<close>

text \<open>
  Saves of any sessions one after another, as the lock orders them: each with a table of its own, however old, its own deletions and its own
  generation, and each may fail to write. The numbers must leave room for new ones.
\<close>

inductive uid_saves :: "string \<Rightarrow> (string \<rightharpoonup> string) \<Rightarrow> (string \<rightharpoonup> string) \<Rightarrow> bool" for dir files where
  none: "uid_saves dir files files"
| save: "uid_saves dir files files1 \<Longrightarrow> uidlist_path dir = Some path \<Longrightarrow> numbers_below K (uidlist_load (files1 path) 0 1) un v \<Longrightarrow>
    list_all row_clean v \<Longrightarrow> uid_saves dir files (snd (snd (imapd_uidlist_save True written files1 dir tomb uv un v base)))"

definition uid_table :: "u32 \<times> u32 \<times> UidEnt list \<Rightarrow> bool" where
  "uid_table = (\<lambda>(uv, un, rows). distinct (map u_base rows) \<and> distinct (map u_uid rows) \<and> list_all (below un) rows)"

definition no_rewind :: "u32 \<times> u32 \<times> UidEnt list \<Rightarrow> u32 \<times> u32 \<times> UidEnt list \<Rightarrow> bool" where
  "no_rewind = (\<lambda>(uv, un, rows) (uv', un', rows'). uv \<le> uv' \<and> un \<le> un')"

lemma uid_save_step:
  assumes "uidlist_path dir = Some path" "numbers_below K (uidlist_load (files path) 0 1) un v" "list_all row_clean v"
    "files' = snd (snd (imapd_uidlist_save True written files dir tomb uv un v base))"
  shows "no_rewind (uidlist_load (files path) 0 1) (uidlist_load (files' path) 0 1)"
    "uid_table (uidlist_load (files path) 0 1) \<Longrightarrow> uid_table (uidlist_load (files' path) 0 1)" "q \<noteq> path \<Longrightarrow> files' q = files q"
proof -
  obtain duv dun dv where d: "uidlist_load (files path) 0 1 = (duv, dun, dv)" by (metis prod_cases3)
  obtain uv' un' rows where m: "uidlist_merge (files path) tomb uv un v = (uv', un', rows)" by (metis prod_cases3)
  note p = uidlist_save_published [where files = files, OF assms(1-3) m]
  have f: "files' = (if written then files(path \<mapsto> uidlist_text uv' un' rows) else files)" using assms(4) p(1) [of written base] by simp
  have l: "uidlist_load (files' path) 0 1 = (if written then (uv', un', rows) else (duv, dun, dv))" using f p(2) d by simp
  have s: "distinct (map u_base rows)" "distinct (map u_uid rows)" "list_all (below un') rows" "dun \<le> un'" "duv \<le> uv'"
    using merge_sound [OF assms(2), where tomb = tomb and uv = uv] by (simp_all add: d m list_all_iff)
  show "no_rewind (uidlist_load (files path) 0 1) (uidlist_load (files' path) 0 1)" unfolding l d using s by (simp add: no_rewind_def)
  show "uid_table (uidlist_load (files path) 0 1) \<Longrightarrow> uid_table (uidlist_load (files' path) 0 1)" unfolding l d using s by (simp add: uid_table_def)
  show "q \<noteq> path \<Longrightarrow> files' q = files q" using f by simp
qed

text \<open>
  C5. However many sessions save their tables of one mailbox, one after another and however old their tables are, the table on disk keeps its invariant:
  distinct base names, distinct positive numbers below the next number. Neither the generation nor the next number ever goes back, and no
  other file changes. This needs the lock, and numbers that do not reach the end of their range.
\<close>

theorem uid_saves_invariant:
  assumes "uid_saves dir files files'" "uidlist_path dir = Some path"
  shows "no_rewind (uidlist_load (files path) 0 1) (uidlist_load (files' path) 0 1) \<and>
    (uid_table (uidlist_load (files path) 0 1) \<longrightarrow> uid_table (uidlist_load (files' path) 0 1)) \<and> (\<forall>q. q \<noteq> path \<longrightarrow> files' q = files q)"
  using assms
proof (induction rule: uid_saves.induct)
  case none
  show ?case by (auto simp: no_rewind_def)
next
  case (save files1 p K un v written tomb uv base)
  have p: "p = path" using save.hyps(2) save.prems by simp
  note st = uid_save_step [where files = files1 and written = written and tomb = tomb and uv = uv and base = base, OF save.hyps(2-4) refl, unfolded p]
  have t: "no_rewind a c" if "no_rewind a b" "no_rewind b c" for a b c using that by (auto simp: no_rewind_def)
  show ?case using t [OF _ st(1)] st(2,3) save.IH [OF save.prems] by simp
qed

lemma demo_path: "uidlist_path ''m'' = Some ''m/imapd-uidlist''"
  by code_simp

theorem uid_saves_invariant_witness:
  "uid_table (uidlist_load
     (snd (snd (imapd_uidlist_save True True [''m/imapd-uidlist'' \<mapsto> demo_uidlist] ''m'' [''x''] 7 6 demo_rows None)) ''m/imapd-uidlist'') 0 1)"
proof -
  let ?f = "[''m/imapd-uidlist'' \<mapsto> demo_uidlist]"
  have n: "numbers_below 10 (uidlist_load (?f ''m/imapd-uidlist'') 0 1) 6 demo_rows"
    by (simp add: numbers_below_def demo_merge demo_rows_def)
  have c: "list_all row_clean demo_rows" by code_simp
  have t: "uid_table (uidlist_load (?f ''m/imapd-uidlist'') 0 1)" by (simp add: uid_table_def demo_merge)
  have "uid_saves ''m'' ?f (snd (snd (imapd_uidlist_save True True ?f ''m'' [''x''] 7 6 demo_rows None)))"
    by (rule uid_saves.save [where ?files1.0 = ?f, OF uid_saves.none demo_path n c])
  then show ?thesis using uid_saves_invariant demo_path t by blast
qed

end
