(* ===== verification/Maildir_Mbox.thy ===== *)
theory Maildir_Mbox
  imports Maildir_Uidlist Smtp_Conn Mail_Headers
begin

text \<open>
  The view of a mailbox (\<open>imap_maildir.c\<close>): opening it by a scan of its directories, flag changes, deletion, delivery and the
  registration of a delivered file, and closing. What the operating system and mbedTLS do is a function of \<open>ImapEnv\<close> on a world of type \<open>'w\<close>. The cache
  of header fields (\<open>imapd-hdrs\<close>), which only repeats what is in the message files, is left out. A file that can be opened can be read.
  Allocations succeed; the order \<open>qsort\<close> gives to equal numbers is that of the scan.
\<close>

section \<open>The outside\<close>

record 'w ImapEnv =
  ie_time :: "'w \<Rightarrow> int \<times> 'w"
  ie_unique :: "'w \<Rightarrow> string \<times> 'w"
  ie_send :: "int \<Rightarrow> string \<Rightarrow> 'w \<Rightarrow> sent \<times> 'w"
  ie_recv :: "int \<Rightarrow> nat \<Rightarrow> 'w \<Rightarrow> (sent + string) \<times> 'w"
  ie_mkdir :: "string \<Rightarrow> 'w \<Rightarrow> bool \<times> 'w"
  ie_list :: "string \<Rightarrow> 'w \<Rightarrow> string list option \<times> 'w"
  ie_stat :: "string \<Rightarrow> 'w \<Rightarrow> (nat \<times> int) option \<times> 'w"
  ie_read :: "string \<Rightarrow> 'w \<Rightarrow> string option \<times> 'w"
  ie_write :: "string \<Rightarrow> string \<Rightarrow> 'w \<Rightarrow> bool \<times> 'w"
  ie_rename :: "string \<Rightarrow> string \<Rightarrow> 'w \<Rightarrow> bool \<times> 'w"
  ie_unlink :: "string \<Rightarrow> 'w \<Rightarrow> bool \<times> 'w"
  ie_lock :: "string \<Rightarrow> 'w \<Rightarrow> bool \<times> 'w"
  ie_replace :: "string \<Rightarrow> string \<Rightarrow> 'w \<Rightarrow> bool \<times> 'w"
  ie_open :: "string \<Rightarrow> 'w \<Rightarrow> int option \<times> 'w"
  ie_pread :: "int \<Rightarrow> nat \<Rightarrow> nat \<Rightarrow> 'w \<Rightarrow> string option \<times> 'w"
  ie_tls_setup :: "int \<Rightarrow> 'w \<Rightarrow> bool \<times> 'w"
  ie_tls_handshake :: "int \<Rightarrow> 'w \<Rightarrow> mbed_code \<times> 'w"
  ie_tls_read :: "int \<Rightarrow> nat \<Rightarrow> 'w \<Rightarrow> (mbed_code + string) \<times> 'w"
  ie_tls_write :: "int \<Rightarrow> string \<Rightarrow> 'w \<Rightarrow> (mbed_code + nat) \<times> 'w"

text \<open>A call of the environment as a computation on the world.\<close>

abbreviation sys :: "('w \<Rightarrow> 'r \<times> 'w) \<Rightarrow> ('w, 'r) state" where
  "sys f \<equiv> State f"

section \<open>State\<close>

definition IMAPD_MAX_UNK :: nat where "IMAPD_MAX_UNK = 16"
definition IMAPD_HDR_CAP :: nat where "IMAPD_HDR_CAP = 256 * 1024"

record Imail =
  m_uid :: u32
  m_flags :: u8f
  m_unk :: string
  m_recent :: bool
  m_date :: int
  m_size :: nat
  m_modseq :: u64
  m_base :: string
  m_path :: string
  m_mid :: "string option"

record Mbox =
  mb_dir :: string
  mb_uidvalidity :: u32
  mb_uidnext :: u32
  mb_highestmodseq :: u64
  mb_msgs :: "Imail list"
  mb_uidmap :: "UidEnt list"
  mb_uidlist_dirty :: bool
  mb_tomb :: "string list"

definition empty_mbox :: "string \<Rightarrow> Mbox" where
  "empty_mbox dir =
     \<lparr>mb_dir = dir, mb_uidvalidity = 0, mb_uidnext = 0, mb_highestmodseq = 0, mb_msgs = [], mb_uidmap = [], mb_uidlist_dirty = False, mb_tomb = []\<rparr>"

section \<open>Directories and paths\<close>

fun mkdir_all :: "'w ImapEnv \<Rightarrow> string list \<Rightarrow> ('w, bool) state" where
  "mkdir_all E [] = return True"
| "mkdir_all E (p # ps) = do { ok \<leftarrow> sys (ie_mkdir E p); if ok then mkdir_all E ps else return False }"

definition imapd_mkdir_p :: "'w ImapEnv \<Rightarrow> string \<Rightarrow> ('w, bool) state" where
  "imapd_mkdir_p E path =
     (if path = [] then return False
      else mkdir_all E ([take i path. i \<leftarrow> [1..<length path], path ! i = CHR ''/''] @ [path]))"

fun create_subs :: "'w ImapEnv \<Rightarrow> string \<Rightarrow> string list \<Rightarrow> ('w, bool) state" where
  "create_subs E dir [] = return True"
| "create_subs E dir (s # ss) =
     (if length (dir @ s) \<ge> 4104 then return False
      else do { ok \<leftarrow> imapd_mkdir_p E (dir @ s); if ok then create_subs E dir ss else return False })"

definition imapd_mbox_create :: "'w ImapEnv \<Rightarrow> string \<Rightarrow> ('w, bool) state" where
  "imapd_mbox_create E dir = create_subs E dir [''/tmp'', ''/new'', ''/cur'']"

definition msg_path :: "string \<Rightarrow> string \<Rightarrow> string \<Rightarrow> string \<Rightarrow> nat \<Rightarrow> string option" where
  "msg_path dir sub base info outsz =
     (let p = dir @ ''/'' @ sub @ ''/'' @ base @ (if info \<noteq> [] then '':'' @ info else []) in
      if length p \<ge> outsz then None else Some p)"

section \<open>Headers\<close>

text \<open>The end of the header block: after the first empty line with CRLF, else with bare LF, else the end.\<close>

definition mail_hdr_end :: "string \<Rightarrow> nat" where
  "mail_hdr_end msg =
     (case find (\<lambda>i. take 4 (drop i msg) = CRLF @ CRLF) [0..<length msg - 3] of
        Some i \<Rightarrow> i + 4
      | None \<Rightarrow>
          (case find (\<lambda>i. take 2 (drop i msg) = [LF, LF]) [0..<length msg - 1] of
             Some i \<Rightarrow> i + 2
           | None \<Rightarrow> length msg))"

function read_hdr_loop :: "string \<Rightarrow> nat \<Rightarrow> nat" where
  "read_hdr_loop content got =
     (if got \<ge> IMAPD_HDR_CAP then got
      else
        let r = take (min 8192 (IMAPD_HDR_CAP - got)) (drop got content); got' = got + length r in
        if r = [] then got else if mail_hdr_end (take got' content) < got' then got' else read_hdr_loop content got')"
  by pat_completeness auto
termination
  by (relation "measure (\<lambda>(content, got). length content - got)") (auto simp: IMAPD_HDR_CAP_def min_def)

declare read_hdr_loop.simps [simp del]

definition imapd_read_hdr :: "'w ImapEnv \<Rightarrow> string \<Rightarrow> ('w, string option) state" where
  "imapd_read_hdr E path = do {
     f \<leftarrow> sys (ie_read E path);
     return (map_option (\<lambda>content. let buf = take (read_hdr_loop content 0) content in take (mail_hdr_end buf) buf) f)
   }"

definition imapd_msgid_of_buf :: "string \<Rightarrow> string option" where
  "imapd_msgid_of_buf msg =
     (if msg = [] then None
      else case mail_header_get msg ''Message-ID'' 1024 of None \<Rightarrow> None | Some v \<Rightarrow> if v = [] then None else Some v)"

text \<open>The message id of a file that is new to the table.\<close>

definition new_mid :: "'w ImapEnv \<Rightarrow> string \<Rightarrow> ('w, string option) state" where
  "new_mid E path = do {
     h \<leftarrow> imapd_read_hdr E path;
     case h of
       None \<Rightarrow> return None
     | Some hdr \<Rightarrow>
         (case imapd_msgid_of_buf hdr of
            Some m \<Rightarrow> return (Some m)
          | None \<Rightarrow>
              if length hdr \<ge> IMAPD_HDR_CAP then do {
                full \<leftarrow> sys (ie_read E path);
                return (case full of None \<Rightarrow> None | Some c \<Rightarrow> imapd_msgid_of_buf c)
              }
              else return None)
   }"

section \<open>Saving the table of numbers\<close>

text \<open>
  The call of \<open>imapd_uidlist_save\<close> with what the system did: whether the lock was taken, what the file held, and whether the new file
  was written and renamed.
\<close>

definition mbox_save :: "'w ImapEnv \<Rightarrow> Mbox \<Rightarrow> u32 \<Rightarrow> u32 \<Rightarrow> UidEnt list \<Rightarrow> string option \<Rightarrow> ('w, int \<times> u32) state" where
  "mbox_save E mb uv un v base =
     (case uidlist_path (mb_dir mb) of
        None \<Rightarrow> return (- 1, 0)
      | Some path \<Rightarrow> do {
          locked \<leftarrow> sys (ie_lock E (path @ ''.lock''));
          f \<leftarrow> (if locked then sys (ie_read E path) else return None);
          let (rc, uid, files) = imapd_uidlist_save locked True (\<lambda>p. f) (mb_dir mb) (mb_tomb mb) uv un v base;
          ok \<leftarrow> sys (ie_replace E path (case files path of None \<Rightarrow> [] | Some c \<Rightarrow> c));
          return (if ok then (0, uid) else (- 1, 0))
        })"

definition imapd_mbox_close :: "'w ImapEnv \<Rightarrow> Mbox \<Rightarrow> ('w, unit) state" where
  "imapd_mbox_close E mb =
     (if mb_uidlist_dirty mb then do {
        _ \<leftarrow> mbox_save E mb (mb_uidvalidity mb) (mb_uidnext mb) (mb_uidmap mb) None;
        return ()
      }
      else return ())"

section \<open>The scan\<close>

record Scan =
  sc_msgs :: "Imail list"
  sc_high :: u64
  sc_map :: "UidEnt list"
  sc_next :: u32
  sc_changed :: bool

text \<open>The parts of a file name: the base name before a colon and the flags after it; \<open>None\<close> for names that are not messages.\<close>

definition parse_name :: "string \<Rightarrow> (string \<times> u8f \<times> string) option" where
  "parse_name name =
     (if name \<noteq> [] \<and> hd name = DOT then None
      else
        let base = takeWhile (\<lambda>c. c \<noteq> CHR '':'') name; colon = dropWhile (\<lambda>c. c \<noteq> CHR '':'') name in
        if colon = [] then Some (base, 0, [])
        else map_option (\<lambda>(flags, unk). (base, flags, unk)) (imapd_flags_parse (tl colon) 32))"

definition scan_add :: "Imail \<Rightarrow> Scan \<Rightarrow> Scan" where
  "scan_add m sc =
     sc\<lparr>sc_msgs := sc_msgs sc @ [m\<lparr>m_unk := take (IMAPD_MAX_UNK - 1) (m_unk m), m_mid := (if m_mid m = Some [] then None else m_mid m)\<rparr>],
        sc_high := (if m_modseq m > sc_high sc then m_modseq m else sc_high sc)\<rparr>"

text \<open>The row of a base name in the table; a row with the number 0 does not count.\<close>

definition scan_row :: "BaseHash \<Rightarrow> UidEnt list \<Rightarrow> string \<Rightarrow> UidEnt option" where
  "scan_row bh v base =
     (case bh_get bh base of None \<Rightarrow> None | Some idx \<Rightarrow> if u_uid (v ! unat idx) = 0 then None else Some (v ! unat idx))"

definition scan_file :: "'w ImapEnv \<Rightarrow> string \<Rightarrow> bool \<Rightarrow> BaseHash \<Rightarrow> Scan \<Rightarrow> string \<Rightarrow> ('w, Scan) state" where
  "scan_file E sub_dir is_new bh sc name =
     (case parse_name name of
        None \<Rightarrow> return sc
      | Some (base, flags, unk) \<Rightarrow>
          let path = sub_dir @ ''/'' @ name in
          if length path \<ge> 4160 then return sc
          else do {
            st \<leftarrow> sys (ie_stat E path);
            case st of
              None \<Rightarrow> return sc
            | Some (sz, mtime) \<Rightarrow>
                let m = \<lparr>m_uid = 0, m_flags = flags, m_unk = unk, m_recent = is_new, m_date = mtime, m_size = sz, m_modseq = 1,
                         m_base = base, m_path = path, m_mid = None\<rparr> in
                (case scan_row bh (sc_map sc) base of
                   Some e \<Rightarrow> return (scan_add (m\<lparr>m_uid := u_uid e, m_modseq := u_modseq e, m_mid := u_mid e\<rparr>) sc)
                 | None \<Rightarrow> do {
                     mid \<leftarrow> new_mid E path;
                     let uid = sc_next sc;
                     let nxt = uid + 1;
                     let e = \<lparr>u_base = base, u_mid = mid, u_uid = uid, u_modseq = ucast nxt\<rparr>;
                     let sc1 = sc\<lparr>sc_next := nxt, sc_changed := True, sc_map := sc_map sc @ [e]\<rparr>;
                     return (scan_add (m\<lparr>m_uid := uid, m_modseq := ucast nxt, m_mid := mid\<rparr>) sc1)
                   })
          })"

definition scan_subdir :: "'w ImapEnv \<Rightarrow> string \<Rightarrow> string \<Rightarrow> bool \<Rightarrow> BaseHash \<Rightarrow> Scan \<Rightarrow> ('w, Scan option) state" where
  "scan_subdir E dir sub is_new bh sc =
     (let sub_dir = dir @ ''/'' @ sub in
      if length sub_dir \<ge> 4104 then return None
      else do {
        names \<leftarrow> sys (ie_list E sub_dir);
        case names of
          None \<Rightarrow> return None
        | Some ns \<Rightarrow> do { sc' \<leftarrow> foldM (scan_file E sub_dir is_new bh) sc ns; return (Some sc') }
      })"

definition base_index :: "UidEnt list \<Rightarrow> BaseHash" where
  "base_index v = fold (\<lambda>(i, e) h. bh_put h (u_base e) (of_nat i)) (enumerate 0 v) (bh_init (length v))"

text \<open>The base names in the view; of files with the same base name the last one counts.\<close>

definition seen_index :: "Imail list \<Rightarrow> BaseHash" where
  "seen_index ms = fold (\<lambda>m h. bh_put h (m_base m) (m_uid m)) ms (bh_init (length ms))"

text \<open>Rows whose file is gone are dropped: the last row takes their place.\<close>

function prune_loop :: "BaseHash \<Rightarrow> nat \<Rightarrow> UidEnt list \<times> string list \<times> bool \<Rightarrow> UidEnt list \<times> string list \<times> bool" where
  "prune_loop seen i (v, tomb, changed) =
     (if i \<ge> length v then (v, tomb, changed)
      else if bh_get seen (u_base (v ! i)) = Some (u_uid (v ! i)) then prune_loop seen (i + 1) (v, tomb, changed)
      else prune_loop seen i (butlast (v[i := last v]), tomb_add tomb (u_base (v ! i)), True))"
  by pat_completeness auto
termination
  by (relation "measure (\<lambda>(seen, i, (v, tomb, changed)). 2 * length v - i)") auto

declare prune_loop.simps [simp del]

definition move_new_file :: "'w ImapEnv \<Rightarrow> string \<Rightarrow> Imail \<Rightarrow> ('w, Imail) state" where
  "move_new_file E dir m =
     (if \<not> m_recent m then return m
      else case imapd_flags_encode (m_flags m) (m_unk m) 32 of
        None \<Rightarrow> return m
      | Some info \<Rightarrow>
          (case msg_path dir ''cur'' (m_base m) info 4160 of
             None \<Rightarrow> return m
           | Some dst \<Rightarrow> do {
               ok \<leftarrow> sys (ie_rename E (m_path m) dst);
               return (if ok then m\<lparr>m_path := dst\<rparr> else m)
             }))"

fun move_new_files :: "'w ImapEnv \<Rightarrow> string \<Rightarrow> Imail list \<Rightarrow> ('w, Imail list) state" where
  "move_new_files E dir [] = return []"
| "move_new_files E dir (m # ms) = do { m' \<leftarrow> move_new_file E dir m; ms' \<leftarrow> move_new_files E dir ms; return (m' # ms') }"

text \<open>The part of \<open>mbox_scan\<close> after the two directories have been read.\<close>

definition scan_finish :: "'w ImapEnv \<Rightarrow> string \<Rightarrow> bool \<Rightarrow> u32 \<Rightarrow> Scan \<Rightarrow> ('w, Mbox option) state" where
  "scan_finish E dir move_new uv sc = do {
     let ms = sort_key m_uid (sc_msgs sc);
     let (v, tomb, changed) = prune_loop (seen_index ms) 0 (sc_map sc, [], sc_changed sc);
     ms' \<leftarrow> (if move_new then move_new_files E dir ms else return ms);
     let mb = \<lparr>mb_dir = dir, mb_uidvalidity = uv, mb_uidnext = sc_next sc, mb_highestmodseq = sc_high sc, mb_msgs = ms',
               mb_uidmap = v, mb_uidlist_dirty = False, mb_tomb = tomb\<rparr>;
     if changed then do {
       (rc, _) \<leftarrow> mbox_save E mb uv (sc_next sc) v None;
       return (if rc = 0 then Some mb else None)
     }
     else return (Some mb)
   }"

definition mbox_scan :: "'w ImapEnv \<Rightarrow> ImapdConfig \<Rightarrow> string \<Rightarrow> string \<Rightarrow> bool \<Rightarrow> ('w, Mbox option) state" where
  "mbox_scan E cfg user name move_new = do {
     now \<leftarrow> sys (ie_time E);
     case imapd_mbox_dir cfg user name 4096 of
       None \<Rightarrow> return None
     | Some dir \<Rightarrow> do {
         ok \<leftarrow> imapd_mbox_create E dir;
         if \<not> ok then return None
         else case uidlist_path dir of
           None \<Rightarrow> return None
         | Some path \<Rightarrow> do {
             f \<leftarrow> sys (ie_read E path);
             let (uv, un0, map) = uidlist_load f (of_int now) 1;
             let un = (if un0 = 0 then 1 else un0);
             let bh = base_index map;
             s1 \<leftarrow> scan_subdir E dir ''new'' True bh
                     \<lparr>sc_msgs = [], sc_high = 0, sc_map = map, sc_next = un, sc_changed = False\<rparr>;
             case s1 of
               None \<Rightarrow> return None
             | Some sc \<Rightarrow> do {
                 s2 \<leftarrow> scan_subdir E dir ''cur'' False bh sc;
                 case s2 of
                   None \<Rightarrow> return None
                 | Some sc' \<Rightarrow> scan_finish E dir move_new uv sc'
               }
           }
       }
   }"

definition imapd_mbox_open :: "'w ImapEnv \<Rightarrow> ImapdConfig \<Rightarrow> string \<Rightarrow> string \<Rightarrow> ('w, Mbox option) state" where
  "imapd_mbox_open E cfg user name = mbox_scan E cfg user name True"

definition imapd_mbox_peek :: "'w ImapEnv \<Rightarrow> ImapdConfig \<Rightarrow> string \<Rightarrow> string \<Rightarrow> ('w, Mbox option) state" where
  "imapd_mbox_peek E cfg user name = mbox_scan E cfg user name False"

section \<open>Flags and deletion\<close>

text \<open>The index of the first message with a number.\<close>

fun mbox_index :: "Imail list \<Rightarrow> u32 \<Rightarrow> nat option" where
  "mbox_index [] uid = None"
| "mbox_index (m # ms) uid = (if m_uid m = uid then Some 0 else map_option Suc (mbox_index ms uid))"

definition imapd_mbox_find :: "Mbox \<Rightarrow> u32 \<Rightarrow> Imail option" where
  "imapd_mbox_find mb uid = map_option (\<lambda>i. mb_msgs mb ! i) (mbox_index (mb_msgs mb) uid)"

fun uidmap_index :: "UidEnt list \<Rightarrow> u32 \<Rightarrow> nat option" where
  "uidmap_index [] uid = None"
| "uidmap_index (e # es) uid = (if u_uid e = uid then Some 0 else map_option Suc (uidmap_index es uid))"

text \<open>The bookkeeping of a flag change: the change counter of the mailbox goes to the message and to its row.\<close>

definition store_rows :: "UidEnt list \<Rightarrow> Imail \<Rightarrow> UidEnt list" where
  "store_rows v m =
     (case uidmap_index v (m_uid m) of
        Some j \<Rightarrow> v[j := (v ! j)\<lparr>u_modseq := m_modseq m\<rparr>]
      | None \<Rightarrow> v @ [\<lparr>u_base = m_base m, u_mid = m_mid m, u_uid = m_uid m, u_modseq = m_modseq m\<rparr>])"

definition imapd_mbox_store :: "'w ImapEnv \<Rightarrow> Mbox \<Rightarrow> u32 \<Rightarrow> u8f \<Rightarrow> ('w, int \<times> Mbox) state" where
  "imapd_mbox_store E mb uid flags =
     (case mbox_index (mb_msgs mb) uid of
        None \<Rightarrow> return (- 1, mb)
      | Some i \<Rightarrow>
          let m = mb_msgs mb ! i in
          (case imapd_flags_encode flags (m_unk m) 32 of
             None \<Rightarrow> return (- 1, mb)
           | Some info \<Rightarrow>
               (case msg_path (mb_dir mb) ''cur'' (m_base m) info 4160 of
                  None \<Rightarrow> return (- 1, mb)
                | Some dst \<Rightarrow> do {
                    ok \<leftarrow> sys (ie_rename E (m_path m) dst);
                    if \<not> ok then return (- 1, mb)
                    else do {
                      let high = (if mb_highestmodseq mb + 1 = 0 then 1 else mb_highestmodseq mb + 1);
                      let m' = m\<lparr>m_path := dst, m_flags := flags, m_modseq := high\<rparr>;
                      return (0, mb\<lparr>mb_msgs := (mb_msgs mb)[i := m'], mb_highestmodseq := high,
                                    mb_uidmap := store_rows (mb_uidmap mb) m', mb_uidlist_dirty := True\<rparr>)
                    }
                  })))"

definition uidmap_remove :: "Mbox \<Rightarrow> u32 \<Rightarrow> Mbox" where
  "uidmap_remove mb uid =
     (case uidmap_index (mb_uidmap mb) uid of
        None \<Rightarrow> mb
      | Some j \<Rightarrow>
          let v = mb_uidmap mb in
          mb\<lparr>mb_tomb := tomb_add (mb_tomb mb) (u_base (v ! j)), mb_uidmap := butlast (v[j := last v]), mb_uidlist_dirty := True\<rparr>)"

definition drop_msg :: "nat \<Rightarrow> Mbox \<Rightarrow> Mbox" where
  "drop_msg i mb = mb\<lparr>mb_msgs := take i (mb_msgs mb) @ drop (i + 1) (mb_msgs mb)\<rparr>"

definition imapd_mbox_expunge :: "'w ImapEnv \<Rightarrow> Mbox \<Rightarrow> u32 \<Rightarrow> ('w, int \<times> Mbox) state" where
  "imapd_mbox_expunge E mb uid =
     (case mbox_index (mb_msgs mb) uid of
        None \<Rightarrow> return (- 1, mb)
      | Some i \<Rightarrow> do {
          _ \<leftarrow> sys (ie_unlink E (m_path (mb_msgs mb ! i)));
          return (0, uidmap_remove (drop_msg i mb) uid)
        })"

section \<open>Delivery\<close>

text \<open>
  A file is written to \<open>tmp\<close> and renamed to \<open>new\<close>, or to \<open>cur\<close> when it has flags; the result is its base name. The unique name comes
  from the clock, the process and a counter.
\<close>

definition deliver_file :: "'w ImapEnv \<Rightarrow> string \<Rightarrow> string \<Rightarrow> u8f \<Rightarrow> string \<Rightarrow> ('w, string option) state" where
  "deliver_file E dir msg flags unk =
     (if mail_data_has_ctl msg then return None
      else do {
        ok \<leftarrow> imapd_mbox_create E dir;
        if \<not> ok then return None
        else do {
          uniq \<leftarrow> sys (ie_unique E);
          case msg_path dir ''tmp'' uniq [] 4104 of
            None \<Rightarrow> return None
          | Some tmp \<Rightarrow> do {
              w \<leftarrow> sys (ie_write E tmp msg);
              if \<not> w then return None
              else
                let dst = (if flags \<noteq> 0 \<or> unk \<noteq> []
                           then (case imapd_flags_encode flags unk 32 of
                                   None \<Rightarrow> None
                                 | Some info \<Rightarrow> msg_path dir ''cur'' uniq info 4160)
                           else msg_path dir ''new'' uniq [] 4160) in
                (case dst of
                   None \<Rightarrow> do { _ \<leftarrow> sys (ie_unlink E tmp); return None }
                 | Some d \<Rightarrow> do {
                     r \<leftarrow> sys (ie_rename E tmp d);
                     if r then return (Some uniq) else do { _ \<leftarrow> sys (ie_unlink E tmp); return None }
                   })
            }
        }
      })"

definition imapd_mbox_deliver :: "'w ImapEnv \<Rightarrow> string \<Rightarrow> string \<Rightarrow> u8f \<Rightarrow> string \<Rightarrow> ('w, int) state" where
  "imapd_mbox_deliver E dir msg flags unk = do {
     r \<leftarrow> deliver_file E dir msg flags unk;
     return (case r of None \<Rightarrow> - 1 | Some _ \<Rightarrow> 0)
   }"

text \<open>The registration of a file: \<open>uidvalidity\<close> and number, or \<open>None\<close>.\<close>

definition mbox_register :: "'w ImapEnv \<Rightarrow> ImapdConfig \<Rightarrow> string \<Rightarrow> string \<Rightarrow> string \<Rightarrow> string option \<Rightarrow> ('w, (u32 \<times> u32) option) state" where
  "mbox_register E cfg user dest base mid =
     (case imapd_mbox_dir cfg user dest 4096 of
        None \<Rightarrow> return None
      | Some dir \<Rightarrow> do {
          ok \<leftarrow> imapd_mbox_create E dir;
          if \<not> ok then return None
          else do {
            now \<leftarrow> sys (ie_time E);
            f \<leftarrow> (case uidlist_path dir of None \<Rightarrow> return None | Some path \<Rightarrow> sys (ie_read E path));
            let (uv, un0, v) = uidlist_load f (of_int now) 1;
            let un = (if un0 = 0 then 1 else un0);
            case find (\<lambda>e. u_base e = base) v of
              Some e \<Rightarrow> return (Some (uv, u_uid e))
            | None \<Rightarrow> do {
                let row = \<lparr>u_base = base, u_mid = (if mid = Some [] then None else mid), u_uid = (if un = 0 then 1 else un), u_modseq = ucast (un + 1)\<rparr>;
                (rc, saved) \<leftarrow> mbox_save E (empty_mbox dir) uv (un + 1) (v @ [row]) (Some base);
                return (if rc = 0 then Some (uv, saved) else None)
              }
          }
        })"

definition imapd_mbox_deliver_uid ::
  "'w ImapEnv \<Rightarrow> ImapdConfig \<Rightarrow> string \<Rightarrow> string \<Rightarrow> string \<Rightarrow> u8f \<Rightarrow> string \<Rightarrow> ('w, int \<times> u32 \<times> u32) state" where
  "imapd_mbox_deliver_uid E cfg user name msg flags unk =
     (case imapd_mbox_dir cfg user name 4096 of
        None \<Rightarrow> return (- 1, 0, 0)
      | Some dir \<Rightarrow> do {
          d \<leftarrow> deliver_file E dir msg flags unk;
          case d of
            None \<Rightarrow> return (- 1, 0, 0)
          | Some base \<Rightarrow>
              if length base + 1 > 128 then return (- 1, 0, 0)
              else do {
                r \<leftarrow> mbox_register E cfg user name base (imapd_msgid_of_buf msg);
                return (case r of None \<Rightarrow> (0, 0, 0) | Some (uv, uid) \<Rightarrow> (0, uv, uid))
              }
        })"

text \<open>Moving or copying a message to another mailbox of the user; a copy reads the whole file and writes it.\<close>

definition copy_file :: "'w ImapEnv \<Rightarrow> string \<Rightarrow> string \<Rightarrow> ('w, bool) state" where
  "copy_file E src dst = do {
     f \<leftarrow> sys (ie_read E src);
     case f of
       None \<Rightarrow> return False
     | Some c \<Rightarrow> do {
         ok \<leftarrow> sys (ie_write E dst c);
         if ok then return True else do { _ \<leftarrow> sys (ie_unlink E dst); return False }
       }
   }"

definition imapd_mbox_file ::
  "'w ImapEnv \<Rightarrow> ImapdConfig \<Rightarrow> string \<Rightarrow> Mbox \<Rightarrow> u32 \<Rightarrow> string \<Rightarrow> bool \<Rightarrow> ('w, (u32 \<times> u32) option \<times> Mbox) state" where
  "imapd_mbox_file E cfg user mb uid dest move =
     (case (mbox_index (mb_msgs mb) uid, imapd_mbox_dir cfg user dest 4096) of
        (Some i, Some destdir) \<Rightarrow>
          let m = mb_msgs mb ! i in
          do {
            ok \<leftarrow> imapd_mbox_create E destdir;
            case (if ok then imapd_flags_encode (m_flags m) (m_unk m) 32 else None) of
              None \<Rightarrow> return (None, mb)
            | Some info \<Rightarrow>
                (case msg_path destdir ''cur'' (m_base m) info 4160 of
                   None \<Rightarrow> return (None, mb)
                 | Some dst \<Rightarrow> do {
                     placed \<leftarrow> (if move then sys (ie_rename E (m_path m) dst) else copy_file E (m_path m) dst);
                     if \<not> placed then return (None, mb)
                     else do {
                       r \<leftarrow> mbox_register E cfg user dest (m_base m) (m_mid m);
                       case r of
                         None \<Rightarrow> return (None, mb)
                       | Some x \<Rightarrow> return (Some x, if move then drop_msg i (uidmap_remove mb uid) else mb)
                     }
                   })
          }
      | _ \<Rightarrow> return (None, mb))"

end
