(* ===== verification/Pop3_Session.thy ===== *)
theory Pop3_Session
  imports Maildir_Mbox Outbox_Auth
begin

text \<open>
  The POP3 server (\<open>pop3d.c\<close>) with the TLS layer of its daemon (\<open>imapd_tls.c\<close>) and the login check of \<open>imap_maildir.c\<close>: one connection from the
  greeting on. The state is the connection being served, the table of failed logins and the world. Log lines are left out. \<open>errno\<close> \<open>EINTR\<close> retries are
  part of the environment. \<open>imapd_auth_load\<close>, \<open>ct_equal\<close>, \<open>auth_fail_find\<close>, \<open>imapd_auth_fail\<close>, \<open>imapd_auth_clear\<close> and
  \<open>imapd_auth_blocked\<close> repeat the functions of \<open>outbox_auth.c\<close> with the same constants and are the definitions made for them.
\<close>

section \<open>State\<close>

definition IMAPD_MAX_OUT :: nat where "IMAPD_MAX_OUT = 256 * 1024"
definition IMAPD_RECV_CHUNK :: nat where "IMAPD_RECV_CHUNK = 4096"
definition IMAPD_MAX_LINE :: nat where "IMAPD_MAX_LINE = 1000"

datatype pop3_state = PO_AUTH | PO_TRANS

datatype pg_phase = PG_HDR | PG_BODY | PG_END | PG_DONE

record Pop3Gen =
  pg_fd :: int
  pg_size :: nat
  pg_pos :: nat
  pg_phase :: pg_phase
  pg_bol :: bool

record ImapdTls =
  it_state :: tls_phase
  it_want_write :: bool

text \<open>The fields of \<open>Conn\<close> that a POP3 connection uses; \<open>p_del\<close> is empty where the code has no array.\<close>

record PopConn =
  p_fd :: int
  p_closed :: bool
  p_in :: string
  p_out :: string
  p_out_off :: nat
  p_last_act :: int
  p_peer_ip :: string
  p_user :: "string option"
  p_mb :: "Mbox option"
  p_tls :: "ImapdTls option"
  p_pst :: pop3_state
  p_pend_user :: "string option"
  p_del :: "bool list"
  p_ndel :: nat
  p_pg :: "Pop3Gen option"

record ImapdServer =
  is_cfg :: ImapdConfig
  is_creds :: "OutboxCred list"
  is_tls_ready :: bool
  is_pop3_loopback :: bool

record 'w Pop =
  po_conn :: PopConn
  po_fails :: "OutboxFail list"
  po_world :: 'w
  po_stalled :: bool

definition pio :: "('w \<Rightarrow> 'r \<times> 'w) \<Rightarrow> ('w Pop, 'r) state" where
  "pio f = State (\<lambda>s. case f (po_world s) of (r, w) \<Rightarrow> (r, s\<lparr>po_world := w\<rparr>))"

definition pconn :: "('w Pop, PopConn) state" where
  "pconn = gets po_conn"

definition upd_pconn :: "(PopConn \<Rightarrow> PopConn) \<Rightarrow> ('w Pop, unit) state" where
  "upd_pconn f = modify (\<lambda>s. s\<lparr>po_conn := f (po_conn s)\<rparr>)"

definition pclose :: "('w Pop, unit) state" where
  "pclose = upd_pconn (\<lambda>c. c\<lparr>p_closed := True\<rparr>)"

lemma run_pio [simp]: "run_state (pio f) s = (fst (f (po_world s)), s\<lparr>po_world := snd (f (po_world s))\<rparr>)"
  by (simp add: pio_def split_beta)

lemma run_pconn [simp]: "run_state pconn s = (po_conn s, s)"
  by (simp add: pconn_def)

lemma run_upd_pconn [simp]: "run_state (upd_pconn f) s = ((), s\<lparr>po_conn := f (po_conn s)\<rparr>)"
  by (simp add: upd_pconn_def)

section \<open>TLS\<close>

definition imapd_tls_pending :: "ImapdTls option \<Rightarrow> bool" where
  "imapd_tls_pending t = (case t of None \<Rightarrow> False | Some t \<Rightarrow> it_state t = TLS_PENDING)"

definition imapd_tls_handshaking :: "ImapdTls option \<Rightarrow> bool" where
  "imapd_tls_handshaking t = (case t of None \<Rightarrow> False | Some t \<Rightarrow> it_state t \<noteq> TLS_ESTABLISHED)"

definition imapd_tls_established :: "ImapdTls option \<Rightarrow> bool" where
  "imapd_tls_established t = (case t of None \<Rightarrow> False | Some t \<Rightarrow> it_state t = TLS_ESTABLISHED)"

definition imapd_tls_wants_write :: "ImapdTls option \<Rightarrow> bool" where
  "imapd_tls_wants_write t = (case t of None \<Rightarrow> False | Some t \<Rightarrow> it_want_write t)"

definition imapd_tls_start :: "'w ImapEnv \<Rightarrow> ('w Pop, bool) state" where
  "imapd_tls_start E = do {
     c \<leftarrow> pconn;
     ok \<leftarrow> pio (ie_tls_setup E (p_fd c));
     if ok then do { upd_pconn (\<lambda>c. c\<lparr>p_tls := Some \<lparr>it_state = TLS_PENDING, it_want_write = False\<rparr>\<rparr>); return True }
     else return False
   }"

definition handshake_done :: "mbed_code \<Rightarrow> ImapdTls \<Rightarrow> hs_result \<times> ImapdTls" where
  "handshake_done r t =
     (case r of
        MBED_OK \<Rightarrow> (HS_done, t\<lparr>it_state := TLS_ESTABLISHED\<rparr>)
      | MBED_WANT_READ \<Rightarrow> (HS_more, t\<lparr>it_want_write := False\<rparr>)
      | MBED_WANT_WRITE \<Rightarrow> (HS_more, t\<lparr>it_want_write := True\<rparr>)
      | MBED_FATAL \<Rightarrow> (HS_fatal, t))"

definition imapd_tls_handshake_step :: "'w ImapEnv \<Rightarrow> int \<Rightarrow> ('w Pop, hs_result) state" where
  "imapd_tls_handshake_step E now = do {
     c \<leftarrow> pconn;
     case p_tls c of
       None \<Rightarrow> return HS_fatal
     | Some t0 \<Rightarrow> do {
         let t = (if it_state t0 = TLS_PENDING then t0\<lparr>it_state := TLS_HANDSHAKE\<rparr> else t0);
         if it_state t = TLS_ESTABLISHED then return HS_done
         else do {
           r \<leftarrow> pio (ie_tls_handshake E (p_fd c));
           let (res, t') = handshake_done r t;
           upd_pconn (\<lambda>c. c\<lparr>p_tls := Some t', p_last_act := now\<rparr>);
           return res
         }
       }
   }"

text \<open>\<open>Inl ()\<close> is \<open>-1\<close>; \<open>Inr []\<close> is \<open>0\<close>, no data right now.\<close>

definition imapd_tls_recv :: "'w ImapEnv \<Rightarrow> PopConn \<Rightarrow> nat \<Rightarrow> 'w \<Rightarrow> (unit + string) \<times> 'w" where
  "imapd_tls_recv E c len w =
     (if \<not> imapd_tls_established (p_tls c) then (Inl (), w)
      else case ie_tls_read E (p_fd c) len w of
        (Inr bytes, w') \<Rightarrow> (if bytes = [] then Inl () else Inr bytes, w')
      | (Inl r, w') \<Rightarrow> (if r = MBED_WANT_READ \<or> r = MBED_WANT_WRITE then Inr [] else Inl (), w'))"

definition imapd_tls_send :: "'w ImapEnv \<Rightarrow> int \<Rightarrow> string \<Rightarrow> 'w \<Rightarrow> sent \<times> 'w" where
  "imapd_tls_send E fd buf w =
     (if buf = [] then (Send_failed, w)
      else case ie_tls_write E fd buf w of
        (Inr n, w') \<Rightarrow> (if n = 0 then Send_failed else Sent n, w')
      | (Inl r, w') \<Rightarrow> (if r = MBED_WANT_WRITE then Would_block else Send_failed, w'))"

section \<open>Output\<close>

definition pflush_send :: "'w ImapEnv \<Rightarrow> PopConn \<Rightarrow> string \<Rightarrow> 'w \<Rightarrow> sent \<times> 'w" where
  "pflush_send E c = (if p_tls c \<noteq> None \<and> \<not> imapd_tls_pending (p_tls c) then imapd_tls_send E (p_fd c) else ie_send E (p_fd c))"

definition pafter_flush :: "flush_end \<Rightarrow> PopConn \<Rightarrow> PopConn" where
  "pafter_flush r c =
     (case r of
        Flush_done \<Rightarrow> c\<lparr>p_out := [], p_out_off := 0\<rparr>
      | Flush_blocked off \<Rightarrow> c\<lparr>p_out_off := off\<rparr>
      | Flush_dead \<Rightarrow> c\<lparr>p_closed := True, p_out := [], p_out_off := 0\<rparr>)"

definition pop3_flush :: "'w ImapEnv \<Rightarrow> ('w Pop, unit) state" where
  "pop3_flush E = do {
     c \<leftarrow> pconn;
     r \<leftarrow> pio (flush_loop (pflush_send E c) (p_out c) (p_out_off c));
     upd_pconn (pafter_flush r)
   }"

definition pop3_reply :: "'w ImapEnv \<Rightarrow> string \<Rightarrow> ('w Pop, unit) state" where
  "pop3_reply E txt = do {
     c \<leftarrow> pconn;
     if length (p_out c) > IMAPD_MAX_OUT then pclose
     else do {
       upd_pconn (\<lambda>c. c\<lparr>p_out := p_out c @ txt\<rparr>);
       pop3_flush E
     }
   }"

definition pop3_replyf :: "'w ImapEnv \<Rightarrow> string \<Rightarrow> ('w Pop, unit) state" where
  "pop3_replyf E txt =
     (if length txt \<ge> 1024 then do { pop3_reply E (''-ERR reply too long'' @ CRLF); pclose }
      else pop3_reply E txt)"

definition pop3_err :: "'w ImapEnv \<Rightarrow> string \<Rightarrow> ('w Pop, unit) state" where
  "pop3_err E msg = pop3_replyf E (''-ERR '' @ msg @ CRLF)"

definition pop3_greeting :: "'w ImapEnv \<Rightarrow> ImapdServer \<Rightarrow> ('w Pop, unit) state" where
  "pop3_greeting E srv =
     (let g = ''+OK '' @ im_hostname (is_cfg srv) @ '' POP3 server ready'' @ CRLF in
      if length g \<ge> 512 then pop3_reply E (''+OK POP3 server ready'' @ CRLF) else pop3_reply E g)"

section \<open>Arguments\<close>

text \<open>A decimal number up to \<open>0x7fffffff\<close>, after spaces and up to a space or the end.\<close>

fun ulong_digits :: "nat \<Rightarrow> string \<Rightarrow> (nat \<times> string) option" where
  "ulong_digits v [] = Some (v, [])"
| "ulong_digits v (c # cs) =
     (if is_digit c then
        let v' = v * 10 + digit_val c in if v' > 0x7fffffff then None else ulong_digits v' cs
      else Some (v, c # cs))"

definition parse_ulong :: "string \<Rightarrow> nat option" where
  "parse_ulong s0 =
     (let s = dropWhile (\<lambda>c. c = SP) s0 in
      if s = [] \<or> \<not> is_digit (hd s) then None
      else case ulong_digits 0 s of
        None \<Rightarrow> None
      | Some (v, r) \<Rightarrow> if r \<noteq> [] \<and> hd r \<noteq> SP then None else Some v)"

definition hdr_end_of :: "string \<Rightarrow> nat" where
  "hdr_end_of buf =
     (let at = (\<lambda>i. if i < length buf then Some (buf ! i) else None);
          ends = (\<lambda>i. buf ! i = LF \<and> (at (i + 1) = Some LF \<or> (at (i + 1) = Some CR \<and> at (i + 2) = Some LF))) in
      case find ends [0..<length buf - 1] of
        None \<Rightarrow> length buf
      | Some i \<Rightarrow> if at (i + 1) = Some LF then i + 2 else i + 3)"

section \<open>The mailbox of the session\<close>

definition the_mb :: "PopConn \<Rightarrow> Mbox" where
  "the_mb c = (case p_mb c of Some mb \<Rightarrow> mb | None \<Rightarrow> empty_mbox [])"

definition on_mbox :: "(Mbox \<Rightarrow> ('w, int \<times> Mbox) state) \<Rightarrow> ('w Pop, int) state" where
  "on_mbox f = do {
     c \<leftarrow> pconn;
     (rc, mb) \<leftarrow> pio (run_state (f (the_mb c)));
     upd_pconn (\<lambda>c. c\<lparr>p_mb := Some mb\<rparr>);
     return rc
   }"

definition open_inbox :: "'w ImapEnv \<Rightarrow> ImapdServer \<Rightarrow> string \<Rightarrow> ('w Pop, bool) state" where
  "open_inbox E srv user = do {
     r \<leftarrow> pio (run_state (imapd_mbox_peek E (is_cfg srv) user ''INBOX''));
     case r of
       None \<Rightarrow> return False
     | Some mb \<Rightarrow> do {
         upd_pconn (\<lambda>c. c\<lparr>p_mb := Some mb, p_del := replicate (length (mb_msgs mb)) False\<rparr>);
         return True
       }
   }"

definition is_del :: "PopConn \<Rightarrow> nat \<Rightarrow> bool" where
  "is_del c i \<longleftrightarrow> i < length (p_del c) \<and> p_del c ! i"

definition mbox_octets :: "PopConn \<Rightarrow> nat" where
  "mbox_octets c = (\<Sum>i\<leftarrow>[0..<length (mb_msgs (the_mb c))]. if is_del c i then 0 else m_size (mb_msgs (the_mb c) ! i))"

definition msg_index :: "PopConn \<Rightarrow> nat \<Rightarrow> nat option" where
  "msg_index c n =
     (if n < 1 \<or> n > length (mb_msgs (the_mb c)) then None
      else if is_del c (n - 1) then None
      else Some (n - 1))"

section \<open>RETR and TOP\<close>

fun nth_lf :: "nat \<Rightarrow> string \<Rightarrow> nat option" where
  "nth_lf k [] = None"
| "nth_lf k (c # cs) = (if c = LF then if k = 1 then Some 0 else map_option Suc (nth_lf (k - 1) cs) else map_option Suc (nth_lf k cs))"

text \<open>The bytes of a read; an error and the end of the file give none.\<close>

definition got :: "nat \<Rightarrow> string option \<Rightarrow> string" where
  "got want r = (case r of None \<Rightarrow> [] | Some b \<Rightarrow> take want b)"

lemma read_progress: "r \<noteq> [] \<Longrightarrow> off < n \<Longrightarrow> n - (off + length r) < n - off"
  by (cases r) auto

function top_cut_loop :: "'w ImapEnv \<Rightarrow> int \<Rightarrow> nat \<Rightarrow> nat \<Rightarrow> nat \<Rightarrow> ('w Pop, nat) state" where
  "top_cut_loop E fd off fsize k =
     (if off \<ge> fsize then return fsize
      else do {
        r \<leftarrow> pio (ie_pread E fd off (min (fsize - off) 8192));
        let buf = got (min (fsize - off) 8192) r;
        if buf = [] then return fsize
        else case nth_lf k buf of
          Some i \<Rightarrow> return (off + i + 1)
        | None \<Rightarrow> top_cut_loop E fd (off + length buf) fsize (k - length (filter (\<lambda>c. c = LF) buf))
      })"
  by pat_completeness auto
termination
  by (relation "measure (\<lambda>(E, fd, off, fsize, k). fsize - off)") (auto intro: read_progress)

declare top_cut_loop.simps [simp del]

definition top_cut :: "'w ImapEnv \<Rightarrow> int \<Rightarrow> nat \<Rightarrow> nat \<Rightarrow> nat \<Rightarrow> ('w Pop, nat) state" where
  "top_cut E fd hdr_end fsize n = (if n = 0 then return hdr_end else top_cut_loop E fd hdr_end fsize n)"

text \<open>The reads of the header block; \<open>None\<close> is a read error.\<close>

function read_upto :: "'w ImapEnv \<Rightarrow> int \<Rightarrow> nat \<Rightarrow> string \<Rightarrow> ('w Pop, string option) state" where
  "read_upto E fd want buf =
     (if length buf \<ge> want then return (Some buf)
      else do {
        r \<leftarrow> pio (ie_pread E fd (length buf) (want - length buf));
        case r of
          None \<Rightarrow> return None
        | Some _ \<Rightarrow>
            let b = got (want - length buf) r in
            if b = [] then return (Some buf) else read_upto E fd want (buf @ b)
      })"
  by pat_completeness auto
termination
  by (relation "measure (\<lambda>(E, fd, want, buf). want - length buf)") (auto intro: read_progress)

declare read_upto.simps [simp del]

definition start_retr :: "'w ImapEnv \<Rightarrow> nat \<Rightarrow> nat option \<Rightarrow> ('w Pop, bool) state" where
  "start_retr E idx lines = do {
     c \<leftarrow> pconn;
     let m = mb_msgs (the_mb c) ! idx;
     fd \<leftarrow> pio (ie_open E (m_path m));
     case fd of
       None \<Rightarrow> return False
     | Some fd \<Rightarrow> do {
         send_end \<leftarrow> (case lines of
           None \<Rightarrow> return (Some (m_size m))
         | Some n \<Rightarrow> do {
             h \<leftarrow> read_upto E fd (min (m_size m) IMAPD_HDR_CAP) [];
             case h of
               None \<Rightarrow> return None
             | Some buf \<Rightarrow> do { e \<leftarrow> top_cut E fd (hdr_end_of buf) (m_size m) n; return (Some e) }
           });
         case send_end of
           None \<Rightarrow> return False
         | Some e \<Rightarrow> do {
             upd_pconn (\<lambda>c. c\<lparr>p_pg := Some \<lparr>pg_fd = fd, pg_size = e, pg_pos = 0, pg_phase = PG_HDR, pg_bol = True\<rparr>\<rparr>);
             return True
           }
       }
   }"

fun stuff :: "bool \<Rightarrow> string \<Rightarrow> string \<times> bool" where
  "stuff bol [] = ([], bol)"
| "stuff bol (c # cs) =
     (case stuff (c = LF) cs of (out, b) \<Rightarrow> ((if bol \<and> c = DOT then [DOT, c] else [c]) @ out, b))"

text \<open>The loop of the pump on the generator it works on.\<close>

fun pg_rank :: "pg_phase \<Rightarrow> nat" where
  "pg_rank PG_HDR = 3" | "pg_rank PG_BODY = 2" | "pg_rank PG_END = 1" | "pg_rank PG_DONE = 0"

function pump_loop :: "'w ImapEnv \<Rightarrow> Pop3Gen \<Rightarrow> ('w Pop, Pop3Gen) state" where
  "pump_loop E g = do {
     c \<leftarrow> pconn;
     if p_closed c \<or> pg_phase g = PG_DONE then return g
     else if length (p_out c) - p_out_off c \<ge> IMAPD_MAX_OUT div 2 then do { pop3_flush E; return g }
     else case pg_phase g of
       PG_HDR \<Rightarrow> do { pop3_reply E (''+OK message follows'' @ CRLF); pump_loop E (g\<lparr>pg_phase := PG_BODY\<rparr>) }
     | PG_END \<Rightarrow> do {
         whenM (\<not> pg_bol g) (pop3_reply E CRLF);
         pop3_reply E (''.'' @ CRLF);
         return (g\<lparr>pg_phase := PG_DONE\<rparr>)
       }
     | PG_BODY \<Rightarrow>
         let want = min (pg_size g - pg_pos g) 8192 in
         if want = 0 then pump_loop E (g\<lparr>pg_phase := PG_END\<rparr>)
         else do {
           r \<leftarrow> pio (ie_pread E (pg_fd g) (pg_pos g) want);
           let raw = got want r;
           if raw = [] then pump_loop E (g\<lparr>pg_phase := PG_END\<rparr>)
           else do {
             let (stuffed, bol) = stuff (pg_bol g) raw;
             upd_pconn (\<lambda>c. c\<lparr>p_out := p_out c @ stuffed\<rparr>);
             pump_loop E (g\<lparr>pg_pos := pg_pos g + length raw, pg_bol := bol\<rparr>)
           }
         }
     | PG_DONE \<Rightarrow> return g
   }"
  by pat_completeness auto
termination
  by (relation "measures [\<lambda>(E, g). pg_rank (pg_phase g), \<lambda>(E, g). pg_size g - pg_pos g]") (auto intro: read_progress)

declare pump_loop.simps [simp del]

definition pop3_pump :: "'w ImapEnv \<Rightarrow> ('w Pop, unit) state" where
  "pop3_pump E = do {
     c \<leftarrow> pconn;
     case p_pg c of
       None \<Rightarrow> return ()
     | Some g \<Rightarrow> do {
         g' \<leftarrow> pump_loop E g;
         upd_pconn (\<lambda>c. c\<lparr>p_pg := Some g'\<rparr>);
         c' \<leftarrow> pconn;
         whenM (\<not> p_closed c' \<and> pg_phase g' = PG_DONE) (do {
           pop3_flush E;
           upd_pconn (\<lambda>c. c\<lparr>p_pg := None\<rparr>)
         })
       }
   }"

section \<open>Commands\<close>

definition cleartext_ok :: "ImapdServer \<Rightarrow> PopConn \<Rightarrow> bool" where
  "cleartext_ok srv c \<longleftrightarrow> \<not> is_tls_ready srv \<or> imapd_tls_established (p_tls c) \<or> is_pop3_loopback srv"

definition pop3_reset_deleted :: "PopConn \<Rightarrow> PopConn" where
  "pop3_reset_deleted c = c\<lparr>p_del := replicate (length (p_del c)) False, p_ndel := 0\<rparr>"

definition cmd_capa :: "'w ImapEnv \<Rightarrow> ImapdServer \<Rightarrow> ('w Pop, unit) state" where
  "cmd_capa E srv = do {
     pop3_replyf E (''+OK Capability list follows'' @ CRLF);
     pop3_reply E (''USER'' @ CRLF @ ''UIDL'' @ CRLF @ ''TOP'' @ CRLF @ ''RESP-CODES'' @ CRLF @ ''PIPELINING'' @ CRLF);
     c \<leftarrow> pconn;
     whenM (is_tls_ready srv \<and> \<not> imapd_tls_established (p_tls c)) (pop3_reply E (''STLS'' @ CRLF));
     pop3_replyf E (''IMPLEMENTATION visage-pop3d'' @ CRLF);
     pop3_reply E (''.'' @ CRLF)
   }"

definition cmd_stls :: "'w ImapEnv \<Rightarrow> ImapdServer \<Rightarrow> ('w Pop, unit) state" where
  "cmd_stls E srv = do {
     c \<leftarrow> pconn;
     if p_pst c \<noteq> PO_AUTH then pop3_err E ''STLS not valid in transaction state''
     else if imapd_tls_established (p_tls c) then pop3_err E ''TLS already active''
     else if p_in c \<noteq> [] then pop3_err E ''Pipelined data before STLS''
     else if \<not> is_tls_ready srv then pop3_err E ''STLS not supported''
     else do {
       ok \<leftarrow> imapd_tls_start E;
       if ok then pop3_reply E (''+OK Begin TLS negotiation'' @ CRLF) else pop3_err E ''Could not start TLS''
     }
   }"

definition drop_user :: "('w Pop, unit) state" where
  "drop_user = upd_pconn (\<lambda>c. c\<lparr>p_pend_user := None\<rparr>)"

definition cmd_user :: "'w ImapEnv \<Rightarrow> ImapdServer \<Rightarrow> string \<Rightarrow> ('w Pop, unit) state" where
  "cmd_user E srv arg = do {
     c \<leftarrow> pconn;
     if p_pst c \<noteq> PO_AUTH then pop3_err E ''USER not valid in transaction state''
     else if \<not> cleartext_ok srv c then pop3_err E ''Cleartext login disabled; use STLS first''
     else if arg = [] \<or> \<not> imapd_user_ok arg then pop3_err E ''Invalid user''
     else do {
       upd_pconn (\<lambda>c. c\<lparr>p_pend_user := Some arg\<rparr>);
       pop3_reply E (''+OK'' @ CRLF)
     }
   }"

definition imapd_dummy_pass :: string where
  "imapd_dummy_pass = ''visage-dummy-imapd-password''"

definition imapd_auth_check :: "OutboxCred list \<Rightarrow> string \<Rightarrow> string \<Rightarrow> bool" where
  "imapd_auth_check creds user pass =
     (let cand = (case find (\<lambda>c. cred_user c = user) creds of Some c \<Rightarrow> cred_pass c | None \<Rightarrow> imapd_dummy_pass)
      in ct_equal pass cand)"

definition pauth_failed :: "int \<Rightarrow> ('w Pop, unit) state" where
  "pauth_failed now = modify (\<lambda>s. s\<lparr>po_fails := outbox_auth_fail (po_fails s) (p_peer_ip (po_conn s)) now\<rparr>)"

definition pauth_cleared :: "('w Pop, unit) state" where
  "pauth_cleared = modify (\<lambda>s. s\<lparr>po_fails := outbox_auth_clear (po_fails s) (p_peer_ip (po_conn s))\<rparr>)"

definition pauth_asked :: "int \<Rightarrow> ('w Pop, bool) state" where
  "pauth_asked now = State (\<lambda>s. case outbox_auth_blocked (po_fails s) (p_peer_ip (po_conn s)) now of (b, fs) \<Rightarrow> (b, s\<lparr>po_fails := fs\<rparr>))"

lemma run_pauth [simp]:
  "run_state (pauth_failed now) s = ((), s\<lparr>po_fails := outbox_auth_fail (po_fails s) (p_peer_ip (po_conn s)) now\<rparr>)"
  "run_state pauth_cleared s = ((), s\<lparr>po_fails := outbox_auth_clear (po_fails s) (p_peer_ip (po_conn s))\<rparr>)"
  "run_state (pauth_asked now) s = (fst (outbox_auth_blocked (po_fails s) (p_peer_ip (po_conn s)) now),
     s\<lparr>po_fails := snd (outbox_auth_blocked (po_fails s) (p_peer_ip (po_conn s)) now)\<rparr>)"
  by (simp_all add: pauth_failed_def pauth_cleared_def pauth_asked_def split_beta)

definition pass_login :: "'w ImapEnv \<Rightarrow> ImapdServer \<Rightarrow> string \<Rightarrow> ('w Pop, unit) state" where
  "pass_login E srv user = do {
     pauth_cleared;
     upd_pconn (\<lambda>c. c\<lparr>p_user := Some user, p_pend_user := None\<rparr>);
     ok \<leftarrow> open_inbox E srv user;
     if \<not> ok then do {
       upd_pconn (\<lambda>c. c\<lparr>p_user := None\<rparr>);
       pop3_err E ''Cannot open mailbox''
     }
     else do {
       upd_pconn (\<lambda>c. c\<lparr>p_pst := PO_TRANS\<rparr>);
       pop3_reply E (''+OK mailbox locked and ready'' @ CRLF)
     }
   }"

definition cmd_pass :: "'w ImapEnv \<Rightarrow> ImapdServer \<Rightarrow> string \<Rightarrow> ('w Pop, unit) state" where
  "cmd_pass E srv arg = do {
     c \<leftarrow> pconn;
     if p_pst c \<noteq> PO_AUTH then pop3_err E ''PASS not valid in transaction state''
     else if \<not> cleartext_ok srv c then do { pop3_err E ''Cleartext login disabled; use STLS first''; drop_user }
     else case p_pend_user c of
       None \<Rightarrow> do { pop3_err E ''Invalid PASS''; drop_user }
     | Some user \<Rightarrow>
         if arg = [] then do { pop3_err E ''Invalid PASS''; drop_user }
         else do {
           now \<leftarrow> pio (ie_time E);
           blocked \<leftarrow> pauth_asked now;
           if blocked then do { pop3_err E ''Too many failed attempts; try again later''; drop_user }
           else if \<not> imapd_auth_check (is_creds srv) user arg then do {
             now' \<leftarrow> pio (ie_time E);
             pauth_failed now';
             pop3_err E ''Invalid credentials'';
             drop_user
           }
           else pass_login E srv user
         }
   }"

definition cmd_stat :: "'w ImapEnv \<Rightarrow> ('w Pop, unit) state" where
  "cmd_stat E = do {
     c \<leftarrow> pconn;
     pop3_replyf E (''+OK '' @ dec_of_nat (length (mb_msgs (the_mb c)) - p_ndel c) @ '' '' @ dec_of_nat (mbox_octets c) @ CRLF)
   }"

text \<open>LIST and UIDL: one message, or all that are not marked deleted. \<open>what\<close> is the field of a message they tell.\<close>

fun list_lines :: "'w ImapEnv \<Rightarrow> (Imail \<Rightarrow> string) \<Rightarrow> nat list \<Rightarrow> ('w Pop, unit) state" where
  "list_lines E what [] = return ()"
| "list_lines E what (i # is) = do {
     c \<leftarrow> pconn;
     whenM (\<not> is_del c i) (pop3_replyf E (dec_of_nat (i + 1) @ '' '' @ what (mb_msgs (the_mb c) ! i) @ CRLF));
     list_lines E what is
   }"

definition list_cmd :: "'w ImapEnv \<Rightarrow> string \<Rightarrow> (Imail \<Rightarrow> string) \<Rightarrow> (PopConn \<Rightarrow> string) \<Rightarrow> ('w Pop, unit) state" where
  "list_cmd E arg what head = do {
     c \<leftarrow> pconn;
     if arg \<noteq> [] then
       (case parse_ulong arg of
          None \<Rightarrow> pop3_err E ''Invalid message number''
        | Some n \<Rightarrow>
            (case msg_index c n of
               None \<Rightarrow> pop3_err E ''No such message''
             | Some idx \<Rightarrow> pop3_replyf E (''+OK '' @ dec_of_nat n @ '' '' @ what (mb_msgs (the_mb c) ! idx) @ CRLF)))
     else do {
       pop3_replyf E (head c);
       list_lines E what [0..<length (mb_msgs (the_mb c))];
       pop3_reply E (''.'' @ CRLF)
     }
   }"

definition cmd_list :: "'w ImapEnv \<Rightarrow> string \<Rightarrow> ('w Pop, unit) state" where
  "cmd_list E arg = list_cmd E arg (\<lambda>m. dec_of_nat (m_size m))
     (\<lambda>c. ''+OK '' @ dec_of_nat (length (mb_msgs (the_mb c)) - p_ndel c) @ '' messages ('' @ dec_of_nat (mbox_octets c) @ '' octets)'' @ CRLF)"

definition cmd_uidl :: "'w ImapEnv \<Rightarrow> string \<Rightarrow> ('w Pop, unit) state" where
  "cmd_uidl E arg = list_cmd E arg m_base
     (\<lambda>c. ''+OK '' @ dec_of_nat (length (mb_msgs (the_mb c)) - p_ndel c) @ '' messages'' @ CRLF)"

text \<open>A download counts as read: the flag is set in the view whether or not the rename works.\<close>

definition mark_seen :: "'w ImapEnv \<Rightarrow> nat \<Rightarrow> ('w Pop, unit) state" where
  "mark_seen E idx = do {
     c \<leftarrow> pconn;
     let m = mb_msgs (the_mb c) ! idx;
     whenM (m_flags m AND IMAIL_SEEN = 0) (do {
       let flags = m_flags m OR IMAIL_SEEN;
       _ \<leftarrow> on_mbox (\<lambda>mb. imapd_mbox_store E (mb\<lparr>mb_msgs := (mb_msgs mb)[idx := m\<lparr>m_flags := flags\<rparr>]\<rparr>) (m_uid m) flags);
       return ()
     })
   }"

definition cmd_retr :: "'w ImapEnv \<Rightarrow> string \<Rightarrow> ('w Pop, unit) state" where
  "cmd_retr E arg = do {
     c \<leftarrow> pconn;
     if arg = [] then pop3_err E ''Missing message number''
     else case parse_ulong arg of
       None \<Rightarrow> pop3_err E ''Invalid message number''
     | Some n \<Rightarrow>
         (case msg_index c n of
            None \<Rightarrow> pop3_err E ''No such message''
          | Some idx \<Rightarrow> do {
              ok \<leftarrow> start_retr E idx None;
              if \<not> ok then pop3_err E ''Message unavailable''
              else do { mark_seen E idx; pop3_pump E }
            })
   }"

definition cmd_dele :: "'w ImapEnv \<Rightarrow> string \<Rightarrow> ('w Pop, unit) state" where
  "cmd_dele E arg = do {
     c \<leftarrow> pconn;
     if arg = [] then pop3_err E ''Missing message number''
     else case parse_ulong arg of
       None \<Rightarrow> pop3_err E ''Invalid message number''
     | Some n \<Rightarrow>
         if n < 1 \<or> n > length (mb_msgs (the_mb c)) then pop3_err E ''No such message''
         else if is_del c (n - 1) then pop3_err E ''Message already deleted''
         else do {
           upd_pconn (\<lambda>c. c\<lparr>p_del := (p_del c)[n - 1 := True], p_ndel := p_ndel c + 1\<rparr>);
           pop3_reply E (''+OK message deleted'' @ CRLF)
         }
   }"

definition cmd_top :: "'w ImapEnv \<Rightarrow> string \<Rightarrow> ('w Pop, unit) state" where
  "cmd_top E arg = do {
     c \<leftarrow> pconn;
     let rest = dropWhile (\<lambda>c. c = SP) arg;
     if arg = [] then pop3_err E ''Missing arguments''
     else case parse_ulong (takeWhile (\<lambda>c. c \<noteq> SP) rest) of
       None \<Rightarrow> pop3_err E ''Invalid message number''
     | Some n \<Rightarrow>
         (case msg_index c n of
            None \<Rightarrow> pop3_err E ''No such message''
          | Some idx \<Rightarrow>
              (case parse_ulong (dropWhile (\<lambda>c. c \<noteq> SP) rest) of
                 None \<Rightarrow> pop3_err E ''Invalid line count''
               | Some k \<Rightarrow> do {
                   ok \<leftarrow> start_retr E idx (Some k);
                   if \<not> ok then pop3_err E ''Message unavailable'' else pop3_pump E
                 }))
   }"

text \<open>The deletions of QUIT, from the last message down.\<close>

fun expunge_marked :: "'w ImapEnv \<Rightarrow> bool list \<Rightarrow> nat \<Rightarrow> Mbox \<Rightarrow> ('w, Mbox) state" where
  "expunge_marked E del 0 mb = return mb"
| "expunge_marked E del (Suc i) mb =
     (if i < length del \<and> del ! i
      then do { (_, mb') \<leftarrow> imapd_mbox_expunge E mb (m_uid (mb_msgs mb ! i)); expunge_marked E del i mb' }
      else expunge_marked E del i mb)"

definition pop3_quit :: "'w ImapEnv \<Rightarrow> ('w Pop, unit) state" where
  "pop3_quit E = do {
     c \<leftarrow> pconn;
     (case p_mb c of
        None \<Rightarrow> return ()
      | Some mb \<Rightarrow> do {
          _ \<leftarrow> pio (run_state (do { mb' \<leftarrow> expunge_marked E (p_del c) (length (mb_msgs mb)) mb; imapd_mbox_close E mb' }));
          upd_pconn (\<lambda>c. c\<lparr>p_mb := None\<rparr>)
        });
     upd_pconn (\<lambda>c. c\<lparr>p_del := [], p_ndel := 0\<rparr>);
     pop3_reply E (''+OK bye'' @ CRLF);
     pclose
   }"

definition pop3_trans_command :: "'w ImapEnv \<Rightarrow> string \<Rightarrow> string \<Rightarrow> ('w Pop, unit) state" where
  "pop3_trans_command E word arg =
     (if ascii_ieq_str word ''STAT'' then cmd_stat E
      else if ascii_ieq_str word ''LIST'' then cmd_list E arg
      else if ascii_ieq_str word ''UIDL'' then cmd_uidl E arg
      else if ascii_ieq_str word ''RETR'' then cmd_retr E arg
      else if ascii_ieq_str word ''DELE'' then cmd_dele E arg
      else if ascii_ieq_str word ''TOP'' then cmd_top E arg
      else pop3_err E ''Command not recognized'')"

definition pop3_command :: "'w ImapEnv \<Rightarrow> ImapdServer \<Rightarrow> string \<Rightarrow> ('w Pop, unit) state" where
  "pop3_command E srv line =
     (let p = dropWhile (\<lambda>c. c = SP) line; word = takeWhile (\<lambda>c. c \<noteq> SP) p;
          arg = dropWhile (\<lambda>c. c = SP) (dropWhile (\<lambda>c. c \<noteq> SP) p) in
      if word = [] \<or> length word \<ge> 8 then pop3_err E ''Command not recognized''
      else if ascii_ieq_str word ''QUIT'' then pop3_quit E
      else if ascii_ieq_str word ''NOOP'' then pop3_reply E (''+OK'' @ CRLF)
      else if ascii_ieq_str word ''RSET'' then do { upd_pconn pop3_reset_deleted; pop3_reply E (''+OK'' @ CRLF) }
      else if ascii_ieq_str word ''CAPA'' then cmd_capa E srv
      else if ascii_ieq_str word ''STLS'' then cmd_stls E srv
      else if ascii_ieq_str word ''USER'' then cmd_user E srv arg
      else if ascii_ieq_str word ''PASS'' then cmd_pass E srv arg
      else do {
        c \<leftarrow> pconn;
        if p_pst c \<noteq> PO_TRANS then pop3_err E ''Authorization required'' else pop3_trans_command E word arg
      })"

text \<open>
  One turn of the loop over the lines: whether it goes on. The loop takes at least one byte in each turn and nothing adds to the input, so it is
  run as often as there are bytes.
\<close>

definition pop3_line :: "'w ImapEnv \<Rightarrow> ImapdServer \<Rightarrow> ('w Pop, bool) state" where
  "pop3_line E srv = do {
     c \<leftarrow> pconn;
     let i = length (takeWhile (\<lambda>c. c \<noteq> LF) (p_in c));
     if p_closed c \<or> p_pg c \<noteq> None \<or> (p_tls c \<noteq> None \<and> \<not> imapd_tls_established (p_tls c)) then return False
     else if i = length (p_in c) then do {
       whenM (length (p_in c) > IMAPD_MAX_LINE) (do { pop3_reply E (''-ERR line too long'' @ CRLF); pclose });
       return False
     }
     else if i > IMAPD_MAX_LINE then do { pop3_reply E (''-ERR line too long'' @ CRLF); pclose; return False }
     else do {
       let raw = take i (p_in c);
       let line = (if raw \<noteq> [] \<and> last raw = CR then butlast raw else raw);
       upd_pconn (\<lambda>c. c\<lparr>p_in := drop (i + 1) (p_in c)\<rparr>);
       pop3_command E srv (cstr line);
       c' \<leftarrow> pconn;
       return (\<not> (p_closed c' \<or> p_pg c' \<noteq> None))
     }
   }"

fun pop3_lines :: "'w ImapEnv \<Rightarrow> ImapdServer \<Rightarrow> nat \<Rightarrow> ('w Pop, unit) state" where
  "pop3_lines E srv 0 = return ()"
| "pop3_lines E srv (Suc n) = do { more \<leftarrow> pop3_line E srv; if more then pop3_lines E srv n else return () }"

definition pop3_commands :: "'w ImapEnv \<Rightarrow> ImapdServer \<Rightarrow> ('w Pop, unit) state" where
  "pop3_commands E srv = do { c \<leftarrow> pconn; pop3_lines E srv (Suc (length (p_in c))) }"

section \<open>Events\<close>

definition pop3_tls_reset :: "PopConn \<Rightarrow> PopConn" where
  "pop3_tls_reset c = c\<lparr>p_pg := None, p_pend_user := None, p_del := [], p_ndel := 0, p_pst := PO_AUTH\<rparr>"

definition pop3_take :: "'w ImapEnv \<Rightarrow> ImapdServer \<Rightarrow> int \<Rightarrow> string \<Rightarrow> ('w Pop, unit) state" where
  "pop3_take E srv now bytes = do {
     upd_pconn (\<lambda>c. c\<lparr>p_last_act := now, p_in := p_in c @ bytes\<rparr>);
     pop3_commands E srv
   }"

text \<open>
  The reads of an established TLS session until there is nothing more; \<open>k\<close> bounds their number, which the code does not, and running
  out is recorded.
\<close>

fun pop3_drain :: "'w ImapEnv \<Rightarrow> ImapdServer \<Rightarrow> nat \<Rightarrow> int \<Rightarrow> ('w Pop, unit) state" where
  "pop3_drain E srv 0 now = modify (\<lambda>s. s\<lparr>po_stalled := True\<rparr>)"
| "pop3_drain E srv (Suc k) now = do {
     c \<leftarrow> pconn;
     r \<leftarrow> pio (imapd_tls_recv E c IMAPD_RECV_CHUNK);
     case r of
       Inl _ \<Rightarrow> pclose
     | Inr bytes \<Rightarrow>
         if bytes = [] then return ()
         else do {
           pop3_take E srv now bytes;
           c' \<leftarrow> pconn;
           if p_closed c' \<or> p_pg c' \<noteq> None then return () else pop3_drain E srv k now
         }
   }"

definition pop3_readable :: "'w ImapEnv \<Rightarrow> ImapdServer \<Rightarrow> nat \<Rightarrow> int \<Rightarrow> ('w Pop, unit) state" where
  "pop3_readable E srv k now = do {
     c \<leftarrow> pconn;
     if p_tls c \<noteq> None then whenM (imapd_tls_established (p_tls c)) (pop3_drain E srv k now)
     else do {
       r \<leftarrow> pio (ie_recv E (p_fd c) IMAPD_RECV_CHUNK);
       case r of
         Inl e \<Rightarrow> whenM (e \<noteq> Would_block) pclose
       | Inr bytes \<Rightarrow> if bytes = [] then pclose else pop3_take E srv now bytes
     }
   }"

definition imapd_tls_advance :: "'w ImapEnv \<Rightarrow> ImapdServer \<Rightarrow> nat \<Rightarrow> int \<Rightarrow> ('w Pop, unit) state" where
  "imapd_tls_advance E srv k now = do {
     r \<leftarrow> imapd_tls_handshake_step E now;
     case r of
       HS_fatal \<Rightarrow> upd_pconn (\<lambda>c. c\<lparr>p_closed := True, p_out := [], p_out_off := 0\<rparr>)
     | HS_more \<Rightarrow> return ()
     | HS_done \<Rightarrow> do { upd_pconn pop3_tls_reset; pop3_readable E srv k now }
   }"

text \<open>A connection that has been accepted, from the greeting on.\<close>

definition pop3_fresh :: "int \<Rightarrow> string \<Rightarrow> int \<Rightarrow> PopConn" where
  "pop3_fresh fd ip now =
     \<lparr>p_fd = fd, p_closed = False, p_in = [], p_out = [], p_out_off = 0, p_last_act = now, p_peer_ip = ip, p_user = None, p_mb = None,
      p_tls = None, p_pst = PO_AUTH, p_pend_user = None, p_del = [], p_ndel = 0, p_pg = None\<rparr>"

definition pop3_accept :: "'w ImapEnv \<Rightarrow> ImapdServer \<Rightarrow> int \<Rightarrow> string \<Rightarrow> int \<Rightarrow> ('w Pop, unit) state" where
  "pop3_accept E srv fd ip now = do { upd_pconn (\<lambda>_. pop3_fresh fd ip now); pop3_greeting E srv }"

text \<open>
  The end of a closed connection whose output is sent: the view of the mailbox is closed, marked messages or not. The close notification of TLS is
  left out.
\<close>

definition pop3_destroy :: "'w ImapEnv \<Rightarrow> ('w Pop, unit) state" where
  "pop3_destroy E = do {
     c \<leftarrow> pconn;
     case p_mb c of None \<Rightarrow> return () | Some mb \<Rightarrow> pio (run_state (imapd_mbox_close E mb))
   }"

text \<open>What the poll loop of the daemon does with a POP3 connection: the idle timeout, and the events of one round (\<open>rin\<close>: readable, hung up or in error).\<close>

definition pop3_timeout :: "ImapdServer \<Rightarrow> int \<Rightarrow> PopConn \<Rightarrow> PopConn" where
  "pop3_timeout srv now c =
     (let tmo = int (unat (im_cmd_tmo (is_cfg srv))) in
      if tmo \<noteq> 0 \<and> now > p_last_act c \<and> now - p_last_act c \<ge> tmo then
        if imapd_tls_handshaking (p_tls c) then c\<lparr>p_closed := True, p_out := [], p_out_off := 0\<rparr> else c\<lparr>p_closed := True\<rparr>
      else c)"

definition pop3_event :: "'w ImapEnv \<Rightarrow> ImapdServer \<Rightarrow> nat \<Rightarrow> int \<Rightarrow> bool \<Rightarrow> bool \<Rightarrow> ('w Pop, unit) state" where
  "pop3_event E srv k now rin rout = do {
     c \<leftarrow> pconn;
     if p_closed c then whenM rout (pop3_flush E)
     else if p_pg c \<noteq> None then whenM rout (pop3_pump E)
     else if imapd_tls_pending (p_tls c) then whenM rout (do {
       pop3_flush E;
       c' \<leftarrow> pconn;
       whenM (\<not> p_closed c' \<and> p_out_off c' \<ge> length (p_out c')) (imapd_tls_advance E srv k now)
     })
     else if imapd_tls_handshaking (p_tls c) then whenM (rin \<or> rout) (imapd_tls_advance E srv k now)
     else do {
       whenM rin (pop3_readable E srv k now);
       c' \<leftarrow> pconn;
       whenM (\<not> p_closed c' \<and> rout) (pop3_flush E)
     }
   }"

end
