(* ===== verification/Pop3_Stream.thy ===== *)
theory Pop3_Stream
  imports Pop3_Session "HOL-Library.AList"
begin

text \<open>
  What a POP3 client receives of a message: whatever the socket takes at a time, the bytes on the wire, in the buffer and still to come make up the same
  text, the dot-stuffed message with its frame, and a client reads the message back from it.
\<close>

section \<open>The wire\<close>

text \<open>The bytes that are on the wire or in the output buffer.\<close>

definition stream :: "('w \<Rightarrow> string) \<Rightarrow> 'w Pop \<Rightarrow> string" where
  "stream wire s = wire (po_world s) @ drop (p_out_off (po_conn s)) (p_out (po_conn s))"

text \<open>
  From one state to the next exactly the text was added to the stream, unless the connection was given up; open files stay as they are.
\<close>

definition sends :: "('w \<Rightarrow> string) \<Rightarrow> ('w \<Rightarrow> int \<Rightarrow> string option) \<Rightarrow> string \<Rightarrow> 'w Pop \<Rightarrow> 'w Pop \<Rightarrow> bool" where
  "sends wire opened tx s t \<longleftrightarrow>
     opened (po_world t) = opened (po_world s) \<and>
     (p_out_off (po_conn s) \<le> length (p_out (po_conn s)) \<longrightarrow>
        p_out_off (po_conn t) \<le> length (p_out (po_conn t)) \<and> (p_closed (po_conn s) \<longrightarrow> p_closed (po_conn t)) \<and>
        (p_closed (po_conn t) \<or> stream wire t = stream wire s @ tx))"

lemma sends_trans: "sends wire opened a s t \<Longrightarrow> sends wire opened b t u \<Longrightarrow> sends wire opened (a @ b) s u"
  by (auto simp: sends_def)

lemma sends_refl: "sends wire opened [] s s"
  by (auto simp: sends_def)

text \<open>The text a download still has to send.\<close>

definition rest_text :: "string \<Rightarrow> Pop3Gen \<Rightarrow> string" where
  "rest_text content g =
     (if pg_phase g = PG_DONE then []
      else
        (if pg_phase g = PG_HDR then ''+OK message follows'' @ CRLF else []) @
        (case stuff (pg_bol g) (drop (pg_pos g) (take (pg_size g) content)) of (out, bol) \<Rightarrow> out @ (if bol then [] else CRLF) @ ''.'' @ CRLF))"

text \<open>A download in progress: nothing is left to read once the end has been seen.\<close>

definition gen_ok :: "string \<Rightarrow> Pop3Gen \<Rightarrow> bool" where
  "gen_ok content g \<longleftrightarrow> pg_pos g \<le> pg_size g \<and> pg_size g \<le> length content \<and> (pg_phase g = PG_END \<longrightarrow> pg_pos g = pg_size g)"

lemma stuff_append:
  "stuff b (xs @ ys) = (case stuff b xs of (o1, b1) \<Rightarrow> case stuff b1 ys of (o2, b2) \<Rightarrow> (o1 @ o2, b2))"
  by (induction xs arbitrary: b) (auto split: prod.splits)

lemma drop_take_split: "n \<le> sz - p \<Longrightarrow> drop p (take sz xs) = take n (drop p xs) @ drop (p + n) (take sz xs)"
proof -
  assume n: "n \<le> sz - p"
  have "drop p (take sz xs) = take n (drop p (take sz xs)) @ drop n (drop p (take sz xs))" by (rule append_take_drop_id [symmetric])
  also have "take n (drop p (take sz xs)) = take n (drop p xs)" unfolding drop_take using n by (simp add: min_absorb1)
  finally show ?thesis by (simp add: add.commute)
qed

text \<open>
  What the system promises: the bytes it took are on the wire, in order; a read of an open file returns bytes of it as long as there are any; sending and
  reading leave open files alone.
\<close>

locale pop3_wire =
  fixes E :: "'w ImapEnv" and wire :: "'w \<Rightarrow> string" and opened :: "'w \<Rightarrow> int \<Rightarrow> string option"
  assumes send_wire: "ie_send E fd buf w = (r, w') \<Longrightarrow> wire w' = wire w @ (case r of Sent n \<Rightarrow> take n buf | _ \<Rightarrow> [])"
    and tls_wire: "ie_tls_write E fd buf w = (r', w') \<Longrightarrow> wire w' = wire w @ (case r' of Inr n \<Rightarrow> take n buf | Inl _ \<Rightarrow> [])"
    and pread_wire: "wire (snd (ie_pread E fd off n w)) = wire w"
    and pread_file: "opened w fd = Some content \<Longrightarrow> off < length content \<Longrightarrow> 0 < n \<Longrightarrow> \<exists>k > 0. fst (ie_pread E fd off n w) = Some (take k (drop off content))"
    and opened_send: "opened (snd (ie_send E fd buf w)) = opened w"
    and opened_tls: "opened (snd (ie_tls_write E fd buf w)) = opened w"
    and opened_pread: "opened (snd (ie_pread E fd off n w)) = opened w"
begin

lemma flush_send_wire:
  assumes "pflush_send E c buf w = (r, w')"
  shows "wire w' = wire w @ (case r of Sent n \<Rightarrow> take n buf | _ \<Rightarrow> [])"
proof (cases "p_tls c \<noteq> None \<and> \<not> imapd_tls_pending (p_tls c)")
  case False
  then have "ie_send E (p_fd c) buf w = (r, w')" using assms by (auto simp: pflush_send_def split: if_splits)
  then show ?thesis by (rule send_wire)
next
  case True
  then have s: "imapd_tls_send E (p_fd c) buf w = (r, w')" using assms by (simp add: pflush_send_def)
  obtain r0 w0 where w0: "ie_tls_write E (p_fd c) buf w = (r0, w0)" by force
  note tls_wire [OF w0]
  then show ?thesis using s w0 by (auto simp: imapd_tls_send_def split: if_splits sum.splits)
qed

lemma flush_loop_wire:
  assumes "\<And>buf w r w'. f buf w = (r, w') \<Longrightarrow> wire w' = wire w @ (case r of Sent n \<Rightarrow> take n buf | _ \<Rightarrow> [])"
    and "flush_loop f out off w = (r, w')"
  shows "case r of Flush_done \<Rightarrow> wire w' = wire w @ drop off out | Flush_blocked i \<Rightarrow> i < length out \<and> wire w' @ drop i out = wire w @ drop off out | Flush_dead \<Rightarrow> True"
  using assms
proof (induction f out off w rule: flush_loop.induct)
  case (1 f out off w)
  show ?case
  proof (cases "off \<ge> length out")
    case True
    then show ?thesis using 1(3) by (simp add: flush_loop.simps)
  next
    case False
    obtain x w1 where x: "f (drop off out) w = (x, w1)" by force
    have w1: "wire w1 = wire w @ (case x of Sent n \<Rightarrow> take n (drop off out) | _ \<Rightarrow> [])" by (rule 1(2) [OF x])
    show ?thesis
    proof (cases "\<exists>n. x = Sent n \<and> n \<noteq> 0")
      case True
      then obtain n where n: "x = Sent n" "n \<noteq> 0" by blast
      then have l: "flush_loop f out (off + n) w1 = (r, w')" using 1(3) False x by (simp add: flush_loop.simps [of f out off w])
      have d: "take n (drop off out) @ drop (off + n) out = drop off out" by (metis append_take_drop_id drop_drop add.commute)
      show ?thesis using 1(1) [OF False x [symmetric] n(1) n(2) 1(2) l] w1 n d
        by (auto split: flush_end.splits)
    qed (use 1(3) False x w1 in \<open>auto simp: flush_loop.simps [of f out off w] split: sent.splits if_splits flush_end.splits\<close>)
  qed
qed

lemma flush_send_opened: "opened (snd (pflush_send E c buf w)) = opened w"
proof -
  obtain r0 w0 where w0: "ie_tls_write E (p_fd c) buf w = (r0, w0)" by force
  then have "opened w0 = opened w" using opened_tls [of "p_fd c" buf w] by simp
  then show ?thesis using opened_send [of "p_fd c" buf w] w0 by (auto simp: pflush_send_def imapd_tls_send_def split: sum.splits)
qed

lemma flush_loop_opened: "opened (snd (flush_loop (pflush_send E c) out off w)) = opened w"
proof (induction "length out - off" arbitrary: off w rule: less_induct)
  case less
  obtain r w1 where r: "pflush_send E c (drop off out) w = (r, w1)" by force
  have "opened w1 = opened w" using flush_send_opened [of c "drop off out" w] r by simp
  then show ?case using less r by (subst flush_loop.simps) (auto split: sent.splits)
qed

lemma flush_sends: "sends wire opened [] s (exec (pop3_flush E) s)"
proof -
  let ?c = "po_conn s"
  obtain r w' where f: "flush_loop (pflush_send E ?c) (p_out ?c) (p_out_off ?c) (po_world s) = (r, w')" by force
  note fl = flush_loop_wire [OF flush_send_wire [of ?c] f]
  have x: "exec (pop3_flush E) s = s\<lparr>po_world := w', po_conn := pafter_flush r ?c\<rparr>" using f by (simp add: pop3_flush_def)
  have "opened w' = opened (po_world s)" using flush_loop_opened [of ?c "p_out ?c" "p_out_off ?c" "po_world s"] f by simp
  then show ?thesis unfolding x using fl by (cases r) (auto simp: pafter_flush_def stream_def sends_def)
qed

lemma append_sends: "sends wire opened tx s (s\<lparr>po_conn := (po_conn s)\<lparr>p_out := p_out (po_conn s) @ tx\<rparr>\<rparr>)"
  by (auto simp: sends_def stream_def)

lemma reply_sends: "sends wire opened tx s (exec (pop3_reply E tx) s)"
proof (cases "length (p_out (po_conn s)) > IMAPD_MAX_OUT")
  case True
  then show ?thesis by (simp add: pop3_reply_def pclose_def sends_def)
next
  case False
  let ?s = "s\<lparr>po_conn := (po_conn s)\<lparr>p_out := p_out (po_conn s) @ tx\<rparr>\<rparr>"
  have "exec (pop3_reply E tx) s = exec (pop3_flush E) ?s" using False by (simp add: pop3_reply_def)
  then show ?thesis using sends_trans [OF append_sends flush_sends, of tx s] by simp
qed

text \<open>The loop of a download moves text from what is still to come to the stream.\<close>

lemma pump_loop_sends:
  assumes "opened (po_world s) (pg_fd g) = Some content" "gen_ok content g"
  shows "\<exists>tx. rest_text content g = tx @ rest_text content (eval (pump_loop E g) s) \<and> sends wire opened tx s (exec (pump_loop E g) s) \<and>
    gen_ok content (eval (pump_loop E g) s) \<and> pg_fd (eval (pump_loop E g) s) = pg_fd g"
  using assms
proof (induction "pg_rank (pg_phase g) * (length content + 1) + (length content - pg_pos g)" arbitrary: g s rule: less_induct)
  case less
  let ?rest = "rest_text content" and ?c = "po_conn s"
  note rf = less.prems(1) and ok = less.prems(2)
  have le: "pg_pos g \<le> length content" using ok by (simp add: gen_ok_def)
  have stop: ?case if "run_state (pump_loop E g) s = (g, s')" "sends wire opened [] s s'" for s'
    using that ok by (intro exI [of _ "[]"]) simp
  have go: ?case
    if r: "run_state (pump_loop E g) s = run_state (pump_loop E g') s'" and e: "?rest g = tx @ ?rest g'" and t: "sends wire opened tx s s'"
      and k: "gen_ok content g'" and fd: "pg_fd g' = pg_fd g"
      and m: "pg_rank (pg_phase g') * (length content + 1) + (length content - pg_pos g') < pg_rank (pg_phase g) * (length content + 1) + (length content - pg_pos g)"
    for g' s' tx
  proof -
    obtain tx' where i: "?rest g' = tx' @ ?rest (eval (pump_loop E g') s')" "sends wire opened tx' s' (exec (pump_loop E g') s')"
        "gen_ok content (eval (pump_loop E g') s')" "pg_fd (eval (pump_loop E g') s') = pg_fd g'"
      using less.hyps [OF m, of s'] rf fd k t by (auto simp: sends_def)
    then show ?thesis using sends_trans [OF t i(2)] e fd unfolding r by (intro exI [of _ "tx @ tx'"]) simp
  qed
  note un = pump_loop.simps [of E g]
  consider (over) "p_closed ?c \<or> pg_phase g = PG_DONE"
    | (full) "\<not> (p_closed ?c \<or> pg_phase g = PG_DONE)" "length (p_out ?c) - p_out_off ?c \<ge> IMAPD_MAX_OUT div 2"
    | (run) "\<not> (p_closed ?c \<or> pg_phase g = PG_DONE)" "\<not> length (p_out ?c) - p_out_off ?c \<ge> IMAPD_MAX_OUT div 2" by blast
  then show ?case
  proof cases
    case over
    then show ?thesis by (intro stop [of s]) (simp_all add: un sends_refl)
  next
    case full
    then show ?thesis by (intro stop [of "exec (pop3_flush E) s"]) (simp_all add: un flush_sends)
  next
    case run
    show ?thesis
    proof (cases "pg_phase g")
      case PG_HDR
      let ?ok = "''+OK message follows'' @ CRLF"
      show ?thesis
      proof (rule go [of "g\<lparr>pg_phase := PG_BODY\<rparr>" "exec (pop3_reply E ?ok) s" ?ok])
        show "pg_rank (pg_phase (g\<lparr>pg_phase := PG_BODY\<rparr>)) * (length content + 1) + (length content - pg_pos (g\<lparr>pg_phase := PG_BODY\<rparr>))
            < pg_rank (pg_phase g) * (length content + 1) + (length content - pg_pos g)" using PG_HDR by simp
      qed (use PG_HDR run ok reply_sends in \<open>simp_all add: un rest_text_def gen_ok_def\<close>)
    next
      case PG_END
      let ?s1 = "if pg_bol g then s else exec (pop3_reply E CRLF) s"
      have x: "run_state (pump_loop E g) s = (g\<lparr>pg_phase := PG_DONE\<rparr>, exec (pop3_reply E (''.'' @ CRLF)) ?s1)" using PG_END run by (simp add: un)
      have "sends wire opened (if pg_bol g then [] else CRLF) s ?s1" by (simp add: reply_sends sends_refl)
      from sends_trans [OF this reply_sends [of "''.'' @ CRLF"]]
      have "sends wire opened (?rest g) s (exec (pop3_reply E (''.'' @ CRLF)) ?s1)" using PG_END ok by (simp add: rest_text_def gen_ok_def)
      then show ?thesis using x ok by (intro exI [of _ "?rest g"]) (simp add: rest_text_def gen_ok_def)
    next
      case PG_BODY
      let ?want = "min (pg_size g - pg_pos g) 8192" and ?fin = "g\<lparr>pg_phase := PG_END\<rparr>"
      show ?thesis
      proof (cases "?want = 0")
        case True
        then have "pg_pos g = pg_size g" using ok by (simp add: gen_ok_def min_def split: if_splits)
        then show ?thesis
          by (intro go [of ?fin s "[]"]) (use PG_BODY run ok in \<open>simp_all add: un rest_text_def gen_ok_def sends_refl\<close>)
      next
        case False
        obtain r w' where p: "ie_pread E (pg_fd g) (pg_pos g) ?want (po_world s) = (r, w')" by force
        have pos: "pg_pos g < length content" "0 < ?want" using False ok by (auto simp: gen_ok_def)
        then obtain k where k: "0 < k" "r = Some (take k (drop (pg_pos g) content))" using pread_file [OF rf] p by (metis fst_conv)
        let ?n = "min k ?want"
        have raw: "got ?want r = take ?n (drop (pg_pos g) content)" using k by (simp add: got_def min.commute)
        have len: "length (got ?want r) = ?n" using ok unfolding raw gen_ok_def by (auto simp: min_def)
        have ne: "got ?want r \<noteq> []" using len k(1) pos(2) by (metis length_0_conv min_less_iff_conj not_less_zero)
        obtain st b where st: "stuff (pg_bol g) (got ?want r) = (st, b)" by force
        let ?g = "g\<lparr>pg_pos := pg_pos g + length (got ?want r), pg_bol := b\<rparr>"
        let ?s = "s\<lparr>po_world := w'\<rparr>"
        let ?s' = "?s\<lparr>po_conn := ?c\<lparr>p_out := p_out ?c @ st\<rparr>\<rparr>"
        have x: "run_state (pump_loop E g) s = run_state (pump_loop E ?g) ?s'" using PG_BODY run p ne st pos(2) unfolding un by (simp add: Let_def) (simp add: min_def split: if_splits)
        have split: "drop (pg_pos g) (take (pg_size g) content) = got ?want r @ drop (pg_pos g + length (got ?want r)) (take (pg_size g) content)"
          unfolding len unfolding raw by (rule drop_take_split) simp
        have e: "?rest g = st @ ?rest ?g" unfolding rest_text_def using PG_BODY split stuff_append [of "pg_bol g" "got ?want r"] st by (simp split: prod.splits)
        have "sends wire opened [] s ?s" using pread_wire [of "pg_fd g" "pg_pos g" ?want "po_world s"] opened_pread [of "pg_fd g" "pg_pos g" ?want "po_world s"] p by (simp add: sends_def stream_def)
        moreover have "sends wire opened st ?s ?s'" using append_sends [of st ?s] by simp
        ultimately have t: "sends wire opened st s ?s'" using sends_trans by fastforce
        show ?thesis by (rule go [OF x e t]) (use PG_BODY ok len k(1) pos in \<open>auto simp: gen_ok_def min_def\<close>)
      qed
    qed (use run in simp)
  qed
qed

text \<open>The whole download so far, over any number of calls of the pump.\<close>

lemma pump_sends:
  assumes "p_pg (po_conn s) = Some g" "opened (po_world s) (pg_fd g) = Some content" "gen_ok content g"
  defines "s' \<equiv> exec (pop3_pump E) s"
  shows "\<exists>tx. rest_text content g = tx @ (case p_pg (po_conn s') of None \<Rightarrow> [] | Some g' \<Rightarrow> rest_text content g') \<and> sends wire opened tx s s'"
    "\<And>g'. p_pg (po_conn s') = Some g' \<Longrightarrow> gen_ok content g' \<and> pg_fd g' = pg_fd g"
proof -
  let ?g = "eval (pump_loop E g) s" and ?t = "exec (pump_loop E g) s"
  obtain tx where tx: "rest_text content g = tx @ rest_text content ?g" "sends wire opened tx s ?t" "gen_ok content ?g" "pg_fd ?g = pg_fd g"
    using pump_loop_sends [OF assms(2,3)] by blast
  let ?u = "?t\<lparr>po_conn := (po_conn ?t)\<lparr>p_pg := Some ?g\<rparr>\<rparr>"
  have u: "sends wire opened tx s ?u" using tx(2) by (simp add: sends_def stream_def)
  let ?more = "\<not> p_closed (po_conn ?t) \<and> pg_phase ?g = PG_DONE"
  let ?v = "exec (pop3_flush E) ?u"
  have x: "s' = (if ?more then ?v\<lparr>po_conn := (po_conn ?v)\<lparr>p_pg := None\<rparr>\<rparr> else ?u)"
    unfolding s'_def using assms(1) by (simp add: pop3_pump_def)
  have v: "sends wire opened tx s (?v\<lparr>po_conn := (po_conn ?v)\<lparr>p_pg := None\<rparr>\<rparr>)"
    using sends_trans [OF u flush_sends] by (simp add: sends_def stream_def)
  show "\<exists>tx. rest_text content g = tx @ (case p_pg (po_conn s') of None \<Rightarrow> [] | Some g' \<Rightarrow> rest_text content g') \<and> sends wire opened tx s s'"
  proof (cases ?more)
    case True
    then have "rest_text content ?g = []" by (simp add: rest_text_def)
    then show ?thesis using True x v tx(1) by (intro exI [of _ tx]) simp
  next
    case False
    then show ?thesis using x u tx(1) by (intro exI [of _ tx]) auto
  qed
  show "\<And>g'. p_pg (po_conn s') = Some g' \<Longrightarrow> gen_ok content g' \<and> pg_fd g' = pg_fd g"
    using x tx(3,4) by (auto split: if_splits)
qed

end

section \<open>The client\<close>

text \<open>
  How a client reads a multi-line reply (RFC 1939): up to a line that is a single dot, with one dot removed from every other line that begins with one.
  The value is the text and what follows the reply.
\<close>

fun pop3_client :: "bool \<Rightarrow> string \<Rightarrow> (string \<times> string) option" where
  "pop3_client bol [] = None"
| "pop3_client bol (c # cs) =
     (if bol \<and> c = DOT then
        (if take 2 cs = CRLF then Some ([], drop 2 cs)
         else case cs of [] \<Rightarrow> None | d # ds \<Rightarrow> map_option (\<lambda>(t, r). (d # t, r)) (pop3_client (d = LF) ds))
      else map_option (\<lambda>(t, r). (c # t, r)) (pop3_client (c = LF) cs))"

lemma client_stuff:
  "pop3_client b (fst (stuff b m) @ r) = map_option (\<lambda>(t, q). (m @ t, q)) (pop3_client (snd (stuff b m)) r)"
proof (induction m arbitrary: b)
  case Nil
  show ?case by (simp add: split_beta option.map_ident)
next
  case (Cons c m)
  have d: "take 2 (DOT # x) \<noteq> CRLF" for x by simp
  show ?case using Cons [of "c = LF"] by (cases "b \<and> c = DOT") (auto simp: split_beta option.map_comp comp_def)
qed

text \<open>The text of a download: the message with an end of line where it has none.\<close>

definition with_eol :: "string \<Rightarrow> string" where
  "with_eol m = (if m = [] \<or> last m = LF then m else m @ CRLF)"

lemma stuff_bol: "snd (stuff b m) \<longleftrightarrow> (if m = [] then b else last m = LF)"
  by (induction m arbitrary: b) (auto simp: split_beta)

lemma client_reply:
  "pop3_client True (fst (stuff True m) @ (if snd (stuff True m) then [] else CRLF) @ ''.'' @ CRLF @ r) = Some (with_eol m, r)"
proof -
  have "pop3_client (snd (stuff True m)) ((if snd (stuff True m) then [] else CRLF) @ ''.'' @ CRLF @ r) =
      Some (if snd (stuff True m) then [] else CRLF, r)" by auto
  then show ?thesis unfolding client_stuff by (auto simp: with_eol_def stuff_bol)
qed

section \<open>Downloads\<close>

text \<open>The calls of the pump that the poll loop makes, and the state of a download that has just begun.\<close>

fun pumps :: "'w ImapEnv \<Rightarrow> nat \<Rightarrow> 'w Pop \<Rightarrow> 'w Pop" where
  "pumps E 0 s = s"
| "pumps E (Suc k) s = pumps E k (exec (pop3_pump E) s)"

definition begins :: "('w \<Rightarrow> int \<Rightarrow> string option) \<Rightarrow> string \<Rightarrow> 'w Pop \<Rightarrow> bool" where
  "begins opened content s \<longleftrightarrow>
     p_out_off (po_conn s) \<le> length (p_out (po_conn s)) \<and>
     (\<exists>fd. p_pg (po_conn s) = Some \<lparr>pg_fd = fd, pg_size = length content, pg_pos = 0, pg_phase = PG_HDR, pg_bol = True\<rparr> \<and> opened (po_world s) fd = Some content)"

context pop3_wire
begin

lemma pump_idle: "p_pg (po_conn s) = None \<Longrightarrow> exec (pop3_pump E) s = s"
  by (simp add: pop3_pump_def)

lemma pumps_sends:
  "p_pg (po_conn s) = Some g \<Longrightarrow> opened (po_world s) (pg_fd g) = Some content \<Longrightarrow> gen_ok content g \<Longrightarrow>
   \<exists>tx. rest_text content g = tx @ (case p_pg (po_conn (pumps E k s)) of None \<Rightarrow> [] | Some g' \<Rightarrow> rest_text content g') \<and> sends wire opened tx s (pumps E k s)"
proof (induction k arbitrary: s g)
  case 0
  then show ?case by (intro exI [of _ "[]"]) (simp add: sends_refl)
next
  case (Suc k)
  let ?s = "exec (pop3_pump E) s"
  note p = pump_sends [OF Suc.prems]
  obtain tx where tx: "rest_text content g = tx @ (case p_pg (po_conn ?s) of None \<Rightarrow> [] | Some g' \<Rightarrow> rest_text content g')" "sends wire opened tx s ?s"
    using p(1) by blast
  show ?case
  proof (cases "p_pg (po_conn ?s)")
    case None
    then have "pumps E k ?s = ?s" by (induction k) (simp_all add: pump_idle)
    then show ?thesis using tx None by (intro exI [of _ tx]) simp
  next
    case (Some g')
    have g': "opened (po_world ?s) (pg_fd g') = Some content" "gen_ok content g'" using p(2) [OF Some] Suc.prems(2) tx(2) by (auto simp: sends_def)
    obtain tx' where "rest_text content g' = tx' @ (case p_pg (po_conn (pumps E k ?s)) of None \<Rightarrow> [] | Some g' \<Rightarrow> rest_text content g')"
        "sends wire opened tx' ?s (pumps E k ?s)"
      using Suc.IH [OF Some g'] by blast
    then show ?thesis using tx Some sends_trans by (intro exI [of _ "tx @ tx'"]) auto
  qed
qed

lemma download_exact:
  assumes "begins opened content s" "p_pg (po_conn (pumps E k s)) = None" "\<not> p_closed (po_conn (pumps E k s))"
  shows "\<exists>reply. stream wire (pumps E k s) = stream wire s @ ''+OK message follows'' @ CRLF @ reply \<and>
    (\<forall>r. pop3_client True (reply @ r) = Some (with_eol content, r))"
proof -
  obtain fd where g: "p_pg (po_conn s) = Some \<lparr>pg_fd = fd, pg_size = length content, pg_pos = 0, pg_phase = PG_HDR, pg_bol = True\<rparr>" "opened (po_world s) fd = Some content"
    using assms(1) by (auto simp: begins_def)
  let ?g = "\<lparr>pg_fd = fd, pg_size = length content, pg_pos = 0, pg_phase = PG_HDR, pg_bol = True\<rparr>"
  obtain tx where "rest_text content ?g = tx" "sends wire opened tx s (pumps E k s)"
    using pumps_sends [OF g(1), of content k] g(2) assms(2) by (auto simp: gen_ok_def)
  then have e: "stream wire (pumps E k s) = stream wire s @ rest_text content ?g" using assms(1,3) by (auto simp: sends_def begins_def)
  let ?reply = "fst (stuff True content) @ (if snd (stuff True content) then [] else CRLF) @ ''.'' @ CRLF"
  have "rest_text content ?g = ''+OK message follows'' @ CRLF @ ?reply" by (simp add: rest_text_def split_beta)
  then show ?thesis using e client_reply [of content] by (intro exI [of _ ?reply]) simp
qed

end

section \<open>A peer that keeps up\<close>

definition takes_all :: "'w ImapEnv \<Rightarrow> bool" where
  "takes_all E \<longleftrightarrow> (\<forall>fd buf w. buf \<noteq> [] \<longrightarrow> fst (ie_send E fd buf w) = Sent (length buf) \<and> fst (ie_tls_write E fd buf w) = Inr (length buf))"

lemma flush_drains:
  assumes "takes_all E"
  shows "po_conn (exec (pop3_flush E) s) = (po_conn s)\<lparr>p_out := [], p_out_off := 0\<rparr>"
proof -
  let ?c = "po_conn s"
  have f: "fst (pflush_send E ?c buf w) = Sent (length buf)" if "buf \<noteq> []" for buf w
  proof -
    have "fst (ie_send E (p_fd ?c) buf w) = Sent (length buf)" "fst (ie_tls_write E (p_fd ?c) buf w) = Inr (length buf)"
      using assms that by (simp_all add: takes_all_def)
    then show ?thesis using that
      by (cases "ie_tls_write E (p_fd ?c) buf w") (simp add: pflush_send_def imapd_tls_send_def)
  qed
  have "fst (flush_loop (pflush_send E ?c) (p_out ?c) (p_out_off ?c) (po_world s)) = Flush_done"
  proof (cases "p_out_off ?c \<ge> length (p_out ?c)")
    case False
    obtain w' where w': "pflush_send E ?c (drop (p_out_off ?c) (p_out ?c)) (po_world s) = (Sent (length (drop (p_out_off ?c) (p_out ?c))), w')"
      using f [of "drop (p_out_off ?c) (p_out ?c)" "po_world s"] False by (metis drop_eq_Nil prod.collapse)
    have "flush_loop (pflush_send E ?c) (p_out ?c) (p_out_off ?c) (po_world s) =
        flush_loop (pflush_send E ?c) (p_out ?c) (p_out_off ?c + length (drop (p_out_off ?c) (p_out ?c))) w'"
      using False w' by (subst flush_loop.simps) simp
    also have "\<dots> = (Flush_done, w')" using False by (subst flush_loop.simps) simp
    finally show ?thesis by simp
  qed (subst flush_loop.simps, simp)
  then show ?thesis by (simp add: pop3_flush_def pafter_flush_def)
qed

lemma reply_drains:
  assumes "takes_all E" "length (p_out (po_conn s)) \<le> IMAPD_MAX_OUT"
  shows "po_conn (exec (pop3_reply E tx) s) = (po_conn s)\<lparr>p_out := [], p_out_off := 0\<rparr>"
  using assms flush_drains [OF assms(1)] by (simp add: pop3_reply_def)

text \<open>What a call of the pump has left to do: phases and bytes.\<close>

definition work :: "Pop3Gen \<Rightarrow> nat" where
  "work g = pg_rank (pg_phase g) + (pg_size g - pg_pos g)"

definition drained :: "'w Pop \<Rightarrow> bool" where
  "drained s \<longleftrightarrow> p_out (po_conn s) = [] \<and> p_out_off (po_conn s) = 0 \<and> \<not> p_closed (po_conn s)"

lemma stuff_length: "length (fst (stuff b m)) \<le> 2 * length m"
  by (induction m arbitrary: b) (auto simp: split_beta intro: le_trans le_SucI)

text \<open>With a peer that keeps up the buffer never overflows, and the loop ends with the download or with a drained buffer and less to do.\<close>

lemma pump_loop_progress:
  assumes "takes_all E" "\<not> p_closed (po_conn s)" "p_out_off (po_conn s) = 0" "length (p_out (po_conn s)) \<le> IMAPD_MAX_OUT div 2 + 16384"
  shows "\<not> p_closed (po_conn (exec (pump_loop E g) s)) \<and>
    (pg_phase (eval (pump_loop E g) s) = PG_DONE \<or>
     drained (exec (pump_loop E g) s) \<and> work (eval (pump_loop E g) s) \<le> work g \<and>
     (length (p_out (po_conn s)) < IMAPD_MAX_OUT div 2 \<longrightarrow> work (eval (pump_loop E g) s) < work g))"
  using assms(2-4)
proof (induction "work g" arbitrary: g s rule: less_induct)
  case less
  let ?c = "po_conn s"
  note un = pump_loop.simps [of E g]
  have small: "length (p_out ?c) \<le> IMAPD_MAX_OUT" using less.prems(3) by (simp add: IMAPD_MAX_OUT_def)
  have go: ?case if r: "run_state (pump_loop E g) s = run_state (pump_loop E g') s'" and w: "work g' < work g"
      and c: "\<not> p_closed (po_conn s')" "p_out_off (po_conn s') = 0" "length (p_out (po_conn s')) \<le> IMAPD_MAX_OUT div 2 + 16384" for g' s'
    using less.hyps [OF w c] w unfolding r by auto
  show ?case
  proof (cases "pg_phase g = PG_DONE \<or> length (p_out ?c) \<ge> IMAPD_MAX_OUT div 2")
    case True
    then show ?thesis using less.prems flush_drains [OF assms(1), of s] by (auto simp: un drained_def)
  next
    case False
    then have run: "pg_phase g \<noteq> PG_DONE" "\<not> length (p_out ?c) - p_out_off ?c \<ge> IMAPD_MAX_OUT div 2" "\<not> p_closed ?c" using less.prems by auto
    show ?thesis
    proof (cases "pg_phase g")
      case PG_HDR
      then show ?thesis using run reply_drains [OF assms(1) small]
        by (intro go [of "g\<lparr>pg_phase := PG_BODY\<rparr>" "exec (pop3_reply E (''+OK message follows'' @ CRLF)) s"]) (simp_all add: un work_def)
    next
      case PG_END
      let ?s1 = "if pg_bol g then s else exec (pop3_reply E CRLF) s"
      have x: "run_state (pump_loop E g) s = (g\<lparr>pg_phase := PG_DONE\<rparr>, exec (pop3_reply E (''.'' @ CRLF)) ?s1)" using PG_END run by (simp add: un)
      have "length (p_out (po_conn ?s1)) \<le> IMAPD_MAX_OUT" "\<not> p_closed (po_conn ?s1)" using small reply_drains [OF assms(1) small] run(3) by auto
      then show ?thesis using x reply_drains [OF assms(1), of ?s1 "''.'' @ CRLF"] by simp
    next
      case PG_BODY
      let ?want = "min (pg_size g - pg_pos g) 8192"
      show ?thesis
      proof (cases "?want = 0")
        case True
        then show ?thesis using PG_BODY run less.prems by (intro go [of "g\<lparr>pg_phase := PG_END\<rparr>" s]) (simp_all add: un work_def)
      next
        case False
        obtain r w' where p: "ie_pread E (pg_fd g) (pg_pos g) ?want (po_world s) = (r, w')" by force
        have pos: "0 < ?want" using False by simp
        show ?thesis
        proof (cases "got ?want r = []")
          case True
          have x: "run_state (pump_loop E g) s = run_state (pump_loop E (g\<lparr>pg_phase := PG_END\<rparr>)) (s\<lparr>po_world := w'\<rparr>)"
            using PG_BODY run p True pos unfolding un by (simp add: Let_def) (simp add: min_def split: if_splits)
          show ?thesis by (rule go [OF x]) (use PG_BODY less.prems in \<open>simp_all add: work_def\<close>)
        next
          case ne: False
          obtain st b where st: "stuff (pg_bol g) (got ?want r) = (st, b)" by force
          let ?s' = "s\<lparr>po_world := w', po_conn := ?c\<lparr>p_out := p_out ?c @ st\<rparr>\<rparr>"
          have "run_state (pump_loop E g) s =
              run_state (pump_loop E (g\<lparr>pg_pos := pg_pos g + length (got ?want r), pg_bol := b\<rparr>)) ?s'"
            using PG_BODY run p ne st pos unfolding un by (simp add: Let_def) (simp add: min_def split: if_splits)
          moreover have "length (got ?want r) \<le> 8192" by (auto simp: got_def min_def split: option.splits)
          moreover have "length st \<le> 2 * length (got ?want r)" using stuff_length [of "pg_bol g" "got ?want r"] st by simp
          moreover have "0 < length (got ?want r)" using ne by simp
          ultimately show ?thesis using PG_BODY False less.prems run
            by (intro go [of "g\<lparr>pg_pos := pg_pos g + length (got ?want r), pg_bol := b\<rparr>" ?s']) (auto simp: work_def intro: read_progress)
        qed
      qed
    qed (use run in simp)
  qed
qed

lemma pump_progress:
  assumes "takes_all E" "drained s" "p_pg (po_conn s) = Some g"
  shows "drained (exec (pop3_pump E) s) \<and>
    (p_pg (po_conn (exec (pop3_pump E) s)) = None \<or> (\<exists>g'. p_pg (po_conn (exec (pop3_pump E) s)) = Some g' \<and> work g' < work g))"
proof -
  let ?g = "eval (pump_loop E g) s" and ?t = "exec (pump_loop E g) s"
  have p: "\<not> p_closed (po_conn ?t) \<and> (pg_phase ?g = PG_DONE \<or> drained ?t \<and> work ?g < work g)"
    using pump_loop_progress [OF assms(1), of s g] assms(2) by (auto simp: drained_def IMAPD_MAX_OUT_def)
  let ?u = "?t\<lparr>po_conn := (po_conn ?t)\<lparr>p_pg := Some ?g\<rparr>\<rparr>"
  let ?v = "exec (pop3_flush E) ?u"
  have x: "exec (pop3_pump E) s = (if pg_phase ?g = PG_DONE then ?v\<lparr>po_conn := (po_conn ?v)\<lparr>p_pg := None\<rparr>\<rparr> else ?u)"
    using p assms(3) by (simp add: pop3_pump_def)
  show ?thesis unfolding x using p flush_drains [OF assms(1), of ?u] by (auto simp: drained_def)
qed

lemma pumps_complete:
  assumes "takes_all E" "drained s" "p_pg (po_conn s) = Some g"
  shows "\<exists>k \<le> Suc (work g). p_pg (po_conn (pumps E k s)) = None \<and> drained (pumps E k s)"
  using assms(2,3)
proof (induction "work g" arbitrary: g s rule: less_induct)
  case less
  note p = pump_progress [OF assms(1) less.prems]
  show ?case
  proof (cases "p_pg (po_conn (exec (pop3_pump E) s))")
    case None
    then show ?thesis using p by (intro exI [of _ 1]) simp
  next
    case (Some g')
    then obtain k where "k \<le> Suc (work g')" "p_pg (po_conn (pumps E k (exec (pop3_pump E) s))) = None" "drained (pumps E k (exec (pop3_pump E) s))"
      using p less.hyps by fastforce
    then show ?thesis using p Some by (intro exI [of _ "Suc k"]) auto
  qed
qed

section \<open>A reference world\<close>

text \<open>
  Files by path, the descriptors opened so far with what the file held then, the input that is waiting, and what was sent. The peer takes
  every byte.
\<close>

record pop_world =
  q_files :: "(string \<times> string) list"
  q_open :: "string list"
  q_input :: "string list"
  q_wire :: string

definition q_read :: "string \<Rightarrow> pop_world \<Rightarrow> string option" where
  "q_read p w = map_of (q_files w) p"

definition q_send :: "string \<Rightarrow> pop_world \<Rightarrow> nat \<times> pop_world" where
  "q_send buf w = (length buf, w\<lparr>q_wire := q_wire w @ buf\<rparr>)"

definition pop_env :: "pop_world ImapEnv" where
  "pop_env =
     \<lparr>ie_time = Pair 1700000000,
      ie_unique = Pair ''1.M1P1R1.imapd'',
      ie_send = (\<lambda>fd buf w. map_prod Sent id (q_send buf w)),
      ie_recv = (\<lambda>fd n w. case q_input w of [] \<Rightarrow> (Inl Would_block, w) | b # bs \<Rightarrow> (Inr b, w\<lparr>q_input := bs\<rparr>)),
      ie_mkdir = (\<lambda>p. Pair True),
      ie_list = (\<lambda>p w. (Some (concat (map (\<lambda>(q, _). if take (length p + 1) q = p @ ''/'' then [drop (length p + 1) q] else []) (q_files w))), w)),
      ie_stat = (\<lambda>p w. (map_option (\<lambda>c. (length c, 0)) (q_read p w), w)),
      ie_read = (\<lambda>p w. (q_read p w, w)),
      ie_write = (\<lambda>p c w. (True, w\<lparr>q_files := AList.update p c (q_files w)\<rparr>)),
      ie_rename = (\<lambda>p q w. case q_read p w of None \<Rightarrow> (False, w)
        | Some c \<Rightarrow> (True, w\<lparr>q_files := AList.update q c (AList.delete p (q_files w))\<rparr>)),
      ie_unlink = (\<lambda>p w. (q_read p w \<noteq> None, w\<lparr>q_files := AList.delete p (q_files w)\<rparr>)),
      ie_lock = (\<lambda>p. Pair True),
      ie_replace = (\<lambda>p c w. (True, w\<lparr>q_files := AList.update p c (q_files w)\<rparr>)),
      ie_open = (\<lambda>p w. case q_read p w of None \<Rightarrow> (None, w) | Some c \<Rightarrow> (Some (int (length (q_open w))), w\<lparr>q_open := q_open w @ [c]\<rparr>)),
      ie_pread = (\<lambda>fd off n w. (if nat fd < length (q_open w) then Some (take n (drop off (q_open w ! nat fd))) else None, w)),
      ie_tls_setup = (\<lambda>fd. Pair True),
      ie_tls_handshake = (\<lambda>fd. Pair MBED_OK),
      ie_tls_read = (\<lambda>fd n w. case q_input w of [] \<Rightarrow> (Inl MBED_WANT_READ, w) | b # bs \<Rightarrow> (Inr b, w\<lparr>q_input := bs\<rparr>)),
      ie_tls_write = (\<lambda>fd buf w. map_prod Inr id (q_send buf w))\<rparr>"

definition q_opened :: "pop_world \<Rightarrow> int \<Rightarrow> string option" where
  "q_opened w fd = (if nat fd < length (q_open w) then Some (q_open w ! nat fd) else None)"

interpretation demo_wire: pop3_wire pop_env q_wire q_opened
  by unfold_locales (auto simp: pop_env_def q_send_def q_opened_def Let_def map_prod_def split: if_splits intro!: ext)

lemma demo_takes_all: "takes_all pop_env"
  by (simp add: takes_all_def pop_env_def q_send_def)

section \<open>Properties\<close>

text \<open>
  C19. A download is exact whatever the socket does: if it is over after any number of calls of the pump and the connection is still open, the client
  has been sent, or will find in the buffer, the status line and a reply from which it reads the message (with an end of line added where the
  message has none at its end) and after which nothing of the message follows.
\<close>

theorem pop3_retr_exact:
  assumes "pop3_wire E wire opened" "begins opened content s" "p_pg (po_conn (pumps E k s)) = None" "\<not> p_closed (po_conn (pumps E k s))"
  shows "\<exists>reply. stream wire (pumps E k s) = stream wire s @ ''+OK message follows'' @ CRLF @ reply \<and>
    (\<forall>r. pop3_client True (reply @ r) = Some (with_eol content, r))"
  by (rule pop3_wire.download_exact [OF assms])

definition demo_msg :: string where
  "demo_msg = ''A: b'' @ CRLF @ CRLF @ ''.x'' @ CRLF @ ''.''"

definition demo_pop :: "pop_world Pop" where
  "demo_pop =
     \<lparr>po_conn = \<lparr>p_fd = 5, p_closed = False, p_in = [], p_out = [], p_out_off = 0, p_last_act = 0, p_peer_ip = ''1234'', p_user = Some ''joe'', p_mb = None,
                 p_tls = None, p_pst = PO_TRANS, p_pend_user = None, p_del = [], p_ndel = 0,
                 p_pg = Some \<lparr>pg_fd = 0, pg_size = length demo_msg, pg_pos = 0, pg_phase = PG_HDR, pg_bol = True\<rparr>\<rparr>,
      po_fails = [], po_world = \<lparr>q_files = [], q_open = [demo_msg], q_input = [], q_wire = []\<rparr>, po_stalled = False\<rparr>"

lemma demo_begins: "begins q_opened demo_msg demo_pop"
  by (simp add: begins_def demo_pop_def q_opened_def)

lemma demo_pumped:
  "let s = pumps pop_env 1 demo_pop in p_pg (po_conn s) = None \<and> \<not> p_closed (po_conn s) \<and>
     stream q_wire s = ''+OK message follows'' @ CRLF @ ''A: b'' @ CRLF @ CRLF @ ''..x'' @ CRLF @ ''..'' @ CRLF @ ''.'' @ CRLF"
  by code_simp

theorem pop3_retr_exact_witness:
  "\<exists>reply. stream q_wire (pumps pop_env 1 demo_pop) = ''+OK message follows'' @ CRLF @ reply \<and>
     pop3_client True (reply @ ''+OK'') = Some (demo_msg @ CRLF, ''+OK'')"
proof -
  have "stream q_wire demo_pop = []" "with_eol demo_msg = demo_msg @ CRLF" by code_simp+
  then show ?thesis using pop3_retr_exact [OF demo_wire.pop3_wire_axioms demo_begins, of 1] demo_pumped by (auto simp: Let_def)
qed



text \<open>
  Without such a peer a download can be cut off: the output buffer is emptied only when the socket takes all of it, and once it has grown over its limit the
  terminating dot is not sent but the connection is closed.
\<close>

lemma pump_cuts_off:
  assumes "\<not> p_closed (po_conn s)" "pg_phase g = PG_END" "pg_bol g" "length (p_out (po_conn s)) > IMAPD_MAX_OUT"
    "length (p_out (po_conn s)) - p_out_off (po_conn s) < IMAPD_MAX_OUT div 2"
  shows "exec (pump_loop E g) s = s\<lparr>po_conn := (po_conn s)\<lparr>p_closed := True\<rparr>\<rparr>"
  using assms by (subst pump_loop.simps) (simp add: pop3_reply_def pclose_def)

end
