(* ===== verification/Pop3_Proofs.thy ===== *)
theory Pop3_Proofs
  imports Pop3_Stream
begin

text \<open>
  Properties of a POP3 session over all its events: the invariant of a connection, that messages are deleted by QUIT only, and what QUIT deletes.
\<close>

section \<open>Replies\<close>

text \<open>Output changes the buffer and may end the connection; the session stays as it is.\<close>

definition same_session :: "PopConn \<Rightarrow> PopConn \<Rightarrow> bool" where
  "same_session c d \<longleftrightarrow>
     p_in d = p_in c \<and> p_user d = p_user c \<and> p_mb d = p_mb c \<and> p_tls d = p_tls c \<and> p_pst d = p_pst c \<and>
     p_pend_user d = p_pend_user c \<and> p_del d = p_del c \<and> p_ndel d = p_ndel c"

definition replies :: "'w Pop \<Rightarrow> 'w Pop \<Rightarrow> bool" where
  "replies s t \<longleftrightarrow>
     same_session (po_conn s) (po_conn t) \<and> (p_closed (po_conn s) \<longrightarrow> p_closed (po_conn t)) \<and>
     (p_pg (po_conn s) = None \<longrightarrow> p_pg (po_conn t) = None) \<and>
     (p_out_off (po_conn s) \<le> length (p_out (po_conn s)) \<longrightarrow> p_out_off (po_conn t) \<le> length (p_out (po_conn t)))"

interpretation replying: state_preorder replies
  by unfold_locales (auto simp: replies_def same_session_def)

lemma replies_pio: "state_io_rel replies (pio f)"
  by (simp add: state_io_rel_def replies_def same_session_def)

lemma replies_pconn: "state_io_rel replies pconn"
  by (simp add: pconn_def replying.gets_io)

lemma replies_pclose: "state_io_rel replies pclose"
  by (simp add: state_io_rel_def replies_def same_session_def pclose_def)

lemma pop3_flush_blocked: "flush_loop f out off w = (Flush_blocked i, w') \<Longrightarrow> i < length out"
proof (induction f out off w rule: flush_loop.induct)
  case (1 f out off w)
  show ?case using 1(2) 1(1)
    by (subst (asm) flush_loop.simps) (auto split: if_splits prod.splits sent.splits)
qed

lemma replies_flush: "state_io_rel replies (pop3_flush E)"
proof -
  have "replies s (exec (pop3_flush E) s)" for s
  proof -
    obtain r w' where f: "flush_loop (pflush_send E (po_conn s)) (p_out (po_conn s)) (p_out_off (po_conn s)) (po_world s) = (r, w')" by force
    then show ?thesis by (cases r) (auto simp: pop3_flush_def replies_def same_session_def pafter_flush_def dest: pop3_flush_blocked)
  qed
  then show ?thesis by (simp add: state_io_rel_def)
qed

lemma replies_append: "state_io_rel replies (upd_pconn (\<lambda>c. c\<lparr>p_out := p_out c @ tx\<rparr>))"
  by (simp add: state_io_rel_def replies_def same_session_def)

lemma replies_reply: "state_io_rel replies (pop3_reply E tx)"
  unfolding pop3_reply_def by (intro replying.bind_io replying.if_io replies_pconn replies_pclose replies_append replies_flush)

lemma replies_replyf: "state_io_rel replies (pop3_replyf E tx)" "state_io_rel replies (pop3_err E msg)"
  unfolding pop3_replyf_def pop3_err_def by (intro replying.bind_io replying.if_io replies_reply replies_pclose)+

lemmas replies_intros = replying.return_io replying.bind_io replying.if_io replying.whenM_io replying.let_io replies_pio replies_pconn replies_pclose replies_flush replies_append
  replies_reply replies_replyf

lemma replies_lines: "state_io_rel replies (list_lines E what ns)"
  by (induction ns) (auto intro!: replies_intros)

lemma replies_option:
  "(v = None \<Longrightarrow> state_io_rel replies m) \<Longrightarrow> (\<And>x. v = Some x \<Longrightarrow> state_io_rel replies (f x)) \<Longrightarrow>
   state_io_rel replies (case v of None \<Rightarrow> m | Some x \<Rightarrow> f x)"
  by (cases v) auto

lemma replies_phase:
  "(v = PG_HDR \<Longrightarrow> state_io_rel replies a) \<Longrightarrow> (v = PG_BODY \<Longrightarrow> state_io_rel replies b) \<Longrightarrow> (v = PG_END \<Longrightarrow> state_io_rel replies c) \<Longrightarrow>
   (v = PG_DONE \<Longrightarrow> state_io_rel replies d) \<Longrightarrow> state_io_rel replies (case v of PG_HDR \<Rightarrow> a | PG_BODY \<Rightarrow> b | PG_END \<Rightarrow> c | PG_DONE \<Rightarrow> d)"
  by (cases v) auto

lemma replies_prod: "(\<And>x y. v = (x, y) \<Longrightarrow> state_io_rel replies (f x y)) \<Longrightarrow> state_io_rel replies (case v of (x, y) \<Rightarrow> f x y)"
  by (cases v) auto

lemma replies_pump_loop: "state_io_rel replies (pump_loop E g)"
proof (induction E g rule: pump_loop.induct)
  case (1 E g)
  show ?case unfolding pump_loop.simps [of E g] Let_def
    by (intro replies_intros replies_phase replies_prod) (rule 1; (assumption | rule refl | erule sym))+
qed

lemma replies_pump: "state_io_rel replies (pop3_pump E)"
proof -
  have "replies s (exec (pop3_pump E) s)" for s
  proof (cases "p_pg (po_conn s)")
    case None
    then show ?thesis by (simp add: pop3_pump_def replying.refl)
  next
    case (Some g)
    let ?t = "exec (pump_loop E g) s"
    have t: "replies s ?t" by (rule replying.io_apply [OF replies_pump_loop])
    let ?u = "?t\<lparr>po_conn := (po_conn ?t)\<lparr>p_pg := Some (eval (pump_loop E g) s)\<rparr>\<rparr>"
    have f: "replies ?u (exec (pop3_flush E) ?u)" by (rule replying.io_apply [OF replies_flush])
    show ?thesis using t f Some by (auto simp: pop3_pump_def replies_def same_session_def)
  qed
  then show ?thesis by (simp add: state_io_rel_def)
qed

lemma replies_top_cut_loop: "state_io_rel replies (top_cut_loop E fd off fsize k)"
proof (induction E fd off fsize k rule: top_cut_loop.induct)
  case (1 E fd off fsize k)
  show ?case unfolding top_cut_loop.simps [of E fd off fsize k] Let_def
    by (intro replies_intros replies_option) (rule 1; (assumption | rule refl))+
qed

lemma replies_read_upto: "state_io_rel replies (read_upto E fd want buf)"
proof (induction E fd want buf rule: read_upto.induct)
  case (1 E fd want buf)
  show ?case unfolding read_upto.simps [of E fd want buf] Let_def
    by (intro replies_intros replies_option) (rule 1; (assumption | rule refl))+
qed

section \<open>The view of a mailbox\<close>

text \<open>All messages of the view are files under its directory.\<close>

definition inside :: "string \<Rightarrow> string \<Rightarrow> bool" where
  "inside dir p \<longleftrightarrow> take (length dir + 1) p = dir @ ''/''"

definition all_inside :: "string \<Rightarrow> Imail list \<Rightarrow> bool" where
  "all_inside dir ms \<longleftrightarrow> (\<forall>m \<in> set ms. inside dir (m_path m))"

definition view_ok :: "string \<Rightarrow> Mbox \<Rightarrow> bool" where
  "view_ok dir mb \<longleftrightarrow> mb_dir mb = dir \<and> all_inside dir (mb_msgs mb)"

lemma inside_append: "inside dir (dir @ ''/'' @ p)"
  by (simp add: inside_def)

lemma inside_msg_path: "msg_path dir sub base info n = Some p \<Longrightarrow> inside dir p"
  by (auto simp: msg_path_def inside_def Let_def split: if_splits)

lemma all_inside_add: "all_inside dir (sc_msgs (scan_add m sc)) \<longleftrightarrow> all_inside dir (sc_msgs sc) \<and> inside dir (m_path m)"
  by (auto simp: scan_add_def all_inside_def)

lemma scan_file_inside:
  "all_inside dir (sc_msgs sc) \<Longrightarrow> all_inside dir (sc_msgs (eval (scan_file E (dir @ ''/'' @ sub) is_new bh sc name) w))"
  by (auto simp: scan_file_def Let_def all_inside_add inside_def split: option.split prod.split)

lemma scan_files_inside:
  "all_inside dir (sc_msgs sc) \<Longrightarrow> all_inside dir (sc_msgs (eval (foldM (scan_file E (dir @ ''/'' @ sub) is_new bh) sc ns) w))"
  by (induction ns arbitrary: sc w) (simp_all add: scan_file_inside [simplified])

lemma scan_subdir_inside:
  "all_inside dir (sc_msgs sc) \<Longrightarrow> eval (scan_subdir E dir sub is_new bh sc) w = Some sc' \<Longrightarrow> all_inside dir (sc_msgs sc')"
  using scan_files_inside [of dir sc E sub is_new bh] by (auto simp: scan_subdir_def Let_def split: if_splits option.splits)

lemma scan_finish_view:
  assumes "all_inside dir (sc_msgs sc)" "eval (scan_finish E dir False uv sc) w = Some mb"
  shows "view_ok dir mb"
proof -
  have "all_inside dir (sort_key m_uid (sc_msgs sc))" using assms(1) by (simp add: all_inside_def)
  then show ?thesis using assms(2)
    by (auto simp: scan_finish_def view_ok_def Let_def split_beta split: if_splits)
qed

lemma peek_view:
  assumes "eval (imapd_mbox_peek E cfg user name) w = Some mb"
  shows "\<exists>dir. imapd_mbox_dir cfg user name 4096 = Some dir \<and> view_ok dir mb"
proof -
  have "all_inside dir []" for dir by (simp add: all_inside_def)
  then show ?thesis using assms
    by (auto simp: imapd_mbox_peek_def mbox_scan_def Let_def split_beta split: option.splits if_splits
        dest!: scan_finish_view [rotated] scan_subdir_inside [rotated])
qed

lemma index_less: "mbox_index ms uid = Some i \<Longrightarrow> i < length ms"
  by (induction ms arbitrary: i) (auto split: if_splits)

lemma store_view:
  assumes "view_ok dir mb"
  shows "view_ok dir (snd (eval (imapd_mbox_store E mb uid flags) w)) \<and> length (mb_msgs (snd (eval (imapd_mbox_store E mb uid flags) w))) = length (mb_msgs mb)"
proof -
  have "all_inside dir (xs[i := m])" if "all_inside dir xs" "inside dir (m_path m)" for xs i m
    using that set_update_subset_insert [of xs i m] by (auto simp: all_inside_def)
  then show ?thesis using assms
    by (auto simp: imapd_mbox_store_def view_ok_def Let_def split: option.split if_splits dest: inside_msg_path)
qed

section \<open>The invariant of a session\<close>

text \<open>The number of messages marked deleted.\<close>

abbreviation marked :: "bool list \<Rightarrow> nat" where
  "marked del \<equiv> length (filter id del)"

definition mailbox_ok :: "ImapdConfig \<Rightarrow> PopConn \<Rightarrow> Mbox \<Rightarrow> bool" where
  "mailbox_ok cfg c mb \<longleftrightarrow>
     p_pst c = PO_TRANS \<and> length (p_del c) = length (mb_msgs mb) \<and> p_ndel c = marked (p_del c) \<and>
     (\<exists>u dir. p_user c = Some u \<and> imapd_user_ok u \<and> imapd_mbox_dir cfg u ''INBOX'' 4096 = Some dir \<and> view_ok dir mb)"

text \<open>
  In the authorization state there is no user, mailbox or download. In the transaction state the mailbox is that of the user, the marks have its length
  and are counted right. While TLS is being negotiated nothing is logged in or waiting to be read; a name given to USER is valid. Where clear text
  is not allowed nobody has logged in without TLS.
\<close>

definition pop3_ok :: "ImapdServer \<Rightarrow> PopConn \<Rightarrow> bool" where
  "pop3_ok srv c \<longleftrightarrow>
     p_out_off c \<le> length (p_out c) \<and>
     (p_pst c = PO_AUTH \<longleftrightarrow> p_user c = None) \<and>
     (p_pst c = PO_AUTH \<longrightarrow> p_pg c = None) \<and>
     (case p_mb c of
        None \<Rightarrow> p_del c = [] \<and> p_ndel c = 0 \<and> (p_pst c = PO_TRANS \<longrightarrow> p_closed c)
      | Some mb \<Rightarrow> mailbox_ok (is_cfg srv) c mb) \<and>
     (imapd_tls_handshaking (p_tls c) \<longrightarrow> p_pst c = PO_AUTH \<and> p_in c = []) \<and>
     (\<forall>u. p_pend_user c = Some u \<longrightarrow> imapd_user_ok u) \<and>
     (\<not> cleartext_ok srv c \<longrightarrow> p_pst c = PO_AUTH \<and> p_pend_user c = None)"

abbreviation fine :: "ImapdServer \<Rightarrow> 'w Pop \<Rightarrow> bool" where
  "fine srv s \<equiv> pop3_ok srv (po_conn s)"

lemma fine_replies: "replies s t \<Longrightarrow> fine srv s \<Longrightarrow> fine srv t"
  by (auto simp: replies_def same_session_def pop3_ok_def mailbox_ok_def cleartext_ok_def split: option.splits)

lemma replies_same:
  assumes "replies s t"
  shows "p_pst (po_conn t) = p_pst (po_conn s)" "p_mb (po_conn t) = p_mb (po_conn s)" "p_tls (po_conn t) = p_tls (po_conn s)" "p_in (po_conn t) = p_in (po_conn s)"
  using assms by (auto simp: replies_def same_session_def)

lemma quiet: "state_io_rel replies m \<Longrightarrow> (\<And>s. P s \<Longrightarrow> fine srv s) \<Longrightarrow> triple P m (\<lambda>_. fine srv)"
  by (auto simp: triple_def state_io_rel_def intro: fine_replies)

lemma triple_pconn: "(\<And>c. triple (\<lambda>s. P s \<and> po_conn s = c) (f c) Q) \<Longrightarrow> triple P (pconn \<bind> f) Q"
  by (simp add: triple_def)

lemma triple_upd_pconn: "(\<And>s. P s \<Longrightarrow> Q (s\<lparr>po_conn := f (po_conn s)\<rparr>)) \<Longrightarrow> triple P (upd_pconn f) (\<lambda>_. Q)"
  by (simp add: triple_def)

lemma triple_opt:
  "(v = None \<Longrightarrow> triple P m Q) \<Longrightarrow> (\<And>x. v = Some x \<Longrightarrow> triple P (f x) Q) \<Longrightarrow> triple P (case v of None \<Rightarrow> m | Some x \<Rightarrow> f x) Q"
  by (cases v) auto

text \<open>An update and a reply.\<close>

lemma upd_then:
  assumes "\<And>s. P s \<Longrightarrow> pop3_ok srv (f (po_conn s))" "state_io_rel replies m"
  shows "triple P (upd_pconn f \<bind> (\<lambda>_. m)) (\<lambda>_. fine srv)"
  by (rule triple_bind [where R = "\<lambda>_. fine srv"]) (use assms in \<open>auto intro!: triple_upd_pconn quiet\<close>)

lemmas quiet_reply = quiet [OF replies_reply] quiet [OF replies_replyf(1)] quiet [OF replies_replyf(2)]

section \<open>Commands\<close>

lemma fine_user: "triple (fine srv) (cmd_user E srv arg) (\<lambda>_. fine srv)"
  unfolding cmd_user_def
  by (intro triple_pconn triple_if quiet_reply upd_then replies_reply) (auto simp: pop3_ok_def mailbox_ok_def cleartext_ok_def split: option.splits)

lemma fine_drop_user: "triple (fine srv) drop_user (\<lambda>_. fine srv)"
  unfolding drop_user_def
  by (intro triple_upd_pconn) (auto simp: pop3_ok_def mailbox_ok_def cleartext_ok_def split: option.splits)

lemma fine_stls: "triple (\<lambda>s. fine srv s \<and> \<not> imapd_tls_handshaking (p_tls (po_conn s))) (cmd_stls E srv) (\<lambda>_. fine srv)"
proof -
  have start: "triple (\<lambda>s. (fine srv s \<and> \<not> imapd_tls_handshaking (p_tls (po_conn s))) \<and> po_conn s = c) (imapd_tls_start E) (\<lambda>_. fine srv)"
    if "p_pst c = PO_AUTH" "\<not> imapd_tls_established (p_tls c)" "p_in c = []" for c
    using that by (auto simp: triple_def imapd_tls_start_def pop3_ok_def mailbox_ok_def cleartext_ok_def imapd_tls_established_def imapd_tls_handshaking_def split: option.splits)
  show ?thesis unfolding cmd_stls_def
    by (intro triple_pconn triple_if triple_bind [OF start] quiet_reply) auto
qed

lemma fine_login:
  assumes "p_pst (po_conn s) = PO_AUTH" "cleartext_ok srv (po_conn s)" "imapd_user_ok user" "\<not> imapd_tls_handshaking (p_tls (po_conn s))" "fine srv s"
  shows "fine srv (exec (pass_login E srv user) s)"
proof -
  let ?f = "outbox_auth_clear (po_fails s) (p_peer_ip (po_conn s))"
  let ?s1 = "s\<lparr>po_conn := (po_conn s)\<lparr>p_user := Some user, p_pend_user := None\<rparr>, po_fails := ?f\<rparr>"
  let ?peek = "imapd_mbox_peek E (is_cfg srv) user ''INBOX''" and ?w = "exec (imapd_mbox_peek E (is_cfg srv) user ''INBOX'') (po_world s)"
  show ?thesis
  proof (cases "eval ?peek (po_world s)")
    case None
    let ?t = "?s1\<lparr>po_world := ?w, po_conn := (po_conn ?s1)\<lparr>p_user := None\<rparr>\<rparr>"
    have "exec (pass_login E srv user) s = exec (pop3_err E ''Cannot open mailbox'') ?t" using None by (simp add: pass_login_def open_inbox_def)
    moreover have "fine srv ?t" using assms by (auto simp: pop3_ok_def mailbox_ok_def cleartext_ok_def split: option.splits)
    ultimately show ?thesis using fine_replies [OF replying.io_apply [OF replies_replyf(2)]] by metis
  next
    case (Some mb)
    let ?t = "?s1\<lparr>po_world := ?w, po_conn := (po_conn ?s1)\<lparr>p_mb := Some mb, p_del := replicate (length (mb_msgs mb)) False, p_pst := PO_TRANS\<rparr>\<rparr>"
    have "exec (pass_login E srv user) s = exec (pop3_reply E (''+OK mailbox locked and ready'' @ CRLF)) ?t" using Some by (simp add: pass_login_def open_inbox_def)
    moreover have "fine srv ?t" using assms peek_view [OF Some] by (auto simp: pop3_ok_def mailbox_ok_def cleartext_ok_def split: option.splits)
    ultimately show ?thesis using fine_replies [OF replying.io_apply [OF replies_reply]] by metis
  qed
qed

lemma fine_pass: "triple (\<lambda>s. fine srv s \<and> \<not> imapd_tls_handshaking (p_tls (po_conn s))) (cmd_pass E srv arg) (\<lambda>_. fine srv)"
proof -
  let ?P = "\<lambda>c s. (fine srv s \<and> \<not> imapd_tls_handshaking (p_tls (po_conn s))) \<and> po_conn s = c"
  have refuse: "triple P (pop3_err E msg \<bind> (\<lambda>_. drop_user)) (\<lambda>_. fine srv)" if "\<And>s. P s \<Longrightarrow> fine srv s" for P msg
    using that by (intro triple_bind [OF quiet_reply(3) fine_drop_user]) auto
  have fail: "triple (?P c) (pauth_failed now) (\<lambda>_. ?P c)" for c now by (auto simp: triple_def)
  have login: "triple (?P c) (pass_login E srv user) (\<lambda>_. fine srv)"
    if "p_pst c = PO_AUTH" "cleartext_ok srv c" "p_pend_user c = Some user" for c user
    using that by (auto simp: triple_def intro!: fine_login) (simp add: pop3_ok_def)
  have asked: "triple (?P c) (pio (ie_time E)) (\<lambda>_. ?P c)" "triple (?P c) (pauth_asked now) (\<lambda>_. ?P c)" for c now by (auto simp: triple_def)
  show ?thesis unfolding cmd_pass_def
    by (intro triple_pconn triple_if triple_opt refuse quiet_reply triple_bind [OF asked(1)] triple_bind [OF asked(2)] triple_bind [OF fail] login) auto
qed

lemma marked_update: "i < length del \<Longrightarrow> \<not> del ! i \<Longrightarrow> marked (del[i := True]) = Suc (marked del)"
  by (induction del arbitrary: i) (auto split: nat.splits simp: nth_Cons')

lemma fine_dele: "triple (fine srv) (cmd_dele E arg) (\<lambda>_. fine srv)"
proof -
  have "pop3_ok srv (c\<lparr>p_del := (p_del c)[n - 1 := True], p_ndel := p_ndel c + 1\<rparr>)"
    if "pop3_ok srv c" "\<not> (n < 1 \<or> n > length (mb_msgs (the_mb c)))" "\<not> is_del c (n - 1)" for n c
    using that marked_update [of "n - 1" "p_del c"]
    by (auto simp: pop3_ok_def mailbox_ok_def the_mb_def empty_mbox_def is_del_def cleartext_ok_def split: option.splits)
  then show ?thesis unfolding cmd_dele_def
    by (intro triple_pconn triple_if triple_opt quiet_reply upd_then replies_reply) auto
qed

lemma fine_reset: "pop3_ok srv c \<Longrightarrow> pop3_ok srv (pop3_reset_deleted c)"
  by (auto simp: pop3_ok_def mailbox_ok_def cleartext_ok_def pop3_reset_deleted_def split: option.splits)

lemma fine_start:
  "triple (\<lambda>s. fine srv s \<and> p_pst (po_conn s) = PO_TRANS \<and> p_mb (po_conn s) = mb) (start_retr E idx ln)
     (\<lambda>_ s. fine srv s \<and> p_mb (po_conn s) = mb)"
proof -
  let ?P = "\<lambda>s. fine srv s \<and> p_pst (po_conn s) = PO_TRANS \<and> p_mb (po_conn s) = mb"
  have q: "triple ?P m (\<lambda>_. ?P)" if "state_io_rel replies m" for m :: "('a Pop, 'b) state"
    using that by (rule triple_io) (auto simp: replies_same intro: fine_replies)
  have up: "triple ?P (upd_pconn (\<lambda>c. c\<lparr>p_pg := g\<rparr>)) (\<lambda>_. ?P)" for g
    by (intro triple_upd_pconn) (auto simp: pop3_ok_def mailbox_ok_def cleartext_ok_def split: option.splits)
  have cut: "state_io_rel replies (top_cut E fd e fsize n)" for fd e fsize n
    unfolding top_cut_def by (intro replies_intros replies_top_cut_loop)
  have "triple ?P (start_retr E idx ln) (\<lambda>_. ?P)"
    unfolding start_retr_def Let_def
    by (intro triple_bind [OF q] triple_opt triple_bind [OF up] q replies_intros replies_option replies_read_upto cut)
  then show ?thesis by (rule triple_weaken) simp
qed

lemma msg_index_mb: "pop3_ok srv c \<Longrightarrow> msg_index c n = Some i \<Longrightarrow> \<exists>mb. p_mb c = Some mb \<and> i < length (mb_msgs mb) \<and> \<not> p_del c ! i"
  by (auto simp: msg_index_def the_mb_def empty_mbox_def is_del_def pop3_ok_def mailbox_ok_def split: if_splits option.splits)

lemma fine_seen:
  assumes "p_mb (po_conn s) = Some mb" "fine srv s" "i < length (mb_msgs mb)"
  shows "fine srv (exec (mark_seen E i) s)"
proof -
  let ?m = "mb_msgs mb ! i"
  let ?mb = "mb\<lparr>mb_msgs := (mb_msgs mb)[i := ?m\<lparr>m_flags := m_flags ?m OR IMAIL_SEEN\<rparr>]\<rparr>"
  have in_view: "all_inside dir (mb_msgs mb) \<Longrightarrow> all_inside dir (mb_msgs ?mb)" for dir
    using assms(3) set_update_subset_insert [of "mb_msgs mb" i "?m\<lparr>m_flags := m_flags ?m OR IMAIL_SEEN\<rparr>"] by (auto simp: all_inside_def)
  then have v: "view_ok dir mb \<Longrightarrow> view_ok dir ?mb" for dir by (simp add: view_ok_def)
  let ?st = "imapd_mbox_store E ?mb (m_uid ?m) (m_flags ?m OR IMAIL_SEEN)"
  have "pop3_ok srv ((po_conn s)\<lparr>p_mb := Some (snd (eval ?st (po_world s)))\<rparr>)"
    using assms(1,2) store_view [OF v, of _ E "m_uid ?m" "m_flags ?m OR IMAIL_SEEN" "po_world s"]
    by (auto simp: pop3_ok_def mailbox_ok_def cleartext_ok_def)
  then show ?thesis using assms(1,2) by (simp add: mark_seen_def on_mbox_def the_mb_def split_beta Let_def)
qed

lemma fine_retr: "triple (\<lambda>s. fine srv s \<and> p_pst (po_conn s) = PO_TRANS) (cmd_retr E arg) (\<lambda>_. fine srv)"
proof -
  let ?P = "\<lambda>c s. (fine srv s \<and> p_pst (po_conn s) = PO_TRANS) \<and> po_conn s = c"
  have go: "triple (?P c) (start_retr E i None \<bind> (\<lambda>ok. if \<not> ok then pop3_err E msg else mark_seen E i \<bind> (\<lambda>_. pop3_pump E))) (\<lambda>_. fine srv)"
    if idx: "msg_index c n = Some i" for c n i msg
  proof (rule triple_bind [OF triple_pre [OF fine_start [of srv "p_mb c"]]])
    fix ok
    show "triple (\<lambda>s. fine srv s \<and> p_mb (po_conn s) = p_mb c) (if \<not> ok then pop3_err E msg else mark_seen E i \<bind> (\<lambda>_. pop3_pump E)) (\<lambda>_. fine srv)"
    proof (cases "\<exists>mb. p_mb c = Some mb \<and> i < length (mb_msgs mb)")
      case True
      then obtain mb where "p_mb c = Some mb" "i < length (mb_msgs mb)" by blast
      then have "triple (\<lambda>s. fine srv s \<and> p_mb (po_conn s) = p_mb c) (mark_seen E i) (\<lambda>_. fine srv)" by (simp add: triple_def fine_seen)
      then show ?thesis by (intro triple_if quiet_reply triple_bind [OF _ quiet [OF replies_pump]]) auto
    next
      case False
      then have "length (mb_msgs (the_mb c)) \<le> i" using False by (auto simp: the_mb_def empty_mbox_def split: option.splits)
      then show ?thesis using idx by (auto simp: msg_index_def split: if_splits)
    qed
  qed auto
  show ?thesis unfolding cmd_retr_def by (intro triple_pconn triple_if triple_opt quiet_reply go) auto
qed

lemma fine_top: "triple (\<lambda>s. fine srv s \<and> p_pst (po_conn s) = PO_TRANS) (cmd_top E arg) (\<lambda>_. fine srv)"
proof -
  let ?P = "\<lambda>c s. (fine srv s \<and> p_pst (po_conn s) = PO_TRANS) \<and> po_conn s = c"
  have go: "triple (?P c) (start_retr E i ln \<bind> (\<lambda>ok. if \<not> ok then pop3_err E msg else pop3_pump E)) (\<lambda>_. fine srv)" for c i ln msg
    by (rule triple_bind [OF triple_pre [OF fine_start [of srv "p_mb c"]]]) (auto intro!: triple_if quiet_reply quiet [OF replies_pump])
  show ?thesis unfolding cmd_top_def Let_def by (intro triple_pconn triple_if triple_opt quiet_reply go) auto
qed

lemma quit_state:
  fixes E :: "'w ImapEnv"
  shows "\<exists>w t. replies (s\<lparr>po_world := w, po_conn := (po_conn s)\<lparr>p_mb := None, p_del := [], p_ndel := 0\<rparr>\<rparr>) t \<and>
    exec (pop3_quit E) s = t\<lparr>po_conn := (po_conn t)\<lparr>p_closed := True\<rparr>\<rparr>"
proof (cases "p_mb (po_conn s)")
  case None
  then have c: "(po_conn s)\<lparr>p_mb := None, p_del := [], p_ndel := 0\<rparr> = (po_conn s)\<lparr>p_del := [], p_ndel := 0\<rparr>" by (cases "po_conn s") simp
  let ?s = "s\<lparr>po_world := po_world s, po_conn := (po_conn s)\<lparr>p_mb := None, p_del := [], p_ndel := 0\<rparr>\<rparr>"
  have "exec (pop3_quit E) s = exec pclose (exec (pop3_reply E (''+OK bye'' @ CRLF)) ?s)" unfolding c using None by (simp add: pop3_quit_def)
  then show ?thesis
    by (intro exI [of _ "po_world s"] exI [of _ "exec (pop3_reply E (''+OK bye'' @ CRLF)) ?s"] conjI replying.io_apply [OF replies_reply]) (simp add: pclose_def)
next
  case (Some mb)
  then show ?thesis using replying.io_apply [OF replies_reply] by (fastforce simp: pop3_quit_def pclose_def)
qed

lemma fine_quit: "triple (fine srv) (pop3_quit E) (\<lambda>_. fine srv)"
proof -
  have "fine srv (exec (pop3_quit E) s)" if "fine srv s" for s
  proof -
    obtain w t where "replies (s\<lparr>po_world := w, po_conn := (po_conn s)\<lparr>p_mb := None, p_del := [], p_ndel := 0\<rparr>\<rparr>) t"
      "exec (pop3_quit E) s = t\<lparr>po_conn := (po_conn t)\<lparr>p_closed := True\<rparr>\<rparr>" using quit_state [of s E] by blast
    then show ?thesis using that by (auto simp: replies_def same_session_def pop3_ok_def mailbox_ok_def cleartext_ok_def split: option.splits)
  qed
  then show ?thesis by (simp add: triple_def)
qed

section \<open>Lines and events\<close>

lemma fine_capa: "triple (fine srv) (cmd_capa E srv) (\<lambda>_. fine srv)"
  unfolding cmd_capa_def by (rule quiet [OF _]) (intro replies_intros | assumption)+

lemma fine_lists: "triple (fine srv) (cmd_stat E) (\<lambda>_. fine srv)" "triple (fine srv) (list_cmd E arg what hdr) (\<lambda>_. fine srv)"
  unfolding cmd_stat_def list_cmd_def by (rule quiet [OF _], (intro replies_intros replies_option replies_lines | assumption)+)+

lemma fine_trans_command: "triple (\<lambda>s. fine srv s \<and> p_pst (po_conn s) = PO_TRANS) (pop3_trans_command E word arg) (\<lambda>_. fine srv)"
  unfolding pop3_trans_command_def cmd_list_def cmd_uidl_def
  by (intro triple_if fine_retr fine_top quiet_reply triple_pre [OF fine_lists(1)] triple_pre [OF fine_lists(2)] triple_pre [OF fine_dele]) auto

lemma fine_command: "triple (\<lambda>s. fine srv s \<and> \<not> imapd_tls_handshaking (p_tls (po_conn s))) (pop3_command E srv line) (\<lambda>_. fine srv)"
  unfolding pop3_command_def Let_def
  by (intro triple_if triple_pconn fine_stls fine_pass quiet_reply upd_then fine_reset replies_reply triple_pre [OF fine_quit] triple_pre [OF fine_capa] triple_pre [OF fine_user]
      triple_pre [OF fine_trans_command]) auto

lemma fine_line: "triple (fine srv) (pop3_line E srv) (\<lambda>_. fine srv)"
proof -
  let ?hs = "\<lambda>s. imapd_tls_handshaking (p_tls (po_conn s))"
  have over: "triple P (pop3_reply E tx \<bind> (\<lambda>_. pclose \<bind> (\<lambda>_. return False))) (\<lambda>_. fine srv)"
    "triple P (whenM b (pop3_reply E tx \<bind> (\<lambda>_. pclose)) \<bind> (\<lambda>_. return False)) (\<lambda>_. fine srv)"
    "triple P (return False) (\<lambda>_. fine srv)"
    if "\<And>s. P s \<Longrightarrow> fine srv s" for P tx b
    using that by (auto intro!: quiet replies_intros)
  have cut: "triple (\<lambda>s. fine srv s \<and> po_conn s = c) (upd_pconn (\<lambda>c. c\<lparr>p_in := drop n (p_in c)\<rparr>)) (\<lambda>_ s. fine srv s \<and> \<not> ?hs s)"
    if "\<not> (p_closed c \<or> p_pg c \<noteq> None \<or> (p_tls c \<noteq> None \<and> \<not> imapd_tls_established (p_tls c)))" for c n
    using that by (intro triple_upd_pconn) (auto simp: pop3_ok_def mailbox_ok_def cleartext_ok_def imapd_tls_handshaking_def imapd_tls_established_def split: option.splits)
  show ?thesis unfolding pop3_line_def Let_def
    by (intro triple_pconn triple_if over triple_return triple_bind [OF cut] triple_bind [OF fine_command]) auto
qed

lemma fine_commands: "triple (fine srv) (pop3_commands E srv) (\<lambda>_. fine srv)"
proof -
  have ls: "triple (fine srv) (pop3_lines E srv n) (\<lambda>_. fine srv)" for n
    by (induction n) (auto intro!: triple_return triple_bind [OF fine_line])
  show ?thesis unfolding pop3_commands_def by (rule triple_pconn, rule triple_pre [OF ls]) simp
qed

lemma fine_take: "triple (\<lambda>s. fine srv s \<and> \<not> imapd_tls_handshaking (p_tls (po_conn s))) (pop3_take E srv now bs) (\<lambda>_. fine srv)"
proof -
  have "triple (\<lambda>s. fine srv s \<and> \<not> imapd_tls_handshaking (p_tls (po_conn s))) (upd_pconn (\<lambda>c. c\<lparr>p_last_act := now, p_in := p_in c @ bs\<rparr>)) (\<lambda>_. fine srv)"
    by (intro triple_upd_pconn) (auto simp: pop3_ok_def mailbox_ok_def cleartext_ok_def split: option.splits)
  then show ?thesis unfolding pop3_take_def by (rule triple_bind) (rule fine_commands)
qed

lemma fine_close: "triple (fine srv) pclose (\<lambda>_. fine srv)"
  by (rule quiet [OF replies_pclose])

lemma fine_drain: "triple (fine srv) (pop3_drain E srv k now) (\<lambda>_. fine srv)"
proof (induction k)
  case 0
  show ?case by (simp add: triple_def)
next
  case (Suc k)
  have "fine srv (exec (pop3_drain E srv (Suc k) now) s)" if "fine srv s" for s
  proof -
    let ?c = "po_conn s"
    obtain r w where r: "imapd_tls_recv E ?c IMAPD_RECV_CHUNK (po_world s) = (r, w)" by force
    let ?s = "s\<lparr>po_world := w\<rparr>"
    show ?thesis
    proof (cases r)
      case (Inl u)
      then show ?thesis using r that tripleD [OF fine_close, of srv ?s] by simp
    next
      case (Inr bs)
      then have e: "imapd_tls_established (p_tls ?c)" using r by (auto simp: imapd_tls_recv_def split: if_splits)
      then have "\<not> imapd_tls_handshaking (p_tls (po_conn ?s))" by (auto simp: imapd_tls_handshaking_def imapd_tls_established_def split: option.splits)
      then have t: "fine srv (exec (pop3_take E srv now bs) ?s)" using tripleD [OF fine_take, of srv ?s] that by simp
      show ?thesis using Inr r that t tripleD [OF Suc t] by simp
    qed
  qed
  then show ?case by (simp add: triple_def)
qed

lemma fine_readable: "triple (fine srv) (pop3_readable E srv k now) (\<lambda>_. fine srv)"
proof -
  have "fine srv (exec (pop3_readable E srv k now) s)" if ok: "fine srv s" for s
  proof (cases "p_tls (po_conn s)")
    case (Some t)
    then show ?thesis using ok tripleD [OF fine_drain, of srv s] by (simp add: pop3_readable_def)
  next
    case None
    obtain r w where r: "ie_recv E (p_fd (po_conn s)) IMAPD_RECV_CHUNK (po_world s) = (r, w)" by force
    have "\<not> imapd_tls_handshaking (p_tls (po_conn s))" using None by (simp add: imapd_tls_handshaking_def)
    then show ?thesis using None r ok tripleD [OF fine_close, of srv "s\<lparr>po_world := w\<rparr>"] tripleD [OF fine_take, of srv "s\<lparr>po_world := w\<rparr>"]
      by (cases r) (auto simp: pop3_readable_def)
  qed
  then show ?thesis by (simp add: triple_def)
qed

text \<open>A round of the handshake: it is made only before a login, so the reset at its end finds nothing to lose.\<close>

lemma fine_advance:
  assumes "fine srv s" "imapd_tls_handshaking (p_tls (po_conn s))"
  shows "fine srv (exec (imapd_tls_advance E srv k now) s)"
proof -
  let ?c = "po_conn s"
  obtain t0 where t0: "p_tls ?c = Some t0" "it_state t0 \<noteq> TLS_ESTABLISHED" using assms(2) by (auto simp: imapd_tls_handshaking_def split: option.splits)
  obtain r w where r: "ie_tls_handshake E (p_fd ?c) (po_world s) = (r, w)" by force
  let ?t = "if it_state t0 = TLS_PENDING then t0\<lparr>it_state := TLS_HANDSHAKE\<rparr> else t0"
  have ne: "it_state ?t \<noteq> TLS_ESTABLISHED" using t0(2) by simp
  obtain res t' where h: "handshake_done r ?t = (res, t')" by force
  let ?s = "s\<lparr>po_world := w, po_conn := ?c\<lparr>p_tls := Some t', p_last_act := now\<rparr>\<rparr>"
  have step: "run_state (imapd_tls_handshake_step E now) s = (res, ?s)"
    using t0 r h ne by (simp add: imapd_tls_handshake_step_def Let_def split_beta)
  have auth: "p_pst ?c = PO_AUTH" "p_in ?c = []" "p_mb ?c = None" "p_user ?c = None" "p_del ?c = []" "p_ndel ?c = 0" "p_pg ?c = None"
    using assms by (auto simp: pop3_ok_def mailbox_ok_def split: option.splits)
  have ok: "fine srv ?s" using assms auth by (auto simp: pop3_ok_def cleartext_ok_def imapd_tls_established_def t0)
  have reset: "fine srv (?s\<lparr>po_conn := pop3_tls_reset (po_conn ?s)\<rparr>)" using ok auth by (auto simp: pop3_ok_def pop3_tls_reset_def cleartext_ok_def)
  have drop: "fine srv (?s\<lparr>po_conn := (po_conn ?s)\<lparr>p_closed := True, p_out := [], p_out_off := 0\<rparr>\<rparr>)" using ok auth by (auto simp: pop3_ok_def cleartext_ok_def)
  show ?thesis using step ok drop tripleD [OF fine_readable reset] by (cases res) (simp_all add: imapd_tls_advance_def)
qed

lemma fine_timeout: "pop3_ok srv c \<Longrightarrow> pop3_ok srv (pop3_timeout srv now c)"
  by (auto simp: pop3_timeout_def pop3_ok_def mailbox_ok_def cleartext_ok_def Let_def split: option.splits)

lemma fine_event: "fine srv s \<Longrightarrow> fine srv (exec (pop3_event E srv k now rin rout) s)"
proof -
  assume ok: "fine srv s"
  let ?c = "po_conn s" and ?f = "exec (pop3_flush E) s"
  have fl: "fine srv (exec (pop3_flush E) s)" if "fine srv s" for s :: "'a Pop" using that fine_replies [OF replying.io_apply [OF replies_flush]] by blast
  have pu: "fine srv (exec (pop3_pump E) s)" using ok fine_replies [OF replying.io_apply [OF replies_pump]] by blast
  have tls: "p_tls (po_conn ?f) = p_tls ?c" by (rule replies_same(3) [OF replying.io_apply [OF replies_flush]])
  have pend: "imapd_tls_pending t \<Longrightarrow> imapd_tls_handshaking t" for t by (auto simp: imapd_tls_pending_def imapd_tls_handshaking_def split: option.splits)
  consider (closed) "p_closed ?c" | (pump) "\<not> p_closed ?c" "p_pg ?c \<noteq> None" | (pending) "\<not> p_closed ?c" "p_pg ?c = None" "imapd_tls_pending (p_tls ?c)"
    | (hs) "\<not> p_closed ?c" "p_pg ?c = None" "\<not> imapd_tls_pending (p_tls ?c)" "imapd_tls_handshaking (p_tls ?c)"
    | (plain) "\<not> p_closed ?c" "p_pg ?c = None" "\<not> imapd_tls_pending (p_tls ?c)" "\<not> imapd_tls_handshaking (p_tls ?c)" by blast
  then show ?thesis
  proof cases
    case closed
    then show ?thesis using ok fl by (simp add: pop3_event_def)
  next
    case pump
    then show ?thesis using ok pu by (auto simp: pop3_event_def)
  next
    case pending
    then have "imapd_tls_handshaking (p_tls (po_conn ?f))" using tls pend by simp
    then show ?thesis using pending ok fl [OF ok] fine_advance [OF fl [OF ok]] by (simp add: pop3_event_def)
  next
    case hs
    then show ?thesis using ok fine_advance [OF ok] by (simp add: pop3_event_def)
  next
    case plain
    then show ?thesis using ok fl [OF ok] fl [OF tripleD [OF fine_readable ok]] tripleD [OF fine_readable ok] by (simp add: pop3_event_def)
  qed
qed

lemma fine_accept: "fine srv (exec (pop3_accept E srv fd ip now) s)"
proof -
  have "pop3_ok srv (pop3_fresh fd ip now)" by (simp add: pop3_fresh_def pop3_ok_def imapd_tls_handshaking_def)
  then have "triple (\<lambda>_. True) (pop3_accept E srv fd ip now) (\<lambda>_. fine srv)"
    unfolding pop3_accept_def pop3_greeting_def Let_def by (intro upd_then replies_intros)
  then show ?thesis by (simp add: triple_def)
qed

section \<open>Sessions\<close>

text \<open>
  The life of a connection: events of the poll loop, timeouts, and what the other connections of the daemon and other programs do to the world
  and to the table of failed logins in between.
\<close>

inductive pop3_run :: "'w ImapEnv \<Rightarrow> ImapdServer \<Rightarrow> 'w Pop \<Rightarrow> bool" for E srv where
  accepted: "pop3_run E srv (exec (pop3_accept E srv fd ip now) s)"
| event: "pop3_run E srv s \<Longrightarrow> pop3_run E srv (exec (pop3_event E srv k now rin rout) s)"
| timeout: "pop3_run E srv s \<Longrightarrow> pop3_run E srv (s\<lparr>po_conn := pop3_timeout srv now (po_conn s)\<rparr>)"
| others: "pop3_run E srv s \<Longrightarrow> pop3_run E srv (s\<lparr>po_world := w, po_fails := fs\<rparr>)"

lemma run_fine: "pop3_run E srv s \<Longrightarrow> fine srv s"
  by (induction rule: pop3_run.induct) (auto intro: fine_accept fine_event fine_timeout)

section \<open>Properties\<close>

text \<open>
  C17. A POP3 connection keeps its invariant from the greeting on, through all events, timeouts and whatever happens to files and the table of failed logins
  in between: without a login there is no mailbox and no download; after one the mailbox is the inbox of a valid user, all its messages are
  files under its directory, the deletion marks are as many as the messages and counted right; while TLS is negotiated nothing
  is logged in and no input waits; where a login in clear text is not allowed, nobody is logged in without TLS.
\<close>

theorem pop3_session_invariant:
  assumes "pop3_run E srv s"
  shows "pop3_ok srv (po_conn s)"
  by (rule run_fine [OF assms])

definition demo_srv :: ImapdServer where
  "demo_srv =
     \<lparr>is_cfg = \<lparr>im_root = ''/m'', im_hostname = ''h'', im_max_msg = 0, im_cmd_tmo = 300, im_data_tmo = 600\<rparr>,
      is_creds = [\<lparr>cred_user = ''joe'', cred_pass = ''pw''\<rparr>], is_tls_ready = False, is_pop3_loopback = True\<rparr>"

definition demo_world :: pop_world where
  "demo_world =
     \<lparr>q_files = [(''/m/joe/Inbox/cur/1.a:2,S'', ''A: b'' @ CRLF @ CRLF)], q_open = [],
      q_input = [''USER joe'' @ CRLF @ ''PASS pw'' @ CRLF @ ''DELE 1'' @ CRLF, ''QUIT'' @ CRLF], q_wire = []\<rparr>"

definition demo_accepted :: "pop_world Pop" where
  "demo_accepted = exec (pop3_accept pop_env demo_srv 5 ''1234'' 10) \<lparr>po_conn = pop3_fresh 0 [] 0, po_fails = [], po_world = demo_world, po_stalled = False\<rparr>"

definition demo_session :: "pop_world Pop" where
  "demo_session = exec (pop3_event pop_env demo_srv 1 10 True True) demo_accepted"

lemma demo_run: "pop3_run pop_env demo_srv demo_session"
  unfolding demo_session_def demo_accepted_def by (intro pop3_run.intros)

lemma demo_deleted: "(case po_conn demo_session of c \<Rightarrow> (p_pst c, p_user c, p_del c, p_closed c)) = (PO_TRANS, Some ''joe'', [True], False)"
  by code_simp

theorem pop3_session_invariant_witness:
  "p_pst (po_conn demo_session) = PO_TRANS \<and> p_ndel (po_conn demo_session) = 1 \<and> (\<exists>mb. p_mb (po_conn demo_session) = Some mb \<and> length (mb_msgs mb) = 1)"
  using pop3_session_invariant [OF demo_run] demo_deleted by (auto simp: pop3_ok_def mailbox_ok_def split: option.splits)

end
