(* ===== verification/Pop3_Deletion.thy ===== *)
theory Pop3_Deletion
  imports Pop3_Proofs "HOL-Library.Multiset"
begin

text \<open>
  When a POP3 session deletes: nothing it does depends on what \<open>unlink\<close> does before QUIT, and QUIT unlinks exactly the marked messages.
\<close>

section \<open>Without unlink\<close>

text \<open>The same system but for \<open>unlink\<close>.\<close>

abbreviation instead :: "'w ImapEnv \<Rightarrow> (string \<Rightarrow> 'w \<Rightarrow> bool \<times> 'w) \<Rightarrow> 'w ImapEnv" where
  "instead E u \<equiv> E\<lparr>ie_unlink := u\<rparr>"

lemma same_bind: "(\<And>x. f x = g x) \<Longrightarrow> m \<bind> f = m \<bind> g" for m :: "('s, 'a) state"
  by metis

lemma same_if: "(b \<Longrightarrow> x = x') \<Longrightarrow> (\<not> b \<Longrightarrow> y = y') \<Longrightarrow> (if b then x else y) = (if b then x' else y')"
  by simp

lemma same_option: "(v = None \<Longrightarrow> m = m') \<Longrightarrow> (\<And>x. v = Some x \<Longrightarrow> f x = f' x) \<Longrightarrow>
    (case v of None \<Rightarrow> m | Some x \<Rightarrow> f x) = (case v of None \<Rightarrow> m' | Some x \<Rightarrow> f' x)"
  by (cases v) auto

lemma same_prod: "(\<And>x y. v = (x, y) \<Longrightarrow> f x y = f' x y) \<Longrightarrow> (case v of (x, y) \<Rightarrow> f x y) = (case v of (x, y) \<Rightarrow> f' x y)"
  by (cases v) auto

lemma same_phase:
  "(v = PG_HDR \<Longrightarrow> a = a') \<Longrightarrow> (v = PG_BODY \<Longrightarrow> b = b') \<Longrightarrow> (v = PG_END \<Longrightarrow> c = c') \<Longrightarrow>
   (case v of PG_HDR \<Rightarrow> a | PG_BODY \<Rightarrow> b | PG_END \<Rightarrow> c | PG_DONE \<Rightarrow> d) = (case v of PG_HDR \<Rightarrow> a' | PG_BODY \<Rightarrow> b' | PG_END \<Rightarrow> c' | PG_DONE \<Rightarrow> d)"
  by (cases v) auto

named_theorems no_unlink \<open>operations that do not depend on unlink\<close>

lemma unlink_fields [no_unlink]:
  "ie_time (instead E u) = ie_time E"
  "ie_unique (instead E u) = ie_unique E"
  "ie_send (instead E u) = ie_send E"
  "ie_recv (instead E u) = ie_recv E"
  "ie_mkdir (instead E u) = ie_mkdir E"
  "ie_list (instead E u) = ie_list E"
  "ie_stat (instead E u) = ie_stat E"
  "ie_read (instead E u) = ie_read E"
  "ie_write (instead E u) = ie_write E"
  "ie_rename (instead E u) = ie_rename E"
  "ie_lock (instead E u) = ie_lock E"
  "ie_replace (instead E u) = ie_replace E"
  "ie_open (instead E u) = ie_open E"
  "ie_pread (instead E u) = ie_pread E"
  "ie_tls_setup (instead E u) = ie_tls_setup E"
  "ie_tls_handshake (instead E u) = ie_tls_handshake E"
  "ie_tls_read (instead E u) = ie_tls_read E"
  "ie_tls_write (instead E u) = ie_tls_write E"
  by simp_all

lemma unlink_mkdir [no_unlink]: "mkdir_all (instead E u) ps = mkdir_all E ps"
  by (induction ps) (simp_all only: mkdir_all.simps no_unlink)

lemma unlink_create_subs [no_unlink]: "create_subs (instead E u) dir ss = create_subs E dir ss"
  by (induction ss) (simp_all only: create_subs.simps imapd_mkdir_p_def no_unlink)

lemma unlink_files [no_unlink]:
  "imapd_mbox_create (instead E u) dir = imapd_mbox_create E dir"
  "new_mid (instead E u) path = new_mid E path"
  "mbox_save (instead E u) mb uv un v base = mbox_save E mb uv un v base"
  by (simp_all only: imapd_mbox_create_def new_mid_def imapd_read_hdr_def mbox_save_def no_unlink)

lemma unlink_scan [no_unlink]: "scan_file (instead E u) sd is_new bh = scan_file E sd is_new bh"
  by (intro ext) (simp only: scan_file_def no_unlink)

lemma unlink_move [no_unlink]: "move_new_files (instead E u) dir ms = move_new_files E dir ms"
  by (induction ms) (simp_all only: move_new_files.simps move_new_file_def no_unlink)

lemma unlink_peek [no_unlink]:
  "scan_subdir (instead E u) dir sub is_new bh sc = scan_subdir E dir sub is_new bh sc"
  "imapd_mbox_peek (instead E u) cfg user name = imapd_mbox_peek E cfg user name"
  by (simp_all only: scan_subdir_def imapd_mbox_peek_def mbox_scan_def scan_finish_def no_unlink)

lemma unlink_store [no_unlink]:
  "imapd_mbox_store (instead E u) mb uid flags = imapd_mbox_store E mb uid flags" "imapd_mbox_close (instead E u) mb = imapd_mbox_close E mb"
  by (simp_all only: imapd_mbox_store_def imapd_mbox_close_def no_unlink)

lemma unlink_tls [no_unlink]:
  "imapd_tls_start (instead E u) = imapd_tls_start E" "imapd_tls_handshake_step (instead E u) now = imapd_tls_handshake_step E now"
  "imapd_tls_recv (instead E u) = imapd_tls_recv E" "imapd_tls_send (instead E u) = imapd_tls_send E" "pflush_send (instead E u) = pflush_send E"
proof -
  show s: "imapd_tls_send (instead E u) = imapd_tls_send E" by (intro ext) (simp add: imapd_tls_send_def)
  show "pflush_send (instead E u) = pflush_send E" by (intro ext) (simp add: pflush_send_def s)
  show "imapd_tls_recv (instead E u) = imapd_tls_recv E" by (intro ext) (simp add: imapd_tls_recv_def)
qed (simp_all only: imapd_tls_start_def imapd_tls_handshake_step_def no_unlink)

lemma unlink_flush [no_unlink]: "pop3_flush (instead E u) = pop3_flush E"
  by (simp only: pop3_flush_def no_unlink)

lemma unlink_reply [no_unlink]: "pop3_reply (instead E u) tx = pop3_reply E tx"
  by (simp only: pop3_reply_def no_unlink)

lemma unlink_replyf [no_unlink]: "pop3_replyf (instead E u) tx = pop3_replyf E tx"
  by (simp only: pop3_replyf_def no_unlink)

lemma unlink_err [no_unlink]: "pop3_err (instead E u) msg = pop3_err E msg"
  by (simp only: pop3_err_def no_unlink)

lemma unlink_lines [no_unlink]: "list_lines (instead E u) what ns = list_lines E what ns"
  by (induction ns) (simp_all only: list_lines.simps no_unlink)

lemma unlink_pump_loop [no_unlink]: "pump_loop (instead E u) g = pump_loop E g"
proof (induction E g rule: pump_loop.induct)
  case (1 E g)
  have e: "ie_pread (instead E u) = ie_pread E" by simp
  show ?case unfolding pump_loop.simps [of "instead E u" g] pump_loop.simps [of E g] Let_def e no_unlink
    by (intro same_bind same_if same_phase same_prod refl) (rule 1; (assumption | rule refl | erule sym))+
qed

lemma unlink_cut_loop [no_unlink]: "top_cut_loop (instead E u) fd off fsize k = top_cut_loop E fd off fsize k"
proof (induction E fd off fsize k rule: top_cut_loop.induct)
  case (1 E fd off fsize k)
  have e: "ie_pread (instead E u) = ie_pread E" by simp
  show ?case unfolding top_cut_loop.simps [of "instead E u" fd off fsize k] top_cut_loop.simps [of E fd off fsize k] Let_def e
    by (intro same_bind same_if same_option refl) (rule 1; (assumption | rule refl))+
qed

lemma unlink_read_upto [no_unlink]: "read_upto (instead E u) fd want buf = read_upto E fd want buf"
proof (induction E fd want buf rule: read_upto.induct)
  case (1 E fd want buf)
  have e: "ie_pread (instead E u) = ie_pread E" by simp
  show ?case unfolding read_upto.simps [of "instead E u" fd want buf] read_upto.simps [of E fd want buf] Let_def e
    by (intro same_bind same_if same_option refl) (rule 1; (assumption | rule refl))+
qed

lemma unlink_stream [no_unlink]:
  "pop3_pump (instead E u) = pop3_pump E" "start_retr (instead E u) idx ln = start_retr E idx ln"
  by (simp_all only: pop3_pump_def start_retr_def top_cut_def no_unlink)

lemma unlink_commands [no_unlink]:
  "cmd_capa (instead E u) srv = cmd_capa E srv" "cmd_stls (instead E u) srv = cmd_stls E srv" "cmd_user (instead E u) srv arg = cmd_user E srv arg"
  "cmd_stat (instead E u) = cmd_stat E" "list_cmd (instead E u) arg what hdr = list_cmd E arg what hdr" "mark_seen (instead E u) i = mark_seen E i"
  "cmd_dele (instead E u) arg = cmd_dele E arg" "cmd_top (instead E u) arg = cmd_top E arg" "pass_login (instead E u) srv user = pass_login E srv user"
  by (simp_all only: cmd_capa_def cmd_stls_def cmd_user_def cmd_stat_def list_cmd_def mark_seen_def cmd_dele_def cmd_top_def pass_login_def open_inbox_def no_unlink)

lemma unlink_trans [no_unlink]:
  "cmd_pass (instead E u) srv arg = cmd_pass E srv arg" "pop3_trans_command (instead E u) word arg = pop3_trans_command E word arg"
  by (simp_all only: cmd_pass_def pop3_trans_command_def cmd_list_def cmd_uidl_def cmd_retr_def no_unlink)

section \<open>Deletion by QUIT only\<close>

text \<open>A session that has ended by QUIT after a login.\<close>

definition has_quit :: "PopConn \<Rightarrow> bool" where
  "has_quit c \<longleftrightarrow> p_pst c = PO_TRANS \<and> p_mb c = None"

lemma command_unlink:
  assumes "fine srv s"
  shows "run_state (pop3_command (instead E u) srv line) s = run_state (pop3_command E srv line) s \<or> has_quit (po_conn (exec (pop3_command E srv line) s))"
proof -
  let ?p = "dropWhile (\<lambda>c. c = SP) line"
  let ?word = "takeWhile (\<lambda>c. c \<noteq> SP) ?p"
  have other: "pop3_command (instead E u) srv line = pop3_command E srv line" if "\<not> ascii_ieq_str ?word ''QUIT''"
    using that unfolding pop3_command_def Let_def no_unlink by simp
  have quit: ?thesis if q: "pop3_command E srv line = pop3_quit E" "pop3_command (instead E u) srv line = pop3_quit (instead E u)"
  proof (cases "p_mb (po_conn s)")
    case None
    then have "run_state (pop3_quit (instead E u)) s = run_state (pop3_quit E) s" unfolding pop3_quit_def no_unlink by simp
    then show ?thesis using q by simp
  next
    case (Some mb)
    then have "p_pst (po_conn s) = PO_TRANS" using assms by (simp add: pop3_ok_def mailbox_ok_def)
    moreover obtain w t where t: "replies (s\<lparr>po_world := w, po_conn := (po_conn s)\<lparr>p_mb := None, p_del := [], p_ndel := 0\<rparr>\<rparr>) t"
      "exec (pop3_quit E) s = t\<lparr>po_conn := (po_conn t)\<lparr>p_closed := True\<rparr>\<rparr>" using quit_state [of s E] by blast
    ultimately have "has_quit (po_conn (exec (pop3_quit E) s))" using replies_same(1,2) [OF t(1)] by (simp add: has_quit_def)
    then show ?thesis using q by simp
  qed
  show ?thesis
  proof (cases "ascii_ieq_str ?word ''QUIT'' \<and> ?word \<noteq> [] \<and> length ?word < 8")
    case True
    then show ?thesis by (intro quit) (simp_all add: pop3_command_def)
  next
    case False
    then have "pop3_command (instead E u) srv line = pop3_command E srv line"
      using other unfolding pop3_command_def Let_def no_unlink by auto
    then show ?thesis by simp
  qed
qed

text \<open>After QUIT the rest of the event does nothing.\<close>

lemma quit_closed: "fine srv s \<Longrightarrow> has_quit (po_conn s) \<Longrightarrow> p_closed (po_conn s)"
  by (simp add: has_quit_def pop3_ok_def)

lemma line_unlink:
  assumes "fine srv s"
  shows "run_state (pop3_line (instead E u) srv) s = run_state (pop3_line E srv) s \<or> has_quit (po_conn (exec (pop3_line E srv) s))"
proof -
  let ?c = "po_conn s"
  let ?i = "length (takeWhile (\<lambda>c. c \<noteq> LF) (p_in ?c))"
  let ?raw = "take ?i (p_in ?c)"
  let ?line = "cstr (if ?raw \<noteq> [] \<and> last ?raw = CR then butlast ?raw else ?raw)"
  let ?s = "s\<lparr>po_conn := ?c\<lparr>p_in := drop (?i + 1) (p_in ?c)\<rparr>\<rparr>"
  show ?thesis
  proof (cases "p_closed ?c \<or> p_pg ?c \<noteq> None \<or> (p_tls ?c \<noteq> None \<and> \<not> imapd_tls_established (p_tls ?c)) \<or> ?i = length (p_in ?c) \<or> ?i > IMAPD_MAX_LINE")
    case True
    then show ?thesis unfolding pop3_line_def Let_def no_unlink by auto
  next
    case False
    have "fine srv ?s" using assms False by (auto simp: pop3_ok_def mailbox_ok_def cleartext_ok_def split: option.splits)
    note c = command_unlink [OF this, of u E ?line]
    have x: "run_state (pop3_line F srv) s = (let t = exec (pop3_command F srv ?line) ?s in (\<not> (p_closed (po_conn t) \<or> p_pg (po_conn t) \<noteq> None), t))" for F
      using False by (auto simp: pop3_line_def Let_def)
    show ?thesis unfolding x Let_def using c by auto
  qed
qed

lemma lines_unlink:
  assumes "fine srv s"
  shows "exec (pop3_lines (instead E u) srv n) s = exec (pop3_lines E srv n) s \<or> has_quit (po_conn (exec (pop3_lines E srv n) s))"
  using assms
proof (induction n arbitrary: s)
  case (Suc n)
  have f: "fine srv (exec (pop3_line E srv) s)" using tripleD [OF fine_line Suc.prems] .
  have stop: "exec (pop3_lines E srv k) t = t" if "p_closed (po_conn t)" for k t using that by (cases k) (simp_all add: pop3_line_def Let_def)
  from line_unlink [OF Suc.prems, of u E] show ?case
  proof
    assume "has_quit (po_conn (exec (pop3_line E srv) s))"
    then show ?thesis using stop [OF quit_closed [OF f]] by simp
  qed (use Suc.IH [OF f] in auto)
qed simp

abbreviation handshaking :: "'w Pop \<Rightarrow> bool" where
  "handshaking s \<equiv> imapd_tls_handshaking (p_tls (po_conn s))"

text \<open>Both systems do the same, unless the session quits.\<close>

definition agree :: "('w Pop, 'a) state \<Rightarrow> ('w Pop, 'b) state \<Rightarrow> 'w Pop \<Rightarrow> bool" where
  "agree m n s \<longleftrightarrow> exec m s = exec n s \<or> has_quit (po_conn (exec n s))"

lemma take_unlink:
  assumes "fine srv s" "\<not> handshaking s"
  shows "agree (pop3_take (instead E u) srv now bs) (pop3_take E srv now bs) s"
proof -
  let ?s = "s\<lparr>po_conn := (po_conn s)\<lparr>p_last_act := now, p_in := p_in (po_conn s) @ bs\<rparr>\<rparr>"
  have "fine srv ?s" using assms by (auto simp: pop3_ok_def mailbox_ok_def cleartext_ok_def split: option.splits)
  from lines_unlink [OF this] show ?thesis unfolding agree_def pop3_take_def pop3_commands_def by (simp del: pop3_lines.simps)
qed

lemma established_not: "imapd_tls_established t \<Longrightarrow> \<not> imapd_tls_handshaking t"
  by (auto simp: imapd_tls_handshaking_def imapd_tls_established_def split: option.splits)

lemma drain_unlink: "fine srv s \<Longrightarrow> agree (pop3_drain (instead E u) srv k now) (pop3_drain E srv k now) s"
proof (induction k arbitrary: s)
  case 0
  show ?case by (simp add: agree_def)
next
  case (Suc k)
  let ?c = "po_conn s"
  obtain r w where r: "imapd_tls_recv E ?c IMAPD_RECV_CHUNK (po_world s) = (r, w)" by force
  let ?s = "s\<lparr>po_world := w\<rparr>"
  show ?case
  proof (cases "\<exists>bs. r = Inr bs \<and> bs \<noteq> []")
    case False
    then show ?thesis using r by (cases r) (auto simp: agree_def no_unlink)
  next
    case True
    then obtain bs where bs: "r = Inr bs" "bs \<noteq> []" by blast
    then have "imapd_tls_established (p_tls ?c)" using r by (auto simp: imapd_tls_recv_def split: if_splits)
    then have h: "fine srv ?s" "\<not> handshaking ?s" using Suc.prems established_not by auto
    let ?t = "exec (pop3_take E srv now bs) ?s"
    have f: "fine srv ?t" using tripleD [OF fine_take, of srv ?s] h by simp
    have x: "exec (pop3_drain F srv (Suc k) now) s = (let t = exec (pop3_take F srv now bs) ?s in
        if p_closed (po_conn t) \<or> p_pg (po_conn t) \<noteq> None then t else exec (pop3_drain F srv k now) t)" if "imapd_tls_recv F = imapd_tls_recv E" for F
      using r bs that by (simp add: Let_def)
    show ?thesis using take_unlink [OF h, of u E now bs] Suc.IH [OF f] quit_closed [OF f]
      unfolding agree_def x [OF unlink_tls(3)] x [OF refl] by (auto simp: Let_def)
  qed
qed

lemma readable_unlink: "fine srv s \<Longrightarrow> agree (pop3_readable (instead E u) srv k now) (pop3_readable E srv k now) s"
proof (cases "p_tls (po_conn s)")
  case (Some t)
  assume "fine srv s"
  then show ?thesis using Some drain_unlink [of srv s u E k now] by (auto simp: agree_def pop3_readable_def)
next
  case None
  assume ok: "fine srv s"
  obtain r w where r: "ie_recv E (p_fd (po_conn s)) IMAPD_RECV_CHUNK (po_world s) = (r, w)" by force
  have h: "fine srv (s\<lparr>po_world := w\<rparr>)" "\<not> handshaking (s\<lparr>po_world := w\<rparr>)" using None ok by (simp_all add: imapd_tls_handshaking_def)
  show ?thesis using None r take_unlink [OF h, of u E now] by (cases r) (auto simp: agree_def pop3_readable_def)
qed

lemma advance_unlink:
  assumes "fine srv s" "handshaking s"
  shows "agree (imapd_tls_advance (instead E u) srv k now) (imapd_tls_advance E srv k now) s"
proof -
  obtain r t where r: "run_state (imapd_tls_handshake_step E now) s = (r, t)" by force
  show ?thesis
  proof (cases "r = HS_done")
    case True
    let ?t = "t\<lparr>po_conn := pop3_tls_reset (po_conn t)\<rparr>"
    have "fine srv ?t" using assms r by (auto simp: imapd_tls_handshake_step_def handshake_done_def pop3_tls_reset_def pop3_ok_def mailbox_ok_def cleartext_ok_def
          imapd_tls_handshaking_def imapd_tls_established_def Let_def split_beta split: option.splits if_splits mbed_code.splits)
    then show ?thesis using readable_unlink [of srv ?t u E k now] r True unfolding agree_def imapd_tls_advance_def no_unlink by simp
  qed (use r in \<open>cases r, auto simp: agree_def imapd_tls_advance_def no_unlink\<close>)
qed

lemma event_unlink:
  assumes "fine srv s"
  shows "agree (pop3_event (instead E u) srv k now rin rout) (pop3_event E srv k now rin rout) s"
proof -
  let ?c = "po_conn s" and ?f = "exec (pop3_flush E) s"
  have fl: "fine srv ?f" using assms fine_replies [OF replying.io_apply [OF replies_flush]] by blast
  have tls: "p_tls (po_conn ?f) = p_tls ?c" by (rule replies_same(3) [OF replying.io_apply [OF replies_flush]])
  have pend: "imapd_tls_pending t \<Longrightarrow> imapd_tls_handshaking t" for t by (auto simp: imapd_tls_pending_def imapd_tls_handshaking_def split: option.splits)
  have rd: "agree (pop3_readable (instead E u) srv k now) (pop3_readable E srv k now) s" by (rule readable_unlink [OF assms])
  have rf: "fine srv (exec (pop3_readable E srv k now) s)" by (rule tripleD [OF fine_readable assms])
  show ?thesis
  proof (cases "p_closed ?c \<or> p_pg ?c \<noteq> None")
    case True
    then show ?thesis unfolding agree_def pop3_event_def no_unlink by auto
  next
    case open_conn: False
    show ?thesis
    proof (cases "handshaking s")
      case True
      have "agree (imapd_tls_advance (instead E u) srv k now) (imapd_tls_advance E srv k now) ?f" using True tls by (intro advance_unlink [OF fl]) simp
      then show ?thesis using open_conn True advance_unlink [OF assms True, of u E k now] pend unfolding agree_def pop3_event_def no_unlink by auto
    next
      case False
      then have "\<not> imapd_tls_pending (p_tls ?c)" using pend by blast
      then show ?thesis using open_conn False rd quit_closed [OF rf] unfolding agree_def pop3_event_def no_unlink by auto
    qed
  qed
qed

lemma destroy_unlink: "pop3_destroy (instead E u) = pop3_destroy E"
  by (simp only: pop3_destroy_def no_unlink)

section \<open>What QUIT deletes\<close>

text \<open>The messages with and without a mark.\<close>

definition with_mark :: "bool \<Rightarrow> bool list \<Rightarrow> Imail list \<Rightarrow> Imail list" where
  "with_mark b del ms = map fst (filter (\<lambda>(m, d). d = b) (zip ms del))"

fun unlink_all :: "'w ImapEnv \<Rightarrow> string list \<Rightarrow> 'w \<Rightarrow> 'w" where
  "unlink_all E [] w = w"
| "unlink_all E (p # ps) w = unlink_all E ps (snd (ie_unlink E p w))"

lemma with_mark_Suc:
  "i < length ms \<Longrightarrow> i < length del \<Longrightarrow> with_mark b del (take (Suc i) ms) = with_mark b del (take i ms) @ (if del ! i = b then [ms ! i] else [])"
proof (induction ms arbitrary: i del)
  case (Cons m ms)
  then obtain d ds where "del = d # ds" by (cases del) auto
  then show ?case using Cons by (cases i) (auto simp: with_mark_def)
qed simp

lemma index_distinct: "distinct (map m_uid ms) \<Longrightarrow> i < length ms \<Longrightarrow> mbox_index ms (m_uid (ms ! i)) = Some i"
  by (induction ms arbitrary: i) (auto simp: nth_Cons' split: if_splits)

lemma uidmap_index_set: "uidmap_index v uid = None \<longleftrightarrow> uid \<notin> u_uid ` set v" "uidmap_index v uid = Some j \<Longrightarrow> j < length v \<and> u_uid (v ! j) = uid"
proof -
  show "uidmap_index v uid = None \<longleftrightarrow> uid \<notin> u_uid ` set v" by (induction v) (auto split: if_splits)
  show "uidmap_index v uid = Some j \<Longrightarrow> j < length v \<and> u_uid (v ! j) = uid" by (induction v arbitrary: j) (auto split: if_splits)
qed

text \<open>A row is removed by putting the last one in its place.\<close>

lemma swap_remove_mset:
  assumes "j < length v"
  shows "mset (butlast (v[j := last v])) = mset v - {#v ! j#}"
proof -
  have ne: "v[j := last v] \<noteq> []" "v \<noteq> []" using assms by auto
  have "last (v[j := last v]) = last v" using ne(2) by (simp add: last_list_update)
  then have "mset (v[j := last v]) = mset (butlast (v[j := last v])) + {#last v#}" using append_butlast_last_id [OF ne(1)] by (metis mset.simps mset_append)
  moreover have "mset (v[j := last v]) = add_mset (last v) (mset v - {#v ! j#})" using assms by (rule mset_update)
  ultimately show ?thesis by simp
qed

lemma remove_uids:
  assumes "distinct (map u_uid (mb_uidmap mb))"
  shows "u_uid ` set (mb_uidmap (uidmap_remove mb uid)) = u_uid ` set (mb_uidmap mb) - {uid}" "distinct (map u_uid (mb_uidmap (uidmap_remove mb uid)))"
    "mb_msgs (uidmap_remove mb uid) = mb_msgs mb"
proof -
  let ?v = "mb_uidmap mb"
  have "mset (map u_uid (mb_uidmap (uidmap_remove mb uid))) = mset (map u_uid ?v) - {#uid#}"
  proof (cases "uidmap_index ?v uid")
    case None
    then have "uid \<notin># mset (map u_uid ?v)" using uidmap_index_set(1) [of ?v uid] by auto
    then show ?thesis using None by (simp add: uidmap_remove_def diff_single_trivial)
  next
    case (Some j)
    note j = uidmap_index_set(2) [OF Some]
    have "mset (map u_uid (butlast (?v[j := last ?v]))) = image_mset u_uid (mset ?v - {#?v ! j#})" using swap_remove_mset [of j ?v] j by simp
    also have "\<dots> = mset (map u_uid ?v) - {#uid#}" using j by (simp add: image_mset_Diff)
    finally show ?thesis using Some by (simp add: uidmap_remove_def Let_def)
  qed
  then have m: "mset (map u_uid (mb_uidmap (uidmap_remove mb uid))) = mset (remove1 uid (map u_uid ?v))" by simp
  show "u_uid ` set (mb_uidmap (uidmap_remove mb uid)) = u_uid ` set ?v - {uid}" using mset_eq_setD [OF m] assms by (simp add: set_remove1_eq)
  show "distinct (map u_uid (mb_uidmap (uidmap_remove mb uid)))" using mset_eq_imp_distinct_iff [OF m] assms by (simp add: distinct_remove1)
  show "mb_msgs (uidmap_remove mb uid) = mb_msgs mb" by (simp add: uidmap_remove_def Let_def split: option.split)
qed

lemma expunge_marked_exact:
  assumes "n \<le> length (mb_msgs mb)" "n \<le> length del" "distinct (map m_uid (mb_msgs mb))" "distinct (map u_uid (mb_uidmap mb))"
  shows "exec (expunge_marked E del n mb) w = unlink_all E (map m_path (rev (with_mark True del (take n (mb_msgs mb))))) w \<and>
    mb_msgs (eval (expunge_marked E del n mb) w) = with_mark False del (take n (mb_msgs mb)) @ drop n (mb_msgs mb) \<and>
    u_uid ` set (mb_uidmap (eval (expunge_marked E del n mb) w)) = u_uid ` set (mb_uidmap mb) - m_uid ` set (with_mark True del (take n (mb_msgs mb)))"
  using assms
proof (induction n arbitrary: mb w)
  case 0
  then show ?case by (simp add: with_mark_def)
next
  case (Suc i)
  let ?ms = "mb_msgs mb"
  have i: "i < length ?ms" "i < length del" using Suc.prems by auto
  note suc = with_mark_Suc [OF i] and idx = index_distinct [OF Suc.prems(3) i(1)]
  show ?case
  proof (cases "del ! i")
    case False
    then show ?thesis using Suc.IH [of mb w] Suc.prems i by (simp add: suc Cons_nth_drop_Suc)
  next
    case True
    let ?m = "?ms ! i"
    let ?mb = "uidmap_remove (drop_msg i mb) (m_uid ?m)" and ?w = "snd (ie_unlink E (m_path ?m) w)"
    have d: "distinct (map u_uid (mb_uidmap (drop_msg i mb)))" using Suc.prems(4) by (simp add: drop_msg_def)
    note rm = remove_uids [OF d, of "m_uid ?m"]
    have ms: "mb_msgs ?mb = take i ?ms @ drop (Suc i) ?ms" using rm(3) by (simp add: drop_msg_def)
    have dm: "distinct (map m_uid (mb_msgs ?mb))" using distinct_take [OF Suc.prems(3), of i] distinct_drop [OF Suc.prems(3), of "Suc i"]
        set_take_disj_set_drop_if_distinct [OF Suc.prems(3), of i "Suc i"]
      unfolding ms by (simp add: take_map drop_map)
    have ex: "run_state (expunge_marked E del (Suc i) mb) w = run_state (expunge_marked E del i ?mb) ?w" using True i idx by (simp add: imapd_mbox_expunge_def)
    have tk: "take i (mb_msgs ?mb) = take i ?ms" "drop i (mb_msgs ?mb) = drop (Suc i) ?ms" using ms i(1) by (simp_all add: min_def)
    have le: "i \<le> length (mb_msgs ?mb)" using ms i(1) by simp
    note ih = Suc.IH [OF le less_imp_le [OF i(2)] dm rm(2), of ?w, unfolded tk]
    have u: "mb_uidmap (drop_msg i mb) = mb_uidmap mb" by (simp add: drop_msg_def)
    have on: "with_mark True del (take (Suc i) ?ms) = with_mark True del (take i ?ms) @ [?m]" "with_mark False del (take (Suc i) ?ms) = with_mark False del (take i ?ms)"
      using True suc by simp_all
    show ?thesis unfolding ex on using ih rm(1) unfolding u by (simp add: Diff_insert2 [symmetric] insert_commute)
  qed
qed

section \<open>Properties\<close>

text \<open>
  C18. A POP3 session deletes by QUIT only: in every event of every session that does not end it by QUIT, and when a dropped connection is cleaned up, what
  happens does not depend on \<open>unlink\<close>; with another \<open>unlink\<close> in its place the connection, the files and everything else are the same.
\<close>

theorem pop3_deletes_on_quit_only:
  assumes "pop3_run E srv s" "\<not> has_quit (po_conn (exec (pop3_event E srv k now rin rout) s))"
  shows "exec (pop3_event (E\<lparr>ie_unlink := u\<rparr>) srv k now rin rout) s = exec (pop3_event E srv k now rin rout) s \<and>
    exec (pop3_destroy (E\<lparr>ie_unlink := u\<rparr>)) s = exec (pop3_destroy E) s"
  using event_unlink [OF run_fine [OF assms(1)], of u E k now rin rout] assms(2) by (auto simp: agree_def destroy_unlink)

lemma demo_not_quit: "\<not> has_quit (po_conn (exec (pop3_event pop_env demo_srv 1 10 True True) demo_accepted))"
  unfolding demo_session_def [symmetric] using quit_closed [OF run_fine [OF demo_run]] demo_deleted by auto

theorem pop3_deletes_on_quit_only_witness:
  "p_del (po_conn (exec (pop3_event (pop_env\<lparr>ie_unlink := (\<lambda>p. Pair False)\<rparr>) demo_srv 1 10 True True) demo_accepted)) = [True]"
proof -
  have "pop3_run pop_env demo_srv demo_accepted" unfolding demo_accepted_def by (rule pop3_run.intros)
  from pop3_deletes_on_quit_only [OF this demo_not_quit, of "\<lambda>p. Pair False"] show ?thesis using demo_deleted by (simp add: demo_session_def)
qed


definition demo_mail :: "u32 \<Rightarrow> string \<Rightarrow> Imail" where
  "demo_mail uid base = \<lparr>m_uid = uid, m_flags = 0, m_unk = [], m_recent = False, m_date = 0, m_size = 3, m_modseq = 1, m_base = base,
     m_path = ''/m/'' @ base, m_mid = None\<rparr>"

definition demo_mbox :: Mbox where
  "demo_mbox = (empty_mbox ''/m'')\<lparr>mb_msgs := [demo_mail 3 ''a'', demo_mail 5 ''b'', demo_mail 6 ''c''],
     mb_uidmap := map (\<lambda>(n, b). \<lparr>u_base = b, u_mid = None, u_uid = n, u_modseq = 1\<rparr>) [(3, ''a''), (5, ''b''), (6, ''c'')]\<rparr>"


end
