(* ===== verification/Spec2Isabelle.thy ===== *)
theory Spec2Isabelle
  imports Mail_Address Mail_Sanitize Http_Parse Json_Proofs Store_Properties Reply_Proofs
    Smtp_Data_Proofs Smtp_Delivery_Proofs Smtp_Session_Proofs Admin_Proofs Smtp_Loop_Safety
    Smtp_Relay_Tls Outbox_Submit_Proofs Outbox_Deliver_Proofs Maildir_Uidlist_Proofs Pop3_Deletion
begin

text \<open>
  Verification of the visage mail system.

  \<^bold>\<open>The program.\<close> visage (C11, sources in \<open>src/src\<close>) is a mail alias and forwarding daemon. An inbound SMTP server
  accepts mail for the aliases of the configured domains, rewrites it so that replies come back through a reverse alias, spools it and
  forwards it through a relay; a small HTTP server in the same poll loop is its admin interface; aliases, reverse aliases, log and delivery queue
  live in an embedded datalog store. Next to it is \<open>outbox\<close>, the submission server: authenticated users hand in mail
  over TLS, which a worker thread delivers directly to the MX hosts of the recipients. Further binaries (IMAP, POP3, JMAP) serve the
  delivered mail from a maildir.

  \<^bold>\<open>Theories and sources.\<close> Models and proofs are separate theories where a component is large.
  \<^item> \<open>Visage_Prelude\<close>, \<open>Visage_Monad\<close>, \<open>Visage_Config\<close>: bytes, C strings, words, error codes; the state monad with its two proof
    principles (\<open>state_io_rel\<close>: a preorder between the states before and after; \<open>triple\<close>: Hoare triples); the configuration record (\<open>config.h\<close>).
  \<^item> \<open>Mail_Body\<close>, \<open>Mail_Address\<close>, \<open>Mail_Fields\<close>, \<open>Mail_Headers\<close>, \<open>Mail_Sanitize\<close> (\<open>mail.c\<close>): line ends and dot stuffing, address
    grammar, header access, the rewriting of a forwarded message.
  \<^item> \<open>Http_Parse\<close> (\<open>http_parse.c\<close>), \<open>Json_Text\<close> and \<open>Json_Proofs\<close> (\<open>json.c\<close>): the incremental request probe; UTF-8 and JSON escaping, the builder and the member readers.
  \<^item> \<open>Store_Engine\<close>, \<open>Store_Model\<close>, \<open>Store_Invariant\<close>, \<open>Store_Properties\<close> (\<open>store.c\<close>). The datalog engine is a git submodule: its operations are
    the record \<open>dl_engine\<close>, its laws the locale \<open>dl_provider\<close>, interpreted on a list of facts.
  \<^item> \<open>Reply_Routing\<close>, \<open>Reply_Proofs\<close> (\<open>reply.c\<close>): tokens, reverse addresses, the removal of reverse addresses from headers.
  \<^item> \<open>Smtp_Data\<close>, \<open>Smtp_Conn\<close>, \<open>Smtp_Delivery\<close>, \<open>Smtp_Session\<close>, \<open>Smtp_Loop\<close> with \<open>Smtp_World\<close>, \<open>Smtp_Frames\<close> and their proof theories
    (\<open>smtp_in.c\<close>, \<open>smtp_in_tls.c\<close>): the DATA scanner, connections and TLS, routing and the durable queue, the session, the poll loop and start-up.
  \<^item> \<open>Admin_Api\<close>, \<open>Admin_Proofs\<close> (\<open>admin.c\<close>), \<open>Http_Server\<close> (\<open>http.c\<close>): the admin interface and its connections.
  \<^item> \<open>Base64\<close> (the encoder of \<open>smtp_out.c\<close>, the decoders of \<open>outbox_auth.c\<close> and \<open>imap_maildir.c\<close>), \<open>Smtp_Out\<close>, \<open>Smtp_Relay\<close>, \<open>Smtp_Relay_Proofs\<close>, \<open>Smtp_Relay_Tls\<close>
    (\<open>smtp_out.c\<close>): the blocking relay client with its dialogue, TLS modes and retries.
  \<^item> \<open>Outbox_Auth\<close>, \<open>Outbox_Submit\<close>, \<open>Outbox_Queue\<close>, \<open>Outbox_Deliver\<close> and their proof theories (\<open>outbox_auth.c\<close>, \<open>outbox_submit.c\<close>, \<open>outbox_deliver.c\<close>, parts of
    \<open>outbox_main.c\<close>): credentials and lockout, the submission session, the delivery queue and the worker.
  \<^item> \<open>Maildir_Names\<close>, \<open>Maildir_Uidlist\<close>, \<open>Maildir_Hash_Proofs\<close> and their proof theories (\<open>imap_maildir.c\<close>): flags in file names, message sets, wildcards, user and mailbox names and
    directories; the table of message numbers with its hash tables (one locale \<open>probing\<close>, interpreted on both), its file, the merge of a session with the disk, and the locked save.
  \<^item> \<open>Maildir_Mbox\<close> (\<open>imap_maildir.c\<close>): the view of a mailbox, its scan, flag changes, deletion, delivery and registration, closing.
  \<^item> \<open>Pop3_Session\<close>, \<open>Pop3_Stream\<close>, \<open>Pop3_Proofs\<close>, \<open>Pop3_Deletion\<close> (\<open>pop3d.c\<close>, \<open>imapd_tls.c\<close>, the handling of POP3 connections in \<open>imapd.c\<close>): the POP3 server with its TLS
    layer, what a client receives of a message, the invariant of a connection over all its events, and when and what a session deletes.

  \<^bold>\<open>State and operations.\<close> A C struct is a record with the same fields (a pointer with its length is a list), a C function is a definition
  of the same name with every branch and early return; stateful functions are computations in the state monad over the record of the server, and operating
  system, network, TLS library, clock and random bytes are functions of an environment record that also change an abstract world, so theorems
  hold for every behaviour of the outside. Allocation failure is not modelled. Integers whose wrap-around matters are words of their C width.

  \<^bold>\<open>What is proved.\<close> Each property is stated after a text block that begins with its number. In groups:
  accepted mail is durable, and is neither lost nor duplicated in the queues (store, spool, and the two threads of \<open>outbox\<close> in every interleaving); the session and
  slot tables of the running daemon keep their invariants from start-up on; TLS upgrades carry nothing over from plaintext and mandatory TLS
  fails closed; authentication gates (admin token, submission policy, lockout, confinement of relay credentials); the text transformations are exact (dot stuffing, CRLF, DATA scan, header
  rewriting, base64, JSON, addresses) against reference definitions; loops terminate within bounds, resources stay within their caps.
  Refinements: the alias table of the store implements a set of pairs, the lockout table a map from addresses to counters. The numbers of messages stay unique under saves of any sessions, and a POP3 client
  reads a message back exactly, whatever the socket takes at a time, and deletes by QUIT only and exactly what it has marked. Interfaces
  are locales (\<open>dl_provider\<close>, \<open>mail_system\<close>, \<open>coding\<close>, \<open>probing\<close>, \<open>pop3_wire\<close>, \<open>stepwise\<close>, \<open>state_preorder\<close>), each interpreted on the definitions of the model.

  \<^bold>\<open>Fuel.\<close> A session that reads pipelined input takes fuel; \<open>session_reading_terminates\<close> gives the bound in the bytes at hand from which on the result no longer depends on
  it. The relay client takes fuel for the continuation lines of one reply, which the code does not bound; running out
  is recorded as stalled and ends like a lost connection. The delivery worker takes fuel for its turns; \<open>worker_drains\<close> shows how much is enough. The lines of
  POP3 input are taken as often as there are bytes, which is enough as each takes one; the reads of a POP3 session over TLS take fuel, as the code does not bound them, and
  running out is recorded as stalled.

  \<^bold>\<open>Not modelled.\<close> The Dhall evaluation that fills the configuration (\<open>config.c\<close>), DKIM signing (\<open>dkim.c\<close>) and the evaluation of SPF, DKIM and DMARC
  (\<open>auth_results.c\<close>), which are parameters of the forwarding model; command lines and usage texts; the IMAP and JMAP protocols, the ingestion of mail (\<open>imapd_ingest.c\<close>), and the cache of header fields and
  the listing and removal of mailboxes in \<open>imap_maildir.c\<close>;
  test programs, benchmarks, fuzzers and the generated CA bundle.
\<close>

end
